(* ===== verification/TsPrelude.thy ===== *)
theory TsPrelude
  imports Main "HOL-Library.Word" "HOL-Library.Signed_Division"
begin

text \<open>
  Shared vocabulary of the development: the 32-bit C integers of the target, the faults a
  C program can run into, and the list and word lemmas every component uses.

  The target is a 32-bit ARM: \<open>int\<close> and \<open>long\<close> are 32 bits wide. A signed C integer is
  an \<open>int\<close> and every arithmetic result is brought back to its width by \<open>s32\<close>; an
  unsigned C integer is a \<open>32 word\<close>. A C array is a list.
\<close>

unbundle bit_operations_syntax

named_theorems cint_simps \<open>wrap-around of signed 32-bit arithmetic\<close>
named_theorems flag_simps \<open>single-bit tests on flag words\<close>
named_theorems mem_simps \<open>lengths and elements after block moves\<close>

type_synonym bytes = "8 word list"

subsection \<open>Faults\<close>

text \<open>
  What the hardware or the runtime does instead of a result. A model that can fault has the
  result type \<open>fault + 'a\<close>.
\<close>

datatype fault = NullDeref | WildPointer | DivByZero | OutOfBounds | StackOverflow | ConvOverflow | ProcessExit int

subsection \<open>Signed 32-bit arithmetic\<close>

definition s32 :: "int \<Rightarrow> int" where
  "s32 v = (v + 2147483648) mod 4294967296 - 2147483648"

definition in_s32 :: "int \<Rightarrow> bool" where
  "in_s32 v \<longleftrightarrow> - 2147483648 \<le> v \<and> v < 2147483648"

definition memmove_down :: "'a list \<Rightarrow> nat \<Rightarrow> nat \<Rightarrow> 'a list" where
  "memmove_down b s n = take s b @ take n (drop (s + 1) b) @ drop (s + n) b"

text \<open>A read of a C array at a signed index.\<close>

definition arr_get :: "'a list \<Rightarrow> int \<Rightarrow> fault + 'a" where
  "arr_get a i = (if 0 \<le> i \<and> i < int (length a) then Inr (a ! nat i) else Inl OutOfBounds)"

lemma arr_get_Inr [simp]: "0 \<le> i \<Longrightarrow> i < int (length a) \<Longrightarrow> arr_get a i = Inr (a ! nat i)"
  by (simp add: arr_get_def)

text \<open>A store into a C array, and the copy of a block of values into one.\<close>

definition arr_put :: "nat \<Rightarrow> 'a \<Rightarrow> 'a list \<Rightarrow> fault + 'a list" where
  "arr_put i v a = (if i < length a then Inr (a[i := v]) else Inl OutOfBounds)"

definition blit :: "nat \<Rightarrow> 'a list \<Rightarrow> 'a list \<Rightarrow> 'a list" where
  "blit i xs a = take i a @ xs @ drop (i + length xs) a"

definition arr_copy :: "nat \<Rightarrow> 'a list \<Rightarrow> 'a list \<Rightarrow> fault + 'a list" where
  "arr_copy i xs a = (if i + length xs \<le> length a then Inr (blit i xs a) else Inl OutOfBounds)"

text \<open>Two steps in sequence; the first fault ends them.\<close>

definition bindr :: "fault + 'a \<Rightarrow> ('a \<Rightarrow> fault + 'b) \<Rightarrow> fault + 'b" where
  "bindr r f = (case r of Inl e \<Rightarrow> Inl e | Inr x \<Rightarrow> f x)"

lemma bindr_simps [simp]: "bindr (Inr x) f = f x" "bindr (Inl e) f = Inl e"
  by (simp_all add: bindr_def)

lemma bindr_eq_InrE:
  assumes "bindr r f = Inr y"
  obtains x where "r = Inr x" and "f x = Inr y"
  using assms by (cases r) auto

lemma s32_id [cint_simps]: "in_s32 v \<Longrightarrow> s32 v = v"
  by (simp add: s32_def in_s32_def)

lemma in_s32_s32 [simp, intro]: "in_s32 (s32 v)"
  by (simp add: s32_def in_s32_def)

lemma s32_s32 [simp]: "s32 (s32 v) = s32 v"
  by (simp add: s32_id)

lemma s32_eq_sint: "s32 v = sint (word_of_int v :: 32 word)"
  by (simp add: s32_def int_word_sint)

lemma s32_eqI: "a mod 4294967296 = b mod 4294967296 \<Longrightarrow> s32 a = s32 b"
  using mod_add_cong [of a 4294967296 b 2147483648 2147483648] by (simp add: s32_def)

lemma s32_mod: "s32 v mod 4294967296 = v mod 4294967296"
  by (simp add: s32_def mod_simps)

lemma s32_add_absorb [simp]:
  "s32 (s32 a + b) = s32 (a + b)" "s32 (a + s32 b) = s32 (a + b)"
  by (rule s32_eqI; metis s32_mod mod_add_left_eq mod_add_right_eq)+

lemma s32_diff_absorb [simp]:
  "s32 (s32 a - b) = s32 (a - b)" "s32 (a - s32 b) = s32 (a - b)"
  by (rule s32_eqI; metis s32_mod mod_diff_left_eq mod_diff_right_eq)+

lemma s32_mult_absorb [simp]:
  "s32 (s32 a * b) = s32 (a * b)" "s32 (a * s32 b) = s32 (a * b)"
  by (rule s32_eqI; metis s32_mod mod_mult_left_eq mod_mult_right_eq)+

text \<open>A sum of several wrapped terms wraps to the same value as the sum of the terms.\<close>

lemma s32_sum6: "s32 (k + s32 a + s32 b + s32 c + s32 d + s32 e) = s32 (k + a + b + c + d + e)"
  by (simp only: s32_eq_sint of_int_add of_int_sint scast_id)

lemma in_s32_small [simp]:
  "\<bar>v\<bar> \<le> 2147483647 \<Longrightarrow> in_s32 v"
  by (auto simp: in_s32_def)

lemma and_3_eq_mod [simp]: "(k::int) AND 3 = k mod 4"
proof -
  have "k AND mask 2 = take_bit 2 k" by (simp add: take_bit_eq_mask)
  then show ?thesis by (simp add: mask_eq_exp_minus_1 take_bit_eq_mod)
qed

lemma and_15_eq_mod: "(k::int) AND 15 = k mod 16"
proof -
  have "k AND mask 4 = take_bit 4 k" by (simp add: take_bit_eq_mask)
  then show ?thesis by (simp add: mask_eq_exp_minus_1 take_bit_eq_mod)
qed

lemma and_127_eq_take_bit: "(k::int) AND 127 = take_bit 7 k"
proof -
  have "k AND mask 7 = take_bit 7 k" by (simp add: take_bit_eq_mask)
  then show ?thesis by (simp add: mask_eq_exp_minus_1)
qed

text \<open>Shifting one number above the bits of another is addition.\<close>

lemma push_bit_or_take_bit: "push_bit n (h::int) OR take_bit n l = push_bit n h + take_bit n l"
  using concat_bit_eq [of n l h] by (simp add: concat_bit_def or.commute add.commute)

subsection \<open>Flag words\<close>

lemma and_bit_eq_0_iff [flag_simps]:
  "(w :: 32 word) AND 1 = 0 \<longleftrightarrow> \<not> bit w 0"
  "(w :: 32 word) AND 2 = 0 \<longleftrightarrow> \<not> bit w 1"
  "(w :: 32 word) AND 4 = 0 \<longleftrightarrow> \<not> bit w 2"
  "(w :: 32 word) AND 8 = 0 \<longleftrightarrow> \<not> bit w 3"
proof -
  have *: "w AND 2 ^ n = 0 \<longleftrightarrow> \<not> bit w n" if "n < 32" for w :: "32 word" and n
    using that by (simp add: and_exp_eq_0_iff_not_bit)
  show "w AND 1 = 0 \<longleftrightarrow> \<not> bit w 0" "w AND 2 = 0 \<longleftrightarrow> \<not> bit w 1"
    "w AND 4 = 0 \<longleftrightarrow> \<not> bit w 2" "w AND 8 = 0 \<longleftrightarrow> \<not> bit w 3"
    using *[of 0 w] *[of 1 w] *[of 2 w] *[of 3 w] by simp_all
qed

subsection \<open>Lists as C arrays\<close>

lemma length_memmove_down [simp, mem_simps]:
  "s + n < length b \<Longrightarrow> length (memmove_down b s n) = length b"
  by (simp add: memmove_down_def)

lemma take_memmove_down [mem_simps]:
  "s + n < length b \<Longrightarrow> take s (memmove_down b s n) = take s b"
  by (simp add: memmove_down_def)

lemma drop_memmove_down [mem_simps]:
  "s + n < length b \<Longrightarrow> k \<ge> s + n \<Longrightarrow> drop k (memmove_down b s n) = drop k b"
  by (simp add: memmove_down_def)

lemma take_drop_memmove_down [mem_simps]:
  "s + n < length b \<Longrightarrow> take n (drop s (memmove_down b s n)) = take n (drop (s + 1) b)"
  by (simp add: memmove_down_def)

lemma take_drop_memmove_down_le [mem_simps]:
  assumes "s + n < length b" "k \<le> n"
  shows "take k (drop s (memmove_down b s n)) = take k (drop (Suc s) b)"
proof -
  have "take k (take n (drop s (memmove_down b s n))) = take k (take n (drop (s + 1) b))"
    by (simp only: take_drop_memmove_down [OF assms(1)])
  with assms(2) show ?thesis by simp
qed

lemma arr_put_Inr [simp]: "i < length a \<Longrightarrow> arr_put i v a = Inr (a[i := v])"
  by (simp add: arr_put_def)

lemma arr_copy_Inr [simp]: "i + length xs \<le> length a \<Longrightarrow> arr_copy i xs a = Inr (blit i xs a)"
  by (simp add: arr_copy_def)

lemma length_blit [simp, mem_simps]: "i + length xs \<le> length a \<Longrightarrow> length (blit i xs a) = length a"
  by (simp add: blit_def)

lemma blit_Nil [simp]: "blit i [] a = a"
  by (simp add: blit_def)

lemma blit_single [mem_simps]: "i < length a \<Longrightarrow> blit i [x] a = a[i := x]"
  by (simp add: blit_def upd_conv_take_nth_drop)

lemma blit_Cons [mem_simps]: "i < length a \<Longrightarrow> blit (Suc i) xs (a[i := x]) = blit i (x # xs) a"
  by (simp add: blit_def take_Suc_conv_app_nth)

lemma blit_blit [mem_simps]:
  "i + length xs \<le> length a \<Longrightarrow> j = i + length xs \<Longrightarrow> blit j ys (blit i xs a) = blit i (xs @ ys) a"
  by (simp add: blit_def ac_simps)

lemma blit_zero [simp]: "blit 0 xs a = xs @ drop (length xs) a"
  by (simp add: blit_def)

lemma take_blit [mem_simps]: "k \<le> i \<Longrightarrow> i \<le> length a \<Longrightarrow> take k (blit i xs a) = take k a"
  by (simp add: blit_def)

lemma drop_blit [mem_simps]: "i + length xs \<le> k \<Longrightarrow> i \<le> length a \<Longrightarrow> drop k (blit i xs a) = drop k a"
  by (simp add: blit_def)

definition opt_list :: "'a option \<Rightarrow> 'a list" where
  "opt_list v = (case v of None \<Rightarrow> [] | Some u \<Rightarrow> [u])"

lemma opt_list_simps [simp]: "opt_list None = []" "opt_list (Some v) = [v]"
  by (simp_all add: opt_list_def)

lemma drop_eq_mono:
  assumes "drop k xs = drop k ys" "k \<le> n"
  shows "drop n xs = drop n ys"
proof -
  have "drop (n - k) (drop k xs) = drop (n - k) (drop k ys)" using assms(1) by simp
  with assms(2) show ?thesis by simp
qed

lemma take_Suc_update [simp]:
  "i < length b \<Longrightarrow> take (Suc i) (b[i := v]) = take i b @ [v]"
  by (simp add: take_Suc_conv_app_nth)

end
