(* ===== verification/TsTypes.thy ===== *)
theory TsTypes
  imports TsPrelude
begin

text \<open>
  The data of tslib (src/tslib-1.1/src/tslib.h, tslib-private.h, tslib-filter.h), the world
  the library runs in, and the contract between a module and the module below it.

  \<^item> \<open>ts_sample\<close>, \<open>tsdev\<close>: the structs of tslib.h and tslib-private.h. The pointers
    \<open>list\<close> and \<open>list_raw\<close> of \<open>tsdev\<close> are modelled in theory TsCore.
  \<^item> \<open>world\<close>: what a \<open>read\<close> of a module can see or change outside its own struct: the
    device's options, the function-static variables of \<open>pthres_read\<close>, and the kernel's
    answers to \<open>read(2)\<close> and \<open>ioctl(2)\<close> on the device, as a script.
  \<^item> \<open>'a reader\<close>: the \<open>read\<close> entry of \<open>struct tslib_ops\<close>. It takes the state of the
    module chain below, the caller's array \<open>samp\<close> and \<open>nr\<close>, and returns the C result,
    the array as it was left and the new state.
  \<^item> \<open>ts_source\<close>: what every caller of \<open>info->next->ops->read\<close> relies on.
\<close>

record timeval =
  tv_sec :: int
  tv_usec :: int

record ts_sample =
  samp_x :: int
  samp_y :: int
  samp_pressure :: "32 word"
  samp_tv :: timeval

record tsdev =
  dev_fd :: int
  dev_res_x :: "32 word"
  dev_res_y :: "32 word"
  dev_rotation :: int

record pthres_static =
  xsave :: int
  ysave :: int
  press :: int

text \<open>
  The Linux input layer: an event, the answer of one \<open>read(2)\<close> (an errno, or the number of
  bytes and the event the bytes belong to), and the answers of the capability ioctls
  (\<open>None\<close> when the ioctl fails).
\<close>

record input_event =
  ev_time :: timeval
  ev_type :: nat
  ev_code :: nat
  ev_value :: int

datatype dread = RdErr int | RdData nat input_event

record evdev_caps =
  cap_version :: "int option"
  cap_evbit :: "(nat \<Rightarrow> bool) option"
  cap_absbit :: "(nat \<Rightarrow> bool) option"
  cap_keybit :: "(nat \<Rightarrow> bool) option"
  cap_grab :: int

record world =
  w_dev :: tsdev
  w_pthres :: pthres_static
  w_in :: "dread list"
  w_caps :: evdev_caps

type_synonym 'a reader =
  "'a \<times> world \<Rightarrow> ts_sample list \<Rightarrow> int \<Rightarrow> fault + (int \<times> ts_sample list \<times> ('a \<times> world))"

text \<open>
  A world right after the process has started: the static variables have their initial
  values, the device has just been opened and delivers nothing. \<open>smp\<close> is a sample with time 0.
\<close>

definition world0 :: world where
  "world0 = \<lparr>w_dev = \<lparr>dev_fd = 3, dev_res_x = 0, dev_res_y = 0, dev_rotation = 0\<rparr>,
     w_pthres = \<lparr>xsave = 0, ysave = 0, press = 0\<rparr>, w_in = [],
     w_caps = \<lparr>cap_version = None, cap_evbit = None, cap_absbit = None, cap_keybit = None, cap_grab = 0\<rparr>\<rparr>"

abbreviation smp :: "int \<Rightarrow> int \<Rightarrow> 32 word \<Rightarrow> ts_sample" where
  "smp u v q \<equiv> \<lparr>samp_x = u, samp_y = v, samp_pressure = q, samp_tv = \<lparr>tv_sec = 0, tv_usec = 0\<rparr>\<rparr>"

definition read_ok ::
  "('a \<times> world \<Rightarrow> bool) \<Rightarrow> int \<Rightarrow> ts_sample list \<Rightarrow>
   fault + (int \<times> ts_sample list \<times> ('a \<times> world)) \<Rightarrow> bool" where
  "read_ok invar nr buf r \<longleftrightarrow>
     (case r of
        Inl _ \<Rightarrow> False
      | Inr (ret, buf', s') \<Rightarrow>
          ret \<le> nr \<and> length buf' = length buf \<and> drop (nat nr) buf' = drop (nat nr) buf \<and> invar s')"

lemma read_okE:
  assumes "read_ok invar nr buf r"
  obtains ret buf' a' w' where "r = Inr (ret, buf', (a', w'))" "ret \<le> nr"
    "length buf' = length buf" "drop (nat nr) buf' = drop (nat nr) buf" "invar (a', w')"
  using assms by (cases r) (auto simp: read_ok_def)

lemma read_ok_Inr [simp]:
  "read_ok invar nr buf (Inr (ret, buf', s')) \<longleftrightarrow>
     ret \<le> nr \<and> length buf' = length buf \<and> drop (nat nr) buf' = drop (nat nr) buf \<and> invar s'"
  by (simp add: read_ok_def)

text \<open>
  The contract. Asked for \<open>nr\<close> samples with an array of at least that size, a source does
  not fault, reports at most \<open>nr\<close> samples, leaves the array beyond \<open>nr\<close> alone and keeps
  its invariant. Its invariant does not depend on the variables of \<open>pthres_read\<close>.
\<close>

locale ts_source =
  fixes rd :: "'a reader"
    and invar :: "'a \<times> world \<Rightarrow> bool"
  assumes rd_ok: "invar s \<Longrightarrow> 0 \<le> nr \<Longrightarrow> nr \<le> int (length buf) \<Longrightarrow> read_ok invar nr buf (rd s buf nr)"
    and invar_pthres: "invar (a, w) \<Longrightarrow> invar (a, w\<lparr>w_pthres := st\<rparr>)"
begin

lemma rd_cases:
  assumes "invar s" "0 \<le> nr" "nr \<le> int (length buf)"
  obtains ret buf' a' w' where "rd s buf nr = Inr (ret, buf', (a', w'))" "ret \<le> nr"
    "length buf' = length buf" "drop (nat nr) buf' = drop (nat nr) buf" "invar (a', w')"
  using rd_ok [OF assms] by (rule read_okE)

end

end
