(* ===== verification/CString.thy ===== *)
theory CString
  imports TsPrelude
begin

text \<open>
  The C library's string routines the sources call, on strings without a terminating NUL:
  \<open>isspace\<close>, \<open>tolower\<close>, \<open>strcasecmp\<close>, \<open>strsep\<close>, \<open>strchr\<close>, \<open>strtok\<close>, \<open>strtoul\<close>,
  \<open>strtol\<close>, \<open>atoi\<close>, and a decimal printer (the \<open>%d\<close> of \<open>printf\<close> on a natural number)
  with its round trip.
\<close>

subsection \<open>Characters\<close>

definition isspace_c :: "char \<Rightarrow> bool" where
  "isspace_c c \<longleftrightarrow> (let n = of_char c :: nat in n = 32 \<or> (9 \<le> n \<and> n \<le> 13))"

definition islower_c :: "char \<Rightarrow> bool" where
  "islower_c c \<longleftrightarrow> (let n = of_char c :: nat in 97 \<le> n \<and> n \<le> 122)"

definition tolower_c :: "char \<Rightarrow> char" where
  "tolower_c c = (let n = of_char c :: nat in if 65 \<le> n \<and> n \<le> 90 then char_of (n + 32) else c)"

definition toupper_c :: "char \<Rightarrow> char" where
  "toupper_c c = (let n = of_char c :: nat in if 97 \<le> n \<and> n \<le> 122 then char_of (n - 32) else c)"

definition strcasecmp_eq :: "string \<Rightarrow> string \<Rightarrow> bool" where
  "strcasecmp_eq a b \<longleftrightarrow> map tolower_c a = map tolower_c b"

subsection \<open>Splitting\<close>

text \<open>\<open>strsep(&s, d)\<close> on a non-NULL \<open>s\<close>: the token, and the new value of \<open>s\<close>.\<close>

fun strsep :: "string \<Rightarrow> string \<Rightarrow> string \<times> string option" where
  "strsep d [] = ([], None)"
| "strsep d (c # cs) =
     (if c \<in> set d then ([], Some cs)
      else case strsep d cs of (t, r) \<Rightarrow> (c # t, r))"

text \<open>\<open>eq = strchr(p, '='); if (eq) *eq++ = 0;\<close>: the string before the \<open>=\<close>, and \<open>eq\<close>.\<close>

definition cut_eq :: "string \<Rightarrow> string \<times> string option" where
  "cut_eq p = strsep ''='' p"

text \<open>
  All tokens \<open>strtok\<close> hands out for one string: maximal runs of characters that are no
  delimiters.
\<close>

fun strtok_all :: "string \<Rightarrow> string \<Rightarrow> string \<Rightarrow> string list" where
  "strtok_all d acc [] = (if acc = [] then [] else [rev acc])"
| "strtok_all d acc (c # cs) =
     (if c \<in> set d then (if acc = [] then strtok_all d [] cs else rev acc # strtok_all d [] cs)
      else strtok_all d (c # acc) cs)"

subsection \<open>Numbers\<close>

definition digit_val :: "char \<Rightarrow> nat option" where
  "digit_val c = (let n = of_char c :: nat in
     if 48 \<le> n \<and> n \<le> 57 then Some (n - 48)
     else if 97 \<le> n \<and> n \<le> 122 then Some (n - 87)
     else if 65 \<le> n \<and> n \<le> 90 then Some (n - 55)
     else None)"

definition is_digit_of :: "nat \<Rightarrow> char \<Rightarrow> bool" where
  "is_digit_of base c \<longleftrightarrow> (case digit_val c of Some v \<Rightarrow> v < base | None \<Rightarrow> False)"

fun digits_val :: "nat \<Rightarrow> nat \<Rightarrow> string \<Rightarrow> nat" where
  "digits_val base acc [] = acc"
| "digits_val base acc (c # cs) =
     (if is_digit_of base c then digits_val base (acc * base + the (digit_val c)) cs else acc)"

fun strip_sign :: "string \<Rightarrow> bool \<times> string" where
  "strip_sign (c # cs) =
     (if c = CHR ''-'' then (True, cs) else if c = CHR ''+'' then (False, cs) else (False, c # cs))"
| "strip_sign [] = (False, [])"

fun strip_base :: "string \<Rightarrow> nat \<times> string" where
  "strip_base (z # x # h # cs) =
     (if z = CHR ''0'' then
        if (x = CHR ''x'' \<or> x = CHR ''X'') \<and> is_digit_of 16 h then (16, h # cs)
        else (8, z # x # h # cs)
      else (10, z # x # h # cs))"
| "strip_base (z # cs) = (if z = CHR ''0'' then (8, z # cs) else (10, z # cs))"
| "strip_base [] = (10, [])"

text \<open>Sign and magnitude that \<open>strtoul\<close> and \<open>strtol\<close> read with base 0.\<close>

definition scan_base0 :: "string \<Rightarrow> bool \<times> nat" where
  "scan_base0 s =
     (case strip_sign (dropWhile isspace_c s) of (neg, s1) \<Rightarrow>
        case strip_base s1 of (base, s2) \<Rightarrow> (neg, digits_val base 0 s2))"

definition scan_base10 :: "string \<Rightarrow> bool \<times> nat" where
  "scan_base10 s =
     (case strip_sign (dropWhile isspace_c s) of (neg, s1) \<Rightarrow> (neg, digits_val 10 0 s1))"

definition ULONG_MAX :: "32 word" where "ULONG_MAX = 4294967295"

definition ERANGE :: int where "ERANGE = 34"

text \<open>
  \<open>strtoul(str, NULL, 0)\<close> with the value of \<open>errno\<close> before; the value and \<open>errno\<close> after.
  A NULL string is dereferenced.
\<close>

definition strtoul0 :: "string option \<Rightarrow> int \<Rightarrow> fault + (32 word \<times> int)" where
  "strtoul0 str errno =
     (case str of
        None \<Rightarrow> Inl NullDeref
      | Some s \<Rightarrow>
          (case scan_base0 s of (neg, m) \<Rightarrow>
             if 4294967296 \<le> m then Inr (ULONG_MAX, ERANGE)
             else Inr (if neg then - of_nat m else of_nat m, errno)))"

text \<open>\<open>strtol(s, NULL, 0)\<close>: the saturated value, and whether it was out of range.\<close>

definition clamp_long :: "bool \<times> nat \<Rightarrow> int \<times> bool" where
  "clamp_long sm =
     (let v = (if fst sm then - int (snd sm) else int (snd sm)) in
      if 2147483647 < v then (2147483647, True)
      else if v < - 2147483648 then (- 2147483648, True)
      else (v, False))"

definition strtol0 :: "string \<Rightarrow> int \<times> bool" where
  "strtol0 s = clamp_long (scan_base0 s)"

definition atoi :: "string \<Rightarrow> int" where
  "atoi s = fst (clamp_long (scan_base10 s))"

subsection \<open>Printing naturals in decimal\<close>

fun dec_str :: "nat \<Rightarrow> string" where
  "dec_str n = (if n < 10 then [char_of (48 + n)] else dec_str (n div 10) @ [char_of (48 + n mod 10)])"

declare dec_str.simps [simp del]

lemma char_of_digit [simp]: "d < 10 \<Longrightarrow> (of_char (char_of (48 + d :: nat) :: char) :: nat) = 48 + d"
  by simp

lemma digit_val_char_of [simp]: "d < 10 \<Longrightarrow> digit_val (char_of (48 + d :: nat)) = Some d"
  by (simp add: digit_val_def)

lemma is_digit_char_of [simp]: "d < 10 \<Longrightarrow> is_digit_of 10 (char_of (48 + d :: nat))"
  by (simp add: is_digit_of_def)

lemma digits_val_append:
  "\<forall>c\<in>set s. is_digit_of base c \<Longrightarrow>
   digits_val base acc (s @ t) = digits_val base (digits_val base acc s) t"
  by (induction s arbitrary: acc) auto

lemma set_dec_str: "c \<in> set (dec_str n) \<Longrightarrow> \<exists>d<10. c = char_of (48 + d :: nat)"
proof (induction n rule: dec_str.induct)
  case (1 n)
  show ?case
  proof (cases "n < 10")
    case True
    with 1 show ?thesis by (auto simp: dec_str.simps [of n])
  next
    case False
    with 1 consider "c \<in> set (dec_str (n div 10))" | "c = char_of (48 + n mod 10)"
      by (auto simp: dec_str.simps [of n])
    then show ?thesis
    proof cases
      case 1
      with False "1.IH" show ?thesis by blast
    next
      case 2
      then show ?thesis by (intro exI [of _ "n mod 10"]) simp
    qed
  qed
qed

lemma dec_str_digits: "\<forall>c\<in>set (dec_str n). is_digit_of 10 c"
  using set_dec_str by fastforce

lemma digits_val_dec_str: "digits_val 10 0 (dec_str n) = n"
proof (induction n rule: dec_str.induct)
  case (1 n)
  show ?case
  proof (cases "n < 10")
    case True
    then show ?thesis by (simp add: dec_str.simps [of n])
  next
    case False
    have "digits_val 10 (n div 10) [char_of (48 + n mod 10)] = n"
      by simp
    with 1 False show ?thesis
      by (simp add: dec_str.simps [of n] digits_val_append dec_str_digits del: digits_val.simps)
  qed
qed

lemma dec_str_not_Nil [simp]: "dec_str n \<noteq> []"
  by (subst dec_str.simps) simp

lemma hd_dec_str_nonzero: "0 < n \<Longrightarrow> hd (dec_str n) \<noteq> CHR ''0''"
proof (induction n rule: dec_str.induct)
  case (1 n)
  show ?case
  proof (cases "n < 10")
    case True
    with 1 have "(of_char (char_of (48 + n) :: char) :: nat) \<noteq> of_char (CHR ''0'')" by simp
    then have "(char_of (48 + n) :: char) \<noteq> CHR ''0''" by metis
    with True show ?thesis by (simp add: dec_str.simps [of n])
  next
    case False
    with 1 show ?thesis by (simp add: dec_str.simps [of n])
  qed
qed

lemma char_neqI: "(of_char a :: nat) \<noteq> of_char b \<Longrightarrow> a \<noteq> b"
  by metis

lemma digit_char_plain:
  assumes "d < 10" "c = char_of (48 + d :: nat)"
  shows "\<not> isspace_c c" "c \<noteq> CHR ''-''" "c \<noteq> CHR ''+''" "c \<noteq> CHR '' ''" "c \<noteq> CHR 0x09" "c \<noteq> CHR ''=''"
proof -
  have v: "(of_char c :: nat) = 48 + d" using assms by simp
  show "\<not> isspace_c c" using v by (simp add: isspace_c_def)
  show "c \<noteq> CHR ''-''" "c \<noteq> CHR ''+''" "c \<noteq> CHR '' ''" "c \<noteq> CHR 0x09" "c \<noteq> CHR ''=''"
    by (rule char_neqI; use assms(1) in \<open>simp add: v\<close>)+
qed

lemma dec_str_plain:
  assumes "c \<in> set (dec_str n)"
  shows "\<not> isspace_c c" "c \<noteq> CHR ''-''" "c \<noteq> CHR ''+''" "c \<noteq> CHR '' ''" "c \<noteq> CHR 0x09" "c \<noteq> CHR ''=''"
proof -
  obtain d where d: "d < 10" "c = char_of (48 + d :: nat)"
    using set_dec_str [OF assms] by blast
  show "\<not> isspace_c c" "c \<noteq> CHR ''-''" "c \<noteq> CHR ''+''" "c \<noteq> CHR '' ''" "c \<noteq> CHR 0x09" "c \<noteq> CHR ''=''"
    by (rule digit_char_plain [OF d])+
qed

lemma strip_base_decimal: "s \<noteq> [] \<Longrightarrow> hd s \<noteq> CHR ''0'' \<Longrightarrow> strip_base s = (10, s)"
  by (induction s rule: strip_base.induct) auto

lemma scan_base0_dec_str: "scan_base0 (dec_str n) = (False, n)"
proof -
  obtain c cs where s: "dec_str n = c # cs"
    by (cases "dec_str n") auto
  have plain: "\<not> isspace_c c" "c \<noteq> CHR ''-''" "c \<noteq> CHR ''+''"
    using dec_str_plain [of c n] s by auto
  then have scan: "scan_base0 (dec_str n) =
      (case strip_base (dec_str n) of (base, s2) \<Rightarrow> (False, digits_val base 0 s2))"
    by (simp add: scan_base0_def s)
  show ?thesis
  proof (cases "n = 0")
    case True
    then show ?thesis unfolding scan by (simp add: dec_str.simps is_digit_of_def digit_val_def)
  next
    case False
    then have "strip_base (dec_str n) = (10, dec_str n)"
      by (intro strip_base_decimal) (auto simp: hd_dec_str_nonzero)
    then show ?thesis unfolding scan by (simp add: digits_val_dec_str)
  qed
qed

lemma strtoul0_dec_str: "n < 4294967296 \<Longrightarrow> strtoul0 (Some (dec_str n)) e = Inr (of_nat n, e)"
  by (simp add: strtoul0_def scan_base0_dec_str)

lemma length_dec_str: "n < 10 ^ Suc k \<Longrightarrow> length (dec_str n) \<le> Suc k"
proof (induction k arbitrary: n)
  case 0
  then show ?case by (subst dec_str.simps) simp
next
  case (Suc k)
  show ?case
  proof (cases "n < 10")
    case True
    then show ?thesis by (subst dec_str.simps) simp
  next
    case False
    have "n div 10 < 10 ^ Suc k" using Suc.prems by auto
    with Suc.IH False show ?thesis by (subst dec_str.simps) simp
  qed
qed

lemma length_dec_str_u32: "n < 4294967296 \<Longrightarrow> length (dec_str n) \<le> 10"
  using length_dec_str [of n 9] by simp

lemma of_nat_neq_ULONG_MAX:
  assumes "n < 4294967295"
  shows "of_nat n \<noteq> ULONG_MAX"
proof -
  have "unat (of_nat n :: 32 word) = n" using assms by (simp add: unat_of_nat)
  moreover have "unat ULONG_MAX = 4294967295" by (simp add: ULONG_MAX_def)
  ultimately show ?thesis using assms by force
qed

lemma strsep_found:
  "\<forall>c\<in>set t. c \<notin> set d \<Longrightarrow> c \<in> set d \<Longrightarrow> strsep d (t @ c # r) = (t, Some r)"
  by (induction t) auto

lemma strsep_last: "\<forall>c\<in>set t. c \<notin> set d \<Longrightarrow> strsep d t = (t, None)"
  by (induction t) auto

lemma strsep_rest_shorter: "strsep d s = (t, Some r) \<Longrightarrow> length r < length s"
  by (induction s arbitrary: t) (auto split: if_splits prod.splits)

lemma atoi_dec_str: "n < 2147483648 \<Longrightarrow> atoi (dec_str n) = int n"
proof -
  assume n: "n < 2147483648"
  obtain c cs where s: "dec_str n = c # cs"
    by (cases "dec_str n") auto
  have "\<not> isspace_c c" "c \<noteq> CHR ''-''" "c \<noteq> CHR ''+''"
    using dec_str_plain [of c n] s by auto
  hence "scan_base10 (dec_str n) = (False, digits_val 10 0 (dec_str n))"
    by (simp add: scan_base10_def s)
  with n show ?thesis
    by (simp add: atoi_def clamp_long_def digits_val_dec_str)
qed

text \<open>\<open>%d\<close> with its sign, and \<open>%0kd\<close> filled with zeros behind the sign.\<close>

definition dec_int :: "int \<Rightarrow> string" where
  "dec_int v = (if v < 0 then CHR ''-'' # dec_str (nat (- v)) else dec_str (nat v))"

definition dec_pad :: "nat \<Rightarrow> int \<Rightarrow> string" where
  "dec_pad k v =
     (if v < 0 then CHR ''-'' # replicate (k - 1 - length (dec_str (nat (- v)))) CHR ''0'' @ dec_str (nat (- v))
      else replicate (k - length (dec_str (nat v))) CHR ''0'' @ dec_str (nat v))"

lemma length_dec_pad: "0 < k \<Longrightarrow> n < 10 ^ k \<Longrightarrow> length (dec_pad k (int n)) = k"
  using length_dec_str [of n "k - 1"] by (simp add: dec_pad_def)

lemma digits_val_dec_pad: "digits_val 10 0 (dec_pad k (int n)) = n"
proof -
  have z: "is_digit_of 10 CHR ''0''" "digit_val CHR ''0'' = Some 0" by (simp_all add: is_digit_of_def digit_val_def)
  have "digits_val 10 0 (replicate m CHR ''0'') = 0" for m by (induction m) (simp_all add: z)
  thus ?thesis by (simp add: dec_pad_def digits_val_append z digits_val_dec_str)
qed

lemma dec_pad_inject [simp]: "dec_pad k (int m) = dec_pad k (int n) \<longleftrightarrow> m = n"
  by (metis digits_val_dec_pad)

subsection \<open>Printing naturals in hexadecimal\<close>

definition hex_char :: "nat \<Rightarrow> char" where
  "hex_char d = ''0123456789abcdef'' ! d"

fun hex_str :: "nat \<Rightarrow> string" where
  "hex_str n = (if n < 16 then [hex_char n] else hex_str (n div 16) @ [hex_char (n mod 16)])"

declare hex_str.simps [simp del]

lemma hex_str_not_Nil [simp]: "hex_str n \<noteq> []"
  by (subst hex_str.simps) simp

lemma set_hex_str: "set (hex_str n) \<subseteq> set ''0123456789abcdef''"
proof (induction n rule: hex_str.induct)
  case (1 n)
  have "hex_char d \<in> set ''0123456789abcdef''" if "d < 16" for d
    unfolding hex_char_def by (rule nth_mem) (use that in simp)
  thus ?case
    using 1 by (subst hex_str.simps) auto
qed

lemma length_hex_str: "n < 16 ^ Suc k \<Longrightarrow> length (hex_str n) \<le> Suc k"
proof (induction k arbitrary: n)
  case 0
  then show ?case by (subst hex_str.simps) simp
next
  case (Suc k)
  show ?case
  proof (cases "n < 16")
    case True
    then show ?thesis by (subst hex_str.simps) simp
  next
    case False
    have "n div 16 < 16 ^ Suc k" using Suc.prems by auto
    with Suc.IH False show ?thesis by (subst hex_str.simps) simp
  qed
qed

subsection \<open>Tokens\<close>

lemma strtok_all_skip: "c \<in> set d \<Longrightarrow> strtok_all d [] (c # s) = strtok_all d [] s"
  by simp

lemma strtok_all_acc: "set t \<inter> set d = {} \<Longrightarrow> strtok_all d acc (t @ s) = strtok_all d (rev t @ acc) s"
  by (induction t arbitrary: acc) auto

lemma strtok_all_token:
  "t \<noteq> [] \<Longrightarrow> set t \<inter> set d = {} \<Longrightarrow> c \<in> set d \<Longrightarrow> strtok_all d [] (t @ c # s) = t # strtok_all d [] s"
  "t \<noteq> [] \<Longrightarrow> set t \<inter> set d = {} \<Longrightarrow> strtok_all d [] t = [t]"
  using strtok_all_acc [of t d "[]"] strtok_all_acc [of t d "[]" "[]"] by auto

end
