(* ===== verification/TsParseVars.thy ===== *)
theory TsParseVars
  imports CString
begin

text \<open>
  \<open>tslib_parse_vars\<close> of src/tslib-1.1/src/ts_parse_vars.c: the options after a module's name
  in ts.conf. A module's table \<open>struct tslib_vars\<close> is a list of a name, the \<open>data\<close> value
  and the handler; a handler changes the module's struct and \<open>errno\<close> and returns the C
  result.
\<close>

type_synonym 'm var_fn = "'m \<Rightarrow> string option \<Rightarrow> nat \<Rightarrow> int \<Rightarrow> fault + ('m \<times> int \<times> int)"

record 'm tslib_vars =
  var_name :: string
  var_data :: nat
  var_fun :: "'m var_fn"

fun find_var :: "'m tslib_vars list \<Rightarrow> string \<Rightarrow> 'm tslib_vars option" where
  "find_var [] p = None"
| "find_var (v # vs) p = (if strcasecmp_eq (var_name v) p then Some v else find_var vs p)"

definition parse_token ::
  "'m tslib_vars list \<Rightarrow> string \<Rightarrow> 'm \<Rightarrow> int \<Rightarrow> fault + ('m \<times> int \<times> int)" where
  "parse_token vars p m errno =
     (case cut_eq p of (p, eq) \<Rightarrow>
        case find_var vars p of
          None \<Rightarrow> Inr (m, 0, errno)
        | Some v \<Rightarrow> var_fun v m eq (var_data v) errno)"

text \<open>
  The \<open>while\<close> loop: \<open>strsep\<close> is called before \<open>ret\<close> is tested, so a token behind the one
  that failed is taken off the string and not looked at.
\<close>

function parse_loop ::
  "'m tslib_vars list \<Rightarrow> string option \<Rightarrow> 'm \<Rightarrow> int \<Rightarrow> int \<Rightarrow> fault + ('m \<times> int \<times> int)" where
  "parse_loop vars None m ret errno = Inr (m, ret, errno)"
| "parse_loop vars (Some s) m ret errno =
     (case strsep [CHR '' '', CHR 0x09] s of (p, s') \<Rightarrow>
        if ret = 0 then
          (case parse_token vars p m errno of
             Inl e \<Rightarrow> Inl e
           | Inr (m', ret', errno') \<Rightarrow> parse_loop vars s' m' ret' errno')
        else Inr (m, ret, errno))"
  by pat_completeness auto
termination
  by (relation "measure (\<lambda>(vars, s, m, ret, errno). case s of None \<Rightarrow> 0 | Some t \<Rightarrow> Suc (length t))")
    (auto split: option.splits dest: strsep_rest_shorter sym)

text \<open>\<open>strncpy(s_holder, str, BUF_SIZE - 1)\<close> keeps 1023 characters.\<close>

definition tslib_parse_vars ::
  "'m tslib_vars list \<Rightarrow> string option \<Rightarrow> 'm \<Rightarrow> int \<Rightarrow> fault + ('m \<times> int \<times> int)" where
  "tslib_parse_vars vars str m errno =
     (case str of
        None \<Rightarrow> Inr (m, 0, errno)
      | Some s \<Rightarrow> parse_loop vars (Some (take 1023 s)) m 0 errno)"

text \<open>A token as ts.conf writes it: the name, and the decimal value behind an \<open>=\<close>.\<close>

abbreviation opt_token :: "string \<Rightarrow> nat \<Rightarrow> string" where
  "opt_token name n \<equiv> name @ CHR ''='' # dec_str n"

lemma cut_eq_opt_token:
  "CHR ''='' \<notin> set name \<Longrightarrow> cut_eq (opt_token name n) = (name, Some (dec_str n))"
  unfolding cut_eq_def by (rule strsep_found) auto

lemma parse_loop_step:
  assumes "CHR '' '' \<notin> set p" "CHR 0x09 \<notin> set p"
  shows "parse_loop vars (Some (p @ CHR '' '' # s)) m 0 errno =
     (case parse_token vars p m errno of
        Inl e \<Rightarrow> Inl e
      | Inr (m', ret', errno') \<Rightarrow> parse_loop vars (Some s) m' ret' errno')"
proof -
  have "strsep [CHR '' '', CHR 0x09] (p @ CHR '' '' # s) = (p, Some s)"
    by (rule strsep_found) (use assms in auto)
  then show ?thesis by simp
qed

lemma parse_loop_last:
  assumes "CHR '' '' \<notin> set p" "CHR 0x09 \<notin> set p"
  shows "parse_loop vars (Some p) m 0 errno = parse_token vars p m errno"
proof -
  have "strsep [CHR '' '', CHR 0x09] p = (p, None)"
    by (rule strsep_last) (use assms in auto)
  then show ?thesis by (simp split: sum.splits)
qed

lemma strcasecmp_eq_refl [simp]: "strcasecmp_eq a a"
  by (simp add: strcasecmp_eq_def)

lemma opt_token_no_space:
  "CHR '' '' \<notin> set name \<Longrightarrow> CHR '' '' \<notin> set (opt_token name n)"
  "CHR 0x09 \<notin> set name \<Longrightarrow> CHR 0x09 \<notin> set (opt_token name n)"
  using dec_str_plain(4,5) by auto

lemma tslib_parse_vars_one:
  assumes "length p \<le> 1023" "CHR '' '' \<notin> set p" "CHR 0x09 \<notin> set p"
  shows "tslib_parse_vars vars (Some p) m errno = parse_token vars p m errno"
  using assms by (simp add: tslib_parse_vars_def parse_loop_last del: parse_loop.simps)

lemma tslib_parse_vars_two:
  assumes "length p + length q \<le> 1022"
    "CHR '' '' \<notin> set p" "CHR 0x09 \<notin> set p" "CHR '' '' \<notin> set q" "CHR 0x09 \<notin> set q"
    and "parse_token vars p m errno = Inr (m', 0, errno')"
  shows "tslib_parse_vars vars (Some (p @ '' '' @ q)) m errno = parse_token vars q m' errno'"
  using assms
  by (simp add: tslib_parse_vars_def parse_loop_step parse_loop_last del: parse_loop.simps)

lemma parse_token_found:
  assumes "CHR ''='' \<notin> set name" "find_var vars name = Some v"
  shows "parse_token vars (opt_token name n) m errno = var_fun v m (Some (dec_str n)) (var_data v) errno"
  using assms by (simp add: parse_token_def cut_eq_opt_token)

end
