(* ===== verification/Pthres.thy ===== *)
theory Pthres
  imports TsTypes TsParseVars
begin

text \<open>
  The pressure-threshold filter, src/tslib-1.1/plugins/pthres.c. \<open>pthres_loop\<close> is the
  \<open>for\<close> loop of \<open>pthres_read\<close>, with \<open>memmove\<close> on the caller's array; \<open>pthres_spec\<close> is
  the filter it implements, as a function on lists.
\<close>

record tslib_pthres =
  pmin :: "32 word"
  pmax :: "32 word"

text \<open>
  One pass of the loop has the array, the index \<open>i\<close> of the sample among those read, the
  position \<open>s\<close> of the pointer into the array and the count \<open>nr\<close> of samples kept. Dropping
  a sample moves the rest down and leaves \<open>s\<close> where it is (\<open>s--\<close>, then \<open>s++\<close>).
\<close>

function pthres_loop ::
  "tslib_pthres \<Rightarrow> nat \<Rightarrow> nat \<Rightarrow> nat \<Rightarrow> nat \<Rightarrow> pthres_static \<Rightarrow> ts_sample list \<Rightarrow>
   nat \<times> pthres_static \<times> ts_sample list" where
  "pthres_loop p ret i s nr st buf =
     (if i < ret then
        if samp_pressure (buf ! s) < pmin p then
          if press st \<noteq> 0 then
            pthres_loop p ret (i + 1) (s + 1) (nr + 1) (st\<lparr>press := 0\<rparr>)
              (buf[s := (buf ! s)\<lparr>samp_pressure := 0, samp_x := xsave st, samp_y := ysave st\<rparr>])
          else
            (let left = ret - nr - 1 in
             if 0 < left then pthres_loop p ret (i + 1) s nr st (memmove_down buf s left)
             else (nr, st, buf))
        else if pmax p < samp_pressure (buf ! s) then
          (let left = ret - nr - 1 in
           if 0 < left then pthres_loop p ret (i + 1) s nr st (memmove_down buf s left)
           else (nr, st, buf))
        else
          pthres_loop p ret (i + 1) (s + 1) (nr + 1)
            (st\<lparr>press := 1, xsave := samp_x (buf ! s), ysave := samp_y (buf ! s)\<rparr>) buf
      else (nr, st, buf))"
  by pat_completeness auto
termination
  by (relation "measure (\<lambda>(p, ret, i, s, nr, st, buf). ret - i)") auto

declare pthres_loop.simps [simp del]

definition pthres_read :: "'a reader \<Rightarrow> (tslib_pthres \<times> 'a) reader" where
  "pthres_read nxt = (\<lambda>((p, a), w) samp nr.
     case nxt (a, w) samp nr of
       Inl e \<Rightarrow> Inl e
     | Inr (ret, samp', (a', w')) \<Rightarrow>
         if 0 \<le> ret then
           (case pthres_loop p (nat ret) 0 0 0 (w_pthres w') samp' of
              (n, st, samp'') \<Rightarrow> Inr (int n, samp'', ((p, a'), w'\<lparr>w_pthres := st\<rparr>)))
         else Inr (ret, samp', ((p, a'), w')))"

definition threshold_vars :: "tslib_pthres var_fn" where
  "threshold_vars p str data errno =
     (case strtoul0 str errno of
        Inl e \<Rightarrow> Inl e
      | Inr (v, errno') \<Rightarrow>
          if v = ULONG_MAX \<and> errno' = ERANGE then Inr (p, -1, errno')
          else if data = 0 then Inr (p\<lparr>pmin := v\<rparr>, 0, errno)
          else if data = 1 then Inr (p\<lparr>pmax := v\<rparr>, 0, errno)
          else Inr (p, -1, errno))"

definition pthres_vars :: "tslib_pthres tslib_vars list" where
  "pthres_vars =
     [\<lparr>var_name = ''pmin'', var_data = 0, var_fun = threshold_vars\<rparr>,
      \<lparr>var_name = ''pmax'', var_data = 1, var_fun = threshold_vars\<rparr>]"

definition INT_MAX :: "32 word" where "INT_MAX = 2147483647"

text \<open>\<open>None\<close> is the NULL that a failed \<open>malloc\<close> or a bad option gives.\<close>

definition pthres_mod_init :: "bool \<Rightarrow> string option \<Rightarrow> int \<Rightarrow> fault + (tslib_pthres option \<times> int)" where
  "pthres_mod_init malloc_ok params errno =
     (if \<not> malloc_ok then Inr (None, errno)
      else
        (case tslib_parse_vars pthres_vars params \<lparr>pmin = 1, pmax = INT_MAX\<rparr> errno of
           Inl e \<Rightarrow> Inl e
         | Inr (p, ret, errno') \<Rightarrow> Inr (if ret \<noteq> 0 then None else Some p, errno')))"

text \<open>The filter as a function on the list of samples read.\<close>

fun pthres_spec :: "tslib_pthres \<Rightarrow> pthres_static \<Rightarrow> ts_sample list \<Rightarrow> ts_sample list \<times> pthres_static" where
  "pthres_spec p st [] = ([], st)"
| "pthres_spec p st (s # ss) =
     (if samp_pressure s < pmin p then
        if press st \<noteq> 0 then
          (case pthres_spec p (st\<lparr>press := 0\<rparr>) ss of
             (out, st') \<Rightarrow> (s\<lparr>samp_pressure := 0, samp_x := xsave st, samp_y := ysave st\<rparr> # out, st'))
        else pthres_spec p st ss
      else if pmax p < samp_pressure s then pthres_spec p st ss
      else
        (case pthres_spec p (st\<lparr>press := 1, xsave := samp_x s, ysave := samp_y s\<rparr>) ss of
           (out, st') \<Rightarrow> (s # out, st')))"

text \<open>
  What a consumer may rely on: a sample of pressure 0 is a release, it repeats the position of
  the press before it, and there is no release without a press before it; every other sample
  is within the thresholds. The argument is the position of the press not yet released.
\<close>

fun pen_ok :: "tslib_pthres \<Rightarrow> (int \<times> int) option \<Rightarrow> ts_sample list \<Rightarrow> bool" where
  "pen_ok p pos [] \<longleftrightarrow> True"
| "pen_ok p pos (s # ss) \<longleftrightarrow>
     (if samp_pressure s = 0 then pos = Some (samp_x s, samp_y s) \<and> pen_ok p None ss
      else pmin p \<le> samp_pressure s \<and> samp_pressure s \<le> pmax p \<and>
        pen_ok p (Some (samp_x s, samp_y s)) ss)"

definition pen_pos :: "pthres_static \<Rightarrow> (int \<times> int) option" where
  "pen_pos st = (if press st \<noteq> 0 then Some (xsave st, ysave st) else None)"

lemma length_pthres_spec: "pthres_spec p st ss = (out, st') \<Longrightarrow> length out \<le> length ss"
  by (induction ss arbitrary: st out) (auto split: if_splits prod.splits intro: le_SucI)

lemma pen_ok_pthres_spec:
  "0 < pmin p \<Longrightarrow> pthres_spec p st ss = (out, st') \<Longrightarrow> pen_ok p (pen_pos st) out"
proof (induction ss arbitrary: st out)
  case Nil
  then show ?case by simp
next
  case (Cons s ss)
  then show ?case
    by (auto simp: pen_pos_def not_less split: if_splits prod.splits)
      (fastforce simp: pen_pos_def)+
qed

text \<open>
  The loop against the filter: the samples still to be looked at, \<open>ret - i\<close> of them, stand at
  position \<open>s\<close>, and what is kept ends up right behind what was kept before.
\<close>

lemma pthres_loop_refines:
  assumes "i \<le> ret" "s \<le> i" "nr = s" "ret \<le> length buf"
  shows "case pthres_loop p ret i s nr st buf of (n, st', buf') \<Rightarrow>
     (\<exists>out. pthres_spec p st (take (ret - i) (drop s buf)) = (out, st') \<and>
        n = s + length out \<and> take n buf' = take s buf @ out) \<and>
     length buf' = length buf \<and> drop ret buf' = drop ret buf"
  using assms
proof (induction p ret i s nr st buf rule: pthres_loop.induct)
  case (1 p ret i s nr st buf)
  show ?case
  proof (cases "i < ret")
    case False
    with "1.prems" show ?thesis by (simp add: pthres_loop.simps)
  next
    case True
    with "1.prems" have s: "s < length buf" "s < ret" "nr = s" by auto
    have split: "take (ret - i) (drop s buf) = buf ! s # take (ret - Suc i) (drop (Suc s) buf)"
      using True s by (metis Cons_nth_drop_Suc Suc_diff_Suc take_Suc_Cons)
    let ?x = "buf ! s" and ?left = "ret - nr - 1"
    consider (release) "samp_pressure ?x < pmin p" "press st \<noteq> 0"
      | (drop) "samp_pressure ?x < pmin p \<and> press st = 0 \<or>
                \<not> samp_pressure ?x < pmin p \<and> pmax p < samp_pressure ?x"
      | (keep) "\<not> samp_pressure ?x < pmin p" "\<not> pmax p < samp_pressure ?x"
      by blast
    then show ?thesis
    proof cases
      case release
      let ?x' = "?x\<lparr>samp_pressure := 0, samp_x := xsave st, samp_y := ysave st\<rparr>"
      have "drop (Suc s) (buf[s := ?x']) = drop (Suc s) buf" by simp
      with "1.IH"(1) [OF True release] "1.prems" True s release show ?thesis
        by (subst pthres_loop.simps) (auto simp: split split: prod.splits)
    next
      case drop
      have spec: "pthres_spec p st (take (ret - i) (drop s buf)) =
          pthres_spec p st (take (ret - Suc i) (drop (Suc s) buf))"
        using drop by (auto simp: split)
      show ?thesis
      proof (cases "0 < ?left")
        case left: True
        have IH: "case pthres_loop p ret (i + 1) s nr st (memmove_down buf s ?left) of (n, st', buf') \<Rightarrow>
            (\<exists>out. pthres_spec p st (take (ret - (i + 1)) (drop s (memmove_down buf s ?left))) = (out, st') \<and>
              n = s + length out \<and> take n buf' = take s (memmove_down buf s ?left) @ out) \<and>
            length buf' = length (memmove_down buf s ?left) \<and>
            drop ret buf' = drop ret (memmove_down buf s ?left)"
          using drop
        proof
          assume d: "samp_pressure ?x < pmin p \<and> press st = 0"
          show ?thesis
            by (rule "1.IH"(2)) (use d True s "1.prems" left in auto)
        next
          assume d: "\<not> samp_pressure ?x < pmin p \<and> pmax p < samp_pressure ?x"
          show ?thesis
            by (rule "1.IH"(3)) (use d True s "1.prems" left in auto)
        qed
        have "pthres_loop p ret i s nr st buf =
            pthres_loop p ret (i + 1) s nr st (memmove_down buf s ?left)"
          by (subst pthres_loop.simps) (use drop True left in \<open>auto simp: Let_def\<close>)
        with IH show ?thesis
          using s "1.prems" left by (simp add: spec mem_simps)
      next
        case left: False
        have "pthres_loop p ret i s nr st buf = (nr, st, buf)"
          by (subst pthres_loop.simps) (use drop True left in \<open>auto simp: Let_def\<close>)
        moreover have "ret - Suc i = 0" using left s "1.prems" True by simp
        ultimately show ?thesis using s by (simp add: spec)
      qed
    next
      case keep
      from "1.IH"(4) [OF True keep] "1.prems" True s keep show ?thesis
        by (subst pthres_loop.simps) (auto simp: split take_Suc_conv_app_nth split: prod.splits)
    qed
  qed
qed

lemma pthres_read_Inr:
  assumes "nxt (a, w) samp nr = Inr (ret, samp', (a', w'))" "0 \<le> ret" "ret \<le> int (length samp')"
  obtains out st samp'' where
    "pthres_spec p (w_pthres w') (take (nat ret) samp') = (out, st)"
    "pthres_read nxt ((p, a), w) samp nr = Inr (int (length out), samp'', ((p, a'), w'\<lparr>w_pthres := st\<rparr>))"
    "take (length out) samp'' = out" "length samp'' = length samp'"
    "drop (nat ret) samp'' = drop (nat ret) samp'" "length out \<le> nat ret"
proof -
  obtain n st samp'' where loop: "pthres_loop p (nat ret) 0 0 0 (w_pthres w') samp' = (n, st, samp'')"
    by (metis prod_cases3)
  have "nat ret \<le> length samp'" using assms by simp
  from pthres_loop_refines [OF le0 le0 refl this, of p "w_pthres w'", unfolded loop prod.case]
  obtain out where
    "pthres_spec p (w_pthres w') (take (nat ret - 0) (drop 0 samp')) = (out, st)"
    "n = 0 + length out" "take n samp'' = take 0 samp' @ out" "length samp'' = length samp'"
    "drop (nat ret) samp'' = drop (nat ret) samp'"
    by blast
  then have "pthres_spec p (w_pthres w') (take (nat ret) samp') = (out, st)"
    "n = length out" "take n samp'' = out" "length samp'' = length samp'"
    "drop (nat ret) samp'' = drop (nat ret) samp'"
    by simp_all
  moreover from this length_pthres_spec [of p "w_pthres w'" "take (nat ret) samp'" out st]
  have "length out \<le> nat ret" by simp
  ultimately show ?thesis
    using assms loop by (intro that [of out st samp'']) (auto simp: pthres_read_def)
qed

lemma threshold_vars_simp:
  "n < 4294967295 \<Longrightarrow> threshold_vars p (Some (dec_str n)) data e =
     (if data = 0 then Inr (p\<lparr>pmin := of_nat n\<rparr>, 0, e)
      else if data = 1 then Inr (p\<lparr>pmax := of_nat n\<rparr>, 0, e) else Inr (p, -1, e))"
  by (simp add: threshold_vars_def strtoul0_dec_str of_nat_neq_ULONG_MAX)

lemma find_pthres_vars:
  "find_var pthres_vars ''pmin'' = Some \<lparr>var_name = ''pmin'', var_data = 0, var_fun = threshold_vars\<rparr>"
  "find_var pthres_vars ''pmax'' = Some \<lparr>var_name = ''pmax'', var_data = 1, var_fun = threshold_vars\<rparr>"
  by (simp_all add: pthres_vars_def strcasecmp_eq_def tolower_c_def)

text \<open>The filter over any source is a source again.\<close>

context ts_source
begin

lemma pthres_source: "ts_source (pthres_read rd) (\<lambda>((p, a), w). invar (a, w))"
proof (unfold_locales, goal_cases)
  case (1 s nr buf)
  obtain p a w where s: "s = ((p, a), w)" by (cases s) auto
  with 1 have i: "invar (a, w)" by simp
  obtain ret buf' a' w' where rd: "rd (a, w) buf nr = Inr (ret, buf', (a', w'))" "ret \<le> nr"
    "length buf' = length buf" "drop (nat nr) buf' = drop (nat nr) buf" "invar (a', w')"
    by (rule rd_cases [OF i 1(2,3)])
  show ?case
  proof (cases "0 \<le> ret")
    case True
    have le: "ret \<le> int (length buf')" using rd(2,3) 1(3) by simp
    obtain out st buf'' where
      "pthres_spec p (w_pthres w') (take (nat ret) buf') = (out, st)" and
      r: "pthres_read rd ((p, a), w) buf nr = Inr (int (length out), buf'', ((p, a'), w'\<lparr>w_pthres := st\<rparr>))"
        "take (length out) buf'' = out" "length buf'' = length buf'"
        "drop (nat ret) buf'' = drop (nat ret) buf'" "length out \<le> nat ret"
      by (rule pthres_read_Inr [of rd a w buf nr ret buf' a' w' p, OF rd(1) True le])
    have "drop (nat nr) buf'' = drop (nat nr) buf'"
      by (rule drop_eq_mono [OF r(4)]) (use rd(2) in simp)
    with r rd True show ?thesis
      using invar_pthres [OF rd(5)] by (simp add: s)
  next
    case False
    with rd show ?thesis by (simp add: s pthres_read_def)
  qed
next
  case (2 a w st)
  then show ?case using invar_pthres by (auto split: prod.splits)
qed

end

subsection \<open>Properties\<close>

text \<open>
  C1: whatever the module below delivers, \<open>pthres_read\<close> with its in-place \<open>memmove\<close> loop
  returns exactly the samples the list function \<open>pthres_spec\<close> keeps, at the front of the
  caller's array, leaves the array behind the samples read alone, and updates its static
  variables as the list function does.
\<close>

theorem pthres_read_filters:
  assumes "nxt (a, w) samp nr = Inr (ret, samp', (a', w'))" "0 \<le> ret" "ret \<le> int (length samp')"
  shows "\<exists>out st samp''.
    pthres_spec p (w_pthres w') (take (nat ret) samp') = (out, st) \<and>
    pthres_read nxt ((p, a), w) samp nr =
      Inr (int (length out), samp'', ((p, a'), w'\<lparr>w_pthres := st\<rparr>)) \<and>
    take (length out) samp'' = out \<and> length samp'' = length samp' \<and>
    drop (nat ret) samp'' = drop (nat ret) samp'"
  using pthres_read_Inr [of nxt a w samp nr ret samp' a' w' p] assms by metis

text \<open>
  The promise of the file's header comment. With \<open>pmin\<close> at least 1, the samples
  \<open>pthres_read\<close> reports form a proper pen stream, continuing the state of the static
  variables: every release has pressure 0 and the position of the press before it, no release
  comes without a press, every press is within \<open>pmin\<close> and \<open>pmax\<close>.
\<close>

theorem pthres_read_pen_ok:
  assumes "nxt (a, w) samp nr = Inr (ret, samp', (a', w'))" "0 \<le> ret" "ret \<le> int (length samp')"
    and "0 < pmin p" "pthres_read nxt ((p, a), w) samp nr = Inr (n, samp'', s'')"
  shows "pen_ok p (pen_pos (w_pthres w')) (take (nat n) samp'')"
proof -
  obtain out st buf where
    "pthres_spec p (w_pthres w') (take (nat ret) samp') = (out, st)"
    "pthres_read nxt ((p, a), w) samp nr = Inr (int (length out), buf, ((p, a'), w'\<lparr>w_pthres := st\<rparr>))"
    "take (length out) buf = out"
    using assms(1-3) by (rule pthres_read_Inr)
  with assms(4,5) show ?thesis using pen_ok_pthres_spec by fastforce
qed

theorem pthres_read_filters_witness:
  "\<exists>samp''. pthres_read (\<lambda>s b n. Inr (3, [smp 5 6 0, smp 10 20 7, smp 11 21 0], s))
      ((\<lparr>pmin = 1, pmax = 255\<rparr>, ()), world0) [smp 0 0 0, smp 0 0 0, smp 0 0 0] 3 =
      Inr (2, samp'', ((\<lparr>pmin = 1, pmax = 255\<rparr>, ()),
        world0\<lparr>w_pthres := \<lparr>xsave = 10, ysave = 20, press = 0\<rparr>\<rparr>)) \<and>
    take 2 samp'' = [smp 10 20 7, smp 10 20 0]"
proof -
  let ?in = "[smp 5 6 0, smp 10 20 7, smp 11 21 0]" and ?p = "\<lparr>pmin = 1, pmax = 255\<rparr>"
  let ?nxt = "\<lambda>s b n. Inr (3, ?in, s) :: fault + (int \<times> ts_sample list \<times> (unit \<times> world))"
  have "pthres_spec ?p (w_pthres world0) (take (nat 3) ?in) =
      ([smp 10 20 7, smp 10 20 0], \<lparr>xsave = 10, ysave = 20, press = 0\<rparr>)"
    by (simp add: world0_def)
  with pthres_read_filters [of ?nxt "()" world0 "[smp 0 0 0, smp 0 0 0, smp 0 0 0]" 3 3 ?in "()" world0 ?p]
  show ?thesis by (auto simp: numeral_2_eq_2)
qed

theorem pthres_read_pen_ok_witness:
  "pen_ok \<lparr>pmin = 1, pmax = 255\<rparr> None [smp 10 20 7, smp 10 20 0]"
proof -
  let ?in = "[smp 5 6 0, smp 10 20 7, smp 11 21 0]"
  let ?nxt = "\<lambda>s b n. Inr (3, ?in, s) :: fault + (int \<times> ts_sample list \<times> (unit \<times> world))"
  have "pthres_read ?nxt ((\<lparr>pmin = 1, pmax = 255\<rparr>, ()), world0) ?in 3 =
      Inr (2, [smp 10 20 7, smp 10 20 0, smp 11 21 0],
        ((\<lparr>pmin = 1, pmax = 255\<rparr>, ()), world0\<lparr>w_pthres := \<lparr>xsave = 10, ysave = 20, press = 0\<rparr>\<rparr>))"
    by (simp add: pthres_read_def pthres_loop.simps world0_def memmove_down_def)
  with pthres_read_pen_ok [of ?nxt "()" world0 ?in 3 3 ?in "()" world0 "\<lparr>pmin = 1, pmax = 255\<rparr>"]
  show ?thesis by (simp add: pen_pos_def world0_def)
qed

text \<open>
  The options line ts.conf gives the module is read back faithfully: for every pair of
  thresholds below \<open>ULONG_MAX\<close>, \<open>pmin=\<close> and \<open>pmax=\<close> in decimal configure a filter with
  exactly these thresholds, whatever \<open>errno\<close> was before.
\<close>

theorem pthres_mod_init_roundtrip:
  assumes "lo < 4294967295" "hi < 4294967295"
  shows "pthres_mod_init True (Some (opt_token ''pmin'' lo @ '' '' @ opt_token ''pmax'' hi)) errno =
     Inr (Some \<lparr>pmin = of_nat lo, pmax = of_nat hi\<rparr>, errno)"
proof -
  have 1: "parse_token pthres_vars (opt_token ''pmin'' lo) p e = Inr (p\<lparr>pmin := of_nat lo\<rparr>, 0, e)" for p e
    using assms(1) parse_token_found [OF _ find_pthres_vars(1)] by (simp add: threshold_vars_simp)
  have 2: "parse_token pthres_vars (opt_token ''pmax'' hi) p e = Inr (p\<lparr>pmax := of_nat hi\<rparr>, 0, e)" for p e
    using assms(2) parse_token_found [OF _ find_pthres_vars(2)] by (simp add: threshold_vars_simp)
  have "tslib_parse_vars pthres_vars (Some (opt_token ''pmin'' lo @ '' '' @ opt_token ''pmax'' hi)) p e =
      Inr (p\<lparr>pmin := of_nat lo, pmax := of_nat hi\<rparr>, 0, e)" for p e
    using length_dec_str_u32 [of lo] length_dec_str_u32 [of hi] assms
    by (subst tslib_parse_vars_two [OF _ _ _ _ _ 1]) (auto simp: 2 [simplified] dest: dec_str_plain)
  then show ?thesis by (simp add: pthres_mod_init_def)
qed

theorem pthres_mod_init_roundtrip_witness:
  "pthres_mod_init True (Some (opt_token ''pmin'' 20 @ '' '' @ opt_token ''pmax'' 300)) 34 =
     Inr (Some \<lparr>pmin = 20, pmax = 300\<rparr>, 34)"
  using pthres_mod_init_roundtrip [of 20 300 34] by simp

end
