(* ===== verification/Dejitter.thy ===== *)
theory Dejitter
  imports TsTypes TsParseVars
begin

text \<open>
  The smoothing filter, src/tslib-1.1/plugins/dejitter.c: a ring buffer of the last four
  positions, averaged with weights that sum to a power of two. \<open>dejitter_spec\<close> is the
  filter on a plain list of the last positions, newest first.
\<close>

record ts_hist =
  hist_x :: int
  hist_y :: int
  hist_p :: "32 word"

record tslib_dejitter =
  dj_delta :: int
  dj_x :: int
  dj_y :: int
  dj_down :: int
  dj_nr :: int
  dj_head :: int
  dj_hist :: "ts_hist list"

definition weight :: "int list list" where
  "weight = [[5, 3, 0, 0, 3], [8, 5, 3, 0, 4], [6, 4, 3, 3, 4]]"

definition sqr :: "int \<Rightarrow> int" where
  "sqr v = s32 (v * v)"

text \<open>The \<open>for\<close> loop of \<open>average\<close>, with the number of rounds left and the index \<open>i\<close>.\<close>

fun average_loop ::
  "ts_hist list \<Rightarrow> int list \<Rightarrow> nat \<Rightarrow> int \<Rightarrow> int \<Rightarrow> int \<Rightarrow> int \<Rightarrow> 32 word \<Rightarrow> fault + (int \<times> int \<times> 32 word)" where
  "average_loop hist w 0 i sn sx sy sp = Inr (sx, sy, sp)"
| "average_loop hist w (Suc n) i sn sx sy sp =
     (case arr_get hist sn of
        Inl e \<Rightarrow> Inl e
      | Inr h \<Rightarrow>
          (case arr_get w i of
             Inl e \<Rightarrow> Inl e
           | Inr wi \<Rightarrow>
               average_loop hist w n (i + 1) ((sn - 1) AND 3)
                 (s32 (sx + s32 (hist_x h * wi))) (s32 (sy + s32 (hist_y h * wi)))
                 (sp + hist_p h * word_of_int wi)))"

definition average :: "tslib_dejitter \<Rightarrow> ts_sample \<Rightarrow> fault + ts_sample" where
  "average djt samp =
     (case arr_get weight (dj_nr djt - 2) of
        Inl e \<Rightarrow> Inl e
      | Inr w \<Rightarrow>
          (case average_loop (dj_hist djt) w (nat (dj_nr djt)) 0 (dj_head djt) 0 0 0 of
             Inl e \<Rightarrow> Inl e
           | Inr (sx, sy, sp) \<Rightarrow>
               (case arr_get w 4 of
                  Inl e \<Rightarrow> Inl e
                | Inr k \<Rightarrow>
                    Inr (samp\<lparr>samp_x := drop_bit (nat k) sx, samp_y := drop_bit (nat k) sy,
                      samp_pressure := drop_bit (nat k) sp\<rparr>))))"

text \<open>
  The part of the loop body of \<open>dejitter_read\<close> that can drop the backlog: \<open>prev\<close> is only
  looked at when there is one.
\<close>

definition reset_backlog :: "tslib_dejitter \<Rightarrow> ts_sample \<Rightarrow> fault + tslib_dejitter" where
  "reset_backlog djt s =
     (if dj_nr djt \<noteq> 0 then
        (case arr_get (dj_hist djt) ((dj_head djt - 1) AND 3) of
           Inl e \<Rightarrow> Inl e
         | Inr h \<Rightarrow>
             if dj_delta djt < s32 (sqr (s32 (samp_x s - hist_x h)) + sqr (s32 (samp_y s - hist_y h)))
             then Inr (djt\<lparr>dj_nr := 0\<rparr>) else Inr djt)
      else Inr djt)"

text \<open>The new position goes to the head of the ring, and the backlog grows up to four.\<close>

definition push_hist :: "tslib_dejitter \<Rightarrow> ts_sample \<Rightarrow> tslib_dejitter" where
  "push_hist djt s =
     (let d2 = djt\<lparr>dj_hist := (dj_hist djt)[nat (dj_head djt) :=
                 \<lparr>hist_x = samp_x s, hist_y = samp_y s, hist_p = samp_pressure s\<rparr>]\<rparr>
      in if dj_nr d2 < 4 then d2\<lparr>dj_nr := s32 (dj_nr d2 + 1)\<rparr> else d2)"

text \<open>
  One round of the loop: the sample \<open>s\<close> read, the element of the array the result goes to,
  and the module's struct; the result is what the array element becomes.
\<close>

definition dejitter_step ::
  "tslib_dejitter \<Rightarrow> ts_sample \<Rightarrow> ts_sample \<Rightarrow> fault + (ts_sample \<times> tslib_dejitter)" where
  "dejitter_step djt s slot =
     (if samp_pressure s = 0 then Inr (s, djt\<lparr>dj_nr := 0\<rparr>)
      else
        (case reset_backlog djt s of
           Inl e \<Rightarrow> Inl e
         | Inr d1 \<Rightarrow>
             if 0 \<le> dj_head d1 \<and> dj_head d1 < int (length (dj_hist d1)) then
               (let d3 = push_hist d1 s;
                    d4 = d3\<lparr>dj_head := (dj_head d3 + 1) AND 3\<rparr>
                in
                  if dj_nr d3 = 1 then Inr (s, d4)
                  else
                    (case average d3 slot of
                       Inl e \<Rightarrow> Inl e
                     | Inr v \<Rightarrow> Inr (v\<lparr>samp_tv := samp_tv s\<rparr>, d4)))
             else Inl OutOfBounds))"

text \<open>The loop: samples left, the pointer \<open>s\<close> into the array and \<open>count\<close>.\<close>

fun dejitter_loop ::
  "nat \<Rightarrow> nat \<Rightarrow> nat \<Rightarrow> tslib_dejitter \<Rightarrow> ts_sample list \<Rightarrow> fault + (nat \<times> tslib_dejitter \<times> ts_sample list)" where
  "dejitter_loop 0 s cnt djt buf = Inr (cnt, djt, buf)"
| "dejitter_loop (Suc ret) s cnt djt buf =
     (if s < length buf \<and> cnt < length buf then
        (case dejitter_step djt (buf ! s) (buf ! cnt) of
           Inl e \<Rightarrow> Inl e
         | Inr (v, djt') \<Rightarrow> dejitter_loop ret (s + 1) (cnt + 1) djt' (buf[cnt := v]))
      else Inl OutOfBounds)"

definition dejitter_read :: "'a reader \<Rightarrow> (tslib_dejitter \<times> 'a) reader" where
  "dejitter_read nxt = (\<lambda>((djt, a), w) samp nr.
     case nxt (a, w) samp nr of
       Inl e \<Rightarrow> Inl e
     | Inr (ret, samp', (a', w')) \<Rightarrow>
         (case dejitter_loop (nat ret) 0 0 djt samp' of
            Inl e \<Rightarrow> Inl e
          | Inr (cnt, djt', samp'') \<Rightarrow> Inr (int cnt, samp'', ((djt', a'), w'))))"

definition dejitter_limit :: "tslib_dejitter var_fn" where
  "dejitter_limit djt str data errno =
     (case strtoul0 str errno of
        Inl e \<Rightarrow> Inl e
      | Inr (v, errno') \<Rightarrow>
          if v = ULONG_MAX \<and> errno' = ERANGE then Inr (djt, -1, errno')
          else if data = 1 then Inr (djt\<lparr>dj_delta := sint v\<rparr>, 0, errno)
          else Inr (djt, -1, errno))"

definition dejitter_vars :: "tslib_dejitter tslib_vars list" where
  "dejitter_vars = [\<lparr>var_name = ''delta'', var_data = 1, var_fun = dejitter_limit\<rparr>]"

definition dejitter_mod_init :: "bool \<Rightarrow> string option \<Rightarrow> int \<Rightarrow> fault + (tslib_dejitter option \<times> int)" where
  "dejitter_mod_init malloc_ok params errno =
     (if \<not> malloc_ok then Inr (None, errno)
      else
        (case tslib_parse_vars dejitter_vars params
                \<lparr>dj_delta = 100, dj_x = 0, dj_y = 0, dj_down = 0, dj_nr = 0, dj_head = 0,
                 dj_hist = replicate 4 \<lparr>hist_x = 0, hist_y = 0, hist_p = 0\<rparr>\<rparr> errno of
           Inl e \<Rightarrow> Inl e
         | Inr (djt, ret, errno') \<Rightarrow>
             Inr (if ret \<noteq> 0 then None else Some (djt\<lparr>dj_delta := sqr (dj_delta djt)\<rparr>), errno')))"

subsection \<open>The filter on a list of past positions\<close>

definition hist_of :: "ts_sample \<Rightarrow> ts_hist" where
  "hist_of s = \<lparr>hist_x = samp_x s, hist_y = samp_y s, hist_p = samp_pressure s\<rparr>"

definition too_far :: "int \<Rightarrow> ts_sample \<Rightarrow> ts_hist \<Rightarrow> bool" where
  "too_far delta s h \<longleftrightarrow>
     delta < s32 ((samp_x s - hist_x h) * (samp_x s - hist_x h) + (samp_y s - hist_y h) * (samp_y s - hist_y h))"

definition wsum :: "int list \<Rightarrow> int list \<Rightarrow> int" where
  "wsum ws vs = sum_list (map2 (*) vs ws)"

definition smooth :: "ts_hist list \<Rightarrow> ts_sample \<Rightarrow> ts_sample" where
  "smooth hs s =
     (case hs of
        h1 # h2 # hs' \<Rightarrow>
          (let w = weight ! (length hs - 2); k = nat (w ! 4) in
           s\<lparr>samp_x := s32 (wsum w (map hist_x hs)) div 2 ^ k,
             samp_y := s32 (wsum w (map hist_y hs)) div 2 ^ k,
             samp_pressure := drop_bit k (word_of_int (wsum w (map (uint \<circ> hist_p) hs)))\<rparr>)
      | _ \<Rightarrow> s)"

definition backlog_step :: "int \<Rightarrow> ts_hist list \<Rightarrow> ts_sample \<Rightarrow> ts_hist list" where
  "backlog_step delta hs s =
     (if samp_pressure s = 0 then []
      else take 4 (hist_of s # (if hs \<noteq> [] \<and> too_far delta s (hd hs) then [] else hs)))"

fun dejitter_spec :: "int \<Rightarrow> ts_hist list \<Rightarrow> ts_sample list \<Rightarrow> ts_sample list \<times> ts_hist list" where
  "dejitter_spec delta hs [] = ([], hs)"
| "dejitter_spec delta hs (s # ss) =
     (let hs' = backlog_step delta hs s in
      (case dejitter_spec delta hs' ss of (out, hs'') \<Rightarrow> (smooth hs' s # out, hs'')))"

text \<open>The invariant of the ring buffer and the list it stands for, newest first.\<close>

definition dejitter_inv :: "tslib_dejitter \<Rightarrow> bool" where
  "dejitter_inv d \<longleftrightarrow> 0 \<le> dj_nr d \<and> dj_nr d \<le> 4 \<and> 0 \<le> dj_head d \<and> dj_head d < 4 \<and> length (dj_hist d) = 4"

definition backlog :: "tslib_dejitter \<Rightarrow> ts_hist list" where
  "backlog d = map (\<lambda>i. dj_hist d ! nat ((dj_head d - 1 - int i) mod 4)) [0..<nat (dj_nr d)]"


text \<open>Positions between two corners, and corners for which the sums do not overflow.\<close>

definition within :: "ts_hist \<Rightarrow> ts_hist \<Rightarrow> ts_hist \<Rightarrow> bool" where
  "within lo hi h \<longleftrightarrow> hist_x lo \<le> hist_x h \<and> hist_x h \<le> hist_x hi \<and>
     hist_y lo \<le> hist_y h \<and> hist_y h \<le> hist_y hi \<and> hist_p lo \<le> hist_p h \<and> hist_p h \<le> hist_p hi"

definition no_overflow :: "ts_hist \<Rightarrow> ts_hist \<Rightarrow> bool" where
  "no_overflow lo hi \<longleftrightarrow> - (2 ^ 27) \<le> hist_x lo \<and> hist_x hi < 2 ^ 27 \<and>
     - (2 ^ 27) \<le> hist_y lo \<and> hist_y hi < 2 ^ 27 \<and> hist_p hi < 2 ^ 28"

text \<open>What the filter promises for one sample: a release is passed on, a press stays in the box.\<close>

definition smoothed :: "ts_hist \<Rightarrow> ts_hist \<Rightarrow> ts_sample \<Rightarrow> ts_sample \<Rightarrow> bool" where
  "smoothed lo hi s v \<longleftrightarrow> samp_tv v = samp_tv s \<and>
     (if samp_pressure s = 0 then v = s else within lo hi (hist_of v))"

subsection \<open>The ring buffer implements the list\<close>

lemma dejitter_invE:
  assumes "dejitter_inv d"
  obtains a b c e where "dj_hist d = [a, b, c, e]" "dj_nr d \<in> {0, 1, 2, 3, 4}" "dj_head d \<in> {0, 1, 2, 3}"
proof -
  from assms have "length (dj_hist d) = Suc (Suc (Suc (Suc 0)))" by (simp add: dejitter_inv_def)
  then obtain a b c e where "dj_hist d = [a, b, c, e]" by (auto simp: length_Suc_conv)
  moreover from assms have "dj_nr d \<in> {0, 1, 2, 3, 4}" "dj_head d \<in> {0, 1, 2, 3}"
    by (auto simp: dejitter_inv_def)
  ultimately show ?thesis by (rule that)
qed

lemma s32_sqr_add: "s32 (sqr (s32 a) + sqr (s32 b)) = s32 (a * a + b * b)"
  by (simp add: sqr_def)

lemma backlog_Nil_iff: "dejitter_inv d \<Longrightarrow> backlog d = [] \<longleftrightarrow> dj_nr d = 0"
  by (auto simp: backlog_def dejitter_inv_def)

lemma hd_backlog:
  assumes "dejitter_inv d" "dj_nr d \<noteq> 0"
  shows "hd (backlog d) = dj_hist d ! nat ((dj_head d - 1) mod 4)"
proof -
  from assms have "0 < nat (dj_nr d)" by (simp add: dejitter_inv_def)
  then show ?thesis by (simp add: backlog_def hd_map upt_conv_Cons)
qed

lemma reset_backlog_ok:
  assumes "dejitter_inv d"
  shows "reset_backlog d s =
    Inr (if backlog d \<noteq> [] \<and> too_far (dj_delta d) s (hd (backlog d)) then d\<lparr>dj_nr := 0\<rparr> else d)"
proof (cases "dj_nr d = 0")
  case True
  with assms show ?thesis by (simp add: reset_backlog_def backlog_Nil_iff)
next
  case False
  have "0 \<le> (dj_head d - 1) mod 4" "(dj_head d - 1) mod 4 < 4" by simp_all
  with False assms show ?thesis
    by (simp add: reset_backlog_def backlog_Nil_iff hd_backlog too_far_def s32_sqr_add dejitter_inv_def)
qed

text \<open>The entries the loop of \<open>average\<close> visits, from \<open>sn\<close> downwards around the ring.\<close>

definition ring :: "'a list \<Rightarrow> int \<Rightarrow> nat \<Rightarrow> 'a list" where
  "ring hist sn n = map (\<lambda>i. hist ! nat ((sn - int i) mod 4)) [0..<n]"

lemma length_ring [simp]: "length (ring hist sn n) = n"
  by (simp add: ring_def)

lemma ring_Suc: "0 \<le> sn \<Longrightarrow> sn < 4 \<Longrightarrow> ring hist sn (Suc n) = hist ! nat sn # ring hist ((sn - 1) mod 4) n"
  by (simp add: ring_def upt_conv_Cons map_Suc_upt [symmetric] mod_simps diff_diff_eq add.commute
      del: upt_Suc)

lemma backlog_ring: "backlog d = ring (dj_hist d) (dj_head d - 1) (nat (dj_nr d))"
  by (simp add: backlog_def ring_def)

lemma average_loop_ok:
  assumes "length hist = 4" "0 \<le> sn" "sn < 4" "i + n \<le> length w"
  shows "average_loop hist w n (int i) sn (s32 sx) (s32 sy) sp =
    Inr (s32 (sx + wsum (drop i w) (map hist_x (ring hist sn n))),
         s32 (sy + wsum (drop i w) (map hist_y (ring hist sn n))),
         sp + word_of_int (wsum (drop i w) (map (uint \<circ> hist_p) (ring hist sn n))))"
  using assms(2-)
proof (induction n arbitrary: i sn sx sy sp)
  case 0
  then show ?case by (simp add: ring_def wsum_def)
next
  case (Suc n)
  have r: "ring hist sn (Suc n) = hist ! nat sn # ring hist ((sn - 1) mod 4) n"
    using Suc.prems by (simp add: ring_Suc)
  have w: "drop i w = w ! i # drop (Suc i) w" using Suc.prems by (simp add: Cons_nth_drop_Suc)
  have "0 \<le> (sn - 1) mod 4" "(sn - 1) mod 4 < 4" "Suc i + n \<le> length w" using Suc.prems by simp_all
  from Suc.IH [OF this] Suc.prems assms(1) show ?case
    by (simp add: r w wsum_def algebra_simps)
qed

lemma length_weight: "k \<in> {2, 3, 4} \<Longrightarrow> length (weight ! nat (k - 2)) = 5"
  by (auto simp: weight_def)

lemma average_ok:
  assumes "length (dj_hist d) = 4" "0 \<le> dj_head d" "dj_head d < 4" "dj_nr d \<in> {2, 3, 4}"
  shows "average d slot =
    Inr ((smooth (ring (dj_hist d) (dj_head d) (nat (dj_nr d))) s)\<lparr>samp_tv := samp_tv slot\<rparr>)"
proof -
  let ?r = "ring (dj_hist d) (dj_head d) (nat (dj_nr d))" and ?w = "weight ! nat (dj_nr d - 2)"
  from assms(4) have n: "arr_get weight (dj_nr d - 2) = Inr ?w" by (auto simp: weight_def)
  note lw = length_weight [OF assms(4)]
  have "average_loop (dj_hist d) ?w (nat (dj_nr d)) (int 0) (dj_head d) (s32 0) (s32 0) 0 =
      Inr (s32 (0 + wsum (drop 0 ?w) (map hist_x ?r)), s32 (0 + wsum (drop 0 ?w) (map hist_y ?r)),
           0 + word_of_int (wsum (drop 0 ?w) (map (uint \<circ> hist_p) ?r)))"
    by (rule average_loop_ok [OF assms(1-3)]) (use assms(4) lw in auto)
  moreover have "2 \<le> length ?r" using assms(4) by auto
  then obtain h1 h2 hs where "?r = h1 # h2 # hs"
    by (metis Suc_le_length_iff numeral_2_eq_2)
  moreover have "length ?r - 2 = nat (dj_nr d - 2)" using assms(4) by auto
  ultimately show ?thesis
    using lw by (simp add: average_def n smooth_def Let_def drop_bit_eq_div s32_def)
qed

text \<open>What one round does to the list the ring buffer stands for.\<close>

lemma ring_push:
  assumes "length hist = 4" "0 \<le> h" "h < 4" "n \<le> 3"
  shows "ring (hist[nat h := v]) h (Suc n) = v # ring hist (h - 1) n"
proof -
  have "nat h \<noteq> nat ((h - 1 - int i) mod 4)" if "i < n" for i
  proof -
    have "h \<in> {0, 1, 2, 3}" "i \<in> {0, 1, 2}" using assms that by auto
    then show ?thesis by auto
  qed
  then have "ring (hist[nat h := v]) (h - 1) n = ring hist (h - 1) n"
    by (simp add: ring_def)
  moreover have "ring (hist[nat h := v]) ((h - 1) mod 4) n = ring (hist[nat h := v]) (h - 1) n"
    by (simp add: ring_def mod_simps)
  ultimately show ?thesis using assms by (simp add: ring_Suc)
qed

lemma ring_next: "ring hist ((h + 1) mod 4 - 1) n = ring hist h n"
proof -
  have "((h + 1) mod 4 - 1 - int i) mod 4 = (h - int i) mod 4" for i
    using mod_diff_left_eq [of "h + 1" 4 "1 + int i"] by (simp add: algebra_simps)
  then show ?thesis by (simp add: ring_def)
qed

lemma take_ring: "take k (ring hist sn n) = ring hist sn (min k n)"
  by (simp add: ring_def take_map take_upt min_def)

lemma dejitter_step_pressed:
  assumes "samp_pressure s \<noteq> 0" "reset_backlog d s = Inr d1"
    "0 \<le> dj_head d1" "dj_head d1 < int (length (dj_hist d1))"
    "push_hist d1 s = d3" "d4 = d3\<lparr>dj_head := (dj_head d3 + 1) mod 4\<rparr>"
  shows "dejitter_step d s slot =
    (if dj_nr d3 = 1 then Inr (s, d4)
     else case average d3 slot of Inl e \<Rightarrow> Inl e | Inr v \<Rightarrow> Inr (v\<lparr>samp_tv := samp_tv s\<rparr>, d4))"
  unfolding assms(6) using assms(1-5) by (simp add: dejitter_step_def)

lemma dejitter_step_ok:
  assumes "dejitter_inv d"
  shows "\<exists>d'. dejitter_step d s slot = Inr (smooth (backlog_step (dj_delta d) (backlog d) s) s, d') \<and>
    dejitter_inv d' \<and> dj_delta d' = dj_delta d \<and> backlog d' = backlog_step (dj_delta d) (backlog d) s"
proof (cases "samp_pressure s = 0")
  case True
  with assms show ?thesis
    by (simp add: dejitter_step_def backlog_step_def smooth_def dejitter_inv_def backlog_def)
next
  case False
  let ?far = "backlog d \<noteq> [] \<and> too_far (dj_delta d) s (hd (backlog d))"
  define n where "n = (if ?far then 0 else dj_nr d)"
  let ?d1 = "d\<lparr>dj_nr := n\<rparr>" and ?h = "dj_head d"
  let ?n' = "if n < 4 then n + 1 else n"
  let ?d3 = "d\<lparr>dj_nr := ?n', dj_hist := (dj_hist d)[nat ?h := hist_of s]\<rparr>"
  let ?d4 = "?d3\<lparr>dj_head := (?h + 1) mod 4\<rparr>"
  let ?hs = "backlog_step (dj_delta d) (backlog d) s"
  have inv: "0 \<le> n" "n \<le> 4" "0 \<le> ?h" "?h < 4" "length (dj_hist d) = 4"
    using assms by (auto simp: dejitter_inv_def n_def)
  have reset: "reset_backlog d s = Inr ?d1"
    using reset_backlog_ok [OF assms, of s] by (simp add: n_def)
  have n': "nat ?n' = Suc (nat (min 3 n))" using inv by (auto simp: min_def)
  have hs: "?hs = ring (dj_hist ?d3) ?h (nat ?n')"
  proof -
    have "ring ((dj_hist d)[nat ?h := hist_of s]) ?h (Suc (nat (min 3 n))) =
        hist_of s # ring (dj_hist d) (?h - 1) (nat (min 3 n))"
      by (rule ring_push) (use inv in auto)
    moreover have "?hs = hist_of s # take 3 (ring (dj_hist d) (?h - 1) (nat n))"
      using False by (simp add: backlog_step_def n_def backlog_ring ring_def)
    moreover have "min 3 (nat n) = nat (min 3 n)" by simp
    ultimately show ?thesis by (simp add: take_ring n')
  qed
  have inv3: "length (dj_hist ?d3) = 4" "0 \<le> dj_head ?d3" "dj_head ?d3 < 4" using inv by simp_all
  have s32n: "s32 (n + 1) = n + 1" if "n < 4"
    by (rule s32_id) (use that inv in \<open>simp add: in_s32_def\<close>)
  have out: "(if dj_nr ?d3 = 1 then Inr (s, ?d4)
      else case average ?d3 slot of Inl e \<Rightarrow> Inl e | Inr v \<Rightarrow> Inr (v\<lparr>samp_tv := samp_tv s\<rparr>, ?d4)) =
      Inr (smooth ?hs s, ?d4)"
  proof (cases "dj_nr ?d3 = 1")
    case True
    then have "length ?hs = 1" using hs by simp
    then have "smooth ?hs s = s" by (auto simp: smooth_def length_Suc_conv)
    with True show ?thesis by simp
  next
    case one: False
    then have "dj_nr ?d3 \<in> {2, 3, 4}" using inv by auto
    from average_ok [OF inv3 this, of slot s] one hs show ?thesis by (simp add: smooth_def Let_def split: list.splits)
  qed
  have push: "push_hist ?d1 s = ?d3"
    using inv s32n by (simp add: push_hist_def hist_of_def)
  have "dejitter_step d s slot = Inr (smooth ?hs s, ?d4)"
    by (rule trans [OF dejitter_step_pressed [OF False reset _ _ push] out]) (use inv in simp_all)
  moreover have "backlog ?d4 = ?hs"
    using hs by (simp add: backlog_ring ring_next)
  moreover have "dejitter_inv ?d4" using inv by (simp add: dejitter_inv_def)
  ultimately show ?thesis by auto
qed


lemma dejitter_loop_ok:
  assumes "dejitter_inv d" "k + ret \<le> length buf"
  shows "\<exists>d' out. dejitter_loop ret k k d buf = Inr (k + ret, d', take k buf @ out @ drop (k + ret) buf) \<and>
    dejitter_spec (dj_delta d) (backlog d) (take ret (drop k buf)) = (out, backlog d') \<and>
    length out = ret \<and> dejitter_inv d' \<and> dj_delta d' = dj_delta d"
  using assms
proof (induction ret arbitrary: k d buf)
  case 0
  then show ?case by simp
next
  case (Suc ret)
  let ?s = "buf ! k" and ?hs = "backlog_step (dj_delta d) (backlog d) (buf ! k)"
  obtain d1 where d1: "dejitter_step d ?s ?s = Inr (smooth ?hs ?s, d1)" "dejitter_inv d1"
    "dj_delta d1 = dj_delta d" "backlog d1 = ?hs"
    using dejitter_step_ok [OF Suc.prems(1), of ?s ?s] by blast
  have k: "k < length buf" "Suc k + ret \<le> length (buf[k := smooth ?hs ?s])" using Suc.prems(2) by simp_all
  obtain d' out where IH:
    "dejitter_loop ret (Suc k) (Suc k) d1 (buf[k := smooth ?hs ?s]) =
       Inr (Suc k + ret, d', take (Suc k) (buf[k := smooth ?hs ?s]) @ out @ drop (Suc k + ret) buf)"
    "dejitter_spec (dj_delta d) ?hs (take ret (drop (Suc k) buf)) = (out, backlog d')"
    "length out = ret" "dejitter_inv d'" "dj_delta d' = dj_delta d"
    using Suc.IH [OF d1(2) k(2)] d1(3,4) by auto
  have "take (Suc ret) (drop k buf) = ?s # take ret (drop (Suc k) buf)"
    using k(1) by (simp add: Cons_nth_drop_Suc [symmetric])
  with IH d1 k show ?case
    by (intro exI [of _ d'] exI [of _ "smooth ?hs ?s # out"]) simp
qed

lemma dejitter_read_Inr:
  assumes "nxt (a, w) samp nr = Inr (ret, samp', (a', w'))" "ret \<le> int (length samp')" "dejitter_inv d"
  obtains out d' where
    "dejitter_spec (dj_delta d) (backlog d) (take (nat ret) samp') = (out, backlog d')"
    "dejitter_read nxt ((d, a), w) samp nr = Inr (max 0 ret, out @ drop (nat ret) samp', ((d', a'), w'))"
    "length out = nat ret" "dejitter_inv d'" "dj_delta d' = dj_delta d"
proof -
  have "0 + nat ret \<le> length samp'" using assms(2) by simp
  from dejitter_loop_ok [OF assms(3) this] obtain d' out where
    "dejitter_loop (nat ret) 0 0 d samp' = Inr (nat ret, d', out @ drop (nat ret) samp')"
    "dejitter_spec (dj_delta d) (backlog d) (take (nat ret) samp') = (out, backlog d')"
    "length out = nat ret" "dejitter_inv d'" "dj_delta d' = dj_delta d" by auto
  with assms(1) show ?thesis
    by (intro that [of out d']) (auto simp: dejitter_read_def)
qed

context ts_source
begin

lemma dejitter_source: "ts_source (dejitter_read rd) (\<lambda>((d, a), w). dejitter_inv d \<and> invar (a, w))"
proof (unfold_locales, goal_cases)
  case (1 s nr buf)
  obtain d a w where s: "s = ((d, a), w)" by (cases s) auto
  with 1 have i: "invar (a, w)" "dejitter_inv d" by simp_all
  obtain ret buf' a' w' where rd: "rd (a, w) buf nr = Inr (ret, buf', (a', w'))" "ret \<le> nr"
    "length buf' = length buf" "drop (nat nr) buf' = drop (nat nr) buf" "invar (a', w')"
    by (rule rd_cases [OF i(1) 1(2,3)])
  have le: "ret \<le> int (length buf')" using rd(2,3) 1(3) by simp
  obtain out d' where
    "dejitter_spec (dj_delta d) (backlog d) (take (nat ret) buf') = (out, backlog d')" and
    r: "dejitter_read rd ((d, a), w) buf nr = Inr (max 0 ret, out @ drop (nat ret) buf', ((d', a'), w'))"
      "length out = nat ret" "dejitter_inv d'"
    by (rule dejitter_read_Inr [of rd a w buf nr ret buf' a' w' d, OF rd(1) le i(2)])
  have "drop (nat nr) (out @ drop (nat ret) buf') = drop (nat nr) buf'"
    by (rule drop_eq_mono [of "nat ret"]) (use rd(2) r(2) in auto)
  with r rd 1(2) le show ?case by (simp add: s)
next
  case (2 a w st)
  then show ?case using invar_pthres by (auto split: prod.splits)
qed

end

subsection \<open>Averages stay between the values averaged\<close>

lemma wsum_hull:
  assumes "length vs \<in> {2, 3, 4}" "\<forall>v \<in> set vs. lo \<le> v \<and> v \<le> hi" "w = weight ! (length vs - 2)"
  shows "lo * 2 ^ nat (w ! 4) \<le> wsum w vs" "wsum w vs \<le> hi * 2 ^ nat (w ! 4)"
proof -
  from assms(1) consider a b where "vs = [a, b]" | a b c where "vs = [a, b, c]"
    | a b c d where "vs = [a, b, c, d]"
    by (auto simp: length_Suc_conv numeral_eq_Suc)
  then have "lo * 2 ^ nat (w ! 4) \<le> wsum w vs \<and> wsum w vs \<le> hi * 2 ^ nat (w ! 4)"
    by cases (use assms(2,3) in \<open>auto simp: weight_def wsum_def\<close>)
  then show "lo * 2 ^ nat (w ! 4) \<le> wsum w vs" "wsum w vs \<le> hi * 2 ^ nat (w ! 4)" by simp_all
qed


lemma weight_shift: "length vs \<in> {2, 3, 4} \<Longrightarrow> nat (weight ! (length vs - 2) ! 4) \<in> {3, 4}"
  by (auto simp: weight_def numeral_eq_Suc)

lemma avg_bounds:
  assumes "length vs \<in> {2, 3, 4}" "\<forall>v \<in> set vs. lo \<le> v \<and> v \<le> hi" "w = weight ! (length vs - 2)"
  shows "lo \<le> wsum w vs div 2 ^ nat (w ! 4)" "wsum w vs div 2 ^ nat (w ! 4) \<le> hi"
proof -
  note h = wsum_hull [OF assms]
  show "lo \<le> wsum w vs div 2 ^ nat (w ! 4)"
    using zdiv_mono1 [OF h(1), of "2 ^ nat (w ! 4)"] by simp
  show "wsum w vs div 2 ^ nat (w ! 4) \<le> hi"
    using zdiv_mono1 [OF h(2), of "2 ^ nat (w ! 4)"] by simp
qed

lemma wsum_range:
  assumes "length vs \<in> {2, 3, 4}" "\<forall>v \<in> set vs. lo \<le> v \<and> v \<le> hi" "w = weight ! (length vs - 2)"
    "- b \<le> lo" "hi < b"
  shows "- (b * 16) \<le> wsum w vs \<and> wsum w vs < b * 16"
proof -
  note h = wsum_hull [OF assms(1-3)]
  from assms(1) obtain v where "v \<in> set vs" by (cases vs) auto
  with assms(2) have "lo \<le> hi" by force
  from weight_shift [OF assms(1)] have "nat (w ! 4) = 3 \<or> nat (w ! 4) = 4" by (simp add: assms(3))
  then show ?thesis using h assms(4,5) \<open>lo \<le> hi\<close> by (elim disjE) simp_all
qed

lemma avg_s32:
  assumes "length vs \<in> {2, 3, 4}" "\<forall>v \<in> set vs. lo \<le> v \<and> v \<le> hi" "w = weight ! (length vs - 2)"
    "- (2 ^ 27) \<le> lo" "hi < 2 ^ 27"
  shows "s32 (wsum w vs) = wsum w vs"
  using wsum_range [OF assms] by (intro s32_id) (simp add: in_s32_def)

lemma avg_u32:
  assumes "length hs \<in> {2, 3, 4}" "\<forall>h \<in> set hs. p \<le> hist_p h \<and> hist_p h \<le> q" "q < 2 ^ 28"
    "w = weight ! (length hs - 2)"
  shows "uint (drop_bit (nat (w ! 4)) (word_of_int (wsum w (map (uint \<circ> hist_p) hs)) :: 32 word)) =
    wsum w (map (uint \<circ> hist_p) hs) div 2 ^ nat (w ! 4)"
proof -
  let ?vs = "map (uint \<circ> hist_p) hs"
  have b: "\<forall>v \<in> set ?vs. 0 \<le> v \<and> v \<le> uint q" using assms(2) by (auto simp: word_le_def)
  have l: "length ?vs \<in> {2, 3, 4}" and w: "w = weight ! (length ?vs - 2)" using assms(1,4) by simp_all
  have "0 \<le> wsum w ?vs" using wsum_hull(1) [OF l b w] by simp
  moreover have "uint q < 2 ^ 28" using assms(3) by (simp add: word_less_def)
  then have "wsum w ?vs < 2 ^ 32" using wsum_range [OF l b w, of "2 ^ 28"] by simp
  ultimately have "take_bit 32 (wsum w ?vs) = wsum w ?vs"
    by (simp add: take_bit_int_eq_self)
  then show ?thesis
    using \<open>0 \<le> wsum w ?vs\<close> by (subst unsigned_drop_bit_eq) (simp add: unsigned_of_int drop_bit_eq_div)
qed

lemma smooth_within:
  assumes "length hs \<in> {2, 3, 4}" "\<forall>h \<in> set hs. within lo hi h" "no_overflow lo hi"
  shows "within lo hi (hist_of (smooth hs s))"
proof -
  let ?w = "weight ! (length hs - 2)"
  let ?p = "drop_bit (nat (?w ! 4)) (word_of_int (wsum ?w (map (uint \<circ> hist_p) hs)) :: 32 word)"
  obtain h1 h2 hs' where hs: "hs = h1 # h2 # hs'"
    using assms(1) by (metis Suc_le_length_iff insert_iff le_SucI le_refl numeral_2_eq_2 numeral_3_eq_3
        numeral_le_iff semiring_norm(68,71,72) singletonD one_le_numeral)
  have smooth: "smooth hs s = s\<lparr>samp_x := s32 (wsum ?w (map hist_x hs)) div 2 ^ nat (?w ! 4),
      samp_y := s32 (wsum ?w (map hist_y hs)) div 2 ^ nat (?w ! 4), samp_pressure := ?p\<rparr>"
    by (simp add: smooth_def hs Let_def)
  have lx: "length (map hist_x hs) \<in> {2, 3, 4}" "length (map hist_y hs) \<in> {2, 3, 4}"
    "length (map (uint \<circ> hist_p) hs) \<in> {2, 3, 4}" using assms(1) by simp_all
  have bx: "\<forall>v \<in> set (map hist_x hs). hist_x lo \<le> v \<and> v \<le> hist_x hi"
    and byy: "\<forall>v \<in> set (map hist_y hs). hist_y lo \<le> v \<and> v \<le> hist_y hi"
    and bp: "\<forall>v \<in> set (map (uint \<circ> hist_p) hs). uint (hist_p lo) \<le> v \<and> v \<le> uint (hist_p hi)"
    and bw: "\<forall>h \<in> set hs. hist_p lo \<le> hist_p h \<and> hist_p h \<le> hist_p hi"
    using assms(2) by (auto simp: within_def word_le_def)
  have "uint ?p = wsum ?w (map (uint \<circ> hist_p) hs) div 2 ^ nat (?w ! 4)"
    by (rule avg_u32 [OF assms(1) bw]) (use assms(3) in \<open>simp_all add: no_overflow_def\<close>)
  then have "hist_p lo \<le> ?p \<and> ?p \<le> hist_p hi"
    using avg_bounds [OF lx(3) bp] by (simp add: word_le_def)
  moreover have "s32 (wsum ?w (map hist_x hs)) = wsum ?w (map hist_x hs)"
    by (rule avg_s32 [OF lx(1) bx]) (use assms(3) in \<open>simp_all add: no_overflow_def\<close>)
  moreover have "s32 (wsum ?w (map hist_y hs)) = wsum ?w (map hist_y hs)"
    by (rule avg_s32 [OF lx(2) byy]) (use assms(3) in \<open>simp_all add: no_overflow_def\<close>)
  ultimately show ?thesis
    using avg_bounds [OF lx(1) bx] avg_bounds [OF lx(2) byy]
    by (simp add: within_def hist_of_def smooth)
qed


lemma backlog_step_within:
  assumes "\<forall>h \<in> set hs. within lo hi h" "samp_pressure s \<noteq> 0 \<longrightarrow> within lo hi (hist_of s)"
  shows "\<forall>h \<in> set (backlog_step delta hs s). within lo hi h"
  using assms by (auto simp: backlog_step_def dest: in_set_takeD)

lemma smooth_tv [simp]: "samp_tv (smooth hs s) = samp_tv s"
  by (simp add: smooth_def Let_def split: list.splits)

lemma smoothed_smooth:
  assumes "\<forall>h \<in> set hs. within lo hi h" "samp_pressure s \<noteq> 0 \<longrightarrow> within lo hi (hist_of s)"
    "no_overflow lo hi"
  shows "smoothed lo hi s (smooth (backlog_step delta hs s) s)"
proof (cases "samp_pressure s = 0 \<or> length (backlog_step delta hs s) = 1")
  case True
  then have "smooth (backlog_step delta hs s) s = s"
    by (auto simp: smooth_def backlog_step_def length_Suc_conv)
  with assms(2) show ?thesis by (simp add: smoothed_def)
next
  case False
  then have "1 \<le> length (backlog_step delta hs s)" "length (backlog_step delta hs s) \<le> 4"
    by (auto simp: backlog_step_def)
  with False have "length (backlog_step delta hs s) \<in> {2, 3, 4}" by auto
  from smooth_within [OF this backlog_step_within [OF assms(1,2)] assms(3)] False
  show ?thesis by (simp add: smoothed_def)
qed

lemma dejitter_spec_smoothed:
  assumes "\<forall>h \<in> set hs. within lo hi h"
    "\<forall>s \<in> set ss. samp_pressure s \<noteq> 0 \<longrightarrow> within lo hi (hist_of s)" "no_overflow lo hi"
  shows "list_all2 (smoothed lo hi) ss (fst (dejitter_spec delta hs ss))"
  using assms(1,2)
proof (induction ss arbitrary: hs)
  case Nil
  then show ?case by simp
next
  case (Cons s ss)
  from Cons.prems have "samp_pressure s \<noteq> 0 \<longrightarrow> within lo hi (hist_of s)" by simp
  note b = backlog_step_within [OF Cons.prems(1) this, of delta]
    and r = smoothed_smooth [OF Cons.prems(1) this assms(3), of delta]
  with Cons.IH [OF b] Cons.prems(2) show ?case by (auto simp: Let_def split: prod.splits)
qed

lemma dejitter_limit_simp:
  "n < 4294967295 \<Longrightarrow> dejitter_limit d (Some (dec_str n)) data e =
     (if data = 1 then Inr (d\<lparr>dj_delta := sint (of_nat n :: 32 word)\<rparr>, 0, e) else Inr (d, -1, e))"
  by (simp add: dejitter_limit_def strtoul0_dec_str of_nat_neq_ULONG_MAX)

lemma find_dejitter_vars:
  "find_var dejitter_vars ''delta'' = Some \<lparr>var_name = ''delta'', var_data = 1, var_fun = dejitter_limit\<rparr>"
  by (simp add: dejitter_vars_def strcasecmp_eq_def tolower_c_def)

subsection \<open>Properties\<close>

text \<open>
  C2: the ring buffer of four entries, its head pointer and its in-place loop implement the
  smoothing filter on a plain list of the last positions. From any state that satisfies the
  invariant no array is indexed out of range, each sample read gives exactly one sample,
  the rest of the caller's array is left alone, and the invariant holds again. A negative
  result of the module below is reported as 0.
\<close>

theorem dejitter_read_refines:
  assumes "nxt (a, w) samp nr = Inr (ret, samp', (a', w'))" "ret \<le> int (length samp')" "dejitter_inv d"
  shows "\<exists>out d'. dejitter_spec (dj_delta d) (backlog d) (take (nat ret) samp') = (out, backlog d') \<and>
    dejitter_read nxt ((d, a), w) samp nr = Inr (max 0 ret, out @ drop (nat ret) samp', ((d', a'), w')) \<and>
    length out = nat ret \<and> dejitter_inv d' \<and> dj_delta d' = dj_delta d"
  using dejitter_read_Inr [of nxt a w samp nr ret samp' a' w' d] assms by metis

theorem dejitter_read_refines_witness:
  "\<exists>out d'. dejitter_read (\<lambda>s b n. Inr (3, [smp 80 16 8, smp 88 16 8, smp 0 0 0, smp 9 9 9], s))
      ((\<lparr>dj_delta = 10000, dj_x = 0, dj_y = 0, dj_down = 0, dj_nr = 0, dj_head = 3,
         dj_hist = replicate 4 \<lparr>hist_x = 0, hist_y = 0, hist_p = 0\<rparr>\<rparr>, ()), world0) (replicate 4 (smp 0 0 0)) 4
    = Inr (3, out @ [smp 9 9 9], ((d', ()), world0)) \<and>
    out = [smp 80 16 8, smp 85 16 8, smp 0 0 0] \<and> dejitter_inv d' \<and> backlog d' = []"
proof -
  let ?d = "\<lparr>dj_delta = 10000, dj_x = 0, dj_y = 0, dj_down = 0, dj_nr = 0, dj_head = 3,
         dj_hist = replicate 4 \<lparr>hist_x = 0, hist_y = 0, hist_p = 0\<rparr>\<rparr>"
  let ?in = "[smp 80 16 8, smp 88 16 8, smp 0 0 0, smp 9 9 9]"
  have b: "backlog ?d = []" and i: "dejitter_inv ?d" by (simp_all add: backlog_def dejitter_inv_def)
  have "dejitter_spec 10000 [] (take 3 ?in) = ([smp 80 16 8, smp 85 16 8, smp 0 0 0], [])"
    by code_simp
  moreover obtain out d' where
    "dejitter_spec (dj_delta ?d) (backlog ?d) (take (nat 3) ?in) = (out, backlog d')"
    "dejitter_read (\<lambda>s b n. Inr (3, ?in, s)) ((?d, ()), world0) (replicate 4 (smp 0 0 0)) 4 =
       Inr (max 0 3, out @ drop (nat 3) ?in, ((d', ()), world0))" "dejitter_inv d'"
    using dejitter_read_refines [of "\<lambda>s b n. Inr (3, ?in, s)" "()" world0 "replicate 4 (smp 0 0 0)" 4 3 ?in "()" world0 ?d, OF _ _ i]
    by auto
  ultimately show ?thesis by (intro exI [of _ out] exI [of _ d']) (simp add: b)
qed


text \<open>
  Smoothing never leaves the region the pen was in and never turns a press into a release
  or a release into a press. If the remembered positions and the presses read lie between two
  corners with coordinates below \<open>2 ^ 27\<close> and pressures below \<open>2 ^ 28\<close>, so does every
  press reported; releases and time stamps are passed on unchanged.
\<close>

theorem dejitter_read_within:
  assumes "nxt (a, w) samp nr = Inr (ret, samp', (a', w'))" "ret \<le> int (length samp')" "dejitter_inv d"
    and "\<forall>h \<in> set (backlog d). within lo hi h" "no_overflow lo hi"
    and "\<forall>s \<in> set (take (nat ret) samp'). samp_pressure s \<noteq> 0 \<longrightarrow> within lo hi (hist_of s)"
    and "dejitter_read nxt ((d, a), w) samp nr = Inr (n, samp'', s'')"
  shows "n = max 0 ret \<and> list_all2 (smoothed lo hi) (take (nat ret) samp') (take (nat n) samp'')"
proof -
  obtain out d' where
    "dejitter_spec (dj_delta d) (backlog d) (take (nat ret) samp') = (out, backlog d')"
    "dejitter_read nxt ((d, a), w) samp nr = Inr (max 0 ret, out @ drop (nat ret) samp', ((d', a'), w'))"
    "length out = nat ret"
    by (rule dejitter_read_Inr [of nxt a w samp nr ret samp' a' w' d, OF assms(1-3)])
  with assms(7) dejitter_spec_smoothed [OF assms(4,6,5), of "dj_delta d"] show ?thesis
    by (cases "0 \<le> ret") (auto simp: max_def)
qed

theorem dejitter_read_within_witness:
  "list_all2 (smoothed \<lparr>hist_x = 80, hist_y = 10, hist_p = 1\<rparr> \<lparr>hist_x = 90, hist_y = 20, hist_p = 9\<rparr>)
     [smp 80 16 8, smp 88 16 8] [smp 80 16 8, smp 85 16 8]"
proof -
  let ?d = "\<lparr>dj_delta = 10000, dj_x = 0, dj_y = 0, dj_down = 0, dj_nr = 0, dj_head = 3,
         dj_hist = replicate 4 \<lparr>hist_x = 0, hist_y = 0, hist_p = 0\<rparr>\<rparr>"
  let ?lo = "\<lparr>hist_x = 80, hist_y = 10, hist_p = 1\<rparr>" and ?hi = "\<lparr>hist_x = 90, hist_y = 20, hist_p = 9\<rparr>"
  let ?in = "[smp 80 16 8, smp 88 16 8]"
  let ?nxt = "\<lambda>s b n. Inr (2, ?in, s) :: fault + (int \<times> ts_sample list \<times> (unit \<times> world))"
  have "dejitter_loop (nat 2) 0 0 ?d ?in = Inr (2, \<lparr>dj_delta = 10000, dj_x = 0, dj_y = 0, dj_down = 0,
       dj_nr = 2, dj_head = 1, dj_hist = [\<lparr>hist_x = 88, hist_y = 16, hist_p = 8\<rparr>, \<lparr>hist_x = 0, hist_y = 0, hist_p = 0\<rparr>,
         \<lparr>hist_x = 0, hist_y = 0, hist_p = 0\<rparr>, \<lparr>hist_x = 80, hist_y = 16, hist_p = 8\<rparr>]\<rparr>, [smp 80 16 8, smp 85 16 8])"
    by code_simp
  then have "\<exists>s''. dejitter_read ?nxt ((?d, ()), world0) ?in 2 = Inr (2, [smp 80 16 8, smp 85 16 8], s'')"
    by (simp add: dejitter_read_def)
  then obtain s'' where r: "dejitter_read ?nxt ((?d, ()), world0) ?in 2 = Inr (2, [smp 80 16 8, smp 85 16 8], s'')" ..
  have "dejitter_inv ?d" "backlog ?d = []" "no_overflow ?lo ?hi" "within ?lo ?hi (hist_of (smp 80 16 8))"
    "within ?lo ?hi (hist_of (smp 88 16 8))"
    by (simp_all add: dejitter_inv_def backlog_def no_overflow_def within_def hist_of_def)
  with dejitter_read_within [of ?nxt "()" world0 ?in 2 2 ?in "()" world0 ?d ?lo ?hi, OF _ _ _ _ _ _ r]
  show ?thesis by auto
qed

text \<open>
  \<open>dejitter_mod_init\<close> squares the distance given by the option \<open>delta=\<close>, exactly for
  every distance whose square fits an \<open>int\<close>, and starts in a state that satisfies the
  invariant, with an empty backlog.
\<close>

theorem dejitter_mod_init_delta:
  assumes "n \<le> 46340"
  shows "\<exists>d. dejitter_mod_init True (Some (opt_token ''delta'' n)) errno = Inr (Some d, errno) \<and>
     dj_delta d = int n * int n \<and> dejitter_inv d \<and> backlog d = []"
proof -
  have n: "n < 4294967295" using assms by simp
  have "int n * int n \<le> 46340 * 46340" using assms by (intro mult_mono) auto
  moreover have "0 \<le> int n * int n" by simp
  ultimately have "in_s32 (int n * int n)" unfolding in_s32_def by linarith
  then have "s32 (int n * int n) = int n * int n" by (rule s32_id)
  then have "sqr (sint (of_nat n :: 32 word)) = int n * int n"
    using assms by (simp add: sqr_def signed_of_nat signed_take_bit_int_eq_self)
  moreover have "parse_token dejitter_vars (opt_token ''delta'' n) d e =
      Inr (d\<lparr>dj_delta := sint (of_nat n :: 32 word)\<rparr>, 0, e)" for d e
    using parse_token_found [OF _ find_dejitter_vars] n by (simp add: dejitter_limit_simp)
  then have "tslib_parse_vars dejitter_vars (Some (opt_token ''delta'' n)) d e =
      Inr (d\<lparr>dj_delta := sint (of_nat n :: 32 word)\<rparr>, 0, e)" for d e
    using length_dec_str_u32 [of n] n
    by (subst tslib_parse_vars_one) (auto dest: dec_str_plain)
  ultimately show ?thesis
    by (simp add: dejitter_mod_init_def dejitter_inv_def backlog_def)
qed

theorem dejitter_mod_init_delta_witness:
  "\<exists>d. dejitter_mod_init True (Some (opt_token ''delta'' 30)) 0 = Inr (Some d, 0) \<and>
     dj_delta d = 900 \<and> dejitter_inv d \<and> backlog d = []"
  using dejitter_mod_init_delta [of 30 0] by simp

end
