(* ===== verification/Variance.thy ===== *)
theory Variance
  imports TsTypes TsParseVars
begin

text \<open>
  The noise filter, src/tslib-1.1/plugins/variance.c: samples are delayed by one, and a sample
  far from the one before it is held back until the next one shows whether it was noise.
  \<open>variance_loop\<close> is the \<open>while\<close> loop with its flag word; \<open>var_run\<close> is the state machine
  with three states that it implements.
\<close>

record tslib_variance =
  va_delta :: int
  va_last :: ts_sample
  va_noise :: ts_sample
  va_flags :: "32 word"

definition VAR_PENDOWN :: "32 word" where "VAR_PENDOWN = 1"
definition VAR_LASTVALID :: "32 word" where "VAR_LASTVALID = 2"
definition VAR_NOISEVALID :: "32 word" where "VAR_NOISEVALID = 4"
definition VAR_SUBMITNOISE :: "32 word" where "VAR_SUBMITNOISE = 8"

definition variance_sqr :: "int \<Rightarrow> int" where
  "variance_sqr v = s32 (v * v)"

text \<open>The statements after the label \<open>acceptsample\<close>: what goes to \<open>samp[count++]\<close>.\<close>

definition acceptsample :: "tslib_variance \<Rightarrow> ts_sample \<Rightarrow> tslib_variance \<times> ts_sample option" where
  "acceptsample var cur = (var\<lparr>va_last := cur\<rparr>, Some (va_last var))"

text \<open>
  The loop body after \<open>cur\<close> has been fetched; \<open>None\<close> where the body ends in \<open>continue\<close>
  without a sample for the caller.
\<close>

definition variance_step :: "tslib_variance \<Rightarrow> ts_sample \<Rightarrow> tslib_variance \<times> ts_sample option" where
  "variance_step var cur =
     (if samp_pressure cur = 0 then
        (let v1 = (if va_flags var AND VAR_PENDOWN \<noteq> 0
                   then var\<lparr>va_flags := va_flags var OR VAR_SUBMITNOISE, va_noise := cur\<rparr> else var);
             v2 = v1\<lparr>va_flags := va_flags v1 AND NOT (VAR_PENDOWN OR VAR_NOISEVALID OR VAR_LASTVALID)\<rparr>
         in acceptsample v2 cur)
      else
        (let v1 = var\<lparr>va_flags := va_flags var OR VAR_PENDOWN\<rparr> in
         if va_flags v1 AND VAR_LASTVALID = 0 then
           (v1\<lparr>va_last := cur, va_flags := va_flags v1 OR VAR_LASTVALID\<rparr>, None)
         else if va_flags v1 AND VAR_PENDOWN \<noteq> 0 then
           (let dist = s32 (variance_sqr (s32 (samp_x cur - samp_x (va_last v1))) +
                            variance_sqr (s32 (samp_y cur - samp_y (va_last v1))))
            in
              if va_delta v1 < dist then
                if va_flags v1 AND VAR_NOISEVALID \<noteq> 0 then
                  (v1\<lparr>va_last := va_noise v1,
                      va_flags := (va_flags v1 AND NOT VAR_NOISEVALID) OR VAR_SUBMITNOISE,
                      va_noise := cur\<rparr>, Some (va_noise v1))
                else
                  (v1\<lparr>va_flags := va_flags v1 OR VAR_NOISEVALID, va_noise := cur\<rparr>, None)
              else acceptsample (v1\<lparr>va_flags := va_flags v1 AND NOT VAR_NOISEVALID\<rparr>) cur)
         else acceptsample v1 cur))"

text \<open>Rounds that may pass without a sample for the caller: at most two in a row.\<close>

definition var_slack :: "tslib_variance \<Rightarrow> nat" where
  "var_slack var = (if va_flags var AND VAR_LASTVALID = 0 then 1 else 0) +
     (if va_flags var AND VAR_NOISEVALID = 0 then 1 else 0)"

lemmas var_flags = VAR_PENDOWN_def VAR_LASTVALID_def VAR_NOISEVALID_def VAR_SUBMITNOISE_def

lemma bit_flag_consts [flag_simps]:
  "bit (1 :: 32 word) n \<longleftrightarrow> n = 0" "bit (2 :: 32 word) n \<longleftrightarrow> n = 1"
  "bit (4 :: 32 word) n \<longleftrightarrow> n = 2" "bit (8 :: 32 word) n \<longleftrightarrow> n = 3"
proof -
  have *: "bit (2 ^ m :: 32 word) n \<longleftrightarrow> n = m" if "m < 32" for m using that by (auto simp: bit_exp_iff)
  show "bit (1 :: 32 word) n \<longleftrightarrow> n = 0" "bit (2 :: 32 word) n \<longleftrightarrow> n = 1"
    "bit (4 :: 32 word) n \<longleftrightarrow> n = 2" "bit (8 :: 32 word) n \<longleftrightarrow> n = 3"
    using *[of 0] *[of 1] *[of 2] *[of 3] by simp_all
qed

lemma var_slack_le: "var_slack var \<le> 2"
  by (simp add: var_slack_def)

lemma var_slack_submit [simp]: "var_slack (var\<lparr>va_flags := va_flags var AND NOT VAR_SUBMITNOISE\<rparr>) = var_slack var"
  by (simp add: var_slack_def var_flags flag_simps bit_simps)

lemma variance_step_None:
  assumes "variance_step var cur = (var', None)"
  shows "var_slack var' < var_slack var"
  using assms
  by (auto simp: variance_step_def acceptsample_def var_slack_def var_flags flag_simps bit_simps Let_def
      split: if_splits)

text \<open>
  The loop. \<open>cur\<close> is the local variable, not initialised before the first round; \<open>cnt\<close> is
  \<open>count\<close>.
\<close>

function variance_loop ::
  "'a reader \<Rightarrow> int \<Rightarrow> nat \<Rightarrow> ts_sample \<Rightarrow> tslib_variance \<Rightarrow> 'a \<times> world \<Rightarrow> ts_sample list \<Rightarrow>
   fault + (int \<times> ts_sample list \<times> ((tslib_variance \<times> 'a) \<times> world))" where
  "variance_loop nxt nr cnt cur var s buf =
     (if int cnt < nr then
        (let fetched =
           (if va_flags var AND VAR_SUBMITNOISE \<noteq> 0 then
              Inr (Some (va_noise var, var\<lparr>va_flags := va_flags var AND NOT VAR_SUBMITNOISE\<rparr>), s)
            else
              (case nxt s [cur] 1 of
                 Inl e \<Rightarrow> Inl e
               | Inr (ret, cb, s') \<Rightarrow>
                   if ret < 1 then Inr (None, s')
                   else (case cb of [] \<Rightarrow> Inl OutOfBounds | c # _ \<Rightarrow> Inr (Some (c, var), s'))))
         in
           case fetched of
             Inl e \<Rightarrow> Inl e
           | Inr (None, (a', w')) \<Rightarrow> Inr (int cnt, buf, ((var, a'), w'))
           | Inr (Some (c, var1), s') \<Rightarrow>
               (case variance_step var1 c of
                  (var', None) \<Rightarrow> variance_loop nxt nr cnt c var' s' buf
                | (var', Some v) \<Rightarrow>
                    if cnt < length buf then variance_loop nxt nr (cnt + 1) c var' s' (buf[cnt := v])
                    else Inl OutOfBounds))
      else Inr (int cnt, buf, ((var, fst s), snd s)))"
  by pat_completeness auto
termination
proof (relation "measure (\<lambda>(nxt, nr, cnt, cur, var, s, buf). 3 * nat (nr - int cnt) + var_slack var)", goal_cases)
  case 1
  then show ?case by simp
next
  case (2 nxt nr cnt cur var s buf x b x2 a c var1 s' var' y)
  then show ?case
    by (auto split: if_splits sum.splits list.splits prod.splits)
      (metis variance_step_None var_slack_submit)+
next
  case (3 nxt nr cnt cur var s buf x b x2 a c var1 s' var' y v)
  then show ?case
    using var_slack_le [of var'] by (auto split: if_splits sum.splits list.splits prod.splits)
qed


declare variance_loop.simps [simp del]

definition variance_read :: "ts_sample \<Rightarrow> 'a reader \<Rightarrow> (tslib_variance \<times> 'a) reader" where
  "variance_read cur nxt = (\<lambda>((var, a), w) samp nr. variance_loop nxt nr 0 cur var (a, w) samp)"

definition variance_limit :: "tslib_variance var_fn" where
  "variance_limit var str data errno =
     (case strtoul0 str errno of
        Inl e \<Rightarrow> Inl e
      | Inr (v, errno') \<Rightarrow>
          if v = ULONG_MAX \<and> errno' = ERANGE then Inr (var, -1, errno')
          else if data = 1 then Inr (var\<lparr>va_delta := sint v\<rparr>, 0, errno)
          else Inr (var, -1, errno))"

definition variance_vars :: "tslib_variance tslib_vars list" where
  "variance_vars = [\<lparr>var_name = ''delta'', var_data = 1, var_fun = variance_limit\<rparr>]"

text \<open>
  The struct comes from \<open>malloc\<close>: \<open>None\<close> is NULL, \<open>Some var\<close> is a struct with any content.
  Only \<open>delta\<close> and \<open>flags\<close> are initialised.
\<close>

definition variance_mod_init ::
  "tslib_variance option \<Rightarrow> string option \<Rightarrow> int \<Rightarrow> fault + (tslib_variance option \<times> int)" where
  "variance_mod_init malloc_result params errno =
     (case malloc_result of
        None \<Rightarrow> Inr (None, errno)
      | Some var \<Rightarrow>
          (case tslib_parse_vars variance_vars params (var\<lparr>va_delta := 30, va_flags := 0\<rparr>) errno of
             Inl e \<Rightarrow> Inl e
           | Inr (var', ret, errno') \<Rightarrow>
               Inr (if ret \<noteq> 0 then None else Some (var'\<lparr>va_delta := variance_sqr (va_delta var')\<rparr>), errno')))"

subsection \<open>The state machine\<close>

text \<open>
  Pen up, with the sample that is still to be reported; pen down, with the last good sample;
  pen down with a good sample and a suspicious one after it.
\<close>

datatype var_state = PenUp ts_sample | Held ts_sample | Suspect ts_sample ts_sample

definition far :: "int \<Rightarrow> ts_sample \<Rightarrow> ts_sample \<Rightarrow> bool" where
  "far delta s t \<longleftrightarrow>
     delta < s32 ((samp_x s - samp_x t) * (samp_x s - samp_x t) + (samp_y s - samp_y t) * (samp_y s - samp_y t))"

fun var_step :: "int \<Rightarrow> var_state \<Rightarrow> ts_sample \<Rightarrow> var_state \<times> ts_sample list" where
  "var_step delta (PenUp l) c = (if samp_pressure c = 0 then (PenUp c, [l]) else (Held c, []))"
| "var_step delta (Held l) c =
     (if samp_pressure c = 0 then (PenUp c, [l, c])
      else if far delta c l then (Suspect l c, []) else (Held c, [l]))"
| "var_step delta (Suspect l n) c =
     (if samp_pressure c = 0 then (PenUp c, [l, c])
      else if far delta c l then
        (if far delta c n then (Suspect n c, [n]) else (Held c, [n, n]))
      else (Held c, [l]))"

fun var_run :: "int \<Rightarrow> var_state \<Rightarrow> ts_sample list \<Rightarrow> var_state \<times> ts_sample list" where
  "var_run delta st [] = (st, [])"
| "var_run delta st (c # cs) =
     (case var_step delta st c of (st1, out1) \<Rightarrow>
        (case var_run delta st1 cs of (st2, out2) \<Rightarrow> (st2, out1 @ out2)))"

text \<open>
  The flag words that occur between two rounds, and the state each stands for; with
  \<open>VAR_SUBMITNOISE\<close> set, \<open>noise\<close> is the next sample to be looked at.
\<close>

definition var_inv :: "tslib_variance \<Rightarrow> bool" where
  "var_inv var \<longleftrightarrow> va_flags var \<in> {0, 3, 7, 8, 11}"

definition var_abs :: "tslib_variance \<Rightarrow> var_state" where
  "var_abs var =
     (if va_flags var AND VAR_PENDOWN = 0 then PenUp (va_last var)
      else if va_flags var AND VAR_NOISEVALID = 0 then Held (va_last var)
      else Suspect (va_last var) (va_noise var))"

definition var_pending :: "tslib_variance \<Rightarrow> ts_sample list" where
  "var_pending var = (if va_flags var AND VAR_SUBMITNOISE = 0 then [] else [va_noise var])"

text \<open>
  The module below delivers the samples of a list one by one and then nothing more,
  whatever the contents of the variable they are read into.
\<close>

inductive delivers :: "'a reader \<Rightarrow> 'a \<times> world \<Rightarrow> ts_sample list \<Rightarrow> 'a \<times> world \<Rightarrow> bool" for nxt where
  dry: "(\<And>c. \<exists>ret cb. nxt s [c] 1 = Inr (ret, cb, s') \<and> ret < 1) \<Longrightarrow> delivers nxt s [] s'"
| more: "(\<And>c. nxt s [c] 1 = Inr (1, [v], s1)) \<Longrightarrow> delivers nxt s1 vs s' \<Longrightarrow> delivers nxt s (v # vs) s'"

inductive_cases delivers_NilE: "delivers nxt s [] s'"
inductive_cases delivers_ConsE: "delivers nxt s (v # vs) s'"


subsection \<open>The loop implements the state machine\<close>

abbreviation submit :: "tslib_variance \<Rightarrow> tslib_variance" where
  "submit var \<equiv> var\<lparr>va_flags := va_flags var AND NOT VAR_SUBMITNOISE\<rparr>"

lemma submit_abs:
  "var_inv var \<Longrightarrow> var_inv (submit var) \<and> var_abs (submit var) = var_abs var \<and> var_pending (submit var) = []"
  by (auto simp: var_inv_def var_abs_def var_pending_def var_flags)

lemma far_dist: "va_delta v < s32 (variance_sqr (s32 (samp_x s - samp_x l)) + variance_sqr (s32 (samp_y s - samp_y l))) \<longleftrightarrow> far (va_delta v) s l"
  by (simp add: far_def variance_sqr_def)

lemma variance_step_abs:
  assumes "var_inv var" "var_pending var = []" "variance_step var c = (var', out)"
    "var_run (va_delta var) (var_abs var') (var_pending var') = (st, outs)"
  shows "var_inv var' \<and> va_delta var' = va_delta var \<and>
    var_step (va_delta var) (var_abs var) c = (st, opt_list out @ outs)"
proof -
  have "va_flags var \<in> {0, 3, 7}" using assms(1,2) by (auto simp: var_inv_def var_pending_def var_flags)
  then consider "va_flags var = 0" | "va_flags var = 3" | "va_flags var = 7" by auto
  then show ?thesis
    by cases (use assms(3,4) in \<open>auto simp: variance_step_def acceptsample_def far_dist var_inv_def var_abs_def
        var_pending_def var_flags Let_def split: if_splits\<close>)
qed

lemma var_run_append:
  "var_run delta st (us @ vs) =
     (case var_run delta st us of (st1, o1) \<Rightarrow> (case var_run delta st1 vs of (st2, o2) \<Rightarrow> (st2, o1 @ o2)))"
  by (induction us arbitrary: st) (auto split: prod.splits)

lemma variance_step_run:
  assumes "var_inv var" "var_pending var = []" "variance_step var c = (var', out)"
  shows "var_inv var'" "va_delta var' = va_delta var"
    "var_run (va_delta var) (var_abs var) (c # cs) =
      (case var_run (va_delta var) (var_abs var') (var_pending var' @ cs) of (st, o2) \<Rightarrow> (st, opt_list out @ o2))"
proof -
  obtain st outs where r: "var_run (va_delta var) (var_abs var') (var_pending var') = (st, outs)" by fastforce
  from variance_step_abs [OF assms r] show "var_inv var'" "va_delta var' = va_delta var"
    "var_run (va_delta var) (var_abs var) (c # cs) =
      (case var_run (va_delta var) (var_abs var') (var_pending var' @ cs) of (st, o2) \<Rightarrow> (st, opt_list out @ o2))"
    by (auto simp: var_run_append r split: prod.splits)
qed

text \<open>The three ways a round can begin.\<close>

lemma var_pending_iff: "va_flags var AND VAR_SUBMITNOISE \<noteq> 0 \<longleftrightarrow> var_pending var = [va_noise var]"
  by (simp add: var_pending_def)

lemma variance_loop_pending:
  assumes "int cnt < nr" "var_pending var = c # cs"
  shows "variance_loop nxt nr cnt cur var s buf =
    (case variance_step (submit var) c of
       (var', None) \<Rightarrow> variance_loop nxt nr cnt c var' s buf
     | (var', Some v) \<Rightarrow>
         if cnt < length buf then variance_loop nxt nr (cnt + 1) c var' s (buf[cnt := v]) else Inl OutOfBounds)"
  using assms by (subst variance_loop.simps) (auto simp: var_pending_def split: if_splits)

lemma variance_loop_read:
  assumes "int cnt < nr" "var_pending var = []" "nxt s [cur] 1 = Inr (ret, c # cb, s1)" "1 \<le> ret"
  shows "variance_loop nxt nr cnt cur var s buf =
    (case variance_step var c of
       (var', None) \<Rightarrow> variance_loop nxt nr cnt c var' s1 buf
     | (var', Some v) \<Rightarrow>
         if cnt < length buf then variance_loop nxt nr (cnt + 1) c var' s1 (buf[cnt := v]) else Inl OutOfBounds)"
  using assms by (subst variance_loop.simps) (auto simp: var_pending_def split: if_splits)

lemma variance_loop_dry:
  assumes "int cnt < nr" "var_pending var = []" "nxt s [cur] 1 = Inr (ret, cb, s1)" "ret < 1"
  shows "variance_loop nxt nr cnt cur var s buf = Inr (int cnt, buf, ((var, fst s1), snd s1))"
  using assms by (subst variance_loop.simps) (auto simp: var_pending_def split: if_splits prod.splits)

lemma variance_loop_full: "\<not> int cnt < nr \<Longrightarrow> variance_loop nxt nr cnt cur var s buf = Inr (int cnt, buf, ((var, fst s), snd s))"
  by (subst variance_loop.simps) simp


text \<open>What a finished loop has done: \<open>out\<close> stands in the array from \<open>cnt\<close> on.\<close>

definition var_done ::
  "tslib_variance \<Rightarrow> var_state \<Rightarrow> ts_sample list \<Rightarrow> nat \<Rightarrow> ts_sample list \<Rightarrow> 'a \<times> world \<Rightarrow>
   fault + (int \<times> ts_sample list \<times> ((tslib_variance \<times> 'a) \<times> world)) \<Rightarrow> bool" where
  "var_done var st out cnt buf s' r \<longleftrightarrow>
     (\<exists>var'. r = Inr (int (cnt + length out), take cnt buf @ out @ drop (cnt + length out) buf, ((var', fst s'), snd s')) \<and>
        var_abs var' = st \<and> var_inv var' \<and> var_pending var' = [] \<and> va_delta var' = va_delta var)"

lemma var_done_emit:
  assumes "var_done var' st out (Suc cnt) (buf[cnt := v]) s' r" "cnt < length buf" "va_delta var' = va_delta var"
  shows "var_done var st (v # out) cnt buf s' r"
  using assms by (auto simp: var_done_def)

lemma var_done_delta: "va_delta var' = va_delta var \<Longrightarrow> var_done var' = var_done var"
  by (intro ext) (simp add: var_done_def)

lemma variance_loop_run:
  assumes "delivers nxt s ins s'" "var_inv var"
    "var_run (va_delta var) (var_abs var) (var_pending var @ ins) = (st, out)"
    "int (cnt + length out) < nr" "nr \<le> int (length buf)"
  shows "var_done var st out cnt buf s' (variance_loop nxt nr cnt cur var s buf)"
  using assms
proof (induction "3 * nat (nr - int cnt) + var_slack var" arbitrary: cnt cur var s buf ins out rule: less_induct)
  case less
  have nr: "int cnt < nr" "cnt < length buf" using less.prems(4,5) by simp_all
  have step: "var_done var st out cnt buf s'
      (case variance_step var1 c of
         (var', None) \<Rightarrow> variance_loop nxt nr cnt c var' s1 buf
       | (var', Some v) \<Rightarrow>
           if cnt < length buf then variance_loop nxt nr (cnt + 1) c var' s1 (buf[cnt := v]) else Inl OutOfBounds)"
    if v1: "var_inv var1" "var_pending var1 = []" "va_delta var1 = va_delta var" "var_slack var1 = var_slack var"
      and run: "var_run (va_delta var1) (var_abs var1) (c # cs) = (st, out)"
      and rest: "delivers nxt s1 cs s'" for var1 c cs s1
  proof -
    obtain var' o1 where vs: "variance_step var1 c = (var', o1)" by fastforce
    obtain o2 where r2: "var_run (va_delta var') (var_abs var') (var_pending var' @ cs) = (st, o2)"
      and out: "out = opt_list o1 @ o2"
      using variance_step_run(2,3) [OF v1(1,2) vs] run by (auto split: prod.splits)
    note inv' = variance_step_run(1,2) [OF v1(1,2) vs]
    have eq: "var_done var' = (var_done var :: _ \<Rightarrow> _ \<Rightarrow> _ \<Rightarrow> _ \<Rightarrow> 'a \<times> world \<Rightarrow> _)"
      by (rule var_done_delta) (simp add: inv'(2) v1(3))
    show ?thesis
    proof (cases o1)
      case None
      have "3 * nat (nr - int cnt) + var_slack var' < 3 * nat (nr - int cnt) + var_slack var"
        using variance_step_None vs None v1(4) by force
      from less.hyps [OF this rest inv'(1) r2 _ less.prems(5)] less.prems(4) out None show ?thesis
        by (simp add: vs eq)
    next
      case (Some v)
      have "3 * nat (nr - int (Suc cnt)) + var_slack var' < 3 * nat (nr - int cnt) + var_slack var"
        using var_slack_le [of var'] nr by simp
      from less.hyps [OF this rest inv'(1) r2] less.prems(4,5) out Some
      have "var_done var' st o2 (Suc cnt) (buf[cnt := v]) s' (variance_loop nxt nr (Suc cnt) c var' s1 (buf[cnt := v]))"
        by simp
      from var_done_emit [OF this nr(2)] show ?thesis
        using nr inv'(2) v1(3) out Some by (simp add: vs)
    qed
  qed
  show ?case
  proof (cases "var_pending var")
    case (Cons c cs)
    then have cs: "cs = []" by (simp add: var_pending_def split: if_splits)
    have "var_inv (submit var)" "var_pending (submit var) = []" "var_abs (submit var) = var_abs var"
      using submit_abs [OF less.prems(2)] by simp_all
    with step [of "submit var" c ins s] less.prems(1,3) Cons cs show ?thesis
      by (subst variance_loop_pending [OF nr(1) Cons]) simp
  next
    case Nil
    from less.prems(1) show ?thesis
    proof cases
      case dry
      then obtain ret cb where "nxt s [cur] 1 = Inr (ret, cb, s')" "ret < 1" by blast
      with dry less.prems Nil show ?thesis
        by (subst variance_loop_dry [OF nr(1) Nil]) (auto simp: var_done_def)
    next
      case (more v s1 vs)
      have "nxt s [cur] 1 = Inr (1, v # [], s1)" by (rule more(2))
      with step [of var v vs s1] more(1,3) less.prems(2,3) Nil show ?thesis
        by (subst variance_loop_read [OF nr(1) Nil]) auto
    qed
  qed
qed


lemma variance_read_run:
  assumes "delivers nxt (a, w) ins (a', w')" "var_inv var"
    "var_run (va_delta var) (var_abs var) (var_pending var @ ins) = (st, out)"
    "int (length out) < nr" "nr \<le> int (length samp)"
  obtains var' where
    "variance_read cur nxt ((var, a), w) samp nr =
       Inr (int (length out), out @ drop (length out) samp, ((var', a'), w'))"
    "var_abs var' = st" "var_inv var'" "var_pending var' = []" "va_delta var' = va_delta var"
  using variance_loop_run [OF assms(1-3), of 0 nr samp cur] assms(4,5)
  by (auto simp: var_done_def variance_read_def)

context ts_source
begin

lemma variance_loop_ok:
  assumes "invar s" "int cnt \<le> nr" "nr \<le> int (length buf)"
  shows "read_ok (\<lambda>((v, a), w). invar (a, w)) nr buf (variance_loop rd nr cnt cur var s buf)"
  using assms
proof (induction "3 * nat (nr - int cnt) + var_slack var" arbitrary: cnt cur var s buf rule: less_induct)
  case less
  show ?case
  proof (cases "int cnt < nr")
    case False
    with less.prems show ?thesis by (cases s) (simp add: variance_loop_full)
  next
    case nr: True
    have step: "read_ok (\<lambda>((v, a), w). invar (a, w)) nr buf
        (case variance_step var1 c of
           (var', None) \<Rightarrow> variance_loop rd nr cnt c var' s1 buf
         | (var', Some v) \<Rightarrow>
             if cnt < length buf then variance_loop rd nr (cnt + 1) c var' s1 (buf[cnt := v]) else Inl OutOfBounds)"
      if "var_slack var1 = var_slack var" "invar s1" for var1 c s1
    proof -
      obtain var' o1 where vs: "variance_step var1 c = (var', o1)" by fastforce
      show ?thesis
      proof (cases o1)
        case None
        have "var_slack var' < var_slack var" using variance_step_None vs None that(1) by force
        with less.hyps [of cnt var' s1 buf c] that(2) less.prems None show ?thesis by (simp add: vs)
      next
        case (Some v)
        have "3 * nat (nr - int (Suc cnt)) + var_slack var' < 3 * nat (nr - int cnt) + var_slack var"
          using var_slack_le [of var'] nr by simp
        from less.hyps [OF this that(2), of "buf[cnt := v]" c] less.prems nr
        show ?thesis by (simp add: vs Some read_ok_def split: sum.splits prod.splits)
      qed
    qed
    show ?thesis
    proof (cases "var_pending var")
      case (Cons c cs)
      with step [of "submit var" s] less.prems(1) show ?thesis
        by (simp add: variance_loop_pending [OF nr Cons])
    next
      case Nil
      obtain ret cb a1 w1 where r: "rd s [cur] 1 = Inr (ret, cb, (a1, w1))" "length cb = length [cur]" "invar (a1, w1)"
        by (rule rd_cases [of s 1 "[cur]"]) (use less.prems in auto)
      then obtain c where cb: "cb = [c]" by (auto simp: length_Suc_conv)
      show ?thesis
      proof (cases "ret < 1")
        case True
        with r less.prems nr variance_loop_dry [of cnt nr var rd s cur ret cb "(a1, w1)" buf, OF nr Nil]
        show ?thesis by simp
      next
        case False
        then have "1 \<le> ret" by simp
        with step [of var "(a1, w1)" c] r cb
          variance_loop_read [of cnt nr var rd s cur ret c "[]" "(a1, w1)" buf, OF nr Nil]
        show ?thesis by simp
      qed
    qed
  qed
qed

lemma variance_source: "ts_source (variance_read cur rd) (\<lambda>((v, a), w). invar (a, w))"
proof (unfold_locales, goal_cases)
  case (1 s nr buf)
  then show ?case
    using variance_loop_ok [of _ 0 nr buf] by (auto simp: variance_read_def split: prod.splits)
next
  case (2 a w st)
  then show ?case using invar_pthres by (auto split: prod.splits)
qed

end


lemma var_run_stroke:
  assumes "successively (\<lambda>l c. \<not> far delta c l) (l # ss)" "\<forall>s \<in> set ss. samp_pressure s \<noteq> 0"
  shows "var_run delta (Held l) ss = (Held (last (l # ss)), butlast (l # ss))"
  using assms by (induction ss arbitrary: l) (auto simp: successively_Cons)

lemma variance_limit_simp:
  "n < 4294967295 \<Longrightarrow> variance_limit v (Some (dec_str n)) data e =
     (if data = 1 then Inr (v\<lparr>va_delta := sint (of_nat n :: 32 word)\<rparr>, 0, e) else Inr (v, -1, e))"
  by (simp add: variance_limit_def strtoul0_dec_str of_nat_neq_ULONG_MAX)

text \<open>A module that delivers the samples of a list, for the concrete examples.\<close>

definition list_reader :: "ts_sample list reader" where
  "list_reader = (\<lambda>(vs, w) buf nr.
     case vs of [] \<Rightarrow> Inr (0, buf, ([], w)) | v # vs' \<Rightarrow> Inr (1, buf[0 := v], (vs', w)))"

lemma list_reader_delivers: "delivers list_reader (vs, w) vs ([], w)"
  by (induction vs) (auto simp: list_reader_def intro!: delivers.intros)

subsection \<open>Properties\<close>

text \<open>
  C3: \<open>variance_read\<close> implements the three-state machine \<open>var_run\<close>. For whatever samples
  the module below delivers before it runs dry, and enough room in the caller's array, the
  loop with its flag word returns exactly the machine's output and ends in the machine's
  state; a sample waiting in \<open>noise\<close> from an earlier call is treated as the first input.
\<close>

theorem variance_read_refines:
  assumes "delivers nxt (a, w) ins (a', w')" "var_inv var"
    "var_run (va_delta var) (var_abs var) (var_pending var @ ins) = (st, out)"
    "int (length out) < nr" "nr \<le> int (length samp)"
  shows "\<exists>var'. variance_read cur nxt ((var, a), w) samp nr =
       Inr (int (length out), out @ drop (length out) samp, ((var', a'), w')) \<and>
     var_abs var' = st \<and> var_inv var' \<and> var_pending var' = [] \<and> va_delta var' = va_delta var"
  by (rule variance_read_run [OF assms, of cur]) blast

theorem variance_read_refines_witness:
  "\<exists>var'. variance_read (smp 0 0 0) list_reader ((\<lparr>va_delta = 900, va_last = smp 1 1 5, va_noise = smp 2 2 5, va_flags = 11\<rparr>,
       [smp 3 3 5, smp 300 3 5]), world0) (replicate 4 (smp 0 0 0)) 3 =
     Inr (2, [smp 1 1 5, smp 2 2 5] @ drop 2 (replicate 4 (smp 0 0 0)), ((var', []), world0)) \<and>
     var_abs var' = Suspect (smp 3 3 5) (smp 300 3 5)"
proof -
  let ?v = "\<lparr>va_delta = 900, va_last = smp 1 1 5, va_noise = smp 2 2 5, va_flags = 11\<rparr>"
  have "var_run 900 (var_abs ?v) (var_pending ?v @ [smp 3 3 5, smp 300 3 5]) =
      (Suspect (smp 3 3 5) (smp 300 3 5), [smp 1 1 5, smp 2 2 5])"
    by code_simp
  moreover have "var_inv ?v" by (simp add: var_inv_def)
  ultimately show ?thesis
    using variance_read_refines [OF list_reader_delivers, of ?v "[smp 3 3 5, smp 300 3 5]"
        "Suspect (smp 3 3 5) (smp 300 3 5)" "[smp 1 1 5, smp 2 2 5]" 3 "replicate 4 (smp 0 0 0)" "smp 0 0 0" world0]
    by auto
qed

text \<open>
  A stroke without jumps is reported completely. From pen up, samples each close to the
  one before and then a release come out unchanged and in order, the release included, in
  one call and without waiting for another sample.
\<close>

theorem variance_read_stroke:
  assumes "delivers nxt (a, w) (c # ss @ [up]) (a', w')" "va_flags var = 0"
    "successively (\<lambda>l s. \<not> far (va_delta var) s l) (c # ss)"
    "\<forall>s \<in> set (c # ss). samp_pressure s \<noteq> 0" "samp_pressure up = 0"
    "int (length ss) + 2 < nr" "nr \<le> int (length samp)"
  shows "\<exists>samp' s'. variance_read cur nxt ((var, a), w) samp nr = Inr (int (length ss) + 2, samp', s') \<and>
     take (length ss + 2) samp' = c # ss @ [up]"
proof -
  have inv: "var_inv var" "var_abs var = PenUp (va_last var)" "var_pending var = []"
    using assms(2) by (simp_all add: var_inv_def var_abs_def var_pending_def)
  have "var_run (va_delta var) (Held c) ss = (Held (last (c # ss)), butlast (c # ss))"
    by (rule var_run_stroke) (use assms(3,4) in auto)
  moreover have "butlast (c # ss) @ [last (c # ss)] = c # ss" by (rule append_butlast_last_id) simp
  ultimately have run: "var_run (va_delta var) (var_abs var) (var_pending var @ c # ss @ [up]) = (PenUp up, c # ss @ [up])"
    using assms(4,5) inv by (simp add: var_run_append)
  show ?thesis
    by (rule variance_read_run [OF assms(1) inv(1) run, of nr samp cur]) (use assms(6,7) in auto)
qed

theorem variance_read_stroke_witness:
  "\<exists>samp' s'. variance_read (smp 0 0 0) list_reader ((\<lparr>va_delta = 900, va_last = smp 9 9 9, va_noise = smp 9 9 9, va_flags = 0\<rparr>,
       [smp 10 10 5, smp 20 10 5, smp 0 0 0]), world0) (replicate 5 (smp 1 1 1)) 4 = Inr (3, samp', s') \<and>
     take 3 samp' = [smp 10 10 5, smp 20 10 5, smp 0 0 0]"
proof -
  let ?v = "\<lparr>va_delta = 900, va_last = smp 9 9 9, va_noise = smp 9 9 9, va_flags = 0\<rparr>"
  have "delivers list_reader ([smp 10 10 5, smp 20 10 5, smp 0 0 0], world0)
      (smp 10 10 5 # [smp 20 10 5] @ [smp 0 0 0]) ([], world0)"
    using list_reader_delivers by simp
  from variance_read_stroke [OF this, of ?v 4 "replicate 5 (smp 1 1 1)" "smp 0 0 0"]
  show ?thesis by (simp add: far_def s32_def numeral_3_eq_3)
qed

text \<open>
  A single far-off sample between two good ones never reaches the caller: with \<open>l\<close> the
  last good sample, a \<open>spike\<close> far from it and a sample close to it, only \<open>l\<close> is reported,
  and the filter goes on from the good sample.
\<close>

theorem variance_read_drops_spike:
  assumes "delivers nxt (a, w) [spike, good] (a', w')" "va_flags var = 3"
    "samp_pressure spike \<noteq> 0" "samp_pressure good \<noteq> 0"
    "far (va_delta var) spike (va_last var)" "\<not> far (va_delta var) good (va_last var)"
    "1 < nr" "nr \<le> int (length samp)"
  shows "\<exists>var'. variance_read cur nxt ((var, a), w) samp nr =
       Inr (1, va_last var # drop 1 samp, ((var', a'), w')) \<and> var_abs var' = Held good"
proof -
  have inv: "var_inv var" "var_abs var = Held (va_last var)" "var_pending var = []"
    using assms(2) by (simp_all add: var_inv_def var_abs_def var_pending_def var_flags)
  then have run: "var_run (va_delta var) (var_abs var) (var_pending var @ [spike, good]) = (Held good, [va_last var])"
    using assms(3-6) by simp
  show ?thesis
    by (rule variance_read_run [OF assms(1) inv(1) run, of nr samp cur]) (use assms(7,8) in auto)
qed

theorem variance_read_drops_spike_witness:
  "\<exists>var'. variance_read (smp 0 0 0) list_reader ((\<lparr>va_delta = 900, va_last = smp 10 10 5, va_noise = smp 9 9 9, va_flags = 3\<rparr>,
       [smp 500 10 5, smp 12 10 5]), world0) [smp 0 0 0, smp 0 0 0] 2 =
     Inr (1, [smp 10 10 5, smp 0 0 0], ((var', []), world0)) \<and> var_abs var' = Held (smp 12 10 5)"
  using variance_read_drops_spike [OF list_reader_delivers,
      of "\<lparr>va_delta = 900, va_last = smp 10 10 5, va_noise = smp 9 9 9, va_flags = 3\<rparr>" "smp 500 10 5" "smp 12 10 5"
      2 "[smp 0 0 0, smp 0 0 0]" "smp 0 0 0" world0]
  by (simp add: far_def s32_def)

text \<open>
  On a quick movement the filter does not just pass the suspicious sample \<open>n1\<close> and the
  one after it, as the comment at the head of the file has it. With \<open>l\<close> the last good sample
  and \<open>n1\<close>, \<open>n2\<close> far from it but close to each other, \<open>l\<close> is never reported and \<open>n1\<close> is
  reported twice.
\<close>

theorem variance_read_quick_move:
  assumes "delivers nxt (a, w) [n1, n2] (a', w')" "va_flags var = 3"
    "samp_pressure n1 \<noteq> 0" "samp_pressure n2 \<noteq> 0"
    "far (va_delta var) n1 (va_last var)" "far (va_delta var) n2 (va_last var)" "\<not> far (va_delta var) n2 n1"
    "2 < nr" "nr \<le> int (length samp)"
  shows "\<exists>var'. variance_read cur nxt ((var, a), w) samp nr =
       Inr (2, n1 # n1 # drop 2 samp, ((var', a'), w')) \<and> var_abs var' = Held n2"
proof -
  have inv: "var_inv var" "var_abs var = Held (va_last var)" "var_pending var = []"
    using assms(2) by (simp_all add: var_inv_def var_abs_def var_pending_def var_flags)
  then have run: "var_run (va_delta var) (var_abs var) (var_pending var @ [n1, n2]) = (Held n2, [n1, n1])"
    using assms(3-7) by simp
  show ?thesis
    by (rule variance_read_run [OF assms(1) inv(1) run, of nr samp cur]) (use assms(8,9) in \<open>auto simp: numeral_2_eq_2\<close>)
qed

theorem variance_read_quick_move_witness:
  "\<exists>var'. variance_read (smp 0 0 0) list_reader ((\<lparr>va_delta = 900, va_last = smp 10 10 5, va_noise = smp 9 9 9, va_flags = 3\<rparr>,
       [smp 500 10 5, smp 502 10 5]), world0) (replicate 3 (smp 0 0 0)) 3 =
     Inr (2, [smp 500 10 5, smp 500 10 5, smp 0 0 0], ((var', []), world0)) \<and> var_abs var' = Held (smp 502 10 5)"
  using variance_read_quick_move [OF list_reader_delivers,
      of "\<lparr>va_delta = 900, va_last = smp 10 10 5, va_noise = smp 9 9 9, va_flags = 3\<rparr>" "smp 500 10 5" "smp 502 10 5"
      3 "replicate 3 (smp 0 0 0)" "smp 0 0 0" world0]
  by (simp add: far_def s32_def numeral_3_eq_3)

text \<open>
  A release is reported at once. When the pen is down and the module below delivers a
  release, a call that asks for two samples gets the last press and the release, and the
  module below is read only once.
\<close>

theorem variance_read_flushes_release:
  assumes "nxt (a, w) [cur] 1 = Inr (1, [up], s1)" "va_flags var \<in> {3, 7}" "samp_pressure up = 0" "2 \<le> length samp"
  shows "\<exists>var'. variance_read cur nxt ((var, a), w) samp 2 =
       Inr (2, va_last var # up # drop 2 samp, ((var', fst s1), snd s1)) \<and> var_abs var' = PenUp up"
proof -
  have p: "var_pending var = []" using assms(2) by (auto simp: var_pending_def var_flags)
  let ?v1 = "var\<lparr>va_flags := 8, va_noise := up, va_last := up\<rparr>"
  have s1: "variance_step var up = (?v1, Some (va_last var))"
    using assms(2,3) by (auto simp: variance_step_def acceptsample_def var_flags)
  have s2: "variance_step (submit ?v1) up = (var\<lparr>va_flags := 0, va_noise := up, va_last := up\<rparr>, Some up)"
    using assms(3) by (simp add: variance_step_def acceptsample_def var_flags)
  have ne: "samp \<noteq> []" using assms(4) by auto
  have p1: "var_pending ?v1 = [up]" by (simp add: var_pending_def var_flags)
  have upd: "samp[0 := va_last var, Suc 0 := up] = va_last var # up # drop 2 samp"
    using assms(4) by (cases samp; cases "tl samp") auto
  have "variance_loop nxt 2 0 cur var (a, w) samp = variance_loop nxt 2 1 up ?v1 s1 (samp[0 := va_last var])"
    using variance_loop_read [of 0 2 var nxt "(a, w)" cur 1 up "[]" s1 samp] p assms(1) ne s1 by simp
  also have "\<dots> = variance_loop nxt 2 2 up (var\<lparr>va_flags := 0, va_noise := up, va_last := up\<rparr>) s1
      (va_last var # up # drop 2 samp)"
    using variance_loop_pending [of 1 2 ?v1 up "[]" nxt up s1 "samp[0 := va_last var]"] p1 s2 assms(4) upd
    by (simp add: numeral_2_eq_2)
  finally show ?thesis by (simp add: variance_read_def variance_loop_full var_abs_def)
qed

theorem variance_read_flushes_release_witness:
  "\<exists>var'. variance_read (smp 0 0 0) list_reader ((\<lparr>va_delta = 900, va_last = smp 10 10 5, va_noise = smp 9 9 9, va_flags = 7\<rparr>,
       [smp 0 0 0, smp 7 7 7]), world0) [smp 1 1 1, smp 1 1 1] 2 =
     Inr (2, [smp 10 10 5, smp 0 0 0], ((var', [smp 7 7 7]), world0)) \<and> var_abs var' = PenUp (smp 0 0 0)"
  using variance_read_flushes_release [of list_reader "[smp 0 0 0, smp 7 7 7]" world0 "smp 0 0 0" "smp 0 0 0" "([smp 7 7 7], world0)"
      "\<lparr>va_delta = 900, va_last = smp 10 10 5, va_noise = smp 9 9 9, va_flags = 7\<rparr>" "[smp 1 1 1, smp 1 1 1]"]
  by (simp add: list_reader_def)

end
