(* ===== verification/Linear.thy ===== *)
theory Linear
  imports TsTypes TsParseVars
begin

text \<open>
  The calibration filter, src/tslib-1.1/plugins/linear.c: an affine map of the coordinates
  in 32-bit arithmetic, a rescaling to the screen resolution in unsigned arithmetic, a linear
  map of the pressure, and the reading of the calibration file.
\<close>

record tslib_linear =
  li_swap_xy :: int
  li_p_offset :: int
  li_p_mult :: int
  li_p_div :: int
  li_a :: "int list"
  li_cal_res_x :: "32 word"
  li_cal_res_y :: "32 word"

text \<open>Signed division of C: truncation towards zero.\<close>

definition c_div :: "int \<Rightarrow> int \<Rightarrow> fault + int" where
  "c_div u v = (if v = 0 then Inl DivByZero else Inr (s32 (u sdiv v)))"

text \<open>
  \<open>samp->x * info->dev->res_x / lin->cal_res_x\<close>: the unsigned operands make the whole
  expression unsigned.
\<close>

definition rescale :: "32 word \<Rightarrow> 32 word \<Rightarrow> int \<Rightarrow> int" where
  "rescale res cal v = (if res \<noteq> 0 \<and> cal \<noteq> 0 then sint ((word_of_int v * res) div cal) else v)"

definition linear_sample :: "tsdev \<Rightarrow> tslib_linear \<Rightarrow> ts_sample \<Rightarrow> fault + ts_sample" where
  "linear_sample dev lin samp =
     (let xtemp = samp_x samp; ytemp = samp_y samp; a = li_a lin in
      case c_div (s32 (s32 (a ! 2 + s32 (a ! 0 * xtemp)) + s32 (a ! 1 * ytemp))) (a ! 6) of
        Inl e \<Rightarrow> Inl e
      | Inr x1 \<Rightarrow>
          (case c_div (s32 (s32 (a ! 5 + s32 (a ! 3 * xtemp)) + s32 (a ! 4 * ytemp))) (a ! 6) of
             Inl e \<Rightarrow> Inl e
           | Inr y1 \<Rightarrow>
               (let x2 = rescale (dev_res_x dev) (li_cal_res_x lin) x1;
                    y2 = rescale (dev_res_y dev) (li_cal_res_y lin) y1
                in
                  if (word_of_int (li_p_div lin) :: 32 word) = 0 then Inl DivByZero
                  else
                    (let p = ((samp_pressure samp + word_of_int (li_p_offset lin)) * word_of_int (li_p_mult lin))
                               div word_of_int (li_p_div lin);
                         s2 = samp\<lparr>samp_x := x2, samp_y := y2, samp_pressure := p\<rparr>
                     in
                       if li_swap_xy lin \<noteq> 0 then Inr (s2\<lparr>samp_x := samp_y s2, samp_y := samp_x s2\<rparr>)
                       else Inr s2))))"

text \<open>The \<open>for\<close> loop: rounds left and position in the array.\<close>

fun linear_loop :: "tsdev \<Rightarrow> tslib_linear \<Rightarrow> nat \<Rightarrow> nat \<Rightarrow> ts_sample list \<Rightarrow> fault + ts_sample list" where
  "linear_loop dev lin 0 i buf = Inr buf"
| "linear_loop dev lin (Suc n) i buf =
     (if i < length buf then
        (case linear_sample dev lin (buf ! i) of
           Inl e \<Rightarrow> Inl e
         | Inr s \<Rightarrow> linear_loop dev lin n (i + 1) (buf[i := s]))
      else Inl OutOfBounds)"

definition linear_read :: "'a reader \<Rightarrow> (tslib_linear \<times> 'a) reader" where
  "linear_read nxt = (\<lambda>((lin, a), w) samp nr.
     case nxt (a, w) samp nr of
       Inl e \<Rightarrow> Inl e
     | Inr (ret, samp', (a', w')) \<Rightarrow>
         if 0 \<le> ret then
           (case linear_loop (w_dev w') lin (nat ret) 0 samp' of
              Inl e \<Rightarrow> Inl e
            | Inr samp'' \<Rightarrow> Inr (ret, samp'', ((lin, a'), w')))
         else Inr (ret, samp', ((lin, a'), w')))"

definition linear_xyswap :: "tslib_linear var_fn" where
  "linear_xyswap lin str data errno = Inr (lin\<lparr>li_swap_xy := 1\<rparr>, 0, errno)"

definition linear_p_offset :: "tslib_linear var_fn" where
  "linear_p_offset lin str data errno =
     (case strtoul0 str errno of
        Inl e \<Rightarrow> Inl e
      | Inr (offset, errno') \<Rightarrow>
          if offset = ULONG_MAX \<and> errno' = ERANGE then Inr (lin, -1, errno')
          else Inr (lin\<lparr>li_p_offset := sint offset\<rparr>, 0, errno'))"

definition linear_p_mult :: "tslib_linear var_fn" where
  "linear_p_mult lin str data errno =
     (case strtoul0 str errno of
        Inl e \<Rightarrow> Inl e
      | Inr (mult, errno') \<Rightarrow>
          if mult = ULONG_MAX \<and> errno' = ERANGE then Inr (lin, -1, errno')
          else Inr (lin\<lparr>li_p_mult := sint mult\<rparr>, 0, errno'))"

definition linear_p_div :: "tslib_linear var_fn" where
  "linear_p_div lin str data errno =
     (case strtoul0 str errno of
        Inl e \<Rightarrow> Inl e
      | Inr (dv, errno') \<Rightarrow>
          if dv = ULONG_MAX \<and> errno' = ERANGE then Inr (lin, -1, errno')
          else Inr (lin\<lparr>li_p_div := sint dv\<rparr>, 0, errno'))"

definition linear_vars :: "tslib_linear tslib_vars list" where
  "linear_vars =
     [\<lparr>var_name = ''xyswap'', var_data = 1, var_fun = linear_xyswap\<rparr>,
      \<lparr>var_name = ''pressure_offset'', var_data = 0, var_fun = linear_p_offset\<rparr>,
      \<lparr>var_name = ''pressure_mul'', var_data = 0, var_fun = linear_p_mult\<rparr>,
      \<lparr>var_name = ''pressure_div'', var_data = 0, var_fun = linear_p_div\<rparr>]"

text \<open>
  \<open>fscanf(f, "%d", &v)\<close> on the rest of the file: the value, if one was converted, and what
  is left of the file.
\<close>

definition scan_d :: "string \<Rightarrow> int option \<times> string" where
  "scan_d s =
     (case strip_sign (dropWhile isspace_c s) of (neg, s1) \<Rightarrow>
        if s1 = [] \<or> \<not> is_digit_of 10 (hd s1) then (None, s1)
        else (Some (fst (clamp_long (neg, digits_val 10 0 s1))), dropWhile (is_digit_of 10) s1))"

text \<open>The loop over the seven coefficients, left by \<open>break\<close> when a conversion fails.\<close>

fun read_coeffs :: "nat \<Rightarrow> nat \<Rightarrow> int list \<Rightarrow> string \<Rightarrow> int list \<times> string" where
  "read_coeffs 0 i a s = (a, s)"
| "read_coeffs (Suc n) i a s =
     (case scan_d s of
        (None, r) \<Rightarrow> (a, r)
      | (Some v, r) \<Rightarrow> read_coeffs n (i + 1) (a[i := v]) r)"

text \<open>\<open>fscanf(pcal_fd, "%d %d", &lin->cal_res_x, &lin->cal_res_y)\<close>.\<close>

definition read_cal_res :: "tslib_linear \<Rightarrow> string \<Rightarrow> tslib_linear" where
  "read_cal_res lin s =
     (case scan_d s of
        (None, _) \<Rightarrow> lin
      | (Some u, r) \<Rightarrow>
          (let l1 = lin\<lparr>li_cal_res_x := word_of_int u\<rparr> in
           case scan_d r of
             (None, _) \<Rightarrow> l1
           | (Some v, _) \<Rightarrow> l1\<lparr>li_cal_res_y := word_of_int v\<rparr>))"

text \<open>
  \<open>malloc_result\<close> is the block \<open>malloc\<close> returns, \<open>calibfile\<close> the environment variable
  TSLIB_CALIBFILE, \<open>fs\<close> the file system: \<open>None\<close> when \<open>stat\<close> fails, \<open>Some None\<close> when the
  file exists and \<open>fopen\<close> fails.
\<close>

definition TS_POINTERCAL :: string where "TS_POINTERCAL = ''/etc/pointercal''"

definition linear_mod_init ::
  "tslib_linear option \<Rightarrow> string option \<Rightarrow> (string \<Rightarrow> string option option) \<Rightarrow> string option \<Rightarrow> int \<Rightarrow>
   fault + (tslib_linear option \<times> int)" where
  "linear_mod_init malloc_result calibfile fs params errno =
     (case malloc_result of
        None \<Rightarrow> Inr (None, errno)
      | Some junk \<Rightarrow>
          (let l0 = junk\<lparr>li_a := [1, 0, 0, 0, 1, 0, 1], li_p_offset := 0, li_p_mult := 1,
                         li_p_div := 1, li_swap_xy := 0\<rparr>;
               file = (case calibfile of None \<Rightarrow> TS_POINTERCAL | Some f \<Rightarrow> f);
               l1 = (case fs file of
                       None \<Rightarrow> Inr l0
                     | Some None \<Rightarrow> Inl NullDeref
                     | Some (Some txt) \<Rightarrow>
                         (case read_coeffs 7 0 (li_a l0) txt of
                            (a, r) \<Rightarrow> Inr (read_cal_res (l0\<lparr>li_a := a\<rparr>) r)))
           in
             case l1 of
               Inl e \<Rightarrow> Inl e
             | Inr lin \<Rightarrow>
                 (case tslib_parse_vars linear_vars params lin errno of
                    Inl e \<Rightarrow> Inl e
                  | Inr (lin', ret, errno') \<Rightarrow> Inr (if ret \<noteq> 0 then None else Some lin', errno'))))"

subsection \<open>The map in exact arithmetic\<close>

definition affine :: "int list \<Rightarrow> int \<Rightarrow> int \<Rightarrow> int \<times> int" where
  "affine a u v = ((a ! 2 + a ! 0 * u + a ! 1 * v) sdiv (a ! 6), (a ! 5 + a ! 3 * u + a ! 4 * v) sdiv (a ! 6))"

text \<open>The screen coordinate for a calibrated one, by a scale factor \<open>res / cal\<close>.\<close>

definition to_screen :: "32 word \<Rightarrow> 32 word \<Rightarrow> int \<Rightarrow> int" where
  "to_screen res cal v = (if res \<noteq> 0 \<and> cal \<noteq> 0 then v * uint res div uint cal else v)"

text \<open>The coordinate and its multiple by the resolution fit a non-negative \<open>int\<close>.\<close>

definition fits :: "32 word \<Rightarrow> int \<Rightarrow> bool" where
  "fits res v \<longleftrightarrow> 0 \<le> v \<and> v < 2 ^ 31 \<and> v * uint res < 2 ^ 31"

definition linear_wf :: "tslib_linear \<Rightarrow> bool" where
  "linear_wf lin \<longleftrightarrow> li_a lin ! 6 \<noteq> 0 \<and> (word_of_int (li_p_div lin) :: 32 word) \<noteq> 0"

lemma rescale_to_screen:
  assumes "fits res v"
  shows "rescale res cal v = to_screen res cal v"
proof (cases "res \<noteq> 0 \<and> cal \<noteq> 0")
  case True
  have v: "uint (word_of_int v :: 32 word) = v"
    using assms by (simp add: fits_def unsigned_of_int take_bit_int_eq_self)
  have "0 \<le> v * uint res" using assms by (simp add: fits_def)
  moreover have b: "v * uint res < 2 ^ 31" using assms by (simp add: fits_def)
  moreover have "uint (word_of_int v :: 32 word) * uint res < 2 ^ LENGTH(32)" using b v by simp
  ultimately have "uint (word_of_int v * res) = v * uint res"
    using uint_mult_lem [of "word_of_int v :: 32 word" res] v by simp
  then have u: "uint ((word_of_int v * res) div cal) = v * uint res div uint cal"
    by (simp add: uint_div_distrib)
  have "0 < uint cal" using True uint_ge_0 [of cal] by (metis order_le_less uint_0_iff)
  then have "1 \<le> uint cal" by simp
  from zdiv_mono2 [OF \<open>0 \<le> v * uint res\<close> zero_less_one this]
  have "v * uint res div uint cal \<le> v * uint res" by simp
  moreover have "0 \<le> v * uint res div uint cal"
    using \<open>0 \<le> v * uint res\<close> \<open>0 < uint cal\<close> by (simp add: pos_imp_zdiv_nonneg_iff)
  ultimately have "s32 (uint ((word_of_int v * res) div cal)) = v * uint res div uint cal"
    unfolding u using b by (intro s32_id) (simp add: in_s32_def)
  then have "sint ((word_of_int v * res) div cal) = v * uint res div uint cal"
    by (simp add: s32_eq_sint)
  with True show ?thesis by (simp add: rescale_def to_screen_def)
qed (auto simp: rescale_def to_screen_def)


text \<open>The calibrated sample in exact arithmetic, and when the code computes it.\<close>

definition calibrated :: "tsdev \<Rightarrow> tslib_linear \<Rightarrow> ts_sample \<Rightarrow> ts_sample" where
  "calibrated dev lin s =
     (case affine (li_a lin) (samp_x s) (samp_y s) of (u, v) \<Rightarrow>
        let sx = to_screen (dev_res_x dev) (li_cal_res_x lin) u;
            sy = to_screen (dev_res_y dev) (li_cal_res_y lin) v
        in s\<lparr>samp_x := (if li_swap_xy lin \<noteq> 0 then sy else sx),
             samp_y := (if li_swap_xy lin \<noteq> 0 then sx else sy),
             samp_pressure := (samp_pressure s + word_of_int (li_p_offset lin)) * word_of_int (li_p_mult lin)
                                div word_of_int (li_p_div lin)\<rparr>)"

definition in_range :: "tsdev \<Rightarrow> tslib_linear \<Rightarrow> ts_sample \<Rightarrow> bool" where
  "in_range dev lin s \<longleftrightarrow>
     (let a = li_a lin; u = samp_x s; v = samp_y s in
      in_s32 (a ! 2 + a ! 0 * u + a ! 1 * v) \<and> in_s32 (a ! 5 + a ! 3 * u + a ! 4 * v) \<and>
      fits (dev_res_x dev) (fst (affine a u v)) \<and> fits (dev_res_y dev) (snd (affine a u v)))"

lemma linear_sample_exact:
  assumes "linear_wf lin" "in_range dev lin s"
  shows "linear_sample dev lin s = Inr (calibrated dev lin s)"
proof -
  let ?a = "li_a lin"
  let ?u = "?a ! 2 + ?a ! 0 * samp_x s + ?a ! 1 * samp_y s" and ?v = "?a ! 5 + ?a ! 3 * samp_x s + ?a ! 4 * samp_y s"
  have f: "fits (dev_res_x dev) (?u sdiv ?a ! 6)" "fits (dev_res_y dev) (?v sdiv ?a ! 6)"
    and s: "s32 ?u = ?u" "s32 ?v = ?v"
    using assms(2) by (simp_all add: in_range_def Let_def affine_def s32_id)
  have "s32 (?u sdiv ?a ! 6) = ?u sdiv ?a ! 6" "s32 (?v sdiv ?a ! 6) = ?v sdiv ?a ! 6"
    using f by (auto intro!: s32_id simp: fits_def in_s32_def)
  with f s assms(1) show ?thesis
    by (simp add: linear_sample_def c_div_def linear_wf_def calibrated_def affine_def Let_def rescale_to_screen)
qed

lemma linear_sample_total: "linear_wf lin \<Longrightarrow> linear_sample dev lin s = Inr (projr (linear_sample dev lin s))"
  by (simp add: linear_sample_def c_div_def linear_wf_def Let_def)

lemma linear_loop_map:
  assumes "k + n \<le> length buf" "\<forall>s \<in> set (take n (drop k buf)). linear_sample dev lin s = Inr (f s)"
  shows "linear_loop dev lin n k buf = Inr (take k buf @ map f (take n (drop k buf)) @ drop (k + n) buf)"
  using assms
proof (induction n arbitrary: k buf)
  case 0
  then show ?case by simp
next
  case (Suc n)
  have split: "take (Suc n) (drop k buf) = buf ! k # take n (drop (Suc k) buf)"
    using Suc.prems(1) by (simp add: Cons_nth_drop_Suc [symmetric])
  then have "linear_sample dev lin (buf ! k) = Inr (f (buf ! k))"
    "\<forall>s \<in> set (take n (drop (Suc k) buf)). linear_sample dev lin s = Inr (f s)"
    using Suc.prems(2) by simp_all
  with Suc.IH [of "Suc k" "buf[k := f (buf ! k)]"] Suc.prems(1) show ?case
    by (simp add: split)
qed

lemma linear_read_map:
  assumes "nxt (a, w) samp nr = Inr (ret, samp', (a', w'))" "0 \<le> ret" "ret \<le> int (length samp')"
    "\<forall>s \<in> set (take (nat ret) samp'). linear_sample (w_dev w') lin s = Inr (f s)"
  shows "linear_read nxt ((lin, a), w) samp nr =
    Inr (ret, map f (take (nat ret) samp') @ drop (nat ret) samp', ((lin, a'), w'))"
proof -
  have "linear_loop (w_dev w') lin (nat ret) 0 samp' = Inr (map f (take (nat ret) samp') @ drop (nat ret) samp')"
    using linear_loop_map [of 0 "nat ret" samp' "w_dev w'" lin f] assms(3,4) by simp
  with assms(1,2) show ?thesis by (simp add: linear_read_def)
qed

context ts_source
begin

lemma linear_source: "ts_source (linear_read rd) (\<lambda>((lin, a), w). linear_wf lin \<and> invar (a, w))"
proof (unfold_locales, goal_cases)
  case (1 s nr buf)
  obtain lin a w where s: "s = ((lin, a), w)" by (cases s) auto
  with 1 have i: "invar (a, w)" "linear_wf lin" by simp_all
  obtain ret buf' a' w' where rd: "rd (a, w) buf nr = Inr (ret, buf', (a', w'))" "ret \<le> nr"
    "length buf' = length buf" "drop (nat nr) buf' = drop (nat nr) buf" "invar (a', w')"
    by (rule rd_cases [OF i(1) 1(2,3)])
  show ?case
  proof (cases "0 \<le> ret")
    case False
    with rd i s show ?thesis by (simp add: linear_read_def)
  next
    case True
    let ?out = "map (\<lambda>s. projr (linear_sample (w_dev w') lin s)) (take (nat ret) buf')"
    have le: "ret \<le> int (length buf')" using rd(2,3) 1(3) by simp
    have r: "linear_read rd ((lin, a), w) buf nr = Inr (ret, ?out @ drop (nat ret) buf', ((lin, a'), w'))"
      by (rule linear_read_map [of rd a w buf nr ret buf' a' w' lin, OF rd(1) True le])
        (use linear_sample_total [OF i(2)] in blast)
    have "drop (nat nr) (?out @ drop (nat ret) buf') = drop (nat nr) buf'"
      by (rule drop_eq_mono [of "nat ret"]) (use rd(2) le in auto)
    with r rd i le show ?thesis by (simp add: s)
  qed
next
  case (2 a w st)
  then show ?case using invar_pthres by (auto split: prod.splits)
qed

end

subsection \<open>The calibration file\<close>

definition int_str :: "int \<Rightarrow> string" where
  "int_str v = (if v < 0 then CHR ''-'' # dec_str (nat (- v)) else dec_str (nat v))"

text \<open>The line \<open>ts_calibrate\<close> writes: seven coefficients and the resolution.\<close>

fun pointercal :: "int list \<Rightarrow> string" where
  "pointercal [] = []"
| "pointercal [v] = int_str v"
| "pointercal (v # vs) = int_str v @ CHR '' '' # pointercal vs"

lemma is_digit_space [simp]: "\<not> is_digit_of 10 (CHR '' '')"
  by (simp add: is_digit_of_def digit_val_def)

lemma isspace_minus [simp]: "\<not> isspace_c (CHR ''-'')" "isspace_c (CHR '' '')"
  by (simp_all add: isspace_c_def)

lemma digits_val_stop: "\<forall>c\<in>set s. is_digit_of base c \<Longrightarrow> t = [] \<or> \<not> is_digit_of base (hd t) \<Longrightarrow>
    digits_val base acc (s @ t) = digits_val base acc s"
  by (cases t) (auto simp: digits_val_append)

lemma scan_d_int_str:
  assumes "in_s32 v" "t = [] \<or> \<not> is_digit_of 10 (hd t)"
  shows "scan_d (int_str v @ t) = (Some v, t)"
proof -
  have digits: "(case strip_sign (dropWhile isspace_c (dec_str n @ t)) of (neg, s1) \<Rightarrow> (neg, s1)) = (False, dec_str n @ t)" for n
  proof -
    obtain c cs where "dec_str n = c # cs" by (cases "dec_str n") auto
    then show ?thesis using dec_str_plain(1-3) [of c n] by simp
  qed
  have hd: "is_digit_of 10 (hd (dec_str n @ t))" for n
    using dec_str_digits [of n] by (cases "dec_str n") auto
  have val: "digits_val 10 0 (dec_str n @ t) = n" for n
    using digits_val_stop [OF dec_str_digits assms(2)] digits_val_dec_str by simp
  have rest: "dropWhile (is_digit_of 10) (dec_str n @ t) = t" for n
    using dec_str_digits [of n] assms(2) by (cases t) (auto simp: dropWhile_append2)
  show ?thesis
    using digits hd val rest assms(1)
    by (auto simp: scan_d_def int_str_def clamp_long_def in_s32_def Let_def split: prod.splits)
qed


lemma scan_d_space: "scan_d (CHR '' '' # s) = scan_d s"
  by (simp add: scan_d_def)

lemma scan_d_pointercal:
  assumes "in_s32 v"
  shows "scan_d (pointercal (v # vs)) = (Some v, if vs = [] then [] else CHR '' '' # pointercal vs)"
  using scan_d_int_str [OF assms, of "[]"] scan_d_int_str [OF assms, of "CHR '' '' # pointercal vs"]
  by (cases vs) simp_all

text \<open>A line of nine numbers is read back as the seven coefficients and the resolution.\<close>

lemma read_pointercal:
  assumes "\<forall>v \<in> set [a0, a1, a2, a3, a4, a5, a6, rx, ry]. in_s32 v" "length b = 7"
  shows "\<exists>r. read_coeffs 7 0 b (pointercal [a0, a1, a2, a3, a4, a5, a6, rx, ry]) = ([a0, a1, a2, a3, a4, a5, a6], r) \<and>
    read_cal_res lin r = lin\<lparr>li_cal_res_x := word_of_int rx, li_cal_res_y := word_of_int ry\<rparr>"
proof -
  have seven: "read_coeffs 7 = read_coeffs (Suc (Suc (Suc (Suc (Suc (Suc (Suc 0)))))))" by (simp add: numeral_eq_Suc)
  obtain b0 b1 b2 b3 b4 b5 b6 where b: "b = [b0, b1, b2, b3, b4, b5, b6]"
    using assms(2) by (auto simp: length_Suc_conv numeral_eq_Suc)
  show ?thesis
    using assms(1)
    by (simp add: seven b scan_d_pointercal scan_d_space read_cal_res_def del: pointercal.simps)
qed

lemma linear_mod_init_pointercal:
  assumes "\<forall>v \<in> set [a0, a1, a2, a3, a4, a5, a6, rx, ry]. in_s32 v"
    "fs (case calibfile of None \<Rightarrow> TS_POINTERCAL | Some f \<Rightarrow> f) =
       Some (Some (pointercal [a0, a1, a2, a3, a4, a5, a6, rx, ry]))"
  shows "linear_mod_init (Some junk) calibfile fs None errno =
    Inr (Some \<lparr>li_swap_xy = 0, li_p_offset = 0, li_p_mult = 1, li_p_div = 1,
      li_a = [a0, a1, a2, a3, a4, a5, a6], li_cal_res_x = word_of_int rx, li_cal_res_y = word_of_int ry\<rparr>, errno)"
proof -
  let ?l = "junk\<lparr>li_a := [1, 0, 0, 0, 1, 0, 1], li_p_offset := 0, li_p_mult := 1, li_p_div := 1, li_swap_xy := 0\<rparr>"
  obtain r where
    "read_coeffs 7 0 [1, 0, 0, 0, 1, 0, 1] (pointercal [a0, a1, a2, a3, a4, a5, a6, rx, ry]) = ([a0, a1, a2, a3, a4, a5, a6], r)"
    "read_cal_res (?l\<lparr>li_a := [a0, a1, a2, a3, a4, a5, a6]\<rparr>) r =
       ?l\<lparr>li_a := [a0, a1, a2, a3, a4, a5, a6], li_cal_res_x := word_of_int rx, li_cal_res_y := word_of_int ry\<rparr>"
    using read_pointercal [OF assms(1), of "[1, 0, 0, 0, 1, 0, 1]" "?l\<lparr>li_a := [a0, a1, a2, a3, a4, a5, a6]\<rparr>"] by auto
  with assms(2) show ?thesis
    by (simp add: linear_mod_init_def Let_def tslib_parse_vars_def del: pointercal.simps read_coeffs.simps)
qed

lemma linear_sample_div0: "li_a lin ! 6 = 0 \<Longrightarrow> linear_sample dev lin s = Inl DivByZero"
  by (simp add: linear_sample_def c_div_def Let_def)

subsection \<open>Properties\<close>

text \<open>
  C4: inside the range of the arithmetic, calibration is the affine map of the file, scaled
  to the screen: every sample read is replaced by the one computed in exact arithmetic (the
  sums fit 32 bits, the coordinates and their multiples by the resolution are non-negative
  and fit as well), with the axes exchanged after scaling when \<open>xyswap\<close> is set.
\<close>

theorem linear_read_calibrates:
  assumes "nxt (a, w) samp nr = Inr (ret, samp', (a', w'))" "0 \<le> ret" "ret \<le> int (length samp')"
    "linear_wf lin" "\<forall>s \<in> set (take (nat ret) samp'). in_range (w_dev w') lin s"
  shows "linear_read nxt ((lin, a), w) samp nr =
    Inr (ret, map (calibrated (w_dev w') lin) (take (nat ret) samp') @ drop (nat ret) samp', ((lin, a'), w'))"
  by (rule linear_read_map [of nxt a w samp nr ret samp' a' w' lin, OF assms(1-3)])
    (use linear_sample_exact [OF assms(4)] assms(5) in blast)

theorem linear_read_calibrates_witness:
  "linear_read (\<lambda>s b n. Inr (1, [smp 2000 1000 7, smp 0 0 0], s))
     ((\<lparr>li_swap_xy = 1, li_p_offset = 1, li_p_mult = 2, li_p_div = 4, li_a = [100, 10, 500, 20, 200, 600, 1000],
        li_cal_res_x = 320, li_cal_res_y = 240\<rparr>, ()), world0\<lparr>w_dev := \<lparr>dev_fd = 3, dev_res_x = 640, dev_res_y = 480, dev_rotation = 0\<rparr>\<rparr>)
     [smp 0 0 0, smp 0 0 0] 2 =
   Inr (1, [smp 480 420 4, smp 0 0 0],
     ((\<lparr>li_swap_xy = 1, li_p_offset = 1, li_p_mult = 2, li_p_div = 4, li_a = [100, 10, 500, 20, 200, 600, 1000],
        li_cal_res_x = 320, li_cal_res_y = 240\<rparr>, ()), world0\<lparr>w_dev := \<lparr>dev_fd = 3, dev_res_x = 640, dev_res_y = 480, dev_rotation = 0\<rparr>\<rparr>))"
proof -
  let ?lin = "\<lparr>li_swap_xy = 1, li_p_offset = 1, li_p_mult = 2, li_p_div = 4, li_a = [100, 10, 500, 20, 200, 600, 1000],
        li_cal_res_x = 320, li_cal_res_y = 240\<rparr>"
  let ?w = "world0\<lparr>w_dev := \<lparr>dev_fd = 3, dev_res_x = 640, dev_res_y = 480, dev_rotation = 0\<rparr>\<rparr>"
  have "linear_wf ?lin" by (simp add: linear_wf_def)
  moreover have "in_range (w_dev ?w) ?lin (smp 2000 1000 7)" by code_simp
  moreover have "calibrated (w_dev ?w) ?lin (smp 2000 1000 7) = smp 480 420 4" by code_simp
  ultimately show ?thesis
    using linear_read_calibrates [of "\<lambda>s b n. Inr (1, [smp 2000 1000 7, smp 0 0 0], s)" "()" ?w
        "[smp 0 0 0, smp 0 0 0]" 2 1 "[smp 2000 1000 7, smp 0 0 0]" "()" ?w ?lin]
    by simp
qed

text \<open>
  A calibration file whose seventh number is 0 stops the program: as soon as the module
  below delivers a sample, \<open>linear_read\<close> divides by zero.
\<close>

theorem linear_read_div_by_zero:
  assumes "nxt (a, w) samp nr = Inr (ret, samp', (a', w'))" "0 < ret" "ret \<le> int (length samp')" "li_a lin ! 6 = 0"
  shows "linear_read nxt ((lin, a), w) samp nr = Inl DivByZero"
proof -
  obtain n where "nat ret = Suc n" using assms(2) by (metis gr0_conv_Suc zero_less_nat_eq)
  moreover have "samp' \<noteq> []" using assms(2,3) by auto
  ultimately have "linear_loop (w_dev w') lin (nat ret) 0 samp' = Inl DivByZero"
    using assms(4) by (simp add: linear_sample_div0)
  with assms(1,2) show ?thesis by (simp add: linear_read_def)
qed

theorem linear_read_div_by_zero_witness:
  "linear_read (\<lambda>s b n. Inr (1, [smp 5 5 5], s))
     ((\<lparr>li_swap_xy = 0, li_p_offset = 0, li_p_mult = 1, li_p_div = 1, li_a = [1, 0, 0, 0, 1, 0, 0],
        li_cal_res_x = 0, li_cal_res_y = 0\<rparr>, ()), world0) [smp 0 0 0] 1 = Inl DivByZero"
  using linear_read_div_by_zero [of "\<lambda>s b n. Inr (1, [smp 5 5 5], s)" "()" world0 "[smp 0 0 0]" 1 1 "[smp 5 5 5]" "()" world0
      "\<lparr>li_swap_xy = 0, li_p_offset = 0, li_p_mult = 1, li_p_div = 1, li_a = [1, 0, 0, 0, 1, 0, 0],
        li_cal_res_x = 0, li_cal_res_y = 0\<rparr>"]
  by simp

text \<open>
  The rescaling is wrong left of and above the origin. With equal resolutions, where it
  should do nothing, the coordinate -1 becomes \<open>4294967295 * 240 mod 2 ^ 32 div 240\<close>,
  because the product and the quotient are unsigned.
\<close>

theorem linear_sample_negative_rescale:
  "linear_sample \<lparr>dev_fd = 3, dev_res_x = 240, dev_res_y = 320, dev_rotation = 0\<rparr>
     \<lparr>li_swap_xy = 0, li_p_offset = 0, li_p_mult = 1, li_p_div = 1, li_a = [1, 0, 0, 0, 1, 0, 1],
      li_cal_res_x = 240, li_cal_res_y = 320\<rparr> (smp (-1) 5 9) = Inr (smp 17895696 5 9)"
  by code_simp

end
