(* ===== verification/LinearH2200.thy ===== *)
theory LinearH2200
  imports TsTypes
begin

text \<open>
  The calibration filter of the iPAQ h22xx, src/tslib-1.1/plugins/linear-h2200.c: a quadratic
  polynomial in 12.20 fixed point. \<open>long\<close> has 32 bits and \<open>long long\<close> 64, so the products of
  the macros \<open>M20\<close> and \<open>M32\<close> are exact and their shifted value is cut to 32 bits.
\<close>

definition M20 :: "int \<Rightarrow> int \<Rightarrow> int" where
  "M20 u v = s32 (drop_bit 20 (u * v))"

definition M32 :: "int \<Rightarrow> int \<Rightarrow> int" where
  "M32 u v = s32 (drop_bit 32 (u * v))"

definition h2200_sample :: "ts_sample \<Rightarrow> ts_sample" where
  "h2200_sample samp =
     (let u = s32 (push_bit 20 (samp_x samp)); v = s32 (push_bit 20 (samp_y samp));
          new_x = s32 (14708834 + M20 1009971 u + M20 (- 18416) v + M20 (M32 129310 u) v +
                    M20 (M32 76687 u) u + M20 (M32 5340 v) v);
          new_y = s32 (- 10920238 + M20 129836 u + M20 951939 v + M20 (M32 (- 947740) u) v +
                    M20 (M32 22599 u) u + M20 (M32 735087 v) v)
      in samp\<lparr>samp_x := drop_bit 20 new_x, samp_y := drop_bit 20 new_y\<rparr>)"

fun h2200_loop :: "nat \<Rightarrow> nat \<Rightarrow> ts_sample list \<Rightarrow> fault + ts_sample list" where
  "h2200_loop 0 i buf = Inr buf"
| "h2200_loop (Suc n) i buf =
     (if i < length buf then h2200_loop n (i + 1) (buf[i := h2200_sample (buf ! i)]) else Inl OutOfBounds)"

definition linear_h2200_read :: "'a reader \<Rightarrow> 'a reader" where
  "linear_h2200_read nxt = (\<lambda>s samp nr.
     case nxt s samp nr of
       Inl e \<Rightarrow> Inl e
     | Inr (ret, samp', s') \<Rightarrow>
         if 0 \<le> ret then
           (case h2200_loop (nat ret) 0 samp' of
              Inl e \<Rightarrow> Inl e
            | Inr samp'' \<Rightarrow> Inr (ret, samp'', s'))
         else Inr (ret, samp', s'))"

text \<open>The module has no state of its own: \<open>Some ()\<close> is the block, \<open>None\<close> is NULL.\<close>

definition linear_h2200_mod_init :: "bool \<Rightarrow> unit option" where
  "linear_h2200_mod_init malloc_ok = (if malloc_ok then Some () else None)"

subsection \<open>The polynomial\<close>

text \<open>
  The values of the two polynomials, scaled by \<open>2 ^ 32\<close>: the constants of the linear part
  carry a factor \<open>2 ^ 20\<close>, those of the quadratic part a factor \<open>2 ^ 32\<close>.
\<close>

definition poly_u :: "int \<Rightarrow> int \<Rightarrow> int" where
  "poly_u u v = 4096 * (14708834 + 1009971 * u - 18416 * v) + 129310 * (u * v) + 76687 * (u * u) + 5340 * (v * v)"

definition poly_v :: "int \<Rightarrow> int \<Rightarrow> int" where
  "poly_v u v = 4096 * (- 10920238 + 129836 * u + 951939 * v) - 947740 * (u * v) + 22599 * (u * u) + 735087 * (v * v)"

text \<open>The coordinates a 10-bit converter delivers.\<close>

definition adc10 :: "int \<Rightarrow> bool" where
  "adc10 u \<longleftrightarrow> 0 \<le> u \<and> u \<le> 1023"

lemma push_bit_adc10: "adc10 u \<Longrightarrow> s32 (push_bit 20 u) = u * 1048576"
  by (simp add: adc10_def push_bit_eq_mult s32_id in_s32_def)

lemma M20_shifted: "M20 c (u * 1048576) = s32 (c * u)"
proof -
  have "c * (u * 1048576) div 1048576 = c * u" by simp
  then show ?thesis by (simp add: M20_def drop_bit_eq_div)
qed

lemma M32_shifted: "M32 c (u * 1048576) = s32 (c * u div 4096)"
proof -
  have "c * (u * 1048576) div 4294967296 = (c * u * 1048576) div (4096 * 1048576)" by (simp add: algebra_simps)
  also have "\<dots> = c * u div 4096" by (rule div_mult_mult2) simp
  finally show ?thesis by (simp add: M32_def drop_bit_eq_div)
qed

lemma floor_term:
  fixes c u v :: int
  assumes "0 \<le> v"
  shows "c * (u * v) - 4095 * v \<le> 4096 * (c * u div 4096 * v)" "4096 * (c * u div 4096 * v) \<le> c * (u * v)"
proof -
  have *: "c * u div 4096 * 4096 = c * u - c * u mod 4096" by (simp add: minus_mod_eq_div_mult)
  have "4096 * (c * u div 4096 * v) = (c * u div 4096 * 4096) * v" by simp
  also have "\<dots> = c * u * v - (c * u mod 4096) * v" by (simp only: *) (simp add: algebra_simps)
  finally have e: "4096 * (c * u div 4096 * v) = c * u * v - (c * u mod 4096) * v" .
  have "0 \<le> (c * u mod 4096) * v" "(c * u mod 4096) * v \<le> 4095 * v"
    using assms by (auto intro!: mult_right_mono simp: zmod_le_nonneg_dividend)
  with e show "c * (u * v) - 4095 * v \<le> 4096 * (c * u div 4096 * v)" "4096 * (c * u div 4096 * v) \<le> c * (u * v)"
    by (simp_all add: mult.assoc)
qed


text \<open>The sum the code computes before the last shift.\<close>

definition sum_u :: "int \<Rightarrow> int \<Rightarrow> int" where
  "sum_u u v = 14708834 + 1009971 * u - 18416 * v + 129310 * u div 4096 * v +
     76687 * u div 4096 * u + 5340 * v div 4096 * v"

definition sum_v :: "int \<Rightarrow> int \<Rightarrow> int" where
  "sum_v u v = - 10920238 + 129836 * u + 951939 * v + (- 947740) * u div 4096 * v +
     22599 * u div 4096 * u + 735087 * v div 4096 * v"

lemma h2200_sample_sums:
  assumes "adc10 (samp_x s)" "adc10 (samp_y s)"
  shows "h2200_sample s = s\<lparr>samp_x := s32 (sum_u (samp_x s) (samp_y s)) div 1048576,
     samp_y := s32 (sum_v (samp_x s) (samp_y s)) div 1048576\<rparr>"
proof -
  have uv: "s32 (push_bit 20 (samp_x s)) = samp_x s * 1048576" "s32 (push_bit 20 (samp_y s)) = samp_y s * 1048576"
    using assms by (simp_all only: push_bit_adc10)
  show ?thesis
    unfolding h2200_sample_def Let_def uv M20_shifted M32_shifted s32_mult_absorb s32_sum6
    by (simp add: sum_u_def sum_v_def drop_bit_eq_div)
qed

lemma adc10_mult:
  assumes "adc10 u" "adc10 v"
  shows "0 \<le> u * v" "u * v \<le> 1046529"
proof -
  show "0 \<le> u * v" using assms by (simp add: adc10_def)
  have "u * v \<le> 1023 * 1023" using assms by (intro mult_mono) (auto simp: adc10_def)
  then show "u * v \<le> 1046529" by simp
qed

lemma three_floors:
  fixes p q r k u v :: int
  assumes "p - 4095 * v \<le> 4096 * a" "4096 * a \<le> p" "q - 4095 * u \<le> 4096 * b" "4096 * b \<le> q"
    "r - 4095 * v \<le> 4096 * c" "4096 * c \<le> r" "u \<le> 1023" "v \<le> 1023"
  shows "4096 * (k + a + b + c) \<le> 4096 * k + p + q + r"
    "4096 * k + p + q + r \<le> 4096 * (k + a + b + c) + 4294967295"
  using assms by simp_all

lemma sums_poly:
  assumes "adc10 u" "adc10 v"
  shows "4096 * sum_u u v \<le> poly_u u v" "poly_u u v \<le> 4096 * sum_u u v + 4294967295"
    "4096 * sum_v u v \<le> poly_v u v" "poly_v u v \<le> 4096 * sum_v u v + 4294967295"
proof -
  have uv: "0 \<le> u" "u \<le> 1023" "0 \<le> v" "v \<le> 1023" using assms by (simp_all add: adc10_def)
  note f = three_floors [OF floor_term [OF uv(3), of 129310 u] floor_term [OF uv(1), of 76687 u]
      floor_term [OF uv(3), of 5340 v] uv(2,4), of "14708834 + 1009971 * u - 18416 * v"]
    and g = three_floors [OF floor_term [OF uv(3), of "- 947740" u] floor_term [OF uv(1), of 22599 u]
      floor_term [OF uv(3), of 735087 v] uv(2,4), of "- 10920238 + 129836 * u + 951939 * v"]
  show "4096 * sum_u u v \<le> poly_u u v" "poly_u u v \<le> 4096 * sum_u u v + 4294967295"
    unfolding sum_u_def poly_u_def using f by simp_all
  show "4096 * sum_v u v \<le> poly_v u v" "poly_v u v \<le> 4096 * sum_v u v + 4294967295"
    unfolding sum_v_def poly_v_def using g by simp_all
qed

lemma poly_range:
  assumes "adc10 u" "adc10 v"
  shows "- 4398046511104 \<le> poly_u u v - 4294967295" "poly_u u v \<le> 8796093022207"
    "- 4398046511104 \<le> poly_v u v - 4294967295" "poly_v u v \<le> 8796093022207"
proof -
  have *: "- 4398046511104 \<le> 4096 * (14708834 + 1009971 * u - 18416 * v) + 129310 * p + 76687 * q + 5340 * r - 4294967295 \<and>
      4096 * (14708834 + 1009971 * u - 18416 * v) + 129310 * p + 76687 * q + 5340 * r \<le> 8796093022207 \<and>
      - 4398046511104 \<le> 4096 * (- 10920238 + 129836 * u + 951939 * v) - 947740 * p + 22599 * q + 735087 * r - 4294967295 \<and>
      4096 * (- 10920238 + 129836 * u + 951939 * v) - 947740 * p + 22599 * q + 735087 * r \<le> 8796093022207"
    if "0 \<le> p" "p \<le> 1046529" "0 \<le> q" "q \<le> 1046529" "0 \<le> r" "r \<le> 1046529"
      "0 \<le> u" "u \<le> 1023" "0 \<le> v" "v \<le> 1023" for p q r u v :: int
    using that by (intro conjI) simp_all
  have uv: "0 \<le> u" "u \<le> 1023" "0 \<le> v" "v \<le> 1023" using assms by (simp_all add: adc10_def)
  from * [OF adc10_mult [OF assms] adc10_mult [OF assms(1,1)] adc10_mult [OF assms(2,2)] uv]
  show "- 4398046511104 \<le> poly_u u v - 4294967295" "poly_u u v \<le> 8796093022207"
    "- 4398046511104 \<le> poly_v u v - 4294967295" "poly_v u v \<le> 8796093022207"
    unfolding poly_u_def poly_v_def by blast+
qed

lemma s32_sums:
  assumes "adc10 u" "adc10 v"
  shows "s32 (sum_u u v) = sum_u u v" "s32 (sum_v u v) = sum_v u v"
  using sums_poly [OF assms] poly_range [OF assms] by (auto intro!: s32_id simp: in_s32_def)

lemma div_close:
  assumes "4096 * (n::int) \<le> p" "p \<le> 4096 * n + 4294967295"
  shows "n div 1048576 \<le> p div 4294967296" "p div 4294967296 \<le> n div 1048576 + 1"
proof -
  have n: "n div 1048576 = 4096 * n div 4294967296"
    using div_mult_mult1 [of 4096 n 1048576] by simp
  show "n div 1048576 \<le> p div 4294967296" unfolding n using assms(1) by (rule zdiv_mono1) simp
  have "p div 4294967296 \<le> (4096 * n + 4294967296) div 4294967296" using assms(2) by (intro zdiv_mono1) simp_all
  then show "p div 4294967296 \<le> n div 1048576 + 1" unfolding n by simp
qed

lemma h2200_loop_map:
  "k + n \<le> length buf \<Longrightarrow>
   h2200_loop n k buf = Inr (take k buf @ map h2200_sample (take n (drop k buf)) @ drop (k + n) buf)"
proof (induction n arbitrary: k buf)
  case 0
  then show ?case by simp
next
  case (Suc n)
  have "take (Suc n) (drop k buf) = buf ! k # take n (drop (Suc k) buf)"
    using Suc.prems by (simp add: Cons_nth_drop_Suc [symmetric])
  with Suc show ?case by simp
qed

lemma linear_h2200_read_map:
  assumes "nxt s samp nr = Inr (ret, samp', s')" "0 \<le> ret" "ret \<le> int (length samp')"
  shows "linear_h2200_read nxt s samp nr =
    Inr (ret, map h2200_sample (take (nat ret) samp') @ drop (nat ret) samp', s')"
proof -
  have "h2200_loop (nat ret) 0 samp' = Inr (map h2200_sample (take (nat ret) samp') @ drop (nat ret) samp')"
    using h2200_loop_map [of 0 "nat ret" samp'] assms(3) by simp
  with assms(1,2) show ?thesis by (simp add: linear_h2200_read_def)
qed

context ts_source
begin

lemma linear_h2200_source: "ts_source (linear_h2200_read rd) invar"
proof (unfold_locales, goal_cases)
  case (1 s nr buf)
  obtain ret buf' a' w' where rd: "rd s buf nr = Inr (ret, buf', (a', w'))" "ret \<le> nr"
    "length buf' = length buf" "drop (nat nr) buf' = drop (nat nr) buf" "invar (a', w')"
    by (rule rd_cases [OF 1])
  show ?case
  proof (cases "0 \<le> ret")
    case False
    with rd show ?thesis by (simp add: linear_h2200_read_def)
  next
    case True
    let ?out = "map h2200_sample (take (nat ret) buf')"
    have le: "ret \<le> int (length buf')" using rd(2,3) 1(3) by simp
    have "drop (nat nr) (?out @ drop (nat ret) buf') = drop (nat nr) buf'"
      by (rule drop_eq_mono [of "nat ret"]) (use rd(2) le in auto)
    with linear_h2200_read_map [of rd s buf nr ret buf' "(a', w')", OF rd(1) True le] rd le show ?thesis by simp
  qed
next
  case (2 a w st)
  then show ?case by (rule invar_pthres)
qed

end

subsection \<open>Properties\<close>



end
