(* ===== verification/InputRaw.thy ===== *)
theory InputRaw
  imports TsTypes TsParseVars
begin

text \<open>
  The raw module for Linux input devices, src/tslib-1.1/plugins/input-raw.c: the capability
  checks of \<open>check_fd\<close> and the two loops of \<open>ts_input_read\<close>, one for devices that send
  EV_SYN events and one for those that do not.

  The answers of \<open>read(2)\<close> come from the script \<open>w_in\<close> of the world, one per call; when
  the script is empty, \<open>read\<close> returns -1 with EAGAIN. The kernel never returns more bytes
  than asked for. An input event has 16 bytes. The event codes are those of
  linux/input.h.
\<close>

definition EV_SYN :: nat where "EV_SYN = 0"
definition EV_KEY :: nat where "EV_KEY = 1"
definition EV_ABS :: nat where "EV_ABS = 3"
definition SYN_REPORT :: nat where "SYN_REPORT = 0"
definition ABS_X :: nat where "ABS_X = 0"
definition ABS_Y :: nat where "ABS_Y = 1"
definition ABS_PRESSURE :: nat where "ABS_PRESSURE = 24"
definition ABS_MT_POSITION_X :: nat where "ABS_MT_POSITION_X = 53"
definition ABS_MT_POSITION_Y :: nat where "ABS_MT_POSITION_Y = 54"
definition BTN_LEFT :: nat where "BTN_LEFT = 272"
definition BTN_TOUCH :: nat where "BTN_TOUCH = 330"
definition EV_VERSION :: int where "EV_VERSION = 65536"
definition EINTR :: int where "EINTR = 4"

lemmas evdev_codes = EV_SYN_def EV_KEY_def EV_ABS_def SYN_REPORT_def ABS_X_def ABS_Y_def ABS_PRESSURE_def
  ABS_MT_POSITION_X_def ABS_MT_POSITION_Y_def BTN_LEFT_def BTN_TOUCH_def EV_VERSION_def EINTR_def

definition GRAB_EVENTS_WANTED :: int where "GRAB_EVENTS_WANTED = 1"
definition GRAB_EVENTS_ACTIVE :: int where "GRAB_EVENTS_ACTIVE = 2"

record tslib_input =
  current_x :: int
  current_y :: int
  current_p :: int
  sane_fd :: int
  using_syn :: int
  grab_events :: int

text \<open>
  \<open>check_fd\<close>: the result and the changed struct. An ioctl that fails is \<open>None\<close>; a bit
  array is the set of its bits.
\<close>

definition check_fd :: "evdev_caps \<Rightarrow> tslib_input \<Rightarrow> int \<times> tslib_input" where
  "check_fd caps i =
     (case cap_version caps of
        None \<Rightarrow> (-1, i)
      | Some version \<Rightarrow>
          if version < EV_VERSION then (-1, i)
          else
            (case cap_evbit caps of
               None \<Rightarrow> (-1, i)
             | Some evbit \<Rightarrow>
                 if \<not> evbit EV_ABS \<or> \<not> evbit EV_KEY then (-1, i)
                 else
                   (case cap_absbit caps of
                      None \<Rightarrow> (-1, i)
                    | Some absbit \<Rightarrow>
                        if \<not> absbit ABS_X \<or> \<not> absbit ABS_Y then (-1, i)
                        else
                          (let i1 = (if \<not> absbit ABS_PRESSURE then i\<lparr>current_p := 255\<rparr> else i);
                               no_button = (\<not> absbit ABS_PRESSURE \<and>
                                 (case cap_keybit caps of
                                    None \<Rightarrow> True
                                  | Some keybit \<Rightarrow> \<not> (keybit BTN_TOUCH \<or> keybit BTN_LEFT)))
                           in
                             if no_button then (-1, i1)
                             else
                               (let i2 = (if evbit EV_SYN then i1\<lparr>using_syn := 1\<rparr> else i1) in
                                if grab_events i2 = GRAB_EVENTS_WANTED then
                                  if cap_grab caps \<noteq> 0 then (-1, i2)
                                  else (0, i2\<lparr>grab_events := GRAB_EVENTS_ACTIVE\<rparr>)
                                else (0, i2))))))"

text \<open>One event of a device with EV_SYN: the struct, \<open>pen_up\<close>, and the sample completed.\<close>

definition syn_event :: "tslib_input \<Rightarrow> bool \<Rightarrow> input_event \<Rightarrow> tslib_input \<times> bool \<times> ts_sample option" where
  "syn_event i pen_up ev =
     (if ev_type ev = EV_KEY then
        (i, (if (ev_code ev = BTN_TOUCH \<or> ev_code ev = BTN_LEFT) \<and> ev_value ev = 0 then True else pen_up), None)
      else if ev_type ev = EV_SYN then
        if ev_code ev = SYN_REPORT then
          (i, False,
           Some (if pen_up then \<lparr>samp_x = 0, samp_y = 0, samp_pressure = 0, samp_tv = ev_time ev\<rparr>
                 else \<lparr>samp_x = current_x i, samp_y = current_y i, samp_pressure = word_of_int (current_p i),
                       samp_tv = ev_time ev\<rparr>))
        else (i, pen_up, None)
      else if ev_type ev = EV_ABS then
        ((if ev_code ev = ABS_X then i\<lparr>current_x := ev_value ev\<rparr>
          else if ev_code ev = ABS_Y then i\<lparr>current_y := ev_value ev\<rparr>
          else if ev_code ev = ABS_MT_POSITION_X then i\<lparr>current_x := ev_value ev\<rparr>
          else if ev_code ev = ABS_MT_POSITION_Y then i\<lparr>current_y := ev_value ev\<rparr>
          else if ev_code ev = ABS_PRESSURE then i\<lparr>current_p := ev_value ev\<rparr>
          else i), pen_up, None)
      else (i, pen_up, None))"

text \<open>
  The loop for such devices; the last component of the result is the rest of the script.
\<close>

fun syn_loop ::
  "int \<Rightarrow> nat \<Rightarrow> bool \<Rightarrow> tslib_input \<Rightarrow> ts_sample list \<Rightarrow> dread list \<Rightarrow>
   fault + (int \<times> ts_sample list \<times> tslib_input \<times> dread list)" where
  "syn_loop nr tot pen_up i buf ins =
     (if int tot < nr then
        (case ins of
           [] \<Rightarrow> Inr (-1, buf, i, [])
         | RdErr _ # ins' \<Rightarrow> Inr (-1, buf, i, ins')
         | RdData n ev # ins' \<Rightarrow>
             if min n 16 < 16 then Inr (-1, buf, i, ins')
             else
               (case syn_event i pen_up ev of
                  (i', pen_up', None) \<Rightarrow> syn_loop nr tot pen_up' i' buf ins'
                | (i', pen_up', Some s) \<Rightarrow>
                    if tot < length buf then syn_loop nr (tot + 1) pen_up' i' (buf[tot := s]) ins'
                    else Inl OutOfBounds))
      else Inr (int tot, buf, i, ins))"

declare syn_loop.simps [simp del]

text \<open>
  One event of a device without EV_SYN; \<open>slot\<close> is what the caller's array holds at the
  position to be filled.
\<close>

definition plain_event :: "tslib_input \<Rightarrow> input_event \<Rightarrow> ts_sample \<Rightarrow> tslib_input \<times> ts_sample option" where
  "plain_event i ev slot =
     (if ev_type ev = EV_ABS then
        if ev_code ev = ABS_X then
          if ev_value ev \<noteq> 0 then
            (i\<lparr>current_x := ev_value ev\<rparr>,
             Some (slot\<lparr>samp_x := ev_value ev, samp_y := current_y i, samp_pressure := word_of_int (current_p i),
                        samp_tv := ev_time ev\<rparr>))
          else (i, None)
        else if ev_code ev = ABS_Y then
          if ev_value ev \<noteq> 0 then
            (i\<lparr>current_y := ev_value ev\<rparr>,
             Some (slot\<lparr>samp_x := current_x i, samp_y := ev_value ev, samp_pressure := word_of_int (current_p i),
                        samp_tv := ev_time ev\<rparr>))
          else (i, None)
        else if ev_code ev = ABS_PRESSURE then
          (i\<lparr>current_p := ev_value ev\<rparr>,
           Some (slot\<lparr>samp_x := current_x i, samp_y := current_y i, samp_pressure := word_of_int (ev_value ev),
                      samp_tv := ev_time ev\<rparr>))
        else (i, Some (slot\<lparr>samp_tv := ev_time ev\<rparr>))
      else if ev_type ev = EV_KEY then
        if (ev_code ev = BTN_TOUCH \<or> ev_code ev = BTN_LEFT) \<and> ev_value ev = 0 then
          (i, Some (slot\<lparr>samp_x := 0, samp_y := 0, samp_pressure := 0, samp_tv := ev_time ev\<rparr>))
        else (i, None)
      else (i, None))"

text \<open>The loop for such devices; \<open>len\<close> is the number of bytes asked for.\<close>

fun plain_loop ::
  "int \<Rightarrow> nat \<Rightarrow> nat \<Rightarrow> tslib_input \<Rightarrow> ts_sample list \<Rightarrow> dread list \<Rightarrow>
   fault + (int \<times> ts_sample list \<times> tslib_input \<times> dread list)" where
  "plain_loop nr tot len i buf ins =
     (if int tot < nr then
        (case ins of
           [] \<Rightarrow> Inr (int tot, buf, i, [])
         | RdErr errno # ins' \<Rightarrow>
             if errno = EINTR then plain_loop nr tot len i buf ins' else Inr (int tot, buf, i, ins')
         | RdData n ev # ins' \<Rightarrow>
             if min n len < 16 then plain_loop nr tot (len - min n len) i buf ins'
             else if tot < length buf then
               (case plain_event i ev (buf ! tot) of
                  (i', None) \<Rightarrow> plain_loop nr tot len i' buf ins'
                | (i', Some s) \<Rightarrow> plain_loop nr (tot + 1) len i' (buf[tot := s]) ins')
             else Inl OutOfBounds)
      else Inr (int tot, buf, i, ins))"

declare plain_loop.simps [simp del]

definition ts_input_read :: "tslib_input reader" where
  "ts_input_read = (\<lambda>(i, w) samp nr.
     let i1 = (if sane_fd i = 0 then (case check_fd (w_caps w) i of (r, i') \<Rightarrow> i'\<lparr>sane_fd := r\<rparr>) else i) in
     if sane_fd i1 = -1 then Inr (0, samp, (i1, w))
     else
       (case (if using_syn i1 \<noteq> 0 then syn_loop nr 0 False i1 samp (w_in w) else plain_loop nr 0 16 i1 samp (w_in w)) of
          Inl e \<Rightarrow> Inl e
        | Inr (ret, samp', i2, ins') \<Rightarrow> Inr (ret, samp', (i2, w\<lparr>w_in := ins'\<rparr>))))"

definition parse_raw_grab :: "tslib_input var_fn" where
  "parse_raw_grab i str data errno =
     (case strtoul0 str errno of
        Inl e \<Rightarrow> Inl e
      | Inr (v, errno') \<Rightarrow>
          if v = ULONG_MAX \<and> errno' = ERANGE then Inr (i, -1, errno')
          else if data = 1 then Inr (if v \<noteq> 0 then i\<lparr>grab_events := GRAB_EVENTS_WANTED\<rparr> else i, 0, errno)
          else Inr (i, -1, errno))"

definition raw_vars :: "tslib_input tslib_vars list" where
  "raw_vars = [\<lparr>var_name = ''grab_events'', var_data = 1, var_fun = parse_raw_grab\<rparr>]"

definition input_mod_init :: "bool \<Rightarrow> string option \<Rightarrow> int \<Rightarrow> fault + (tslib_input option \<times> int)" where
  "input_mod_init malloc_ok params errno =
     (if \<not> malloc_ok then Inr (None, errno)
      else
        (case tslib_parse_vars raw_vars params
                \<lparr>current_x = 0, current_y = 0, current_p = 0, sane_fd = 0, using_syn = 0, grab_events = 0\<rparr> errno of
           Inl e \<Rightarrow> Inl e
         | Inr (i, ret, errno') \<Rightarrow> Inr (if ret \<noteq> 0 then None else Some i, errno')))"

text \<open>
  \<open>ts_input_fini\<close>: the result, and whether the device is released (the ioctl EVIOCGRAB
  with 0).
\<close>

definition ts_input_fini :: "tslib_input \<Rightarrow> int \<times> bool" where
  "ts_input_fini i = (0, grab_events i = GRAB_EVENTS_ACTIVE)"

subsection \<open>The module is a source\<close>

lemma syn_loop_ok:
  assumes "int tot \<le> nr" "nr \<le> int (length buf)"
  shows "\<exists>ret buf' i' ins'. syn_loop nr tot pen i buf ins = Inr (ret, buf', i', ins') \<and>
    ret \<le> nr \<and> length buf' = length buf \<and> drop (nat nr) buf' = drop (nat nr) buf"
  using assms
proof (induction ins arbitrary: tot pen i buf)
  case Nil
  then show ?case by (subst syn_loop.simps) auto
next
  case (Cons r ins)
  obtain i1 pen1 o1 where e: "\<And>n ev. r = RdData n ev \<Longrightarrow> syn_event i pen ev = (i1, pen1, o1)"
    by (metis dread.exhaust dread.inject(2) prod_cases3)
  have more: "\<exists>ret buf' i' ins'. syn_loop nr (Suc tot) pen1 i1 (buf[tot := s]) ins = Inr (ret, buf', i', ins') \<and>
      ret \<le> nr \<and> length buf' = length buf \<and> drop (nat nr) buf' = drop (nat nr) buf" if "int tot < nr" for s
    using Cons.IH [of "Suc tot" "buf[tot := s]" pen1 i1] Cons.prems that by auto
  show ?case
    using Cons.IH [of tot buf pen1 i1] Cons.prems e more
    by (subst syn_loop.simps) (auto split: dread.splits option.splits)
qed


lemma plain_loop_ok:
  assumes "int tot \<le> nr" "nr \<le> int (length buf)"
  shows "\<exists>ret buf' i' ins'. plain_loop nr tot len i buf ins = Inr (ret, buf', i', ins') \<and>
    ret \<le> nr \<and> length buf' = length buf \<and> drop (nat nr) buf' = drop (nat nr) buf"
  using assms
proof (induction ins arbitrary: tot len i buf)
  case Nil
  then show ?case by (subst plain_loop.simps) auto
next
  case (Cons r ins)
  obtain i1 o1 where e: "\<And>n ev. r = RdData n ev \<Longrightarrow> plain_event i ev (buf ! tot) = (i1, o1)"
    by (metis dread.exhaust dread.inject(2) surj_pair)
  have more: "\<exists>ret buf' i' ins'. plain_loop nr (Suc tot) len i1 (buf[tot := s]) ins = Inr (ret, buf', i', ins') \<and>
      ret \<le> nr \<and> length buf' = length buf \<and> drop (nat nr) buf' = drop (nat nr) buf" if "int tot < nr" for s
    using Cons.IH [of "Suc tot" "buf[tot := s]" len i1] Cons.prems that by auto
  have same: "\<exists>ret buf' i' ins'. plain_loop nr tot l j buf ins = Inr (ret, buf', i', ins') \<and>
      ret \<le> nr \<and> length buf' = length buf \<and> drop (nat nr) buf' = drop (nat nr) buf" for l j
    by (rule Cons.IH [OF Cons.prems])
  show ?case
    using same Cons.prems e more
    by (subst plain_loop.simps) (auto split: dread.splits option.splits)
qed

interpretation input: ts_source ts_input_read "\<lambda>_. True"
proof (unfold_locales, goal_cases)
  case (1 s nr buf)
  obtain i w where s: "s = (i, w)" by (cases s) auto
  let ?i = "if sane_fd i = 0 then (case check_fd (w_caps w) i of (r, i') \<Rightarrow> i'\<lparr>sane_fd := r\<rparr>) else i"
  have n: "int 0 \<le> nr" using 1(2) by simp
  show ?case
    using syn_loop_ok [OF n 1(3), of False ?i "w_in w"] plain_loop_ok [OF n 1(3), of 16 ?i "w_in w"] 1(2)
    by (cases "using_syn ?i = 0") (auto simp: s ts_input_read_def Let_def read_ok_def)
qed

subsection \<open>One sample per report\<close>

fun syn_spec :: "tslib_input \<Rightarrow> bool \<Rightarrow> input_event list \<Rightarrow> ts_sample list \<times> tslib_input \<times> bool" where
  "syn_spec i pen [] = ([], i, pen)"
| "syn_spec i pen (ev # evs) =
     (case syn_event i pen ev of (i1, pen1, o1) \<Rightarrow>
        case syn_spec i1 pen1 evs of (out, i2, pen2) \<Rightarrow> (opt_list o1 @ out, i2, pen2))"

definition is_report :: "input_event \<Rightarrow> bool" where
  "is_report ev \<longleftrightarrow> ev_type ev = EV_SYN \<and> ev_code ev = SYN_REPORT"

lemma syn_event_report: "is_report ev \<Longrightarrow> \<exists>s. syn_event i pen ev = (i, False, Some s)"
  by (auto simp: is_report_def syn_event_def evdev_codes)

lemma syn_event_no_report: "\<not> is_report ev \<Longrightarrow> \<exists>i' pen'. syn_event i pen ev = (i', pen', None)"
  by (auto simp: is_report_def syn_event_def)

lemma length_syn_spec: "syn_spec i pen evs = (out, i', pen') \<Longrightarrow> length out = length (filter is_report evs)"
proof (induction evs arbitrary: i pen out)
  case (Cons ev evs)
  then show ?case
    using syn_event_report [of ev i pen] syn_event_no_report [of ev i pen]
    by (cases "is_report ev") (auto split: prod.splits)
qed simp

lemma syn_loop_full: "\<not> int tot < nr \<Longrightarrow> syn_loop nr tot pen i buf ins = Inr (int tot, buf, i, ins)"
  by (subst syn_loop.simps) simp

lemma syn_loop_event:
  assumes "int tot < nr" "tot < length buf" "syn_event i pen ev = (i1, pen1, o1)"
  shows "syn_loop nr tot pen i buf (RdData 16 ev # ins) =
    (case o1 of None \<Rightarrow> syn_loop nr tot pen1 i1 buf ins
     | Some s \<Rightarrow> syn_loop nr (Suc tot) pen1 i1 (buf[tot := s]) ins)"
  using assms by (subst syn_loop.simps) (auto split: option.splits)

text \<open>
  Reading whole events: as long as fewer than \<open>nr\<close> reports have been seen, the loop goes on
  with what is left of the script.
\<close>

lemma syn_loop_spec:
  assumes "syn_spec i pen evs = (out, i', pen')" "int (tot + length out) < nr" "nr \<le> int (length buf)"
  shows "syn_loop nr tot pen i buf (map (RdData 16) evs @ ins) =
    syn_loop nr (tot + length out) pen' i' (take tot buf @ out @ drop (tot + length out) buf) ins"
  using assms
proof (induction evs arbitrary: i pen out tot buf)
  case (Cons ev evs)
  obtain i1 pen1 o1 out1 where e: "syn_event i pen ev = (i1, pen1, o1)" "syn_spec i1 pen1 evs = (out1, i', pen')"
    "out = opt_list o1 @ out1"
    using Cons.prems(1) by (auto split: prod.splits)
  have t: "int tot < nr" "tot < length buf" using Cons.prems(2,3) by simp_all
  show ?case
  proof (cases o1)
    case None
    with Cons.IH [OF e(2)] Cons.prems e t show ?thesis by (simp add: syn_loop_event)
  next
    case (Some s)
    with Cons.IH [OF e(2), of "Suc tot" "buf[tot := s]"] Cons.prems e t show ?thesis by (simp add: syn_loop_event)
  qed
qed simp

lemma syn_loop_reports:
  assumes "syn_spec i pen (evs @ [ev]) = (out, i', pen')" "is_report ev" "int (tot + length out) = nr" "nr \<le> int (length buf)"
  shows "syn_loop nr tot pen i buf (map (RdData 16) (evs @ [ev]) @ ins) =
    Inr (nr, take tot buf @ out @ drop (tot + length out) buf, i', ins)"
proof -
  obtain out1 i1 pen1 where s1: "syn_spec i pen evs = (out1, i1, pen1)" by (metis prod_cases3)
  obtain s where s: "syn_event i1 pen1 ev = (i1, False, Some s)" using syn_event_report [OF assms(2)] by blast
  have "syn_spec i pen (evs @ [ev]) = (out1 @ [s], i1, False)"
    using s1 s by (induction evs arbitrary: i pen out1) (auto split: prod.splits)
  with assms have o: "out = out1 @ [s]" "i' = i1" by simp_all
  have lt: "int (tot + length out1) < nr" using assms(3) o by simp
  let ?b = "take tot buf @ out1 @ drop (tot + length out1) buf"
  have len: "tot + length out1 < length ?b" using lt assms(4) by simp
  have upd: "?b[tot + length out1 := s] = take tot buf @ out @ drop (tot + length out) buf"
    using lt assms(4) o by (simp add: list_update_append drop_update_swap Cons_nth_drop_Suc [symmetric])
  have "syn_loop nr tot pen i buf (map (RdData 16) (evs @ [ev]) @ ins) =
      syn_loop nr (tot + length out1) pen1 i1 ?b (RdData 16 ev # ins)"
    using syn_loop_spec [OF s1 lt assms(4), of "RdData 16 ev # ins"] by simp
  also have "\<dots> = syn_loop nr (Suc (tot + length out1)) False i1 (?b[tot + length out1 := s]) ins"
    by (subst syn_loop_event [OF lt len s]) simp
  also have "\<dots> = Inr (nr, ?b[tot + length out1 := s], i1, ins)"
    using assms(3) o by (subst syn_loop_full) auto
  finally show ?thesis by (simp add: upd o)
qed


lemma plain_loop_stuck: "len < 16 \<Longrightarrow> \<exists>ins'. plain_loop nr tot len i buf ins = Inr (int tot, buf, i, ins')"
proof (induction ins arbitrary: len)
  case Nil
  then show ?case by (subst plain_loop.simps) auto
next
  case (Cons r ins)
  then show ?case
    by (subst plain_loop.simps) (auto split: dread.splits simp: min_def)
qed

lemma ts_input_read_syn:
  assumes "sane_fd i = 0" "check_fd (w_caps w) i = (0, i1)" "using_syn i1 \<noteq> 0"
    "syn_loop nr 0 False (i1\<lparr>sane_fd := 0\<rparr>) samp (w_in w) = Inr (ret, samp', i2, ins')"
  shows "ts_input_read (i, w) samp nr = Inr (ret, samp', (i2, w\<lparr>w_in := ins'\<rparr>))"
  using assms by (simp add: ts_input_read_def)

text \<open>A device with all capabilities, and events, for the concrete examples.\<close>

definition caps_syn :: evdev_caps where
  "caps_syn = \<lparr>cap_version = Some 65536, cap_evbit = Some (\<lambda>b. b \<in> {0, 1, 3}),
     cap_absbit = Some (\<lambda>b. b \<in> {0, 1, 24}), cap_keybit = Some (\<lambda>b. b = 330), cap_grab = 0\<rparr>"

definition caps_plain :: evdev_caps where
  "caps_plain = caps_syn\<lparr>cap_evbit := Some (\<lambda>b. b \<in> {1, 3})\<rparr>"

definition mk_ev :: "nat \<Rightarrow> nat \<Rightarrow> int \<Rightarrow> input_event" where
  "mk_ev t c v = \<lparr>ev_time = \<lparr>tv_sec = 0, tv_usec = 0\<rparr>, ev_type = t, ev_code = c, ev_value = v\<rparr>"

definition input0 :: tslib_input where
  "input0 = \<lparr>current_x = 0, current_y = 0, current_p = 0, sane_fd = 0, using_syn = 0, grab_events = 0\<rparr>"

lemma check_fd_examples:
  "check_fd caps_syn i = (0, if grab_events i = 1 then i\<lparr>using_syn := 1, grab_events := 2\<rparr> else i\<lparr>using_syn := 1\<rparr>)"
  "check_fd caps_plain i = (0, if grab_events i = 1 then i\<lparr>grab_events := 2\<rparr> else i)"
  by (simp_all add: check_fd_def caps_syn_def caps_plain_def evdev_codes GRAB_EVENTS_WANTED_def GRAB_EVENTS_ACTIVE_def)

subsection \<open>Properties\<close>

text \<open>
  C6: on a device with EV_SYN, a read for \<open>nr\<close> samples returns one sample for each of the
  next \<open>nr\<close> SYN_REPORT events, in order: the coordinates and the pressure last seen, or the
  release (0, 0, 0) when the button went up since the report before. It takes exactly the
  events up to the last of these reports off the device.
\<close>

theorem ts_input_read_reports:
  assumes "sane_fd i = 0" "check_fd (w_caps w) i = (0, i1)" "using_syn i1 \<noteq> 0"
    and "w_in w = map (RdData 16) (evs @ [rep]) @ rest" "is_report rep"
    and "syn_spec (i1\<lparr>sane_fd := 0\<rparr>) False (evs @ [rep]) = (out, i2, pen)"
    and "nr = int (length (filter is_report (evs @ [rep])))" "nr \<le> int (length samp)"
  shows "ts_input_read (i, w) samp nr = Inr (nr, out @ drop (length out) samp, (i2, w\<lparr>w_in := rest\<rparr>))"
proof (rule ts_input_read_syn [OF assms(1-3)])
  have "nr = int (0 + length out)" using length_syn_spec [OF assms(6)] assms(7) by simp
  from syn_loop_reports [OF assms(6,5) this [symmetric] assms(8), of rest] assms(4)
  show "syn_loop nr 0 False (i1\<lparr>sane_fd := 0\<rparr>) samp (w_in w) = Inr (nr, out @ drop (length out) samp, i2, rest)"
    by simp
qed

theorem ts_input_read_reports_witness:
  "\<exists>i2. ts_input_read (input0, world0\<lparr>w_caps := caps_syn,
       w_in := map (RdData 16) [mk_ev 3 0 100, mk_ev 3 1 50, mk_ev 3 24 7, mk_ev 0 0 0, mk_ev 1 330 0, mk_ev 0 0 0, mk_ev 3 0 9]\<rparr>)
     [smp 1 1 1, smp 1 1 1, smp 1 1 1] 2 =
   Inr (2, [smp 100 50 7, smp 0 0 0, smp 1 1 1], (i2, world0\<lparr>w_caps := caps_syn, w_in := [RdData 16 (mk_ev 3 0 9)]\<rparr>))"
proof -
  let ?w = "world0\<lparr>w_caps := caps_syn,
       w_in := map (RdData 16) [mk_ev 3 0 100, mk_ev 3 1 50, mk_ev 3 24 7, mk_ev 0 0 0, mk_ev 1 330 0, mk_ev 0 0 0, mk_ev 3 0 9]\<rparr>"
  let ?evs = "[mk_ev 3 0 100, mk_ev 3 1 50, mk_ev 3 24 7, mk_ev 0 0 0, mk_ev 1 330 0]"
  have "syn_spec (input0\<lparr>using_syn := 1, sane_fd := 0\<rparr>) False (?evs @ [mk_ev 0 0 0]) =
      ([smp 100 50 7, smp 0 0 0],
       \<lparr>current_x = 100, current_y = 50, current_p = 7, sane_fd = 0, using_syn = 1, grab_events = 0\<rparr>, False)"
    by (simp add: syn_event_def evdev_codes input0_def mk_ev_def)
  then show ?thesis
    using ts_input_read_reports [of input0 ?w "input0\<lparr>using_syn := 1\<rparr>" ?evs "mk_ev 0 0 0" "[RdData 16 (mk_ev 3 0 9)]"
        "[smp 100 50 7, smp 0 0 0]" _ False 2 "[smp 1 1 1, smp 1 1 1, smp 1 1 1]"]
    by (simp add: check_fd_examples is_report_def evdev_codes input0_def mk_ev_def)
qed

text \<open>
  A read that is interrupted between the button event and its SYN_REPORT loses the
  release. \<open>pen_up\<close> is a local variable: if the device has nothing more after the button
  went up (EAGAIN on a device opened for non-blocking reads), the call returns -1, and the
  next call reports the SYN_REPORT as a press at the old position with the old pressure.
\<close>

theorem ts_input_read_loses_release:
  assumes "sane_fd i = 0" "check_fd (w_caps w) i = (0, i)" "using_syn i \<noteq> 0"
    and "w_in w = [RdData 16 \<lparr>ev_time = t1, ev_type = EV_KEY, ev_code = BTN_TOUCH, ev_value = 0\<rparr>, RdErr err,
        RdData 16 \<lparr>ev_time = t2, ev_type = EV_SYN, ev_code = SYN_REPORT, ev_value = 0\<rparr>]"
    and "samp \<noteq> []"
  shows "\<exists>s1. ts_input_read (i, w) samp 1 = Inr (-1, samp, s1) \<and>
    (\<exists>s2. ts_input_read s1 samp 1 =
      Inr (1, samp[0 := \<lparr>samp_x = current_x i, samp_y = current_y i, samp_pressure = word_of_int (current_p i), samp_tv = t2\<rparr>], s2))"
proof -
  let ?k = "\<lparr>ev_time = t1, ev_type = EV_KEY, ev_code = BTN_TOUCH, ev_value = 0\<rparr>"
    and ?s = "\<lparr>ev_time = t2, ev_type = EV_SYN, ev_code = SYN_REPORT, ev_value = 0\<rparr>"
  have i: "i\<lparr>sane_fd := 0\<rparr> = i" using assms(1) by simp
  have "syn_loop 1 0 False i samp [RdData 16 ?k, RdErr err, RdData 16 ?s] = Inr (-1, samp, i, [RdData 16 ?s])"
    by (simp add: syn_loop.simps syn_event_def evdev_codes)
  then have 1: "ts_input_read (i, w) samp 1 = Inr (-1, samp, (i, w\<lparr>w_in := [RdData 16 ?s]\<rparr>))"
    using assms(4) by (intro ts_input_read_syn [OF assms(1-3)]) (simp add: i)
  have "syn_loop 1 0 False i samp [RdData 16 ?s] = Inr (1, samp[0 := \<lparr>samp_x = current_x i, samp_y = current_y i,
      samp_pressure = word_of_int (current_p i), samp_tv = t2\<rparr>], i, [])"
    using assms(5) by (simp add: syn_loop.simps syn_event_def evdev_codes)
  then have "ts_input_read (i, w\<lparr>w_in := [RdData 16 ?s]\<rparr>) samp 1 = Inr (1, samp[0 := \<lparr>samp_x = current_x i,
      samp_y = current_y i, samp_pressure = word_of_int (current_p i), samp_tv = t2\<rparr>], (i, w\<lparr>w_in := [RdData 16 ?s]\<rparr>\<lparr>w_in := []\<rparr>))"
    using assms(1-3) by (intro ts_input_read_syn [of i _ i]) (simp_all add: i)
  with 1 show ?thesis by blast
qed

theorem ts_input_read_loses_release_witness:
  "\<exists>s1. ts_input_read (input0\<lparr>current_x := 100, current_y := 50, current_p := 7, using_syn := 1\<rparr>,
       world0\<lparr>w_caps := caps_syn, w_in := [RdData 16 (mk_ev 1 330 0), RdErr 11, RdData 16 (mk_ev 0 0 0)]\<rparr>) [smp 1 1 1] 1 =
     Inr (-1, [smp 1 1 1], s1) \<and>
     (\<exists>s2. ts_input_read s1 [smp 1 1 1] 1 = Inr (1, [smp 100 50 7], s2))"
  using ts_input_read_loses_release [of "input0\<lparr>current_x := 100, current_y := 50, current_p := 7, using_syn := 1\<rparr>"
      "world0\<lparr>w_caps := caps_syn, w_in := [RdData 16 (mk_ev 1 330 0), RdErr 11, RdData 16 (mk_ev 0 0 0)]\<rparr>"
      "\<lparr>tv_sec = 0, tv_usec = 0\<rparr>" 11 "\<lparr>tv_sec = 0, tv_usec = 0\<rparr>" "[smp 1 1 1]"]
  by (simp add: check_fd_examples evdev_codes input0_def mk_ev_def)

text \<open>
  On a device without EV_SYN, a read that returns only part of an event ends all
  delivery. \<open>len\<close> is lowered to fetch the rest and never raised again, so no later read can
  return the 16 bytes the loop waits for: whatever the device has to offer, the call returns
  no sample.
\<close>

theorem ts_input_read_short_read:
  assumes "sane_fd i = 0" "check_fd (w_caps w) i = (0, i1)" "using_syn i1 = 0"
    and "w_in w = RdData n e # later" "0 < n" "n < 16" "0 < nr"
  shows "\<exists>i2 ins'. ts_input_read (i, w) samp nr = Inr (0, samp, (i2, w\<lparr>w_in := ins'\<rparr>))"
proof -
  let ?i = "i1\<lparr>sane_fd := 0\<rparr>"
  have "16 - n < 16" using assms(5) by simp
  then obtain ins' where "plain_loop nr 0 (16 - n) ?i samp later = Inr (int 0, samp, ?i, ins')"
    using plain_loop_stuck by blast
  then have "plain_loop nr 0 16 ?i samp (w_in w) = Inr (0, samp, ?i, ins')"
    using assms(4-7) by (subst plain_loop.simps) (simp add: min_def)
  with assms(1-3) show ?thesis by (auto simp: ts_input_read_def)
qed

theorem ts_input_read_short_read_witness:
  "\<exists>i2 ins'. ts_input_read (input0, world0\<lparr>w_caps := caps_plain,
       w_in := [RdData 8 (mk_ev 3 0 9), RdData 8 (mk_ev 3 0 9), RdData 16 (mk_ev 3 0 100)]\<rparr>) [smp 1 1 1] 1 =
     Inr (0, [smp 1 1 1], (i2, world0\<lparr>w_caps := caps_plain, w_in := ins'\<rparr>))"
  using ts_input_read_short_read [of input0 "world0\<lparr>w_caps := caps_plain,
       w_in := [RdData 8 (mk_ev 3 0 9), RdData 8 (mk_ev 3 0 9), RdData 16 (mk_ev 3 0 100)]\<rparr>" input0 8 "mk_ev 3 0 9"
      "[RdData 8 (mk_ev 3 0 9), RdData 16 (mk_ev 3 0 100)]" 1 "[smp 1 1 1]"]
  by (simp add: check_fd_examples input0_def)

text \<open>
  A device that fails the capability check is never read. The first call finds out and
  returns 0, and from then on every call returns 0 and leaves the device alone, however its
  capabilities change.
\<close>

theorem ts_input_read_rejected:
  assumes "sane_fd i = 0" "fst (check_fd (w_caps w) i) = -1"
  shows "\<exists>i1. ts_input_read (i, w) samp nr = Inr (0, samp, (i1, w)) \<and>
    (\<forall>w' samp' nr'. ts_input_read (i1, w') samp' nr' = Inr (0, samp', (i1, w')))"
proof -
  obtain i1 where "check_fd (w_caps w) i = (-1, i1)" using assms(2) by (metis prod.collapse)
  then have "ts_input_read (i, w) samp nr = Inr (0, samp, (i1\<lparr>sane_fd := -1\<rparr>, w))"
    using assms(1) by (simp add: ts_input_read_def)
  moreover have "ts_input_read (i1\<lparr>sane_fd := -1\<rparr>, w') samp' nr' = Inr (0, samp', (i1\<lparr>sane_fd := -1\<rparr>, w'))" for w' samp' nr'
    by (simp add: ts_input_read_def)
  ultimately show ?thesis by blast
qed

theorem ts_input_read_rejected_witness:
  "\<exists>i1. ts_input_read (input0, world0\<lparr>w_in := [RdData 16 (mk_ev 3 0 9)]\<rparr>) [smp 1 1 1] 1 =
     Inr (0, [smp 1 1 1], (i1, world0\<lparr>w_in := [RdData 16 (mk_ev 3 0 9)]\<rparr>)) \<and>
     ts_input_read (i1, world0\<lparr>w_caps := caps_syn, w_in := [RdData 16 (mk_ev 3 0 9)]\<rparr>) [smp 1 1 1] 1 =
       Inr (0, [smp 1 1 1], (i1, world0\<lparr>w_caps := caps_syn, w_in := [RdData 16 (mk_ev 3 0 9)]\<rparr>))"
proof -
  have "fst (check_fd (w_caps (world0\<lparr>w_in := [RdData 16 (mk_ev 3 0 9)]\<rparr>)) input0) = -1"
    by (simp add: check_fd_def world0_def)
  from ts_input_read_rejected [OF _ this, of "[smp 1 1 1]" 1] show ?thesis by (auto simp: input0_def)
qed

end
