(* ===== verification/TsChain.thy ===== *)
theory TsChain
  imports Pthres Dejitter Variance Linear LinearH2200 InputRaw
begin

text \<open>
  The chain of modules of a device, src/tslib-1.1/src/tslib-filter.h, ts_read.c and
  ts_read_raw.c. A module is a block on the heap with a pointer \<open>next\<close> to the module it
  reads from; \<open>info->ops->read\<close> is dispatch on the kind of module.
\<close>

datatype tsmod =
    MPthres tslib_pthres
  | MDejitter tslib_dejitter
  | MVariance tslib_variance
  | MLinear tslib_linear
  | MLinearH2200
  | MInput tslib_input

record tslib_module_info =
  mi_next :: "nat option"
  mi_handle :: "nat option"
  mi_mod :: tsmod

type_synonym heap = "nat \<rightharpoonup> tslib_module_info"

text \<open>The struct of a module is written back to its block when its \<open>read\<close> returns.\<close>

definition store ::
  "nat \<Rightarrow> tslib_module_info \<Rightarrow> ('m \<Rightarrow> tsmod) \<Rightarrow> fault + (int \<times> ts_sample list \<times> (('m \<times> heap) \<times> world)) \<Rightarrow>
   fault + (int \<times> ts_sample list \<times> (heap \<times> world))" where
  "store a nd wrap r =
     (case r of
        Inl e \<Rightarrow> Inl e
      | Inr (ret, samp, ((m, h), w)) \<Rightarrow> Inr (ret, samp, (h(a \<mapsto> nd\<lparr>mi_mod := wrap m\<rparr>), w)))"

text \<open>
  \<open>info->ops->read(info, samp, nr)\<close> for the module at address \<open>p\<close>. The first argument is
  the content of the local variable \<open>cur\<close> of \<open>variance_read\<close> before it is assigned, the
  second the depth of calls the stack has room for.
\<close>

fun chain_read :: "ts_sample \<Rightarrow> nat \<Rightarrow> nat option \<Rightarrow> heap reader" where
  "chain_read cur 0 p = (\<lambda>s samp nr. Inl StackOverflow)"
| "chain_read cur (Suc k) p = (\<lambda>(h, w) samp nr.
     case p of
       None \<Rightarrow> Inl NullDeref
     | Some a \<Rightarrow>
         (case h a of
            None \<Rightarrow> Inl WildPointer
          | Some nd \<Rightarrow>
              (let below = chain_read cur k (mi_next nd) in
               case mi_mod nd of
                 MPthres m \<Rightarrow> store a nd MPthres (pthres_read below ((m, h), w) samp nr)
               | MDejitter m \<Rightarrow> store a nd MDejitter (dejitter_read below ((m, h), w) samp nr)
               | MVariance m \<Rightarrow> store a nd MVariance (variance_read cur below ((m, h), w) samp nr)
               | MLinear m \<Rightarrow> store a nd MLinear (linear_read below ((m, h), w) samp nr)
               | MLinearH2200 \<Rightarrow> linear_h2200_read below (h, w) samp nr
               | MInput m \<Rightarrow>
                   (case ts_input_read (m, w) samp nr of
                      Inl e \<Rightarrow> Inl e
                    | Inr (ret, samp', (m', w')) \<Rightarrow>
                        Inr (ret, samp', (h(a \<mapsto> nd\<lparr>mi_mod := MInput m'\<rparr>), w'))))))"

text \<open>\<open>ts_read\<close> and \<open>ts_read_raw\<close> on the two pointers of the device.\<close>

definition ts_read :: "ts_sample \<Rightarrow> nat \<Rightarrow> nat option \<Rightarrow> heap reader" where
  "ts_read cur depth list_ptr = chain_read cur depth list_ptr"

definition ts_read_raw :: "ts_sample \<Rightarrow> nat \<Rightarrow> nat option \<Rightarrow> heap reader" where
  "ts_read_raw cur depth list_raw_ptr = chain_read cur depth list_raw_ptr"

subsection \<open>Well-formed chains\<close>

text \<open>From \<open>p\<close> on, \<open>next\<close> leads through exactly these blocks to NULL.\<close>

fun is_chain :: "heap \<Rightarrow> nat option \<Rightarrow> nat list \<Rightarrow> bool" where
  "is_chain h p [] \<longleftrightarrow> p = None"
| "is_chain h p (a # as) \<longleftrightarrow>
     p = Some a \<and> a \<notin> set as \<and> (case h a of None \<Rightarrow> False | Some nd \<Rightarrow> is_chain h (mi_next nd) as)"

fun mod_ok :: "tsmod \<Rightarrow> bool" where
  "mod_ok (MDejitter d) \<longleftrightarrow> dejitter_inv d"
| "mod_ok (MLinear l) \<longleftrightarrow> linear_wf l"
| "mod_ok _ \<longleftrightarrow> True"

fun is_input :: "tsmod \<Rightarrow> bool" where
  "is_input (MInput _) \<longleftrightarrow> True"
| "is_input _ \<longleftrightarrow> False"

definition mods :: "heap \<Rightarrow> nat list \<Rightarrow> tsmod list" where
  "mods h as = map (\<lambda>a. mi_mod (the (h a))) as"

text \<open>
  A chain that can be read: it ends in a module that needs nothing below it, and every
  module's own invariant holds. Outside the chain the heap is \<open>h0\<close>.
\<close>

definition chain_inv :: "heap \<Rightarrow> nat option \<Rightarrow> nat list \<Rightarrow> heap \<times> world \<Rightarrow> bool" where
  "chain_inv h0 p as = (\<lambda>(h, w).
     is_chain h p as \<and> as \<noteq> [] \<and> (\<forall>m \<in> set (mods h as). mod_ok m) \<and> is_input (last (mods h as)) \<and>
     (\<forall>b. b \<notin> set as \<longrightarrow> h b = h0 b))"

lemma is_chain_cong: "(\<And>b. b \<in> set as \<Longrightarrow> h b = h' b) \<Longrightarrow> is_chain h p as = is_chain h' p as"
  by (induction as arbitrary: p) (auto split: option.splits)

lemma mods_cong: "(\<And>b. b \<in> set as \<Longrightarrow> h b = h' b) \<Longrightarrow> mods h as = mods h' as"
  by (simp add: mods_def)

lemma mods_Cons [simp]: "mods h (a # as) = mi_mod (the (h a)) # mods h as"
  by (simp add: mods_def)

lemma mods_Nil [simp]: "mods h [] = []"
  by (simp add: mods_def)

lemma mods_Nil_iff [simp]: "mods h as = [] \<longleftrightarrow> as = []"
  by (simp add: mods_def)

lemma chain_inv_pthres: "chain_inv h0 p as (h, w) \<Longrightarrow> chain_inv h0 p as (h, w')"
  by (simp add: chain_inv_def)

text \<open>
  Taking the first block off a chain, and putting it back with a changed struct after the
  rest of the chain has been read.
\<close>

lemma chain_inv_tail:
  assumes "chain_inv h0 p (a # as) (h, w)" "h a = Some nd" "as \<noteq> []"
  shows "chain_inv h (mi_next nd) as (h, w)" "mod_ok (mi_mod nd)"
  using assms by (auto simp: chain_inv_def)

lemma chain_inv_head:
  assumes "chain_inv h0 p (a # as) (h, w)" "h a = Some nd" "chain_inv h (mi_next nd) as (h', w')" "mod_ok m"
  shows "chain_inv h0 p (a # as) (h'(a \<mapsto> nd\<lparr>mi_mod := m\<rparr>), w')"
proof -
  have a: "a \<notin> set as" "p = Some a" and out: "\<And>b. b \<notin> set (a # as) \<Longrightarrow> h b = h0 b"
    and h': "is_chain h' (mi_next nd) as" "as \<noteq> []" "\<forall>m \<in> set (mods h' as). mod_ok m"
      "is_input (last (mods h' as))" "\<And>b. b \<notin> set as \<Longrightarrow> h' b = h b"
    using assms by (auto simp: chain_inv_def)
  let ?h = "h'(a \<mapsto> nd\<lparr>mi_mod := m\<rparr>)"
  have "mods ?h as = mods h' as" by (rule mods_cong) (use a in auto)
  moreover have "is_chain ?h (mi_next nd) as = is_chain h' (mi_next nd) as" by (rule is_chain_cong) (use a in auto)
  ultimately show ?thesis using a out h' assms(4) by (auto simp: chain_inv_def)
qed

lemma chain_inv_h2200:
  assumes "chain_inv h0 p (a # as) (h, w)" "h a = Some nd" "chain_inv h (mi_next nd) as (h', w')" "mi_mod nd = MLinearH2200"
  shows "chain_inv h0 p (a # as) (h', w')"
proof -
  have "h' a = h a" using assms(1,3) by (auto simp: chain_inv_def)
  then have "h'(a \<mapsto> nd\<lparr>mi_mod := MLinearH2200\<rparr>) = h'" using assms(2,4) by (intro ext) auto
  with chain_inv_head [OF assms(1-3), of MLinearH2200] show ?thesis by simp
qed

lemma store_ok:
  assumes "read_ok I nr buf r" "\<And>m h w. I ((m, h), w) \<Longrightarrow> J (h(a \<mapsto> nd\<lparr>mi_mod := wrap m\<rparr>), w)"
  shows "read_ok J nr buf (store a nd wrap r)"
  using assms by (auto simp: read_ok_def store_def split: sum.splits)


lemma input_ok:
  assumes "0 \<le> nr" "nr \<le> int (length buf)" "\<And>m' w'. J (h(a \<mapsto> nd\<lparr>mi_mod := MInput m'\<rparr>), w')"
  shows "read_ok J nr buf
    (case ts_input_read (m, w) buf nr of
       Inl e \<Rightarrow> Inl e
     | Inr (ret, samp', (m', w')) \<Rightarrow> Inr (ret, samp', (h(a \<mapsto> nd\<lparr>mi_mod := MInput m'\<rparr>), w')))"
  using input.rd_ok [OF TrueI assms(1,2), of "(m, w)"] assms(3)
  by (auto simp: read_ok_def split: sum.splits)

lemma chain_read_Some:
  assumes "h a = Some nd"
  shows "chain_read cur (Suc k) (Some a) (h, w) samp nr =
    (case mi_mod nd of
       MPthres m \<Rightarrow> store a nd MPthres (pthres_read (chain_read cur k (mi_next nd)) ((m, h), w) samp nr)
     | MDejitter m \<Rightarrow> store a nd MDejitter (dejitter_read (chain_read cur k (mi_next nd)) ((m, h), w) samp nr)
     | MVariance m \<Rightarrow> store a nd MVariance (variance_read cur (chain_read cur k (mi_next nd)) ((m, h), w) samp nr)
     | MLinear m \<Rightarrow> store a nd MLinear (linear_read (chain_read cur k (mi_next nd)) ((m, h), w) samp nr)
     | MLinearH2200 \<Rightarrow> linear_h2200_read (chain_read cur k (mi_next nd)) (h, w) samp nr
     | MInput m \<Rightarrow>
         (case ts_input_read (m, w) samp nr of
            Inl e \<Rightarrow> Inl e
          | Inr (ret, samp', (m', w')) \<Rightarrow> Inr (ret, samp', (h(a \<mapsto> nd\<lparr>mi_mod := MInput m'\<rparr>), w'))))"
  using assms by (simp add: Let_def)

text \<open>One module on top of a chain that is a source.\<close>

lemma chain_read_step:
  assumes S: "\<And>h. ts_source (chain_read cur k (mi_next nd)) (chain_inv h (mi_next nd) as)"
    and inv: "chain_inv h0 p (a # as) (h, w)" and nd: "h a = Some nd" and ne: "as \<noteq> []"
    and nr: "0 \<le> nr" "nr \<le> int (length buf)"
  shows "read_ok (chain_inv h0 p (a # as)) nr buf (chain_read cur (Suc k) p (h, w) buf nr)"
proof -
  have p: "p = Some a" using inv by (simp add: chain_inv_def)
  note below = chain_inv_tail [of h0 p a as h w nd, OF inv nd ne]
  note put = chain_inv_head [of h0 p a as h w nd, OF inv nd]
  show ?thesis
  proof (cases "mi_mod nd")
    case (MPthres m)
    have "read_ok (\<lambda>((m, h'), w). chain_inv h (mi_next nd) as (h', w)) nr buf
        (pthres_read (chain_read cur k (mi_next nd)) ((m, h), w) buf nr)"
      by (rule ts_source.rd_ok [OF ts_source.pthres_source [OF S]]) (use below nr in simp_all)
    then show ?thesis
      unfolding p chain_read_Some [of h a, OF nd] MPthres tsmod.case by (rule store_ok) (use put p in auto)
  next
    case (MDejitter m)
    have "read_ok (\<lambda>((d, h'), w). dejitter_inv d \<and> chain_inv h (mi_next nd) as (h', w)) nr buf
        (dejitter_read (chain_read cur k (mi_next nd)) ((m, h), w) buf nr)"
      by (rule ts_source.rd_ok [OF ts_source.dejitter_source [OF S]]) (use below nr MDejitter in simp_all)
    then show ?thesis
      unfolding p chain_read_Some [of h a, OF nd] MDejitter tsmod.case by (rule store_ok) (use put p in auto)
  next
    case (MVariance m)
    have "read_ok (\<lambda>((v, h'), w). chain_inv h (mi_next nd) as (h', w)) nr buf
        (variance_read cur (chain_read cur k (mi_next nd)) ((m, h), w) buf nr)"
      by (rule ts_source.rd_ok [OF ts_source.variance_source [OF S]]) (use below nr in simp_all)
    then show ?thesis
      unfolding p chain_read_Some [of h a, OF nd] MVariance tsmod.case by (rule store_ok) (use put p in auto)
  next
    case (MLinear m)
    have "read_ok (\<lambda>((l, h'), w). linear_wf l \<and> chain_inv h (mi_next nd) as (h', w)) nr buf
        (linear_read (chain_read cur k (mi_next nd)) ((m, h), w) buf nr)"
      by (rule ts_source.rd_ok [OF ts_source.linear_source [OF S]]) (use below nr MLinear in simp_all)
    then show ?thesis
      unfolding p chain_read_Some [of h a, OF nd] MLinear tsmod.case by (rule store_ok) (use put p in auto)
  next
    case MLinearH2200
    have "read_ok (chain_inv h (mi_next nd) as) nr buf (linear_h2200_read (chain_read cur k (mi_next nd)) (h, w) buf nr)"
      by (rule ts_source.rd_ok [OF ts_source.linear_h2200_source [OF S]]) (use below nr in simp_all)
    then show ?thesis
      unfolding p chain_read_Some [of h a, OF nd] MLinearH2200 tsmod.case
      using chain_inv_h2200 [of h0 p a as h w nd, OF inv nd _ MLinearH2200] p by (auto simp: read_ok_def split: sum.splits)
  next
    case (MInput m)
    show ?thesis
      unfolding p chain_read_Some [of h a, OF nd] MInput tsmod.case
      by (rule input_ok [OF nr]) (use put [of h, OF chain_inv_pthres [OF below(1)]] p in auto)
  qed
qed

lemma chain_source:
  assumes "as \<noteq> []" "length as \<le> k"
  shows "ts_source (chain_read cur k p) (chain_inv h0 p as)"
  using assms
proof (induction as arbitrary: k p h0)
  case (Cons a as)
  then obtain k' where k: "k = Suc k'" "length as \<le> k'" by (cases k) auto
  show ?case
  proof (unfold_locales, goal_cases)
    case (1 s nr buf)
    obtain h w where s: "s = (h, w)" by (cases s)
    with 1 obtain nd where nd: "h a = Some nd" and p: "p = Some a"
      by (auto simp: chain_inv_def split: option.splits)
    show ?case
    proof (cases "as = []")
      case False
      have "ts_source (chain_read cur k' (mi_next nd)) (chain_inv h' (mi_next nd) as)" for h'
        by (rule Cons.IH [OF False k(2)])
      from chain_read_step [of cur k' nd as h0 p a h w nr buf, OF this 1(1) [unfolded s] nd False 1(2,3)] show ?thesis by (simp only: k s)
    next
      case True
      with 1 s nd obtain m where m: "mi_mod nd = MInput m"
        by (cases "mi_mod nd") (auto simp: chain_inv_def)
      show ?thesis
        unfolding s k p chain_read_Some [of h a, OF nd] m tsmod.case
        by (rule input_ok [OF 1(2,3)]) (use 1(1) nd in \<open>auto simp: s p True chain_inv_def\<close>)
    qed
  next
    case (2 h w st)
    then show ?case by (rule chain_inv_pthres)
  qed
qed simp


subsection \<open>Properties\<close>

text \<open>
  C7: reading a configured device is safe. If the device's list leads through distinct
  modules down to an input module, with each module's own invariant, then \<open>ts_read\<close>
  returns without a fault: at most \<open>nr\<close> samples, nothing written behind the first \<open>nr\<close>
  places of the caller's array, no block outside the chain changed, and the chain as it was,
  so that the next call is safe as well. The call depth is the length of the chain.
\<close>

theorem ts_read_safe:
  assumes "chain_inv h0 p as (h, w)" "length as \<le> depth" "0 \<le> nr" "nr \<le> int (length samp)"
  shows "\<exists>ret samp' h' w'. ts_read cur depth p (h, w) samp nr = Inr (ret, samp', (h', w')) \<and>
    ret \<le> nr \<and> length samp' = length samp \<and> drop (nat nr) samp' = drop (nat nr) samp \<and> chain_inv h0 p as (h', w')"
proof -
  have "as \<noteq> []" using assms(1) by (auto simp: chain_inv_def)
  have "read_ok (chain_inv h0 p as) nr samp (chain_read cur depth p (h, w) samp nr)"
    by (rule ts_source.rd_ok [OF chain_source [OF \<open>as \<noteq> []\<close> assms(2)] assms(1,3,4)])
  then show ?thesis unfolding ts_read_def by (rule read_okE) blast
qed

theorem ts_read_safe_witness:
  "\<exists>ret samp' h' w'. ts_read (smp 0 0 0) 2 (Some 1)
      ([0 \<mapsto> \<lparr>mi_next = None, mi_handle = None, mi_mod = MInput input0\<rparr>,
        1 \<mapsto> \<lparr>mi_next = Some 0, mi_handle = None, mi_mod = MPthres \<lparr>pmin = 1, pmax = 255\<rparr>\<rparr>], world0) [smp 1 1 1] 1 =
     Inr (ret, samp', (h', w')) \<and> ret \<le> 1 \<and> length samp' = 1"
proof -
  let ?h = "[0 \<mapsto> \<lparr>mi_next = None, mi_handle = None, mi_mod = MInput input0\<rparr>,
        1 \<mapsto> \<lparr>mi_next = Some 0, mi_handle = None, mi_mod = MPthres \<lparr>pmin = 1, pmax = 255\<rparr>\<rparr>] :: heap"
  have "chain_inv ?h (Some 1) [1, 0] (?h, world0)" by (simp add: chain_inv_def)
  from ts_read_safe [OF this, of 2 1 "[smp 1 1 1]" "smp 0 0 0"] show ?thesis by auto
qed

end
