(* ===== verification/TsConfig.thy ===== *)
theory TsConfig
  imports TsChain "HOL-Library.Multiset"
begin

text \<open>
  Setting up and closing a device: src/tslib-1.1/src/ts_open.c, ts_attach.c,
  ts_load_module.c, ts_config.c, ts_option.c, ts_fd.c and ts_close.c. The lists of modules are
  pointer structures on the heap of theory TsChain.

  What these files take from outside is a record: the table of modules linked statically (it
  depends on the build), the dynamic loader, the environment variables and the file system.
\<close>

type_synonym mod_init = "string option \<Rightarrow> int \<Rightarrow> fault + (tsmod option \<times> int)"

record ts_env =
  env_static :: "(string \<times> mod_init) list"
  env_plugindir :: "string option"
  env_PLUGIN_DIR :: string
  env_dlopen :: "string \<Rightarrow> nat option"
  env_dlsym :: "nat \<Rightarrow> mod_init option"
  env_conffile :: "string option"
  env_TS_CONF :: string
  env_fopen :: "string \<Rightarrow> string option"

text \<open>
  The device with its two list pointers, the heap of module blocks and the address of the next
  block, the handles \<open>dlopen\<close> has given out and \<open>dlclose\<close> has not taken back, and
  \<open>errno\<close>.
\<close>

record ts_state =
  st_dev :: tsdev
  st_list :: "nat option"
  st_list_raw :: "nat option"
  st_heap :: heap
  st_brk :: nat
  st_handles :: "nat list"
  st_errno :: int

definition dlclose :: "nat option \<Rightarrow> ts_state \<Rightarrow> ts_state" where
  "dlclose hnd st = (case hnd of None \<Rightarrow> st | Some k \<Rightarrow> st\<lparr>st_handles := remove1 k (st_handles st)\<rparr>)"

text \<open>The module at \<open>a\<close> gets a new \<open>next\<close>; writing through NULL faults.\<close>

definition set_next :: "heap \<Rightarrow> nat option \<Rightarrow> nat option \<Rightarrow> fault + heap" where
  "set_next h p q =
     (case p of
        None \<Rightarrow> Inl NullDeref
      | Some a \<Rightarrow> (case h a of None \<Rightarrow> Inl WildPointer | Some nd \<Rightarrow> Inr (h(a \<mapsto> nd\<lparr>mi_next := q\<rparr>))))"

subsection \<open>Attaching\<close>

definition ts_attach :: "ts_state \<Rightarrow> nat \<Rightarrow> fault + (int \<times> ts_state)" where
  "ts_attach st info =
     (case set_next (st_heap st) (Some info) (st_list st) of
        Inl e \<Rightarrow> Inl e
      | Inr h \<Rightarrow> Inr (0, st\<lparr>st_heap := h, st_list := Some info\<rparr>))"

text \<open>
  The search loop of \<open>__ts_attach_raw\<close>. Its increment sets \<open>next\<close> to \<open>prev->next\<close> and then
  \<open>prev\<close> to the new \<open>next\<close>, so the two are always the same; the result is \<open>prev\<close>.
\<close>

fun attach_raw_loop :: "nat \<Rightarrow> heap \<Rightarrow> nat option \<Rightarrow> nat option \<Rightarrow> nat option \<Rightarrow> fault + nat option" where
  "attach_raw_loop fuel h nxt prev prev_list =
     (if nxt \<noteq> None \<and> nxt \<noteq> prev_list then
        (case fuel of
           0 \<Rightarrow> Inl StackOverflow
         | Suc n \<Rightarrow>
             (case prev of
                None \<Rightarrow> Inl NullDeref
              | Some a \<Rightarrow>
                  (case h a of
                     None \<Rightarrow> Inl WildPointer
                   | Some nd \<Rightarrow> attach_raw_loop n h (mi_next nd) (mi_next nd) prev_list)))
      else Inr prev)"

definition ts_attach_raw :: "ts_state \<Rightarrow> nat \<Rightarrow> fault + (int \<times> ts_state)" where
  "ts_attach_raw st info =
     (let prev_list = st_list_raw st in
      case set_next (st_heap st) (Some info) prev_list of
        Inl e \<Rightarrow> Inl e
      | Inr h \<Rightarrow>
          (let st1 = st\<lparr>st_heap := h, st_list_raw := Some info\<rparr> in
           if st_list st1 = None \<or> st_list st1 = prev_list then Inr (0, st1\<lparr>st_list := Some info\<rparr>)
           else
             (case attach_raw_loop (st_brk st1) h (st_list st1) (st_list st1) prev_list of
                Inl e \<Rightarrow> Inl e
              | Inr prev \<Rightarrow>
                  (case set_next h prev (Some info) of
                     Inl e \<Rightarrow> Inl e
                   | Inr h' \<Rightarrow> Inr (0, st1\<lparr>st_heap := h'\<rparr>)))))"

subsection \<open>Loading\<close>

text \<open>
  The block a successful \<open>mod_init\<close> returns: \<open>dev\<close> is left out, \<open>next\<close> is set by the
  attach functions before anything reads it.
\<close>

definition alloc :: "ts_state \<Rightarrow> tsmod \<Rightarrow> nat option \<Rightarrow> nat \<times> ts_state" where
  "alloc st m hnd =
     (st_brk st, st\<lparr>st_heap := (st_heap st)(st_brk st \<mapsto> \<lparr>mi_next = None, mi_handle = hnd, mi_mod = m\<rparr>),
                   st_brk := st_brk st + 1\<rparr>)"

definition ts_load_module_static ::
  "ts_env \<Rightarrow> ts_state \<Rightarrow> string \<Rightarrow> string option \<Rightarrow> fault + (nat option \<times> ts_state)" where
  "ts_load_module_static env st name params =
     (case map_of (env_static env) name of
        None \<Rightarrow> Inr (None, st)
      | Some init \<Rightarrow>
          (case init params (st_errno st) of
             Inl e \<Rightarrow> Inl e
           | Inr (None, errno') \<Rightarrow> Inr (None, st\<lparr>st_errno := errno'\<rparr>)
           | Inr (Some m, errno') \<Rightarrow>
               (case alloc (st\<lparr>st_errno := errno'\<rparr>) m None of (a, st') \<Rightarrow> Inr (Some a, st'))))"

text \<open>\<open>snprintf\<close> keeps 1023 characters of the file name.\<close>

definition ts_load_module_shared ::
  "ts_env \<Rightarrow> ts_state \<Rightarrow> string \<Rightarrow> string option \<Rightarrow> fault + (nat option \<times> ts_state)" where
  "ts_load_module_shared env st name params =
     (let dir = (case env_plugindir env of None \<Rightarrow> env_PLUGIN_DIR env | Some d \<Rightarrow> d);
          fn = take 1023 (dir @ ''/'' @ name @ ''.so'')
      in
        case env_dlopen env fn of
          None \<Rightarrow> Inr (None, st)
        | Some k \<Rightarrow>
            (let st1 = st\<lparr>st_handles := k # st_handles st\<rparr> in
             case env_dlsym env k of
               None \<Rightarrow> Inr (None, dlclose (Some k) st1)
             | Some init \<Rightarrow>
                 (case init params (st_errno st1) of
                    Inl e \<Rightarrow> Inl e
                  | Inr (None, errno') \<Rightarrow> Inr (None, dlclose (Some k) (st1\<lparr>st_errno := errno'\<rparr>))
                  | Inr (Some m, errno') \<Rightarrow>
                      (case alloc (st1\<lparr>st_errno := errno'\<rparr>) m (Some k) of (a, st') \<Rightarrow> Inr (Some a, st')))))"

text \<open>\<open>fini\<close> frees the block; for the input module it also releases the device.\<close>

definition mod_fini :: "ts_state \<Rightarrow> nat \<Rightarrow> ts_state" where
  "mod_fini st a = st\<lparr>st_heap := (st_heap st)(a := None)\<rparr>"

definition load_module ::
  "ts_env \<Rightarrow> ts_state \<Rightarrow> string \<Rightarrow> string option \<Rightarrow> bool \<Rightarrow> fault + (int \<times> ts_state)" where
  "load_module env st name params raw =
     (case ts_load_module_static env st name params of
        Inl e \<Rightarrow> Inl e
      | Inr (info0, st0) \<Rightarrow>
          (case (if info0 = None then ts_load_module_shared env st0 name params else Inr (info0, st0)) of
             Inl e \<Rightarrow> Inl e
           | Inr (None, st1) \<Rightarrow> Inr (-1, st1)
           | Inr (Some info, st1) \<Rightarrow>
               (case (if raw then ts_attach_raw st1 info else ts_attach st1 info) of
                  Inl e \<Rightarrow> Inl e
                | Inr (ret, st2) \<Rightarrow>
                    if ret \<noteq> 0 then
                      (case st_heap st2 info of
                         None \<Rightarrow> Inl WildPointer
                       | Some nd \<Rightarrow> Inr (ret, dlclose (mi_handle nd) (mod_fini st2 info)))
                    else Inr (ret, st2))))"

definition ts_load_module :: "ts_env \<Rightarrow> ts_state \<Rightarrow> string \<Rightarrow> string option \<Rightarrow> fault + (int \<times> ts_state)" where
  "ts_load_module env st name params = load_module env st name params False"

definition ts_load_module_raw :: "ts_env \<Rightarrow> ts_state \<Rightarrow> string \<Rightarrow> string option \<Rightarrow> fault + (int \<times> ts_state)" where
  "ts_load_module_raw env st name params = load_module env st name params True"


subsection \<open>The configuration file\<close>

text \<open>
  \<open>fgets(buf, 512, f)\<close> on the rest of the file (text without NUL characters): up to 511
  characters, ending after a newline.
\<close>

fun fgets :: "nat \<Rightarrow> string \<Rightarrow> string \<times> string" where
  "fgets 0 s = ([], s)"
| "fgets (Suc n) [] = ([], [])"
| "fgets (Suc n) (c # s) = (if c = CHR 0x0A then ([c], s) else case fgets n s of (l, r) \<Rightarrow> (c # l, r))"

lemma fgets_shorter: "fgets (Suc n) (c # s) = (l, r) \<Longrightarrow> length r \<le> length s"
proof -
  have "length (snd (fgets n s)) \<le> length s" for n s
    by (induction n s rule: fgets.induct) (auto split: prod.splits)
  then show "fgets (Suc n) (c # s) = (l, r) \<Longrightarrow> length r \<le> length s"
    by (auto split: if_splits prod.splits) (metis snd_conv)
qed

text \<open>The newline at the end is overwritten by NUL.\<close>

definition chomp :: "string \<Rightarrow> string" where
  "chomp l = takeWhile (\<lambda>c. c \<noteq> CHR 0x0A) l"

text \<open>\<open>discard_null_tokens(&p, &tok)\<close>.\<close>

function discard_null_tokens :: "string option \<Rightarrow> string \<Rightarrow> string option \<times> string" where
  "discard_null_tokens p tok =
     (case p of
        None \<Rightarrow> (None, tok)
      | Some s \<Rightarrow>
          if tok = [] then (case strsep [CHR '' '', CHR 0x09] s of (tok', p') \<Rightarrow> discard_null_tokens p' tok')
          else (p, tok))"
  by pat_completeness auto
termination
  by (relation "measure (\<lambda>(p, tok). case p of None \<Rightarrow> 0 | Some s \<Rightarrow> Suc (length s))")
    (auto split: option.splits dest: strsep_rest_shorter sym)

declare discard_null_tokens.simps [simp del]

text \<open>\<open>tok = strsep(&p, " \t"); discard_null_tokens(&p, &tok);\<close>\<close>

definition next_token :: "string \<Rightarrow> string option \<times> string" where
  "next_token s = (case strsep [CHR '' '', CHR 0x09] s of (tok, p) \<Rightarrow> discard_null_tokens p tok)"

text \<open>
  One line. \<open>LineSkip\<close> is \<open>continue\<close> before anything is loaded, \<open>LineLoaded\<close> carries the result
  of the load function. For an option it does not know, the code passes the three values
  \<open>conffile\<close>, \<open>line\<close> and \<open>tok\<close> to a format with four conversions, of which the second,
  a \<open>%s\<close>, gets the line number as a pointer.
\<close>

datatype line_result = LineSkip | LineLoaded int ts_state

definition config_line :: "ts_env \<Rightarrow> ts_state \<Rightarrow> string \<Rightarrow> fault + line_result" where
  "config_line env st buf =
     (case next_token buf of
        (None, tok) \<Rightarrow> Inr LineSkip
      | (Some p, tok) \<Rightarrow>
          if tok \<noteq> [] \<and> hd tok = CHR ''#'' then Inr LineSkip
          else if strcasecmp_eq tok ''module'' then
            (case next_token p of (params, module_name) \<Rightarrow>
               case ts_load_module env st module_name params of
                 Inl e \<Rightarrow> Inl e
               | Inr (ret, st') \<Rightarrow> Inr (LineLoaded ret st'))
          else if strcasecmp_eq tok ''module_raw'' then
            (case next_token p of (params, module_name) \<Rightarrow>
               case ts_load_module_raw env st module_name params of
                 Inl e \<Rightarrow> Inl e
               | Inr (ret, st') \<Rightarrow> Inr (LineLoaded ret st'))
          else Inl WildPointer)"

text \<open>
  The \<open>while\<close> loop over the file. \<open>buf[510]\<close> is NUL before the loop and after every line of
  at most 510 characters, and holds a character after a longer one, which ends the loop.
\<close>

function config_loop :: "ts_env \<Rightarrow> ts_state \<Rightarrow> int \<Rightarrow> string \<Rightarrow> fault + (int \<times> ts_state)" where
  "config_loop env st ret conf =
     (case conf of
        [] \<Rightarrow> Inr (ret, st)
      | c # cs \<Rightarrow>
          (case fgets 511 conf of (piece, rest) \<Rightarrow>
             if 510 < length (chomp piece) then Inr (ret, st)
             else
               (case config_line env st (chomp piece) of
                  Inl e \<Rightarrow> Inl e
                | Inr LineSkip \<Rightarrow> config_loop env st ret rest
                | Inr (LineLoaded ret' st') \<Rightarrow>
                    if ret' \<noteq> 0 then Inr (ret', st') else config_loop env st' ret' rest)))"
  by pat_completeness auto
termination
proof (relation "measure (\<lambda>(env, st, ret, conf). length conf)", goal_cases)
  case 1
  then show ?case by simp
next
  case (2 env st ret conf c cs piece rest)
  then show ?case using fgets_shorter [of 510 c cs] by (auto simp: numeral_eq_Suc dest: sym)
next
  case (3 env st ret conf c cs piece rest)
  then show ?case using fgets_shorter [of 510 c cs] by (auto simp: numeral_eq_Suc dest: sym)
qed

declare config_loop.simps [simp del]

definition ts_config :: "ts_env \<Rightarrow> ts_state \<Rightarrow> fault + (int \<times> ts_state)" where
  "ts_config env st =
     (let conffile = (case env_conffile env of None \<Rightarrow> env_TS_CONF env | Some f \<Rightarrow> f) in
      case env_fopen env conffile of
        None \<Rightarrow> Inr (-1, st)
      | Some txt \<Rightarrow>
          (case config_loop env st 0 txt of
             Inl e \<Rightarrow> Inl e
           | Inr (ret, st') \<Rightarrow> Inr (if st_list_raw st' = None then -1 else ret, st')))"

subsection \<open>Opening, options and closing\<close>

text \<open>
  \<open>open(2)\<close> is a parameter: the descriptor, -1 with the \<open>errno\<close> when it fails. The flags
  are those of the kernel.
\<close>

definition O_RDONLY :: int where "O_RDONLY = 0"
definition O_RDWR :: int where "O_RDWR = 2"
definition O_NONBLOCK :: int where "O_NONBLOCK = 2048"
definition EACCES :: int where "EACCES = 13"

definition ts_open ::
  "(string \<Rightarrow> int \<Rightarrow> int \<times> int) \<Rightarrow> bool \<Rightarrow> string \<Rightarrow> bool \<Rightarrow> int \<Rightarrow> ts_state option \<times> int" where
  "ts_open openf malloc_ok name nonblock errno =
     (if \<not> malloc_ok then (None, errno)
      else
        (let flags = (if nonblock then O_RDWR OR O_NONBLOCK else O_RDWR);
             (fd1, errno1) = (case openf name flags of (fd, e) \<Rightarrow> (fd, if fd = -1 then e else errno));
             (fd2, errno2) =
               (if fd1 = -1 \<and> errno1 = EACCES then
                  (case openf name (if nonblock then O_RDONLY OR O_NONBLOCK else O_RDONLY) of
                     (fd, e) \<Rightarrow> (fd, if fd = -1 then e else errno1))
                else (fd1, errno1))
         in
           if fd2 = -1 then (None, errno2)
           else
             (Some \<lparr>st_dev = \<lparr>dev_fd = fd2, dev_res_x = 0, dev_res_y = 0, dev_rotation = 0\<rparr>,
                    st_list = None, st_list_raw = None, st_heap = Map.empty, st_brk = 0, st_handles = [],
                    st_errno = errno2\<rparr>, errno2)))"

datatype ts_param = TS_SCREEN_RES "32 word" "32 word" | TS_SCREEN_ROT int

fun ts_option :: "tsdev \<Rightarrow> ts_param \<Rightarrow> tsdev \<times> int" where
  "ts_option ts (TS_SCREEN_RES u v) = (ts\<lparr>dev_res_x := u, dev_res_y := v\<rparr>, 0)"
| "ts_option ts (TS_SCREEN_ROT r) = (ts\<lparr>dev_rotation := r\<rparr>, 0)"

definition ts_fd :: "tsdev \<Rightarrow> int" where
  "ts_fd ts = dev_fd ts"

text \<open>
  The loop of \<open>ts_close\<close>. Every round frees one of the \<open>st_brk\<close> blocks allocated so far, so
  \<open>st_brk\<close> rounds and one more to come upon a freed block are enough.
\<close>

fun close_loop :: "nat \<Rightarrow> ts_state \<Rightarrow> nat option \<Rightarrow> fault + ts_state" where
  "close_loop fuel st info =
     (case info of
        None \<Rightarrow> Inr st
      | Some a \<Rightarrow>
          (case fuel of
             0 \<Rightarrow> Inl StackOverflow
           | Suc n \<Rightarrow>
               (case st_heap st a of
                  None \<Rightarrow> Inl WildPointer
                | Some nd \<Rightarrow> close_loop n (dlclose (mi_handle nd) (mod_fini st a)) (mi_next nd))))"

declare close_loop.simps [simp del]

definition ts_close :: "(int \<Rightarrow> int) \<Rightarrow> ts_state \<Rightarrow> fault + (int \<times> ts_state)" where
  "ts_close closef st =
     (case close_loop (st_brk st + 1) st (st_list st) of
        Inl e \<Rightarrow> Inl e
      | Inr st' \<Rightarrow> Inr (closef (dev_fd (st_dev st')), st'))"


text \<open>
  The table of a build that links the modules of this development statically. The memory
  \<open>malloc\<close> hands out for \<open>variance\<close> and \<open>linear\<close>, the environment variable and the file
  system \<open>linear_mod_init\<close> looks at are arguments.
\<close>

definition module_result :: "('m \<Rightarrow> tsmod) \<Rightarrow> fault + ('m option \<times> int) \<Rightarrow> fault + (tsmod option \<times> int)" where
  "module_result wrap r = (case r of Inl e \<Rightarrow> Inl e | Inr (m, errno) \<Rightarrow> Inr (map_option wrap m, errno))"

definition tslib_modules ::
  "tslib_variance \<Rightarrow> tslib_linear \<Rightarrow> string option \<Rightarrow> (string \<Rightarrow> string option option) \<Rightarrow> (string \<times> mod_init) list" where
  "tslib_modules var_mem lin_mem calibfile fs =
     [(''dejitter'', \<lambda>p e. module_result MDejitter (dejitter_mod_init True p e)),
      (''input'', \<lambda>p e. module_result MInput (input_mod_init True p e)),
      (''linear'', \<lambda>p e. module_result MLinear (linear_mod_init (Some lin_mem) calibfile fs p e)),
      (''linear_h2200'', \<lambda>p e. Inr (map_option (\<lambda>_. MLinearH2200) (linear_h2200_mod_init True), e)),
      (''pthres'', \<lambda>p e. module_result MPthres (pthres_mod_init True p e)),
      (''variance'', \<lambda>p e. module_result MVariance (variance_mod_init (Some var_mem) p e))]"

subsection \<open>A device under construction\<close>

definition block_handles :: "heap \<Rightarrow> nat list \<Rightarrow> nat list" where
  "block_handles h as = concat (map (\<lambda>a. case mi_handle (the (h a)) of None \<Rightarrow> [] | Some k \<Rightarrow> [k]) as)"

text \<open>
  The list runs through the filters \<open>fs\<close> and then the raw modules \<open>rs\<close>, where \<open>list_raw\<close>
  points; all blocks have been allocated, and the open handles are those of the blocks.
\<close>

definition dev_wf :: "ts_state \<Rightarrow> nat list \<Rightarrow> nat list \<Rightarrow> bool" where
  "dev_wf st fs rs \<longleftrightarrow>
     is_chain (st_heap st) (st_list st) (fs @ rs) \<and> is_chain (st_heap st) (st_list_raw st) rs \<and>
     (\<forall>a \<in> set (fs @ rs). a < st_brk st) \<and>
     mset (st_handles st) = mset (block_handles (st_heap st) (fs @ rs))"

text \<open>The module a name and its parameters stand for, and the handle it comes with.\<close>

definition inits :: "ts_env \<Rightarrow> string \<Rightarrow> string option \<Rightarrow> tsmod \<Rightarrow> nat option \<Rightarrow> bool" where
  "inits env name params m hnd \<longleftrightarrow>
     (case map_of (env_static env) name of
        Some init \<Rightarrow> (\<forall>e. init params e = Inr (Some m, e)) \<and> hnd = None
      | None \<Rightarrow>
          (case env_dlopen env
                  (take 1023 ((case env_plugindir env of None \<Rightarrow> env_PLUGIN_DIR env | Some d \<Rightarrow> d) @ ''/'' @ name @ ''.so'')) of
             None \<Rightarrow> False
           | Some k \<Rightarrow>
               (case env_dlsym env k of
                  None \<Rightarrow> False
                | Some init \<Rightarrow> (\<forall>e. init params e = Inr (Some m, e)) \<and> hnd = Some k)))"

lemma is_chain_distinct: "is_chain h p as \<Longrightarrow> distinct as"
  by (induction as arbitrary: p) (auto split: option.splits)

lemma is_chain_dom: "is_chain h p as \<Longrightarrow> a \<in> set as \<Longrightarrow> h a \<noteq> None"
  by (induction as arbitrary: p) (auto split: option.splits)

lemma is_chain_app: "is_chain h p (as @ bs) \<Longrightarrow> \<exists>q. is_chain h q bs"
  by (induction as arbitrary: p) (auto split: option.splits)

lemma block_handles_cong: "(\<And>b. b \<in> set as \<Longrightarrow> h b = h' b) \<Longrightarrow> block_handles h as = block_handles h' as"
  unfolding block_handles_def by (intro arg_cong [of _ _ concat] map_cong) auto

lemma block_handles_Cons: "block_handles h (a # as) =
    (case mi_handle (the (h a)) of None \<Rightarrow> [] | Some k \<Rightarrow> [k]) @ block_handles h as"
  by (simp add: block_handles_def)

text \<open>The block a load function has just made, in front of a list that does not contain it.\<close>

lemma is_chain_push:
  assumes "is_chain h p as" "\<forall>a \<in> set as. a < b"
  shows "is_chain (h(b \<mapsto> nd\<lparr>mi_next := p\<rparr>)) (Some b) (b # as)"
proof -
  have "is_chain (h(b \<mapsto> nd\<lparr>mi_next := p\<rparr>)) p as = is_chain h p as"
    by (rule is_chain_cong) (use assms(2) in auto)
  with assms show ?thesis by auto
qed

definition loaded :: "ts_state \<Rightarrow> tsmod \<Rightarrow> nat option \<Rightarrow> ts_state" where
  "loaded st m hnd = st\<lparr>st_handles := (case hnd of None \<Rightarrow> [] | Some k \<Rightarrow> [k]) @ st_handles st,
     st_heap := (st_heap st)(st_brk st \<mapsto> \<lparr>mi_next = None, mi_handle = hnd, mi_mod = m\<rparr>),
     st_brk := st_brk st + 1\<rparr>"

lemma load_module_attach:
  assumes "inits env name params m hnd"
    and "(if raw then ts_attach_raw (loaded st m hnd) (st_brk st) else ts_attach (loaded st m hnd) (st_brk st)) = Inr (0, st')"
  shows "load_module env st name params raw = Inr (0, st')"
  using assms
  by (auto simp: inits_def load_module_def ts_load_module_static_def ts_load_module_shared_def alloc_def loaded_def Let_def
      split: option.splits)

lemma ts_attach_loaded:
  assumes "dev_wf st fs rs"
  shows "\<exists>st'. ts_attach (loaded st m hnd) (st_brk st) = Inr (0, st') \<and> dev_wf st' (st_brk st # fs) rs \<and>
    mods (st_heap st') (st_brk st # fs @ rs) = m # mods (st_heap st) (fs @ rs) \<and> st_list_raw st' = st_list_raw st"
proof -
  let ?b = "st_brk st" and ?nd = "\<lparr>mi_next = None, mi_handle = hnd, mi_mod = m\<rparr>"
  let ?h = "(st_heap st)(?b \<mapsto> ?nd\<lparr>mi_next := st_list st\<rparr>)"
  let ?st = "(loaded st m hnd)\<lparr>st_heap := ?h, st_list := Some ?b\<rparr>"
  have wf: "is_chain (st_heap st) (st_list st) (fs @ rs)" "is_chain (st_heap st) (st_list_raw st) rs"
    "\<forall>a \<in> set (fs @ rs). a < ?b" "mset (st_handles st) = mset (block_handles (st_heap st) (fs @ rs))"
    using assms by (simp_all add: dev_wf_def)
  have "ts_attach (loaded st m hnd) ?b = Inr (0, ?st)" by (simp add: ts_attach_def set_next_def loaded_def)
  moreover have "is_chain ?h (Some ?b) (?b # fs @ rs)" by (rule is_chain_push [OF wf(1,3)])
  moreover have "is_chain ?h (st_list_raw st) rs = is_chain (st_heap st) (st_list_raw st) rs"
    by (rule is_chain_cong) (use wf(3) in auto)
  moreover have "block_handles ?h (fs @ rs) = block_handles (st_heap st) (fs @ rs)"
    by (rule block_handles_cong) (use wf(3) in auto)
  moreover have "mods ?h (fs @ rs) = mods (st_heap st) (fs @ rs)"
    by (rule mods_cong) (use wf(3) in auto)
  ultimately show ?thesis
    using wf by (intro exI [of _ ?st]) (auto simp: dev_wf_def block_handles_Cons loaded_def less_Suc_eq split: option.splits)
qed

lemma ts_attach_raw_loaded:
  assumes "dev_wf st [] rs"
  shows "\<exists>st'. ts_attach_raw (loaded st m hnd) (st_brk st) = Inr (0, st') \<and> dev_wf st' [] (st_brk st # rs) \<and>
    mods (st_heap st') (st_brk st # rs) = m # mods (st_heap st) rs \<and> st_list_raw st' = Some (st_brk st)"
proof -
  let ?b = "st_brk st" and ?nd = "\<lparr>mi_next = None, mi_handle = hnd, mi_mod = m\<rparr>"
  let ?h = "(st_heap st)(?b \<mapsto> ?nd\<lparr>mi_next := st_list_raw st\<rparr>)"
  let ?st = "(loaded st m hnd)\<lparr>st_heap := ?h, st_list_raw := Some ?b, st_list := Some ?b\<rparr>"
  have wf: "is_chain (st_heap st) (st_list st) rs" "is_chain (st_heap st) (st_list_raw st) rs"
    "\<forall>a \<in> set rs. a < ?b" "mset (st_handles st) = mset (block_handles (st_heap st) rs)"
    using assms by (simp_all add: dev_wf_def)
  have "st_list st = st_list_raw st" using wf(1,2) by (cases rs) auto
  then have "ts_attach_raw (loaded st m hnd) ?b = Inr (0, ?st)"
    by (simp add: ts_attach_raw_def set_next_def loaded_def Let_def)
  moreover have "is_chain ?h (Some ?b) (?b # rs)" by (rule is_chain_push [OF wf(2,3)])
  moreover have "block_handles ?h rs = block_handles (st_heap st) rs"
    by (rule block_handles_cong) (use wf(3) in auto)
  moreover have "mods ?h rs = mods (st_heap st) rs"
    by (rule mods_cong) (use wf(3) in auto)
  ultimately show ?thesis
    using wf by (intro exI [of _ ?st]) (auto simp: dev_wf_def block_handles_Cons loaded_def less_Suc_eq split: option.splits)
qed


subsection \<open>Lines of the configuration file\<close>

definition plain_word :: "string \<Rightarrow> bool" where
  "plain_word s \<longleftrightarrow> s \<noteq> [] \<and> CHR '' '' \<notin> set s \<and> CHR 0x09 \<notin> set s \<and> CHR 0x0A \<notin> set s"

type_synonym conf_entry = "string \<times> string option"

definition conf_line :: "string \<Rightarrow> conf_entry \<Rightarrow> string" where
  "conf_line kw e = kw @ CHR '' '' # fst e @ (case snd e of None \<Rightarrow> [] | Some p \<Rightarrow> CHR '' '' # p)"

definition entry_ok :: "string \<Rightarrow> conf_entry \<Rightarrow> bool" where
  "entry_ok kw e \<longleftrightarrow> plain_word (fst e) \<and> (case snd e of None \<Rightarrow> True | Some p \<Rightarrow> CHR 0x0A \<notin> set p) \<and>
     length (conf_line kw e) \<le> 510"

lemma next_token_word:
  assumes "plain_word w"
  shows "next_token (w @ CHR '' '' # r) = (Some r, w)" "next_token w = (None, w)"
proof -
  have "strsep [CHR '' '', CHR 0x09] (w @ CHR '' '' # r) = (w, Some r)"
    by (rule strsep_found) (use assms in \<open>auto simp: plain_word_def\<close>)
  moreover have "strsep [CHR '' '', CHR 0x09] w = (w, None)"
    by (rule strsep_last) (use assms in \<open>auto simp: plain_word_def\<close>)
  ultimately show "next_token (w @ CHR '' '' # r) = (Some r, w)" "next_token w = (None, w)"
    using assms by (simp_all add: next_token_def discard_null_tokens.simps plain_word_def)
qed

lemma fgets_line:
  "CHR 0x0A \<notin> set l \<Longrightarrow> length l < n \<Longrightarrow> fgets n (l @ CHR 0x0A # r) = (l @ [CHR 0x0A], r)"
proof (induction l arbitrary: n)
  case Nil
  then show ?case by (cases n) auto
next
  case (Cons c l)
  then show ?case by (cases n) auto
qed

lemma chomp_line: "CHR 0x0A \<notin> set l \<Longrightarrow> chomp (l @ [CHR 0x0A]) = l"
  by (induction l) (auto simp: chomp_def)

lemma plain_keywords: "plain_word ''module''" "plain_word ''module_raw''"
  by (simp_all add: plain_word_def)

lemma keyword_cases:
  "strcasecmp_eq ''module_raw'' ''module'' = False" "strcasecmp_eq ''module'' ''module''" "strcasecmp_eq ''module_raw'' ''module_raw''"
  by (simp_all add: strcasecmp_eq_def)

lemma config_line_module:
  assumes "entry_ok ''module'' e" "ts_load_module env st (fst e) (snd e) = Inr (ret, st')"
  shows "config_line env st (conf_line ''module'' e) = Inr (LineLoaded ret st')"
  using assms next_token_word(1) [OF plain_keywords(1)]
    next_token_word [of "fst e"]
  by (auto simp: config_line_def conf_line_def entry_ok_def keyword_cases split: option.splits)

lemma config_line_module_raw:
  assumes "entry_ok ''module_raw'' e" "ts_load_module_raw env st (fst e) (snd e) = Inr (ret, st')"
  shows "config_line env st (conf_line ''module_raw'' e) = Inr (LineLoaded ret st')"
  using assms next_token_word(1) [OF plain_keywords(2)]
    next_token_word [of "fst e"]
  by (auto simp: config_line_def conf_line_def entry_ok_def keyword_cases split: option.splits)

lemma config_loop_line:
  assumes "CHR 0x0A \<notin> set l" "length l \<le> 510" "config_line env st l = Inr (LineLoaded 0 st')"
  shows "config_loop env st ret (l @ CHR 0x0A # r) = config_loop env st' 0 r"
proof -
  obtain c cs where ne: "l @ CHR 0x0A # r = c # cs" by (cases l) auto
  have "fgets 511 (l @ CHR 0x0A # r) = (l @ [CHR 0x0A], r)" by (rule fgets_line) (use assms in auto)
  with assms show ?thesis
    by (subst config_loop.simps) (simp add: chomp_line ne)
qed

lemma conf_line_no_newline: "entry_ok kw e \<Longrightarrow> plain_word kw \<Longrightarrow> CHR 0x0A \<notin> set (conf_line kw e)"
  by (auto simp: conf_line_def entry_ok_def plain_word_def split: option.splits)

definition conf_text :: "string \<Rightarrow> conf_entry list \<Rightarrow> string" where
  "conf_text kw es = concat (map (\<lambda>e. conf_line kw e @ [CHR 0x0A]) es)"

lemma config_loop_filters:
  assumes "\<forall>e \<in> set es. entry_ok ''module'' e"
    and "list_all2 (\<lambda>e m. \<exists>hnd. inits env (fst e) (snd e) m hnd) es ms" "dev_wf st fs rs"
  shows "\<exists>st' fs'. config_loop env st 0 (conf_text ''module'' es) = Inr (0, st') \<and> dev_wf st' (fs' @ fs) rs \<and>
    mods (st_heap st') (fs' @ fs @ rs) = rev ms @ mods (st_heap st) (fs @ rs) \<and> st_list_raw st' = st_list_raw st"
  using assms
proof (induction es arbitrary: ms st fs)
  case Nil
  then show ?case by (intro exI [of _ st] exI [of _ "[]"]) (simp add: conf_text_def config_loop.simps)
next
  case (Cons e es)
  obtain m ms' hnd where m: "ms = m # ms'" "inits env (fst e) (snd e) m hnd"
    "list_all2 (\<lambda>e m. \<exists>hnd. inits env (fst e) (snd e) m hnd) es ms'"
    using Cons.prems(2) by (auto simp: list_all2_Cons1)
  obtain st1 where st1: "ts_attach (loaded st m hnd) (st_brk st) = Inr (0, st1)" "dev_wf st1 (st_brk st # fs) rs"
    "mods (st_heap st1) (st_brk st # fs @ rs) = m # mods (st_heap st) (fs @ rs)" "st_list_raw st1 = st_list_raw st"
    using ts_attach_loaded [OF Cons.prems(3)] by blast
  have "ts_load_module env st (fst e) (snd e) = Inr (0, st1)"
    unfolding ts_load_module_def by (rule load_module_attach [OF m(2)]) (simp add: st1)
  then have line: "config_line env st (conf_line ''module'' e) = Inr (LineLoaded 0 st1)"
    using Cons.prems(1) by (intro config_line_module) auto
  have "entry_ok ''module'' e" using Cons.prems(1) by simp
  then have step: "config_loop env st 0 (conf_text ''module'' (e # es)) = config_loop env st1 0 (conf_text ''module'' es)"
    using config_loop_line [OF conf_line_no_newline [OF _ plain_keywords(1)] _ line] by (simp add: conf_text_def entry_ok_def)
  obtain st' fs' where IH: "config_loop env st1 0 (conf_text ''module'' es) = Inr (0, st')" "dev_wf st' (fs' @ st_brk st # fs) rs"
    "mods (st_heap st') (fs' @ (st_brk st # fs) @ rs) = rev ms' @ mods (st_heap st1) ((st_brk st # fs) @ rs)"
    "st_list_raw st' = st_list_raw st1"
    using Cons.IH [OF _ m(3) st1(2)] Cons.prems(1) by auto
  with st1 step m(1) show ?case
    by (intro exI [of _ st'] exI [of _ "fs' @ [st_brk st]"]) simp
qed


lemma ts_config_chain:
  assumes "env_fopen env (case env_conffile env of None \<Rightarrow> env_TS_CONF env | Some f \<Rightarrow> f) =
      Some (conf_line ''module_raw'' raw @ CHR 0x0A # conf_text ''module'' es)"
    "entry_ok ''module_raw'' raw" "\<forall>e \<in> set es. entry_ok ''module'' e"
    "inits env (fst raw) (snd raw) mraw hnd"
    "list_all2 (\<lambda>e m. \<exists>hnd. inits env (fst e) (snd e) m hnd) es ms" "dev_wf st [] []"
  shows "\<exists>st' fs r. ts_config env st = Inr (0, st') \<and> dev_wf st' fs [r] \<and> mods (st_heap st') (fs @ [r]) = rev ms @ [mraw]"
proof -
  obtain st1 where st1: "ts_attach_raw (loaded st mraw hnd) (st_brk st) = Inr (0, st1)" "dev_wf st1 [] [st_brk st]"
    "mods (st_heap st1) [st_brk st] = [mraw]" "st_list_raw st1 = Some (st_brk st)"
    using ts_attach_raw_loaded [OF assms(6)] by fastforce
  have "ts_load_module_raw env st (fst raw) (snd raw) = Inr (0, st1)"
    unfolding ts_load_module_raw_def by (rule load_module_attach [OF assms(4)]) (simp add: st1)
  then have "config_line env st (conf_line ''module_raw'' raw) = Inr (LineLoaded 0 st1)"
    using assms(2) by (intro config_line_module_raw)
  then have "config_loop env st 0 (conf_line ''module_raw'' raw @ CHR 0x0A # conf_text ''module'' es) =
      config_loop env st1 0 (conf_text ''module'' es)"
    using assms(2) conf_line_no_newline [OF assms(2) plain_keywords(2)]
    by (intro config_loop_line) (simp_all add: entry_ok_def)
  moreover obtain st' fs' where "config_loop env st1 0 (conf_text ''module'' es) = Inr (0, st')" "dev_wf st' fs' [st_brk st]"
    "mods (st_heap st') (fs' @ [st_brk st]) = rev ms @ [mraw]" "st_list_raw st' = Some (st_brk st)"
    using config_loop_filters [OF assms(3,5) st1(2)] st1(3,4) by auto
  ultimately show ?thesis
    using assms(1) by (intro exI [of _ st'] exI [of _ fs'] exI [of _ "st_brk st"]) (simp add: ts_config_def Let_def)
qed

text \<open>The search loop runs off the end of a list that does not contain \<open>prev_list\<close>.\<close>

lemma attach_raw_loop_NULL:
  "is_chain h p as \<Longrightarrow> length as \<le> fuel \<Longrightarrow> attach_raw_loop fuel h p p None = Inr None"
  by (induction as arbitrary: p fuel) (auto split: option.splits nat.splits)

lemma attach_raw_loop_found:
  "is_chain h p (as @ r # rs) \<Longrightarrow> length as \<le> fuel \<Longrightarrow> attach_raw_loop fuel h p p (Some r) = Inr (Some r)"
  by (induction as arbitrary: p fuel) (auto split: option.splits nat.splits)

lemma length_chain_le:
  assumes "is_chain h p as" "\<forall>a \<in> set as. a < n"
  shows "length as \<le> n"
proof -
  have "length as = card (set as)" using is_chain_distinct [OF assms(1)] by (simp add: distinct_card)
  also have "\<dots> \<le> card {..<n}" using assms(2) by (intro card_mono) auto
  finally show ?thesis by simp
qed

lemma ts_attach_raw_after_filters_NULL:
  assumes "is_chain (st_heap st) (st_list st) fs" "fs \<noteq> []" "\<forall>a \<in> set fs. a < st_brk st" "st_list_raw st = None"
  shows "ts_attach_raw (loaded st m hnd) (st_brk st) = Inl NullDeref"
proof -
  let ?b = "st_brk st"
  let ?h = "(st_heap st)(?b \<mapsto> \<lparr>mi_next = None, mi_handle = hnd, mi_mod = m\<rparr>)"
  have "is_chain ?h (st_list st) fs = is_chain (st_heap st) (st_list st) fs"
    by (rule is_chain_cong) (use assms(3) in auto)
  moreover have "length fs \<le> Suc ?b" using length_chain_le [OF assms(1,3)] by simp
  ultimately have "attach_raw_loop (Suc ?b) ?h (st_list st) (st_list st) None = Inr None"
    using assms(1) by (intro attach_raw_loop_NULL) auto
  moreover have "st_list st \<noteq> None" using assms(1,2) by (cases fs) auto
  ultimately show ?thesis
    using assms(4) by (simp add: ts_attach_raw_def loaded_def set_next_def Let_def del: attach_raw_loop.simps)
qed

lemma close_loop_chain:
  assumes "is_chain (st_heap st) p as" "length as \<le> fuel" "mset (st_handles st) = mset (block_handles (st_heap st) as) + M"
  shows "\<exists>st'. close_loop fuel st p = Inr st' \<and> st_heap st' = (\<lambda>a. if a \<in> set as then None else st_heap st a) \<and>
    mset (st_handles st') = M \<and> st_dev st' = st_dev st"
  using assms
proof (induction as arbitrary: fuel st p)
  case Nil
  then show ?case by (simp add: close_loop.simps block_handles_def)
next
  case (Cons a as)
  obtain n where n: "fuel = Suc n" "length as \<le> n" using Cons.prems(2) by (cases fuel) auto
  obtain nd where nd: "p = Some a" "a \<notin> set as" "st_heap st a = Some nd" "is_chain (st_heap st) (mi_next nd) as"
    using Cons.prems(1) by (auto split: option.splits)
  let ?st = "dlclose (mi_handle nd) (mod_fini st a)"
  have h: "st_heap ?st = (st_heap st)(a := None)" by (simp add: dlclose_def mod_fini_def split: option.splits)
  have "is_chain (st_heap ?st) (mi_next nd) as = is_chain (st_heap st) (mi_next nd) as"
    by (rule is_chain_cong) (use nd(2) h in auto)
  moreover have "block_handles (st_heap ?st) as = block_handles (st_heap st) as"
    by (rule block_handles_cong) (use nd(2) h in auto)
  moreover have "mset (st_handles ?st) = mset (block_handles (st_heap st) as) + M"
    using Cons.prems(3) nd(3) by (auto simp: dlclose_def mod_fini_def block_handles_Cons split: option.splits)
  moreover have "st_dev ?st = st_dev st" by (simp add: dlclose_def mod_fini_def split: option.splits)
  ultimately obtain st' where st': "close_loop n ?st (mi_next nd) = Inr st'"
    "st_heap st' = (\<lambda>b. if b \<in> set as then None else st_heap ?st b)" "mset (st_handles st') = M" "st_dev st' = st_dev st"
    using Cons.IH [of ?st "mi_next nd" n] nd(4) n(2) by auto
  have "close_loop fuel st p = close_loop n ?st (mi_next nd)"
    using nd(1,3) n(1) by (subst close_loop.simps) simp
  with st' h show ?case by (intro exI [of _ st']) auto
qed


text \<open>Closing a list up to the block at \<open>q\<close>.\<close>

lemma close_loop_path:
  assumes "is_chain h p (as @ b # bs)" "\<forall>a \<in> set as. st_heap st a = h a"
  shows "\<exists>st'. close_loop (length as + k) st p = close_loop k st' (Some b) \<and>
    st_heap st' = (\<lambda>a. if a \<in> set as then None else st_heap st a)"
  using assms
proof (induction as arbitrary: st p)
  case Nil
  then show ?case by auto
next
  case (Cons a as)
  obtain nd where nd: "p = Some a" "a \<notin> set as" "h a = Some nd" "is_chain h (mi_next nd) (as @ b # bs)"
    using Cons.prems(1) by (auto split: option.splits)
  let ?st = "dlclose (mi_handle nd) (mod_fini st a)"
  have h: "st_heap ?st = (st_heap st)(a := None)" by (simp add: dlclose_def mod_fini_def split: option.splits)
  have "close_loop (length (a # as) + k) st p = close_loop (length as + k) ?st (mi_next nd)"
    using nd Cons.prems(2) by (subst close_loop.simps) simp
  moreover have "\<forall>c \<in> set as. st_heap ?st c = h c" using Cons.prems(2) nd(2) h by auto
  ultimately show ?case using Cons.IH [OF nd(4), of ?st] h by fastforce
qed

text \<open>Two blocks that point at each other, freed one after the other.\<close>

lemma close_loop_cycle:
  assumes "st_heap st r = Some nr" "mi_next nr = Some b" "st_heap st b = Some nb" "mi_next nb = Some r" "r \<noteq> b"
  shows "close_loop (Suc (Suc (Suc k))) st (Some r) = Inl WildPointer"
proof -
  let ?s1 = "dlclose (mi_handle nr) (mod_fini st r)"
  let ?s2 = "dlclose (mi_handle nb) (mod_fini ?s1 b)"
  have "st_heap ?s1 = (st_heap st)(r := None)" "st_heap ?s2 = (st_heap st)(r := None, b := None)"
    by (simp_all add: dlclose_def mod_fini_def split: option.splits)
  with assms show ?thesis
    by (simp add: close_loop.simps [of "Suc (Suc (Suc k))"] close_loop.simps [of "Suc (Suc k)"] close_loop.simps [of "Suc k"])
qed

lemma dev_wf_raw: "dev_wf st fs (r # rs) \<Longrightarrow> st_list_raw st = Some r"
  by (simp add: dev_wf_def)

lemma ts_attach_raw_cycle:
  assumes "dev_wf st fs (r # rs)" "fs \<noteq> []"
  shows "\<exists>st' nr nb. ts_attach_raw (loaded st m hnd) (st_brk st) = Inr (0, st') \<and>
    st_heap st' r = Some nr \<and> mi_next nr = Some (st_brk st) \<and>
    st_heap st' (st_brk st) = Some nb \<and> mi_next nb = Some r \<and>
    st_list st' = st_list st \<and> st_brk st' = Suc (st_brk st) \<and>
    (\<forall>a \<in> set fs. st_heap st' a = st_heap st a)"
proof -
  let ?b = "st_brk st" and ?nd = "\<lparr>mi_next = Some r, mi_handle = hnd, mi_mod = m\<rparr>"
  let ?h = "(st_heap st)(?b \<mapsto> ?nd)"
  have wf: "is_chain (st_heap st) (st_list st) (fs @ r # rs)" "\<forall>a \<in> set (fs @ r # rs). a < ?b" "st_list_raw st = Some r"
    using assms(1) by (simp_all add: dev_wf_def)
  have r: "r \<noteq> ?b" "r \<notin> set fs" using wf(2) is_chain_distinct [OF wf(1)] by auto
  obtain nr where nr: "st_heap st r = Some nr" using is_chain_dom [OF wf(1), of r] by auto
  have l: "st_list st \<noteq> None" "st_list st \<noteq> Some r" using wf(1) assms(2) r(2) by (cases fs; auto)+
  have "is_chain ?h (st_list st) (fs @ r # rs) = is_chain (st_heap st) (st_list st) (fs @ r # rs)"
    by (rule is_chain_cong) (use wf(2) in auto)
  moreover have "length fs \<le> Suc ?b" using length_chain_le [OF wf(1,2)] by simp
  ultimately have loop: "attach_raw_loop (Suc ?b) ?h (st_list st) (st_list st) (Some r) = Inr (Some r)"
    using wf(1) by (intro attach_raw_loop_found) auto
  let ?st = "(loaded st m hnd)\<lparr>st_heap := ?h(r \<mapsto> nr\<lparr>mi_next := Some ?b\<rparr>), st_list_raw := Some ?b\<rparr>"
  have "ts_attach_raw (loaded st m hnd) ?b = Inr (0, ?st)"
    using loop l wf(3) nr r
    by (auto simp: ts_attach_raw_def loaded_def set_next_def Let_def simp del: attach_raw_loop.simps)
  moreover have "\<forall>a \<in> set fs. st_heap ?st a = st_heap st a" using r wf(2) by auto
  ultimately show ?thesis using r by (intro exI [of _ ?st]) (auto simp: loaded_def)
qed

lemma fgets_long:
  "CHR 0x0A \<notin> set l \<Longrightarrow> n \<le> length l \<Longrightarrow> fst (fgets n (l @ r)) = take n l"
proof (induction l arbitrary: n)
  case Nil
  then show ?case by simp
next
  case (Cons c l)
  then show ?case by (cases n) (auto split: prod.splits simp flip: Cons.IH)
qed

lemma config_loop_long:
  assumes "CHR 0x0A \<notin> set l" "510 < length l"
  shows "config_loop env st ret (l @ r) = Inr (ret, st)"
proof -
  obtain piece rest where f: "fgets 511 (l @ r) = (piece, rest)" by fastforce
  have "piece = take 511 l" using fgets_long [OF assms(1), of 511 r] assms(2) f by simp
  then have "chomp piece = take 511 l"
    using assms(1) by (auto simp: chomp_def takeWhile_eq_all_conv dest: in_set_takeD)
  moreover obtain c cs where "l @ r = c # cs" using assms(2) by (cases l) auto
  ultimately show ?thesis using f assms(2) by (subst config_loop.simps) simp
qed

text \<open>The environment of the concrete examples, with the given text as configuration.\<close>

definition env0 :: "string \<Rightarrow> ts_env" where
  "env0 txt = \<lparr>env_static = tslib_modules
       \<lparr>va_delta = 0, va_last = smp 0 0 0, va_noise = smp 0 0 0, va_flags = 0\<rparr>
       \<lparr>li_swap_xy = 0, li_p_offset = 0, li_p_mult = 0, li_p_div = 0, li_a = [], li_cal_res_x = 0, li_cal_res_y = 0\<rparr>
       None (\<lambda>_. None),
     env_plugindir = None, env_PLUGIN_DIR = ''/lib/ts'', env_dlopen = \<lambda>_. None, env_dlsym = \<lambda>_. None,
     env_conffile = None, env_TS_CONF = ''/etc/ts.conf'', env_fopen = \<lambda>_. Some txt\<rparr>"

definition st0 :: ts_state where
  "st0 = \<lparr>st_dev = \<lparr>dev_fd = 3, dev_res_x = 0, dev_res_y = 0, dev_rotation = 0\<rparr>, st_list = None, st_list_raw = None,
     st_heap = Map.empty, st_brk = 0, st_handles = [], st_errno = 0\<rparr>"

lemma dev_wf_st0: "dev_wf st0 [] []"
  by (simp add: dev_wf_def st0_def block_handles_def)

definition st1 :: ts_state where
  "st1 = st0\<lparr>st_list := Some 1, st_list_raw := Some 0, st_brk := 2, st_handles := [7],
     st_heap := [0 \<mapsto> \<lparr>mi_next = None, mi_handle = Some 7, mi_mod = MInput input0\<rparr>,
                 1 \<mapsto> \<lparr>mi_next = Some 0, mi_handle = None, mi_mod = MLinearH2200\<rparr>]\<rparr>"

lemma dev_wf_st1: "dev_wf st1 [1] [0]"
  by (simp add: dev_wf_def st1_def block_handles_def)

lemma inits_examples:
  "inits (env0 txt) ''input'' None (MInput input0) None"
  "inits (env0 txt) ''pthres'' (Some ''pmin=1'') (MPthres \<lparr>pmin = 1, pmax = 2147483647\<rparr>) None"
  "inits (env0 txt) ''variance'' (Some ''delta=30'') (MVariance \<lparr>va_delta = 900, va_last = smp 0 0 0, va_noise = smp 0 0 0, va_flags = 0\<rparr>) None"
  "inits (env0 txt) ''dejitter'' (Some ''delta=100'') (MDejitter \<lparr>dj_delta = 10000, dj_x = 0, dj_y = 0, dj_down = 0,
     dj_nr = 0, dj_head = 0, dj_hist = replicate 4 \<lparr>hist_x = 0, hist_y = 0, hist_p = 0\<rparr>\<rparr>) None"
  "inits (env0 txt) ''linear'' None (MLinear \<lparr>li_swap_xy = 0, li_p_offset = 0, li_p_mult = 1, li_p_div = 1,
     li_a = [1, 0, 0, 0, 1, 0, 1], li_cal_res_x = 0, li_cal_res_y = 0\<rparr>) None"
proof -
  note defs = inits_def env0_def tslib_modules_def module_result_def
  show "inits (env0 txt) ''input'' None (MInput input0) None"
    by (simp add: defs input_mod_init_def tslib_parse_vars_def input0_def)
  show "inits (env0 txt) ''linear'' None (MLinear \<lparr>li_swap_xy = 0, li_p_offset = 0, li_p_mult = 1, li_p_div = 1,
     li_a = [1, 0, 0, 0, 1, 0, 1], li_cal_res_x = 0, li_cal_res_y = 0\<rparr>) None"
    by (simp add: defs linear_mod_init_def tslib_parse_vars_def Let_def)
  show "inits (env0 txt) ''pthres'' (Some ''pmin=1'') (MPthres \<lparr>pmin = 1, pmax = 2147483647\<rparr>) None"
    by (simp add: defs pthres_mod_init_def tslib_parse_vars_one parse_token_def cut_eq_def find_pthres_vars threshold_vars_def
        strtoul0_def scan_base0_def isspace_c_def is_digit_of_def digit_val_def ULONG_MAX_def INT_MAX_def)
  show "inits (env0 txt) ''variance'' (Some ''delta=30'') (MVariance \<lparr>va_delta = 900, va_last = smp 0 0 0, va_noise = smp 0 0 0, va_flags = 0\<rparr>) None"
    by (simp add: defs variance_mod_init_def tslib_parse_vars_one parse_token_def cut_eq_def variance_vars_def variance_limit_def
        strtoul0_def scan_base0_def isspace_c_def is_digit_of_def digit_val_def ULONG_MAX_def variance_sqr_def s32_def)
  show "inits (env0 txt) ''dejitter'' (Some ''delta=100'') (MDejitter \<lparr>dj_delta = 10000, dj_x = 0, dj_y = 0, dj_down = 0,
     dj_nr = 0, dj_head = 0, dj_hist = replicate 4 \<lparr>hist_x = 0, hist_y = 0, hist_p = 0\<rparr>\<rparr>) None"
    by (simp add: defs dejitter_mod_init_def tslib_parse_vars_one parse_token_def cut_eq_def find_dejitter_vars dejitter_limit_def
        strtoul0_def scan_base0_def isspace_c_def is_digit_of_def digit_val_def ULONG_MAX_def sqr_def s32_def)
qed

subsection \<open>Properties\<close>

text \<open>
  C8: a configuration that names the raw module first and the filters after it gives a device
  that can be read. For any names and parameters that the loader turns into modules with
  their invariants, \<open>ts_config\<close> returns 0, and the device's list runs through the filters in
  the reverse order of the file down to the raw module, to which \<open>list_raw\<close> points: the
  condition under which \<open>ts_read\<close> is safe.
\<close>

theorem ts_config_builds_chain:
  assumes "env_fopen env (case env_conffile env of None \<Rightarrow> env_TS_CONF env | Some f \<Rightarrow> f) =
      Some (conf_line ''module_raw'' raw @ CHR 0x0A # conf_text ''module'' es)"
    "entry_ok ''module_raw'' raw" "\<forall>e \<in> set es. entry_ok ''module'' e"
    "inits env (fst raw) (snd raw) mraw hnd"
    "list_all2 (\<lambda>e m. \<exists>hnd. inits env (fst e) (snd e) m hnd) es ms" "dev_wf st [] []"
    "is_input mraw" "\<forall>m \<in> set ms. mod_ok m"
  shows "\<exists>st' as. ts_config env st = Inr (0, st') \<and> chain_inv (st_heap st') (st_list st') as (st_heap st', w) \<and>
    mods (st_heap st') as = rev ms @ [mraw] \<and> st_list_raw st' = Some (last as)"
proof -
  obtain st' fs r where s: "ts_config env st = Inr (0, st')" "dev_wf st' fs [r]" "mods (st_heap st') (fs @ [r]) = rev ms @ [mraw]"
    using ts_config_chain [OF assms(1-6)] by blast
  have "mod_ok mraw" using assms(7) by (cases mraw) auto
  with s assms(7,8) show ?thesis
    by (intro exI [of _ st'] exI [of _ "fs @ [r]"]) (auto simp: chain_inv_def dev_wf_def)
qed

theorem ts_config_builds_chain_witness:
  "\<exists>st' as. ts_config (env0 (conf_line ''module_raw'' (''input'', None) @ CHR 0x0A # conf_text ''module''
       [(''pthres'', Some ''pmin=1''), (''variance'', Some ''delta=30''), (''dejitter'', Some ''delta=100''), (''linear'', None)])) st0 =
     Inr (0, st') \<and> chain_inv (st_heap st') (st_list st') as (st_heap st', world0) \<and> length as = 5"
proof -
  let ?es = "[(''pthres'', Some ''pmin=1''), (''variance'', Some ''delta=30''), (''dejitter'', Some ''delta=100''), (''linear'', None)]"
  let ?txt = "conf_line ''module_raw'' (''input'', None) @ CHR 0x0A # conf_text ''module'' ?es"
  let ?ms = "[MPthres \<lparr>pmin = 1, pmax = 2147483647\<rparr>,
    MVariance \<lparr>va_delta = 900, va_last = smp 0 0 0, va_noise = smp 0 0 0, va_flags = 0\<rparr>,
    MDejitter \<lparr>dj_delta = 10000, dj_x = 0, dj_y = 0, dj_down = 0, dj_nr = 0, dj_head = 0,
      dj_hist = replicate 4 \<lparr>hist_x = 0, hist_y = 0, hist_p = 0\<rparr>\<rparr>,
    MLinear \<lparr>li_swap_xy = 0, li_p_offset = 0, li_p_mult = 1, li_p_div = 1, li_a = [1, 0, 0, 0, 1, 0, 1],
      li_cal_res_x = 0, li_cal_res_y = 0\<rparr>]"
  have f: "env_fopen (env0 ?txt) (case env_conffile (env0 ?txt) of None \<Rightarrow> env_TS_CONF (env0 ?txt) | Some f \<Rightarrow> f) = Some ?txt"
    by (simp add: env0_def)
  have e: "entry_ok ''module_raw'' (''input'', None)" "\<forall>e \<in> set ?es. entry_ok ''module'' e"
    by (simp_all add: entry_ok_def conf_line_def plain_word_def)
  have i: "list_all2 (\<lambda>e m. \<exists>hnd. inits (env0 ?txt) (fst e) (snd e) m hnd) ?es ?ms"
    using inits_examples(2-5) by (simp only: list_all2_Cons list_all2_Nil fst_conv snd_conv) blast
  have m: "\<forall>m \<in> set ?ms. mod_ok m" by (simp add: dejitter_inv_def linear_wf_def)
  obtain st' as where "ts_config (env0 ?txt) st0 = Inr (0, st')" "chain_inv (st_heap st') (st_list st') as (st_heap st', world0)"
    "mods (st_heap st') as = rev ?ms @ [MInput input0]"
    using ts_config_builds_chain [OF f e _ i dev_wf_st0 _ m, of "MInput input0" None world0] inits_examples(1) by auto
  moreover from this(3) have "length (mods (st_heap st') as) = 5" by simp
  then have "length as = 5" by (simp add: mods_def)
  ultimately show ?thesis by blast
qed

text \<open>
  A raw module named after a filter stops the program. With filters loaded and no raw
  module before them, the search in \<open>__ts_attach_raw\<close> for the end of the list runs past it
  (\<open>prev\<close> is not the element before \<open>next\<close>), and the module is stored through NULL.
\<close>

theorem ts_load_module_raw_after_filter:
  assumes "dev_wf st fs []" "fs \<noteq> []" "inits env name params m hnd"
  shows "ts_load_module_raw env st name params = Inl NullDeref"
proof -
  have "ts_attach_raw (loaded st m hnd) (st_brk st) = Inl NullDeref"
    by (rule ts_attach_raw_after_filters_NULL) (use assms(1,2) in \<open>auto simp: dev_wf_def\<close>)
  with assms(3) show ?thesis
    by (auto simp: inits_def ts_load_module_raw_def load_module_def ts_load_module_static_def ts_load_module_shared_def
        alloc_def loaded_def Let_def split: option.splits)
qed

theorem ts_load_module_raw_after_filter_witness:
  "ts_load_module_raw (env0 []) (st0\<lparr>st_list := Some 0, st_brk := 1,
     st_heap := [0 \<mapsto> \<lparr>mi_next = None, mi_handle = None, mi_mod = MLinearH2200\<rparr>]\<rparr>) ''input'' None = Inl NullDeref"
  using ts_load_module_raw_after_filter [of "st0\<lparr>st_list := Some 0, st_brk := 1,
     st_heap := [0 \<mapsto> \<lparr>mi_next = None, mi_handle = None, mi_mod = MLinearH2200\<rparr>]\<rparr>" "[0]", OF _ _ inits_examples(1)]
  by (simp add: dev_wf_def st0_def block_handles_def)

text \<open>
  A second raw module named after a filter leaves two blocks that point at each other.
  The call reports success, the new module is not where the list ends, and \<open>ts_close\<close> comes
  back to a block it has already freed.
\<close>

theorem ts_attach_raw_makes_cycle:
  assumes "dev_wf st fs (r # rs)" "fs \<noteq> []"
  shows "\<exists>st'. ts_attach_raw (loaded st m hnd) (st_brk st) = Inr (0, st') \<and>
    map_option mi_next (st_heap st' r) = Some (Some (st_brk st)) \<and>
    map_option mi_next (st_heap st' (st_brk st)) = Some (Some r) \<and> ts_close closef st' = Inl WildPointer"
proof -
  let ?b = "st_brk st"
  obtain st' nr nb where s: "ts_attach_raw (loaded st m hnd) ?b = Inr (0, st')" "st_heap st' r = Some nr" "mi_next nr = Some ?b"
    "st_heap st' ?b = Some nb" "mi_next nb = Some r" "st_list st' = st_list st" "st_brk st' = Suc ?b"
    "\<forall>a \<in> set fs. st_heap st' a = st_heap st a"
    using ts_attach_raw_cycle [OF assms] by blast
  have wf: "is_chain (st_heap st) (st_list st) (fs @ r # rs)" "\<forall>a \<in> set (fs @ r # rs). a < ?b"
    using assms(1) by (simp_all add: dev_wf_def)
  have out: "r \<notin> set fs" "?b \<notin> set fs" "r \<noteq> ?b" using is_chain_distinct [OF wf(1)] wf(2) by auto
  have "length (fs @ r # rs) \<le> ?b" by (rule length_chain_le [OF wf])
  then obtain k where k: "?b + 2 = length fs + Suc (Suc (Suc k))" by (auto simp: le_iff_add)
  obtain st2 where st2: "close_loop (length fs + Suc (Suc (Suc k))) st' (st_list st) = close_loop (Suc (Suc (Suc k))) st2 (Some r)"
    "st_heap st2 = (\<lambda>a. if a \<in> set fs then None else st_heap st' a)"
    using close_loop_path [OF wf(1) s(8)] by blast
  have "close_loop (Suc (Suc (Suc k))) st2 (Some r) = Inl WildPointer"
    by (rule close_loop_cycle [of _ _ nr ?b nb]) (use s st2 out in auto)
  with st2(1) k s show ?thesis by (auto simp: ts_close_def)
qed

theorem ts_attach_raw_makes_cycle_witness:
  "\<exists>st'. ts_attach_raw (loaded st1 (MInput input0) None) 2 = Inr (0, st') \<and> ts_close (\<lambda>_. 0) st' = Inl WildPointer"
  using ts_attach_raw_makes_cycle [OF dev_wf_st1, of "MInput input0" None "\<lambda>_. 0"] by (auto simp: st1_def)

text \<open>
  C9: \<open>ts_close\<close> releases everything. On a well-formed device it returns the result of
  \<open>close\<close>, every module block of the list has been freed exactly once, and every handle
  obtained from \<open>dlopen\<close> has been given back.
\<close>

theorem ts_close_releases:
  assumes "dev_wf st fs rs"
  shows "\<exists>st'. ts_close closef st = Inr (closef (ts_fd (st_dev st)), st') \<and>
    (\<forall>a \<in> set (fs @ rs). st_heap st' a = None) \<and> st_handles st' = []"
proof -
  have wf: "is_chain (st_heap st) (st_list st) (fs @ rs)" "\<forall>a \<in> set (fs @ rs). a < st_brk st"
    "mset (st_handles st) = mset (block_handles (st_heap st) (fs @ rs)) + {#}"
    using assms by (simp_all add: dev_wf_def)
  have "length (fs @ rs) \<le> st_brk st + 1" using length_chain_le [OF wf(1,2)] by simp
  from close_loop_chain [OF wf(1) this wf(3)] show ?thesis
    by (auto simp: ts_close_def ts_fd_def)
qed

theorem ts_close_releases_witness:
  "\<exists>st'. ts_close (\<lambda>fd. if fd = 3 then 0 else -1) st1 = Inr (0, st') \<and> st_heap st' 0 = None \<and> st_heap st' 1 = None \<and> st_handles st' = []"
  using ts_close_releases [OF dev_wf_st1, of "\<lambda>fd. if fd = 3 then 0 else -1"] by (auto simp: ts_fd_def st1_def st0_def)

text \<open>
  An option the configuration does not know crashes the program instead of being
  reported: the message's second conversion takes the line number for a string.
\<close>

theorem ts_config_unknown_option:
  assumes "env_fopen env (case env_conffile env of None \<Rightarrow> env_TS_CONF env | Some f \<Rightarrow> f) = Some (opt @ CHR '' '' # arg @ CHR 0x0A # rest)"
    "plain_word opt" "hd opt \<noteq> CHR ''#''" "\<not> strcasecmp_eq opt ''module''" "\<not> strcasecmp_eq opt ''module_raw''"
    "CHR 0x0A \<notin> set arg" "length opt + length arg \<le> 509"
  shows "ts_config env st = Inl WildPointer"
proof -
  let ?l = "opt @ CHR '' '' # arg"
  have nl: "CHR 0x0A \<notin> set ?l" using assms(2,6) by (auto simp: plain_word_def)
  have "config_line env st ?l = Inl WildPointer"
    using assms(3-5) next_token_word(1) [OF assms(2)] by (simp add: config_line_def)
  moreover have "fgets 511 (?l @ CHR 0x0A # rest) = (?l @ [CHR 0x0A], rest)"
    by (rule fgets_line) (use nl assms(7) in auto)
  moreover obtain c cs where "?l @ CHR 0x0A # rest = c # cs" by (cases opt) auto
  ultimately have "config_loop env st 0 (?l @ CHR 0x0A # rest) = Inl WildPointer"
    using chomp_line [OF nl] assms(7) by (subst config_loop.simps) simp
  with assms(1) show ?thesis by (simp add: ts_config_def Let_def)
qed

theorem ts_config_unknown_option_witness:
  "ts_config (env0 (''option'' @ CHR '' '' # ''1'' @ CHR 0x0A # [])) st0 = Inl WildPointer"
  by (rule ts_config_unknown_option [of _ "''option''" "''1''" "[]"]) (simp_all add: env0_def plain_word_def strcasecmp_eq_def tolower_c_def)

text \<open>
  A line of more than 510 characters ends the configuration without an error. Whatever
  stands behind it is ignored, and if a raw module was loaded before, \<open>ts_config\<close> returns 0.
\<close>

theorem ts_config_long_line:
  assumes "env_fopen env (case env_conffile env of None \<Rightarrow> env_TS_CONF env | Some f \<Rightarrow> f) =
      Some (conf_line ''module_raw'' raw @ CHR 0x0A # long @ rest)"
    "entry_ok ''module_raw'' raw" "inits env (fst raw) (snd raw) mraw hnd" "dev_wf st [] []"
    "CHR 0x0A \<notin> set long" "510 < length long"
  shows "\<exists>st'. ts_config env st = Inr (0, st') \<and> st_list st' = st_list_raw st' \<and> st_list st' \<noteq> None"
proof -
  obtain st1 where st1: "ts_attach_raw (loaded st mraw hnd) (st_brk st) = Inr (0, st1)" "dev_wf st1 [] [st_brk st]"
    "st_list_raw st1 = Some (st_brk st)"
    using ts_attach_raw_loaded [OF assms(4)] by blast
  have "ts_load_module_raw env st (fst raw) (snd raw) = Inr (0, st1)"
    unfolding ts_load_module_raw_def by (rule load_module_attach [OF assms(3)]) (simp add: st1)
  then have line: "config_line env st (conf_line ''module_raw'' raw) = Inr (LineLoaded 0 st1)"
    using assms(2) by (intro config_line_module_raw)
  have "config_loop env st 0 (conf_line ''module_raw'' raw @ CHR 0x0A # long @ rest) = config_loop env st1 0 (long @ rest)"
    using line assms(2) conf_line_no_newline [OF assms(2) plain_keywords(2)]
    by (intro config_loop_line) (simp_all add: entry_ok_def)
  moreover have "config_loop env st1 0 (long @ rest) = Inr (0, st1)"
    using config_loop_long assms(5,6) by blast
  ultimately show ?thesis
    using assms(1) st1(2,3) by (auto simp: ts_config_def Let_def dev_wf_def)
qed

theorem ts_config_long_line_witness:
  "\<exists>st'. ts_config (env0 (conf_line ''module_raw'' (''input'', None) @ CHR 0x0A # replicate 511 (CHR ''x'') @ [CHR 0x0A])) st0 =
     Inr (0, st') \<and> st_list st' = st_list_raw st' \<and> st_list st' \<noteq> None"
  by (rule ts_config_long_line [OF _ _ _ dev_wf_st0, of _ "(''input'', None)" "replicate 511 (CHR ''x'')" "[CHR 0x0A]" "MInput input0" None])
    (use inits_examples(1) in \<open>simp_all add: entry_ok_def conf_line_def plain_word_def, simp add: env0_def\<close>)

end
