(* ===== verification/RawEvents.thy ===== *)
theory RawEvents
  imports TsTypes
begin

text \<open>
  The raw modules that read an array of fixed-size event structs from a character device:
  src/tslib-1.1/plugins/collie-raw.c, corgi-raw.c, h3600-raw.c, mk712-raw.c, arctic2-raw.c,
  ucb1x00-raw.c and tatung-raw.c. Six of them have the same loop around the conversion of one
  event; it is \<open>raw_read\<close>, and each module is the loop with its own conversion. The
  seventh, tatung-raw.c, leaves the loop early and writes once more behind it.

  A device is a script of answers to \<open>read(2)\<close>: an error or end of file (a result that is
  not positive), or a number of whole events and some bytes more. The kernel returns at most
  the bytes asked for. \<open>gettimeofday\<close> answers from a clock.
\<close>

datatype 'e raw_answer = RawFail int | RawEvents "'e list" nat

record 'e rawdev =
  rq :: "'e raw_answer list"
  clock :: "nat \<Rightarrow> timeval"
  tick :: nat

text \<open>\<open>read(fd, evt, sizeof(*evt) * nr)\<close>: whether the result is positive, and the events.\<close>

definition fetch :: "int \<Rightarrow> 'e rawdev \<Rightarrow> bool \<times> 'e list \<times> 'e rawdev" where
  "fetch nr d =
     (case rq d of
        [] \<Rightarrow> (False, [], d)
      | RawFail _ # q \<Rightarrow> (False, [], d\<lparr>rq := q\<rparr>)
      | RawEvents evs extra # q \<Rightarrow>
          (let got = take (nat nr) evs in
           (got \<noteq> [] \<or> (0 < extra \<and> 0 < nr), got, d\<lparr>rq := q\<rparr>)))"

text \<open>
  The conversion of one event gets the time \<open>gettimeofday\<close> would give. The loop writes
  \<open>samp\<close>, \<open>samp + 1\<close>, ...; the clock goes on by one with every event.
\<close>

fun raw_loop ::
  "(timeval \<Rightarrow> 'e \<Rightarrow> ts_sample) \<Rightarrow> 'e list \<Rightarrow> nat \<Rightarrow> 'e rawdev \<Rightarrow> ts_sample list \<Rightarrow> fault + (ts_sample list \<times> 'e rawdev)" where
  "raw_loop conv [] i d buf = Inr (buf, d)"
| "raw_loop conv (e # es) i d buf =
     (if i < length buf then raw_loop conv es (i + 1) (d\<lparr>tick := tick d + 1\<rparr>) (buf[i := conv (clock d (tick d)) e])
      else Inl OutOfBounds)"

text \<open>
  The declaration \<open>int nr = ret / sizeof(*evt)\<close> inside the block hides the parameter; the
  assignment \<open>ret = nr\<close> behind the block uses the parameter again.
\<close>

definition raw_read :: "(timeval \<Rightarrow> 'e \<Rightarrow> ts_sample) \<Rightarrow> 'e rawdev reader" where
  "raw_read conv = (\<lambda>(d, w) samp nr.
     case fetch nr d of (positive, evs, d1) \<Rightarrow>
       if positive then
         (case raw_loop conv evs 0 d1 samp of
            Inl e \<Rightarrow> Inl e
          | Inr (samp', d2) \<Rightarrow> Inr (nr, samp', (d2, w)))
       else Inr (-1, samp, (d1, w)))"

subsection \<open>Event structs and their conversion\<close>

record collie_ts_event =
  collie_y :: int
  collie_x :: int
  collie_pressure :: int
  collie_millisecs :: int

text \<open>\<open>%\<close> and \<open>/\<close> truncate towards zero; \<open>tv_sec\<close> and \<open>tv_usec\<close> have 32 bits.\<close>

definition collie_sample :: "timeval \<Rightarrow> collie_ts_event \<Rightarrow> ts_sample" where
  "collie_sample now e =
     \<lparr>samp_x = collie_x e, samp_y = collie_y e, samp_pressure = word_of_int (collie_pressure e),
      samp_tv = \<lparr>tv_sec = s32 (collie_millisecs e sdiv 1000), tv_usec = s32 (collie_millisecs e smod 1000 * 1000)\<rparr>\<rparr>"

definition collie_read :: "collie_ts_event rawdev reader" where
  "collie_read = raw_read collie_sample"

record corgi_ts_event =
  corgi_pressure :: int
  corgi_x :: int
  corgi_y :: int
  corgi_millisecs :: int

definition corgi_sample :: "timeval \<Rightarrow> corgi_ts_event \<Rightarrow> ts_sample" where
  "corgi_sample now e =
     \<lparr>samp_x = corgi_x e, samp_y = corgi_y e, samp_pressure = word_of_int (corgi_pressure e),
      samp_tv = \<lparr>tv_sec = s32 (corgi_millisecs e sdiv 1000), tv_usec = s32 (corgi_millisecs e smod 1000 * 1000)\<rparr>\<rparr>"

definition corgi_read :: "corgi_ts_event rawdev reader" where
  "corgi_read = raw_read corgi_sample"

record h3600_ts_event =
  h3600_pressure :: "16 word"
  h3600_x :: "16 word"
  h3600_y :: "16 word"
  h3600_pad :: "16 word"

definition h3600_sample :: "timeval \<Rightarrow> h3600_ts_event \<Rightarrow> ts_sample" where
  "h3600_sample now e =
     \<lparr>samp_x = uint (h3600_x e), samp_y = uint (h3600_y e), samp_pressure = ucast (h3600_pressure e), samp_tv = now\<rparr>"

definition h3600_read :: "h3600_ts_event rawdev reader" where
  "h3600_read = raw_read h3600_sample"

record mk712_ts_event =
  mk712_header :: "32 word"
  mk712_x :: "32 word"
  mk712_y :: "32 word"
  mk712_reserved :: "32 word"

text \<open>\<open>(short)\<close> keeps the low 16 bits, with sign.\<close>

definition mk712_sample :: "timeval \<Rightarrow> mk712_ts_event \<Rightarrow> ts_sample" where
  "mk712_sample now e =
     \<lparr>samp_x = sint (ucast (mk712_x e) :: 16 word), samp_y = sint (ucast (mk712_y e) :: 16 word),
      samp_pressure = (if mk712_header e = 0 then 1 else 0), samp_tv = now\<rparr>"

definition mk712_read :: "mk712_ts_event rawdev reader" where
  "mk712_read = raw_read mk712_sample"

record arctic2_ts_event =
  arctic2_pressure :: "16 word"
  arctic2_x :: "32 word"
  arctic2_y :: "32 word"
  arctic2_millisecs :: int
  arctic2_flags :: int

definition arctic2_sample :: "timeval \<Rightarrow> arctic2_ts_event \<Rightarrow> ts_sample" where
  "arctic2_sample now e =
     \<lparr>samp_x = sint (ucast (arctic2_x e) :: 16 word), samp_y = sint (ucast (arctic2_y e) :: 16 word),
      samp_pressure = scast (arctic2_pressure e), samp_tv = now\<rparr>"

definition arctic2_read :: "arctic2_ts_event rawdev reader" where
  "arctic2_read = raw_read arctic2_sample"

record ucb1x00_ts_event =
  ucb_pressure :: "16 word"
  ucb_x :: "16 word"
  ucb_y :: "16 word"
  ucb_pad :: "16 word"
  ucb_stamp :: timeval

definition ucb1x00_sample :: "timeval \<Rightarrow> ucb1x00_ts_event \<Rightarrow> ts_sample" where
  "ucb1x00_sample now e =
     \<lparr>samp_x = uint (ucb_x e), samp_y = uint (ucb_y e), samp_pressure = ucast (ucb_pressure e),
      samp_tv = \<lparr>tv_sec = tv_sec (ucb_stamp e), tv_usec = tv_usec (ucb_stamp e)\<rparr>\<rparr>"

definition ucb1x00_read :: "ucb1x00_ts_event rawdev reader" where
  "ucb1x00_read = raw_read ucb1x00_sample"

subsection \<open>tatung-raw.c\<close>

record tatung_ts_event =
  tatung_x1 :: "8 word"
  tatung_x2 :: "8 word"
  tatung_y1 :: "8 word"
  tatung_y2 :: "8 word"

definition tatung_idle :: "tatung_ts_event \<Rightarrow> bool" where
  "tatung_idle e \<longleftrightarrow> tatung_x1 e = 240 \<or> tatung_x2 e = 240 \<or> tatung_y1 e = 240 \<or> tatung_y2 e = 240"

definition tatung_sample :: "timeval \<Rightarrow> tatung_ts_event \<Rightarrow> ts_sample" where
  "tatung_sample now e =
     \<lparr>samp_x = uint (tatung_x1 e) * 31 + uint (tatung_x2 e) - 64,
      samp_y = uint (tatung_y1 e) * 31 + uint (tatung_y2 e) - 192,
      samp_pressure = 1, samp_tv = now\<rparr>"

text \<open>
  The loop, and \<open>samp->pressure = 0\<close> behind it; an idle event returns from within, with the
  number of events read (the inner \<open>nr\<close>), which is the first argument.
\<close>

fun tatung_loop ::
  "int \<Rightarrow> int \<Rightarrow> tatung_ts_event list \<Rightarrow> nat \<Rightarrow> tatung_ts_event rawdev \<Rightarrow> ts_sample list \<Rightarrow>
   fault + (int \<times> ts_sample list \<times> tatung_ts_event rawdev)" where
  "tatung_loop inner_nr nr [] i d buf =
     (if i < length buf then Inr (nr, buf[i := (buf ! i)\<lparr>samp_pressure := 0\<rparr>], d) else Inl OutOfBounds)"
| "tatung_loop inner_nr nr (e # es) i d buf =
     (if tatung_idle e then Inr (inner_nr, buf, d)
      else if i < length buf then
        tatung_loop inner_nr nr es (i + 1) (d\<lparr>tick := tick d + 1\<rparr>) (buf[i := tatung_sample (clock d (tick d)) e])
      else Inl OutOfBounds)"

definition tatung_read :: "tatung_ts_event rawdev reader" where
  "tatung_read = (\<lambda>(d, w) samp nr.
     case fetch nr d of (positive, evs, d1) \<Rightarrow>
       if positive then
         (case tatung_loop (int (length evs)) nr evs 0 d1 samp of
            Inl e \<Rightarrow> Inl e
          | Inr (ret, samp', d2) \<Rightarrow> Inr (ret, samp', (d2, w)))
       else Inr (-1, samp, (d1, w)))"

text \<open>
  The initialisers of all seven modules allocate the module's struct and set \<open>ops\<close>. The
  struct has no fields of its own, and \<open>ops\<close> has no \<open>fini\<close>.
\<close>

record raw_ops =
  ops_has_read :: bool
  ops_has_fini :: bool

definition raw_mod_init :: "bool \<Rightarrow> raw_ops option" where
  "raw_mod_init malloc_ok = (if malloc_ok then Some \<lparr>ops_has_read = True, ops_has_fini = False\<rparr> else None)"


subsection \<open>What the loop leaves in the array\<close>

fun raw_conv :: "(timeval \<Rightarrow> 'e \<Rightarrow> ts_sample) \<Rightarrow> (nat \<Rightarrow> timeval) \<Rightarrow> nat \<Rightarrow> 'e list \<Rightarrow> ts_sample list" where
  "raw_conv conv clk k [] = []"
| "raw_conv conv clk k (e # es) = conv (clk k) e # raw_conv conv clk (Suc k) es"

lemma length_raw_conv [simp]: "length (raw_conv conv clk k es) = length es"
  by (induction es arbitrary: k) auto

lemma raw_loop_conv:
  assumes "i + length es \<le> length buf"
  shows "raw_loop conv es i d buf =
    Inr (take i buf @ raw_conv conv (clock d) (tick d) es @ drop (i + length es) buf, d\<lparr>tick := tick d + length es\<rparr>)"
  using assms by (induction es arbitrary: i d buf) auto

lemma fetch_length: "fetch nr d = (pos, evs, d1) \<Longrightarrow> length evs \<le> nat nr"
  by (auto simp: fetch_def Let_def split: list.splits raw_answer.splits)

lemma raw_read_conv:
  assumes "fetch nr d = (True, evs, d1)" "length evs \<le> length samp"
  shows "raw_read conv (d, w) samp nr =
    Inr (nr, raw_conv conv (clock d1) (tick d1) evs @ drop (length evs) samp, (d1\<lparr>tick := tick d1 + length evs\<rparr>, w))"
  using assms raw_loop_conv [of 0 evs samp conv d1] by (simp add: raw_read_def)

lemma raw_source: "ts_source (raw_read conv) (\<lambda>_. True)"
proof (unfold_locales, goal_cases)
  case (1 s nr buf)
  obtain d w where s: "s = (d, w)" by (cases s)
  obtain pos evs d1 where f: "fetch nr d = (pos, evs, d1)" by (metis prod_cases3)
  show ?case
  proof (cases pos)
    case True
    have "length evs \<le> nat nr" by (rule fetch_length [OF f])
    then have "length evs \<le> length buf" using 1(3) by simp
    with raw_read_conv [of nr d evs d1 buf conv w] f True \<open>length evs \<le> nat nr\<close> show ?thesis
      by (simp add: s)
  next
    case False
    with f 1(2) show ?thesis by (simp add: s raw_read_def)
  qed
qed

interpretation collie: ts_source collie_read "\<lambda>_. True"
  unfolding collie_read_def by (rule raw_source)

interpretation corgi: ts_source corgi_read "\<lambda>_. True"
  unfolding corgi_read_def by (rule raw_source)

interpretation h3600: ts_source h3600_read "\<lambda>_. True"
  unfolding h3600_read_def by (rule raw_source)

interpretation mk712: ts_source mk712_read "\<lambda>_. True"
  unfolding mk712_read_def by (rule raw_source)

interpretation arctic2: ts_source arctic2_read "\<lambda>_. True"
  unfolding arctic2_read_def by (rule raw_source)

interpretation ucb1x00: ts_source ucb1x00_read "\<lambda>_. True"
  unfolding ucb1x00_read_def by (rule raw_source)

lemma tatung_loop_overrun:
  assumes "i + length es = length buf" "\<forall>e \<in> set es. \<not> tatung_idle e"
  shows "tatung_loop k nr es i d buf = Inl OutOfBounds"
  using assms by (induction es arbitrary: i d buf) auto

subsection \<open>Properties\<close>

text \<open>
  The six modules with the common loop convert every event read, in order, and then
  report the number of samples asked for, not the number read: with fewer events than asked
  for, the rest of what the caller takes for samples is the old content of its array.
\<close>

theorem raw_read_reports_nr:
  assumes "rq d = RawEvents evs extra # q" "evs \<noteq> []" "int (length evs) \<le> nr" "nr \<le> int (length samp)"
  shows "\<exists>s'. raw_read conv (d, w) samp nr =
    Inr (nr, raw_conv conv (clock d) (tick d) evs @ drop (length evs) samp, s')"
proof -
  have "fetch nr d = (True, evs, d\<lparr>rq := q\<rparr>)" using assms(1-3) by (simp add: fetch_def)
  from raw_read_conv [OF this, of samp conv w] assms(3,4) show ?thesis by auto
qed

theorem raw_read_reports_nr_witness:
  "\<exists>s'. h3600_read (\<lparr>rq = [RawEvents [\<lparr>h3600_pressure = 9, h3600_x = 500, h3600_y = 600, h3600_pad = 0\<rparr>] 0],
       clock = \<lambda>_. \<lparr>tv_sec = 0, tv_usec = 0\<rparr>, tick = 0\<rparr>, world0) [smp 0 0 0, smp 77 77 7] 2 =
     Inr (2, [smp 500 600 9, smp 77 77 7], s')"
  using raw_read_reports_nr [of "\<lparr>rq = [RawEvents [\<lparr>h3600_pressure = 9, h3600_x = 500, h3600_y = 600, h3600_pad = 0\<rparr>] 0],
       clock = \<lambda>_. \<lparr>tv_sec = 0, tv_usec = 0\<rparr>, tick = 0\<rparr>" "[\<lparr>h3600_pressure = 9, h3600_x = 500, h3600_y = 600, h3600_pad = 0\<rparr>]"
      0 "[]" 2 "[smp 0 0 0, smp 77 77 7]" h3600_sample world0]
  by (simp add: h3600_read_def h3600_sample_def)

text \<open>
  The time stamp of the Zaurus driver is the event's time: seconds and microseconds of a
  normalised \<open>struct timeval\<close> that add up to the event's milliseconds.
\<close>

theorem collie_sample_time:
  assumes "0 \<le> collie_millisecs e" "collie_millisecs e < 2147483648000"
  shows "tv_sec (samp_tv (collie_sample now e)) * 1000000 + tv_usec (samp_tv (collie_sample now e)) = collie_millisecs e * 1000 \<and>
    0 \<le> tv_usec (samp_tv (collie_sample now e)) \<and> tv_usec (samp_tv (collie_sample now e)) < 1000000"
proof -
  let ?m = "collie_millisecs e"
  have d: "?m sdiv 1000 = ?m div 1000" "?m smod 1000 = ?m mod 1000"
    using assms(1) by (auto simp: signed_divide_int_def signed_modulo_int_def sgn_if)
  have m: "0 \<le> ?m mod 1000" "?m mod 1000 < 1000" by simp_all
  have e: "?m div 1000 * 1000 + ?m mod 1000 = ?m" by simp
  have "- 2147483648 \<le> ?m div 1000" "?m div 1000 < 2147483648" using e m assms by linarith+
  then have "s32 (?m div 1000) = ?m div 1000" by (intro s32_id) (simp add: in_s32_def)
  moreover have "s32 (?m mod 1000 * 1000) = ?m mod 1000 * 1000" 
    using m by (intro s32_id) (simp only: in_s32_def, linarith)
  moreover have "?m div 1000 * 1000000 + ?m mod 1000 * 1000 = ?m * 1000" using e by linarith
  ultimately show ?thesis using m by (simp add: collie_sample_def d)
qed

theorem collie_sample_time_witness:
  "tv_sec (samp_tv (collie_sample \<lparr>tv_sec = 0, tv_usec = 0\<rparr> \<lparr>collie_y = 1, collie_x = 2, collie_pressure = 3, collie_millisecs = 12345\<rparr>)) * 1000000 +
   tv_usec (samp_tv (collie_sample \<lparr>tv_sec = 0, tv_usec = 0\<rparr> \<lparr>collie_y = 1, collie_x = 2, collie_pressure = 3, collie_millisecs = 12345\<rparr>)) = 12345000"
  using collie_sample_time [of "\<lparr>collie_y = 1, collie_x = 2, collie_pressure = 3, collie_millisecs = 12345\<rparr>" "\<lparr>tv_sec = 0, tv_usec = 0\<rparr>"]
  by simp

text \<open>
  The Tatung driver writes behind the caller's array. When the device delivers all the
  events asked for and none of them is the idle code, \<open>samp->pressure = 0\<close> behind the loop
  hits the place after the last sample.
\<close>

theorem tatung_read_overrun:
  assumes "rq d = RawEvents evs extra # q" "evs \<noteq> []" "nr = int (length evs)" "length samp = length evs"
    "\<forall>e \<in> set evs. \<not> tatung_idle e"
  shows "tatung_read (d, w) samp nr = Inl OutOfBounds"
proof -
  have "fetch nr d = (True, evs, d\<lparr>rq := q\<rparr>)" using assms(1-3) by (simp add: fetch_def)
  moreover have "tatung_loop (int (length evs)) nr evs 0 (d\<lparr>rq := q\<rparr>) samp = Inl OutOfBounds"
    by (rule tatung_loop_overrun) (use assms(4,5) in auto)
  ultimately show ?thesis by (simp add: tatung_read_def)
qed

theorem tatung_read_overrun_witness:
  "tatung_read (\<lparr>rq = [RawEvents [\<lparr>tatung_x1 = 10, tatung_x2 = 20, tatung_y1 = 30, tatung_y2 = 40\<rparr>] 0],
     clock = \<lambda>_. \<lparr>tv_sec = 0, tv_usec = 0\<rparr>, tick = 0\<rparr>, world0) [smp 0 0 0] 1 = Inl OutOfBounds"
  by (rule tatung_read_overrun [of _ "[\<lparr>tatung_x1 = 10, tatung_x2 = 20, tatung_y1 = 30, tatung_y2 = 40\<rparr>]" 0 "[]"])
    (simp_all add: tatung_idle_def)

end
