(* ===== verification/GalaxRaw.thy ===== *)
theory GalaxRaw
  imports InputRaw
begin

text \<open>
  The raw module for eGalax touch screens, src/tslib-1.1/plugins/galax-raw.c. It is written after
  input-raw.c and uses the same kernel interface (theory InputRaw); it also asks for the
  identity of the device (the ioctl EVIOCGID), which is an argument: \<open>None\<close> when the ioctl
  fails.
\<close>

record input_id =
  id_bustype :: nat
  id_vendor :: nat
  id_product :: nat
  id_version :: nat

definition VERSION_0112 :: int where "VERSION_0112 = 1"
definition VERSION_210 :: int where "VERSION_210 = 2"
definition VERSION_0100 :: int where "VERSION_0100 = 3"

record tslib_galax =
  gx_current_x :: int
  gx_current_y :: int
  gx_current_p :: int
  gx_model_version :: int
  gx_sane_fd :: int
  gx_grab_events :: int

text \<open>
  When EVIOCGID fails the code goes on with the variable \<open>infos\<close> it has not initialised; its
  content is the argument \<open>junk\<close>.
\<close>

definition galax_model :: "nat \<Rightarrow> int option" where
  "galax_model version =
     (if version = 274 then Some VERSION_0112
      else if version = 528 then Some VERSION_210
      else if version = 256 then Some VERSION_0100
      else None)"

text \<open>The checks behind the identification.\<close>

definition galax_check_caps :: "evdev_caps \<Rightarrow> tslib_galax \<Rightarrow> int \<times> tslib_galax" where
  "galax_check_caps caps i =
     (case cap_evbit caps of
        None \<Rightarrow> (-1, i)
      | Some evbit \<Rightarrow>
          if \<not> evbit EV_ABS \<or> \<not> evbit EV_KEY then (-1, i)
          else
            (case cap_absbit caps of
               None \<Rightarrow> (-1, i)
             | Some absbit \<Rightarrow>
                 if \<not> absbit ABS_X \<or> \<not> absbit ABS_Y then (-1, i)
                 else
                   (let i1 = (if \<not> absbit ABS_PRESSURE then i\<lparr>gx_current_p := 255\<rparr> else i);
                        no_button = (\<not> absbit ABS_PRESSURE \<and>
                          (case cap_keybit caps of
                             None \<Rightarrow> True
                           | Some keybit \<Rightarrow> \<not> (keybit BTN_TOUCH \<or> keybit BTN_LEFT)))
                    in
                      if no_button then (-1, i1)
                      else if \<not> evbit EV_SYN then (-1, i1)
                      else if gx_grab_events i1 = GRAB_EVENTS_WANTED then
                        if cap_grab caps \<noteq> 0 then (-1, i1)
                        else (0, i1\<lparr>gx_grab_events := GRAB_EVENTS_ACTIVE\<rparr>)
                      else (0, i1))))"

definition ts_galax_check_fd :: "input_id option \<Rightarrow> input_id \<Rightarrow> evdev_caps \<Rightarrow> tslib_galax \<Rightarrow> int \<times> tslib_galax" where
  "ts_galax_check_fd ident junk caps i =
     (case cap_version caps of
        None \<Rightarrow> (-1, i)
      | Some version \<Rightarrow>
          if version < EV_VERSION then (-1, i)
          else
            (let infos = (case ident of None \<Rightarrow> junk | Some d \<Rightarrow> d) in
             if ident \<noteq> None \<and> (id_bustype infos \<noteq> 3 \<or> id_vendor infos \<noteq> 3823 \<or> id_product infos \<noteq> 1) then (-1, i)
             else
               (case galax_model (id_version infos) of
                  None \<Rightarrow> (-1, i)
                | Some m \<Rightarrow> galax_check_caps caps (i\<lparr>gx_model_version := m\<rparr>))))"

text \<open>One event: the struct and the sample completed by an EV_SYN of any code.\<close>

definition galax_abs :: "nat \<Rightarrow> nat \<Rightarrow> tslib_galax \<Rightarrow> input_event \<Rightarrow> tslib_galax" where
  "galax_abs cx cy i ev =
     (if ev_code ev = cx then i\<lparr>gx_current_x := ev_value ev\<rparr>
      else if ev_code ev = cy then i\<lparr>gx_current_y := ev_value ev\<rparr>
      else if ev_code ev = ABS_PRESSURE then i\<lparr>gx_current_p := ev_value ev\<rparr>
      else i)"

definition galax_event :: "tslib_galax \<Rightarrow> input_event \<Rightarrow> tslib_galax \<times> ts_sample option" where
  "galax_event i ev =
     (if ev_type ev = EV_KEY then
        (if ev_code ev = BTN_TOUCH then
           if ev_value ev = 0 then i\<lparr>gx_current_x := 0, gx_current_y := 0, gx_current_p := 0\<rparr>
           else i\<lparr>gx_current_p := 255\<rparr>
         else i, None)
      else if ev_type ev = EV_SYN then
        (i, Some \<lparr>samp_x = gx_current_x i, samp_y = gx_current_y i, samp_pressure = word_of_int (gx_current_p i),
                  samp_tv = ev_time ev\<rparr>)
      else if ev_type ev = EV_ABS then
        (if gx_model_version i = VERSION_0112 then galax_abs (ABS_X + 2) (ABS_Y + 2) i ev
         else if gx_model_version i = VERSION_210 then galax_abs ABS_X ABS_Y i ev
         else if gx_model_version i = VERSION_0100 then galax_abs ABS_X ABS_Y i ev
         else i, None)
      else (i, None))"

text \<open>
  The loop. \<open>ret = total\<close> is its last statement, so after a read that fails \<open>ret\<close> is still the
  result of \<open>read\<close>; \<open>ret\<close> starts as \<open>nr\<close>.
\<close>

fun galax_loop ::
  "int \<Rightarrow> nat \<Rightarrow> int \<Rightarrow> tslib_galax \<Rightarrow> ts_sample list \<Rightarrow> dread list \<Rightarrow>
   fault + (int \<times> ts_sample list \<times> tslib_galax \<times> dread list)" where
  "galax_loop nr tot ret i buf ins =
     (if int tot < nr then
        (case ins of
           [] \<Rightarrow> Inr (-1, buf, i, [])
         | RdErr _ # ins' \<Rightarrow> Inr (-1, buf, i, ins')
         | RdData n ev # ins' \<Rightarrow>
             if min n 16 < 16 then Inr (int (min n 16), buf, i, ins')
             else
               (case galax_event i ev of
                  (i', None) \<Rightarrow> galax_loop nr tot (int tot) i' buf ins'
                | (i', Some s) \<Rightarrow>
                    if tot < length buf then galax_loop nr (tot + 1) (int tot + 1) i' (buf[tot := s]) ins'
                    else Inl OutOfBounds))
      else Inr (ret, buf, i, ins))"

declare galax_loop.simps [simp del]

definition ts_galax_read :: "input_id option \<Rightarrow> input_id \<Rightarrow> tslib_galax reader" where
  "ts_galax_read ident junk = (\<lambda>(i, w) samp nr.
     let i1 = (if gx_sane_fd i = 0 then
                 (case ts_galax_check_fd ident junk (w_caps w) i of (r, i') \<Rightarrow> i'\<lparr>gx_sane_fd := r\<rparr>) else i) in
     if gx_sane_fd i1 = -1 then Inl (ProcessExit 0)
     else
       (case galax_loop nr 0 nr i1 samp (w_in w) of
          Inl e \<Rightarrow> Inl e
        | Inr (ret, samp', i2, ins') \<Rightarrow> Inr (ret, samp', (i2, w\<lparr>w_in := ins'\<rparr>))))"

definition ts_galax_fini :: "tslib_galax \<Rightarrow> int \<times> bool" where
  "ts_galax_fini i = (0, gx_grab_events i = GRAB_EVENTS_ACTIVE)"

definition galax_parse_raw_grab :: "tslib_galax var_fn" where
  "galax_parse_raw_grab i str data errno =
     (case strtoul0 str errno of
        Inl e \<Rightarrow> Inl e
      | Inr (v, errno') \<Rightarrow>
          if v = ULONG_MAX \<and> errno' = ERANGE then Inr (i, -1, errno')
          else if data = 1 then Inr (if v \<noteq> 0 then i\<lparr>gx_grab_events := GRAB_EVENTS_WANTED\<rparr> else i, 0, errno)
          else Inr (i, -1, errno))"

definition galax_raw_vars :: "tslib_galax tslib_vars list" where
  "galax_raw_vars = [\<lparr>var_name = ''grab_events'', var_data = 1, var_fun = galax_parse_raw_grab\<rparr>]"

text \<open>\<open>model_version\<close> is not initialised: it is what \<open>malloc\<close> left there.\<close>

definition galax_mod_init :: "tslib_galax option \<Rightarrow> string option \<Rightarrow> int \<Rightarrow> fault + (tslib_galax option \<times> int)" where
  "galax_mod_init malloc_result params errno =
     (case malloc_result of
        None \<Rightarrow> Inr (None, errno)
      | Some mem \<Rightarrow>
          (case tslib_parse_vars galax_raw_vars params
                  (mem\<lparr>gx_current_x := 0, gx_current_y := 0, gx_current_p := 0, gx_sane_fd := 0, gx_grab_events := 0\<rparr>) errno of
             Inl e \<Rightarrow> Inl e
           | Inr (i, ret, errno') \<Rightarrow> Inr (if ret \<noteq> 0 then None else Some i, errno')))"

subsection \<open>Presses and releases\<close>

text \<open>The model of the device is known once the check has succeeded.\<close>

definition galax_wf :: "tslib_galax \<Rightarrow> bool" where
  "galax_wf i \<longleftrightarrow> gx_model_version i \<in> {VERSION_0112, VERSION_210, VERSION_0100}"

lemma galax_check_caps_model: "galax_check_caps caps i = (r, i') \<Longrightarrow> gx_model_version i' = gx_model_version i"
  by (auto simp: galax_check_caps_def Let_def split: option.splits if_splits)

lemma galax_check_wf: "ts_galax_check_fd ident junk caps i = (0, i') \<Longrightarrow> galax_wf i'"
  by (auto simp: ts_galax_check_fd_def Let_def galax_model_def galax_wf_def
      split: option.splits if_splits dest!: galax_check_caps_model)

fun galax_spec :: "tslib_galax \<Rightarrow> input_event list \<Rightarrow> ts_sample list \<times> tslib_galax" where
  "galax_spec i [] = ([], i)"
| "galax_spec i (ev # evs) =
     (case galax_event i ev of (i1, o1) \<Rightarrow> case galax_spec i1 evs of (out, i2) \<Rightarrow> (opt_list o1 @ out, i2))"

lemma galax_loop_spec:
  assumes "galax_spec i evs = (out, i')" "int (tot + length out) \<le> nr" "nr \<le> int (length buf)"
    "evs \<noteq> []" "ev_type (last evs) = EV_SYN" "int (tot + length out) = nr"
  shows "galax_loop nr tot ret i buf (map (RdData 16) evs @ ins) =
    Inr (nr, take tot buf @ out @ drop (tot + length out) buf, i', ins)"
  using assms
proof (induction evs arbitrary: i out tot ret buf)
  case (Cons ev evs)
  obtain i1 o1 out1 where e: "galax_event i ev = (i1, o1)" "galax_spec i1 evs = (out1, i')" "out = opt_list o1 @ out1"
    using Cons.prems(1) by (auto split: prod.splits)
  show ?case
  proof (cases "evs = []")
    case True
    with Cons.prems(5) e obtain s where s: "o1 = Some s" "i1 = i" by (auto simp: galax_event_def evdev_codes)
    have t: "int tot < nr" "tot < length buf" using Cons.prems(3,6) e s True by auto
    have "galax_loop nr (Suc tot) (int tot + 1) i (buf[tot := s]) ins = Inr (nr, buf[tot := s], i, ins)"
      using Cons.prems(6) e s True by (subst galax_loop.simps) auto
    moreover have "buf[tot := s] = take tot buf @ s # drop (Suc tot) buf" using t(2) by (rule upd_conv_take_nth_drop)
    ultimately show ?thesis
      using e s t True by (subst galax_loop.simps) simp
  next
    case False
    have l: "ev_type (last evs) = EV_SYN" using Cons.prems(5) False by simp
    have "out1 \<noteq> []"
      using e(2) False l
      by (induction evs arbitrary: i1 out1) (auto simp: galax_event_def evdev_codes split: prod.splits if_splits)
    then have t: "int tot < nr" "tot < length buf" using Cons.prems(3,6) e by (cases out1; auto)+
    show ?thesis
    proof (cases o1)
      case None
      with Cons.IH [OF e(2) _ Cons.prems(3) False l, of tot "int tot"] Cons.prems e t show ?thesis
        by (subst galax_loop.simps) simp
    next
      case (Some s)
      with Cons.IH [OF e(2) _ _ False l, of "Suc tot" "buf[tot := s]" "int tot + 1"] Cons.prems e t show ?thesis
        by (subst galax_loop.simps) simp
    qed
  qed
qed simp


lemma galax_loop_short:
  assumes "n < 16" "0 < nr"
  shows "galax_loop nr 0 ret i buf (RdData n e # ins) = Inr (int n, buf, i, ins)"
  using assms by (subst galax_loop.simps) (simp add: min_def)

text \<open>The concrete device of the examples.\<close>

definition egalax :: "nat \<Rightarrow> input_id" where
  "egalax version = \<lparr>id_bustype = 3, id_vendor = 3823, id_product = 1, id_version = version\<rparr>"

definition galax0 :: tslib_galax where
  "galax0 = \<lparr>gx_current_x = 0, gx_current_y = 0, gx_current_p = 0, gx_model_version = 0, gx_sane_fd = 0, gx_grab_events = 0\<rparr>"

lemma galax_check_example:
  "ts_galax_check_fd (Some (egalax 274)) junk caps_syn galax0 = (0, galax0\<lparr>gx_model_version := 1\<rparr>)"
  by (simp add: ts_galax_check_fd_def galax_check_caps_def galax_model_def egalax_def caps_syn_def galax0_def evdev_codes
      VERSION_0112_def GRAB_EVENTS_WANTED_def)

subsection \<open>Properties\<close>

text \<open>
  The eGalax module returns one sample per EV_SYN. For every run of events that ends in
  an EV_SYN, a read for as many samples as there are EV_SYN events in it takes exactly these
  events off the device and returns the samples the state machine of the events gives: the
  axes of the model found by the check, pressure 255 from the press on, and (0, 0, 0) after
  the release until the pen moves again.
\<close>

theorem ts_galax_read_reports:
  assumes "gx_sane_fd i = 0" "ts_galax_check_fd ident junk (w_caps w) i = (0, i1)"
    and "w_in w = map (RdData 16) evs @ rest" "evs \<noteq> []" "ev_type (last evs) = EV_SYN"
    and "galax_spec (i1\<lparr>gx_sane_fd := 0\<rparr>) evs = (out, i2)" "nr = int (length out)" "nr \<le> int (length samp)"
  shows "ts_galax_read ident junk (i, w) samp nr = Inr (nr, out @ drop (length out) samp, (i2, w\<lparr>w_in := rest\<rparr>))"
  using galax_loop_spec [OF assms(6), of 0 nr samp nr rest] assms by (simp add: ts_galax_read_def)

theorem ts_galax_read_reports_witness:
  "\<exists>i2. ts_galax_read (Some (egalax 274)) (egalax 0) (galax0, world0\<lparr>w_caps := caps_syn,
       w_in := map (RdData 16) [mk_ev 1 330 1, mk_ev 3 2 100, mk_ev 3 3 50, mk_ev 0 0 0, mk_ev 1 330 0, mk_ev 0 0 0]\<rparr>)
     [smp 1 1 1, smp 1 1 1] 2 =
   Inr (2, [smp 100 50 255, smp 0 0 0], (i2, world0\<lparr>w_caps := caps_syn, w_in := []\<rparr>))"
proof -
  let ?evs = "[mk_ev 1 330 1, mk_ev 3 2 100, mk_ev 3 3 50, mk_ev 0 0 0, mk_ev 1 330 0, mk_ev 0 0 0]"
  let ?w = "world0\<lparr>w_caps := caps_syn, w_in := map (RdData 16) ?evs\<rparr>"
  have "galax_spec (galax0\<lparr>gx_model_version := 1, gx_sane_fd := 0\<rparr>) ?evs =
      ([smp 100 50 255, smp 0 0 0], galax0\<lparr>gx_model_version := 1\<rparr>)"
    by (simp add: galax_event_def galax_abs_def evdev_codes VERSION_0112_def galax0_def mk_ev_def)
  then show ?thesis
    using ts_galax_read_reports [of galax0 "Some (egalax 274)" "egalax 0" ?w "galax0\<lparr>gx_model_version := 1\<rparr>" ?evs "[]"
        "[smp 100 50 255, smp 0 0 0]" "galax0\<lparr>gx_model_version := 1\<rparr>" 2 "[smp 1 1 1, smp 1 1 1]"]
    by (simp add: galax_check_example) (simp add: galax0_def mk_ev_def evdev_codes)
qed

text \<open>
  A short read is reported as samples. When \<open>read\<close> returns \<open>n\<close> bytes of an event, fewer
  than 16, the call returns \<open>n\<close> and has written no sample; the value -1 meant for this case
  goes to a variable nobody reads.
\<close>

theorem ts_galax_read_short:
  assumes "gx_sane_fd i = 0" "ts_galax_check_fd ident junk (w_caps w) i = (0, i1)"
    and "w_in w = RdData n e # rest" "n < 16" "0 < nr"
  shows "ts_galax_read ident junk (i, w) samp nr = Inr (int n, samp, (i1\<lparr>gx_sane_fd := 0\<rparr>, w\<lparr>w_in := rest\<rparr>))"
  using assms galax_loop_short [OF assms(4,5)] by (simp add: ts_galax_read_def)

theorem ts_galax_read_short_witness:
  "ts_galax_read (Some (egalax 274)) (egalax 0) (galax0, world0\<lparr>w_caps := caps_syn, w_in := [RdData 8 (mk_ev 0 0 0)]\<rparr>) [smp 1 1 1] 1 =
   Inr (8, [smp 1 1 1], (galax0\<lparr>gx_model_version := 1, gx_sane_fd := 0\<rparr>, world0\<lparr>w_caps := caps_syn, w_in := []\<rparr>))"
  using ts_galax_read_short [of galax0 "Some (egalax 274)" "egalax 0" "world0\<lparr>w_caps := caps_syn, w_in := [RdData 8 (mk_ev 0 0 0)]\<rparr>"
      "galax0\<lparr>gx_model_version := 1\<rparr>" 8 "mk_ev 0 0 0" "[]" 1 "[smp 1 1 1]"]
  by (simp add: galax_check_example) (simp add: galax0_def)

end
