(* ===== verification/Termios.thy ===== *)
theory Termios
  imports TsPrelude
begin

unbundle bit_operations_syntax

text \<open>
  The settings of a terminal as far as the serial touch screen modules and the serial loop test change
  them, with the flags of the Linux headers. The speed is part of the control flags; \<open>cfsetispeed\<close> and
  \<open>cfsetospeed\<close> put the same code there.
\<close>

record termios =
  c_iflag :: "32 word"
  c_oflag :: "32 word"
  c_cflag :: "32 word"
  c_lflag :: "32 word"
  c_line :: nat
  c_vtime :: nat
  c_vmin :: nat

definition IGNBRK :: "32 word" where "IGNBRK = 0x1"
definition BRKINT :: "32 word" where "BRKINT = 0x2"
definition IGNPAR :: "32 word" where "IGNPAR = 0x4"
definition PARMRK :: "32 word" where "PARMRK = 0x8"
definition INPCK :: "32 word" where "INPCK = 0x10"
definition ISTRIP :: "32 word" where "ISTRIP = 0x20"
definition INLCR :: "32 word" where "INLCR = 0x40"
definition IGNCR :: "32 word" where "IGNCR = 0x80"
definition ICRNL :: "32 word" where "ICRNL = 0x100"
definition IXON :: "32 word" where "IXON = 0x400"
definition IXOFF :: "32 word" where "IXOFF = 0x1000"
definition OPOST :: "32 word" where "OPOST = 0x1"
definition CSIZE :: "32 word" where "CSIZE = 0x30"
definition CS7 :: "32 word" where "CS7 = 0x20"
definition CS8 :: "32 word" where "CS8 = 0x30"
definition CSTOPB :: "32 word" where "CSTOPB = 0x40"
definition CREAD :: "32 word" where "CREAD = 0x80"
definition PARENB :: "32 word" where "PARENB = 0x100"
definition PARODD :: "32 word" where "PARODD = 0x200"
definition HUPCL :: "32 word" where "HUPCL = 0x400"
definition CLOCAL :: "32 word" where "CLOCAL = 0x800"
definition CBAUD :: "32 word" where "CBAUD = 0x100F"
definition B9600 :: "32 word" where "B9600 = 0xD"
definition ISIG :: "32 word" where "ISIG = 0x1"
definition ICANON :: "32 word" where "ICANON = 0x2"
definition ECHO :: "32 word" where "ECHO = 0x8"
definition ECHONL :: "32 word" where "ECHONL = 0x40"
definition IEXTEN :: "32 word" where "IEXTEN = 0x8000"

lemmas termios_defs = IGNBRK_def BRKINT_def IGNPAR_def PARMRK_def INPCK_def ISTRIP_def INLCR_def IGNCR_def ICRNL_def IXON_def
  IXOFF_def OPOST_def CSIZE_def CS7_def CS8_def CSTOPB_def CREAD_def PARENB_def PARODD_def HUPCL_def CLOCAL_def CBAUD_def B9600_def
  ISIG_def ICANON_def ECHO_def ECHONL_def IEXTEN_def

definition cfsetspeed :: "32 word \<Rightarrow> termios \<Rightarrow> termios" where
  "cfsetspeed code t = t\<lparr>c_cflag := (c_cflag t AND NOT CBAUD) OR code\<rparr>"

text \<open>
  What a binary protocol needs: bytes pass unchanged and at once in both directions, eight bits without
  parity and with one stop bit at the given speed, and no modem control.
\<close>

definition raw_line :: "32 word \<Rightarrow> termios \<Rightarrow> bool" where
  "raw_line code t \<longleftrightarrow>
     c_iflag t AND (BRKINT OR PARMRK OR ISTRIP OR INLCR OR IGNCR OR ICRNL OR IXON OR IXOFF) = 0 \<and>
     c_oflag t AND OPOST = 0 \<and> c_lflag t AND (ECHO OR ECHONL OR ICANON OR ISIG OR IEXTEN) = 0 \<and>
     c_cflag t AND (CSIZE OR CSTOPB OR PARENB) = CS8 \<and> c_cflag t AND CLOCAL = CLOCAL \<and> c_cflag t AND CBAUD = code"

lemma word_and_not_and: "(w AND NOT m) AND m' = w AND (NOT m AND m')" for w :: "'a::len word"
  by (simp add: ac_simps)

lemma word_or_and: "(w OR m) AND m' = (w AND m') OR (m AND m')" for w :: "'a::len word"
  by (simp add: bit.conj_disj_distrib2)

end
