(* ===== verification/DmcRaw.thy ===== *)
theory DmcRaw
  imports TsTypes Termios
begin

text \<open>
  The raw module for DMC serial touch screens, src/tslib-1.1/plugins/dmc-raw.c. The device is the
  stream of bytes the line has delivered; a read returns what there is of the bytes asked
  for. A release is the byte 0x10, a press the byte 0x11 and two big-endian coordinates.
\<close>

record tslib_dmc =
  dmc_x :: int
  dmc_y :: int
  dmc_sane_fd :: int

record dmcdev =
  dmc_mod :: tslib_dmc
  dmc_line :: "8 word list"
  dmc_clock :: "nat \<Rightarrow> timeval"
  dmc_tick :: nat

definition EINVAL :: int where "EINVAL = 22"

text \<open>The terminal settings of \<open>dmc_init_device\<close>.\<close>

definition dmc_termios :: "termios \<Rightarrow> termios" where
  "dmc_termios t =
     (let t = t\<lparr>c_iflag := c_iflag t AND NOT (IGNBRK OR BRKINT OR PARMRK OR ISTRIP OR INLCR OR IGNCR OR ICRNL OR IXON OR IXOFF),
            c_oflag := c_oflag t AND NOT OPOST,
            c_lflag := c_lflag t AND NOT (ECHO OR ECHONL OR ICANON OR ISIG OR IEXTEN),
            c_cflag := (c_cflag t AND NOT (CSIZE OR PARENB OR CSTOPB)) OR (CS8 OR CLOCAL)\<rparr> in
      (cfsetspeed B9600 t)\<lparr>c_vmin := 3, c_vtime := 1\<rparr>)"

text \<open>
  The function: the settings that the line has and gets, and the dialogue, with the results of the three
  writes and of the read between the second and the third. The byte read only decides about
  a warning.
\<close>

definition dmc_init_device :: "termios \<Rightarrow> int \<Rightarrow> int \<Rightarrow> int \<times> 8 word \<Rightarrow> int \<Rightarrow> int \<times> termios" where
  "dmc_init_device t write1 write2 read1 write3 =
     (let t = dmc_termios t in
      if write1 \<noteq> 1 then (EINVAL, t)
      else if write2 \<noteq> 2 then (EINVAL, t)
      else if fst read1 \<noteq> 1 then (EINVAL, t)
      else if write3 \<noteq> 1 then (EINVAL, t)
      else (0, t))"

definition be16 :: "8 word \<Rightarrow> 8 word \<Rightarrow> int" where
  "be16 hi lo = push_bit 8 (uint hi) + uint lo"

text \<open>
  The loop of \<open>dmc_read\<close>: \<open>i\<close> is the loop variable, \<open>k\<close> the position of \<open>samp\<close> in the array.
  \<open>continue\<close> goes on with \<open>i + 1\<close>; \<open>break\<close> comes after \<open>--i\<close>.
\<close>

function dmc_loop :: "int \<Rightarrow> int \<Rightarrow> nat \<Rightarrow> dmcdev \<Rightarrow> ts_sample list \<Rightarrow> fault + (int \<times> ts_sample list \<times> dmcdev)" where
  "dmc_loop nr i k d buf =
     (if i < nr then
        (case dmc_line d of
           [] \<Rightarrow> Inr (i - 1, buf, d)
         | c # line1 \<Rightarrow>
             if c = 16 then
               if k < length buf then
                 dmc_loop nr (i + 1) (k + 1) (d\<lparr>dmc_line := line1, dmc_tick := dmc_tick d + 1\<rparr>)
                   (buf[k := \<lparr>samp_x = dmc_x (dmc_mod d), samp_y = dmc_y (dmc_mod d), samp_pressure = 0,
                              samp_tv = dmc_clock d (dmc_tick d)\<rparr>])
               else Inl OutOfBounds
             else if c = 17 then
               (case line1 of
                  b0 # b1 # b2 # b3 # line2 \<Rightarrow>
                    if k < length buf then
                      dmc_loop nr (i + 1) (k + 1)
                        (d\<lparr>dmc_mod := (dmc_mod d)\<lparr>dmc_x := be16 b0 b1, dmc_y := be16 b2 b3\<rparr>, dmc_line := line2,
                           dmc_tick := dmc_tick d + 1\<rparr>)
                        (buf[k := \<lparr>samp_x = be16 b0 b1, samp_y = be16 b2 b3, samp_pressure = 100,
                                   samp_tv = dmc_clock d (dmc_tick d)\<rparr>])
                    else Inl OutOfBounds
                | _ \<Rightarrow> Inr (i - 1, buf, d\<lparr>dmc_line := []\<rparr>))
             else dmc_loop nr (i + 1) k (d\<lparr>dmc_line := line1\<rparr>) buf)
      else Inr (i, buf, d))"
  by pat_completeness auto
termination
  by (relation "measure (\<lambda>(nr, i, k, d, buf). nat (nr - i))") auto

declare dmc_loop.simps [simp del]

definition dmc_read :: "dmcdev reader" where
  "dmc_read = (\<lambda>(d, w) samp nr.
     case dmc_loop nr 0 0 d samp of
       Inl e \<Rightarrow> Inl e
     | Inr (ret, samp', d') \<Rightarrow> Inr (ret, samp', (d', w)))"

definition dmc_mod_init :: "int \<Rightarrow> bool \<Rightarrow> tslib_dmc option" where
  "dmc_mod_init init_result calloc_ok =
     (if init_result \<noteq> 0 then None
      else if \<not> calloc_ok then None
      else Some \<lparr>dmc_x = 0, dmc_y = 0, dmc_sane_fd = 0\<rparr>)"

text \<open>
  Whatever the line was set to, it ends up as a raw line at 9600 baud; the receiver is as it was, because
  \<open>CREAD\<close> is not touched.
\<close>

lemma dmc_init_device_raw_line:
  "raw_line B9600 (snd (dmc_init_device t w1 w2 r w3))" "c_cflag (snd (dmc_init_device t w1 w2 r w3)) AND CREAD = c_cflag t AND CREAD"
  by (auto simp: dmc_init_device_def dmc_termios_def cfsetspeed_def raw_line_def Let_def termios_defs word_or_and and.assoc)

subsection \<open>Packets\<close>

datatype dmc_packet = DmcRelease | DmcPress "8 word" "8 word" "8 word" "8 word"

fun dmc_bytes :: "dmc_packet \<Rightarrow> 8 word list" where
  "dmc_bytes DmcRelease = [16]"
| "dmc_bytes (DmcPress a b c e) = [17, a, b, c, e]"

fun dmc_sample :: "timeval \<Rightarrow> tslib_dmc \<Rightarrow> dmc_packet \<Rightarrow> tslib_dmc \<times> ts_sample" where
  "dmc_sample now m DmcRelease =
     (m, \<lparr>samp_x = dmc_x m, samp_y = dmc_y m, samp_pressure = 0, samp_tv = now\<rparr>)"
| "dmc_sample now m (DmcPress a b c e) =
     (m\<lparr>dmc_x := be16 a b, dmc_y := be16 c e\<rparr>,
      \<lparr>samp_x = be16 a b, samp_y = be16 c e, samp_pressure = 100, samp_tv = now\<rparr>)"

fun dmc_samples :: "(nat \<Rightarrow> timeval) \<Rightarrow> nat \<Rightarrow> tslib_dmc \<Rightarrow> dmc_packet list \<Rightarrow> ts_sample list" where
  "dmc_samples clk t m [] = []"
| "dmc_samples clk t m (p # ps) =
     (case dmc_sample (clk t) m p of (m', s) \<Rightarrow> s # dmc_samples clk (Suc t) m' ps)"

lemma length_dmc_samples [simp]: "length (dmc_samples clk t m ps) = length ps"
  by (induction ps arbitrary: t m) (auto split: prod.splits)

lemma dmc_loop_packet:
  assumes "i < nr" "k < length buf" "dmc_line d = dmc_bytes p @ line" "dmc_sample (dmc_clock d (dmc_tick d)) (dmc_mod d) p = (m, s)"
  shows "dmc_loop nr i k d buf =
    dmc_loop nr (i + 1) (k + 1) (d\<lparr>dmc_mod := m, dmc_line := line, dmc_tick := dmc_tick d + 1\<rparr>) (buf[k := s])"
proof (cases p)
  case DmcRelease
  with assms have "m = dmc_mod d" by simp
  with assms DmcRelease show ?thesis by (subst dmc_loop.simps) simp
next
  case (DmcPress a b c e)
  with assms show ?thesis by (subst dmc_loop.simps) auto
qed

lemma dmc_loop_packets:
  assumes "i + int (length ps) \<le> nr" "k + length ps \<le> length buf" "dmc_line d = concat (map dmc_bytes ps) @ line"
  shows "\<exists>d'. dmc_loop nr i k d buf =
    dmc_loop nr (i + int (length ps)) (k + length ps) d'
      (take k buf @ dmc_samples (dmc_clock d) (dmc_tick d) (dmc_mod d) ps @ drop (k + length ps) buf) \<and> dmc_line d' = line"
  using assms
proof (induction ps arbitrary: i k d buf)
  case Nil
  then show ?case by auto
next
  case (Cons p ps)
  obtain m s where ms: "dmc_sample (dmc_clock d (dmc_tick d)) (dmc_mod d) p = (m, s)" by fastforce
  let ?line = "concat (map dmc_bytes ps) @ line"
  let ?d = "d\<lparr>dmc_mod := m, dmc_line := ?line, dmc_tick := dmc_tick d + 1\<rparr>"
  have "dmc_loop nr i k d buf = dmc_loop nr (i + 1) (k + 1) ?d (buf[k := s])"
    by (rule dmc_loop_packet [OF _ _ _ ms]) (use Cons.prems in auto)
  with Cons.IH [of "i + 1" "k + 1" "buf[k := s]" ?d] Cons.prems show ?case
    by (auto simp: ms algebra_simps)
qed

lemma dmc_loop_ok:
  assumes "int k \<le> i" "i \<le> nr" "nr \<le> int (length buf)"
  shows "\<exists>ret buf' d'. dmc_loop nr i k d buf = Inr (ret, buf', d') \<and> ret \<le> nr \<and> length buf' = length buf \<and>
    drop (nat nr) buf' = drop (nat nr) buf"
  using assms
proof (induction nr i k d buf rule: dmc_loop.induct)
  case (1 nr i k d buf)
  show ?case
  proof (cases "i < nr")
    case False
    with "1.prems" show ?thesis by (subst dmc_loop.simps) simp
  next
    case True
    have kn: "k < length buf" "nat nr > k" using True "1.prems" by simp_all
    show ?thesis
    proof (cases "dmc_line d")
      case Nil
      with True "1.prems" show ?thesis by (subst dmc_loop.simps) simp
    next
      case (Cons c line1)
      show ?thesis
        using "1.IH" [OF True Cons] "1.prems" True kn Cons
        by (subst dmc_loop.simps) (auto split: list.splits)
    qed
  qed
qed

interpretation dmc: ts_source dmc_read "\<lambda>_. True"
proof (unfold_locales, goal_cases)
  case (1 s nr buf)
  obtain d w where s: "s = (d, w)" by (cases s)
  show ?case using dmc_loop_ok [of 0 0 nr buf d] 1 by (auto simp: s dmc_read_def)
qed

subsection \<open>Properties\<close>

text \<open>
  The DMC module decodes every complete packet, but when the line runs dry it reports one
  sample fewer than it has stored. With \<open>m\<close> packets on the line the array gets \<open>m\<close> samples
  (presses with their coordinates, releases at the last position); a call for exactly \<open>m\<close>
  returns \<open>m\<close>, a call for more returns \<open>m - 1\<close>: -1 for no packet, and 0 for one.
\<close>

theorem dmc_read_packets:
  assumes "dmc_line d = concat (map dmc_bytes ps)" "int (length ps) \<le> nr" "nr \<le> int (length samp)"
  shows "\<exists>d'. dmc_read (d, w) samp nr =
    Inr (if int (length ps) = nr then nr else int (length ps) - 1,
         dmc_samples (dmc_clock d) (dmc_tick d) (dmc_mod d) ps @ drop (length ps) samp, (d', w))"
proof -
  obtain d' where d': "dmc_loop nr 0 0 d samp =
      dmc_loop nr (int (length ps)) (length ps) d' (dmc_samples (dmc_clock d) (dmc_tick d) (dmc_mod d) ps @ drop (length ps) samp)"
    "dmc_line d' = []"
    using dmc_loop_packets [of 0 ps nr 0 samp d "[]"] assms by auto
  show ?thesis
    using d' assms(2) by (subst (asm) dmc_loop.simps [of nr "int (length ps)"]) (auto simp: dmc_read_def)
qed

theorem dmc_read_packets_witness:
  "\<exists>d'. dmc_read (\<lparr>dmc_mod = \<lparr>dmc_x = 0, dmc_y = 0, dmc_sane_fd = 0\<rparr>, dmc_line = [17, 1, 2, 0, 9], dmc_clock = \<lambda>_. \<lparr>tv_sec = 0, tv_usec = 0\<rparr>,
       dmc_tick = 0\<rparr>, world0) [smp 1 1 1, smp 1 1 1] 2 = Inr (0, [smp 258 9 100, smp 1 1 1], (d', world0))"
proof -
  let ?d = "\<lparr>dmc_mod = \<lparr>dmc_x = 0, dmc_y = 0, dmc_sane_fd = 0\<rparr>, dmc_line = [17, 1, 2, 0, 9],
    dmc_clock = \<lambda>_. \<lparr>tv_sec = 0, tv_usec = 0\<rparr>, dmc_tick = 0\<rparr>"
  have "be16 1 2 = 258" "be16 0 9 = 9" by (simp_all add: be16_def)
  then show ?thesis
    using dmc_read_packets [of ?d "[DmcPress 1 2 0 9]" 2 "[smp 1 1 1, smp 1 1 1]" world0] by simp
qed

end
