(* ===== verification/TouchKit.thy ===== *)
theory TouchKit
  imports TsTypes Termios
begin

text \<open>
  The raw module for TouchKit serial touch screens, src/tslib-1.1/plugins/touchkit-raw.c. Bytes
  are collected in a static buffer of 100 until a packet of five is complete. The device is a
  script of the byte strings \<open>read(2)\<close> returns, cut to the five bytes asked for; the empty
  string and an empty script are a result that is not positive.
\<close>

definition PACKET_SIZE :: nat where "PACKET_SIZE = 5"
definition BUFFER_SIZE :: nat where "BUFFER_SIZE = 100"

definition IsStart :: "8 word \<Rightarrow> bool" where
  "IsStart b \<longleftrightarrow> b OR 1 = 129"

record touchkit =
  tk_initDone :: int
  tk_buffer :: "8 word list"
  tk_pos :: nat
  tk_line :: "8 word list list"
  tk_clock :: "nat \<Rightarrow> timeval"
  tk_tick :: nat
  tk_tty :: termios

definition touchkit_init :: "termios \<Rightarrow> int \<times> termios" where
  "touchkit_init tty =
     (1, tty\<lparr>c_iflag := IGNBRK OR IGNPAR, c_oflag := 0, c_lflag := 0, c_line := 0, c_vtime := 0, c_vmin := 1,
          c_cflag := (CS8 OR CREAD OR CLOCAL OR HUPCL) OR B9600\<rparr>)"

lemma touchkit_init_raw_line: "raw_line B9600 (snd (touchkit_init tty))"
  by (simp add: touchkit_init_def raw_line_def termios_defs)

text \<open>\<open>memcpy(buffer, buffer + p, n)\<close>.\<close>

definition shift_down :: "8 word list \<Rightarrow> nat \<Rightarrow> nat \<Rightarrow> 8 word list" where
  "shift_down b p n = take n (drop p b) @ drop n b"

text \<open>The inner loop: the first \<open>q\<close> from the argument up to 4 with a start byte, or 5.\<close>

function first_start :: "8 word list \<Rightarrow> nat \<Rightarrow> nat \<Rightarrow> nat" where
  "first_start b p q = (if q < 5 then if IsStart (b ! (p + q)) then q else first_start b p (q + 1) else q)"
  by pat_completeness auto
termination
  by (relation "measure (\<lambda>(b, p, q). 5 - q)") auto

declare first_start.simps [simp del]

definition decode :: "timeval \<Rightarrow> 8 word list \<Rightarrow> nat \<Rightarrow> ts_sample" where
  "decode now b p =
     \<lparr>samp_x = push_bit 7 (uint (b ! (p + 1)) AND 15) OR (uint (b ! (p + 2)) AND 127),
      samp_y = push_bit 7 (uint (b ! (p + 3)) AND 15) OR (uint (b ! (p + 4)) AND 127),
      samp_pressure = (if (b ! p) AND 1 \<noteq> 0 then 200 else 0), samp_tv = now\<rparr>"

text \<open>
  The outer loop from position \<open>p\<close> on: the buffer, \<open>pos\<close> and the sample when one is found.
  After a start byte within a packet, \<open>p += q - 1\<close> and the increment of the loop lead to
  that byte.
\<close>

lemma first_start_ge: "q \<le> 5 \<Longrightarrow> q \<le> first_start b p q \<and> first_start b p q \<le> 5"
proof (induction b p q rule: first_start.induct)
  case (1 b p q)
  then show ?case by (auto simp: first_start.simps [of b p q])
qed

function scan :: "timeval \<Rightarrow> 8 word list \<Rightarrow> nat \<Rightarrow> nat \<Rightarrow> 8 word list \<times> nat \<times> ts_sample option" where
  "scan now b pos p =
     (if p < pos then
        if IsStart (b ! p) then
          if pos < p + 5 then
            if 0 < p then (shift_down b p (pos - p), pos - p, None) else (b, pos, None)
          else
            (let q = first_start b p 1 in
             if q < 5 then scan now b pos (p + q)
             else (shift_down b (p + 5) (pos - p - 5), pos - (p + 5), Some (decode now b p)))
        else scan now b pos (p + 1)
      else (b, pos, None))"
  by pat_completeness auto
termination
proof (relation "measure (\<lambda>(now, b, pos, p). pos - p)", goal_cases)
  case 1
  then show ?case by simp
next
  case (2 now b pos p q)
  then show ?case using first_start_ge [of 1 b p] by simp
next
  case (3 now b pos p)
  then show ?case by simp
qed

declare scan.simps [simp del]

definition touchkit_read :: "touchkit reader" where
  "touchkit_read = (\<lambda>(t, w) samp nr.
     let t1 = (if tk_initDone t = 0 then t\<lparr>tk_initDone := fst (touchkit_init (tk_tty t)), tk_tty := snd (touchkit_init (tk_tty t))\<rparr> else t) in
     if tk_initDone t1 = -1 then Inr (-1, samp, (t1, w))
     else
       (case tk_line t1 of
          [] \<Rightarrow> Inr (-1, samp, (t1, w))
        | chunk # line' \<Rightarrow>
            (let bytes = take 5 chunk; t2 = t1\<lparr>tk_line := line'\<rparr>; pos0 = tk_pos t2 in
             if bytes = [] then Inr (-1, samp, (t2, w))
             else if 100 < pos0 + length bytes then Inl OutOfBounds
             else
               (let b = take pos0 (tk_buffer t2) @ bytes @ drop (pos0 + length bytes) (tk_buffer t2);
                    pos = pos0 + length bytes;
                    t3 = t2\<lparr>tk_buffer := b, tk_pos := pos\<rparr>
                in
                  if pos < 5 then Inr (0, samp, (t3, w))
                  else
                    (case scan (tk_clock t3 (tk_tick t3)) b pos 0 of
                       (b', pos', None) \<Rightarrow> Inr (0, samp, (t3\<lparr>tk_buffer := b', tk_pos := pos'\<rparr>, w))
                     | (b', pos', Some s) \<Rightarrow>
                         if samp = [] then Inl OutOfBounds
                         else Inr (1, samp[0 := s], (t3\<lparr>tk_buffer := b', tk_pos := pos', tk_tick := tk_tick t3 + 1\<rparr>, w)))))))"

definition touchkit_mod_init :: "bool \<Rightarrow> unit option" where
  "touchkit_mod_init malloc_ok = (if malloc_ok then Some () else None)"

subsection \<open>Packets\<close>

text \<open>The packet the head comment of the file describes, for 11-bit coordinates.\<close>

definition packet :: "bool \<Rightarrow> nat \<Rightarrow> nat \<Rightarrow> 8 word list" where
  "packet touched u v =
     [if touched then 129 else 128, word_of_nat (u div 128), word_of_nat (u mod 128),
      word_of_nat (v div 128), word_of_nat (v mod 128)]"

definition tk_wf :: "touchkit \<Rightarrow> bool" where
  "tk_wf t \<longleftrightarrow> length (tk_buffer t) = 100 \<and> tk_pos t \<le> 100 \<and> tk_initDone t \<in> {0, 1}"

lemma IsStart_iff: "IsStart b \<longleftrightarrow> b = 128 \<or> b = 129"
proof -
  have "b OR 1 = b + of_bool (even b)" by (rule or_one_eq)
  moreover have "b + 1 = 129 \<longleftrightarrow> b = 128" using add_right_cancel [of b 1 128] by simp
  ultimately show ?thesis by (cases "even b") (auto simp: IsStart_def)
qed

lemma small_no_start: "n < 128 \<Longrightarrow> \<not> IsStart (word_of_nat n)"
proof -
  assume n: "n < 128"
  then have "unat (word_of_nat n :: 8 word) = n" by (simp add: unsigned_of_nat take_bit_nat_eq_self)
  with n have "word_of_nat n \<noteq> (128 :: 8 word)" "word_of_nat n \<noteq> (129 :: 8 word)" by auto
  then show ?thesis by (simp add: IsStart_iff)
qed

lemma digits_7:
  assumes "n < 2048"
  shows "push_bit 7 (uint (word_of_nat (n div 128) :: 8 word) AND 15) OR (uint (word_of_nat (n mod 128) :: 8 word) AND 127) = int n"
proof -
  have hi: "uint (word_of_nat (n div 128) :: 8 word) = int (n div 128)"
    using assms by (simp add: unsigned_of_nat take_bit_nat_eq_self)
  have lo: "uint (word_of_nat (n mod 128) :: 8 word) = int (n mod 128)"
    by (simp add: unsigned_of_nat take_bit_nat_eq_self)
  have "int (n div 128) mod 16 = int (n div 128)" using assms by simp
  moreover have "take_bit 7 (int (n mod 128)) = int (n mod 128)" by (simp add: take_bit_int_eq_self)
  moreover have "128 * int (n div 128) + int (n mod 128) = int n"
    by (metis mult_div_mod_eq of_nat_add of_nat_mult of_nat_numeral)
  moreover have "push_bit 7 (int (n div 128) AND 15) OR (int (n mod 128) AND 127) =
      push_bit 7 (int (n div 128) mod 16) + take_bit 7 (int (n mod 128))"
    by (simp only: and_15_eq_mod and_127_eq_take_bit push_bit_or_take_bit)
  ultimately show ?thesis by (simp add: hi lo push_bit_eq_mult)
qed

lemma first_start_none:
  "\<forall>k. q \<le> k \<and> k < 5 \<longrightarrow> \<not> IsStart (b ! (p + k)) \<Longrightarrow> q \<le> 5 \<Longrightarrow> first_start b p q = 5"
proof (induction b p q rule: first_start.induct)
  case (1 b p q)
  then show ?case by (auto simp: first_start.simps [of b p q])
qed

text \<open>A whole packet at the start of the buffer is decoded and taken out.\<close>

lemma scan_packet:
  assumes "u < 2048" "v < 2048" "b = packet touched u v @ rest" "5 \<le> pos"
  shows "scan now b pos 0 = (shift_down b 5 (pos - 5), pos - 5,
    Some \<lparr>samp_x = int u, samp_y = int v, samp_pressure = (if touched then 200 else 0), samp_tv = now\<rparr>)"
proof -
  have n: "\<not> IsStart (word_of_nat (n div 128))" "\<not> IsStart (word_of_nat (n mod 128))" if "n < 2048" for n
    using that by (auto intro!: small_no_start)
  have "\<not> IsStart (b ! k)" if "1 \<le> k" "k < 5" for k
  proof -
    from that consider "k = 1" | "k = 2" | "k = 3" | "k = 4" by linarith
    then show ?thesis by cases (simp_all add: n [OF assms(1)] n [OF assms(2)] assms(3) packet_def)
  qed
  then have q: "first_start b 0 1 = 5" by (intro first_start_none) auto
  have s: "IsStart (b ! 0)" by (simp add: IsStart_iff assms(3) packet_def)
  have d: "decode now b 0 = \<lparr>samp_x = int u, samp_y = int v, samp_pressure = (if touched then 200 else 0), samp_tv = now\<rparr>"
    using digits_7 [OF assms(1)] digits_7 [OF assms(2)] by (simp add: decode_def assms(3) packet_def)
  show ?thesis using assms(4) s q d by (subst scan.simps) simp
qed

text \<open>Bytes without a start byte stay in the buffer.\<close>

lemma scan_garbage: "\<forall>k < pos. \<not> IsStart (b ! k) \<Longrightarrow> scan now b pos p = (b, pos, None)"
proof (induction now b pos p rule: scan.induct)
  case (1 now b pos p)
  then show ?case by (simp add: scan.simps [of now b pos p])
qed


definition touchkit0 :: "8 word list list \<Rightarrow> touchkit" where
  "touchkit0 line = \<lparr>tk_initDone = 0, tk_buffer = replicate 100 0, tk_pos = 0, tk_line = line,
     tk_clock = \<lambda>_. \<lparr>tv_sec = 0, tv_usec = 0\<rparr>, tk_tick = 0, tk_tty = \<lparr>c_iflag = 0, c_oflag = 0, c_cflag = 0, c_lflag = 0, c_line = 0, c_vtime = 0, c_vmin = 0\<rparr>\<rparr>"

text \<open>A number of calls one after the other, up to the first fault.\<close>

fun touchkit_calls :: "nat \<Rightarrow> touchkit \<times> world \<Rightarrow> ts_sample list \<Rightarrow> fault + (ts_sample list \<times> (touchkit \<times> world))" where
  "touchkit_calls 0 s samp = Inr (samp, s)"
| "touchkit_calls (Suc n) s samp =
     (case touchkit_read s samp 1 of
        Inl e \<Rightarrow> Inl e
      | Inr (ret, samp', s') \<Rightarrow> touchkit_calls n s' samp')"

lemma touchkit_read_garbage:
  assumes "tk_wf t" "tk_line t = g # line" "length g = 5" "\<forall>c \<in> set g. \<not> IsStart c"
    "\<forall>k < tk_pos t. \<not> IsStart (tk_buffer t ! k)" "tk_pos t \<le> 95"
  shows "\<exists>t'. touchkit_read (t, w) samp 1 = Inr (0, samp, (t', w)) \<and> tk_wf t' \<and> tk_line t' = line \<and>
    tk_pos t' = tk_pos t + 5 \<and> (\<forall>k < tk_pos t'. \<not> IsStart (tk_buffer t' ! k))"
proof -
  let ?b = "take (tk_pos t) (tk_buffer t) @ g @ drop (tk_pos t + 5) (tk_buffer t)" and ?pos = "tk_pos t + 5"
  have l: "length ?b = 100" "length (tk_buffer t) = 100" using assms(1,3,6) by (auto simp: tk_wf_def)
  have ns: "\<forall>k < ?pos. \<not> IsStart (?b ! k)"
    using assms(3-6) l by (auto simp: nth_append)
  have init: "tk_initDone t = 0 \<or> tk_initDone t = 1" using assms(1) by (auto simp: tk_wf_def)
  have g: "g \<noteq> []" "take 5 g = g" using assms(3) by auto
  let ?t = "(if tk_initDone t = 0 then t\<lparr>tk_initDone := 1, tk_tty := snd (touchkit_init (tk_tty t))\<rparr> else t)\<lparr>tk_line := line, tk_buffer := ?b, tk_pos := ?pos\<rparr>"
  have "touchkit_read (t, w) samp 1 = Inr (0, samp, (?t, w))"
    using init g assms(2,3,6) scan_garbage [OF ns]
    by (auto simp: touchkit_read_def touchkit_init_def Let_def)
  moreover have "tk_wf ?t" using l init assms(6) by (auto simp: tk_wf_def)
  ultimately show ?thesis using ns by (intro exI [of _ ?t]) auto
qed

lemma touchkit_read_full:
  assumes "tk_wf t" "tk_line t = g # line" "g \<noteq> []" "tk_pos t = 100"
  shows "touchkit_read (t, w) samp nr = Inl OutOfBounds"
  using assms by (auto simp: touchkit_read_def touchkit_init_def Let_def tk_wf_def)

lemma touchkit_calls_garbage:
  assumes "tk_wf t" "tk_line t = replicate (Suc n) g" "length g = 5" "\<forall>c \<in> set g. \<not> IsStart c"
    "\<forall>k < tk_pos t. \<not> IsStart (tk_buffer t ! k)" "tk_pos t + 5 * n = 100"
  shows "touchkit_calls (Suc n) (t, w) samp = Inl OutOfBounds"
  using assms
proof (induction n arbitrary: t)
  case 0
  then show ?case using touchkit_read_full [of t g "[]" w samp 1] by (cases "g = []") auto
next
  case (Suc n)
  obtain t' where t': "touchkit_read (t, w) samp 1 = Inr (0, samp, (t', w))" "tk_wf t'" "tk_line t' = replicate (Suc n) g"
    "tk_pos t' = tk_pos t + 5" "\<forall>k < tk_pos t'. \<not> IsStart (tk_buffer t' ! k)"
    using touchkit_read_garbage [OF Suc.prems(1) _ Suc.prems(3-5), of "replicate (Suc n) g" w samp] Suc.prems(2,6) by auto
  have "touchkit_calls (Suc n) (t', w) samp = Inl OutOfBounds"
    by (rule Suc.IH) (use t' Suc.prems in auto)
  with t'(1) show ?case by simp
qed

subsection \<open>Properties\<close>

text \<open>
  The TouchKit module understands the packets its head comment describes. For all 11-bit
  coordinates, a packet that arrives in one piece with nothing pending gives exactly the
  position and the touch state it encodes, and leaves nothing pending.
\<close>

theorem touchkit_read_packet:
  assumes "tk_wf t" "tk_pos t = 0" "tk_line t = packet touched u v # line" "u < 2048" "v < 2048" "samp \<noteq> []"
  shows "\<exists>t'. touchkit_read (t, w) samp nr =
     Inr (1, samp[0 := \<lparr>samp_x = int u, samp_y = int v, samp_pressure = (if touched then 200 else 0),
                        samp_tv = tk_clock t (tk_tick t)\<rparr>], (t', w)) \<and> tk_pos t' = 0 \<and> tk_line t' = line \<and> tk_wf t'"
proof -
  let ?b = "packet touched u v @ drop 5 (tk_buffer t)"
  have p: "take 5 (packet touched u v) = packet touched u v" "length (packet touched u v) = 5" "packet touched u v \<noteq> []"
    by (simp_all add: packet_def)
  have l: "length (tk_buffer t) = 100" "tk_initDone t = 0 \<or> tk_initDone t = 1" using assms(1) by (auto simp: tk_wf_def)
  have "length (shift_down ?b 5 0) = 100" using l p by (simp add: shift_down_def)
  with scan_packet [OF assms(4,5) refl order_refl, of "tk_clock t (tk_tick t)" touched "drop 5 (tk_buffer t)"] p l assms
  show ?thesis
    by (auto simp: touchkit_read_def touchkit_init_def Let_def tk_wf_def)
qed

theorem touchkit_read_packet_witness:
  "\<exists>t'. touchkit_read (touchkit0 [packet True 1000 700], world0) [smp 1 1 1] 1 = Inr (1, [smp 1000 700 200], (t', world0)) \<and> tk_pos t' = 0"
  using touchkit_read_packet [of "touchkit0 [packet True 1000 700]" True 1000 700 "[]" "[smp 1 1 1]" world0 1]
  by (auto simp: touchkit0_def tk_wf_def)

text \<open>
  The module's buffer overflows on a line without packets. Bytes that do not start a
  packet are never removed, so after twenty reads of five such bytes (a wrong baud rate is
  enough) the buffer of 100 is full, and the next read stores behind it.
\<close>

theorem touchkit_read_overflow:
  assumes "tk_wf t" "tk_pos t = 0" "tk_line t = replicate 21 g" "length g = 5" "\<forall>c \<in> set g. \<not> IsStart c"
  shows "touchkit_calls 21 (t, w) samp = Inl OutOfBounds"
proof -
  have "touchkit_calls (Suc 20) (t, w) samp = Inl OutOfBounds"
    by (rule touchkit_calls_garbage [of t 20 g]) (use assms in auto)
  then show ?thesis by (simp only: Suc_numeral semiring_norm)
qed

theorem touchkit_read_overflow_witness:
  "touchkit_calls 21 (touchkit0 (replicate 21 [1, 2, 3, 4, 5]), world0) [smp 1 1 1] = Inl OutOfBounds"
  by (rule touchkit_read_overflow [of _ "[1, 2, 3, 4, 5]"]) (simp_all add: touchkit0_def tk_wf_def IsStart_iff)

end
