(* ===== verification/Calibrate.thy ===== *)
theory Calibrate
  imports Linear Variance "HOL-Library.Multiset"
begin

text \<open>
  The calibration program, src/tslib-1.1/tests/ts_calibrate.c and testutils.c: \<open>getxy\<close>, which
  takes the median of the positions of one touch, and the line that is written to the
  calibration file and read back by \<open>linear_mod_init\<close> (theory Linear). The least-squares fit of
  \<open>perform_calibration\<close> is in floating point and is not modelled.
\<close>

definition MAX_SAMPLES :: nat where "MAX_SAMPLES = 128"

text \<open>
  \<open>qsort\<close> with a comparison by difference: the samples in ascending order of the key, for
  keys whose differences fit an \<open>int\<close>.
\<close>

definition sort_by_x :: "ts_sample list \<Rightarrow> ts_sample list" where
  "sort_by_x s = sort_key samp_x s"

definition sort_by_y :: "ts_sample list \<Rightarrow> ts_sample list" where
  "sort_by_y s = sort_key samp_y s"

text \<open>
  One \<open>ts_read_raw(ts, &samp[i], 1)\<close>: a negative result ends the program with status 1, any other
  leaves the sample in place.
\<close>

definition read_one :: "'a reader \<Rightarrow> 'a \<times> world \<Rightarrow> ts_sample \<Rightarrow> fault + (ts_sample \<times> ('a \<times> world))" where
  "read_one rd s cur =
     (case rd s [cur] 1 of
        Inl e \<Rightarrow> Inl e
      | Inr (ret, buf, s') \<Rightarrow>
          if ret < 0 then Inl (ProcessExit 1)
          else (case buf of [] \<Rightarrow> Inl OutOfBounds | c # _ \<Rightarrow> Inr (c, s')))"

text \<open>
  The first loop: wait for a press. \<open>None\<close> means that the given number of rounds was not
  enough.
\<close>

fun wait_press :: "nat \<Rightarrow> 'a reader \<Rightarrow> 'a \<times> world \<Rightarrow> ts_sample list \<Rightarrow> (fault + (ts_sample list \<times> ('a \<times> world))) option" where
  "wait_press 0 rd s samp = None"
| "wait_press (Suc n) rd s samp =
     (case read_one rd s (samp ! 0) of
        Inl e \<Rightarrow> Some (Inl e)
      | Inr (c, s') \<Rightarrow>
          if samp_pressure c = 0 then wait_press n rd s' (samp[0 := c]) else Some (Inr (samp[0 := c], s')))"

text \<open>The second loop: collect the samples up to the release.\<close>

fun collect ::
  "nat \<Rightarrow> 'a reader \<Rightarrow> 'a \<times> world \<Rightarrow> nat \<Rightarrow> ts_sample list \<Rightarrow> (fault + (nat \<times> ts_sample list \<times> ('a \<times> world))) option" where
  "collect 0 rd s index samp = None"
| "collect (Suc n) rd s index samp =
     (let i = (if index < MAX_SAMPLES - 1 then index + 1 else index) in
      case read_one rd s (samp ! i) of
        Inl e \<Rightarrow> Some (Inl e)
      | Inr (c, s') \<Rightarrow>
          if 0 < samp_pressure c then collect n rd s' i (samp[i := c]) else Some (Inr (i, samp[i := c], s')))"

text \<open>The median of the keys of a sorted array, as the code takes it.\<close>

definition middle_x :: "ts_sample list \<Rightarrow> nat \<Rightarrow> int" where
  "middle_x samp index =
     (let middle = index div 2 in
      if odd index then samp_x (samp ! middle)
      else s32 (samp_x (samp ! (middle - 1)) + samp_x (samp ! middle)) sdiv 2)"

definition middle_y :: "ts_sample list \<Rightarrow> nat \<Rightarrow> int" where
  "middle_y samp index =
     (let middle = index div 2 in
      if odd index then samp_y (samp ! middle)
      else s32 (samp_y (samp ! (middle - 1)) + samp_y (samp ! middle)) sdiv 2)"

definition getxy ::
  "nat \<Rightarrow> 'a reader \<Rightarrow> 'a \<times> world \<Rightarrow> ts_sample list \<Rightarrow> (fault + ((int \<times> int) \<times> ('a \<times> world))) option" where
  "getxy fuel rd s samp =
     (case wait_press fuel rd s samp of
        None \<Rightarrow> None
      | Some (Inl e) \<Rightarrow> Some (Inl e)
      | Some (Inr (samp1, s1)) \<Rightarrow>
          (case collect fuel rd s1 0 samp1 of
             None \<Rightarrow> None
           | Some (Inl e) \<Rightarrow> Some (Inl e)
           | Some (Inr (index, samp2, s2)) \<Rightarrow>
               (let sx = sort_by_x (take index samp2) @ drop index samp2;
                    vx = middle_x sx index;
                    sy = sort_by_y (take index sx) @ drop index sx;
                    vy = middle_y sy index
                in Some (Inr ((vx, vy), s2)))))"

text \<open>The text \<open>main\<close> writes to the calibration file, for the coefficients \<open>cal.a\<close>.\<close>

definition cal_buffer :: "int list \<Rightarrow> int \<Rightarrow> int \<Rightarrow> string" where
  "cal_buffer a xres yres = pointercal [a ! 1, a ! 2, a ! 0, a ! 4, a ! 5, a ! 3, a ! 6, xres, yres]"

subsection \<open>Medians\<close>

definition median :: "int list \<Rightarrow> int" where
  "median vs =
     (let s = sort vs; m = length vs div 2 in
      if odd (length vs) then s ! m else s32 (s ! (m - 1) + s ! m) sdiv 2)"

lemma map_sort_key: "map f (sort_key f ss) = sort (map f ss)"
  by (rule properties_for_sort [symmetric]) simp_all

lemma nth_sort_key: "i < length ss \<Longrightarrow> f (sort_key f ss ! i) = sort (map f ss) ! i"
  by (simp flip: map_sort_key)

lemma middle_median:
  "ss \<noteq> [] \<Longrightarrow> middle_x (sort_by_x ss @ rest) (length ss) = median (map samp_x ss)"
  "ss \<noteq> [] \<Longrightarrow> middle_y (sort_by_y ss @ rest) (length ss) = median (map samp_y ss)"
proof -
  assume "ss \<noteq> []"
  then have i: "length ss div 2 < length ss" "length ss div 2 - 1 < length ss" by (cases ss; auto)+
  show "middle_x (sort_by_x ss @ rest) (length ss) = median (map samp_x ss)"
    using i by (simp add: middle_x_def median_def sort_by_x_def Let_def nth_append nth_sort_key)
  show "middle_y (sort_by_y ss @ rest) (length ss) = median (map samp_y ss)"
    using i by (simp add: middle_y_def median_def sort_by_y_def Let_def nth_append nth_sort_key)
qed

definition most_within :: "int \<Rightarrow> int \<Rightarrow> int list \<Rightarrow> bool" where
  "most_within lo hi vs \<longleftrightarrow> length vs < 2 * length (filter (\<lambda>v. lo \<le> v \<and> v \<le> hi) vs)"

lemma length_filter_sort: "length (filter P (sort vs)) = length (filter P (vs :: int list))"
  by (metis mset_filter mset_sort size_mset)

lemma sorted_above:
  assumes "most_within lo hi vs" "i < length vs" "length vs \<le> 2 * (i + 1)"
  shows "lo \<le> sort vs ! i"
proof (rule ccontr)
  let ?s = "sort vs" and ?P = "\<lambda>v. lo \<le> v \<and> v \<le> hi"
  assume n: "\<not> lo \<le> ?s ! i"
  have "?s ! j < lo" if "j \<le> i" for j
    using n sorted_nth_mono [OF sorted_sort, of j i vs] that assms(2) by simp
  then have "\<forall>v \<in> set (take (i + 1) ?s). v < lo" by (auto simp: in_set_conv_nth)
  then have "filter ?P (take (i + 1) ?s) = []" by (auto simp: filter_empty_conv)
  moreover have "filter ?P ?s = filter ?P (take (i + 1) ?s) @ filter ?P (drop (i + 1) ?s)"
    by (simp only: filter_append [symmetric] append_take_drop_id)
  ultimately have "length (filter ?P ?s) \<le> length (drop (i + 1) ?s)"
    using length_filter_le [of ?P "drop (i + 1) ?s"] by simp
  then have "length (filter ?P vs) \<le> length vs - (i + 1)" by (simp add: length_filter_sort)
  with assms show False by (simp add: most_within_def)
qed

lemma sorted_below:
  assumes "most_within lo hi vs" "i < length vs" "2 * i \<le> length vs"
  shows "sort vs ! i \<le> hi"
proof (rule ccontr)
  let ?s = "sort vs" and ?P = "\<lambda>v. lo \<le> v \<and> v \<le> hi"
  assume n: "\<not> ?s ! i \<le> hi"
  have "hi < ?s ! (i + j)" if "i + j < length ?s" for j
    using n sorted_nth_mono [OF sorted_sort, of i "i + j" vs] that by simp
  then have "\<forall>v \<in> set (drop i ?s). hi < v" using assms(2) by (auto simp: in_set_conv_nth)
  then have "filter ?P (drop i ?s) = []" by (auto simp: filter_empty_conv)
  moreover have "filter ?P ?s = filter ?P (take i ?s) @ filter ?P (drop i ?s)"
    by (simp only: filter_append [symmetric] append_take_drop_id)
  ultimately have "length (filter ?P ?s) \<le> length (take i ?s)"
    using length_filter_le [of ?P "take i ?s"] by simp
  then have "length (filter ?P vs) \<le> i" by (simp add: length_filter_sort)
  with assms show False by (simp add: most_within_def)
qed

lemma half_sum:
  assumes "lo \<le> a" "a \<le> hi" "lo \<le> b" "b \<le> hi" "- (2 ^ 30) \<le> lo" "hi < (2 ^ 30 :: int)"
  shows "lo \<le> s32 (a + b) sdiv 2" "s32 (a + b) sdiv 2 \<le> hi"
proof -
  have s: "s32 (a + b) = a + b" by (rule s32_id) (use assms in \<open>simp add: in_s32_def\<close>)
  have d: "(a + b) sdiv 2 = (if 0 \<le> a + b then (a + b) div 2 else - ((- (a + b)) div 2))"
    by (auto simp: signed_divide_int_def sgn_if)
  show "lo \<le> s32 (a + b) sdiv 2" "s32 (a + b) sdiv 2 \<le> hi"
    unfolding s d using assms(1-4) by auto
qed

lemma median_robust:
  assumes "most_within lo hi vs" "- (2 ^ 30) \<le> lo" "hi < 2 ^ 30"
  shows "lo \<le> median vs" "median vs \<le> hi"
proof -
  let ?n = "length vs"
  have n: "0 < ?n" using assms(1) by (auto simp: most_within_def)
  have b: "lo \<le> sort vs ! (?n div 2)" "sort vs ! (?n div 2) \<le> hi"
    using n by (auto intro!: sorted_above [OF assms(1)] sorted_below [OF assms(1)])
  show "lo \<le> median vs"
  proof (cases "odd ?n")
    case True
    with b show ?thesis by (simp add: median_def Let_def)
  next
    case False
    then obtain k where "?n = 2 * k" by (auto elim: evenE)
    then have i: "?n div 2 - 1 < ?n" "?n \<le> 2 * (?n div 2 - 1 + 1)" "2 * (?n div 2 - 1) \<le> ?n" using n by simp_all
    note c = sorted_above [OF assms(1) i(1,2)] sorted_below [OF assms(1) i(1,3)]
    from half_sum [OF c b assms(2,3)] False show ?thesis by (simp add: median_def Let_def)
  qed
  show "median vs \<le> hi"
  proof (cases "odd ?n")
    case True
    with b show ?thesis by (simp add: median_def Let_def)
  next
    case False
    then obtain k where "?n = 2 * k" by (auto elim: evenE)
    then have i: "?n div 2 - 1 < ?n" "?n \<le> 2 * (?n div 2 - 1 + 1)" "2 * (?n div 2 - 1) \<le> ?n" using n by simp_all
    note c = sorted_above [OF assms(1) i(1,2)] sorted_below [OF assms(1) i(1,3)]
    from half_sum [OF c b assms(2,3)] False show ?thesis by (simp add: median_def Let_def)
  qed
qed


subsection \<open>One touch\<close>

text \<open>The module answers single reads with the samples of a list.\<close>

inductive yields :: "'a reader \<Rightarrow> 'a \<times> world \<Rightarrow> ts_sample list \<Rightarrow> 'a \<times> world \<Rightarrow> bool" for rd where
  yields_Nil: "yields rd s [] s"
| yields_Cons: "(\<And>c. rd s [c] 1 = Inr (1, [v], s1)) \<Longrightarrow> yields rd s1 vs s' \<Longrightarrow> yields rd s (v # vs) s'"

inductive_cases yields_ConsE: "yields rd s (v # vs) s'"

lemma yields_append: "yields rd s (us @ vs) s' \<Longrightarrow> \<exists>s1. yields rd s us s1 \<and> yields rd s1 vs s'"
  by (induction us arbitrary: s) (auto intro: yields.intros elim!: yields_ConsE, blast intro: yields.intros)

lemma read_one_yields: "yields rd s (v # vs) s' \<Longrightarrow> \<exists>s1. (\<forall>c. read_one rd s c = Inr (v, s1)) \<and> yields rd s1 vs s'"
  by (auto simp: read_one_def elim!: yields_ConsE)

lemma wait_press_yields:
  assumes "yields rd s (ups @ [p]) s'" "\<forall>u \<in> set ups. samp_pressure u = 0" "samp_pressure p \<noteq> 0" "length ups < fuel" "samp \<noteq> []"
  shows "wait_press fuel rd s samp = Some (Inr (samp[0 := p], s'))"
  using assms
proof (induction ups arbitrary: fuel s samp)
  case Nil
  then obtain n where "fuel = Suc n" by (cases fuel) auto
  moreover obtain s1 where "\<forall>c. read_one rd s c = Inr (p, s1)" "yields rd s1 [] s'"
    using read_one_yields Nil.prems(1) by fastforce
  moreover from this(2) have "s1 = s'" by (auto elim: yields.cases)
  ultimately show ?case using Nil.prems(3) by simp
next
  case (Cons u ups)
  then obtain n where n: "fuel = Suc n" "length ups < n" by (cases fuel) auto
  obtain s1 where s1: "\<forall>c. read_one rd s c = Inr (u, s1)" "yields rd s1 (ups @ [p]) s'"
    using read_one_yields Cons.prems(1) by fastforce
  from Cons.IH [OF s1(2) _ Cons.prems(3) n(2), of "samp[0 := u]"] Cons.prems show ?case
    by (simp add: n s1(1))
qed

lemma collect_yields:
  assumes "yields rd s (ps @ [up]) s'" "\<forall>p \<in> set ps. samp_pressure p \<noteq> 0" "samp_pressure up = 0" "length ps < fuel"
    "index + length ps < 127" "length samp = 128"
  shows "collect fuel rd s index samp =
    Some (Inr (Suc (index + length ps), take (Suc index) samp @ ps @ up # drop (Suc (Suc (index + length ps))) samp, s'))"
  using assms
proof (induction ps arbitrary: fuel s index samp)
  case Nil
  then obtain n where n: "fuel = Suc n" by (cases fuel) auto
  obtain s1 where s1: "\<forall>c. read_one rd s c = Inr (up, s1)" "yields rd s1 [] s'"
    using read_one_yields Nil.prems(1) by fastforce
  from s1(2) have "s1 = s'" by (auto elim: yields.cases)
  moreover have "samp[Suc index := up] = take (Suc index) samp @ up # drop (Suc (Suc index)) samp"
    by (rule upd_conv_take_nth_drop) (use Nil.prems in simp)
  ultimately show ?case using Nil.prems n s1(1) by (simp add: MAX_SAMPLES_def)
next
  case (Cons p ps)
  then obtain n where n: "fuel = Suc n" "length ps < n" by (cases fuel) auto
  obtain s1 where s1: "\<forall>c. read_one rd s c = Inr (p, s1)" "yields rd s1 (ps @ [up]) s'"
    using read_one_yields Cons.prems(1) by fastforce
  have p: "0 < samp_pressure p" using Cons.prems(2) by (simp add: word_neq_0_conv)
  have "take (Suc (Suc index)) (samp[Suc index := p]) = take (Suc index) samp @ [p]"
    by (rule take_Suc_update) (use Cons.prems in simp)
  with Cons.IH [OF s1(2) _ Cons.prems(3) n(2), of "Suc index" "samp[Suc index := p]"] Cons.prems p show ?case
    by (simp add: n s1(1) MAX_SAMPLES_def)
qed

lemma median_cong: "mset us = mset vs \<Longrightarrow> median us = median vs"
proof -
  assume m: "mset us = mset vs"
  have "sort us = sort vs" by (rule properties_for_sort) (simp_all add: m)
  moreover have "length us = length vs" using m by (rule mset_eq_length)
  ultimately show ?thesis by (simp add: median_def)
qed

lemma getxy_touch:
  assumes "yields rd s (ups @ p # ps @ [up]) s'"
    "\<forall>u \<in> set ups. samp_pressure u = 0" "\<forall>q \<in> set (p # ps). samp_pressure q \<noteq> 0" "samp_pressure up = 0"
    "length ups < fuel" "length ps < fuel" "length ps < 127" "length samp = 128"
  shows "getxy fuel rd s samp = Some (Inr ((median (map samp_x (p # ps)), median (map samp_y (p # ps))), s'))"
proof -
  obtain s1 where s1: "yields rd s (ups @ [p]) s1" "yields rd s1 (ps @ [up]) s'"
    using yields_append [of rd s "ups @ [p]" "ps @ [up]" s'] assms(1) by auto
  have "wait_press fuel rd s samp = Some (Inr (samp[0 := p], s1))"
    by (rule wait_press_yields [OF s1(1) assms(2)]) (use assms in auto)
  moreover have "collect fuel rd s1 0 (samp[0 := p]) =
      Some (Inr (Suc (length ps), take 1 (samp[0 := p]) @ ps @ up # drop (Suc (Suc (length ps))) (samp[0 := p]), s'))"
    using collect_yields [OF s1(2) _ assms(4,6), of 0 "samp[0 := p]"] assms by simp
  moreover have "take 1 (samp[0 := p]) = [p]" using assms(8) by (cases samp) auto
  moreover have "mset (map samp_y (sort_by_x (p # ps))) = mset (map samp_y (p # ps))" by (simp add: sort_by_x_def)
  moreover have "length (sort_by_x (p # ps)) = Suc (length ps)" "sort_by_x (p # ps) \<noteq> []"
    by (simp_all add: sort_by_x_def)
  ultimately show ?thesis
    using middle_median(1) [of "p # ps"] middle_median(2) [of "sort_by_x (p # ps)"] median_cong
    by (simp add: getxy_def Let_def)
qed

lemma list_reader_yields: "yields list_reader (vs @ us, w) vs (us, w)"
  by (induction vs) (auto simp: list_reader_def intro!: yields.intros)

subsection \<open>Properties\<close>

text \<open>
  A touch is measured by its median. While no finger is down the samples are skipped; then
  for a touch of at most 127 samples and its release \<open>getxy\<close> returns the medians of the two
  coordinates over exactly the pressed samples, and when more than half of the samples lie in
  a window the result lies in it too, wherever the others are.
\<close>

theorem getxy_robust:
  assumes "yields rd s (ups @ p # ps @ [up]) s'"
    "\<forall>u \<in> set ups. samp_pressure u = 0" "\<forall>q \<in> set (p # ps). samp_pressure q \<noteq> 0" "samp_pressure up = 0"
    "length ups < fuel" "length ps < fuel" "length ps < 127" "length samp = 128"
    "most_within xlo xhi (map samp_x (p # ps))" "most_within ylo yhi (map samp_y (p # ps))"
    "- (2 ^ 30) \<le> xlo" "xhi < 2 ^ 30" "- (2 ^ 30) \<le> ylo" "yhi < 2 ^ 30"
  shows "\<exists>x y. getxy fuel rd s samp = Some (Inr ((x, y), s')) \<and>
    x = median (map samp_x (p # ps)) \<and> y = median (map samp_y (p # ps)) \<and>
    xlo \<le> x \<and> x \<le> xhi \<and> ylo \<le> y \<and> y \<le> yhi"
  using getxy_touch [OF assms(1-8)] median_robust [OF assms(9,11,12)] median_robust [OF assms(10,13,14)] by simp

theorem getxy_robust_witness:
  "\<exists>x y. getxy 5 list_reader ([smp 7 7 0, smp 100 200 5, smp 9000 (-4000) 5, smp 104 202 5, smp 1 1 0], world0)
       (replicate 128 (smp 0 0 0)) = Some (Inr ((x, y), ([], world0))) \<and>
     x = median [100, 9000, 104] \<and> y = median [200, -4000, 202] \<and> 100 \<le> x \<and> x \<le> 104 \<and> 200 \<le> y \<and> y \<le> 202"
  using getxy_robust [of list_reader "([smp 7 7 0, smp 100 200 5, smp 9000 (-4000) 5, smp 104 202 5, smp 1 1 0], world0)"
      "[smp 7 7 0]" "smp 100 200 5" "[smp 9000 (-4000) 5, smp 104 202 5]" "smp 1 1 0" "([], world0)" 5
      "replicate 128 (smp 0 0 0)" 100 104 200 202]
    list_reader_yields [of "[smp 7 7 0, smp 100 200 5, smp 9000 (-4000) 5, smp 104 202 5, smp 1 1 0]" "[]" world0]
  by (simp add: most_within_def)

text \<open>
  The calibration file round trip. The line \<open>ts_calibrate\<close> writes, read by the filter
  \<open>linear\<close> when it is configured without options, gives the coefficients in the filter's order
  (x: \<open>a[1]\<close>, \<open>a[2]\<close>, \<open>a[0]\<close>; y: \<open>a[4]\<close>, \<open>a[5]\<close>, \<open>a[3]\<close>; the divisor \<open>a[6]\<close>) and the resolution
  of the calibration, for all 32-bit values.
\<close>

theorem calibration_roundtrip:
  assumes "length a = 7" "\<forall>v \<in> set a. in_s32 v" "in_s32 xres" "in_s32 yres"
    "fs (case calibfile of None \<Rightarrow> TS_POINTERCAL | Some f \<Rightarrow> f) = Some (Some (cal_buffer a xres yres))"
  shows "linear_mod_init (Some junk) calibfile fs None errno =
    Inr (Some \<lparr>li_swap_xy = 0, li_p_offset = 0, li_p_mult = 1, li_p_div = 1,
      li_a = [a ! 1, a ! 2, a ! 0, a ! 4, a ! 5, a ! 3, a ! 6], li_cal_res_x = word_of_int xres,
      li_cal_res_y = word_of_int yres\<rparr>, errno)"
  by (rule linear_mod_init_pointercal) (use assms in \<open>simp_all add: cal_buffer_def\<close>)

theorem calibration_roundtrip_witness:
  "linear_mod_init (Some \<lparr>li_swap_xy = 5, li_p_offset = 5, li_p_mult = 5, li_p_div = 5, li_a = [], li_cal_res_x = 0, li_cal_res_y = 0\<rparr>)
     None (\<lambda>f. if f = TS_POINTERCAL then Some (Some (cal_buffer [-200, 67000, -3, 15, 8, 68000, 65536] 320 240)) else None) None 0 =
   Inr (Some \<lparr>li_swap_xy = 0, li_p_offset = 0, li_p_mult = 1, li_p_div = 1,
      li_a = [67000, -3, -200, 8, 68000, 15, 65536], li_cal_res_x = 320, li_cal_res_y = 240\<rparr>, 0)"
  using calibration_roundtrip [of "[-200, 67000, -3, 15, 8, 68000, 65536]" 320 240
      "\<lambda>f. if f = TS_POINTERCAL then Some (Some (cal_buffer [-200, 67000, -3, 15, 8, 68000, 65536] 320 240)) else None" None
      "\<lparr>li_swap_xy = 5, li_p_offset = 5, li_p_mult = 5, li_p_div = 5, li_a = [], li_cal_res_x = 0, li_cal_res_y = 0\<rparr>" 0]
  by (simp add: in_s32_def)

end
