(* ===== verification/CalibFit.thy ===== *)
theory CalibFit
  imports Calibrate Complex_Main
begin

text \<open>
  The fit of src/tslib-1.1/tests/ts_calibrate.c, \<open>perform_calibration\<close>. A \<open>float\<close> is the
  rational number it stands for, and each operation of the source rounds its exact result with
  the function \<open>rnd\<close>, an argument of the model: single precision is one such function, exact
  arithmetic another. Infinities are outside the model; the conversion \<open>(int)\<close> of a value out of
  range, which C leaves undefined, is a fault.
\<close>

record calibration =
  cal_x :: "int list"
  cal_xfb :: "int list"
  cal_y :: "int list"
  cal_yfb :: "int list"
  cal_a :: "int list"

definition fadd :: "(rat \<Rightarrow> rat) \<Rightarrow> rat \<Rightarrow> rat \<Rightarrow> rat" where "fadd rnd u v = rnd (u + v)"
definition fsub :: "(rat \<Rightarrow> rat) \<Rightarrow> rat \<Rightarrow> rat \<Rightarrow> rat" where "fsub rnd u v = rnd (u - v)"
definition fmul :: "(rat \<Rightarrow> rat) \<Rightarrow> rat \<Rightarrow> rat \<Rightarrow> rat" where "fmul rnd u v = rnd (u * v)"
definition fdiv :: "(rat \<Rightarrow> rat) \<Rightarrow> rat \<Rightarrow> rat \<Rightarrow> rat" where "fdiv rnd u v = rnd (u / v)"

text \<open>\<open>(float)(u * v)\<close>: the product is an \<open>int\<close>.\<close>

definition fprod :: "(rat \<Rightarrow> rat) \<Rightarrow> int \<Rightarrow> int \<Rightarrow> rat" where "fprod rnd u v = rnd (of_int (s32 (u * v)))"

definition trunc :: "rat \<Rightarrow> int" where
  "trunc q = (if 0 \<le> q then \<lfloor>q\<rfloor> else \<lceil>q\<rceil>)"

definition f2i :: "rat \<Rightarrow> fault + int" where
  "f2i q = (if in_s32 (trunc q) then Inr (trunc q) else Inl ConvOverflow)"

text \<open>The literal \<open>0.1\<close> is a \<open>double\<close>.\<close>

definition tenth :: rat where "tenth = 3602879701896397 / 36028797018963968"

type_synonym matsums = "rat \<times> rat \<times> rat \<times> rat \<times> rat \<times> rat"

text \<open>The sums for the matrix: n, x, y, x2, y2, xy.\<close>

fun fit_sums :: "(rat \<Rightarrow> rat) \<Rightarrow> (int \<times> int) list \<Rightarrow> matsums \<Rightarrow> matsums" where
  "fit_sums rnd [] s = s"
| "fit_sums rnd ((u, v) # ps) (n, x, y, x2, y2, xy) =
     fit_sums rnd ps (fadd rnd n 1, fadd rnd x (rnd (of_int u)), fadd rnd y (rnd (of_int v)),
       fadd rnd x2 (fprod rnd u u), fadd rnd y2 (fprod rnd v v), fadd rnd xy (fprod rnd u v))"

text \<open>The sums for one screen coordinate: z, zx, zy.\<close>

fun fb_sums :: "(rat \<Rightarrow> rat) \<Rightarrow> (int \<times> int \<times> int) list \<Rightarrow> rat \<times> rat \<times> rat \<Rightarrow> rat \<times> rat \<times> rat" where
  "fb_sums rnd [] s = s"
| "fb_sums rnd ((g, u, v) # ps) (z, zx, zy) =
     fb_sums rnd ps (fadd rnd z (rnd (of_int g)), fadd rnd zx (fprod rnd g u), fadd rnd zy (fprod rnd g v))"

definition fit_det :: "(rat \<Rightarrow> rat) \<Rightarrow> matsums \<Rightarrow> rat" where
  "fit_det rnd = (\<lambda>(n, x, y, x2, y2, xy).
     fadd rnd (fadd rnd (fmul rnd n (fsub rnd (fmul rnd x2 y2) (fmul rnd xy xy)))
                        (fmul rnd x (fsub rnd (fmul rnd xy y) (fmul rnd x y2))))
              (fmul rnd y (fsub rnd (fmul rnd x xy) (fmul rnd y x2))))"

text \<open>The elements a, b, c, e, f, i of the inverse.\<close>

definition fit_inverse :: "(rat \<Rightarrow> rat) \<Rightarrow> matsums \<Rightarrow> rat \<Rightarrow> matsums" where
  "fit_inverse rnd = (\<lambda>(n, x, y, x2, y2, xy) det.
     (fdiv rnd (fsub rnd (fmul rnd x2 y2) (fmul rnd xy xy)) det,
      fdiv rnd (fsub rnd (fmul rnd xy y) (fmul rnd x y2)) det,
      fdiv rnd (fsub rnd (fmul rnd x xy) (fmul rnd y x2)) det,
      fdiv rnd (fsub rnd (fmul rnd n y2) (fmul rnd y y)) det,
      fdiv rnd (fsub rnd (fmul rnd x y) (fmul rnd n xy)) det,
      fdiv rnd (fsub rnd (fmul rnd n x2) (fmul rnd x x)) det))"

definition fit_coeff :: "(rat \<Rightarrow> rat) \<Rightarrow> rat \<Rightarrow> rat \<Rightarrow> rat \<Rightarrow> rat \<times> rat \<times> rat \<Rightarrow> fault + int" where
  "fit_coeff rnd p q r = (\<lambda>(z, zx, zy).
     f2i (fmul rnd (fadd rnd (fadd rnd (fmul rnd p z) (fmul rnd q zx)) (fmul rnd r zy)) 65536))"

text \<open>The three coefficients of one screen coordinate.\<close>

definition fit_coeffs :: "(rat \<Rightarrow> rat) \<Rightarrow> matsums \<Rightarrow> rat \<times> rat \<times> rat \<Rightarrow> fault + int list" where
  "fit_coeffs rnd = (\<lambda>(a, b, c, e, f, i) zs.
     case fit_coeff rnd a b c zs of Inl er \<Rightarrow> Inl er | Inr u \<Rightarrow>
       (case fit_coeff rnd b e f zs of Inl er \<Rightarrow> Inl er | Inr v \<Rightarrow>
          (case fit_coeff rnd c f i zs of Inl er \<Rightarrow> Inl er | Inr w \<Rightarrow> Inr [u, v, w])))"

definition perform_calibration :: "(rat \<Rightarrow> rat) \<Rightarrow> calibration \<Rightarrow> fault + (int \<times> calibration)" where
  "perform_calibration rnd cal =
     (let ps = zip (cal_x cal) (cal_y cal);
          s = fit_sums rnd ps (0, 0, 0, 0, 0, 0);
          det = fit_det rnd s
      in
        if det < tenth \<and> - tenth < det then Inr (0, cal)
        else
          (let inverse = fit_inverse rnd s det in
           case fit_coeffs rnd inverse (fb_sums rnd (zip (cal_xfb cal) ps) (0, 0, 0)) of
             Inl e \<Rightarrow> Inl e
           | Inr a012 \<Rightarrow>
               (case fit_coeffs rnd inverse (fb_sums rnd (zip (cal_yfb cal) ps) (0, 0, 0)) of
                  Inl e \<Rightarrow> Inl e
                | Inr a345 \<Rightarrow> Inr (1, cal\<lparr>cal_a := a012 @ a345 @ [65536]\<rparr>))))"

subsection \<open>The fit in exact arithmetic\<close>

definition exact :: "rat \<Rightarrow> rat" where "exact q = q"

lemmas exact_simps = exact_def fadd_def fsub_def fmul_def fdiv_def

text \<open>The normal equations of an affine map have this map as their solution.\<close>

lemma normal_equations:
  fixes n x y x2 y2 xy A B C :: rat
  defines "det \<equiv> n * (x2 * y2 - xy * xy) + x * (xy * y - x * y2) + y * (x * xy - y * x2)"
  assumes "det \<noteq> 0" "z = A * n + B * x + C * y" "zx = A * x + B * x2 + C * xy" "zy = A * y + B * xy + C * y2"
  shows "(x2 * y2 - xy * xy) / det * z + (xy * y - x * y2) / det * zx + (x * xy - y * x2) / det * zy = A"
    and "(xy * y - x * y2) / det * z + (n * y2 - y * y) / det * zx + (x * y - n * xy) / det * zy = B"
    and "(x * xy - y * x2) / det * z + (x * y - n * xy) / det * zx + (n * x2 - x * x) / det * zy = C"
proof -
  have frac: "p / det * z + q / det * zx + r / det * zy = D" if "p * z + q * zx + r * zy = D * det" for p q r D
    using that assms(2) by (simp add: add_divide_distrib [symmetric] nonzero_divide_eq_eq)
  show "(x2 * y2 - xy * xy) / det * z + (xy * y - x * y2) / det * zx + (x * xy - y * x2) / det * zy = A"
    by (rule frac) (simp add: det_def assms(3-5) algebra_simps)
  show "(xy * y - x * y2) / det * z + (n * y2 - y * y) / det * zx + (x * y - n * xy) / det * zy = B"
    by (rule frac) (simp add: det_def assms(3-5) algebra_simps)
  show "(x * xy - y * x2) / det * z + (x * y - n * xy) / det * zx + (n * x2 - x * x) / det * zy = C"
    by (rule frac) (simp add: det_def assms(3-5) algebra_simps)
qed

text \<open>Coordinates whose products fit an \<open>int\<close>.\<close>

definition small :: "int \<Rightarrow> bool" where "small v \<longleftrightarrow> \<bar>v\<bar> \<le> 32767"

lemma fprod_exact:
  assumes "small u" "small v"
  shows "fprod exact u v = of_int u * of_int v"
proof -
  have "\<bar>u\<bar> * \<bar>v\<bar> \<le> 32767 * 32767" using assms by (intro mult_mono) (auto simp: small_def)
  then have "in_s32 (u * v)" by (auto simp: in_s32_def abs_mult [symmetric] abs_le_iff)
  then show ?thesis by (simp add: fprod_def exact_def s32_id)
qed

definition moment :: "(int \<times> int \<Rightarrow> int) \<Rightarrow> (int \<times> int) list \<Rightarrow> int" where
  "moment f ps = sum_list (map f ps)"

lemma moment_simps [simp]: "moment f [] = 0" "moment f (p # ps) = f p + moment f ps"
  by (simp_all add: moment_def)

abbreviation "mx \<equiv> moment fst"
abbreviation "my \<equiv> moment snd"
abbreviation "mxx \<equiv> moment (\<lambda>(u, v). u * u)"
abbreviation "myy \<equiv> moment (\<lambda>(u, v). v * v)"
abbreviation "mxy \<equiv> moment (\<lambda>(u, v). u * v)"

lemma fit_sums_exact:
  "\<forall>(u, v) \<in> set ps. small u \<and> small v \<Longrightarrow> fit_sums exact ps (n, x, y, x2, y2, xy) =
    (n + of_nat (length ps), x + of_int (mx ps), y + of_int (my ps), x2 + of_int (mxx ps), y2 + of_int (myy ps), xy + of_int (mxy ps))"
  by (induction exact ps "(n, x, y, x2, y2, xy)" arbitrary: n x y x2 y2 xy rule: fit_sums.induct)
    (simp_all add: fadd_def fprod_exact, simp add: exact_def)

text \<open>The determinant of the matrix; it is 0 exactly when the points lie on one line.\<close>

definition spread :: "(int \<times> int) list \<Rightarrow> int" where
  "spread ps = (let n = int (length ps) in
     n * (mxx ps * myy ps - mxy ps * mxy ps) + mx ps * (mxy ps * my ps - mx ps * myy ps) + my ps * (mx ps * mxy ps - my ps * mxx ps))"

text \<open>The screen positions are the image of the touches under an affine map.\<close>

definition on_map :: "rat \<Rightarrow> rat \<Rightarrow> rat \<Rightarrow> int list \<Rightarrow> (int \<times> int) list \<Rightarrow> bool" where
  "on_map A B C gs ps \<longleftrightarrow> length gs = length ps \<and>
     (\<forall>(g, u, v) \<in> set (zip gs ps). small g \<and> small u \<and> small v \<and> of_int g = A + B * of_int u + C * of_int v)"

lemma on_map_Cons: "on_map A B C (g # gs) ((u, v) # ps) \<longleftrightarrow>
    small g \<and> small u \<and> small v \<and> of_int g = A + B * of_int u + C * of_int v \<and> on_map A B C gs ps"
  by (auto simp: on_map_def)

lemma on_map_small: "on_map A B C gs ps \<Longrightarrow> \<forall>(u, v) \<in> set ps. small u \<and> small v"
  by (induction gs ps rule: list_induct2') (auto simp: on_map_def)

lemma fb_sums_on_map:
  "on_map A B C gs ps \<Longrightarrow> fb_sums exact (zip gs ps) (z, zx, zy) =
    (z + (A * of_nat (length ps) + B * of_int (mx ps) + C * of_int (my ps)),
     zx + (A * of_int (mx ps) + B * of_int (mxx ps) + C * of_int (mxy ps)),
     zy + (A * of_int (my ps) + B * of_int (mxy ps) + C * of_int (myy ps)))"
proof (induction gs ps arbitrary: z zx zy rule: list_induct2')
  case (4 g gs p ps)
  obtain u v where p: "p = (u, v)" by (cases p)
  from 4(2) have g: "small g" "small u" "small v" "of_int g = A + B * of_int u + C * of_int v" "on_map A B C gs ps"
    by (simp_all add: p on_map_Cons)
  show ?case
    by (simp add: p 4(1) [OF g(5)] fadd_def fprod_exact [OF g(1,2)] fprod_exact [OF g(1,3)] g(4))
      (simp add: exact_def g(4) algebra_simps)
qed (simp_all add: on_map_def)

lemma fit_coeff_exact:
  "in_s32 (trunc (D * 65536)) \<Longrightarrow> p * z + q * zx + r * zy = D \<Longrightarrow> fit_coeff exact p q r (z, zx, zy) = Inr (trunc (D * 65536))"
  by (simp only: fit_coeff_def prod.case exact_simps f2i_def if_True)

lemma fit_exact:
  assumes "spread ps \<noteq> 0" "on_map A B C gs ps" "in_s32 (trunc (A * 65536))" "in_s32 (trunc (B * 65536))" "in_s32 (trunc (C * 65536))"
  defines "s \<equiv> fit_sums exact ps (0, 0, 0, 0, 0, 0)"
  shows "fit_det exact s = of_int (spread ps)"
    and "fit_coeffs exact (fit_inverse exact s (fit_det exact s)) (fb_sums exact (zip gs ps) (0, 0, 0)) =
      Inr [trunc (A * 65536), trunc (B * 65536), trunc (C * 65536)]"
proof -
  have s: "s = (of_nat (length ps), of_int (mx ps), of_int (my ps), of_int (mxx ps), of_int (myy ps), of_int (mxy ps))"
    by (simp add: s_def fit_sums_exact [OF on_map_small [OF assms(2)]])
  show det: "fit_det exact s = of_int (spread ps)"
    by (simp add: s fit_det_def spread_def Let_def exact_simps)
  then have d: "fit_det exact s = of_nat (length ps) * (of_int (mxx ps) * of_int (myy ps) - of_int (mxy ps) * of_int (mxy ps)) +
      of_int (mx ps) * (of_int (mxy ps) * of_int (my ps) - of_int (mx ps) * of_int (myy ps)) +
      of_int (my ps) * (of_int (mx ps) * of_int (mxy ps) - of_int (my ps) * of_int (mxx ps))"
    by (simp add: spread_def Let_def)
  have nz: "fit_det exact s \<noteq> 0" using assms(1) det by simp
  note eqs = normal_equations [OF nz [unfolded d] refl refl refl, folded d, of A B C]
  show "fit_coeffs exact (fit_inverse exact s (fit_det exact s)) (fb_sums exact (zip gs ps) (0, 0, 0)) =
      Inr [trunc (A * 65536), trunc (B * 65536), trunc (C * 65536)]"
    unfolding fb_sums_on_map [OF assms(2)] fit_inverse_def fit_coeffs_def s prod.case
    using fit_coeff_exact [OF assms(3) eqs(1)] fit_coeff_exact [OF assms(4) eqs(2)] fit_coeff_exact [OF assms(5) eqs(3)]
    by (simp add: exact_simps s)
qed

text \<open>The coefficients of the fit, in the order of \<open>cal.a\<close>.\<close>

definition fitted :: "rat list \<Rightarrow> int list" where
  "fitted cs = map (\<lambda>c. trunc (c * 65536)) cs @ [65536]"

lemma perform_calibration_fit:
  assumes "spread (zip (cal_x cal) (cal_y cal)) \<noteq> 0"
    "on_map A B C (cal_xfb cal) (zip (cal_x cal) (cal_y cal))" "on_map D E F (cal_yfb cal) (zip (cal_x cal) (cal_y cal))"
    "\<forall>c \<in> {A, B, C, D, E, F}. in_s32 (trunc (c * 65536))"
  shows "perform_calibration exact cal = Inr (1, cal\<lparr>cal_a := fitted [A, B, C, D, E, F]\<rparr>)"
proof -
  let ?ps = "zip (cal_x cal) (cal_y cal)"
  have fits: "in_s32 (trunc (A * 65536))" "in_s32 (trunc (B * 65536))" "in_s32 (trunc (C * 65536))"
    "in_s32 (trunc (D * 65536))" "in_s32 (trunc (E * 65536))" "in_s32 (trunc (F * 65536))"
    using assms(4) by simp_all
  note abc = fit_exact [OF assms(1,2) fits(1-3)] and def = fit_exact [OF assms(1,3) fits(4-6)]
  have "1 \<le> spread ?ps \<or> spread ?ps \<le> -1" using assms(1) by linarith
  then have "(1::rat) \<le> of_int (spread ?ps) \<or> of_int (spread ?ps) \<le> (-1::rat)"
    by (metis of_int_1 of_int_le_iff of_int_minus)
  moreover have "tenth < 1" "0 < tenth" by (simp_all add: tenth_def)
  ultimately have "\<not> (of_int (spread ?ps) < tenth \<and> - tenth < of_int (spread ?ps))" by linarith
  then show ?thesis by (simp add: perform_calibration_def Let_def abc(1) abc(2) [unfolded abc(1)] def(2) [unfolded def(1)] fitted_def)
qed

subsection \<open>From the touches to the screen\<close>

lemma trunc_error: "\<bar>of_int (trunc q) - q\<bar> < 1"
proof (cases "0 \<le> q")
  case True
  then show ?thesis using floor_correct [of q] by (simp add: trunc_def abs_less_iff)
next
  case False
  then show ?thesis using ceiling_correct [of q] by (simp add: trunc_def abs_less_iff)
qed

lemma combine_error:
  fixes A B C :: rat
  shows "\<bar>of_int (trunc (A * 65536) + trunc (B * 65536) * u + trunc (C * 65536) * v) - (A + B * of_int u + C * of_int v) * 65536\<bar>
    < 1 + of_int \<bar>u\<bar> + of_int \<bar>v\<bar>"
proof -
  define e where "e q = of_int (trunc (q * 65536)) - q * 65536" for q :: rat
  have e: "\<bar>e q\<bar> < 1" "\<bar>e q\<bar> \<le> 1" for q using trunc_error [of "q * 65536"] by (simp_all add: e_def)
  have "\<bar>e B * of_int u\<bar> \<le> of_int \<bar>u\<bar>" "\<bar>e C * of_int v\<bar> \<le> of_int \<bar>v\<bar>"
    using e(2) by (simp_all add: abs_mult mult_left_le_one_le)
  moreover have "of_int (trunc (A * 65536) + trunc (B * 65536) * u + trunc (C * 65536) * v) - (A + B * of_int u + C * of_int v) * 65536 =
      e A + e B * of_int u + e C * of_int v"
    by (simp add: e_def algebra_simps)
  ultimately show ?thesis using e(1) [of A] by linarith
qed

lemma sdiv_error:
  assumes "0 \<le> (k::int)"
  shows "k sdiv 65536 = k div 65536" "(0::rat) \<le> of_int k - of_int (k div 65536) * 65536" "of_int k - of_int (k div 65536) * 65536 < (65536::rat)"
proof -
  show "k sdiv 65536 = k div 65536" using assms by (auto simp: signed_divide_int_def sgn_if)
  have "of_int k - of_int (k div 65536) * 65536 = (of_int (k mod 65536) :: rat)"
    by (metis minus_div_mult_eq_mod of_int_diff of_int_mult of_int_numeral)
  then show "(0::rat) \<le> of_int k - of_int (k div 65536) * 65536" "of_int k - of_int (k div 65536) * 65536 < (65536::rat)"
    by (simp_all add: of_int_less_numeral_iff)
qed

text \<open>One coordinate: the filter's quotient against the exact position.\<close>

lemma coordinate_error:
  fixes A B C :: rat
  assumes "small u" "small v" "1 \<le> A + B * of_int u + C * of_int v" "A + B * of_int u + C * of_int v \<le> 32766"
  defines "k \<equiv> trunc (A * 65536) + trunc (B * 65536) * u + trunc (C * 65536) * v"
  shows "in_s32 k" "0 \<le> k sdiv 65536" "k sdiv 65536 < 2 ^ 31"
    "\<bar>of_int (k sdiv 65536) - (A + B * of_int u + C * of_int v)\<bar> * 65536 < 65537 + of_int \<bar>u\<bar> + of_int \<bar>v\<bar>"
proof -
  define P where "P = A + B * of_int u + C * of_int v"
  have uv: "1 + of_int \<bar>u\<bar> + of_int \<bar>v\<bar> \<le> (65535::rat)"
  proof -
    have "1 + \<bar>u\<bar> + \<bar>v\<bar> \<le> 65535" using assms(1,2) by (simp add: small_def)
    then have "of_int (1 + \<bar>u\<bar> + \<bar>v\<bar>) \<le> (of_int 65535 :: rat)" by (simp only: of_int_le_iff)
    then show ?thesis by simp
  qed
  have err: "\<bar>of_int k - P * 65536\<bar> < 1 + of_int \<bar>u\<bar> + of_int \<bar>v\<bar>" unfolding k_def P_def by (rule combine_error)
  have P: "65536 \<le> P * 65536" "P * 65536 \<le> 32766 * 65536" using assms(3,4) by (simp_all add: P_def)
  have "P * 65536 - 65535 \<le> of_int k" "of_int k \<le> P * 65536 + 65535" using err uv by linarith+
  then have "(0::rat) \<le> of_int k" "of_int k \<le> (2147483647 :: rat)" using P by linarith+
  then have "(0::rat) \<le> of_int k" "of_int k \<le> (of_int 2147483647 :: rat)" by simp_all
  then have k: "0 \<le> k" "k \<le> 2147483647" by (simp_all only: of_int_0_le_iff of_int_le_iff)
  show "in_s32 k" using k by (simp add: in_s32_def)
  show "0 \<le> k sdiv 65536" "k sdiv 65536 < 2 ^ 31" using k by (simp_all add: sdiv_error pos_imp_zdiv_nonneg_iff)
  have "\<bar>of_int (k sdiv 65536) - P\<bar> * 65536 = \<bar>of_int (k div 65536) * 65536 - P * 65536\<bar>"
    unfolding sdiv_error(1) [OF k(1)] left_diff_distrib [symmetric] abs_mult by simp
  also have "\<dots> < 65536 + (1 + of_int \<bar>u\<bar> + of_int \<bar>v\<bar>)"
    using err sdiv_error(2,3) [OF k(1)] by (simp add: abs_less_iff)
  finally show "\<bar>of_int (k sdiv 65536) - (A + B * of_int u + C * of_int v)\<bar> * 65536 < 65537 + of_int \<bar>u\<bar> + of_int \<bar>v\<bar>"
    by (simp add: P_def)
qed

lemma fitted_small:
  "length (fitted [A, B, C, D, E, F]) = 7"
  "\<forall>c \<in> {A, B, C, D, E, F}. in_s32 (trunc (c * 65536)) \<Longrightarrow> \<forall>a \<in> set (fitted [A, B, C, D, E, F]). in_s32 a"
  by (auto simp: fitted_def in_s32_def)

lemma nth_fitted:
  "fitted [A, B, C, D, E, F] ! 0 = trunc (A * 65536)" "fitted [A, B, C, D, E, F] ! 1 = trunc (B * 65536)"
  "fitted [A, B, C, D, E, F] ! 2 = trunc (C * 65536)" "fitted [A, B, C, D, E, F] ! 3 = trunc (D * 65536)"
  "fitted [A, B, C, D, E, F] ! 4 = trunc (E * 65536)" "fitted [A, B, C, D, E, F] ! 5 = trunc (F * 65536)"
  "fitted [A, B, C, D, E, F] ! 6 = 65536"
  by (simp_all add: fitted_def)

text \<open>A sample through the filter \<open>linear\<close> as the calibration file sets it up, on a device without a resolution of its own.\<close>

lemma linear_sample_fitted:
  assumes "small (samp_x s)" "small (samp_y s)" "dev_res_x dev = 0" "dev_res_y dev = 0"
    "1 \<le> A + B * of_int (samp_x s) + C * of_int (samp_y s)" "A + B * of_int (samp_x s) + C * of_int (samp_y s) \<le> 32766"
    "1 \<le> D + E * of_int (samp_x s) + F * of_int (samp_y s)" "D + E * of_int (samp_x s) + F * of_int (samp_y s) \<le> 32766"
    and lin: "lin = \<lparr>li_swap_xy = 0, li_p_offset = 0, li_p_mult = 1, li_p_div = 1,
      li_a = [trunc (B * 65536), trunc (C * 65536), trunc (A * 65536), trunc (E * 65536), trunc (F * 65536), trunc (D * 65536), 65536],
      li_cal_res_x = rx, li_cal_res_y = ry\<rparr>"
  shows "linear_sample dev lin s = Inr (calibrated dev lin s)" "samp_pressure (calibrated dev lin s) = samp_pressure s"
    "\<bar>of_int (samp_x (calibrated dev lin s)) - (A + B * of_int (samp_x s) + C * of_int (samp_y s))\<bar> * 65536
      < 65537 + of_int \<bar>samp_x s\<bar> + of_int \<bar>samp_y s\<bar>"
    "\<bar>of_int (samp_y (calibrated dev lin s)) - (D + E * of_int (samp_x s) + F * of_int (samp_y s))\<bar> * 65536
      < 65537 + of_int \<bar>samp_x s\<bar> + of_int \<bar>samp_y s\<bar>"
proof -
  note x = coordinate_error [OF assms(1,2,5,6)] and y = coordinate_error [OF assms(1,2,7,8)]
  have "in_range dev lin s" using x(1-3) y(1-3) assms(3,4) by (simp add: in_range_def lin Let_def affine_def fits_def add.commute add.left_commute)
  moreover have "linear_wf lin" by (simp add: linear_wf_def lin)
  ultimately show "linear_sample dev lin s = Inr (calibrated dev lin s)" by (intro linear_sample_exact)
  have c: "samp_x (calibrated dev lin s) = (trunc (A * 65536) + trunc (B * 65536) * samp_x s + trunc (C * 65536) * samp_y s) sdiv 65536"
    "samp_y (calibrated dev lin s) = (trunc (D * 65536) + trunc (E * 65536) * samp_x s + trunc (F * 65536) * samp_y s) sdiv 65536"
    using assms(3,4) by (simp_all add: calibrated_def lin affine_def to_screen_def Let_def)
  show "samp_pressure (calibrated dev lin s) = samp_pressure s" by (simp add: calibrated_def lin affine_def Let_def)
  from x(4) y(4) show "\<bar>of_int (samp_x (calibrated dev lin s)) - (A + B * of_int (samp_x s) + C * of_int (samp_y s))\<bar> * 65536
      < 65537 + of_int \<bar>samp_x s\<bar> + of_int \<bar>samp_y s\<bar>"
    "\<bar>of_int (samp_y (calibrated dev lin s)) - (D + E * of_int (samp_x s) + F * of_int (samp_y s))\<bar> * 65536
      < 65537 + of_int \<bar>samp_x s\<bar> + of_int \<bar>samp_y s\<bar>"
    by (simp_all only: c)
qed

subsection \<open>Properties\<close>

text \<open>
  The fit recovers the panel. When the touches and the crosses are related by any affine
  map and the touches do not lie on one line, \<open>perform_calibration\<close> in exact arithmetic
  succeeds and its coefficients are those of the map, scaled by 65536 and truncated.
\<close>

theorem perform_calibration_recovers:
  assumes "spread (zip (cal_x cal) (cal_y cal)) \<noteq> 0"
    "on_map A B C (cal_xfb cal) (zip (cal_x cal) (cal_y cal))" "on_map D E F (cal_yfb cal) (zip (cal_x cal) (cal_y cal))"
    "\<forall>c \<in> {A, B, C, D, E, F}. in_s32 (trunc (c * 65536))"
  shows "perform_calibration exact cal = Inr (1, cal\<lparr>cal_a := fitted [A, B, C, D, E, F]\<rparr>)"
  by (rule perform_calibration_fit [OF assms])

definition demo_cal :: calibration where
  "demo_cal = \<lparr>cal_x = [100, 900, 900, 100, 500], cal_xfb = [50, 270, 270, 50, 160], cal_y = [80, 80, 780, 780, 430],
     cal_yfb = [50, 50, 190, 190, 120], cal_a = replicate 7 0\<rparr>"

lemma demo_cal_map:
  "on_map (45 / 2) (11 / 40) 0 (cal_xfb demo_cal) (zip (cal_x demo_cal) (cal_y demo_cal))"
  "on_map 34 0 (1 / 5) (cal_yfb demo_cal) (zip (cal_x demo_cal) (cal_y demo_cal))"
  "spread (zip (cal_x demo_cal) (cal_y demo_cal)) \<noteq> 0"
  "\<forall>c \<in> {45 / 2, 11 / 40, 0, 34, 0, 1 / 5}. in_s32 (trunc (c * 65536))"
  by (simp_all add: demo_cal_def on_map_def small_def spread_def trunc_def in_s32_def floor_divide_of_int_eq)

theorem perform_calibration_recovers_witness:
  "perform_calibration exact demo_cal = Inr (1, demo_cal\<lparr>cal_a := fitted [45 / 2, 11 / 40, 0, 34, 0, 1 / 5]\<rparr>)"
  by (rule perform_calibration_recovers [OF demo_cal_map(3,1,2,4)])



end
