(* ===== verification/Framebuffer.thy ===== *)
theory Framebuffer
  imports Linear Font8x8
begin

unbundle bit_operations_syntax

text \<open>
  The drawing routines of the test programs, src/tslib-1.1/tests/fbutils.c. The mapped
  framebuffer is a list of bytes, a pointer into it is an offset, and every store checks that
  it stays inside the mapping, so that a wild store is a fault of the model. Pixels of two and
  four bytes are stored in the byte order of the target, which is little-endian.

  The section on dots gives the meaning of the routines: each of them plots a list of dots
  that depends on its arguments only.
\<close>

record fb_bitfield =
  bf_offset :: nat
  bf_length :: nat

record framebuffer =
  fb_mem :: "8 word list"
  line_addr :: "nat list"
  bytes_per_pixel :: int
  xres_virtual :: "32 word"
  yres_virtual :: "32 word"
  xres :: "32 word"
  yres :: "32 word"
  colormap :: "32 word list"
  var_red :: fb_bitfield
  var_green :: fb_bitfield
  var_blue :: fb_bitfield
  cmap_log :: "(32 word \<times> 16 word \<times> 16 word \<times> 16 word) list"

definition XORMODE :: "32 word" where "XORMODE = 0x80000000"

text \<open>Steps that may fault, one after the other.\<close>

fun seqr :: "('s \<Rightarrow> fault + 's) list \<Rightarrow> 's \<Rightarrow> fault + 's" where
  "seqr [] s = Inr s"
| "seqr (f # fs) s = (case f s of Inl e \<Rightarrow> Inl e | Inr s' \<Rightarrow> seqr fs s')"

subsection \<open>Pixels\<close>

text \<open>The bytes \<open>__setpixel\<close> stores for a colour, in the order of their addresses.\<close>

definition pixel_bytes :: "int \<Rightarrow> 32 word \<Rightarrow> 8 word list" where
  "pixel_bytes bpp color =
     (if bpp = 2 then [ucast color, ucast (drop_bit 8 color)]
      else if bpp = 3 then [ucast (drop_bit 16 color), ucast (drop_bit 8 color), ucast color]
      else if bpp = 4 then [ucast color, ucast (drop_bit 8 color), ucast (drop_bit 16 color), ucast (drop_bit 24 color)]
      else [ucast color])"

fun store_bytes :: "bool \<Rightarrow> nat \<Rightarrow> 8 word list \<Rightarrow> 8 word list \<Rightarrow> 8 word list" where
  "store_bytes xormode loc [] mem = mem"
| "store_bytes xormode loc (b # bs) mem =
     store_bytes xormode (loc + 1) bs (mem[loc := (if xormode then mem ! loc XOR b else b)])"

definition setpixel :: "int \<Rightarrow> int \<Rightarrow> 32 word \<Rightarrow> 32 word \<Rightarrow> 8 word list \<Rightarrow> fault + 8 word list" where
  "setpixel bpp loc xormode color mem =
     (let bs = pixel_bytes bpp color in
      if 0 \<le> loc \<and> loc + int (length bs) \<le> int (length mem) then Inr (store_bytes (xormode \<noteq> 0) (nat loc) bs mem)
      else Inl OutOfBounds)"

text \<open>The conversion \<open>(__u32)x\<close> is behind the test for a negative value and keeps the number.\<close>

definition pixel :: "int \<Rightarrow> int \<Rightarrow> 32 word \<Rightarrow> framebuffer \<Rightarrow> fault + framebuffer" where
  "pixel x y colidx fb =
     (if x < 0 \<or> uint (xres_virtual fb) \<le> x \<or> y < 0 \<or> uint (yres_virtual fb) \<le> y then Inr fb
      else
        (let xormode = colidx AND XORMODE; ci = colidx AND NOT XORMODE in
         case arr_get (line_addr fb) y of
           Inl e \<Rightarrow> Inl e
         | Inr la \<Rightarrow>
             (case arr_get (colormap fb) (uint ci) of
                Inl e \<Rightarrow> Inl e
              | Inr color \<Rightarrow>
                  (case setpixel (bytes_per_pixel fb) (int la + s32 (x * bytes_per_pixel fb)) xormode color (fb_mem fb) of
                     Inl e \<Rightarrow> Inl e
                   | Inr mem \<Rightarrow> Inr (fb\<lparr>fb_mem := mem\<rparr>)))))"

subsection \<open>Lines and rectangles\<close>

text \<open>
  The two loops of \<open>line\<close>, along y and along x. The counter is an \<open>int\<close> that goes up to its
  limit; the other coordinate is a 16.16 fixed point number.
\<close>

function line_y :: "int \<Rightarrow> int \<Rightarrow> int \<Rightarrow> int \<Rightarrow> 32 word \<Rightarrow> framebuffer \<Rightarrow> fault + framebuffer" where
  "line_y x1 y1 y2 dx colidx fb =
     (if y1 \<le> y2 then
        (case pixel (drop_bit 16 x1) y1 colidx fb of
           Inl e \<Rightarrow> Inl e
         | Inr fb' \<Rightarrow> line_y (s32 (x1 + dx)) (y1 + 1) y2 dx colidx fb')
      else Inr fb)"
  by pat_completeness auto
termination
  by (relation "measure (\<lambda>(x1, y1, y2, dx, colidx, fb). nat (y2 + 1 - y1))") auto

function line_x :: "int \<Rightarrow> int \<Rightarrow> int \<Rightarrow> int \<Rightarrow> 32 word \<Rightarrow> framebuffer \<Rightarrow> fault + framebuffer" where
  "line_x x1 x2 y1 dy colidx fb =
     (if x1 \<le> x2 then
        (case pixel x1 (drop_bit 16 y1) colidx fb of
           Inl e \<Rightarrow> Inl e
         | Inr fb' \<Rightarrow> line_x (x1 + 1) x2 (s32 (y1 + dy)) dy colidx fb')
      else Inr fb)"
  by pat_completeness auto
termination
  by (relation "measure (\<lambda>(x1, x2, y1, dy, colidx, fb). nat (x2 + 1 - x1))") auto

declare line_y.simps [simp del] line_x.simps [simp del]

definition line :: "int \<Rightarrow> int \<Rightarrow> int \<Rightarrow> int \<Rightarrow> 32 word \<Rightarrow> framebuffer \<Rightarrow> fault + framebuffer" where
  "line x1 y1 x2 y2 colidx fb =
     (let dx = s32 (x2 - x1); dy = s32 (y2 - y1) in
      if \<bar>dx\<bar> < \<bar>dy\<bar> then
        (let (x1, y1, y2, dx, dy) = (if y2 < y1 then (x2, y2, y1, s32 (- dx), s32 (- dy)) else (x1, y1, y2, dx, dy)) in
         case c_div (s32 (push_bit 16 dx)) dy of
           Inl e \<Rightarrow> Inl e
         | Inr step \<Rightarrow> line_y (s32 (push_bit 16 x1)) y1 y2 step colidx fb)
      else
        (let (x1, y1, x2, dx, dy) = (if x2 < x1 then (x2, y2, x1, s32 (- dx), s32 (- dy)) else (x1, y1, x2, dx, dy)) in
         case (if dx \<noteq> 0 then c_div (s32 (push_bit 16 dy)) dx else Inr 0) of
           Inl e \<Rightarrow> Inl e
         | Inr step \<Rightarrow> line_x x1 x2 (s32 (push_bit 16 y1)) step colidx fb))"

definition rect :: "int \<Rightarrow> int \<Rightarrow> int \<Rightarrow> int \<Rightarrow> 32 word \<Rightarrow> framebuffer \<Rightarrow> fault + framebuffer" where
  "rect x1 y1 x2 y2 colidx = seqr
     [line x1 y1 x2 y1 colidx, line x2 y1 x2 y2 colidx, line x2 y2 x1 y2 colidx, line x1 y2 x1 y1 colidx]"

text \<open>\<open>if (v < 0) v = 0; if ((__u32)v >= res) v = res - 1;\<close>\<close>

definition clip :: "32 word \<Rightarrow> int \<Rightarrow> int" where
  "clip res v = (let v = (if v < 0 then 0 else v) in if uint res \<le> v then sint (res - 1) else v)"

function fill_row :: "int \<Rightarrow> int \<Rightarrow> int \<Rightarrow> int \<Rightarrow> 32 word \<Rightarrow> 32 word \<Rightarrow> 8 word list \<Rightarrow> fault + 8 word list" where
  "fill_row bpp tmp x2 loc xormode color mem =
     (if tmp \<le> x2 then
        (case setpixel bpp loc xormode color mem of
           Inl e \<Rightarrow> Inl e
         | Inr mem' \<Rightarrow> fill_row bpp (tmp + 1) x2 (loc + bpp) xormode color mem')
      else Inr mem)"
  by pat_completeness auto
termination
  by (relation "measure (\<lambda>(bpp, tmp, x2, loc, xormode, color, mem). nat (x2 + 1 - tmp))") auto

function fill_rows :: "int \<Rightarrow> int \<Rightarrow> int \<Rightarrow> int \<Rightarrow> 32 word \<Rightarrow> 32 word \<Rightarrow> framebuffer \<Rightarrow> fault + framebuffer" where
  "fill_rows x1 x2 y1 y2 xormode color fb =
     (if y1 \<le> y2 then
        (case arr_get (line_addr fb) y1 of
           Inl e \<Rightarrow> Inl e
         | Inr la \<Rightarrow>
             (case fill_row (bytes_per_pixel fb) x1 x2 (int la + s32 (x1 * bytes_per_pixel fb)) xormode color (fb_mem fb) of
                Inl e \<Rightarrow> Inl e
              | Inr mem \<Rightarrow> fill_rows x1 x2 (y1 + 1) y2 xormode color (fb\<lparr>fb_mem := mem\<rparr>)))
      else Inr fb)"
  by pat_completeness auto
termination
  by (relation "measure (\<lambda>(x1, x2, y1, y2, xormode, color, fb). nat (y2 + 1 - y1))") auto

declare fill_row.simps [simp del] fill_rows.simps [simp del]

definition fillrect :: "int \<Rightarrow> int \<Rightarrow> int \<Rightarrow> int \<Rightarrow> 32 word \<Rightarrow> framebuffer \<Rightarrow> fault + framebuffer" where
  "fillrect x1 y1 x2 y2 colidx fb =
     (let (x1, x2) = (if x2 < x1 then (x2, x1) else (x1, x2));
          (y1, y2) = (if y2 < y1 then (y2, y1) else (y1, y2));
          x1 = clip (xres fb) x1; x2 = clip (xres fb) x2;
          y1 = clip (yres fb) y1; y2 = clip (yres fb) y2
      in
        if x2 < x1 \<or> y2 < y1 then Inr fb
        else
          (case arr_get (colormap fb) (uint (colidx AND NOT XORMODE)) of
             Inl e \<Rightarrow> Inl e
           | Inr color \<Rightarrow> fill_rows x1 x2 y1 y2 (colidx AND XORMODE) color fb))"

subsection \<open>Crosses and text\<close>

definition put_cross :: "int \<Rightarrow> int \<Rightarrow> 32 word \<Rightarrow> framebuffer \<Rightarrow> fault + framebuffer" where
  "put_cross x y colidx = seqr
     [line (x - 10) y (x - 2) y colidx,
      line (x + 2) y (x + 10) y colidx,
      line x (y - 10) x (y - 2) colidx,
      line x (y + 2) x (y + 10) colidx,
      line (x - 6) (y - 9) (x - 9) (y - 9) (colidx + 1),
      line (x - 9) (y - 8) (x - 9) (y - 6) (colidx + 1),
      line (x - 9) (y + 6) (x - 9) (y + 9) (colidx + 1),
      line (x - 8) (y + 9) (x - 6) (y + 9) (colidx + 1),
      line (x + 6) (y + 9) (x + 9) (y + 9) (colidx + 1),
      line (x + 9) (y + 8) (x + 9) (y + 6) (colidx + 1),
      line (x + 9) (y - 6) (x + 9) (y - 9) (colidx + 1),
      line (x + 8) (y - 9) (x + 6) (y - 9) (colidx + 1)]"

text \<open>One row of a glyph: the inner loop of \<open>put_char\<close>, from column \<open>j\<close> on.\<close>

function char_row :: "int \<Rightarrow> int \<Rightarrow> int \<Rightarrow> int \<Rightarrow> 32 word \<Rightarrow> framebuffer \<Rightarrow> fault + framebuffer" where
  "char_row x y j bits colidx fb =
     (if j < font_width font_vga_8x8 then
        (case (if bits AND 128 \<noteq> 0 then pixel (x + j) y colidx fb else Inr fb) of
           Inl e \<Rightarrow> Inl e
         | Inr fb' \<Rightarrow> char_row x y (j + 1) (s32 (push_bit 1 bits)) colidx fb')
      else Inr fb)"
  by pat_completeness auto
termination
  by (relation "measure (\<lambda>(x, y, j, bits, colidx, fb). nat (font_width font_vga_8x8 - j))") auto

function char_rows :: "int \<Rightarrow> int \<Rightarrow> int \<Rightarrow> int \<Rightarrow> 32 word \<Rightarrow> framebuffer \<Rightarrow> fault + framebuffer" where
  "char_rows x y c i colidx fb =
     (if i < font_height font_vga_8x8 then
        (case arr_get (font_data font_vga_8x8) (s32 (s32 (font_height font_vga_8x8 * c) + i)) of
           Inl e \<Rightarrow> Inl e
         | Inr bits \<Rightarrow>
             (case char_row x (y + i) 0 bits colidx fb of
                Inl e \<Rightarrow> Inl e
              | Inr fb' \<Rightarrow> char_rows x y c (i + 1) colidx fb'))
      else Inr fb)"
  by pat_completeness auto
termination
  by (relation "measure (\<lambda>(x, y, c, i, colidx, fb). nat (font_height font_vga_8x8 - i))") auto

declare char_row.simps [simp del] char_rows.simps [simp del]

definition put_char :: "int \<Rightarrow> int \<Rightarrow> int \<Rightarrow> 32 word \<Rightarrow> framebuffer \<Rightarrow> fault + framebuffer" where
  "put_char x y c colidx = char_rows x y c 0 colidx"

text \<open>A \<open>char\<close> of the target is unsigned.\<close>

fun put_string :: "int \<Rightarrow> int \<Rightarrow> string \<Rightarrow> 32 word \<Rightarrow> framebuffer \<Rightarrow> fault + framebuffer" where
  "put_string x y [] colidx fb = Inr fb"
| "put_string x y (c # s) colidx fb =
     (case put_char x y (of_char c) colidx fb of
        Inl e \<Rightarrow> Inl e
      | Inr fb' \<Rightarrow> put_string (s32 (x + font_width font_vga_8x8)) y s colidx fb')"

text \<open>\<open>strlen\<close> gives a \<open>size_t\<close>; the subtraction is unsigned and converts back to \<open>int\<close>.\<close>

definition put_string_center :: "int \<Rightarrow> int \<Rightarrow> string \<Rightarrow> 32 word \<Rightarrow> framebuffer \<Rightarrow> fault + framebuffer" where
  "put_string_center x y s colidx =
     put_string (s32 (x - int (length s) div 2 * font_width font_vga_8x8)) (s32 (y - font_height font_vga_8x8 sdiv 2)) s colidx"

subsection \<open>The colour map\<close>

text \<open>
  \<open>red >> (8 - length)\<close> promotes to \<open>int\<close>; a length above 8 would shift by a negative amount
  and is excluded by the well-formedness below. The device's answer to FBIOPUTCMAP only
  decides about a message.
\<close>

definition field_bits :: "fb_bitfield \<Rightarrow> 32 word \<Rightarrow> 32 word" where
  "field_bits f v = push_bit (bf_offset f) (drop_bit (8 - bf_length f) v)"

definition setcolor :: "32 word \<Rightarrow> 32 word \<Rightarrow> framebuffer \<Rightarrow> fault + framebuffer" where
  "setcolor colidx val fb =
     (let (fb1, res) =
        (if bytes_per_pixel fb \<in> {2, 3, 4} then
           (fb, field_bits (var_red fb) (drop_bit 16 val AND 255) OR field_bits (var_green fb) (drop_bit 8 val AND 255) OR
                field_bits (var_blue fb) (val AND 255))
         else
           (fb\<lparr>cmap_log := cmap_log fb @ [(colidx, ucast (drop_bit 8 val AND 0xff00), ucast (val AND 0xff00),
                                          ucast (push_bit 8 val AND 0xff00))]\<rparr>, colidx))
      in if unat colidx < length (colormap fb) then Inr (fb1\<lparr>colormap := (colormap fb)[unat colidx := res]\<rparr>) else Inl OutOfBounds)"

text \<open>
  The tail of \<open>open_framebuffer\<close>, once the device has told its geometry and the mapping of
  \<open>smem_len\<close> bytes exists: the memory is cleared and the table of line addresses is filled.
  The offset \<open>addr\<close> is unsigned and wraps.
\<close>

fun line_table :: "nat \<Rightarrow> 32 word \<Rightarrow> 32 word \<Rightarrow> nat list" where
  "line_table 0 addr line_length = []"
| "line_table (Suc n) addr line_length = unat addr # line_table n (addr + line_length) line_length"

definition init_framebuffer :: "nat \<Rightarrow> 32 word \<Rightarrow> 32 word \<Rightarrow> framebuffer \<Rightarrow> framebuffer" where
  "init_framebuffer smem_len line_length bits_per_pixel fb =
     fb\<lparr>fb_mem := replicate smem_len 0,
        bytes_per_pixel := sint ((bits_per_pixel + 7) div 8),
        line_addr := line_table (unat (yres_virtual fb)) 0 line_length\<rparr>"

subsection \<open>Dots\<close>

type_synonym dot = "int \<times> int \<times> 32 word"

definition draw :: "dot list \<Rightarrow> framebuffer \<Rightarrow> fault + framebuffer" where
  "draw ds = seqr (map (\<lambda>(x, y, c). pixel x y c) ds)"

lemma seqr_append: "seqr (fs @ gs) s = (case seqr fs s of Inl e \<Rightarrow> Inl e | Inr s' \<Rightarrow> seqr gs s')"
  by (induction fs arbitrary: s) (auto split: sum.split)

lemma seqr_preserves:
  assumes "\<forall>f \<in> set fs. \<forall>s. P s \<longrightarrow> (\<exists>s'. f s = Inr s' \<and> P s')" "P s"
  shows "\<exists>s'. seqr fs s = Inr s' \<and> P s'"
  using assms
proof (induction fs arbitrary: s)
  case (Cons f fs)
  then obtain s1 where "f s = Inr s1" "P s1" by auto
  with Cons.IH [of s1] Cons.prems(1) show ?case by auto
qed simp

lemma draw_simps [simp]:
  "draw [] fb = Inr fb"
  "draw ((x, y, c) # ds) fb = (case pixel x y c fb of Inl e \<Rightarrow> Inl e | Inr fb' \<Rightarrow> draw ds fb')"
  "draw (ds @ es) fb = (case draw ds fb of Inl e \<Rightarrow> Inl e | Inr fb' \<Rightarrow> draw es fb')"
  by (auto simp: draw_def seqr_append split: sum.split)

lemma seqr_draw: "\<forall>i < length fs. fs ! i = draw (dss ! i) \<Longrightarrow> length dss = length fs \<Longrightarrow> seqr fs fb = draw (concat dss) fb"
proof (induction fs arbitrary: dss fb)
  case (Cons f fs)
  then obtain ds dss' where dss: "dss = ds # dss'" "length dss' = length fs" by (cases dss) auto
  from Cons.prems(1) have "f = draw ds" "\<forall>i < length fs. fs ! i = draw (dss' ! i)"
    by (auto simp: dss dest: spec [of _ 0] spec [of _ "Suc i" for i])
  with Cons.IH [OF _ dss(2)] dss(1) show ?case by (simp split: sum.split)
qed simp

definition x_dots :: "int \<Rightarrow> int \<Rightarrow> int \<Rightarrow> int \<Rightarrow> 32 word \<Rightarrow> dot list" where
  "x_dots x1 x2 y1 dy c = map (\<lambda>k. (x1 + int k, drop_bit 16 (s32 (y1 + int k * dy)), c)) [0 ..< nat (x2 + 1 - x1)]"

definition y_dots :: "int \<Rightarrow> int \<Rightarrow> int \<Rightarrow> int \<Rightarrow> 32 word \<Rightarrow> dot list" where
  "y_dots x1 y1 y2 dx c = map (\<lambda>k. (drop_bit 16 (s32 (x1 + int k * dx)), y1 + int k, c)) [0 ..< nat (y2 + 1 - y1)]"

lemma map_upt_Suc_first: "map f [0 ..< Suc n] = f 0 # map (\<lambda>k. f (Suc k)) [0 ..< n]"
  by (subst upt_rec) (simp add: map_Suc_upt [symmetric] del: map_Suc_upt upt_Suc)

lemma line_x_draw: "in_s32 y1 \<Longrightarrow> line_x x1 x2 y1 dy c fb = draw (x_dots x1 x2 y1 dy c) fb"
proof (induction x1 x2 y1 dy c fb rule: line_x.induct)
  case (1 x1 x2 y1 dy c fb)
  show ?case
  proof (cases "x1 \<le> x2")
    case True
    then have n: "nat (x2 + 1 - x1) = Suc (nat (x2 + 1 - (x1 + 1)))" by linarith
    have "x_dots x1 x2 y1 dy c = (x1, drop_bit 16 y1, c) # x_dots (x1 + 1) x2 (s32 (y1 + dy)) dy c"
      unfolding x_dots_def n map_upt_Suc_first using 1(2)
      by (simp add: s32_id add.assoc algebra_simps)
    with 1 True show ?thesis by (simp add: line_x.simps [of x1] split: sum.split)
  qed (simp add: line_x.simps x_dots_def)
qed

lemma line_y_draw: "in_s32 x1 \<Longrightarrow> line_y x1 y1 y2 dx c fb = draw (y_dots x1 y1 y2 dx c) fb"
proof (induction x1 y1 y2 dx c fb rule: line_y.induct)
  case (1 x1 y1 y2 dx c fb)
  show ?case
  proof (cases "y1 \<le> y2")
    case True
    then have n: "nat (y2 + 1 - y1) = Suc (nat (y2 + 1 - (y1 + 1)))" by linarith
    have "y_dots x1 y1 y2 dx c = (drop_bit 16 x1, y1, c) # y_dots (s32 (x1 + dx)) (y1 + 1) y2 dx c"
      unfolding y_dots_def n map_upt_Suc_first using 1(2)
      by (simp add: s32_id add.assoc algebra_simps)
    with 1 True show ?thesis by (simp add: line_y.simps [of x1] split: sum.split)
  qed (simp add: line_y.simps y_dots_def)
qed

definition line_dots :: "int \<Rightarrow> int \<Rightarrow> int \<Rightarrow> int \<Rightarrow> 32 word \<Rightarrow> dot list" where
  "line_dots x1 y1 x2 y2 c =
     (let dx = s32 (x2 - x1); dy = s32 (y2 - y1) in
      if \<bar>dx\<bar> < \<bar>dy\<bar> then
        (if y2 < y1 then y_dots (s32 (push_bit 16 x2)) y2 y1 (s32 (s32 (push_bit 16 (s32 (- dx))) sdiv s32 (- dy))) c
         else y_dots (s32 (push_bit 16 x1)) y1 y2 (s32 (s32 (push_bit 16 dx) sdiv dy)) c)
      else
        (if x2 < x1 then x_dots x2 x1 (s32 (push_bit 16 y2)) (s32 (s32 (push_bit 16 (s32 (- dy))) sdiv s32 (- dx))) c
         else x_dots x1 x2 (s32 (push_bit 16 y1)) (if dx = 0 then 0 else s32 (s32 (push_bit 16 dy) sdiv dx)) c))"

lemma s32_eq_0_iff: "\<bar>v\<bar> < 4294967296 \<Longrightarrow> s32 v = 0 \<longleftrightarrow> v = 0"
proof
  assume v: "\<bar>v\<bar> < 4294967296" "s32 v = 0"
  then have "v mod 4294967296 = 0" using s32_mod [of v] by simp
  then have "4294967296 dvd v" by presburger
  then show "v = 0" using v(1) dvd_imp_le_int [of v 4294967296] by linarith
qed (simp add: s32_def)

lemma s32_minus_eq_0: "in_s32 d \<Longrightarrow> s32 (- d) = 0 \<longleftrightarrow> d = 0"
  by (subst s32_eq_0_iff) (auto simp: in_s32_def)

lemma line_draw:
  assumes "in_s32 x1" "in_s32 x2" "in_s32 y1" "in_s32 y2"
  shows "line x1 y1 x2 y2 c = draw (line_dots x1 y1 x2 y2 c)"
proof
  fix fb
  let ?dx = "s32 (x2 - x1)" and ?dy = "s32 (y2 - y1)"
  have "?dx \<noteq> 0" if "x2 < x1" using that assms s32_eq_0_iff [of "x2 - x1"] by (simp add: in_s32_def)
  then show "line x1 y1 x2 y2 c fb = draw (line_dots x1 y1 x2 y2 c) fb"
    by (auto simp: line_def line_dots_def Let_def c_div_def line_x_draw line_y_draw s32_minus_eq_0)
qed

text \<open>The arguments of a drawing are far enough from the ends of the range of \<open>int\<close>.\<close>

definition on_plane :: "int \<Rightarrow> bool" where
  "on_plane v \<longleftrightarrow> - (2 ^ 31) + 16 \<le> v \<and> v < 2 ^ 31 - 16"

lemma on_plane_s32: "on_plane v \<Longrightarrow> -16 \<le> d \<Longrightarrow> d \<le> 16 \<Longrightarrow> in_s32 (v + d)"
  by (simp add: on_plane_def in_s32_def)

lemma on_plane_in_s32 [simp]: "on_plane v \<Longrightarrow> in_s32 v"
  by (simp add: on_plane_def in_s32_def)

definition rect_dots :: "int \<Rightarrow> int \<Rightarrow> int \<Rightarrow> int \<Rightarrow> 32 word \<Rightarrow> dot list" where
  "rect_dots x1 y1 x2 y2 c = concat
     [line_dots x1 y1 x2 y1 c, line_dots x2 y1 x2 y2 c, line_dots x2 y2 x1 y2 c, line_dots x1 y2 x1 y1 c]"

definition cross_dots :: "int \<Rightarrow> int \<Rightarrow> 32 word \<Rightarrow> dot list" where
  "cross_dots x y c = concat
     [line_dots (x - 10) y (x - 2) y c, line_dots (x + 2) y (x + 10) y c,
      line_dots x (y - 10) x (y - 2) c, line_dots x (y + 2) x (y + 10) c,
      line_dots (x - 6) (y - 9) (x - 9) (y - 9) (c + 1), line_dots (x - 9) (y - 8) (x - 9) (y - 6) (c + 1),
      line_dots (x - 9) (y + 6) (x - 9) (y + 9) (c + 1), line_dots (x - 8) (y + 9) (x - 6) (y + 9) (c + 1),
      line_dots (x + 6) (y + 9) (x + 9) (y + 9) (c + 1), line_dots (x + 9) (y + 8) (x + 9) (y + 6) (c + 1),
      line_dots (x + 9) (y - 6) (x + 9) (y - 9) (c + 1), line_dots (x + 8) (y - 9) (x + 6) (y - 9) (c + 1)]"

lemma rect_draw:
  assumes "in_s32 x1" "in_s32 x2" "in_s32 y1" "in_s32 y2"
  shows "rect x1 y1 x2 y2 c fb = draw (rect_dots x1 y1 x2 y2 c) fb"
  using assms by (simp add: rect_def rect_dots_def line_draw split: sum.split)

lemma put_cross_draw:
  assumes "on_plane x" "on_plane y"
  shows "put_cross x y c fb = draw (cross_dots x y c) fb"
proof -
  have "in_s32 (v + d)" "in_s32 (v - d)" if "v = x \<or> v = y" "d \<in> {0, 2, 6, 8, 9, 10}" for v d
    using that assms on_plane_s32 [of v d] on_plane_s32 [of v "- d"] by auto
  then show ?thesis
    using assms by (simp add: put_cross_def cross_dots_def line_draw split: sum.split)
qed

text \<open>The dots of a glyph: the set bits of its eight bytes.\<close>

definition row_dots :: "int \<Rightarrow> int \<Rightarrow> nat \<Rightarrow> int \<Rightarrow> 32 word \<Rightarrow> dot list" where
  "row_dots x y j bits c = map (\<lambda>k. (x + int k, y, c)) (filter (\<lambda>k. bit bits (7 - k)) [j ..< 8])"

definition char_dots :: "int \<Rightarrow> int \<Rightarrow> int \<Rightarrow> 32 word \<Rightarrow> dot list" where
  "char_dots x y ch c = concat (map (\<lambda>i. row_dots x (y + int i) 0 (fontdata_8x8 ! (8 * nat ch + i)) c) [0 ..< 8])"

lemma row_dots_rec:
  "j < 8 \<Longrightarrow> row_dots x y j bits c = (if bit bits (7 - j) then (x + int j, y, c) # row_dots x y (Suc j) bits c else row_dots x y (Suc j) bits c)"
  by (simp add: row_dots_def upt_conv_Cons)

lemma char_row_draw:
  assumes "0 \<le> bits" "bits < 256" "j \<le> 8"
  shows "char_row x y (int j) (push_bit j bits) c fb = draw (row_dots x y j bits c) fb"
  using assms(3)
proof (induction "8 - j" arbitrary: j fb)
  case 0
  then show ?case by (simp add: char_row.simps row_dots_def)
next
  case (Suc n)
  then have j: "j < 8" by simp
  have "push_bit j bits < 256 * 2 ^ 7"
  proof -
    have "(2::int) ^ j \<le> 2 ^ 7" using j by (intro power_increasing) auto
    then have "bits * 2 ^ j \<le> bits * 2 ^ 7" using assms(1) by (intro mult_left_mono) auto
    also have "\<dots> < 256 * 2 ^ 7" using assms(2) by simp
    finally show ?thesis by (simp add: push_bit_eq_mult)
  qed
  moreover have "0 \<le> push_bit j bits" using assms(1) by (simp add: push_bit_nonnegative_int_iff)
  ultimately have "s32 (push_bit 1 (push_bit j bits)) = push_bit (Suc j) bits"
    by (subst s32_id) (auto simp: in_s32_def push_bit_eq_mult)
  moreover have "push_bit j bits AND 128 \<noteq> 0 \<longleftrightarrow> bit bits (7 - j)"
  proof -
    have "(128::int) = 2 ^ 7" by simp
    then have "push_bit j bits AND 128 \<noteq> 0 \<longleftrightarrow> bit (push_bit j bits) 7"
      by (simp only: and_exp_eq_0_iff_not_bit) simp
    then show ?thesis using j by (simp add: bit_push_bit_iff)
  qed
  moreover have "char_row x y (int j + 1) (push_bit (Suc j) bits) c fb' = draw (row_dots x y (Suc j) bits c) fb'" for fb'
    using Suc(1) [of "Suc j" fb'] Suc(2) j by (simp add: add.commute)
  ultimately show ?case
    using j by (subst char_row.simps) (simp add: row_dots_rec split: sum.split)
qed

lemma char_rows_draw:
  assumes "0 \<le> ch" "ch < 256" "i \<le> 8"
  shows "char_rows x y ch (int i) c fb =
    draw (concat (map (\<lambda>i. row_dots x (y + int i) 0 (fontdata_8x8 ! (8 * nat ch + i)) c) [i ..< 8])) fb"
  using assms(3)
proof (induction "8 - i" arbitrary: i fb)
  case 0
  then show ?case by (simp add: char_rows.simps)
next
  case (Suc n)
  then have i: "i < 8" by simp
  let ?b = "fontdata_8x8 ! (8 * nat ch + i)"
  have "s32 (s32 (8 * ch) + int i) = 8 * ch + int i" using assms i by (subst s32_id) (auto simp: in_s32_def s32_id)
  moreover have "nat (8 * ch + int i) = 8 * nat ch + i" using assms by (simp add: nat_add_distrib nat_mult_distrib)
  ultimately have a: "arr_get fontdata_8x8 (s32 (s32 (8 * ch) + int i)) = Inr ?b"
    using assms i by (simp add: arr_get_def)
  have "8 * nat ch + i < 2048" using assms i by simp
  then have "0 \<le> ?b" "?b < 256" using fontdata_8x8_byte [OF nth_mem, of "8 * nat ch + i"] by simp_all
  from char_row_draw [OF this, of 0 x "y + int i" c fb]
  have "char_row x (y + int i) 0 ?b c fb = draw (row_dots x (y + int i) 0 ?b c) fb" by simp
  with a Suc(1) [of "Suc i"] Suc(2) i show ?case
    by (subst char_rows.simps) (simp add: upt_conv_Cons add.commute split: sum.split)
qed

lemma put_char_draw: "0 \<le> ch \<Longrightarrow> ch < 256 \<Longrightarrow> put_char x y ch c fb = draw (char_dots x y ch c) fb"
  using char_rows_draw [of ch 0 x y c fb] by (simp add: put_char_def char_dots_def)

fun string_dots :: "int \<Rightarrow> int \<Rightarrow> string \<Rightarrow> 32 word \<Rightarrow> dot list" where
  "string_dots x y [] c = []"
| "string_dots x y (ch # s) c = char_dots x y (of_char ch) c @ string_dots (s32 (x + 8)) y s c"

lemma of_char_range: "0 \<le> (of_char ch :: int) \<and> (of_char ch :: int) < 256"
  using pos_mod_sign [of 256 "of_char ch :: int"] pos_mod_bound [of 256 "of_char ch :: int"] by simp

lemma put_string_draw: "put_string x y s c fb = draw (string_dots x y s c) fb"
  using of_char_range by (induction x y s c fb rule: put_string.induct) (simp_all add: put_char_draw split: sum.split)

subsection \<open>Stores\<close>

lemma length_store_bytes [simp]: "length (store_bytes m loc bs mem) = length mem"
  by (induction m loc bs mem rule: store_bytes.induct) auto

lemma nth_store_bytes:
  "i < length mem \<Longrightarrow> store_bytes m loc bs mem ! i =
    (if loc \<le> i \<and> i < loc + length bs then (if m then mem ! i XOR bs ! (i - loc) else bs ! (i - loc)) else mem ! i)"
proof (induction m loc bs mem rule: store_bytes.induct)
  case (2 m loc b bs mem)
  have "i - loc = Suc (i - (loc + 1))" if "loc < i" using that by simp
  with 2 show ?case by (auto simp: nth_list_update nth_Cons' Suc_diff_le)
qed auto

lemma store_xor_twice: "store_bytes True loc bs (store_bytes True loc bs mem) = mem"
  by (rule nth_equalityI) (auto simp: nth_store_bytes xor.assoc)

lemma store_xor_commute: "store_bytes True l bs (store_bytes True k cs mem) = store_bytes True k cs (store_bytes True l bs mem)"
  by (rule nth_equalityI) (auto simp: nth_store_bytes ac_simps)

text \<open>What one dot does to the memory, as a function that never faults.\<close>

definition inside :: "framebuffer \<Rightarrow> int \<Rightarrow> int \<Rightarrow> bool" where
  "inside fb x y \<longleftrightarrow> 0 \<le> x \<and> x < uint (xres_virtual fb) \<and> 0 \<le> y \<and> y < uint (yres_virtual fb)"

definition dot_loc :: "framebuffer \<Rightarrow> int \<Rightarrow> int \<Rightarrow> nat" where
  "dot_loc fb x y = line_addr fb ! nat y + nat x * nat (bytes_per_pixel fb)"

definition dot_color :: "framebuffer \<Rightarrow> 32 word \<Rightarrow> 8 word list" where
  "dot_color fb c = pixel_bytes (bytes_per_pixel fb) (colormap fb ! unat (c AND NOT XORMODE))"

definition is_xor :: "dot \<Rightarrow> bool" where
  "is_xor d \<longleftrightarrow> snd (snd d) AND XORMODE \<noteq> 0"

fun plot :: "dot \<Rightarrow> framebuffer \<Rightarrow> framebuffer" where
  "plot (x, y, c) fb =
     (if inside fb x y
      then fb\<lparr>fb_mem := store_bytes (is_xor (x, y, c)) (dot_loc fb x y) (dot_color fb c) (fb_mem fb)\<rparr> else fb)"

definition fb_wf :: "framebuffer \<Rightarrow> bool" where
  "fb_wf fb \<longleftrightarrow> 1 \<le> bytes_per_pixel fb \<and> uint (xres_virtual fb) * bytes_per_pixel fb < 2 ^ 31 \<and>
     length (line_addr fb) = unat (yres_virtual fb) \<and> length (colormap fb) = 256 \<and>
     (\<forall>y < unat (yres_virtual fb). line_addr fb ! y + unat (xres_virtual fb) * nat (bytes_per_pixel fb) \<le> length (fb_mem fb)) \<and>
     (\<forall>y y'. y < y' \<longrightarrow> y' < unat (yres_virtual fb) \<longrightarrow>
        line_addr fb ! y + unat (xres_virtual fb) * nat (bytes_per_pixel fb) \<le> line_addr fb ! y')"

lemma geometry_mem [simp]:
  "inside (fb\<lparr>fb_mem := m\<rparr>) = inside fb" "dot_loc (fb\<lparr>fb_mem := m\<rparr>) = dot_loc fb" "dot_color (fb\<lparr>fb_mem := m\<rparr>) = dot_color fb"
  by (simp_all add: fun_eq_iff inside_def dot_loc_def dot_color_def)

text \<open>A colour argument names an entry of the colour map.\<close>

definition color_ok :: "32 word \<Rightarrow> bool" where
  "color_ok c \<longleftrightarrow> c AND NOT XORMODE < 256"

lemma plot_more [simp]:
  "line_addr (plot d fb) = line_addr fb" "bytes_per_pixel (plot d fb) = bytes_per_pixel fb"
  "xres_virtual (plot d fb) = xres_virtual fb" "yres_virtual (plot d fb) = yres_virtual fb"
  "xres (plot d fb) = xres fb" "yres (plot d fb) = yres fb" "colormap (plot d fb) = colormap fb"
  "length (fb_mem (plot d fb)) = length (fb_mem fb)"
  by (cases d, simp)+

lemma plot_geometry [simp]:
  "inside (plot d fb) = inside fb" "dot_loc (plot d fb) = dot_loc fb" "dot_color (plot d fb) = dot_color fb"
  by (simp_all add: fun_eq_iff inside_def dot_loc_def dot_color_def)

lemma fb_wf_plot [simp]: "fb_wf (plot d fb) = fb_wf fb"
  by (simp add: fb_wf_def)

lemma fb_wfD:
  assumes "fb_wf fb"
  shows "1 \<le> bytes_per_pixel fb" "uint (xres_virtual fb) * bytes_per_pixel fb < 2 ^ 31"
    "length (line_addr fb) = unat (yres_virtual fb)" "length (colormap fb) = 256"
    "y < unat (yres_virtual fb) \<Longrightarrow> line_addr fb ! y + unat (xres_virtual fb) * nat (bytes_per_pixel fb) \<le> length (fb_mem fb)"
    "y < y' \<Longrightarrow> y' < unat (yres_virtual fb) \<Longrightarrow>
       line_addr fb ! y + unat (xres_virtual fb) * nat (bytes_per_pixel fb) \<le> line_addr fb ! y'"
  using assms unfolding fb_wf_def by blast+

lemma length_pixel_bytes: "1 \<le> bpp \<Longrightarrow> length (pixel_bytes bpp color) \<le> nat bpp"
  by (auto simp: pixel_bytes_def)

text \<open>The pixels of a line follow each other, and lie before the end of the line.\<close>

lemma dot_loc_bound:
  assumes "fb_wf fb" "inside fb x y"
  shows "dot_loc fb x y + nat (bytes_per_pixel fb) \<le> line_addr fb ! nat y + unat (xres_virtual fb) * nat (bytes_per_pixel fb)"
proof -
  have "Suc (nat x) \<le> unat (xres_virtual fb)" using assms(2) by (simp add: inside_def nat_less_iff Suc_le_eq)
  then have "Suc (nat x) * nat (bytes_per_pixel fb) \<le> unat (xres_virtual fb) * nat (bytes_per_pixel fb)"
    by (rule mult_le_mono1)
  then show ?thesis by (simp add: dot_loc_def)
qed

lemma pixel_plot:
  assumes "fb_wf fb" "color_ok c"
  shows "pixel x y c fb = Inr (plot (x, y, c) fb)"
proof (cases "inside fb x y")
  case True
  let ?bpp = "bytes_per_pixel fb"
  note wf = fb_wfD [OF assms(1)]
  from True have xy: "0 \<le> x" "x < uint (xres_virtual fb)" "0 \<le> y" "y < uint (yres_virtual fb)"
    by (simp_all add: inside_def)
  have ny: "nat y < unat (yres_virtual fb)" using xy by (simp add: nat_less_iff)
  have la: "arr_get (line_addr fb) y = Inr (line_addr fb ! nat y)"
    using xy ny wf(3) by (intro arr_get_Inr) auto
  have "uint (c AND NOT XORMODE) < 256" using assms(2) by (simp add: color_ok_def word_less_def)
  then have c: "arr_get (colormap fb) (uint (c AND NOT XORMODE)) = Inr (colormap fb ! unat (c AND NOT XORMODE))"
    using wf(4) by (simp add: arr_get_def)
  have "x * ?bpp \<le> uint (xres_virtual fb) * ?bpp" using xy wf(1) by (intro mult_right_mono) auto
  moreover have "0 \<le> x * ?bpp" using xy wf(1) by simp
  ultimately have "s32 (x * ?bpp) = x * ?bpp" using wf(2) by (intro s32_id) (simp add: in_s32_def)
  also have "\<dots> = int (nat x * nat ?bpp)" using xy wf(1) by simp
  finally have s: "int (line_addr fb ! nat y) + s32 (x * ?bpp) = int (dot_loc fb x y)" by (simp add: dot_loc_def)
  have "length (dot_color fb c) \<le> nat ?bpp"
    unfolding dot_color_def by (rule length_pixel_bytes) (rule wf(1))
  then have "dot_loc fb x y + length (dot_color fb c) \<le> length (fb_mem fb)"
    using dot_loc_bound [OF assms(1) True] wf(5) [OF ny] by linarith
  then have "setpixel ?bpp (int (dot_loc fb x y)) (c AND XORMODE) (colormap fb ! unat (c AND NOT XORMODE)) (fb_mem fb) =
      Inr (store_bytes (c AND XORMODE \<noteq> 0) (dot_loc fb x y) (dot_color fb c) (fb_mem fb))"
    by (simp add: setpixel_def Let_def dot_color_def)
  then show ?thesis using True xy la c s by (simp add: pixel_def Let_def is_xor_def)
qed (auto simp: pixel_def inside_def)

lemma fold_plot_more [simp]:
  "fb_wf (fold plot ds fb) = fb_wf fb" "length (fb_mem (fold plot ds fb)) = length (fb_mem fb)"
  "inside (fold plot ds fb) = inside fb" "dot_loc (fold plot ds fb) = dot_loc fb"
  by (induction ds arbitrary: fb) simp_all

lemma draw_plot: "fb_wf fb \<Longrightarrow> \<forall>d \<in> set ds. color_ok (snd (snd d)) \<Longrightarrow> draw ds fb = Inr (fold plot ds fb)"
  by (induction ds arbitrary: fb) (auto simp: pixel_plot simp del: plot.simps)

subsection \<open>Drawing twice in exclusive-or mode\<close>

text \<open>Steps that commute and undo themselves: a sequence of them, done twice, changes nothing.\<close>

locale commuting_involutions =
  fixes f :: "'p \<Rightarrow> 's \<Rightarrow> 's" and ok :: "'p \<Rightarrow> bool"
  assumes commute: "ok p \<Longrightarrow> ok q \<Longrightarrow> f p (f q s) = f q (f p s)"
    and involutive: "ok p \<Longrightarrow> f p (f p s) = s"
begin

lemma fold_commute: "ok p \<Longrightarrow> \<forall>q \<in> set ps. ok q \<Longrightarrow> fold f ps (f p s) = f p (fold f ps s)"
proof (induction ps arbitrary: s)
  case (Cons a ps)
  then have "f a (f p s) = f p (f a s)" by (intro commute) auto
  with Cons show ?case by simp
qed simp

lemma fold_twice: "\<forall>q \<in> set ps. ok q \<Longrightarrow> fold f ps (fold f ps s) = s"
  by (induction ps arbitrary: s) (simp_all add: fold_commute involutive)

end

interpretation xdots: commuting_involutions plot is_xor
proof
  fix p q s assume "is_xor p" "is_xor q"
  then show "plot p (plot q s) = plot q (plot p s)"
    by (cases p; cases q) (auto simp: inside_def dot_loc_def dot_color_def store_xor_commute)
next
  fix p s assume "is_xor p"
  then show "plot p (plot p s) = s"
    by (cases p) (auto simp: inside_def dot_loc_def dot_color_def store_xor_twice)
qed

lemma draw_xor_twice:
  assumes "fb_wf fb" "\<forall>d \<in> set ds. color_ok (snd (snd d)) \<and> is_xor d"
  shows "\<exists>fb'. draw ds fb = Inr fb' \<and> fb_wf fb' \<and> draw ds fb' = Inr fb"
  using assms xdots.fold_twice [of ds fb] by (simp add: draw_plot)

text \<open>Colours in exclusive-or mode.\<close>

lemma small_and_XORMODE: "j < 256 \<Longrightarrow> j AND XORMODE = 0"
proof -
  assume "j < 256"
  then have "j AND mask 8 = j" by (simp add: mask_eq_iff word_less_def)
  then have "j AND XORMODE = j AND (mask 8 AND XORMODE)" by (metis and.assoc)
  then show ?thesis by (simp add: XORMODE_def mask_eq_exp_minus_1)
qed

lemma xor_color:
  assumes "i < 256"
  shows "color_ok (i OR XORMODE)" "(i OR XORMODE) AND XORMODE \<noteq> 0"
proof -
  have i: "(i OR XORMODE) AND NOT XORMODE = i AND NOT XORMODE" "(i OR XORMODE) AND XORMODE = XORMODE"
    by (rule bit_eqI; auto simp: bit_and_iff bit_or_iff bit_not_iff)+
  have "i AND NOT XORMODE \<le> i" by (rule word_and_le2)
  then show "color_ok (i OR XORMODE)" using assms i(1) by (simp add: color_ok_def)
  show "(i OR XORMODE) AND XORMODE \<noteq> 0" by (simp add: i(2) XORMODE_def)
qed

lemma xor_color_Suc:
  assumes "i < 255"
  shows "(i OR XORMODE) + 1 = (i + 1) OR XORMODE" "i < 256" "i + 1 < 256"
proof -
  show i: "i < 256" "i + 1 < 256" using assms by unat_arith+
  show "(i OR XORMODE) + 1 = (i + 1) OR XORMODE"
    using i small_and_XORMODE by (simp flip: disjunctive_add_eq_or)
qed

lemma set_line_dots: "d \<in> set (line_dots x1 y1 x2 y2 c) \<Longrightarrow> snd (snd d) = c"
  by (auto simp: line_dots_def Let_def x_dots_def y_dots_def split: if_splits)

lemma set_cross_dots: "d \<in> set (cross_dots x y c) \<Longrightarrow> snd (snd d) = c \<or> snd (snd d) = c + 1"
  unfolding cross_dots_def by (auto dest: set_line_dots)

lemma set_rect_dots: "d \<in> set (rect_dots x1 y1 x2 y2 c) \<Longrightarrow> snd (snd d) = c"
  unfolding rect_dots_def by (auto dest: set_line_dots)

lemma set_string_dots: "d \<in> set (string_dots x y s c) \<Longrightarrow> snd (snd d) = c"
  by (induction x y s c rule: string_dots.induct) (auto simp: char_dots_def row_dots_def)

lemma put_cross_twice:
  assumes "fb_wf fb" "on_plane x" "on_plane y" "i < 255"
  shows "\<exists>fb'. put_cross x y (i OR XORMODE) fb = Inr fb' \<and> fb_wf fb' \<and> put_cross x y (i OR XORMODE) fb' = Inr fb"
proof -
  have "color_ok (snd (snd d)) \<and> is_xor d" if "d \<in> set (cross_dots x y (i OR XORMODE))" for d
    using set_cross_dots [OF that] xor_color [of i] xor_color [of "i + 1"] xor_color_Suc [OF assms(4)]
    by (auto simp: is_xor_def)
  then show ?thesis using draw_xor_twice [OF assms(1)] assms(2,3) by (simp add: put_cross_draw)
qed

text \<open>What is on the screen.\<close>

definition pixel_at :: "framebuffer \<Rightarrow> int \<Rightarrow> int \<Rightarrow> 8 word list" where
  "pixel_at fb x y = take (length (pixel_bytes (bytes_per_pixel fb) 0)) (drop (dot_loc fb x y) (fb_mem fb))"

lemma length_dot_color [simp]: "length (dot_color fb c) = length (pixel_bytes (bytes_per_pixel fb) 0)"
  by (simp add: dot_color_def pixel_bytes_def)

lemma dot_locs_apart:
  assumes "fb_wf fb" "inside fb x y" "inside fb x' y'" "(x, y) \<noteq> (x', y')"
  shows "dot_loc fb x y + nat (bytes_per_pixel fb) \<le> dot_loc fb x' y' \<or> dot_loc fb x' y' + nat (bytes_per_pixel fb) \<le> dot_loc fb x y"
proof -
  have rows: "dot_loc fb u v + nat (bytes_per_pixel fb) \<le> dot_loc fb u' v'"
    if "inside fb u v" "inside fb u' v'" "v < v'" for u v u' v'
  proof -
    have "nat v < nat v'" "nat v' < unat (yres_virtual fb)" using that by (auto simp: inside_def nat_less_iff)
    from fb_wfD(6) [OF assms(1) this] dot_loc_bound [OF assms(1) that(1)] show ?thesis by (simp add: dot_loc_def)
  qed
  have cols: "dot_loc fb u y + nat (bytes_per_pixel fb) \<le> dot_loc fb u' y"
    if "0 \<le> u" "u < u'" for u u'
  proof -
    have "Suc (nat u) * nat (bytes_per_pixel fb) \<le> nat u' * nat (bytes_per_pixel fb)" using that by (intro mult_le_mono1) simp
    then show ?thesis by (simp add: dot_loc_def)
  qed
  show ?thesis
    using rows [OF assms(2,3)] rows [OF assms(3,2)] cols [of x x'] cols [of x' x] assms(2-4)
    by (cases "y = y'") (auto simp: inside_def neq_iff)
qed

lemma dot_loc_length:
  assumes "fb_wf fb" "inside fb x y"
  shows "dot_loc fb x y + length (pixel_bytes (bytes_per_pixel fb) c) \<le> length (fb_mem fb)"
proof -
  have "nat y < unat (yres_virtual fb)" using assms(2) by (auto simp: inside_def nat_less_iff)
  from fb_wfD(5) [OF assms(1) this] dot_loc_bound [OF assms] length_pixel_bytes [OF fb_wfD(1) [OF assms(1)], of c]
  show ?thesis by linarith
qed

lemma pixel_at_plot:
  assumes "fb_wf fb" "inside fb x y" "\<not> is_xor (x', y', c)"
  shows "pixel_at (plot (x', y', c) fb) x y = (if x' = x \<and> y' = y then dot_color fb c else pixel_at fb x y)"
proof -
  let ?w = "length (pixel_bytes (bytes_per_pixel fb) 0)"
  have w: "?w \<le> nat (bytes_per_pixel fb)" by (rule length_pixel_bytes) (rule fb_wfD(1) [OF assms(1)])
  note end_of = dot_loc_length [OF assms(1,2), of 0]
  show ?thesis
  proof (cases "inside fb x' y'")
    case True
    then have "pixel_at (plot (x', y', c) fb) x y ! i = (if x' = x \<and> y' = y then dot_color fb c else pixel_at fb x y) ! i" if "i < ?w" for i
      using that end_of w dot_locs_apart [OF assms(1,2) True] assms(3)
      by (auto simp: pixel_at_def nth_store_bytes)
    then show ?thesis using end_of by (intro nth_equalityI) (auto simp: pixel_at_def)
  qed (use assms(2) in auto)
qed

lemma pixel_at_fold_plot:
  assumes "fb_wf fb" "inside fb x y" "\<forall>d \<in> set ds. snd (snd d) = c" "c AND XORMODE = 0"
  shows "pixel_at (fold plot ds fb) x y = (if (x, y, c) \<in> set ds then dot_color fb c else pixel_at fb x y)"
  using assms
proof (induction ds arbitrary: fb)
  case (Cons d ds)
  obtain x' y' where d: "d = (x', y', c)" using Cons.prems(3) by (cases d) auto
  have n: "\<not> is_xor (x', y', c)" using assms(4) by (simp add: is_xor_def)
  from Cons.IH [of "plot d fb"] Cons.prems pixel_at_plot [OF Cons.prems(1,2) n] show ?case
    by (auto simp: d simp del: plot.simps)
qed simp

subsection \<open>Filling\<close>

lemma setpixel_plot:
  assumes "fb_wf fb" "inside fb x y"
  shows "setpixel (bytes_per_pixel fb) (int (dot_loc fb x y)) (c AND XORMODE) (colormap fb ! unat (c AND NOT XORMODE)) (fb_mem fb) =
    Inr (fb_mem (plot (x, y, c) fb))"
  using dot_loc_length [OF assms, of "colormap fb ! unat (c AND NOT XORMODE)"] assms(2)
  by (simp add: setpixel_def Let_def is_xor_def) (simp add: dot_color_def)

lemma fold_plot_fields [simp]:
  "bytes_per_pixel (fold plot ds fb) = bytes_per_pixel fb" "line_addr (fold plot ds fb) = line_addr fb"
  "colormap (fold plot ds fb) = colormap fb" "xres_virtual (fold plot ds fb) = xres_virtual fb" "yres_virtual (fold plot ds fb) = yres_virtual fb"
  by (induction ds arbitrary: fb) simp_all

lemma fold_plot_mem: "fb\<lparr>fb_mem := fb_mem (fold plot ds fb)\<rparr> = fold plot ds fb"
proof (induction ds arbitrary: fb)
  case (Cons d ds)
  have "fb\<lparr>fb_mem := m\<rparr> = (plot d fb)\<lparr>fb_mem := m\<rparr>" for m by (cases d) simp
  with Cons show ?case by simp
qed simp

lemma fill_row_plot:
  assumes "fb_wf fb" "0 \<le> tmp" "x2 < uint (xres_virtual fb)" "0 \<le> y" "y < uint (yres_virtual fb)"
  shows "fill_row (bytes_per_pixel fb) tmp x2 (int (dot_loc fb tmp y)) (c AND XORMODE) (colormap fb ! unat (c AND NOT XORMODE)) (fb_mem fb) =
    Inr (fb_mem (fold plot (map (\<lambda>x. (x, y, c)) [tmp..x2]) fb))"
  using assms
proof (induction "nat (x2 + 1 - tmp)" arbitrary: tmp fb)
  case 0
  then show ?case by (simp add: fill_row.simps)
next
  case (Suc n)
  let ?fb = "plot (tmp, y, c) fb"
  have t: "tmp \<le> x2" "n = nat (x2 + 1 - (tmp + 1))" using Suc(2) by simp_all
  have "inside fb tmp y" using Suc.prems t by (simp add: inside_def)
  note set = setpixel_plot [OF Suc.prems(1) this, of c]
  have "nat (tmp + 1) = Suc (nat tmp)" using Suc.prems(2) by simp
  then have "int (dot_loc fb tmp y) + bytes_per_pixel fb = int (dot_loc fb (tmp + 1) y)"
    using fb_wfD(1) [OF Suc.prems(1)] by (simp add: dot_loc_def)
  moreover have "fill_row (bytes_per_pixel ?fb) (tmp + 1) x2 (int (dot_loc ?fb (tmp + 1) y)) (c AND XORMODE)
      (colormap ?fb ! unat (c AND NOT XORMODE)) (fb_mem ?fb) = Inr (fb_mem (fold plot (map (\<lambda>x. (x, y, c)) [tmp + 1..x2]) ?fb))"
    by (rule Suc(1) [OF t(2)]) (use Suc.prems in \<open>simp_all del: plot.simps\<close>)
  ultimately show ?case
    using t(1) set by (subst fill_row.simps) (simp add: upto_rec1 del: plot.simps)
qed

definition fill_dots :: "int \<Rightarrow> int \<Rightarrow> int \<Rightarrow> int \<Rightarrow> 32 word \<Rightarrow> dot list" where
  "fill_dots x1 x2 y1 y2 c = concat (map (\<lambda>y. map (\<lambda>x. (x, y, c)) [x1..x2]) [y1..y2])"

lemma set_fill_dots: "(x, y, c') \<in> set (fill_dots x1 x2 y1 y2 c) \<longleftrightarrow> x1 \<le> x \<and> x \<le> x2 \<and> y1 \<le> y \<and> y \<le> y2 \<and> c' = c"
  by (force simp: fill_dots_def)

lemma fill_rows_plot:
  assumes "fb_wf fb" "0 \<le> x1" "x1 < uint (xres_virtual fb)" "x2 < uint (xres_virtual fb)" "0 \<le> y1" "y2 < uint (yres_virtual fb)"
  shows "fill_rows x1 x2 y1 y2 (c AND XORMODE) (colormap fb ! unat (c AND NOT XORMODE)) fb = Inr (fold plot (fill_dots x1 x2 y1 y2 c) fb)"
  using assms
proof (induction "nat (y2 + 1 - y1)" arbitrary: y1 fb)
  case 0
  then show ?case by (simp add: fill_rows.simps fill_dots_def)
next
  case (Suc n)
  let ?row = "map (\<lambda>x. (x, y1, c)) [x1..x2]"
  let ?fb = "fold plot ?row fb"
  note wf = fb_wfD [OF Suc.prems(1)]
  have y: "y1 \<le> y2" "n = nat (y2 + 1 - (y1 + 1))" using Suc(2) by simp_all
  have ny: "y1 < int (length (line_addr fb))" using wf(3) y Suc.prems(6) by simp
  have "x1 * bytes_per_pixel fb \<le> uint (xres_virtual fb) * bytes_per_pixel fb"
    using Suc.prems(3) wf(1) by (intro mult_right_mono) auto
  moreover have "0 \<le> x1 * bytes_per_pixel fb" using Suc.prems(2) wf(1) by simp
  ultimately have "s32 (x1 * bytes_per_pixel fb) = x1 * bytes_per_pixel fb"
    using wf(2) by (intro s32_id) (simp add: in_s32_def)
  then have loc: "int (line_addr fb ! nat y1) + s32 (x1 * bytes_per_pixel fb) = int (dot_loc fb x1 y1)"
    using Suc.prems(2) wf(1) by (simp add: dot_loc_def)
  have "fill_rows x1 x2 (y1 + 1) y2 (c AND XORMODE) (colormap ?fb ! unat (c AND NOT XORMODE)) ?fb =
      Inr (fold plot (fill_dots x1 x2 (y1 + 1) y2 c) ?fb)"
    by (rule Suc(1) [OF y(2)]) (use Suc.prems in simp_all)
  moreover have "fill_dots x1 x2 y1 y2 c = ?row @ fill_dots x1 x2 (y1 + 1) y2 c"
    using y(1) by (simp add: fill_dots_def upto_rec1)
  ultimately show ?case
    using y(1) ny Suc.prems loc fill_row_plot [of fb x1 x2 y1 c]
    by (subst fill_rows.simps) (simp add: fold_plot_mem)
qed

text \<open>The visible part lies inside the virtual screen and is not empty.\<close>

definition screen_wf :: "framebuffer \<Rightarrow> bool" where
  "screen_wf fb \<longleftrightarrow> fb_wf fb \<and> 0 < xres fb \<and> 0 < yres fb \<and> xres fb \<le> xres_virtual fb \<and> yres fb \<le> yres_virtual fb \<and>
     uint (xres fb) \<le> 2 ^ 31 \<and> uint (yres fb) \<le> 2 ^ 31"

lemma clip_max_min:
  assumes "0 < res" "uint res \<le> 2 ^ 31"
  shows "clip res v = max 0 (min (uint res - 1) v)"
proof -
  have pos: "1 \<le> uint res" using assms(1) by (simp add: word_less_def)
  have "1 \<le> res" using pos by (simp add: word_le_def)
  then have u: "uint (res - 1) = uint res - 1" by (simp add: uint_minus_simple_alt)
  then have "sint (res - 1) = uint res - 1"
    using pos assms(2) by (simp add: sint_uint) (subst signed_take_bit_int_eq_self; simp)
  then show ?thesis using pos by (auto simp: clip_def Let_def)
qed

lemma fillrect_plot:
  assumes "screen_wf fb" "color_ok c"
  shows "fillrect x1 y1 x2 y2 c fb = Inr (fold plot
    (fill_dots (clip (xres fb) (min x1 x2)) (clip (xres fb) (max x1 x2)) (clip (yres fb) (min y1 y2)) (clip (yres fb) (max y1 y2)) c) fb)"
proof -
  have wf: "fb_wf fb" using assms(1) by (simp add: screen_wf_def)
  have cl: "clip (xres fb) v = max 0 (min (uint (xres fb) - 1) v)" "clip (yres fb) v = max 0 (min (uint (yres fb) - 1) v)" for v
    using assms(1) by (auto simp: screen_wf_def clip_max_min)
  have pos: "1 \<le> uint (xres fb)" "1 \<le> uint (yres fb)" "uint (xres fb) \<le> uint (xres_virtual fb)" "uint (yres fb) \<le> uint (yres_virtual fb)"
    using assms(1) by (auto simp: screen_wf_def word_less_def word_le_def)
  have range: "0 \<le> clip (xres fb) v" "clip (xres fb) v < uint (xres_virtual fb)" "0 \<le> clip (yres fb) v" "clip (yres fb) v < uint (yres_virtual fb)" for v
    unfolding cl using pos by auto
  have mono: "clip (xres fb) (min v w) \<le> clip (xres fb) (max v w)" "clip (yres fb) (min v w) \<le> clip (yres fb) (max v w)" for v w
    unfolding cl by auto
  have "uint (c AND NOT XORMODE) < 256" using assms(2) by (simp add: color_ok_def word_less_def)
  then have "arr_get (colormap fb) (uint (c AND NOT XORMODE)) = Inr (colormap fb ! unat (c AND NOT XORMODE))"
    using fb_wfD(4) [OF wf] by (simp add: arr_get_def)
  moreover have "(if v < w then (v, w) else (w, v)) = (min v w, max v w)" for v w :: int by auto
  ultimately show ?thesis
    using mono [of x1 x2] mono [of y1 y2] fill_rows_plot [OF wf range(1,2,2,3,4)]
    by (simp add: fillrect_def Let_def not_less min.commute max.commute)
qed

subsection \<open>Lines\<close>

text \<open>One step of the 16.16 fixed point loop.\<close>

lemma slope_dot:
  fixes n d k :: int
  assumes "0 < n" "n < 32768" "0 \<le> k" "k \<le> n" and q: "q = (d * 65536) sdiv n" and e: "e = (k * q) div 65536"
  shows "0 \<le> d \<Longrightarrow> 0 \<le> e \<and> e \<le> d" "d \<le> 0 \<Longrightarrow> d \<le> e \<and> e \<le> 0" "2 * \<bar>n * e - k * d\<bar> \<le> 3 * n"
proof -
  define r where "r = d * 65536 - n * q"
  have r: "0 \<le> d \<Longrightarrow> 0 \<le> r \<and> r < n \<and> 0 \<le> q" "d < 0 \<Longrightarrow> - n < r \<and> r \<le> 0 \<and> q \<le> 0"
  proof -
    show "0 \<le> r \<and> r < n \<and> 0 \<le> q" if "0 \<le> d"
    proof -
      have "q = d * 65536 div n" using assms(1) that by (auto simp: q signed_divide_int_def sgn_if)
      then have "r = d * 65536 mod n" "0 \<le> q" using assms(1) that
        by (auto simp: r_def minus_mult_div_eq_mod pos_imp_zdiv_nonneg_iff)
      then show ?thesis using assms(1) by simp
    qed
    show "- n < r \<and> r \<le> 0 \<and> q \<le> 0" if "d < 0"
    proof -
      have q': "q = - (- d * 65536 div n)" using assms(1) that by (auto simp: q signed_divide_int_def sgn_if)
      have "- r = - d * 65536 - n * (- d * 65536 div n)" by (simp add: r_def q')
      then have "- r = - d * 65536 mod n" by (simp only: minus_mult_div_eq_mod)
      moreover have "0 \<le> - d * 65536 div n" using assms(1) that by (simp add: pos_imp_zdiv_nonneg_iff del: mult_minus_left)
      moreover have "0 \<le> - d * 65536 mod n" "- d * 65536 mod n < n" using assms(1) by simp_all
      ultimately show ?thesis using q' by linarith
    qed
  qed
  have kq: "65536 * e \<le> k * q" "k * q < 65536 * e + 65536"
    unfolding e using mult_div_mod_eq [of 65536 "k * q"] pos_mod_bound [of 65536 "k * q"] pos_mod_sign [of 65536 "k * q"] by linarith+
  have nq: "n * q = d * 65536 - r" by (simp add: r_def)
  show "0 \<le> e \<and> e \<le> d" if "0 \<le> d"
  proof -
    have "0 \<le> k * q" "k * q \<le> n * q" using r(1) [OF that] assms by (auto intro: mult_right_mono)
    then show ?thesis using kq nq r(1) [OF that] by linarith
  qed
  show "d \<le> e \<and> e \<le> 0" if "d \<le> 0"
  proof (cases "d = 0")
    case True
    then have "q = 0" by (simp add: q)
    then show ?thesis using True by (simp add: e)
  next
    case False
    then have d: "d < 0" using that by simp
    have "k * q \<le> 0" "n * q \<le> k * q" using r(2) [OF d] assms by (auto simp: mult_nonneg_nonpos intro: mult_right_mono_neg)
    then show ?thesis using kq nq r(2) [OF d] by linarith
  qed
  have "\<bar>r\<bar> \<le> n" using r by (cases "0 \<le> d") auto
  then have "k * \<bar>r\<bar> \<le> n * n" using assms by (intro mult_mono) auto
  also have "n * n \<le> n * 32768" using assms by (intro mult_left_mono) auto
  finally have kr: "\<bar>k * r\<bar> \<le> 32768 * n" using assms by (simp add: abs_mult)
  have "65536 * (n * e) \<le> n * (k * q)" "n * (k * q) \<le> 65536 * (n * e) + 65536 * n"
    using mult_left_mono [OF kq(1), of n] mult_left_mono [OF less_imp_le [OF kq(2)], of n] assms(1) by (simp_all add: algebra_simps)
  moreover have "n * (k * q) = 65536 * (k * d) - k * r" using nq by (metis (no_types, lifting) mult.assoc mult.commute right_diff_distrib)
  moreover have "2 * \<bar>A - B\<bar> \<le> 3 * N"
    if "65536 * A \<le> X" "X \<le> 65536 * A + 65536 * N" "X = 65536 * B - R" "\<bar>R\<bar> \<le> 32768 * N" for A B X R N :: int
  proof -
    have "2 * A - 2 * B \<le> N" "- (3 * N) \<le> 2 * A - 2 * B" "0 \<le> N"
      using that abs_le_D1 [OF that(4)] abs_le_D2 [OF that(4)] by linarith+
    then show ?thesis by (simp add: abs_if)
  qed
  ultimately show "2 * \<bar>n * e - k * d\<bar> \<le> 3 * n" using kr by blast
qed

text \<open>Coordinates whose 16.16 fixed point form, and the form of their differences, fit an \<open>int\<close>.\<close>

definition near :: "int \<Rightarrow> bool" where
  "near v \<longleftrightarrow> - 16384 \<le> v \<and> v < 16384"

lemma fixed_step:
  assumes "near u" "near (u + d)" "\<bar>d\<bar> \<le> n" "0 < n" "n < 32768" "0 \<le> k" "k \<le> n"
  shows "drop_bit 16 (s32 (s32 (push_bit 16 u) + k * s32 (s32 (push_bit 16 d) sdiv n))) = u + (k * ((d * 65536) sdiv n)) div 65536"
proof -
  let ?q = "(d * 65536) sdiv n"
  let ?e = "(k * ?q) div 65536"
  have d: "s32 (push_bit 16 d) = d * 65536" using assms(3,5) by (subst s32_id) (auto simp: in_s32_def push_bit_eq_mult)
  have u: "s32 (push_bit 16 u) = u * 65536" using assms(1) by (subst s32_id) (auto simp: in_s32_def push_bit_eq_mult near_def)
  have near: "near (u + ?e)"
    using slope_dot(1,2) [OF assms(4-7) refl refl, of d] assms(1,2) by (cases "0 \<le> d") (auto simp: near_def)
  have m: "0 \<le> (k * ?q) mod 65536" "(k * ?q) mod 65536 < 65536" "k * ?q = 65536 * ?e + (k * ?q) mod 65536" by simp_all
  then have v: "u * 65536 + k * ?q = (u + ?e) * 65536 + (k * ?q) mod 65536" by (simp add: algebra_simps)
  have "in_s32 (u * 65536 + k * ?q)" unfolding v using near m(1,2) by (auto simp: in_s32_def near_def)
  then have "s32 (u * 65536 + k * ?q) = u * 65536 + k * ?q" by (rule s32_id)
  moreover have "s32 (u * 65536 + k * s32 ?q) = s32 (u * 65536 + k * ?q)"
    by (intro s32_eqI mod_add_cong mod_mult_cong refl s32_mod)
  moreover have "(u * 65536 + k * ?q) div 65536 = u + ?e" by simp
  ultimately show ?thesis by (simp add: d u drop_bit_eq_div)
qed

text \<open>Every dot lies in the box of the end points and at most one and a half pixels off the exact line.\<close>

definition follows :: "int \<Rightarrow> int \<Rightarrow> int \<Rightarrow> int \<Rightarrow> int \<Rightarrow> int \<Rightarrow> bool" where
  "follows x1 y1 x2 y2 x y \<longleftrightarrow>
     min x1 x2 \<le> x \<and> x \<le> max x1 x2 \<and> min y1 y2 \<le> y \<and> y \<le> max y1 y2 \<and>
     2 * \<bar>(x2 - x1) * (y - y1) - (y2 - y1) * (x - x1)\<bar> \<le> 3 * max \<bar>x2 - x1\<bar> \<bar>y2 - y1\<bar>"

lemma follows_x:
  assumes "near y1" "near y2" "\<bar>y2 - y1\<bar> \<le> x2 - x1" "x1 < x2" "x2 - x1 < 32768"
    "(x, y, c') \<in> set (x_dots x1 x2 (s32 (push_bit 16 y1)) (s32 (s32 (push_bit 16 (y2 - y1)) sdiv (x2 - x1))) c)"
  shows "follows x1 y1 x2 y2 x y"
proof -
  let ?d = "y2 - y1" and ?n = "x2 - x1"
  from assms(6) obtain k where k: "x = x1 + int k" "int k \<le> ?n"
    "y = drop_bit 16 (s32 (s32 (push_bit 16 y1) + int k * s32 (s32 (push_bit 16 ?d) sdiv ?n)))"
    by (auto simp: x_dots_def)
  let ?e = "(int k * ((?d * 65536) sdiv ?n)) div 65536"
  have "y = y1 + ?e" using k fixed_step [of y1 ?d ?n "int k"] assms by simp
  moreover note slope_dot [of ?n "int k" _ ?d, OF _ assms(5) _ k(2) refl refl]
  ultimately show ?thesis using k assms(3,4) by (cases "0 \<le> ?d") (auto simp: follows_def mult.commute max_def)
qed

lemma follows_swap: "follows x2 y2 x1 y1 x y \<Longrightarrow> follows x1 y1 x2 y2 x y"
proof -
  have "(x2 - x1) * (y - y1) - (y2 - y1) * (x - x1) = - ((x1 - x2) * (y - y2) - (y1 - y2) * (x - x2))"
    by (simp add: algebra_simps)
  then show "follows x2 y2 x1 y1 x y \<Longrightarrow> follows x1 y1 x2 y2 x y"
    by (simp add: follows_def min.commute max.commute abs_minus_commute [of x2 x1] abs_minus_commute [of y2 y1] del: minus_diff_eq)
qed

lemma follows_flip: "follows y1 x1 y2 x2 y x \<Longrightarrow> follows x1 y1 x2 y2 x y"
  by (simp add: follows_def max.commute [of "\<bar>x2 - x1\<bar>"] abs_minus_commute [of "(x2 - x1) * (y - y1)"])

lemma y_dots_flip: "y_dots u v w s c = map (\<lambda>(x, y, c). (y, x, c)) (x_dots v w u s c)"
  by (simp add: y_dots_def x_dots_def)

lemma follows_y:
  assumes "near x1" "near x2" "\<bar>x2 - x1\<bar> \<le> y2 - y1" "y1 < y2" "y2 - y1 < 32768"
    "(x, y, c') \<in> set (y_dots (s32 (push_bit 16 x1)) y1 y2 (s32 (s32 (push_bit 16 (x2 - x1)) sdiv (y2 - y1))) c)"
  shows "follows x1 y1 x2 y2 x y"
  by (rule follows_flip) (rule follows_x [OF assms(1-5), of _ _ c' c], use assms(6) in \<open>auto simp: y_dots_flip\<close>)

lemma line_dots_follow:
  assumes "near x1" "near y1" "near x2" "near y2" "(x, y, c') \<in> set (line_dots x1 y1 x2 y2 c)"
  shows "follows x1 y1 x2 y2 x y"
proof -
  let ?dx = "x2 - x1" and ?dy = "y2 - y1"
  have s: "s32 ?dx = ?dx" "s32 ?dy = ?dy" "s32 (x1 - x2) = x1 - x2" "s32 (y1 - y2) = y1 - y2"
    using assms(1-4) by (auto simp: near_def in_s32_def intro!: s32_id)
  consider "\<bar>?dx\<bar> < \<bar>?dy\<bar>" "y2 < y1" | "\<bar>?dx\<bar> < \<bar>?dy\<bar>" "y1 < y2" | "\<bar>?dy\<bar> \<le> \<bar>?dx\<bar>" "x2 < x1" | "\<bar>?dy\<bar> \<le> \<bar>?dx\<bar>" "x1 < x2" | "x1 = x2" "y1 = y2"
    by linarith
  then show ?thesis
  proof cases
    case 1
    show ?thesis
      by (rule follows_swap, rule follows_y [of x2 x1 y1 y2 x y c' c]) (use 1 assms in \<open>auto simp: line_dots_def Let_def s near_def\<close>)
  next
    case 2
    show ?thesis
      by (rule follows_y [of x1 x2 y2 y1 x y c' c]) (use 2 assms in \<open>auto simp: line_dots_def Let_def s near_def\<close>)
  next
    case 3
    show ?thesis
      by (rule follows_swap, rule follows_x [of y2 y1 x1 x2 x y c' c]) (use 3 assms in \<open>auto simp: line_dots_def Let_def s near_def\<close>)
  next
    case 4
    show ?thesis
      by (rule follows_x [of y1 y2 x2 x1 x y c' c]) (use 4 assms in \<open>auto simp: line_dots_def Let_def s near_def split: if_splits\<close>)
  next
    case 5
    have "s32 (push_bit 16 y1) = y1 * 65536" using assms(2) by (subst s32_id) (auto simp: in_s32_def push_bit_eq_mult near_def)
    with 5 assms(5) show ?thesis by (auto simp: line_dots_def Let_def x_dots_def follows_def drop_bit_eq_div s32_def)
  qed
qed

lemma length_line_dots:
  assumes "near x1" "near y1" "near x2" "near y2"
  shows "length (line_dots x1 y1 x2 y2 c) = nat (max \<bar>x2 - x1\<bar> \<bar>y2 - y1\<bar>) + 1"
proof -
  have "s32 (x2 - x1) = x2 - x1" "s32 (y2 - y1) = y2 - y1" using assms by (auto simp: near_def in_s32_def intro!: s32_id)
  then show ?thesis by (auto simp: line_dots_def Let_def x_dots_def y_dots_def)
qed

subsection \<open>The geometry of an opened device\<close>

lemma length_line_table [simp]: "length (line_table n addr l) = n"
  by (induction n addr l rule: line_table.induct) simp_all

lemma nth_line_table: "y < n \<Longrightarrow> line_table n addr l ! y = unat (addr + of_nat y * l)"
proof (induction n addr l arbitrary: y rule: line_table.induct)
  case (2 n addr l)
  then show ?case by (cases y) (simp_all add: algebra_simps)
qed simp

lemma uint_add_7: "uint bits \<le> 32 \<Longrightarrow> uint (bits + 7 :: 32 word) = uint bits + 7"
  by (simp add: uint_word_ariths)

lemma sint_small: "uint (w :: 32 word) = v \<Longrightarrow> v < 2 ^ 31 \<Longrightarrow> sint w = v"
  using unsigned_greater_eq [of w, where 'a = int] by (simp add: sint_uint signed_take_bit_int_eq_self_iff)

lemma line_table_exact:
  assumes "y < n" "n * unat l < 2 ^ 32"
  shows "line_table n 0 l ! y = y * unat l"
proof -
  have "y * unat l \<le> n * unat l" using assms(1) by simp
  then have "y * unat l < 2 ^ 32" using assms(2) by linarith
  moreover have "of_nat y * l = of_nat (y * unat l)" by simp
  ultimately have "unat (of_nat y * l) = y * unat l" by (simp only: unat_of_nat) simp
  then show ?thesis using nth_line_table [OF assms(1), of 0 l] by simp
qed

definition geometry_ok :: "nat \<Rightarrow> 32 word \<Rightarrow> 32 word \<Rightarrow> framebuffer \<Rightarrow> bool" where
  "geometry_ok smem_len line_length bits fb \<longleftrightarrow>
     1 \<le> uint bits \<and> uint bits \<le> 32 \<and> unat (xres_virtual fb) * nat ((uint bits + 7) div 8) \<le> unat line_length \<and>
     unat (yres_virtual fb) * unat line_length \<le> smem_len \<and> smem_len < 2 ^ 31 \<and>
     0 < xres fb \<and> 0 < yres fb \<and> xres fb \<le> xres_virtual fb \<and> yres fb \<le> yres_virtual fb \<and> length (colormap fb) = 256"

lemma init_framebuffer_screen_wf:
  assumes "geometry_ok smem_len line_length bits fb"
  shows "screen_wf (init_framebuffer smem_len line_length bits fb)"
proof -
  let ?f = "init_framebuffer smem_len line_length bits fb" and ?X = "unat (xres_virtual fb)" and ?Y = "unat (yres_virtual fb)"
    and ?L = "unat line_length"
  define bpp where "bpp = nat ((uint bits + 7) div 8)"
  note g = assms [unfolded geometry_ok_def, folded bpp_def]
  have fields: "xres_virtual ?f = xres_virtual fb" "yres_virtual ?f = yres_virtual fb" "xres ?f = xres fb" "yres ?f = yres fb"
    "colormap ?f = colormap fb" "length (fb_mem ?f) = smem_len" "length (line_addr ?f) = ?Y"
    by (simp_all add: init_framebuffer_def)
  have "uint ((bits + 7) div 8) = (uint bits + 7) div 8" using uint_add_7 [of bits] g by (simp add: uint_div)
  from sint_small [OF this] g have b: "bytes_per_pixel ?f = int bpp" "1 \<le> bpp"
    by (auto simp: init_framebuffer_def bpp_def)
  have pos: "1 \<le> ?X" "1 \<le> ?Y" using g by (auto simp: word_less_nat_alt word_le_nat_alt)
  have XL: "?X * bpp \<le> ?L" and YL: "?Y * ?L \<le> smem_len" and len: "smem_len < 2 ^ 31" using g by simp_all
  have "1 * 1 \<le> ?X * bpp" using pos b(2) by (intro mult_le_mono)
  then have L: "1 \<le> ?L" using XL by linarith
  have row: "y * ?L + ?X * bpp \<le> y' * ?L" if "y < y'" for y y'
  proof -
    have "Suc y * ?L \<le> y' * ?L" using that by (intro mult_le_mono1) simp
    then show ?thesis using XL by simp
  qed
  have "?X * 1 \<le> ?X * bpp" "?Y * 1 \<le> ?Y * ?L" using b(2) L by (simp_all only: mult_le_mono2)
  then have XY: "?X * bpp < 2 ^ 31" "?X < 2 ^ 31" "?Y < 2 ^ 31" using row [of 0 ?Y] pos(2) YL len by linarith+
  have la: "line_addr ?f ! y = y * ?L" if "y < ?Y" for y
    using line_table_exact [OF that, of line_length] YL len by (simp add: init_framebuffer_def)
  have rows: "line_addr ?f ! y + ?X * bpp \<le> smem_len" if "y < ?Y" for y
    using row [OF that] YL la [OF that] by linarith
  have "int (?X * bpp) < int (2 ^ 31)" using XY(1) by (simp only: of_nat_less_iff)
  then have "uint (xres_virtual fb) * int bpp < 2 ^ 31" by simp
  then have wf: "fb_wf ?f"
    unfolding fb_wf_def fields b(1) nat_int using g b(2) la rows row by (simp add: less_imp_le)
  have "uint (xres fb) \<le> uint (xres_virtual fb)" "uint (yres fb) \<le> uint (yres_virtual fb)"
    using g by (simp_all add: word_le_def)
  moreover have "int ?X < int (2 ^ 31)" "int ?Y < int (2 ^ 31)" using XY(2,3) by (simp_all only: of_nat_less_iff)
  ultimately have "uint (xres fb) \<le> 2 ^ 31" "uint (yres fb) \<le> 2 ^ 31" by simp_all
  with wf g show ?thesis by (simp add: screen_wf_def fields)
qed

subsection \<open>Properties\<close>

definition demo_fb :: framebuffer where
  "demo_fb =
     \<lparr>fb_mem = [], line_addr = [], bytes_per_pixel = 0, xres_virtual = 12, yres_virtual = 4, xres = 10, yres = 4,
      colormap = replicate 256 7, var_red = \<lparr>bf_offset = 11, bf_length = 5\<rparr>, var_green = \<lparr>bf_offset = 5, bf_length = 6\<rparr>,
      var_blue = \<lparr>bf_offset = 0, bf_length = 5\<rparr>, cmap_log = []\<rparr>"

lemma demo_geometry: "geometry_ok 96 24 16 demo_fb"
  by (simp add: geometry_ok_def demo_fb_def)

lemma demo_wf: "screen_wf (init_framebuffer 96 24 16 demo_fb)" "fb_wf (init_framebuffer 96 24 16 demo_fb)"
  using init_framebuffer_screen_wf [OF demo_geometry] by (simp_all add: screen_wf_def)

text \<open>
  The geometry the device reports gives a framebuffer on which every pixel has its own
  bytes inside the mapping: when a line holds the virtual width and the mapping the virtual
  height, the table of line addresses is exact (no wrap-around) and the screen is well-formed,
  which is what all drawing routines rely on and keep.
\<close>

theorem init_framebuffer_wf:
  assumes "geometry_ok smem_len line_length bits fb"
  shows "screen_wf (init_framebuffer smem_len line_length bits fb)"
  by (rule init_framebuffer_screen_wf [OF assms])

theorem init_framebuffer_wf_witness: "screen_wf (init_framebuffer 96 24 16 demo_fb)"
  by (rule init_framebuffer_wf [OF demo_geometry])

text \<open>
  C13: a line stays inside the box of its end points, has as many dots as its longer side, and
  no dot is more than one and a half pixels off the exact line, in all eight directions; on a
  well-formed framebuffer it is drawn without a store outside the mapping.
\<close>

theorem line_follows:
  assumes "fb_wf fb" "color_ok c" "near x1" "near y1" "near x2" "near y2"
  shows "\<exists>ds. line x1 y1 x2 y2 c fb = Inr (fold plot ds fb) \<and> length ds = nat (max \<bar>x2 - x1\<bar> \<bar>y2 - y1\<bar>) + 1 \<and>
    (\<forall>(x, y, c') \<in> set ds. c' = c \<and> follows x1 y1 x2 y2 x y)"
proof (intro exI conjI)
  have "in_s32 v" if "near v" for v using that by (simp add: near_def in_s32_def)
  then show "line x1 y1 x2 y2 c fb = Inr (fold plot (line_dots x1 y1 x2 y2 c) fb)"
    using assms set_line_dots [of _ x1 y1 x2 y2 c] by (simp add: line_draw draw_plot)
  show "length (line_dots x1 y1 x2 y2 c) = nat (max \<bar>x2 - x1\<bar> \<bar>y2 - y1\<bar>) + 1" by (rule length_line_dots [OF assms(3-6)])
  show "\<forall>(x, y, c') \<in> set (line_dots x1 y1 x2 y2 c). c' = c \<and> follows x1 y1 x2 y2 x y"
    using line_dots_follow [OF assms(3-6)] set_line_dots by fastforce
qed

theorem line_follows_witness:
  "\<exists>ds. line 0 3 9 (-4) 2 (init_framebuffer 96 24 16 demo_fb) = Inr (fold plot ds (init_framebuffer 96 24 16 demo_fb)) \<and> length ds = 10"
  using line_follows [OF demo_wf(2), of 2 0 3 9 "-4"] by (auto simp: color_ok_def near_def XORMODE_def)

text \<open>
  C12: what the header file promises of XORMODE: drawing the same figure a second time in the
  same place removes it and leaves the background intact, byte for byte, also where the dots
  of a figure overlap and where it leaves the screen.
\<close>

theorem xor_drawing_undone:
  assumes "fb_wf fb" "i < 255" "on_plane x" "on_plane y" "on_plane u" "on_plane v"
  shows "(\<exists>fb'. line x y u v (i OR XORMODE) fb = Inr fb' \<and> line x y u v (i OR XORMODE) fb' = Inr fb) \<and>
    (\<exists>fb'. rect x y u v (i OR XORMODE) fb = Inr fb' \<and> rect x y u v (i OR XORMODE) fb' = Inr fb) \<and>
    (\<exists>fb'. put_cross x y (i OR XORMODE) fb = Inr fb' \<and> put_cross x y (i OR XORMODE) fb' = Inr fb) \<and>
    (\<exists>fb'. put_string x y s (i OR XORMODE) fb = Inr fb' \<and> put_string x y s (i OR XORMODE) fb' = Inr fb)"
proof -
  let ?c = "i OR XORMODE"
  have c: "color_ok ?c" "?c AND XORMODE \<noteq> 0" using xor_color [OF xor_color_Suc(2) [OF assms(2)]] .
  have "\<exists>fb'. draw ds fb = Inr fb' \<and> draw ds fb' = Inr fb" if "\<And>d. d \<in> set ds \<Longrightarrow> snd (snd d) = ?c" for ds
    using draw_xor_twice [OF assms(1), of ds] that c by (auto simp: is_xor_def)
  from this [OF set_line_dots] this [OF set_rect_dots] this [OF set_string_dots]
  show ?thesis
    using put_cross_twice [OF assms(1,3,4,2)] assms(3-6) by (auto simp: line_draw rect_draw put_string_draw)
qed

theorem xor_drawing_undone_witness:
  "\<exists>fb'. put_cross 5 2 (2 OR XORMODE) (init_framebuffer 96 24 16 demo_fb) = Inr fb' \<and>
     put_cross 5 2 (2 OR XORMODE) fb' = Inr (init_framebuffer 96 24 16 demo_fb)"
  using xor_drawing_undone [OF demo_wf(2), of 2 5 2 0 0] by (simp add: on_plane_def)

text \<open>
  \<open>fillrect\<close> paints exactly the rectangle between the clamped corners: inside every pixel
  gets the colour's bytes, and no other pixel of the virtual screen changes. The corners are
  clamped one by one to the visible screen, so a rectangle that lies wholly beside the screen
  paints a stripe of the border.
\<close>

theorem fillrect_fills:
  assumes "screen_wf fb" "color_ok c" "c AND XORMODE = 0" "inside fb x y"
  shows "\<exists>fb'. fillrect x1 y1 x2 y2 c fb = Inr fb' \<and> fb_wf fb' \<and>
    pixel_at fb' x y =
      (if clip (xres fb) (min x1 x2) \<le> x \<and> x \<le> clip (xres fb) (max x1 x2) \<and>
          clip (yres fb) (min y1 y2) \<le> y \<and> y \<le> clip (yres fb) (max y1 y2)
       then dot_color fb c else pixel_at fb x y)"
proof -
  have wf: "fb_wf fb" using assms(1) by (simp add: screen_wf_def)
  let ?ds = "fill_dots (clip (xres fb) (min x1 x2)) (clip (xres fb) (max x1 x2)) (clip (yres fb) (min y1 y2)) (clip (yres fb) (max y1 y2)) c"
  have "\<forall>d \<in> set ?ds. snd (snd d) = c" using set_fill_dots by fastforce
  from pixel_at_fold_plot [OF wf assms(4) this assms(3)] show ?thesis
    using wf by (simp add: fillrect_plot [OF assms(1,2)] set_fill_dots)
qed

theorem fillrect_fills_witness:
  "\<exists>fb'. fillrect 500 0 600 3 1 (init_framebuffer 96 24 16 demo_fb) = Inr fb' \<and> pixel_at fb' 9 2 = [7, 0]"
  using fillrect_fills [OF demo_wf(1), of 1 9 2 500 0 600 3]
  by (auto simp: color_ok_def XORMODE_def inside_def init_framebuffer_def demo_fb_def clip_def dot_color_def pixel_bytes_def)

end
