(* ===== verification/FbDevice.thy ===== *)
theory FbDevice
  imports Framebuffer
begin

text \<open>
  Opening and closing of the framebuffer and of the console it is shown on,
  \<open>open_framebuffer\<close> and \<open>close_framebuffer\<close> of src/tslib-1.1/tests/fbutils.c. The answers of
  the kernel are a record \<open>fb_os\<close>; the state holds the variables of the file, the open
  descriptors of the process and what a user sees of the console: the active virtual terminal
  and whether it is in graphics mode.
\<close>

record fix_info =
  fix_smem_len :: nat
  fix_line_length :: "32 word"

record var_info =
  vi_xres :: "32 word"
  vi_yres :: "32 word"
  vi_xres_virtual :: "32 word"
  vi_yres_virtual :: "32 word"
  vi_bits_per_pixel :: "32 word"
  vi_red :: fb_bitfield
  vi_green :: fb_bitfield
  vi_blue :: fb_bitfield

text \<open>
  \<open>os_openqry\<close> is the free terminal, \<open>os_getstate\<close> whether VT_GETSTATE works; an answer
  \<open>None\<close> or \<open>False\<close> is a failed call, a negative number from \<open>os_open\<close> a failed \<open>open\<close>.
\<close>

record fb_os =
  os_fbdevice :: "string option"
  os_consoledevice :: "string option"
  os_open :: "string \<Rightarrow> int"
  os_openqry :: "int option"
  os_getstate :: bool
  os_activate :: "int \<Rightarrow> bool"
  os_waitactive :: bool
  os_kdsetmode :: bool
  os_fix :: "fix_info option"
  os_var :: "var_info option"
  os_mmap :: bool

record fb_state =
  fbs_fb :: framebuffer
  con_fd :: int
  fb_fd :: int
  last_vt :: int
  fds :: "int list"
  active_vt :: int
  graphics :: bool

definition close_fd :: "int \<Rightarrow> fb_state \<Rightarrow> fb_state" where
  "close_fd fd st = st\<lparr>fds := remove1 fd (fds st)\<rparr>"

text \<open>\<open>sprintf(vtname, "%s%d", ...)\<close> into 128 bytes.\<close>

definition vtname :: "string \<Rightarrow> int \<Rightarrow> fault + string" where
  "vtname dev nr = (let s = dev @ int_str nr in if length s < 128 then Inr s else Inl OutOfBounds)"

definition consoledevice :: "fb_os \<Rightarrow> string" where
  "consoledevice os = (case os_consoledevice os of None \<Rightarrow> ''/dev/tty'' | Some d \<Rightarrow> d)"

definition fbdevice :: "fb_os \<Rightarrow> string" where
  "fbdevice os = (case os_fbdevice os of None \<Rightarrow> ''/dev/fb0'' | Some d \<Rightarrow> d)"

text \<open>From \<open>con_fd = open(...)\<close> on, with the terminal \<open>nr\<close>.\<close>

definition activate_console :: "fb_os \<Rightarrow> int \<Rightarrow> string \<Rightarrow> fb_state \<Rightarrow> int \<times> fb_state" where
  "activate_console os nr name st =
     (let st1 = st\<lparr>con_fd := os_open os name\<rparr> in
      if con_fd st1 < 0 then (-1, st1)
      else
        (let st2 = st1\<lparr>fds := con_fd st1 # fds st1\<rparr>;
             st3 = (if os_getstate os then st2\<lparr>last_vt := active_vt st2\<rparr> else st2)
         in
           if \<not> os_activate os nr then (-1, close_fd (con_fd st3) st3)
           else
             (let st4 = st3\<lparr>active_vt := nr\<rparr> in
              if \<not> os_waitactive os then (-1, close_fd (con_fd st4) st4)
              else if \<not> os_kdsetmode os then (-1, close_fd (con_fd st4) st4)
              else (0, st4\<lparr>graphics := True\<rparr>))))"

definition open_console :: "fb_os \<Rightarrow> fb_state \<Rightarrow> fault + (int \<times> fb_state)" where
  "open_console os st =
     (if consoledevice os = ''none'' then Inr (0, st)
      else
        (case vtname (consoledevice os) 1 of
           Inl e \<Rightarrow> Inl e
         | Inr name \<Rightarrow>
             (let fd = os_open os name in
              if fd < 0 then Inr (-1, st)
              else
                (let st1 = st\<lparr>fds := fd # fds st\<rparr> in
                 case os_openqry os of
                   None \<Rightarrow> Inr (-1, st1)
                 | Some nr \<Rightarrow>
                     (case vtname (consoledevice os) nr of
                        Inl e \<Rightarrow> Inl e
                      | Inr name2 \<Rightarrow> Inr (activate_console os nr name2 (close_fd fd st1)))))))"

text \<open>The part behind the console: the device, its geometry and the mapping.\<close>

definition open_fb :: "fb_os \<Rightarrow> fb_state \<Rightarrow> int \<times> fb_state" where
  "open_fb os st =
     (let st1 = st\<lparr>fb_fd := os_open os (fbdevice os)\<rparr> in
      if fb_fd st1 = -1 then (-1, st1)
      else
        (let st2 = st1\<lparr>fds := fb_fd st1 # fds st1\<rparr> in
         case os_fix os of
           None \<Rightarrow> (-1, close_fd (fb_fd st2) st2)
         | Some fi \<Rightarrow>
             (case os_var os of
                None \<Rightarrow> (-1, close_fd (fb_fd st2) st2)
              | Some vi \<Rightarrow>
                  (let st3 = st2\<lparr>fbs_fb := (fbs_fb st2)\<lparr>xres_virtual := vi_xres_virtual vi, yres_virtual := vi_yres_virtual vi,
                        xres := vi_xres vi, yres := vi_yres vi, var_red := vi_red vi, var_green := vi_green vi,
                        var_blue := vi_blue vi\<rparr>\<rparr>
                   in
                     if \<not> os_mmap os then (-1, close_fd (fb_fd st3) st3)
                     else (0, st3\<lparr>fbs_fb := init_framebuffer (fix_smem_len fi) (fix_line_length fi) (vi_bits_per_pixel vi) (fbs_fb st3)\<rparr>)))))"

definition open_framebuffer :: "fb_os \<Rightarrow> fb_state \<Rightarrow> fault + (int \<times> fb_state)" where
  "open_framebuffer os st =
     (case open_console os st of
        Inl e \<Rightarrow> Inl e
      | Inr (ret, st1) \<Rightarrow> if ret = 0 then Inr (open_fb os st1) else Inr (ret, st1))"

text \<open>
  \<open>munmap\<close> and \<open>free\<close> end the life of the mapping and of the table; \<open>last_vt\<close> keeps its value.
\<close>

definition close_framebuffer :: "fb_os \<Rightarrow> fb_state \<Rightarrow> fb_state" where
  "close_framebuffer os st =
     (let st1 = close_fd (fb_fd st) st in
      if consoledevice os = ''none'' then st1
      else
        (let st2 = (if os_kdsetmode os then st1\<lparr>graphics := False\<rparr> else st1);
             st3 = (if 0 \<le> last_vt st2 \<and> os_activate os (last_vt st2) then st2\<lparr>active_vt := last_vt st2\<rparr> else st2)
         in close_fd (con_fd st3) st3))"

subsection \<open>What an opened device is\<close>

lemma close_fd_simps [simp]:
  "fds (close_fd fd st) = remove1 fd (fds st)" "con_fd (close_fd fd st) = con_fd st" "fb_fd (close_fd fd st) = fb_fd st"
  "last_vt (close_fd fd st) = last_vt st" "active_vt (close_fd fd st) = active_vt st" "graphics (close_fd fd st) = graphics st"
  "fbs_fb (close_fd fd st) = fbs_fb st"
  by (simp_all add: close_fd_def)

text \<open>After \<open>open_console\<close> the console shows the new terminal; the rest of the state is as before.\<close>

lemma open_console_ok:
  assumes "open_console os st = Inr (0, st1)" "consoledevice os \<noteq> ''none''" "os_getstate os"
  shows "fds st1 = con_fd st1 # fds st" "last_vt st1 = active_vt st" "graphics st1" "fbs_fb st1 = fbs_fb st"
  using assms
  by (auto simp: open_console_def activate_console_def Let_def split: if_splits option.splits sum.splits)

lemma open_fb_frame:
  assumes "open_fb os st = (ret, st1)"
  shows "con_fd st1 = con_fd st" "last_vt st1 = last_vt st" "graphics st1 = graphics st" "active_vt st1 = active_vt st"
    "remove1 (fb_fd st1) (fds st1) = fds st \<or> remove1 (fb_fd st1) (fds st1) = remove1 (fb_fd st1) (fds st)"
  using assms by (auto simp: open_fb_def Let_def split: if_splits option.splits)

lemma open_fb_ok:
  assumes "open_fb os st = (0, st1)"
  shows "fds st1 = fb_fd st1 # fds st"
  using assms by (auto simp: open_fb_def Let_def split: if_splits option.splits)

lemma open_console_kdsetmode:
  assumes "open_console os st = Inr (0, st1)" "consoledevice os \<noteq> ''none''"
  shows "os_kdsetmode os"
  using assms
  by (auto simp: open_console_def activate_console_def Let_def split: if_splits option.splits sum.splits)

subsection \<open>Properties\<close>

definition demo_os :: fb_os where
  "demo_os =
     \<lparr>os_fbdevice = None, os_consoledevice = None, os_open = (\<lambda>s. int (length s)), os_openqry = Some 7, os_getstate = True,
      os_activate = (\<lambda>_. True), os_waitactive = True, os_kdsetmode = True,
      os_fix = Some \<lparr>fix_smem_len = 96, fix_line_length = 24\<rparr>,
      os_var = Some \<lparr>vi_xres = 10, vi_yres = 4, vi_xres_virtual = 12, vi_yres_virtual = 4, vi_bits_per_pixel = 16,
        vi_red = \<lparr>bf_offset = 11, bf_length = 5\<rparr>, vi_green = \<lparr>bf_offset = 5, bf_length = 6\<rparr>, vi_blue = \<lparr>bf_offset = 0, bf_length = 5\<rparr>\<rparr>,
      os_mmap = True\<rparr>"

definition demo_state :: fb_state where
  "demo_state = \<lparr>fbs_fb = demo_fb, con_fd = 0, fb_fd = 0, last_vt = -1, fds = [0, 1, 2], active_vt = 1, graphics = False\<rparr>"



end
