(* ===== verification/CalProgram.thy ===== *)
theory CalProgram
  imports CalibFit FbDevice TsConfig
begin

text \<open>
  The rest of the calibration program src/tslib-1.1/tests/ts_calibrate.c: \<open>get_sample\<close> with its
  crosshair, \<open>clearbuf\<close>, and \<open>main\<close> from the opening of the device to the calibration file,
  over the models of the library, of the framebuffer and of the fit.

  The loops of \<open>getxy\<close> have a number of rounds as an argument; \<open>None\<close> means that it was not
  enough. \<open>select\<close> answers from a list.
\<close>

record 'a calst =
  cs_cal :: calibration
  cs_last_x :: int
  cs_last_y :: int
  cs_fb :: framebuffer
  cs_s :: "'a \<times> world"

definition CROSS :: "32 word" where "CROSS = 2 OR XORMODE"

text \<open>The way of the crosshair from the last position, in \<open>NR_STEPS\<close> steps of 16.16 fixed point.\<close>

fun animate :: "nat \<Rightarrow> int \<Rightarrow> int \<Rightarrow> int \<Rightarrow> int \<Rightarrow> framebuffer \<Rightarrow> fault + framebuffer" where
  "animate 0 lx ly dx dy fb = Inr fb"
| "animate (Suc n) lx ly dx dy fb =
     (case put_cross (drop_bit 16 lx) (drop_bit 16 ly) CROSS fb of
        Inl e \<Rightarrow> Inl e
      | Inr fb1 \<Rightarrow>
          (case put_cross (drop_bit 16 lx) (drop_bit 16 ly) CROSS fb1 of
             Inl e \<Rightarrow> Inl e
           | Inr fb2 \<Rightarrow> animate n (s32 (lx + dx)) (s32 (ly + dy)) dx dy fb2))"

definition move_cross :: "int \<Rightarrow> int \<Rightarrow> int \<Rightarrow> int \<Rightarrow> framebuffer \<Rightarrow> fault + framebuffer" where
  "move_cross last_x last_y x y fb =
     (if last_x \<noteq> -1 then
        (case c_div (s32 (push_bit 16 (s32 (x - last_x)))) 10 of
           Inl e \<Rightarrow> Inl e
         | Inr dx \<Rightarrow>
             (case c_div (s32 (push_bit 16 (s32 (y - last_y)))) 10 of
                Inl e \<Rightarrow> Inl e
              | Inr dy \<Rightarrow> animate 10 (s32 (push_bit 16 last_x)) (s32 (push_bit 16 last_y)) dx dy fb))
      else Inr fb)"

definition get_sample ::
  "nat \<Rightarrow> 'a reader \<Rightarrow> ts_sample list \<Rightarrow> nat \<Rightarrow> int \<Rightarrow> int \<Rightarrow> 'a calst \<Rightarrow> (fault + 'a calst) option" where
  "get_sample fuel rd junk index x y cs =
     (case move_cross (cs_last_x cs) (cs_last_y cs) x y (cs_fb cs) of
        Inl e \<Rightarrow> Some (Inl e)
      | Inr fb1 \<Rightarrow>
          (case put_cross x y CROSS fb1 of
             Inl e \<Rightarrow> Some (Inl e)
           | Inr fb2 \<Rightarrow>
               (case getxy fuel rd (cs_s cs) junk of
                  None \<Rightarrow> None
                | Some (Inl e) \<Rightarrow> Some (Inl e)
                | Some (Inr ((tx, ty), s')) \<Rightarrow>
                    (case put_cross x y CROSS fb2 of
                       Inl e \<Rightarrow> Some (Inl e)
                     | Inr fb3 \<Rightarrow>
                         (let c = cs_cal cs;
                              c' = c\<lparr>cal_x := (cal_x c)[index := tx], cal_y := (cal_y c)[index := ty],
                                     cal_xfb := (cal_xfb c)[index := x], cal_yfb := (cal_yfb c)[index := y]\<rparr>
                          in Some (Inr (cs\<lparr>cs_cal := c', cs_last_x := x, cs_last_y := y, cs_fb := fb3, cs_s := s'\<rparr>)))))))"

text \<open>\<open>clearbuf\<close>: as long as the descriptor is readable a sample is read and dropped.\<close>

fun clearbuf :: "'a reader \<Rightarrow> ts_sample \<Rightarrow> int list \<Rightarrow> 'a \<times> world \<Rightarrow> (fault + (int list \<times> ('a \<times> world))) option" where
  "clearbuf rd sample [] s = None"
| "clearbuf rd sample (nfds # sel) s =
     (if nfds = 0 then Some (Inr (sel, s))
      else
        (case read_one rd s sample of
           Inl e \<Rightarrow> Some (Inl e)
         | Inr (c, s') \<Rightarrow> clearbuf rd c sel s'))"

text \<open>The five targets of \<open>main\<close>; the resolutions are unsigned.\<close>

definition targets :: "32 word \<Rightarrow> 32 word \<Rightarrow> (nat \<times> int \<times> int) list" where
  "targets xr yr =
     [(0, 50, 50), (1, sint (xr - 50), 50), (2, sint (xr - 50), sint (yr - 50)), (3, 50, sint (yr - 50)),
      (4, sint (xr div 2), sint (yr div 2))]"

fun measure_targets ::
  "nat \<Rightarrow> 'a reader \<Rightarrow> ts_sample list \<Rightarrow> (nat \<times> int \<times> int) list \<Rightarrow> int list \<Rightarrow> 'a calst \<Rightarrow> (fault + (int list \<times> 'a calst)) option" where
  "measure_targets fuel rd junk [] sel cs = Some (Inr (sel, cs))"
| "measure_targets fuel rd junk ((i, x, y) # ts) sel cs =
     (case clearbuf rd (hd junk) sel (cs_s cs) of
        None \<Rightarrow> None
      | Some (Inl e) \<Rightarrow> Some (Inl e)
      | Some (Inr (sel', s')) \<Rightarrow>
          (case get_sample fuel rd junk i x y (cs\<lparr>cs_s := s'\<rparr>) of
             None \<Rightarrow> None
           | Some (Inl e) \<Rightarrow> Some (Inl e)
           | Some (Inr cs') \<Rightarrow> measure_targets fuel rd junk ts sel' cs'))"

definition palette :: "32 word list" where
  "palette = [0x000000, 0xffe080, 0xffffff, 0xe0c0a0]"

text \<open>Colours and captions.\<close>

definition draw_screen :: "framebuffer \<Rightarrow> fault + framebuffer" where
  "draw_screen fb = seqr
     (map (\<lambda>i. setcolor (of_nat i) (palette ! i)) [0 ..< length palette] @
      [put_string_center (sint (xres fb div 2)) (sint (yres fb div 4)) ''TSLIB calibration utility'' 1,
       put_string_center (sint (xres fb div 2)) (sint (yres fb div 4 + 20)) ''Touch crosshair to calibrate'' 2]) fb"

text \<open>The device, as the test programs open it.\<close>

definition open_device ::
  "(string \<Rightarrow> int \<Rightarrow> int \<times> int) \<Rightarrow> bool \<Rightarrow> string option \<Rightarrow> int \<Rightarrow> ts_state option" where
  "open_device openf malloc_ok tsdevice errno =
     (case tsdevice of
        Some d \<Rightarrow> fst (ts_open openf malloc_ok d False errno)
      | None \<Rightarrow>
          (case ts_open openf malloc_ok ''/dev/input/event0'' False errno of
             (Some st, _) \<Rightarrow> Some st
           | (None, errno') \<Rightarrow> fst (ts_open openf malloc_ok ''/dev/touchscreen/ucb1x00'' False errno')))"

text \<open>\<open>main\<close> behind \<open>open_framebuffer\<close>: the status it returns and the line it writes.\<close>

definition calibrate ::
  "(rat \<Rightarrow> rat) \<Rightarrow> nat \<Rightarrow> 'a reader \<Rightarrow> ts_sample list \<Rightarrow> int list \<Rightarrow> calibration \<Rightarrow> framebuffer \<Rightarrow> 'a \<times> world \<Rightarrow>
   (fault + (int \<times> string option \<times> framebuffer)) option" where
  "calibrate rnd fuel rd junk sel cal fb s =
     (case draw_screen fb of
        Inl e \<Rightarrow> Some (Inl e)
      | Inr fb1 \<Rightarrow>
          (case measure_targets fuel rd junk (targets (xres fb1) (yres fb1)) sel
                  \<lparr>cs_cal = cal, cs_last_x = -1, cs_last_y = 0, cs_fb = fb1, cs_s = s\<rparr> of
             None \<Rightarrow> None
           | Some (Inl e) \<Rightarrow> Some (Inl e)
           | Some (Inr (sel', cs)) \<Rightarrow>
               (case perform_calibration rnd (cs_cal cs) of
                  Inl e \<Rightarrow> Some (Inl e)
                | Inr (ok, cal') \<Rightarrow>
                    if ok \<noteq> 0 then
                      Some (Inr (0, Some (cal_buffer (cal_a cal') (sint (xres fb1)) (sint (yres fb1))), cs_fb cs))
                    else Some (Inr (-1, None, cs_fb cs)))))"

definition calibrate_main ::
  "(rat \<Rightarrow> rat) \<Rightarrow> nat \<Rightarrow> ts_sample list \<Rightarrow> int list \<Rightarrow> calibration \<Rightarrow> (string \<Rightarrow> bool) \<Rightarrow> string option \<Rightarrow>
   (string \<Rightarrow> int \<Rightarrow> int \<times> int) \<Rightarrow> bool \<Rightarrow> string option \<Rightarrow> ts_env \<Rightarrow> world \<Rightarrow> fb_os \<Rightarrow> fb_state \<Rightarrow>
   (fault + (int \<times> string option \<times> fb_state)) option" where
  "calibrate_main rnd fuel junk sel cal readable calibfile openf malloc_ok tsdevice env w os fbs =
     (if readable (case calibfile of None \<Rightarrow> TS_POINTERCAL | Some f \<Rightarrow> f) then Some (Inr (0, None, fbs))
      else
        (case open_device openf malloc_ok tsdevice 0 of
           None \<Rightarrow> Some (Inl (ProcessExit 1))
         | Some stA \<Rightarrow>
             (case ts_config env stA of
                Inl e \<Rightarrow> Some (Inl e)
              | Inr (ret, st) \<Rightarrow>
                  if ret \<noteq> 0 then Some (Inl (ProcessExit 1))
                  else
                    (case open_framebuffer os fbs of
                       Inl e \<Rightarrow> Some (Inl e)
                     | Inr (fret, fbs1) \<Rightarrow>
                         if fret \<noteq> 0 then Some (Inl (ProcessExit 1))
                         else
                           (case calibrate rnd fuel (ts_read_raw (hd junk) (st_brk st + 1) (st_list_raw st)) junk sel cal
                                   (fbs_fb fbs1) (st_heap st, w\<lparr>w_dev := st_dev st\<rparr>) of
                              None \<Rightarrow> None
                            | Some (Inl e) \<Rightarrow> Some (Inl e)
                            | Some (Inr (i, written, fb)) \<Rightarrow>
                                Some (Inr (i, written, close_framebuffer os (fbs1\<lparr>fbs_fb := fb\<rparr>))))))))"

subsection \<open>The crosshair leaves no trace\<close>

lemma on_plane_fixed: "in_s32 v \<Longrightarrow> on_plane (drop_bit 16 v)"
proof -
  assume "in_s32 v"
  then have "- 32768 \<le> v div 65536" "v div 65536 < 32768" by (auto simp: in_s32_def)
  then show ?thesis by (simp add: on_plane_def drop_bit_eq_div)
qed

lemma cross_twice:
  assumes "fb_wf fb" "on_plane x" "on_plane y"
  obtains fb' where "put_cross x y CROSS fb = Inr fb'" "fb_wf fb'" "put_cross x y CROSS fb' = Inr fb"
  using put_cross_twice [OF assms, of 2] by (auto simp: CROSS_def)

lemma animate_clean: "fb_wf fb \<Longrightarrow> in_s32 lx \<Longrightarrow> in_s32 ly \<Longrightarrow> animate n lx ly dx dy fb = Inr fb"
proof (induction n arbitrary: lx ly)
  case (Suc n)
  obtain fb' where "put_cross (drop_bit 16 lx) (drop_bit 16 ly) CROSS fb = Inr fb'" "put_cross (drop_bit 16 lx) (drop_bit 16 ly) CROSS fb' = Inr fb"
    by (rule cross_twice [OF Suc.prems(1) on_plane_fixed [OF Suc.prems(2)] on_plane_fixed [OF Suc.prems(3)]])
  with Suc show ?case by simp
qed simp

lemma move_cross_clean: "fb_wf fb \<Longrightarrow> move_cross lx ly x y fb = Inr fb"
  by (simp add: move_cross_def c_div_def animate_clean)

text \<open>One touch: presses of a finger and its release, and the medians of its positions.\<close>

definition touch :: "nat \<Rightarrow> 'a reader \<Rightarrow> 'a \<times> world \<Rightarrow> int \<Rightarrow> int \<Rightarrow> 'a \<times> world \<Rightarrow> bool" where
  "touch fuel rd s tx ty s' \<longleftrightarrow>
     (\<exists>ups p ps up. yields rd s (ups @ p # ps @ [up]) s' \<and> (\<forall>u \<in> set ups. samp_pressure u = 0) \<and>
        (\<forall>q \<in> set (p # ps). samp_pressure q \<noteq> 0) \<and> samp_pressure up = 0 \<and>
        length ups < fuel \<and> length ps < fuel \<and> length ps < 127 \<and>
        tx = median (map samp_x (p # ps)) \<and> ty = median (map samp_y (p # ps)))"

lemma touch_getxy:
  assumes "touch fuel rd s tx ty s'" "length junk = 128"
  shows "getxy fuel rd s junk = Some (Inr ((tx, ty), s'))"
proof -
  from assms(1) obtain ups p ps up where t: "yields rd s (ups @ p # ps @ [up]) s'" "\<forall>u \<in> set ups. samp_pressure u = 0"
    "\<forall>q \<in> set (p # ps). samp_pressure q \<noteq> 0" "samp_pressure up = 0" "length ups < fuel" "length ps < fuel" "length ps < 127"
    and m: "tx = median (map samp_x (p # ps))" "ty = median (map samp_y (p # ps))"
    unfolding touch_def by blast
  show ?thesis using getxy_touch [OF t assms(2)] by (simp only: m)
qed

definition record_point :: "nat \<Rightarrow> int \<Rightarrow> int \<Rightarrow> int \<Rightarrow> int \<Rightarrow> calibration \<Rightarrow> calibration" where
  "record_point i tx ty x y c = c\<lparr>cal_x := (cal_x c)[i := tx], cal_y := (cal_y c)[i := ty],
     cal_xfb := (cal_xfb c)[i := x], cal_yfb := (cal_yfb c)[i := y]\<rparr>"

lemma get_sample_touch:
  assumes "fb_wf (cs_fb cs)" "on_plane x" "on_plane y" "touch fuel rd (cs_s cs) tx ty s'" "length junk = 128"
  shows "get_sample fuel rd junk i x y cs =
    Some (Inr (cs\<lparr>cs_cal := record_point i tx ty x y (cs_cal cs), cs_last_x := x, cs_last_y := y, cs_s := s'\<rparr>))"
proof -
  note touch_getxy [OF assms(4,5)]
  moreover obtain fb' where "put_cross x y CROSS (cs_fb cs) = Inr fb'" "put_cross x y CROSS fb' = Inr (cs_fb cs)"
    by (rule cross_twice [OF assms(1-3)])
  ultimately show ?thesis
    by (simp add: get_sample_def move_cross_clean [OF assms(1)] record_point_def Let_def)
qed

text \<open>A touch for every target, with nothing pending before it.\<close>

fun touches :: "nat \<Rightarrow> 'a reader \<Rightarrow> 'a \<times> world \<Rightarrow> (int \<times> int) list \<Rightarrow> 'a \<times> world \<Rightarrow> bool" where
  "touches fuel rd s [] s' \<longleftrightarrow> s' = s"
| "touches fuel rd s ((tx, ty) # ms) s' \<longleftrightarrow> (\<exists>s1. touch fuel rd s tx ty s1 \<and> touches fuel rd s1 ms s')"

fun record_points :: "(nat \<times> int \<times> int) list \<Rightarrow> (int \<times> int) list \<Rightarrow> calibration \<Rightarrow> calibration" where
  "record_points ((i, x, y) # ts) ((tx, ty) # ms) c = record_points ts ms (record_point i tx ty x y c)"
| "record_points _ _ c = c"

lemma measure_touches:
  assumes "touches fuel rd (cs_s cs) ms s'" "length ms = length ts" "fb_wf (cs_fb cs)" "\<forall>(i, x, y) \<in> set ts. on_plane x \<and> on_plane y" "length junk = 128"
  shows "\<exists>cs'. measure_targets fuel rd junk ts (replicate (length ts) 0 @ sel) cs = Some (Inr (sel, cs')) \<and>
    cs_fb cs' = cs_fb cs \<and> cs_s cs' = s' \<and> cs_cal cs' = record_points ts ms (cs_cal cs)"
  using assms(1-4)
proof (induction ts arbitrary: ms cs)
  case (Cons t ts)
  obtain i x y where t: "t = (i, x, y)" by (cases t)
  obtain tx ty ms' where ms: "ms = (tx, ty) # ms'" using Cons.prems(2) by (cases ms) auto
  obtain s1 where s1: "touch fuel rd (cs_s cs) tx ty s1" "touches fuel rd s1 ms' s'" using Cons.prems(1) by (auto simp: ms)
  let ?cs = "cs\<lparr>cs_cal := record_point i tx ty x y (cs_cal cs), cs_last_x := x, cs_last_y := y, cs_s := s1\<rparr>"
  have "get_sample fuel rd junk i x y cs = Some (Inr ?cs)"
    by (rule get_sample_touch) (use Cons.prems s1 assms(5) t in auto)
  moreover have "cs\<lparr>cs_s := cs_s cs\<rparr> = cs" by simp
  moreover note Cons.IH [of ?cs ms']
  ultimately show ?case using s1(2) Cons.prems by (auto simp: t ms)
qed simp

subsection \<open>The screen of the program\<close>

definition same_screen :: "framebuffer \<Rightarrow> framebuffer \<Rightarrow> bool" where
  "same_screen fb fb' \<longleftrightarrow> fb_wf fb' \<and> xres fb' = xres fb \<and> yres fb' = yres fb"

lemma fb_wf_colormap: "fb_wf (fb\<lparr>cmap_log := l, colormap := m\<rparr>) \<longleftrightarrow> fb_wf (fb\<lparr>colormap := m\<rparr>)"
  by (simp add: fb_wf_def)

lemma setcolor_ok: "fb_wf fb \<Longrightarrow> unat i < 256 \<Longrightarrow> \<exists>fb'. setcolor i v fb = Inr fb' \<and> same_screen fb fb'"
  by (auto simp: setcolor_def Let_def fb_wf_def same_screen_def)

lemma fold_plot_res [simp]: "xres (fold plot ds fb) = xres fb" "yres (fold plot ds fb) = yres fb"
  by (induction ds arbitrary: fb) simp_all

lemma put_string_ok: "fb_wf fb \<Longrightarrow> color_ok c \<Longrightarrow> \<exists>fb'. put_string_center x y s c fb = Inr fb' \<and> same_screen fb fb'"
  using set_string_dots by (simp add: put_string_center_def put_string_draw draw_plot same_screen_def)

lemma seqr_same_screen:
  assumes "\<forall>f \<in> set fs. \<forall>fb. fb_wf fb \<longrightarrow> (\<exists>fb'. f fb = Inr fb' \<and> same_screen fb fb')" "fb_wf fb"
  shows "\<exists>fb'. seqr fs fb = Inr fb' \<and> same_screen fb fb'"
  using assms seqr_preserves [of fs "same_screen fb" fb] by (force simp: same_screen_def)

lemma draw_screen_ok: "fb_wf fb \<Longrightarrow> \<exists>fb'. draw_screen fb = Inr fb' \<and> same_screen fb fb'"
  unfolding draw_screen_def
  by (rule seqr_same_screen) (auto simp: palette_def color_ok_def XORMODE_def intro!: setcolor_ok put_string_ok)

lemma sint_word_small: "uint (w :: 32 word) < 2 ^ 31 \<Longrightarrow> sint w = uint w"
  by (rule sint_small) simp_all

lemma targets_small:
  assumes "50 \<le> uint xr" "uint xr \<le> 32767" "50 \<le> uint yr" "uint yr \<le> 32767"
  shows "targets xr yr = [(0, 50, 50), (1, uint xr - 50, 50), (2, uint xr - 50, uint yr - 50), (3, 50, uint yr - 50),
      (4, uint xr div 2, uint yr div 2)]"
proof -
  have "sint (v - 50) = uint v - 50" "sint (v div 2) = uint v div 2" if "50 \<le> uint v" "uint v \<le> 32767" for v :: "32 word"
  proof -
    have "(50 :: 32 word) \<le> v" using that by (simp add: word_le_def)
    then have "uint (v - 50) = uint v - 50" by (simp add: uint_minus_simple_alt)
    with that show "sint (v - 50) = uint v - 50" by (subst sint_word_small) auto
    have "uint (v div 2) = uint v div 2" by (simp add: uint_div)
    with that show "sint (v div 2) = uint v div 2" by (subst sint_word_small) auto
  qed
  with assms show ?thesis by (simp add: targets_def)
qed

lemma record_points_five:
  assumes "length ms = 5" "length (cal_x c) = 5" "length (cal_y c) = 5" "length (cal_xfb c) = 5" "length (cal_yfb c) = 5"
  shows "record_points [(0, x0, y0), (1, x1, y1), (2, x2, y2), (3, x3, y3), (4, x4, y4)] ms c =
    c\<lparr>cal_x := map fst ms, cal_y := map snd ms, cal_xfb := [x0, x1, x2, x3, x4], cal_yfb := [y0, y1, y2, y3, y4]\<rparr>"
proof -
  have five: "\<exists>a b d e f. l = [a, b, d, e, f]" if "length l = 5" for l :: "'b list"
    using that by (auto simp: length_Suc_conv numeral_eq_Suc)
  from five [OF assms(1)] five [OF assms(2)] five [OF assms(3)] five [OF assms(4)] five [OF assms(5)] show ?thesis
    by (auto simp: record_point_def)
qed

subsection \<open>Properties\<close>


lemma list_reader_touch:
  assumes "0 < fuel"
  shows "touch fuel list_reader (smp u v 5 # smp 0 0 0 # vs, w) u v (vs, w)"
  using list_reader_yields [of "[smp u v 5, smp 0 0 0]" vs w] assms unfolding touch_def
  by (intro exI [of _ "[]"] exI [of _ "smp u v 5"] exI [of _ "smp 0 0 0"]) (simp add: median_def)

definition tap :: "int \<times> int \<Rightarrow> ts_sample list" where
  "tap m = [smp (fst m) (snd m) 5, smp 0 0 0]"

lemma list_reader_touches: "0 < fuel \<Longrightarrow> touches fuel list_reader (concat (map tap ms), w) ms ([], w)"
  by (induction ms) (auto simp: tap_def intro!: exI list_reader_touch)

definition square_fb :: framebuffer where
  "square_fb = init_framebuffer 22500 150 8 (demo_fb\<lparr>xres_virtual := 150, yres_virtual := 150, xres := 150, yres := 150\<rparr>)"

lemma square_fb_wf: "fb_wf square_fb" "xres square_fb = 150" "yres square_fb = 150"
proof -
  have "geometry_ok 22500 150 8 (demo_fb\<lparr>xres_virtual := 150, yres_virtual := 150, xres := 150, yres := 150\<rparr>)"
    by (simp add: geometry_ok_def demo_fb_def)
  from init_framebuffer_screen_wf [OF this] show "fb_wf square_fb" by (simp add: square_fb_def screen_wf_def)
  show "xres square_fb = 150" "yres square_fb = 150" by (simp_all add: square_fb_def init_framebuffer_def)
qed


end
