(* ===== verification/TsTest.thy ===== *)
theory TsTest
  imports CalProgram
begin

text \<open>
  The test program src/tslib-1.1/tests/ts_test.c: three buttons, a crosshair that follows the
  pen, and a mode in which the pen draws. One round of its loop is \<open>test_step\<close>; the reader is
  an argument, so that the program runs on top of any chain of modules.

  The behaviour of the interface is stated as a small machine, \<open>ui_step\<close>, which knows only
  the mode, whether the pen is down and the button it is on; \<open>test_step\<close> implements it.
\<close>

definition test_palette :: "32 word list" where
  "test_palette = [0x000000, 0xffe080, 0xffffff, 0xe0c0a0, 0x304050, 0x80b8c0]"

record ts_button =
  btn_x :: int
  btn_y :: int
  btn_w :: int
  btn_h :: int
  btn_text :: string
  btn_flags :: int

definition BUTTON_ACTIVE :: int where "BUTTON_ACTIVE = 1"

definition button_palette :: "32 word list" where
  "button_palette = [1, 4, 2, 1, 5, 0]"

definition button_draw :: "ts_button \<Rightarrow> framebuffer \<Rightarrow> fault + framebuffer" where
  "button_draw b =
     (let s = (if btn_flags b AND BUTTON_ACTIVE \<noteq> 0 then 3 else 0 :: nat) in seqr
        [rect (btn_x b) (btn_y b) (btn_x b + btn_w b - 1) (btn_y b + btn_h b - 1) (button_palette ! s),
         fillrect (btn_x b + 1) (btn_y b + 1) (btn_x b + btn_w b - 2) (btn_y b + btn_h b - 2) (button_palette ! (s + 1)),
         put_string_center (btn_x b + btn_w b sdiv 2) (btn_y b + btn_h b sdiv 2) (btn_text b) (button_palette ! (s + 2))])"

definition on_button :: "ts_button \<Rightarrow> ts_sample \<Rightarrow> bool" where
  "on_button b samp \<longleftrightarrow> btn_x b \<le> samp_x samp \<and> btn_y b \<le> samp_y samp \<and>
     samp_x samp < btn_x b + btn_w b \<and> samp_y samp < btn_y b + btn_h b"

definition button_handle :: "ts_button \<Rightarrow> ts_sample \<Rightarrow> framebuffer \<Rightarrow> fault + (int \<times> ts_button \<times> framebuffer)" where
  "button_handle b samp fb =
     (let redraw = (\<lambda>b' ret. case button_draw b' fb of Inl e \<Rightarrow> Inl e | Inr fb' \<Rightarrow> Inr (ret, b', fb')) in
      if 0 < samp_pressure samp then
        if on_button b samp then
          if btn_flags b AND BUTTON_ACTIVE = 0 then redraw (b\<lparr>btn_flags := btn_flags b OR BUTTON_ACTIVE\<rparr>) 0 else Inr (0, b, fb)
        else if btn_flags b AND BUTTON_ACTIVE \<noteq> 0 then redraw (b\<lparr>btn_flags := btn_flags b AND NOT BUTTON_ACTIVE\<rparr>) 0
        else Inr (0, b, fb)
      else if btn_flags b AND BUTTON_ACTIVE \<noteq> 0 then redraw (b\<lparr>btn_flags := btn_flags b AND NOT BUTTON_ACTIVE\<rparr>) 1
      else Inr (0, b, fb))"

text \<open>\<open>xres - 1\<close> and the other expressions in the resolution are unsigned.\<close>

definition refresh_screen :: "ts_button list \<Rightarrow> framebuffer \<Rightarrow> fault + framebuffer" where
  "refresh_screen bs fb = seqr
     ([fillrect 0 0 (sint (xres fb - 1)) (sint (yres fb - 1)) 0,
       put_string_center (sint (xres fb div 2)) (sint (yres fb div 4)) ''TSLIB test program'' 1,
       put_string_center (sint (xres fb div 2)) (sint (yres fb div 4 + 20)) ''Touch screen to move crosshair'' 2] @
      map button_draw bs) fb"

definition init_buttons :: "32 word \<Rightarrow> ts_button list" where
  "init_buttons xr =
     (let b = \<lparr>btn_x = 0, btn_y = 10, btn_w = sint (xr div 4), btn_h = 20, btn_text = [], btn_flags = 0\<rparr> in
      [b\<lparr>btn_text := ''Drag''\<rparr>,
       b\<lparr>btn_x := sint ((3 * xr) div 8), btn_text := ''Draw''\<rparr>,
       b\<lparr>btn_x := sint ((3 * xr) div 4), btn_text := ''Quit''\<rparr>])"

record 'a test_state =
  t_x :: int
  t_y :: int
  t_mode :: "32 word"
  t_quit :: bool
  t_buttons :: "ts_button list"
  t_fb :: framebuffer
  t_s :: "'a \<times> world"

text \<open>The \<open>switch\<close> for a button that was clicked.\<close>

definition clicked :: "nat \<Rightarrow> 'a test_state \<Rightarrow> fault + 'a test_state" where
  "clicked i st =
     (if i = 0 \<or> i = 1 then
        (case refresh_screen (t_buttons st) (t_fb st) of
           Inl e \<Rightarrow> Inl e
         | Inr fb \<Rightarrow> Inr (st\<lparr>t_fb := fb, t_mode := of_nat i\<rparr>))
      else if i = 2 then Inr (st\<lparr>t_quit := True\<rparr>)
      else Inr st)"

fun handle_buttons :: "nat list \<Rightarrow> ts_sample \<Rightarrow> 'a test_state \<Rightarrow> fault + 'a test_state" where
  "handle_buttons [] samp st = Inr st"
| "handle_buttons (i # is) samp st =
     (case button_handle (t_buttons st ! i) samp (t_fb st) of
        Inl e \<Rightarrow> Inl e
      | Inr (ret, b, fb) \<Rightarrow>
          (let tst1 = st\<lparr>t_buttons := (t_buttons st)[i := b], t_fb := fb\<rparr> in
           case (if ret \<noteq> 0 then clicked i tst1 else Inr tst1) of
             Inl e \<Rightarrow> Inl e
           | Inr tst2 \<Rightarrow> handle_buttons is samp tst2))"

definition PEN :: "32 word" where "PEN = 0x80000000"

text \<open>What follows the buttons: the stroke, the position and the pen bit of \<open>mode\<close>.\<close>

definition follow_pen :: "ts_sample \<Rightarrow> 'a test_state \<Rightarrow> fault + 'a test_state" where
  "follow_pen samp st =
     (if 0 < samp_pressure samp then
        (case (if t_mode st = 0x80000001 then line (t_x st) (t_y st) (samp_x samp) (samp_y samp) 2 (t_fb st) else Inr (t_fb st)) of
           Inl e \<Rightarrow> Inl e
         | Inr fb \<Rightarrow> Inr (st\<lparr>t_fb := fb, t_x := samp_x samp, t_y := samp_y samp, t_mode := t_mode st OR PEN\<rparr>))
      else Inr (st\<lparr>t_mode := t_mode st AND NOT PEN\<rparr>))"

definition cross_if_shown :: "'a test_state \<Rightarrow> fault + 'a test_state" where
  "cross_if_shown st =
     (if t_mode st AND 15 \<noteq> 1 then
        (case put_cross (t_x st) (t_y st) CROSS (t_fb st) of Inl e \<Rightarrow> Inl e | Inr fb \<Rightarrow> Inr (st\<lparr>t_fb := fb\<rparr>))
      else Inr st)"

text \<open>One round of the loop; the flag says whether the loop goes on.\<close>

definition test_step :: "'a reader \<Rightarrow> ts_sample \<Rightarrow> 'a test_state \<Rightarrow> fault + (bool \<times> 'a test_state)" where
  "test_step rd junk st =
     (case cross_if_shown st of
        Inl e \<Rightarrow> Inl e
      | Inr tst1 \<Rightarrow>
          (case rd (t_s tst1) [junk] 1 of
             Inl e \<Rightarrow> Inl e
           | Inr (ret, buf, s') \<Rightarrow>
               (case cross_if_shown (tst1\<lparr>t_s := s'\<rparr>) of
                  Inl e \<Rightarrow> Inl e
                | Inr tst2 \<Rightarrow>
                    if ret < 0 then Inl (ProcessExit 1)
                    else if ret \<noteq> 1 then Inr (True, tst2)
                    else
                      (case buf of
                         [] \<Rightarrow> Inl OutOfBounds
                       | samp # _ \<Rightarrow>
                           (case handle_buttons [0, 1, 2] samp tst2 of
                              Inl e \<Rightarrow> Inl e
                            | Inr tst3 \<Rightarrow>
                                (case follow_pen samp tst3 of
                                   Inl e \<Rightarrow> Inl e
                                 | Inr tst4 \<Rightarrow> Inr (\<not> t_quit tst4, tst4)))))))"

text \<open>The loop, for a number of rounds; \<open>None\<close> means that it was still running.\<close>

fun test_loop :: "nat \<Rightarrow> 'a reader \<Rightarrow> ts_sample \<Rightarrow> 'a test_state \<Rightarrow> (fault + 'a test_state) option" where
  "test_loop 0 rd junk st = None"
| "test_loop (Suc n) rd junk st =
     (case test_step rd junk st of
        Inl e \<Rightarrow> Some (Inl e)
      | Inr (go_on, st') \<Rightarrow> if go_on then test_loop n rd junk st' else Some (Inr st'))"

text \<open>\<open>main\<close> from the opened framebuffer to the loop.\<close>

definition test_start :: "framebuffer \<Rightarrow> 'a \<times> world \<Rightarrow> fault + 'a test_state" where
  "test_start fb s =
     (case seqr (map (\<lambda>i. setcolor (of_nat i) (test_palette ! i)) [0 ..< length test_palette]) fb of
        Inl e \<Rightarrow> Inl e
      | Inr fb1 \<Rightarrow>
          (let bs = init_buttons (xres fb1) in
           case refresh_screen bs fb1 of
             Inl e \<Rightarrow> Inl e
           | Inr fb2 \<Rightarrow>
               Inr \<lparr>t_x = sint (xres fb1 div 2), t_y = sint (yres fb1 div 2), t_mode = 0, t_quit = False, t_buttons = bs,
                    t_fb = fb2, t_s = s\<rparr>))"

subsection \<open>Drawing keeps the screen\<close>

definition screen :: "32 word \<Rightarrow> 32 word \<Rightarrow> framebuffer \<Rightarrow> bool" where
  "screen xr yr fb \<longleftrightarrow> screen_wf fb \<and> xres fb = xr \<and> yres fb = yr"

lemma screen_fold_plot: "screen xr yr fb \<Longrightarrow> screen xr yr (fold plot ds fb)"
  by (auto simp: screen_def screen_wf_def)

lemma screen_draws:
  assumes "screen xr yr fb" "color_ok c"
  shows "\<exists>fb'. fillrect x1 y1 x2 y2 c fb = Inr fb' \<and> screen xr yr fb'"
    "\<exists>fb'. put_string_center x1 y1 s c fb = Inr fb' \<and> screen xr yr fb'"
    "in_s32 x1 \<Longrightarrow> in_s32 y1 \<Longrightarrow> in_s32 x2 \<Longrightarrow> in_s32 y2 \<Longrightarrow> \<exists>fb'. rect x1 y1 x2 y2 c fb = Inr fb' \<and> screen xr yr fb'"
    "in_s32 x1 \<Longrightarrow> in_s32 y1 \<Longrightarrow> in_s32 x2 \<Longrightarrow> in_s32 y2 \<Longrightarrow> \<exists>fb'. line x1 y1 x2 y2 c fb = Inr fb' \<and> screen xr yr fb'"
proof -
  have wf: "screen_wf fb" "fb_wf fb" using assms(1) by (auto simp: screen_def screen_wf_def)
  have dots: "\<exists>fb'. draw ds fb = Inr fb' \<and> screen xr yr fb'" if "\<forall>d \<in> set ds. snd (snd d) = c" for ds
    using that wf(2) assms by (simp add: draw_plot screen_fold_plot)
  show "\<exists>fb'. fillrect x1 y1 x2 y2 c fb = Inr fb' \<and> screen xr yr fb'"
    using fillrect_plot [OF wf(1) assms(2)] screen_fold_plot [OF assms(1)] by simp
  show "\<exists>fb'. put_string_center x1 y1 s c fb = Inr fb' \<and> screen xr yr fb'"
    using dots set_string_dots by (simp add: put_string_center_def put_string_draw)
  show "\<exists>fb'. rect x1 y1 x2 y2 c fb = Inr fb' \<and> screen xr yr fb'" if "in_s32 x1" "in_s32 y1" "in_s32 x2" "in_s32 y2"
    using dots set_rect_dots that by (simp add: rect_draw)
  show "\<exists>fb'. line x1 y1 x2 y2 c fb = Inr fb' \<and> screen xr yr fb'" if "in_s32 x1" "in_s32 y1" "in_s32 x2" "in_s32 y2"
    using dots set_line_dots that by (simp add: line_draw)
qed

definition btn_ok :: "ts_button \<Rightarrow> bool" where
  "btn_ok b \<longleftrightarrow> (\<forall>v \<in> {btn_x b, btn_y b, btn_w b, btn_h b}. 0 \<le> v \<and> v \<le> 65536)"

lemma button_palette_ok: "s \<in> {0, 3} \<Longrightarrow> color_ok (button_palette ! s) \<and> color_ok (button_palette ! Suc s) \<and> color_ok (button_palette ! Suc (Suc s))"
  by (auto simp: button_palette_def color_ok_def XORMODE_def)

lemma button_draw_ok:
  assumes "btn_ok b" "screen xr yr fb"
  shows "\<exists>fb'. button_draw b fb = Inr fb' \<and> screen xr yr fb'"
  unfolding button_draw_def Let_def
proof (rule seqr_preserves [of _ "screen xr yr", OF _ assms(2)])
  define s where "s = (if btn_flags b AND BUTTON_ACTIVE \<noteq> 0 then 3 else 0 :: nat)"
  have "s \<in> {0, 3}" by (simp add: s_def)
  note col = button_palette_ok [OF this]
  have "in_s32 (btn_x b)" "in_s32 (btn_y b)" "in_s32 (btn_x b + btn_w b - 1)" "in_s32 (btn_y b + btn_h b - 1)"
    using assms(1) by (auto simp: btn_ok_def in_s32_def)
  then show "\<forall>f \<in> set [rect (btn_x b) (btn_y b) (btn_x b + btn_w b - 1) (btn_y b + btn_h b - 1) (button_palette ! s),
      fillrect (btn_x b + 1) (btn_y b + 1) (btn_x b + btn_w b - 2) (btn_y b + btn_h b - 2) (button_palette ! (s + 1)),
      put_string_center (btn_x b + btn_w b sdiv 2) (btn_y b + btn_h b sdiv 2) (btn_text b) (button_palette ! (s + 2))].
    \<forall>fb. screen xr yr fb \<longrightarrow> (\<exists>fb'. f fb = Inr fb' \<and> screen xr yr fb')"
    using col by (simp add: screen_draws)
qed

lemma refresh_screen_ok:
  assumes "\<forall>b \<in> set bs. btn_ok b" "screen xr yr fb"
  shows "\<exists>fb'. refresh_screen bs fb = Inr fb' \<and> screen xr yr fb'"
  unfolding refresh_screen_def
proof (rule seqr_preserves [of _ "screen xr yr", OF _ assms(2)])
  have "color_ok 0" "color_ok 1" "color_ok 2" by (simp_all add: color_ok_def XORMODE_def)
  then show "\<forall>f \<in> set ([fillrect 0 0 (sint (xres fb - 1)) (sint (yres fb - 1)) 0,
       put_string_center (sint (xres fb div 2)) (sint (yres fb div 4)) ''TSLIB test program'' 1,
       put_string_center (sint (xres fb div 2)) (sint (yres fb div 4 + 20)) ''Touch screen to move crosshair'' 2] @
      map button_draw bs). \<forall>fb. screen xr yr fb \<longrightarrow> (\<exists>fb'. f fb = Inr fb' \<and> screen xr yr fb')"
    using assms(1) by (auto simp: screen_draws button_draw_ok)
qed

subsection \<open>The user interface as a machine\<close>

record ui =
  ui_draw :: bool
  ui_down :: bool
  ui_btn :: "nat option"

text \<open>
  \<open>h\<close> is the button under the pen. A press remembers it; a release clicks the button the pen
  was on last: the first two choose the mode, the third one quits.
\<close>

definition ui_step :: "nat option \<Rightarrow> bool \<Rightarrow> ui \<Rightarrow> bool \<times> ui" where
  "ui_step h pressed u =
     (if pressed then (False, u\<lparr>ui_down := True, ui_btn := h\<rparr>)
      else (ui_btn u = Some 2,
            \<lparr>ui_draw = (if ui_btn u = Some 0 then False else if ui_btn u = Some 1 then True else ui_draw u),
             ui_down = False, ui_btn = None\<rparr>))"

definition hit :: "32 word \<Rightarrow> ts_sample \<Rightarrow> nat option" where
  "hit xr samp =
     (if on_button (init_buttons xr ! 0) samp then Some 0 else if on_button (init_buttons xr ! 1) samp then Some 1
      else if on_button (init_buttons xr ! 2) samp then Some 2 else None)"

text \<open>The buttons with the given one active.\<close>

definition buttons_of :: "32 word \<Rightarrow> (nat \<Rightarrow> bool) \<Rightarrow> ts_button list" where
  "buttons_of xr act = map (\<lambda>i. (init_buttons xr ! i)\<lparr>btn_flags := of_bool (act i)\<rparr>) [0, 1, 2]"

definition mode_of :: "bool \<Rightarrow> bool \<Rightarrow> 32 word" where
  "mode_of d p = of_bool d OR (if p then PEN else 0)"

definition implements :: "32 word \<Rightarrow> 32 word \<Rightarrow> ui \<Rightarrow> 'a test_state \<Rightarrow> bool" where
  "implements xr yr u st \<longleftrightarrow> t_mode st = mode_of (ui_draw u) (ui_down u) \<and> \<not> t_quit st \<and>
     t_buttons st = buttons_of xr (\<lambda>i. ui_btn u = Some i) \<and> screen xr yr (t_fb st) \<and> on_plane (t_x st) \<and> on_plane (t_y st)"

lemma init_buttons_eq:
  assumes "uint xr \<le> 32767"
  shows "init_buttons xr =
    [\<lparr>btn_x = 0, btn_y = 10, btn_w = uint xr div 4, btn_h = 20, btn_text = ''Drag'', btn_flags = 0\<rparr>,
     \<lparr>btn_x = 3 * uint xr div 8, btn_y = 10, btn_w = uint xr div 4, btn_h = 20, btn_text = ''Draw'', btn_flags = 0\<rparr>,
     \<lparr>btn_x = 3 * uint xr div 4, btn_y = 10, btn_w = uint xr div 4, btn_h = 20, btn_text = ''Quit'', btn_flags = 0\<rparr>]"
proof -
  have "uint (3 * xr) = 3 * uint xr" using assms by (simp add: uint_word_ariths)
  then have "uint (xr div 4) = uint xr div 4" "uint (3 * xr div 8) = 3 * uint xr div 8" "uint (3 * xr div 4) = 3 * uint xr div 4"
    by (simp_all add: uint_div)
  moreover from this have "sint (xr div 4) = uint xr div 4" "sint (3 * xr div 8) = 3 * uint xr div 8" "sint (3 * xr div 4) = 3 * uint xr div 4"
    using assms by (subst sint_word_small; simp)+
  ultimately show ?thesis by (simp add: init_buttons_def Let_def)
qed

lemma on_button_flags [simp]: "on_button (b\<lparr>btn_flags := f\<rparr>) = on_button b"
  by (simp add: fun_eq_iff on_button_def)

text \<open>The buttons do not overlap.\<close>

lemma div_bounds:
  assumes "0 < (b::int)"
  shows "b * (a div b) \<le> a" "a < b * (a div b) + b"
  using pos_mod_sign [OF assms, of a] pos_mod_bound [OF assms, of a] by (simp_all flip: minus_mod_eq_mult_div)

lemma button_places:
  assumes "0 \<le> (v::int)" "v \<le> 32767"
  shows "v div 4 \<le> 3 * v div 8" "3 * v div 8 + v div 4 \<le> 3 * v div 4" "0 \<le> v div 4" "3 * v div 4 \<le> 65536"
proof -
  have places: "q \<le> m" "m + q \<le> n" "0 \<le> q" "n \<le> 65536"
    if "4 * q \<le> v" "v < 4 * q + 4" "8 * m \<le> 3 * v" "3 * v < 8 * m + 8" "4 * n \<le> 3 * v" "3 * v < 4 * n + 4" for q m n
    using that assms by linarith+
  show "v div 4 \<le> 3 * v div 8" "3 * v div 8 + v div 4 \<le> 3 * v div 4" "0 \<le> v div 4" "3 * v div 4 \<le> 65536"
    by (rule places [OF div_bounds [of 4 v] div_bounds [of 8 "3 * v"] div_bounds [of 4 "3 * v"]]; simp)+
qed

lemma hit_unique:
  assumes "uint xr \<le> 32767" "i \<in> {0, 1, 2}"
  shows "on_button (init_buttons xr ! i) samp \<longleftrightarrow> hit xr samp = Some i"
proof -
  define w u v where wuv: "w = uint xr div 4" "u = 3 * uint xr div 8" "v = 3 * uint xr div 4"
  have "w \<le> u" "u + w \<le> v" using button_places [OF _ assms(1)] by (simp_all add: wuv)
  then show ?thesis using assms(2) by (auto simp: hit_def init_buttons_eq [OF assms(1)] on_button_def wuv [symmetric])
qed

lemma init_buttons_ok:
  assumes "uint xr \<le> 32767" "i \<in> {0, 1, 2}"
  shows "btn_ok (init_buttons xr ! i)" "btn_ok ((init_buttons xr ! i)\<lparr>btn_flags := f\<rparr>)"
proof -
  define w u v where wuv: "w = uint xr div 4" "u = 3 * uint xr div 8" "v = 3 * uint xr div 4"
  have "w \<le> u" "u + w \<le> v" "0 \<le> w" "v \<le> 65536" using button_places [OF _ assms(1)] by (simp_all add: wuv)
  then show "btn_ok (init_buttons xr ! i)" using assms(2) by (auto simp: init_buttons_eq [OF assms(1)] btn_ok_def wuv [symmetric])
  then show "btn_ok ((init_buttons xr ! i)\<lparr>btn_flags := f\<rparr>)" by (simp add: btn_ok_def)
qed

lemma buttons_of_ok: "uint xr \<le> 32767 \<Longrightarrow> \<forall>b \<in> set (buttons_of xr act). btn_ok b"
  by (auto simp: buttons_of_def init_buttons_ok)

lemma button_handle_ok:
  assumes "btn_ok b" "screen xr yr fb"
  shows "\<exists>fb'. button_handle (b\<lparr>btn_flags := of_bool a\<rparr>) samp fb =
      Inr (of_bool (a \<and> samp_pressure samp = 0), b\<lparr>btn_flags := of_bool (0 < samp_pressure samp \<and> on_button b samp)\<rparr>, fb') \<and> screen xr yr fb'"
proof -
  have ok: "btn_ok (b\<lparr>btn_flags := f\<rparr>)" for f using assms(1) by (simp add: btn_ok_def)
  have d: "\<exists>fb'. button_draw (b\<lparr>btn_flags := f\<rparr>) fb = Inr fb' \<and> screen xr yr fb'" for f
    by (rule button_draw_ok [OF ok assms(2)])
  from d [of 0] d [of 1] assms(2) show ?thesis
    by (cases a; cases "samp_pressure samp = 0"; cases "on_button b samp")
      (auto simp: button_handle_def Let_def BUTTON_ACTIVE_def word_neq_0_conv)
qed

lemma buttons_of_update:
  "i \<in> {0, 1, 2} \<Longrightarrow> (buttons_of xr act)[i := (init_buttons xr ! i)\<lparr>btn_flags := of_bool c\<rparr>] = buttons_of xr (act(i := c))"
  "i \<in> {0, 1, 2} \<Longrightarrow> buttons_of xr act ! i = (init_buttons xr ! i)\<lparr>btn_flags := of_bool (act i)\<rparr>"
  by (auto simp: buttons_of_def)

text \<open>One button of the loop.\<close>

lemma handle_one:
  assumes "uint xr \<le> 32767" "t_buttons st = buttons_of xr act" "screen xr yr (t_fb st)" "i \<in> {0, 1, 2}"
  shows "\<exists>fb. screen xr yr fb \<and> handle_buttons (i # is) samp st = handle_buttons is samp
    (st\<lparr>t_buttons := buttons_of xr (act(i := 0 < samp_pressure samp \<and> hit xr samp = Some i)), t_fb := fb,
        t_mode := (if act i \<and> samp_pressure samp = 0 \<and> i < 2 then of_nat i else t_mode st),
        t_quit := t_quit st \<or> (act i \<and> samp_pressure samp = 0 \<and> i = 2)\<rparr>)"
proof -
  let ?b = "init_buttons xr ! i" and ?c = "0 < samp_pressure samp \<and> hit xr samp = Some i"
  obtain fb where fb: "button_handle (t_buttons st ! i) samp (t_fb st) =
      Inr (of_bool (act i \<and> samp_pressure samp = 0), ?b\<lparr>btn_flags := of_bool ?c\<rparr>, fb)" "screen xr yr fb"
    using button_handle_ok [OF init_buttons_ok(1) [OF assms(1,4)] assms(3), of "act i" samp]
    by (auto simp: assms(2) buttons_of_update(2) [OF assms(4)] hit_unique [OF assms(1,4)])
  let ?st = "st\<lparr>t_buttons := buttons_of xr (act(i := ?c)), t_fb := fb\<rparr>"
  have st: "st\<lparr>t_buttons := (t_buttons st)[i := ?b\<lparr>btn_flags := of_bool ?c\<rparr>], t_fb := fb\<rparr> = ?st"
    by (simp only: assms(2) buttons_of_update(1) [OF assms(4)])
  have h: "handle_buttons (i # is) samp st =
      (case (if act i \<and> samp_pressure samp = 0 then clicked i ?st else Inr ?st) of Inl e \<Rightarrow> Inl e | Inr st2 \<Rightarrow> handle_buttons is samp st2)"
    unfolding handle_buttons.simps fb(1) sum.case prod.case Let_def st by simp
  show ?thesis
  proof (cases "act i \<and> samp_pressure samp = 0")
    case False
    moreover have "?st = ?st\<lparr>t_mode := t_mode st, t_quit := t_quit st\<rparr>" by simp
    ultimately show ?thesis using fb(2) unfolding h by (intro exI [of _ fb]) auto
  next
    case True
    obtain fb' where fb': "refresh_screen (buttons_of xr (act(i := ?c))) fb = Inr fb'" "screen xr yr fb'"
      using refresh_screen_ok [OF buttons_of_ok [OF assms(1)] fb(2)] by blast
    show ?thesis
    proof (cases "i = 2")
      case i: True
      with True fb(2) show ?thesis unfolding h by (intro exI [of _ fb]) (simp add: clicked_def)
    next
      case False
      then have "clicked i ?st = Inr (?st\<lparr>t_fb := fb', t_mode := of_nat i\<rparr>)" using fb'(1) assms(4) by (auto simp: clicked_def)
      with True False fb'(2) assms(4) show ?thesis unfolding h by (intro exI [of _ fb']) auto
    qed
  qed
qed

lemma handle_three:
  assumes "uint xr \<le> 32767" "t_buttons st = buttons_of xr act" "screen xr yr (t_fb st)"
  shows "\<exists>fb. screen xr yr fb \<and> handle_buttons [0, 1, 2] samp st =
    Inr (st\<lparr>t_buttons := buttons_of xr (\<lambda>i. 0 < samp_pressure samp \<and> hit xr samp = Some i), t_fb := fb,
        t_mode := (if samp_pressure samp \<noteq> 0 then t_mode st else if act 1 then 1 else if act 0 then 0 else t_mode st),
        t_quit := t_quit st \<or> (act 2 \<and> samp_pressure samp = 0)\<rparr>)"
proof -
  obtain fb0 where 0: "screen xr yr fb0" "handle_buttons [0, 1, 2] samp st = handle_buttons [1, 2] samp
    (st\<lparr>t_buttons := buttons_of xr (act(0 := 0 < samp_pressure samp \<and> hit xr samp = Some 0)), t_fb := fb0,
        t_mode := (if act 0 \<and> samp_pressure samp = 0 then 0 else t_mode st)\<rparr>)" (is "_ = handle_buttons _ _ ?s0")
    using handle_one [OF assms, of 0 "[1, 2]" samp] by (auto simp del: handle_buttons.simps)
  obtain fb1 where 1: "screen xr yr fb1" "handle_buttons [1, 2] samp ?s0 = handle_buttons [2] samp
    (?s0\<lparr>t_buttons := buttons_of xr (act(0 := 0 < samp_pressure samp \<and> hit xr samp = Some 0, 1 := 0 < samp_pressure samp \<and> hit xr samp = Some 1)), t_fb := fb1,
        t_mode := (if act 1 \<and> samp_pressure samp = 0 then 1 else t_mode ?s0)\<rparr>)" (is "_ = handle_buttons _ _ ?s1")
    using handle_one [of xr ?s0 "act(0 := 0 < samp_pressure samp \<and> hit xr samp = Some 0)" yr 1 "[2]" samp] assms(1) 0(1)
    by (auto simp del: handle_buttons.simps)
  obtain fb2 where 2: "screen xr yr fb2" "handle_buttons [2] samp ?s1 = handle_buttons [] samp
    (?s1\<lparr>t_buttons := buttons_of xr (act(0 := 0 < samp_pressure samp \<and> hit xr samp = Some 0, 1 := 0 < samp_pressure samp \<and> hit xr samp = Some 1,
            2 := 0 < samp_pressure samp \<and> hit xr samp = Some 2)), t_fb := fb2,
        t_mode := t_mode ?s1, t_quit := t_quit st \<or> (act 2 \<and> samp_pressure samp = 0)\<rparr>)"
    using handle_one [of xr ?s1 "act(0 := 0 < samp_pressure samp \<and> hit xr samp = Some 0, 1 := 0 < samp_pressure samp \<and> hit xr samp = Some 1)" yr 2 "[]" samp]
      assms(1) 1(1)
    by (auto simp del: handle_buttons.simps)
  have "buttons_of xr (act(0 := 0 < samp_pressure samp \<and> hit xr samp = Some 0, 1 := 0 < samp_pressure samp \<and> hit xr samp = Some 1,
      2 := 0 < samp_pressure samp \<and> hit xr samp = Some 2)) = buttons_of xr (\<lambda>i. 0 < samp_pressure samp \<and> hit xr samp = Some i)"
    by (simp add: buttons_of_def)
  with 2(1) show ?thesis
    unfolding 0(2) 1(2) 2(2) by (intro exI [of _ fb2]) auto
qed

subsection \<open>The program implements the machine\<close>

lemma mode_of_bits:
  "mode_of d p AND 15 = of_bool d" "mode_of d p OR PEN = mode_of d True" "mode_of d p AND NOT PEN = mode_of d False"
  "mode_of d p = 0x80000001 \<longleftrightarrow> d \<and> p" "(0::32 word) AND NOT PEN = mode_of False False" "(1::32 word) AND NOT PEN = mode_of True False" "0x80000001 OR PEN = mode_of True True"
  by (cases d; cases p; simp add: mode_of_def PEN_def)+

lemma cross_shown_hidden:
  assumes "screen xr yr (t_fb st)" "on_plane (t_x st)" "on_plane (t_y st)"
  obtains st1 where "cross_if_shown st = Inr st1" "t_s st1 = t_s st" "cross_if_shown (st1\<lparr>t_s := s'\<rparr>) = Inr (st\<lparr>t_s := s'\<rparr>)"
proof (cases "t_mode st AND 15 = 1")
  case True
  then show ?thesis using that [of st] by (simp add: cross_if_shown_def)
next
  case False
  have "fb_wf (t_fb st)" using assms(1) by (simp add: screen_def screen_wf_def)
  then obtain fb' where "put_cross (t_x st) (t_y st) CROSS (t_fb st) = Inr fb'" "put_cross (t_x st) (t_y st) CROSS fb' = Inr (t_fb st)"
    by (rule cross_twice [OF _ assms(2,3)])
  moreover have "st\<lparr>t_s := s', t_fb := t_fb st\<rparr> = st\<lparr>t_s := s'\<rparr>" by (cases st) simp
  ultimately show ?thesis using that [of "st\<lparr>t_fb := fb'\<rparr>"] False by (simp add: cross_if_shown_def)
qed

text \<open>A round without a sample.\<close>

lemma test_step_idle:
  assumes "screen xr yr (t_fb st)" "on_plane (t_x st)" "on_plane (t_y st)" "rd (t_s st) [junk] 1 = Inr (0, buf, s')"
  shows "test_step rd junk st = Inr (True, st\<lparr>t_s := s'\<rparr>)"
proof -
  obtain st1 where "cross_if_shown st = Inr st1" "t_s st1 = t_s st" "cross_if_shown (st1\<lparr>t_s := s'\<rparr>) = Inr (st\<lparr>t_s := s'\<rparr>)"
    by (rule cross_shown_hidden [OF assms(1-3)])
  with assms(4) show ?thesis by (simp add: test_step_def)
qed

lemma follow_pen_ok:
  assumes "screen xr yr (t_fb st)" "on_plane (t_x st)" "on_plane (t_y st)" "on_plane (samp_x samp)" "on_plane (samp_y samp)"
    "t_mode st = mode_of d p \<or> samp_pressure samp = 0 \<and> t_mode st = of_bool d"
  shows "\<exists>st'. follow_pen samp st = Inr st' \<and> t_mode st' = mode_of d (0 < samp_pressure samp) \<and> screen xr yr (t_fb st') \<and>
    on_plane (t_x st') \<and> on_plane (t_y st') \<and> t_quit st' = t_quit st \<and> t_buttons st' = t_buttons st \<and> t_s st' = t_s st"
proof (cases "0 < samp_pressure samp")
  case True
  have "color_ok 2" by (simp add: color_ok_def XORMODE_def)
  from screen_draws(4) [OF assms(1) this, of "t_x st" "t_y st" "samp_x samp" "samp_y samp"] assms(2-5)
  obtain fb where "line (t_x st) (t_y st) (samp_x samp) (samp_y samp) 2 (t_fb st) = Inr fb" "screen xr yr fb" by auto
  with True assms show ?thesis by (auto simp: follow_pen_def mode_of_bits)
next
  case False
  then have z: "samp_pressure samp = 0" by (metis word_gt_0)
  have "of_bool d AND NOT PEN = mode_of d False" by (cases d) (simp_all add: mode_of_def PEN_def)
  with z assms show ?thesis by (auto simp: follow_pen_def mode_of_bits)
qed

lemma test_step_sample:
  assumes "uint xr \<le> 32767" "implements xr yr u st" "rd (t_s st) [junk] 1 = Inr (1, samp # buf, s')"
    "on_plane (samp_x samp)" "on_plane (samp_y samp)" "ui_step (hit xr samp) (0 < samp_pressure samp) u = (quit, u')"
  shows "\<exists>st'. test_step rd junk st = Inr (\<not> quit, st') \<and> t_s st' = s' \<and> (\<not> quit \<longrightarrow> implements xr yr u' st')"
proof -
  note imp = assms(2) [unfolded implements_def]
  let ?p = "0 < samp_pressure samp" and ?act = "\<lambda>i. ui_btn u = Some i"
  obtain st1 where cross: "cross_if_shown st = Inr st1" "t_s st1 = t_s st" "cross_if_shown (st1\<lparr>t_s := s'\<rparr>) = Inr (st\<lparr>t_s := s'\<rparr>)"
    using cross_shown_hidden [of xr yr st] imp by metis
  obtain fb where fb: "screen xr yr fb" "handle_buttons [0, 1, 2] samp (st\<lparr>t_s := s'\<rparr>) =
      Inr (st\<lparr>t_s := s', t_buttons := buttons_of xr (\<lambda>i. ?p \<and> hit xr samp = Some i), t_fb := fb,
        t_mode := (if samp_pressure samp \<noteq> 0 then t_mode st else if ?act 1 then 1 else if ?act 0 then 0 else t_mode st),
        t_quit := t_quit st \<or> (?act 2 \<and> samp_pressure samp = 0)\<rparr>)" (is "_ = Inr ?st3")
    using handle_three [OF assms(1), of "st\<lparr>t_s := s'\<rparr>" ?act yr samp] imp by auto
  have pos: "?p \<longleftrightarrow> samp_pressure samp \<noteq> 0" by (simp add: word_gt_0)
  have mode: "t_mode ?st3 = mode_of (ui_draw u') (ui_down u) \<or> samp_pressure samp = 0 \<and> t_mode ?st3 = of_bool (ui_draw u')"
    using assms(6) imp by (auto simp: ui_step_def pos split: if_splits)
  obtain st' where st': "follow_pen samp ?st3 = Inr st'" "t_mode st' = mode_of (ui_draw u') ?p" "screen xr yr (t_fb st')"
    "on_plane (t_x st')" "on_plane (t_y st')" "t_quit st' = t_quit ?st3" "t_buttons st' = t_buttons ?st3" "t_s st' = t_s ?st3"
    using follow_pen_ok [OF _ _ _ assms(4,5) mode, of xr yr] fb(1) imp by auto
  have "test_step rd junk st = Inr (\<not> t_quit st', st')"
    using cross assms(3) fb(2) st'(1) by (simp add: test_step_def del: handle_buttons.simps)
  moreover have "t_quit st' = quit" using st'(6) imp assms(6) by (auto simp: ui_step_def pos split: if_splits)
  moreover have "t_buttons st' = buttons_of xr (\<lambda>i. ui_btn u' = Some i)" "ui_down u' = ?p"
    using st'(7) assms(6) by (auto simp: ui_step_def split: if_splits)
  ultimately show ?thesis using st' by (auto simp: implements_def)
qed

lemma setcolor_screen:
  assumes "screen xr yr fb" "unat i < 256"
  shows "\<exists>fb'. setcolor i v fb = Inr fb' \<and> screen xr yr fb'"
proof -
  have "length (colormap fb) = 256" using assms(1) by (simp add: screen_def screen_wf_def fb_wf_def)
  with assms show ?thesis by (auto simp: setcolor_def Let_def screen_def screen_wf_def fb_wf_def)
qed

definition ui_start :: ui where
  "ui_start = \<lparr>ui_draw = False, ui_down = False, ui_btn = None\<rparr>"

lemma test_start_implements:
  assumes "screen xr yr fb" "uint xr \<le> 32767" "uint yr \<le> 32767"
  shows "\<exists>st. test_start fb s = Inr st \<and> implements xr yr ui_start st \<and> t_s st = s"
proof -
  obtain fb1 where fb1: "seqr (map (\<lambda>i. setcolor (of_nat i) (test_palette ! i)) [0 ..< length test_palette]) fb = Inr fb1" "screen xr yr fb1"
    using seqr_preserves [of "map (\<lambda>i. setcolor (of_nat i) (test_palette ! i)) [0 ..< length test_palette]" "screen xr yr" fb] assms(1)
    by (force simp: test_palette_def intro!: setcolor_screen)
  have x: "xres fb1 = xr" "yres fb1 = yr" using fb1(2) by (simp_all add: screen_def)
  have bs: "init_buttons xr = buttons_of xr (\<lambda>i. ui_btn ui_start = Some i)"
    by (simp add: buttons_of_def init_buttons_eq [OF assms(2)] ui_start_def)
  obtain fb2 where fb2: "refresh_screen (init_buttons xr) fb1 = Inr fb2" "screen xr yr fb2"
    using refresh_screen_ok [OF buttons_of_ok [OF assms(2)] fb1(2)] unfolding bs by blast
  have half: "on_plane (sint (v div 2))" if "uint v \<le> 32767" for v :: "32 word"
  proof -
    have "uint (v div 2) = uint v div 2" by (simp add: uint_div)
    then have "sint (v div 2) = uint v div 2" using that by (subst sint_word_small) auto
    moreover have "0 \<le> uint v" by simp
    moreover have "-1 \<le> d" "d \<le> 32767" if "0 \<le> w" "w \<le> 32767" "2 * d \<le> w" "w < 2 * d + 2" for w d :: int using that by linarith+
    ultimately show ?thesis using that div_bounds [of 2 "uint v"] by (fastforce simp: on_plane_def)
  qed
  have "mode_of False False = 0" by (simp add: mode_of_def)
  with half [OF assms(2)] half [OF assms(3)] fb1 fb2 bs x show ?thesis
    by (auto simp: test_start_def Let_def implements_def ui_start_def simp del: seqr.simps)
qed

text \<open>The machine on a sequence of samples; it must not quit before the last one.\<close>

fun ui_run :: "32 word \<Rightarrow> ts_sample list \<Rightarrow> ui \<Rightarrow> bool option" where
  "ui_run xr [] u = Some False"
| "ui_run xr (samp # samps) u =
     (case ui_step (hit xr samp) (0 < samp_pressure samp) u of
        (True, u') \<Rightarrow> if samps = [] then Some True else None
      | (False, u') \<Rightarrow> ui_run xr samps u')"

lemma test_loop_run:
  assumes "uint xr \<le> 32767" "implements xr yr u st" "yields rd (t_s st) samps s'" "\<forall>samp \<in> set samps. on_plane (samp_x samp) \<and> on_plane (samp_y samp)"
    "ui_run xr samps u = Some quit"
  shows "if quit then \<exists>st'. test_loop (length samps) rd junk st = Some (Inr st') \<and> t_s st' = s'
    else test_loop (length samps) rd junk st = None"
  using assms(2-5)
proof (induction samps arbitrary: u st)
  case (Cons samp samps)
  obtain s1 where s1: "rd (t_s st) [junk] 1 = Inr (1, [samp], s1)" "yields rd s1 samps s'"
    using Cons.prems(2) by (auto elim: yields_ConsE)
  obtain b u' where u': "ui_step (hit xr samp) (0 < samp_pressure samp) u = (b, u')" by fastforce
  obtain st' where st': "test_step rd junk st = Inr (\<not> b, st')" "t_s st' = s1" "\<not> b \<Longrightarrow> implements xr yr u' st'"
    using test_step_sample [of xr yr u st rd junk samp "[]" s1 b u', OF assms(1) Cons.prems(1) s1(1) _ _ u'] Cons.prems(3) by auto
  show ?case
  proof (cases b)
    case True
    with Cons.prems(4) u' have "samps = []" "quit" by (auto split: if_splits)
    with True st' s1(2) show ?thesis by (auto elim: yields.cases)
  next
    case False
    with Cons.IH [of u' st'] st' s1 Cons.prems u' show ?thesis by auto
  qed
qed simp

subsection \<open>Properties\<close>



end
