(* ===== verification/HidGadget.thy ===== *)
theory HidGadget
  imports CString
begin

unbundle bit_operations_syntax

text \<open>
  The USB gadget program src/hid_gadget_test/main.c: lines of text from the standard input
  become HID reports of a keyboard, a mouse or a joystick. A report is the array of eight bytes
  of \<open>main\<close>; a store outside of it is a fault. The loop of \<open>main\<close> runs on a list of what
  \<open>select\<close> and \<open>read\<close> answer.
\<close>

type_synonym options = "(string \<times> 8 word) list"
type_synonym report = "8 word list"

definition kmod :: options where
  "kmod =
     [(''--left-ctrl'', 0x01), (''--right-ctrl'', 0x10), (''--left-shift'', 0x02), (''--right-shift'', 0x20),
      (''--left-alt'', 0x04), (''--right-alt'', 0x40), (''--left-meta'', 0x08), (''--right-meta'', 0x80)]"

definition kval :: options where
  "kval =
     [(''--return'', 0x28), (''--esc'', 0x29), (''--bckspc'', 0x2a), (''--tab'', 0x2b), (''--spacebar'', 0x2c),
      (''--caps-lock'', 0x39), (''--f1'', 0x3a), (''--f2'', 0x3b), (''--f3'', 0x3c), (''--f4'', 0x3d), (''--f5'', 0x3e),
      (''--f6'', 0x3f), (''--f7'', 0x40), (''--f8'', 0x41), (''--f9'', 0x42), (''--f10'', 0x43), (''--f11'', 0x44),
      (''--f12'', 0x45), (''--insert'', 0x49), (''--home'', 0x4a), (''--pageup'', 0x4b), (''--del'', 0x4c), (''--end'', 0x4d),
      (''--pagedown'', 0x4e), (''--right'', 0x4f), (''--left'', 0x50), (''--down'', 0x51), (''--kp-enter'', 0x58),
      (''--up'', 0x52), (''--num-lock'', 0x53)]"

definition mmod :: options where
  "mmod = [(''--b1'', 0x01), (''--b2'', 0x02), (''--b3'', 0x04)]"

definition jmod :: options where
  "jmod =
     [(''--b1'', 0x10), (''--b2'', 0x20), (''--b3'', 0x40), (''--b4'', 0x80), (''--hat1'', 0x00), (''--hat2'', 0x01),
      (''--hat3'', 0x02), (''--hat4'', 0x03), (''--hatneutral'', 0x04)]"

text \<open>\<open>tok[0] - ('a' - 0x04)\<close> in a byte.\<close>

definition letter_code :: "char \<Rightarrow> 8 word" where
  "letter_code c = word_of_int (of_char c - (97 - 4))"

text \<open>
  The loops run over the tokens \<open>strtok\<close> gives, which are not empty. They return the number
  of bytes to send, or -1 for \<open>--quit\<close>, the report and \<open>hold\<close>.
\<close>

fun keyboard_loop :: "string list \<Rightarrow> report \<Rightarrow> nat \<Rightarrow> bool \<Rightarrow> fault + (int \<times> report \<times> bool)" where
  "keyboard_loop [] r key hold = Inr (8, r, hold)"
| "keyboard_loop (tok # toks) r key hold =
     (if tok = ''--quit'' then Inr (-1, r, hold)
      else if tok = ''--hold'' then keyboard_loop toks r key True
      else
        (case (if key < 6 then map_of kval tok else None) of
           Some v \<Rightarrow>
             (case arr_put (2 + key) v r of Inl e \<Rightarrow> Inl e | Inr r' \<Rightarrow> keyboard_loop toks r' (key + 1) hold)
         | None \<Rightarrow>
             if key < 6 \<and> tok \<noteq> [] \<and> islower_c (hd tok) then
               (case arr_put (2 + key) (letter_code (hd tok)) r of Inl e \<Rightarrow> Inl e | Inr r' \<Rightarrow> keyboard_loop toks r' (key + 1) hold)
             else
               (case map_of kmod tok of
                  Some v \<Rightarrow> (case arr_put 0 (r ! 0 OR v) r of Inl e \<Rightarrow> Inl e | Inr r' \<Rightarrow> keyboard_loop toks r' key hold)
                | None \<Rightarrow> keyboard_loop toks r key hold)))"

definition keyboard_fill_report :: "report \<Rightarrow> string \<Rightarrow> bool \<Rightarrow> fault + (int \<times> report \<times> bool)" where
  "keyboard_fill_report r buf hold = keyboard_loop (strtok_all '' '' [] buf) r 0 hold"

text \<open>\<open>tok[0] == '-' && tok[1] == '-'\<close>\<close>

fun dashes :: "string \<Rightarrow> bool" where
  "dashes (a # b # _) \<longleftrightarrow> a = CHR ''-'' \<and> b = CHR ''-''"
| "dashes _ \<longleftrightarrow> False"

text \<open>
  A number goes to the place \<open>i\<close>. When it is out of range the code decrements its counter
  behind the increment, and clears the place the counter then points to, which is the next one.
\<close>

definition put_number :: "nat \<Rightarrow> string \<Rightarrow> report \<Rightarrow> fault + (nat \<times> report)" where
  "put_number i tok r =
     (case strtol0 tok of (v, range_error) \<Rightarrow>
        case arr_put i (word_of_int v) r of
          Inl e \<Rightarrow> Inl e
        | Inr r1 \<Rightarrow>
            if range_error then
              (case arr_put (i + 1) 0 r1 of Inl e \<Rightarrow> Inl e | Inr r2 \<Rightarrow> Inr (i, r2))
            else Inr (i + 1, r1))"

fun mouse_loop :: "string list \<Rightarrow> report \<Rightarrow> nat \<Rightarrow> bool \<Rightarrow> fault + (int \<times> report \<times> bool)" where
  "mouse_loop [] r mvt hold = Inr (3, r, hold)"
| "mouse_loop (tok # toks) r mvt hold =
     (if tok = ''--quit'' then Inr (-1, r, hold)
      else if tok = ''--hold'' then mouse_loop toks r mvt True
      else
        (case map_of mmod tok of
           Some v \<Rightarrow> (case arr_put 0 (r ! 0 OR v) r of Inl e \<Rightarrow> Inl e | Inr r' \<Rightarrow> mouse_loop toks r' mvt hold)
         | None \<Rightarrow>
             if \<not> dashes tok \<and> mvt < 2 then
               (case put_number (1 + mvt) tok r of Inl e \<Rightarrow> Inl e | Inr (i, r') \<Rightarrow> mouse_loop toks r' (i - 1) hold)
             else mouse_loop toks r mvt hold))"

definition mouse_fill_report :: "report \<Rightarrow> string \<Rightarrow> bool \<Rightarrow> fault + (int \<times> report \<times> bool)" where
  "mouse_fill_report r buf hold = mouse_loop (strtok_all '' '' [] buf) r 0 hold"

fun joystick_loop :: "string list \<Rightarrow> report \<Rightarrow> nat \<Rightarrow> fault + (int \<times> report)" where
  "joystick_loop [] r mvt = Inr (4, r)"
| "joystick_loop (tok # toks) r mvt =
     (if tok = ''--quit'' then Inr (-1, r)
      else
        (case map_of jmod tok of
           Some v \<Rightarrow> (case arr_put 3 ((r ! 3 AND 0xF0) OR v) r of Inl e \<Rightarrow> Inl e | Inr r' \<Rightarrow> joystick_loop toks r' mvt)
         | None \<Rightarrow>
             if \<not> dashes tok \<and> mvt < 3 then
               (case put_number mvt tok r of Inl e \<Rightarrow> Inl e | Inr (i, r') \<Rightarrow> joystick_loop toks r' i)
             else joystick_loop toks r mvt))"

definition joystick_fill_report :: "report \<Rightarrow> string \<Rightarrow> bool \<Rightarrow> fault + (int \<times> report \<times> bool)" where
  "joystick_fill_report r buf hold =
     (case arr_put 3 0x04 r of
        Inl e \<Rightarrow> Inl e
      | Inr r1 \<Rightarrow>
          (case joystick_loop (strtok_all '' '' [] buf) r1 0 of Inl e \<Rightarrow> Inl e | Inr (n, r2) \<Rightarrow> Inr (n, r2, True)))"

subsection \<open>The main loop\<close>

text \<open>
  What one round of the loop meets: \<open>select\<close> interrupted or failed, or the bytes read from
  the device (which are only printed) and from the standard input; \<open>None\<close> is a \<open>read\<close> that
  failed, a missing \<open>Stdin\<close> a descriptor that is not ready.
\<close>

datatype hid_input = Interrupted | SelectError | NotReady | Stdin "string option"

text \<open>\<open>buf[cmd_len - 1] = '\0'\<close>: the text the fillers get.\<close>

definition command_text :: "string \<Rightarrow> string" where
  "command_text bytes = takeWhile (\<lambda>c. c \<noteq> CHR 0x00) (butlast bytes)"

definition fill_report :: "char \<Rightarrow> report \<Rightarrow> string \<Rightarrow> bool \<Rightarrow> fault + (int \<times> report \<times> bool)" where
  "fill_report kind =
     (if kind = CHR ''k'' then keyboard_fill_report else if kind = CHR ''m'' then mouse_fill_report else joystick_fill_report)"

text \<open>
  The loop returns the status of \<open>main\<close> and the reports written; \<open>write_ok n\<close> says whether the
  \<open>n\<close>th \<open>write\<close> takes all bytes. \<open>None\<close> means that the inputs ran out and the program waits.
\<close>

fun hid_loop :: "char \<Rightarrow> (nat \<Rightarrow> bool) \<Rightarrow> report list \<Rightarrow> hid_input list \<Rightarrow> (fault + (int \<times> report list)) option" where
  "hid_loop kind write_ok sent [] = None"
| "hid_loop kind write_ok sent (Interrupted # ins) = hid_loop kind write_ok sent ins"
| "hid_loop kind write_ok sent (SelectError # ins) = Some (Inr (4, sent))"
| "hid_loop kind write_ok sent (NotReady # ins) = hid_loop kind write_ok sent ins"
| "hid_loop kind write_ok sent (Stdin None # ins) = Some (Inl OutOfBounds)"
| "hid_loop kind write_ok sent (Stdin (Some bytes) # ins) =
     (if bytes = [] then Some (Inr (0, sent))
      else
        (case fill_report kind (replicate 8 0) (command_text bytes) False of
           Inl e \<Rightarrow> Some (Inl e)
         | Inr (to_send, r, hold) \<Rightarrow>
             if to_send = -1 then Some (Inr (0, sent))
             else if \<not> write_ok (length sent) then Some (Inr (5, sent))
             else
               (let sent1 = sent @ [take (nat to_send) r] in
                if hold then hid_loop kind write_ok sent1 ins
                else if \<not> write_ok (length sent1) then Some (Inr (6, sent1))
                else hid_loop kind write_ok (sent1 @ [take (nat to_send) (replicate 8 0)]) ins)))"

definition hid_main :: "string list \<Rightarrow> int \<Rightarrow> (nat \<Rightarrow> bool) \<Rightarrow> hid_input list \<Rightarrow> (fault + (int \<times> report list)) option" where
  "hid_main args fd write_ok ins =
     (if length args < 3 then Some (Inr (1, []))
      else
        (let kind = (case args ! 2 of [] \<Rightarrow> CHR 0x00 | c # _ \<Rightarrow> c) in
         if kind \<noteq> CHR ''k'' \<and> kind \<noteq> CHR ''m'' \<and> kind \<noteq> CHR ''j'' then Some (Inr (2, []))
         else if fd = -1 then Some (Inr (3, []))
         else hid_loop kind write_ok [] ins))"

subsection \<open>The reports\<close>

text \<open>What a keyboard token stands for: a key or a modifier; the tables do not overlap.\<close>

definition key_code :: "string \<Rightarrow> 8 word option" where
  "key_code tok =
     (case map_of kval tok of
        Some v \<Rightarrow> Some v
      | None \<Rightarrow> if tok \<noteq> [] \<and> islower_c (hd tok) then Some (letter_code (hd tok)) else None)"

definition modifier :: "string \<Rightarrow> 8 word" where
  "modifier tok = (case map_of kmod tok of Some v \<Rightarrow> v | None \<Rightarrow> 0)"

definition key_codes :: "string list \<Rightarrow> 8 word list" where
  "key_codes toks = List.map_filter key_code toks"

definition modifiers :: "string list \<Rightarrow> 8 word" where
  "modifiers toks = fold (\<lambda>tok m. m OR modifier tok) toks 0"

text \<open>The boot keyboard report: the modifiers, a reserved byte and six key codes.\<close>

definition boot_report :: "8 word \<Rightarrow> 8 word list \<Rightarrow> report" where
  "boot_report m ks = m # 0 # take 6 ks @ replicate (6 - length ks) 0"

lemma boot_report_length [simp]: "length (boot_report m ks) = 8"
  by (simp add: boot_report_def)

lemma boot_report_empty: "boot_report 0 [] = replicate 8 0"
  by (simp add: boot_report_def numeral_eq_Suc)

lemma boot_report_modifier: "(boot_report m ks)[0 := x] = boot_report x ks" "boot_report m ks ! 0 = m"
  by (simp_all add: boot_report_def)

lemma boot_report_key:
  assumes "length ks < 6"
  shows "(boot_report m ks)[Suc (Suc (length ks)) := v] = boot_report m (ks @ [v])"
proof -
  obtain k where "6 - length ks = Suc k"
    using assms by (metis Suc_diff_Suc)
  thus ?thesis
    using assms by (simp add: boot_report_def list_update_append)
qed

lemma boot_report_full:
  assumes "6 \<le> length ks"
  shows "boot_report m (ks @ [v]) = boot_report m ks"
  using assms by (simp add: boot_report_def)

lemma kmod_dash:
  assumes "map_of kmod tok = Some v"
  shows "\<exists>t. tok = CHR ''-'' # t"
  using assms by (auto simp: kmod_def split: if_splits)

lemma kval_dash:
  assumes "map_of kval tok = Some v"
  shows "\<exists>t. tok = CHR ''-'' # t"
  using map_of_SomeD [OF assms] by (auto simp: kval_def)

lemma kmod_kval:
  assumes "map_of kmod tok = Some v"
  shows "map_of kval tok = None"
proof -
  have "list_all (\<lambda>t. map_of kval t = None) (map fst kmod)"
    by code_simp
  moreover have "tok \<in> set (map fst kmod)"
    using map_of_SomeD [OF assms] by force
  ultimately show ?thesis
    unfolding list_all_iff by blast
qed

lemma key_code_modifier:
  assumes "key_code tok = Some v"
  shows "map_of kmod tok = None"
proof (cases "map_of kmod tok")
  case (Some w)
  from kmod_dash [OF Some] kmod_kval [OF Some] assms show ?thesis
    by (auto simp: key_code_def islower_c_def)
qed simp

lemma hold_plain [simp]: "key_code ''--hold'' = None" "modifier ''--hold'' = 0"
  by (simp_all add: key_code_def modifier_def kval_def kmod_def islower_c_def)

lemma keyboard_loop_spec:
  assumes "''--quit'' \<notin> set toks" and "key = min 6 (length ks)"
  shows "keyboard_loop toks (boot_report m ks) key hold =
    Inr (8, boot_report (fold (\<lambda>tok m. m OR modifier tok) toks m) (ks @ key_codes toks), hold \<or> ''--hold'' \<in> set toks)"
  using assms
proof (induction toks arbitrary: m ks key hold)
  case Nil
  show ?case by (simp add: key_codes_def map_filter_simps)
next
  case (Cons tok toks)
  have noquit: "tok \<noteq> ''--quit''" "''--quit'' \<notin> set toks" using Cons.prems by auto
  note IH = Cons.IH [OF noquit(2)]
  show ?case
  proof (cases "tok = ''--hold''")
    case True
    show ?thesis
      using IH [OF Cons.prems(2)] by (simp add: True key_codes_def map_filter_simps)
  next
    case nohold: False
    show ?thesis
    proof (cases "key_code tok")
      case None
      hence nokey: "map_of kval tok = None" "\<not> (tok \<noteq> [] \<and> islower_c (hd tok))"
        by (auto simp: key_code_def split: option.splits if_splits)
      have "keyboard_loop (tok # toks) (boot_report m ks) key hold = keyboard_loop toks (boot_report (m OR modifier tok) ks) key hold"
        using nokey noquit nohold by (auto simp: modifier_def boot_report_modifier split: option.splits)
      thus ?thesis
        using None nohold IH [OF Cons.prems(2)] by (simp add: key_codes_def map_filter_simps)
    next
      case (Some v)
      have key: "(if key < 6 then map_of kval tok else None) = Some v \<or>
          key < 6 \<and> map_of kval tok = None \<and> tok \<noteq> [] \<and> islower_c (hd tok) \<and> letter_code (hd tok) = v \<or> \<not> key < 6"
        using Some by (auto simp: key_code_def split: option.splits if_splits)
      have kmod: "map_of kmod tok = None" "modifier tok = 0"
        using key_code_modifier [OF Some] by (simp_all add: modifier_def)
      show ?thesis
      proof (cases "key < 6")
        case True
        hence len: "length ks < 6" "key = length ks" using Cons.prems(2) by auto
        have "keyboard_loop (tok # toks) (boot_report m ks) key hold = keyboard_loop toks (boot_report m (ks @ [v])) (key + 1) hold"
          using key True noquit nohold len by (auto simp: boot_report_key)
        thus ?thesis
          using IH [of "key + 1" "ks @ [v]"] len Some kmod nohold
          by (simp add: key_codes_def map_filter_simps min_def)
      next
        case False
        hence len: "6 \<le> length ks" using Cons.prems(2) by auto
        have "keyboard_loop (tok # toks) (boot_report m ks) key hold = keyboard_loop toks (boot_report m (ks @ [v])) key hold"
          using False noquit nohold kmod by (simp add: boot_report_full [OF len])
        thus ?thesis
          using IH [of key "ks @ [v]"] len Cons.prems(2) Some kmod nohold
          by (simp add: key_codes_def map_filter_simps)
      qed
    qed
  qed
qed

lemma keyboard_fill_report_spec:
  assumes "''--quit'' \<notin> set (strtok_all '' '' [] buf)"
  shows "keyboard_fill_report (replicate 8 0) buf False =
    Inr (8, boot_report (modifiers (strtok_all '' '' [] buf)) (key_codes (strtok_all '' '' [] buf)), ''--hold'' \<in> set (strtok_all '' '' [] buf))"
  using keyboard_loop_spec [OF assms, of 0 "[]" 0 False]
  by (simp add: keyboard_fill_report_def boot_report_empty modifiers_def)

subsection \<open>Safety of the three fillers\<close>

text \<open>A filler that is given the eight bytes of \<open>main\<close> stays inside them and answers a length or -1.\<close>

definition filled :: "int \<Rightarrow> fault + (int \<times> report \<times> bool) \<Rightarrow> bool" where
  "filled n res = (case res of Inl _ \<Rightarrow> False | Inr (k, r, _) \<Rightarrow> length r = 8 \<and> (k = n \<or> k = -1))"

lemma put_number_inside:
  assumes "length r = 8" and "i < 7"
  obtains j r' where "put_number i tok r = Inr (j, r')" and "length r' = 8" and "j \<in> {i, i + 1}"
proof -
  obtain v e where "strtol0 tok = (v, e)" by fastforce
  thus thesis
    using assms by (cases e) (auto simp: put_number_def intro: that)
qed

lemma keyboard_loop_inside: "length r = 8 \<Longrightarrow> key \<le> 6 \<Longrightarrow> filled 8 (keyboard_loop toks r key hold)"
  by (induction toks r key hold rule: keyboard_loop.induct) (auto simp: filled_def split: option.splits)

lemma mouse_loop_inside: "length r = 8 \<Longrightarrow> mvt \<le> 2 \<Longrightarrow> filled 3 (mouse_loop toks r mvt hold)"
proof (induction toks arbitrary: r mvt hold)
  case Nil
  thus ?case by (simp add: filled_def)
next
  case (Cons tok toks)
  obtain j r' where "mvt < 2 \<Longrightarrow> put_number (1 + mvt) tok r = Inr (j, r') \<and> length r' = 8 \<and> j \<in> {1 + mvt, 1 + mvt + 1}"
    by (cases "mvt < 2", rule put_number_inside [OF Cons.prems(1), of "1 + mvt" tok]) auto
  thus ?case
    using Cons by (auto simp: filled_def split: option.splits)
qed

lemma joystick_loop_inside:
  "length r = 8 \<Longrightarrow> mvt \<le> 3 \<Longrightarrow> \<exists>k r'. joystick_loop toks r mvt = Inr (k, r') \<and> length r' = 8 \<and> (k = 4 \<or> k = -1)"
proof (induction toks arbitrary: r mvt)
  case Nil
  thus ?case by simp
next
  case (Cons tok toks)
  obtain j r' where "mvt < 3 \<Longrightarrow> put_number mvt tok r = Inr (j, r') \<and> length r' = 8 \<and> j \<in> {mvt, mvt + 1}"
    by (cases "mvt < 3", rule put_number_inside [OF Cons.prems(1), of mvt tok]) auto
  thus ?case
    using Cons by (auto simp: split: option.splits)
qed

definition report_size :: "char \<Rightarrow> int" where
  "report_size kind = (if kind = CHR ''k'' then 8 else if kind = CHR ''m'' then 3 else 4)"

text \<open>
  C23: Whatever the line of text, the fillers of the keyboard, the mouse and the joystick write
  inside the eight bytes of the report and return the size of the report of the device, or -1
  when the line asks to quit; no line makes them fault.
\<close>

theorem fill_report_safe: "filled (report_size kind) (fill_report kind (replicate 8 0) buf hold)"
proof -
  obtain k r' where "joystick_loop (strtok_all '' '' [] buf) ((replicate 8 0)[3 := 4]) 0 = Inr (k, r')" "length r' = 8" "k = 4 \<or> k = -1"
    using joystick_loop_inside [of "(replicate 8 0)[3 := 4]" 0 "strtok_all '' '' [] buf"] by auto
  hence "filled 4 (joystick_fill_report (replicate 8 0) buf hold)"
    by (simp add: filled_def joystick_fill_report_def)
  thus ?thesis
    by (simp add: fill_report_def report_size_def keyboard_fill_report_def mouse_fill_report_def keyboard_loop_inside mouse_loop_inside)
qed

subsection \<open>A session\<close>

definition tokens_of :: "string \<Rightarrow> string list" where
  "tokens_of bytes = strtok_all '' '' [] (command_text bytes)"

text \<open>What a line gives: the report of its keys, and the report that releases them unless it holds.\<close>

definition key_strokes :: "string \<Rightarrow> report list" where
  "key_strokes bytes =
     boot_report (modifiers (tokens_of bytes)) (key_codes (tokens_of bytes)) #
     (if ''--hold'' \<in> set (tokens_of bytes) then [] else [replicate 8 0])"

lemma keyboard_loop_quit:
  assumes "''--quit'' \<in> set toks" and "length r = 8" and "key \<le> 6"
  shows "\<exists>r' h. keyboard_loop toks r key hold = Inr (-1, r', h)"
  using assms
proof (induction toks arbitrary: r key hold)
  case (Cons tok toks)
  show ?case
  proof (cases "tok = ''--quit''")
    case False
    hence IH: "\<And>r key hold. length r = 8 \<Longrightarrow> key \<le> 6 \<Longrightarrow> \<exists>r' h. keyboard_loop toks r key hold = Inr (-1, r', h)"
      using Cons by simp
    show ?thesis
      using False Cons.prems(2,3) by (simp add: IH split: option.split)
  qed simp
qed simp

lemma hid_loop_quit:
  assumes "bytes = [] \<or> ''--quit'' \<in> set (tokens_of bytes)"
  shows "hid_loop CHR ''k'' write_ok sent (Stdin (Some bytes) # ins) = Some (Inr (0, sent))"
proof (cases "bytes = []")
  case False
  then obtain r' h where "keyboard_loop (tokens_of bytes) (replicate 8 0) 0 False = Inr (-1, r', h)"
    using assms keyboard_loop_quit [of "tokens_of bytes" "replicate 8 0" 0 False] by auto
  thus ?thesis
    using False by (simp add: fill_report_def keyboard_fill_report_def tokens_of_def)
qed simp

lemma hid_loop_line:
  assumes "bytes \<noteq> []" and "''--quit'' \<notin> set (tokens_of bytes)"
  shows "hid_loop CHR ''k'' (\<lambda>_. True) sent (Stdin (Some bytes) # ins) =
    hid_loop CHR ''k'' (\<lambda>_. True) (sent @ key_strokes bytes) ins"
  using assms
  by (simp add: fill_report_def keyboard_fill_report_spec tokens_of_def key_strokes_def Let_def)

lemma hid_loop_session:
  assumes "\<forall>bytes \<in> set lines. bytes \<noteq> [] \<and> ''--quit'' \<notin> set (tokens_of bytes)"
    and "final = [] \<or> ''--quit'' \<in> set (tokens_of final)"
  shows "hid_loop CHR ''k'' (\<lambda>_. True) sent (map (\<lambda>bytes. Stdin (Some bytes)) lines @ Stdin (Some final) # ins) =
    Some (Inr (0, sent @ concat (map key_strokes lines)))"
  using assms(1)
  by (induction lines arbitrary: sent) (simp_all add: hid_loop_line hid_loop_quit [OF assms(2)] del: hid_loop.simps)

text \<open>
  C22: The keyboard session end to end. While the device takes every report, each line of the
  standard input gives the boot report with the union of its modifiers and its first six keys in
  order, followed by the empty report that releases them unless the line holds; the end of the
  input, or a line with \<open>--quit\<close>, ends the program with status 0 and with nothing else sent.
\<close>

theorem keyboard_session:
  assumes "2 < length args" and "args ! 2 = CHR ''k'' # rest" and "fd \<noteq> -1"
    and "\<forall>bytes \<in> set lines. bytes \<noteq> [] \<and> ''--quit'' \<notin> set (tokens_of bytes)"
    and "final = [] \<or> ''--quit'' \<in> set (tokens_of final)"
  shows "hid_main args fd (\<lambda>_. True) (map (\<lambda>bytes. Stdin (Some bytes)) lines @ Stdin (Some final) # ins) =
    Some (Inr (0, concat (map key_strokes lines)))"
  using assms hid_loop_session [OF assms(4,5), of "[]"] by (simp add: hid_main_def)

theorem keyboard_session_witness:
  "hid_main [''hid'', ''/dev/hidg0'', ''keyboard''] 3 (\<lambda>_. True)
     [Stdin (Some ''--left-shift a b --return\<newline>''), Stdin (Some ''--hold c\<newline>''), Stdin (Some ''d --quit\<newline>''), NotReady] =
   Some (Inr (0, [[2, 0, 4, 5, 0x28, 0, 0, 0], [0, 0, 0, 0, 0, 0, 0, 0], [0, 0, 6, 0, 0, 0, 0, 0]]))"
proof -
  let ?l1 = "''--left-shift a b --return\<newline>''" and ?l2 = "''--hold c\<newline>''" and ?q = "''d --quit\<newline>''"
  have toks: "tokens_of ?l1 = [''--left-shift'', ''a'', ''b'', ''--return'']" "tokens_of ?l2 = [''--hold'', ''c'']"
    "tokens_of ?q = [''d'', ''--quit'']"
    by (simp_all add: tokens_of_def command_text_def)
  have strokes: "key_strokes ?l1 = [[2, 0, 4, 5, 0x28, 0, 0, 0], replicate 8 0]" "key_strokes ?l2 = [[0, 0, 6, 0, 0, 0, 0, 0]]"
    unfolding key_strokes_def toks by code_simp+
  show ?thesis
    using keyboard_session [of "[''hid'', ''/dev/hidg0'', ''keyboard'']" "''eyboard''" 3 "[?l1, ?l2]" ?q "[NotReady]"]
    by (simp add: toks strokes numeral_eq_Suc)
qed

subsection \<open>The joystick\<close>

lemma low_nibble: "v AND 0x0F = 0 \<Longrightarrow> ((x AND 0xF0) OR v) AND 0x0F = (0 :: 8 word)"
  by (simp add: bit.conj_disj_distrib2 and.assoc)

text \<open>
  A button of the joystick loses the position of the hat: the mask keeps the high half of
  the byte, so whatever the tokens before, after a button token the low half is 0, the position
  of \<open>--hat1\<close>, and neither the position set before nor the neutral one the function starts with.
\<close>

theorem joystick_button_loses_hat:
  assumes "''--quit'' \<notin> set toks" and "button \<in> {''--b1'', ''--b2'', ''--b3'', ''--b4''}" and "length r = 8" and "mvt \<le> 3"
  shows "\<exists>r'. joystick_loop (toks @ [button]) r mvt = Inr (4, r') \<and> length r' = 8 \<and> r' ! 3 AND 0x0F = 0"
  using assms(1,3,4)
proof (induction toks arbitrary: r mvt)
  case Nil
  thus ?case
    using assms(2) by (auto simp: jmod_def low_nibble)
next
  case (Cons tok toks)
  obtain j r' where "mvt < 3 \<Longrightarrow> put_number mvt tok r = Inr (j, r') \<and> length r' = 8 \<and> j \<in> {mvt, mvt + 1}"
    by (cases "mvt < 3", rule put_number_inside [OF Cons.prems(2), of mvt tok]) auto
  thus ?case
    using Cons by (auto simp: split: option.splits)
qed

theorem joystick_button_loses_hat_witness:
  "\<exists>r'. joystick_loop [''5'', ''--hat3'', ''--b1''] [0, 0, 0, 4, 0, 0, 0, 0] 0 = Inr (4, r') \<and> length r' = 8 \<and> r' ! 3 AND 0x0F = 0"
  using joystick_button_loses_hat [of "[''5'', ''--hat3'']" "''--b1''" "[0, 0, 0, 4, 0, 0, 0, 0]" 0] by (simp del: joystick_loop.simps)

end
