(* ===== verification/IniFile.thy ===== *)
theory IniFile
  imports CString
begin

text \<open>
  The line reader that src/mtdnand/mn_writer/src/ProcessIni.c and ProcessOptionalIni.c each have
  a copy of, on buffers of their own. It keeps a block of 512 bytes of the file between the calls
  and writes the line into an array of the caller; a store behind that array is a fault. A
  \<open>FILE\<close> is the list of its bytes that were not read yet.

  The lemmas show that the calls hand out the lines of the file one after the other, with two
  exceptions that the source makes: carriage returns are dropped everywhere, and a last line
  without an end of line is lost when the file fills its blocks exactly. The interface between
  the reader and the two parsers is the locale \<open>ini_parser\<close>: a parser that handles one line
  at a time computes the fold of its step over the lines.
\<close>

definition INI_BUF_SIZE :: nat where "INI_BUF_SIZE = 512"

record ini_buffer =
  iniBuf :: string
  buffer_current :: nat
  buffer_end :: nat

definition ini_buffer_init :: ini_buffer where
  "ini_buffer_init = \<lparr>iniBuf = replicate INI_BUF_SIZE CHR 0x00, buffer_current = 0, buffer_end = 0\<rparr>"

text \<open>The loop over the bytes in the buffer; the flag says that it met the end of a line.\<close>

function scan_line :: "ini_buffer \<Rightarrow> string \<Rightarrow> nat \<Rightarrow> fault + (bool \<times> ini_buffer \<times> string \<times> nat)" where
  "scan_line b cmd i =
     (if buffer_current b < buffer_end b then
        (let c = iniBuf b ! buffer_current b; b' = b\<lparr>buffer_current := buffer_current b + 1\<rparr> in
         if c = CHR 0x0D then scan_line b' cmd i
         else if c = CHR 0x0A then
           (case arr_put i CHR 0x00 cmd of Inl e \<Rightarrow> Inl e | Inr cmd' \<Rightarrow> Inr (True, b', cmd', i))
         else
           (case arr_put i c cmd of Inl e \<Rightarrow> Inl e | Inr cmd' \<Rightarrow> scan_line b' cmd' (i + 1)))
      else Inr (False, b, cmd, i))"
  by pat_completeness auto
termination
  by (relation "measure (\<lambda>(b, _). buffer_end b - buffer_current b)") auto

declare scan_line.simps [simp del]

text \<open>The bytes \<open>fread\<close> gives replace the front of the buffer.\<close>

definition refill :: "string \<Rightarrow> ini_buffer \<Rightarrow> ini_buffer" where
  "refill f b = \<lparr>iniBuf = blit 0 (take INI_BUF_SIZE f) (iniBuf b), buffer_current = 0, buffer_end = length (take INI_BUF_SIZE f)\<rparr>"

text \<open>\<open>readLine\<close> with the index \<open>i_cmd\<close>: the status, the buffer, the file and the array.\<close>

function readLine :: "ini_buffer \<Rightarrow> string \<Rightarrow> string \<Rightarrow> nat \<Rightarrow> fault + (int \<times> ini_buffer \<times> string \<times> string)" where
  "readLine b f cmd i =
     (case scan_line b cmd i of
        Inl e \<Rightarrow> Inl e
      | Inr (True, b', cmd', i') \<Rightarrow> Inr (0, b', f, cmd')
      | Inr (False, b', cmd', i') \<Rightarrow>
          if buffer_end b' < INI_BUF_SIZE \<and> 0 < buffer_end b' then
            (case arr_put i' CHR 0x00 cmd' of
               Inl e \<Rightarrow> Inl e
             | Inr cmd2 \<Rightarrow> if 0 < i' then Inr (0, b', f, cmd2) else Inr (-1, b', f, cmd2))
          else if length (take INI_BUF_SIZE f) = 0 then
            (case arr_put i' CHR 0x00 cmd' of Inl e \<Rightarrow> Inl e | Inr cmd2 \<Rightarrow> Inr (-1, b', f, cmd2))
          else readLine (refill f b') (drop INI_BUF_SIZE f) cmd' i')"
  by pat_completeness auto
termination
  by (relation "measure (\<lambda>(_, f, _). length f)") (auto simp: INI_BUF_SIZE_def)

declare readLine.simps [simp del]

text \<open>Every line handed out takes bytes off the file or the buffer: the measure of the parsers.\<close>

definition remaining :: "ini_buffer \<Rightarrow> string \<Rightarrow> nat" where
  "remaining b f = length f + (buffer_end b - buffer_current b)"

lemma scan_line_remaining:
  "scan_line b cmd i = Inr (nl, b', cmd', i') \<Longrightarrow>
   i \<le> i' \<and> remaining b' f \<le> remaining b f \<and> (nl \<or> i < i' \<longrightarrow> remaining b' f < remaining b f) \<and> (\<not> nl \<longrightarrow> buffer_end b' \<le> buffer_current b')"
proof (induction b cmd i rule: scan_line.induct)
  case (1 b cmd i)
  let ?c = "iniBuf b ! buffer_current b" and ?b = "b\<lparr>buffer_current := buffer_current b + 1\<rparr>"
  show ?case
  proof (cases "buffer_current b < buffer_end b")
    case more: True
    have less: "remaining ?b f < remaining b f" using more by (simp add: remaining_def)
    consider "?c = CHR 0x0D" | "?c = CHR 0x0A" | "?c \<noteq> CHR 0x0D" "?c \<noteq> CHR 0x0A" by blast
    thus ?thesis
    proof cases
      case c: 1
      have "scan_line ?b cmd i = Inr (nl, b', cmd', i')"
        using "1.prems" c more by (subst (asm) scan_line.simps) simp
      from "1.IH"(1) [OF more refl refl c this] less show ?thesis by auto
    next
      case c: 2
      thus ?thesis
        using "1.prems" less more by (subst (asm) scan_line.simps) (auto split: sum.splits)
    next
      case c: 3
      obtain cmd1 where put: "arr_put i ?c cmd = Inr cmd1" and step: "scan_line ?b cmd1 (i + 1) = Inr (nl, b', cmd', i')"
        using "1.prems" c more by (subst (asm) scan_line.simps) (auto split: sum.splits)
      from "1.IH"(2) [OF more refl refl c put step] less show ?thesis by auto
    qed
  next
    case False
    thus ?thesis
      using "1.prems" by (subst (asm) scan_line.simps) auto
  qed
qed

lemma readLine_remaining:
  assumes "readLine b f cmd i = Inr (status, b', f', cmd')" and "\<not> status < 0"
  shows "remaining b' f' < remaining b f \<or> 0 < i \<and> remaining b' f' \<le> remaining b f"
  using assms
proof (induction b f cmd i rule: readLine.induct)
  case (1 b f cmd i)
  obtain nl b1 cmd1 i1 where scan: "scan_line b cmd i = Inr (nl, b1, cmd1, i1)"
    using "1.prems"(1) by (subst (asm) readLine.simps) (auto split: sum.splits)
  note s = scan_line_remaining [OF scan, of f]
  show ?case
  proof (cases "nl \<or> buffer_end b1 < INI_BUF_SIZE \<and> 0 < buffer_end b1 \<or> length (take INI_BUF_SIZE f) = 0")
    case True
    thus ?thesis
      using "1.prems" scan s by (subst (asm) readLine.simps) (auto split: bool.splits sum.splits if_splits simp del: length_take)
  next
    case False
    hence nl: "nl = False" and c: "\<not> (buffer_end b1 < INI_BUF_SIZE \<and> 0 < buffer_end b1)" "length (take INI_BUF_SIZE f) \<noteq> 0"
      by auto
    have step: "readLine (refill f b1) (drop INI_BUF_SIZE f) cmd1 i1 = Inr (status, b', f', cmd')"
      using "1.prems"(1) scan nl c by (subst (asm) readLine.simps) (auto simp del: length_take)
    have "remaining (refill f b1) (drop INI_BUF_SIZE f) = remaining b1 f"
      using s nl by (simp add: remaining_def refill_def min_def INI_BUF_SIZE_def)
    thus ?thesis
      using "1.IH" [OF scan refl nl refl refl c step "1.prems"(2)] s by auto
  qed
qed

text \<open>The string in a C array of characters.\<close>

definition cstr :: "string \<Rightarrow> string" where
  "cstr a = takeWhile (\<lambda>c. c \<noteq> CHR 0x00) a"

lemma cstr_terminated: "cstr (l @ CHR 0x00 # a) = cstr l"
  by (induction l) (auto simp: cstr_def)

lemma length_cstr: "length (cstr a) \<le> length a"
  by (simp add: cstr_def length_takeWhile_le)

subsection \<open>The lines of a file\<close>

definition first_line :: "string \<Rightarrow> string" where
  "first_line u = filter (\<lambda>c. c \<noteq> CHR 0x0D) (takeWhile (\<lambda>c. c \<noteq> CHR 0x0A) u)"

definition other_lines :: "string \<Rightarrow> string" where
  "other_lines u = tl (dropWhile (\<lambda>c. c \<noteq> CHR 0x0A) u)"

lemma first_line_Nil [simp]: "first_line [] = []"
  by (simp add: first_line_def)

lemma other_lines_Cons: "other_lines (c # u) = (if c = CHR 0x0A then u else other_lines u)"
  by (simp add: other_lines_def)

lemma first_line_Cons:
  "first_line (c # u) = (if c = CHR 0x0A then [] else if c = CHR 0x0D then first_line u else c # first_line u)"
  by (simp add: first_line_def)

lemma other_lines_shorter: "CHR 0x0A \<in> set u \<Longrightarrow> length (other_lines u) < length u"
  by (induction u) (auto simp: other_lines_Cons split: if_splits)

text \<open>The lines the reader hands out; the flag says that the last block of the file is not full.\<close>

function ini_lines :: "bool \<Rightarrow> string \<Rightarrow> string list" where
  "ini_lines partial u =
     (if CHR 0x0A \<in> set u then first_line u # ini_lines partial (other_lines u)
      else if partial \<and> first_line u \<noteq> [] then [first_line u] else [])"
  by pat_completeness auto
termination
  by (relation "measure (\<lambda>(_, u). length u)") (auto simp: other_lines_shorter)

declare ini_lines.simps [simp del]

subsection \<open>One pass over the buffer\<close>

definition buffered :: "ini_buffer \<Rightarrow> string" where
  "buffered b = take (buffer_end b - buffer_current b) (drop (buffer_current b) (iniBuf b))"

lemma buffered_Cons:
  assumes "buffer_current b < buffer_end b" and "buffer_end b \<le> length (iniBuf b)"
  shows "buffered b = iniBuf b ! buffer_current b # buffered (b\<lparr>buffer_current := buffer_current b + 1\<rparr>)"
proof -
  have "drop (buffer_current b) (iniBuf b) = iniBuf b ! buffer_current b # drop (Suc (buffer_current b)) (iniBuf b)"
    using assms by (simp add: Cons_nth_drop_Suc)
  thus ?thesis
    using assms by (simp add: buffered_def take_Cons' Suc_diff_Suc)
qed

lemma buffered_Nil: "\<not> buffer_current b < buffer_end b \<Longrightarrow> buffered b = []"
  by (simp add: buffered_def)

lemma scan_line_stops:
  assumes "CHR 0x0A \<in> set (buffered b)" and "buffer_end b \<le> length (iniBuf b)" and "i + length (first_line (buffered b)) < length cmd"
  shows "\<exists>k j. scan_line b cmd i = Inr (True, b\<lparr>buffer_current := k\<rparr>, blit i (first_line (buffered b) @ [CHR 0x00]) cmd, j)
    \<and> k \<le> buffer_end b \<and> buffered (b\<lparr>buffer_current := k\<rparr>) = other_lines (buffered b)"
  using assms
proof (induction b cmd i rule: scan_line.induct)
  case (1 b cmd i)
  hence more: "buffer_current b < buffer_end b" using buffered_Nil by fastforce
  let ?c = "iniBuf b ! buffer_current b" and ?b = "b\<lparr>buffer_current := buffer_current b + 1\<rparr>"
  note eq = buffered_Cons [OF more 1(4)]
  consider "?c = CHR 0x0D" | "?c = CHR 0x0A" | "?c \<noteq> CHR 0x0D" "?c \<noteq> CHR 0x0A" by blast
  thus ?case
  proof cases
    case c: 1
    have "first_line (buffered b) = first_line (buffered ?b)" "other_lines (buffered b) = other_lines (buffered ?b)"
      by (simp_all add: eq c first_line_Cons other_lines_Cons)
    thus ?thesis
      using "1.IH"(1) [OF more refl refl] "1.prems" c by (subst scan_line.simps) (simp add: more eq)
  next
    case c: 2
    have "first_line (buffered b) = []" "other_lines (buffered b) = buffered ?b"
      by (simp_all add: eq c first_line_Cons other_lines_Cons)
    thus ?thesis
      using "1.prems" more c by (subst scan_line.simps) (auto simp: blit_single intro!: exI [of _ "buffer_current b + 1"])
  next
    case c: 3
    have line: "first_line (buffered b) = ?c # first_line (buffered ?b)" "other_lines (buffered b) = other_lines (buffered ?b)"
      using c by (simp_all add: eq first_line_Cons other_lines_Cons)
    show ?thesis
      using "1.IH"(2) [OF more refl refl c(1) c(2), of "cmd[i := ?c]"] "1.prems" c line
      by (subst scan_line.simps) (simp add: more eq blit_Cons)
  qed
qed

lemma scan_line_runs_dry:
  assumes "CHR 0x0A \<notin> set (buffered b)" and "buffer_end b \<le> length (iniBuf b)" and "i + length (first_line (buffered b)) \<le> length cmd"
    and "buffer_current b \<le> buffer_end b"
  shows "scan_line b cmd i =
    Inr (False, b\<lparr>buffer_current := buffer_end b\<rparr>, blit i (first_line (buffered b)) cmd, i + length (first_line (buffered b)))"
  using assms
proof (induction b cmd i rule: scan_line.induct)
  case (1 b cmd i)
  show ?case
  proof (cases "buffer_current b < buffer_end b")
    case more: True
    let ?c = "iniBuf b ! buffer_current b" and ?b = "b\<lparr>buffer_current := buffer_current b + 1\<rparr>"
    note eq = buffered_Cons [OF more "1.prems"(2)]
    have nl: "?c \<noteq> CHR 0x0A" using "1.prems"(1) by (auto simp: eq)
    show ?thesis
    proof (cases "?c = CHR 0x0D")
      case c: True
      have "first_line (buffered b) = first_line (buffered ?b)"
        by (simp add: eq c first_line_Cons)
      thus ?thesis
        using "1.IH"(1) [OF more refl refl] "1.prems" c more by (subst scan_line.simps) (simp add: eq)
    next
      case c: False
      have line: "first_line (buffered b) = ?c # first_line (buffered ?b)"
        using c nl by (simp add: eq first_line_Cons)
      show ?thesis
        using "1.IH"(2) [OF more refl refl c nl, of "cmd[i := ?c]"] "1.prems" c nl line more
        by (subst scan_line.simps) (simp add: eq blit_Cons)
    qed
  next
    case False
    thus ?thesis
      using "1.prems" by (subst scan_line.simps) (simp add: buffered_Nil first_line_def)
  qed
qed

subsection \<open>One line\<close>

text \<open>What the buffer and the file promise between two calls.\<close>

definition ini_wf :: "ini_buffer \<Rightarrow> string \<Rightarrow> bool" where
  "ini_wf b f \<longleftrightarrow> length (iniBuf b) = 512 \<and> buffer_current b \<le> buffer_end b \<and> buffer_end b \<le> 512 \<and>
     (0 < buffer_end b \<and> buffer_end b < 512 \<longrightarrow> f = [])"

definition unread :: "ini_buffer \<Rightarrow> string \<Rightarrow> string" where
  "unread b f = buffered b @ f"

text \<open>The last block of the file is not full.\<close>

definition partial_end :: "ini_buffer \<Rightarrow> string \<Rightarrow> bool" where
  "partial_end b f \<longleftrightarrow> (buffer_end b + length f) mod 512 \<noteq> 0"

lemma ini_wf_init: "ini_wf ini_buffer_init f" "unread ini_buffer_init f = f"
  by (simp_all add: ini_wf_def ini_buffer_init_def INI_BUF_SIZE_def unread_def buffered_def)

lemma lines_append:
  "CHR 0x0A \<in> set u \<Longrightarrow> first_line (u @ v) = first_line u" "CHR 0x0A \<in> set u \<Longrightarrow> other_lines (u @ v) = other_lines u @ v"
  "CHR 0x0A \<notin> set u \<Longrightarrow> first_line (u @ v) = first_line u @ first_line v" "CHR 0x0A \<notin> set u \<Longrightarrow> other_lines (u @ v) = other_lines v"
  by (induction u) (auto simp: first_line_Cons other_lines_Cons first_line_def)

lemma refill_wf:
  assumes "ini_wf b f" and "buffer_end b = 0 \<or> buffer_end b = 512"
  shows "ini_wf (refill f b) (drop 512 f)" and "unread (refill f b) (drop 512 f) = f"
    and "buffered (refill f b) = take 512 f" and "partial_end (refill f b) (drop 512 f) \<longleftrightarrow> partial_end b f"
proof -
  show buf: "buffered (refill f b) = take 512 f"
    by (simp add: buffered_def refill_def INI_BUF_SIZE_def min_def)
  show "unread (refill f b) (drop 512 f) = f"
    by (simp add: unread_def buf)
  show "ini_wf (refill f b) (drop 512 f)"
    using assms(1) by (auto simp: ini_wf_def refill_def INI_BUF_SIZE_def)
  show "partial_end (refill f b) (drop 512 f) \<longleftrightarrow> partial_end b f"
    using assms(2) by (auto simp: partial_end_def refill_def INI_BUF_SIZE_def min_def)
qed

text \<open>A pass that finds no end of line in the buffer: what \<open>readLine\<close> does next.\<close>

lemma readLine_dry:
  assumes "CHR 0x0A \<notin> set (buffered b)" and "ini_wf b f" and "i + length (first_line (buffered b)) < length cmd"
  shows "readLine b f cmd i =
    (let b' = b\<lparr>buffer_current := buffer_end b\<rparr>; i' = i + length (first_line (buffered b)); cmd' = blit i (first_line (buffered b)) cmd in
     if 0 < buffer_end b \<and> buffer_end b < 512 then Inr (if 0 < i' then 0 else -1, b', f, blit i (first_line (buffered b) @ [CHR 0x00]) cmd)
     else if f = [] then Inr (-1, b', f, blit i (first_line (buffered b) @ [CHR 0x00]) cmd)
     else readLine (refill f b') (drop 512 f) cmd' i')"
proof -
  have "scan_line b cmd i =
      Inr (False, b\<lparr>buffer_current := buffer_end b\<rparr>, blit i (first_line (buffered b)) cmd, i + length (first_line (buffered b)))"
    using assms by (intro scan_line_runs_dry) (auto simp: ini_wf_def)
  moreover have "(blit i (first_line (buffered b)) cmd)[i + length (first_line (buffered b)) := CHR 0x00] =
      blit i (first_line (buffered b) @ [CHR 0x00]) cmd"
    using assms(3) by (simp flip: blit_single add: blit_blit)
  moreover have "length (take INI_BUF_SIZE f) = 0 \<longleftrightarrow> f = []"
    by (auto simp: INI_BUF_SIZE_def min_def split: if_splits)
  ultimately show ?thesis
    using assms(3)
    by (cases "0 < i + length (first_line (buffered b))"; subst readLine.simps) (simp_all add: INI_BUF_SIZE_def Let_def del: length_take)
qed

lemma wf_at_end:
  assumes "ini_wf b f" and "buffer_end b = 0 \<or> buffer_end b = 512"
  shows "ini_wf (b\<lparr>buffer_current := buffer_end b\<rparr>) f" and "partial_end (b\<lparr>buffer_current := buffer_end b\<rparr>) f \<longleftrightarrow> partial_end b f"
    and "unread (b\<lparr>buffer_current := buffer_end b\<rparr>) f = f"
  using assms by (auto simp: ini_wf_def partial_end_def unread_def buffered_def)

theorem readLine_line:
  assumes "CHR 0x0A \<in> set (unread b f)" and "ini_wf b f" and "i + length (first_line (unread b f)) < length cmd"
  shows "\<exists>b' f'. readLine b f cmd i = Inr (0, b', f', blit i (first_line (unread b f) @ [CHR 0x00]) cmd)
    \<and> ini_wf b' f' \<and> unread b' f' = other_lines (unread b f) \<and> (partial_end b' f' \<longleftrightarrow> partial_end b f)"
  using assms
proof (induction "length f" arbitrary: b f cmd i rule: less_induct)
  case less
  show ?case
  proof (cases "CHR 0x0A \<in> set (buffered b)")
    case here: True
    obtain k j where "scan_line b cmd i = Inr (True, b\<lparr>buffer_current := k\<rparr>, blit i (first_line (buffered b) @ [CHR 0x00]) cmd, j)"
      and "k \<le> buffer_end b" and "buffered (b\<lparr>buffer_current := k\<rparr>) = other_lines (buffered b)"
      using scan_line_stops [OF here, of i cmd] less.prems here by (auto simp: ini_wf_def unread_def lines_append)
    thus ?thesis
      using less.prems(2) here by (subst readLine.simps) (auto simp: unread_def lines_append ini_wf_def partial_end_def)
  next
    case dry: False
    hence more: "CHR 0x0A \<in> set f" using less.prems(1) by (auto simp: unread_def)
    hence ends: "buffer_end b = 0 \<or> buffer_end b = 512" using less.prems(2) by (force simp: ini_wf_def)
    let ?b = "b\<lparr>buffer_current := buffer_end b\<rparr>" and ?l = "first_line (buffered b)"
    note wf = wf_at_end [OF less.prems(2) ends] and r = refill_wf [OF wf_at_end(1) [OF less.prems(2) ends]]
    have line: "first_line (unread b f) = ?l @ first_line f" "other_lines (unread b f) = other_lines f"
      using dry by (simp_all add: unread_def lines_append)
    have step: "readLine b f cmd i = readLine (refill f ?b) (drop 512 f) (blit i ?l cmd) (i + length ?l)"
      using readLine_dry [OF dry less.prems(2), of i cmd] less.prems(3) more ends by (auto simp: line Let_def)
    have "length (drop 512 f) < length f" using more by (cases f) auto
    from less.hyps [OF this, of "refill f ?b" "i + length ?l" "blit i ?l cmd"] show ?thesis
      using r ends more less.prems(3) wf by (simp add: step line blit_blit)
  qed
qed

theorem readLine_last:
  assumes "CHR 0x0A \<notin> set (unread b f)" and "ini_wf b f" and "i + length (first_line (unread b f)) < length cmd"
  shows "\<exists>b' f'. readLine b f cmd i =
      Inr (if partial_end b f \<and> 0 < i + length (first_line (unread b f)) then 0 else -1, b', f', blit i (first_line (unread b f) @ [CHR 0x00]) cmd)
    \<and> ini_wf b' f' \<and> unread b' f' = [] \<and> (partial_end b' f' \<longleftrightarrow> partial_end b f)"
  using assms
proof (induction "length f" arbitrary: b f cmd i rule: less_induct)
  case less
  hence dry: "CHR 0x0A \<notin> set (buffered b)" by (auto simp: unread_def)
  let ?b = "b\<lparr>buffer_current := buffer_end b\<rparr>" and ?l = "first_line (buffered b)"
  have line: "first_line (unread b f) = ?l @ first_line f"
    using dry by (simp add: unread_def lines_append)
  have len: "i + length ?l < length cmd" using less.prems(3) by (simp add: line)
  have nl: "CHR 0x0A \<notin> set f" using less.prems(1) by (simp add: unread_def)
  show ?case
  proof (cases "f = []")
    case True
    have "partial_end b f \<longleftrightarrow> 0 < buffer_end b \<and> buffer_end b < 512"
      using less.prems(2) True by (auto simp: partial_end_def ini_wf_def le_eq_less_or_eq)
    thus ?thesis
      using readLine_dry [OF dry less.prems(2) len] less.prems(2) True
      by (auto simp: Let_def line ini_wf_def partial_end_def unread_def buffered_def first_line_def)
  next
    case more: False
    hence ends: "buffer_end b = 0 \<or> buffer_end b = 512" using less.prems(2) by (force simp: ini_wf_def)
    note wf = wf_at_end [OF less.prems(2) ends] and r = refill_wf [OF wf_at_end(1) [OF less.prems(2) ends]]
    have step: "readLine b f cmd i = readLine (refill f ?b) (drop 512 f) (blit i ?l cmd) (i + length ?l)"
      using readLine_dry [OF dry less.prems(2) len] more ends by (auto simp: Let_def)
    have "length (drop 512 f) < length f" using more by (cases f) auto
    from less.hyps [OF this, of "refill f ?b" "i + length ?l" "blit i ?l cmd"] show ?thesis
      using r ends nl less.prems(3) wf by (simp add: step line blit_blit)
  qed
qed

subsection \<open>Lines that do not fit\<close>

lemma scan_line_overflow:
  assumes "length cmd < i + length (first_line (buffered b)) \<or>
      length cmd = i + length (first_line (buffered b)) \<and> CHR 0x0A \<in> set (buffered b)"
    and "buffer_end b \<le> length (iniBuf b)" and "i \<le> length cmd"
  shows "scan_line b cmd i = Inl OutOfBounds"
  using assms
proof (induction b cmd i rule: scan_line.induct)
  case (1 b cmd i)
  have more: "buffer_current b < buffer_end b"
    using "1.prems"(1,3) buffered_Nil [of b] by (cases "buffer_current b < buffer_end b") (auto simp: first_line_def)
  let ?c = "iniBuf b ! buffer_current b" and ?b = "b\<lparr>buffer_current := buffer_current b + 1\<rparr>"
  note eq = buffered_Cons [OF more "1.prems"(2)]
  consider "?c = CHR 0x0D" | "?c = CHR 0x0A" | "?c \<noteq> CHR 0x0D" "?c \<noteq> CHR 0x0A" by blast
  thus ?case
  proof cases
    case c: 1
    thus ?thesis
      using "1.IH"(1) [OF more refl refl] "1.prems" by (subst scan_line.simps) (simp add: more eq first_line_Cons)
  next
    case c: 2
    thus ?thesis
      using "1.prems" by (subst scan_line.simps) (simp add: more eq first_line_Cons arr_put_def)
  next
    case c: 3
    show ?thesis
    proof (cases "i < length cmd")
      case True
      thus ?thesis
        using "1.IH"(2) [OF more refl refl c(1) c(2), of "cmd[i := ?c]"] "1.prems" c
        by (subst scan_line.simps) (auto simp: more eq first_line_Cons)
    next
      case False
      thus ?thesis
        using c by (subst scan_line.simps) (simp add: more arr_put_def)
    qed
  qed
qed

theorem readLine_overflow:
  assumes "ini_wf b f" and "i \<le> length cmd" and "length cmd \<le> i + length (first_line (unread b f))"
  shows "readLine b f cmd i = Inl OutOfBounds"
  using assms
proof (induction "length f" arbitrary: b f cmd i rule: less_induct)
  case less
  let ?b = "b\<lparr>buffer_current := buffer_end b\<rparr>" and ?l = "first_line (buffered b)"
  have wf: "buffer_end b \<le> length (iniBuf b)" "buffer_current b \<le> buffer_end b" using less.prems(1) by (auto simp: ini_wf_def)
  show ?case
  proof (cases "CHR 0x0A \<in> set (buffered b) \<or> length cmd < i + length ?l")
    case True
    hence "scan_line b cmd i = Inl OutOfBounds"
      using less.prems(2,3) wf(1) by (intro scan_line_overflow) (auto simp: unread_def lines_append)
    thus ?thesis by (subst readLine.simps) simp
  next
    case False
    hence dry: "CHR 0x0A \<notin> set (buffered b)" and len: "i + length ?l \<le> length cmd" by auto
    have line: "first_line (unread b f) = ?l @ first_line f"
      using dry by (simp add: unread_def lines_append)
    note scan = scan_line_runs_dry [OF dry wf(1) len wf(2)]
    have full: "f = [] \<Longrightarrow> i + length ?l = length cmd"
      using less.prems(3) len by (simp add: unread_def)
    show ?thesis
    proof (cases "0 < buffer_end b \<and> buffer_end b < 512 \<or> f = []")
      case True
      hence "f = []" using less.prems(1) by (auto simp: ini_wf_def)
      thus ?thesis
        using full len by (subst readLine.simps) (auto simp: scan arr_put_def)
    next
      case more: False
      hence ends: "buffer_end b = 0 \<or> buffer_end b = 512" using less.prems(1) by (auto simp: ini_wf_def)
      have "length (drop 512 f) < length f" using more by (cases f) auto
      from less.hyps [OF this, of "refill f ?b" "i + length ?l" "blit i ?l cmd"]
      have "readLine (refill f ?b) (drop 512 f) (blit i ?l cmd) (i + length ?l) = Inl OutOfBounds"
        using refill_wf [OF wf_at_end(1) [OF less.prems(1) ends]] ends less.prems(3) len by (simp add: line)
      moreover have "length (take INI_BUF_SIZE f) \<noteq> 0" using more by (auto simp: INI_BUF_SIZE_def min_def split: if_splits)
      ultimately show ?thesis
        using ends more scan by (subst readLine.simps) (auto simp: INI_BUF_SIZE_def simp del: length_take)
    qed
  qed
qed

subsection \<open>Parsers that go line by line\<close>

text \<open>
  The contract of a parser: it calls \<open>readLine\<close> with index 0 in front of each step, passes a
  fault on, ends with status 0 when there is no more line, and otherwise handles the string in
  its array as \<open>step\<close> says and goes on.
\<close>

locale ini_parser =
  fixes parse :: "'m \<Rightarrow> ini_buffer \<Rightarrow> string \<Rightarrow> string \<Rightarrow> 'c \<Rightarrow> fault + (int \<times> ini_buffer \<times> 'c)"
    and step :: "string \<Rightarrow> 'm \<times> 'c \<Rightarrow> 'm \<times> 'c"
  assumes parse_fault: "readLine b f cmd 0 = Inl e \<Longrightarrow> parse m b f cmd c = Inl e"
    and parse_stop: "readLine b f cmd 0 = Inr (-1, b', f', cmd') \<Longrightarrow> parse m b f cmd c = Inr (0, b', c)"
    and parse_advance: "\<lbrakk>readLine b f cmd 0 = Inr (0, b', f', cmd'); length (cstr cmd') < 256\<rbrakk> \<Longrightarrow>
      parse m b f cmd c = (case step (cstr cmd') (m, c) of (m', c') \<Rightarrow> parse m' b' f' cmd' c')"
begin

theorem parses_lines:
  assumes "ini_wf b f" and "length cmd = 256" and "\<forall>l \<in> set (ini_lines True (unread b f)). length l < 256"
  shows "\<exists>b'. parse m b f cmd c = Inr (0, b', snd (fold step (map cstr (ini_lines (partial_end b f) (unread b f))) (m, c)))"
  using assms
proof (induction "length (unread b f)" arbitrary: b f cmd m c rule: less_induct)
  case less
  let ?u = "unread b f" and ?p = "partial_end b f"
  have len: "length (first_line ?u) < 256"
    using less.prems(3) by (subst (asm) ini_lines.simps) (auto split: if_splits)
  let ?cmd = "blit 0 (first_line ?u @ [CHR 0x00]) cmd"
  have cstr: "cstr ?cmd = cstr (first_line ?u)" "length (cstr ?cmd) < 256"
    using len length_cstr [of "first_line ?u"] by (simp_all add: cstr_terminated)
  have size: "length ?cmd = 256" using len less.prems(2) by simp
  obtain m1 c1 where step: "step (cstr (first_line ?u)) (m, c) = (m1, c1)" by fastforce
  show ?case
  proof (cases "CHR 0x0A \<in> set ?u")
    case True
    obtain b' f' where r: "readLine b f cmd 0 = Inr (0, b', f', ?cmd)" and wf: "ini_wf b' f'"
      and rest: "unread b' f' = other_lines ?u" "partial_end b' f' \<longleftrightarrow> ?p"
      using readLine_line [OF True less.prems(1), of 0 cmd] len less.prems(2) by auto
    have short: "length (unread b' f') < length ?u" using rest other_lines_shorter [OF True] by simp
    have lines: "ini_lines q ?u = first_line ?u # ini_lines q (unread b' f')" for q
      using True by (subst ini_lines.simps) (simp add: rest)
    have fits: "\<forall>l \<in> set (ini_lines True (unread b' f')). length l < 256"
      using less.prems(3) by (simp add: lines)
    from less.hyps [OF short wf size fits, of m1 c1] parse_advance [OF r cstr(2)] show ?thesis
      by (simp add: lines step cstr(1) rest(2) del: blit_zero)
  next
    case False
    obtain b' f' where r: "readLine b f cmd 0 = Inr (if ?p \<and> first_line ?u \<noteq> [] then 0 else -1, b', f', ?cmd)"
      and wf: "ini_wf b' f'" and rest: "unread b' f' = []" "partial_end b' f' \<longleftrightarrow> ?p"
      using readLine_last [OF False less.prems(1), of 0 cmd] len less.prems(2) by auto
    have lines: "ini_lines q ?u = (if q \<and> first_line ?u \<noteq> [] then [first_line ?u] else [])" for q
      using False by (subst ini_lines.simps) simp
    have none: "ini_lines q [] = []" for q by (subst ini_lines.simps) (simp add: first_line_def)
    show ?thesis
    proof (cases "?p \<and> first_line ?u \<noteq> []")
      case True
      have short: "length (unread b' f') < length ?u" using rest True by (cases ?u) (auto simp: first_line_def)
      from less.hyps [OF short wf size, of m1 c1] parse_advance [of b f cmd b' f' ?cmd] r cstr True show ?thesis
        by (simp add: lines none rest step del: blit_zero)
    next
      case False
      thus ?thesis
        using parse_stop [of b f cmd b' f' ?cmd] r by (auto simp: lines)
    qed
  qed
qed

theorem parse_overflow:
  assumes "ini_wf b f" and "length cmd = 256" and "\<exists>l \<in> set (ini_lines True (unread b f)). 256 \<le> length l"
  shows "parse m b f cmd c = Inl OutOfBounds"
  using assms
proof (induction "length (unread b f)" arbitrary: b f cmd m c rule: less_induct)
  case less
  let ?u = "unread b f"
  show ?case
  proof (cases "256 \<le> length (first_line ?u)")
    case True
    thus ?thesis
      using readLine_overflow [of b f 0 cmd] less.prems(1,2) by (intro parse_fault) simp
  next
    case len: False
    let ?cmd = "blit 0 (first_line ?u @ [CHR 0x00]) cmd"
    obtain m1 c1 where step: "step (cstr (first_line ?u)) (m, c) = (m1, c1)" by fastforce
    have nl: "CHR 0x0A \<in> set ?u"
      using less.prems(3) len by (subst (asm) ini_lines.simps) (auto split: if_splits)
    obtain b' f' where r: "readLine b f cmd 0 = Inr (0, b', f', ?cmd)" and wf: "ini_wf b' f'" and rest: "unread b' f' = other_lines ?u"
      using readLine_line [OF nl less.prems(1), of 0 cmd] len less.prems(2) by auto
    have size: "length ?cmd = 256" and cstr: "cstr ?cmd = cstr (first_line ?u)" "length (cstr ?cmd) < 256"
      using len less.prems(2) length_cstr [of "first_line ?u"] by (simp_all add: cstr_terminated)
    have long: "\<exists>l \<in> set (ini_lines True (unread b' f')). 256 \<le> length l"
      using less.prems(3) nl len by (subst (asm) ini_lines.simps) (auto simp: rest)
    have short: "length (unread b' f') < length ?u" using rest other_lines_shorter [OF nl] by simp
    from less.hyps [OF short wf size long, of m1 c1] parse_advance [OF r cstr(2)] show ?thesis
      by (simp add: step cstr(1) del: blit_zero)
  qed
qed

end

end
