(* ===== verification/MnIni.thy ===== *)
theory MnIni
  imports IniFile
begin

text \<open>
  The two parsers of the NAND writer: \<open>ProcessINI\<close> (src/mtdnand/mn_writer/src/ProcessIni.c) reads
  the names of the images, \<open>ProcessOptionalINI\<close> (ProcessOptionalIni.c) the register settings of
  the boot header. A parser is a loop over \<open>readLine\<close> with one step per line; the \<open>goto\<close> of
  the source, which handles a line that opens a section inside of another, is the step in the
  state without a section. Both interpret \<open>ini_parser\<close>, so that each computes the fold of its
  step over the lines of the file.
\<close>

subsection \<open>The image list\<close>

datatype ini_key = KNandLoader | KLogo | KExecFile | KExecFileNum | KExecAddress

record ini_info =
  NandLoader :: string
  Logo :: string
  ExecFile :: string
  ExecFileNum :: int
  ExecAddress :: "32 word"

definition strcpy_c :: "string \<Rightarrow> string \<Rightarrow> string" where
  "strcpy_c dst s = blit 0 (s @ [CHR 0x00]) dst"

definition ini_key :: "string \<Rightarrow> ini_key option" where
  "ini_key s =
     (if s = ''[NandLoader File Name]'' then Some KNandLoader
      else if s = ''[Logo File Name]'' then Some KLogo
      else if s = ''[Execute File Name]'' then Some KExecFile
      else if s = ''[Execute Image Number]'' then Some KExecFileNum
      else if s = ''[Execute Image Address]'' then Some KExecAddress
      else None)"

fun is_comment :: "string \<Rightarrow> bool" where
  "is_comment (a # b # _) \<longleftrightarrow> a = CHR ''/'' \<and> b = CHR ''/''"
| "is_comment _ \<longleftrightarrow> False"

fun opens_section :: "string \<Rightarrow> bool" where
  "opens_section (a # _) \<longleftrightarrow> a = CHR ''[''"
| "opens_section [] \<longleftrightarrow> False"

text \<open>The value of a key; \<open>None\<close> is the return of \<open>Fail\<close> for a name that is too long.\<close>

definition store_value :: "ini_key \<Rightarrow> string \<Rightarrow> ini_info \<Rightarrow> ini_info option" where
  "store_value k s ini =
     (case k of
        KNandLoader \<Rightarrow> if 511 < length s then None else Some (ini\<lparr>NandLoader := strcpy_c (NandLoader ini) s\<rparr>)
      | KLogo \<Rightarrow> if 511 < length s then None else Some (ini\<lparr>Logo := strcpy_c (Logo ini) s\<rparr>)
      | KExecFile \<Rightarrow> if 511 < length s then None else Some (ini\<lparr>ExecFile := strcpy_c (ExecFile ini) s\<rparr>)
      | KExecFileNum \<Rightarrow> Some (ini\<lparr>ExecFileNum := atoi s\<rparr>)
      | KExecAddress \<Rightarrow> Some (ini\<lparr>ExecAddress := word_of_int (atoi s)\<rparr>))"

text \<open>One line: outside of a section it may open one, inside it is skipped, opens another one or is the value.\<close>

definition ini_line :: "string \<Rightarrow> ini_key option \<times> ini_info \<Rightarrow> (ini_key option \<times> ini_info) option" where
  "ini_line s mi =
     (case mi of (m, ini) \<Rightarrow>
        (case m of
           None \<Rightarrow> Some (ini_key s, ini)
         | Some k \<Rightarrow>
             if s = [] then Some (Some k, ini)
             else if is_comment s then Some (Some k, ini)
             else if opens_section s then Some (ini_key s, ini)
             else map_option (Pair None) (store_value k s ini)))"

function process_lines ::
  "ini_key option \<Rightarrow> ini_buffer \<Rightarrow> string \<Rightarrow> string \<Rightarrow> ini_info \<Rightarrow> fault + (int \<times> ini_buffer \<times> ini_info)" where
  "process_lines m b f cmd ini =
     (case readLine b f cmd 0 of
        Inl e \<Rightarrow> Inl e
      | Inr (status, b', f', cmd') \<Rightarrow>
          if status < 0 then Inr (0, b', ini)
          else
            (case ini_line (cstr cmd') (m, ini) of
               None \<Rightarrow> Inr (-1, b', ini)
             | Some (m', ini') \<Rightarrow> process_lines m' b' f' cmd' ini'))"
  by pat_completeness auto
termination
  by (relation "measure (\<lambda>(_, b, f, _). remaining b f)") (auto dest: readLine_remaining)

declare process_lines.simps [simp del]

text \<open>
  \<open>ProcessINI\<close>: \<open>fs\<close> gives the bytes of a file that can be opened, \<open>stack\<close> is what the array
  \<open>Cmd\<close> holds at the call.
\<close>

definition ini_defaults :: "ini_info \<Rightarrow> ini_info" where
  "ini_defaults ini =
     \<lparr>NandLoader = (NandLoader ini)[0 := CHR 0x00], Logo = (Logo ini)[0 := CHR 0x00], ExecFile = (ExecFile ini)[0 := CHR 0x00],
      ExecFileNum = 0, ExecAddress = 0\<rparr>"

definition ProcessINI ::
  "(string \<Rightarrow> string option) \<Rightarrow> string \<Rightarrow> string \<Rightarrow> ini_buffer \<Rightarrow> ini_info \<Rightarrow> fault + (int \<times> ini_buffer \<times> ini_info)" where
  "ProcessINI fs fileName stack b ini =
     (case fs fileName of
        None \<Rightarrow> Inr (-1, b, ini_defaults ini)
      | Some f \<Rightarrow> process_lines None b f stack (ini_defaults ini))"

subsection \<open>The boot header settings\<close>

text \<open>\<open>power(x, n)\<close>\<close>

fun power_loop :: "nat \<Rightarrow> 32 word \<Rightarrow> 32 word \<Rightarrow> 32 word" where
  "power_loop 0 x num = num"
| "power_loop (Suc n) x num = power_loop n x (num * x)"

definition power_u32 :: "32 word \<Rightarrow> nat \<Rightarrow> 32 word" where
  "power_u32 x n = power_loop n x 1"

text \<open>The inner loop looks the character up; an unknown one adds nothing.\<close>

fun find_digit :: "char \<Rightarrow> string \<Rightarrow> 32 word list \<Rightarrow> 32 word option" where
  "find_digit c (d # ds) (n # ns) = (if toupper_c c = d then Some n else find_digit c ds ns)"
| "find_digit c _ _ = None"

definition hex_digit :: "char \<Rightarrow> 32 word option" where
  "hex_digit c = find_digit c ''0123456789ABCDEF'' [0, 1, 2, 3, 4, 5, 6, 7, 8, 9, 10, 11, 12, 13, 14, 15]"

fun hex_loop :: "string \<Rightarrow> 32 word \<Rightarrow> 32 word" where
  "hex_loop [] str_number = str_number"
| "hex_loop (c # cs) str_number =
     hex_loop cs (case hex_digit c of Some d \<Rightarrow> str_number + power_u32 16 (length cs) * d | None \<Rightarrow> str_number)"

definition transfer_hex_string_to_int :: "string \<Rightarrow> 32 word" where
  "transfer_hex_string_to_int str_name = hex_loop str_name 0"

record optional_pair =
  address :: "32 word"
  pair_value :: "32 word"

record optional_struct =
  OptionalMarker :: "32 word"
  Counter :: "32 word"
  Pairs :: "optional_pair list"

text \<open>
  \<open>parsePair\<close> on the pair at the counter, which the caller keeps below the size of the table.
  \<open>strtok\<close> writes into \<open>Cmd\<close>; the next \<open>readLine\<close> overwrites it before it is looked at.
\<close>

definition parsePair :: "optional_struct \<Rightarrow> string \<Rightarrow> optional_struct" where
  "parsePair c cmd =
     (let n = unat (Counter c); toks = strtok_all ('' =''  @ [CHR 0x09]) [] cmd;
          p = Pairs c ! n;
          p1 = (case toks of [] \<Rightarrow> p | t # _ \<Rightarrow> p\<lparr>address := transfer_hex_string_to_int t\<rparr>);
          p2 = (case toks of _ # t # _ \<Rightarrow> p1\<lparr>pair_value := transfer_hex_string_to_int t\<rparr> | _ \<Rightarrow> p1)
      in c\<lparr>Pairs := (Pairs c)[n := p2]\<rparr>)"

definition IBR_BOOT_CODE_OPTIONAL_MARKER :: "32 word" where
  "IBR_BOOT_CODE_OPTIONAL_MARKER = 0xAA55AA55"

definition IBR_BOOT_CODE_OPTIONAL_MAX_NUMBER :: "32 word" where
  "IBR_BOOT_CODE_OPTIONAL_MAX_NUMBER = 63"

definition user_define :: "string \<Rightarrow> bool" where
  "user_define s \<longleftrightarrow> s = ''[USER_DEFINE]'' \<or> s = ''[N3290 USER_DEFINE]''"

definition optional_line :: "string \<Rightarrow> bool \<times> optional_struct \<Rightarrow> bool \<times> optional_struct" where
  "optional_line s mc =
     (case mc of (m, c) \<Rightarrow>
        if \<not> m then (user_define s, c)
        else if s = [] then (True, c)
        else if is_comment s then (True, c)
        else if opens_section s then (user_define s, c)
        else if IBR_BOOT_CODE_OPTIONAL_MAX_NUMBER \<le> Counter c then (False, c)
        else (True, (parsePair c s)\<lparr>Counter := Counter c + 1\<rparr>))"

function optional_lines ::
  "bool \<Rightarrow> ini_buffer \<Rightarrow> string \<Rightarrow> string \<Rightarrow> optional_struct \<Rightarrow> fault + (int \<times> ini_buffer \<times> optional_struct)" where
  "optional_lines m b f cmd c =
     (case readLine b f cmd 0 of
        Inl e \<Rightarrow> Inl e
      | Inr (status, b', f', cmd') \<Rightarrow>
          if status < 0 then Inr (0, b', c)
          else (case optional_line (cstr cmd') (m, c) of (m', c') \<Rightarrow> optional_lines m' b' f' cmd' c'))"
  by pat_completeness auto
termination
  by (relation "measure (\<lambda>(_, b, f, _). remaining b f)") (auto dest: readLine_remaining)

declare optional_lines.simps [simp del]

definition optional_defaults :: optional_struct where
  "optional_defaults =
     \<lparr>OptionalMarker = IBR_BOOT_CODE_OPTIONAL_MARKER, Counter = 0,
      Pairs = replicate 63 \<lparr>address = 0xFFFFFFFF, pair_value = 0xFFFFFFFF\<rparr>\<rparr>"

definition ProcessOptionalINI ::
  "(string \<Rightarrow> string option) \<Rightarrow> string \<Rightarrow> string \<Rightarrow> ini_buffer \<Rightarrow> fault + (int \<times> ini_buffer \<times> optional_struct)" where
  "ProcessOptionalINI fs fileName stack b =
     (case fs fileName of
        None \<Rightarrow> Inr (-1, b, optional_defaults)
      | Some f \<Rightarrow> optional_lines False (b\<lparr>buffer_current := 0, buffer_end := 0\<rparr>) f stack optional_defaults)"

subsection \<open>Both are line parsers\<close>

definition ini_step :: "string \<Rightarrow> ini_key option \<times> ini_info \<Rightarrow> ini_key option \<times> ini_info" where
  "ini_step s mi = (case ini_line s mi of Some mi' \<Rightarrow> mi' | None \<Rightarrow> mi)"

lemma ini_line_step: "length s < 256 \<Longrightarrow> ini_line s (m, ini) = Some (ini_step s (m, ini))"
  by (auto simp: ini_step_def ini_line_def store_value_def split: option.splits ini_key.splits)

interpretation images: ini_parser process_lines ini_step
proof
  fix b f cmd and e :: fault and m ini
  assume "readLine b f cmd 0 = Inl e"
  thus "process_lines m b f cmd ini = Inl e" by (subst process_lines.simps) simp
next
  fix b f cmd b' f' cmd' and m ini
  assume "readLine b f cmd 0 = Inr (-1, b', f', cmd')"
  thus "process_lines m b f cmd ini = Inr (0, b', ini)" by (subst process_lines.simps) simp
next
  fix b f cmd b' f' cmd' and m ini
  assume "readLine b f cmd 0 = Inr (0, b', f', cmd')" and "length (cstr cmd') < 256"
  thus "process_lines m b f cmd ini = (case ini_step (cstr cmd') (m, ini) of (m', c') \<Rightarrow> process_lines m' b' f' cmd' c')"
    by (subst process_lines.simps) (simp add: ini_line_step split: prod.split)
qed

interpretation settings: ini_parser optional_lines optional_line
proof
  fix b f cmd and e :: fault and m c
  assume "readLine b f cmd 0 = Inl e"
  thus "optional_lines m b f cmd c = Inl e" by (subst optional_lines.simps) simp
next
  fix b f cmd b' f' cmd' and m c
  assume "readLine b f cmd 0 = Inr (-1, b', f', cmd')"
  thus "optional_lines m b f cmd c = Inr (0, b', c)" by (subst optional_lines.simps) simp
next
  fix b f cmd b' f' cmd' and m c
  assume "readLine b f cmd 0 = Inr (0, b', f', cmd')" and "length (cstr cmd') < 256"
  thus "optional_lines m b f cmd c = (case optional_line (cstr cmd') (m, c) of (m', c') \<Rightarrow> optional_lines m' b' f' cmd' c')"
    by (subst optional_lines.simps) simp
qed

subsection \<open>Reading the lines\<close>

lemma partial_end_init: "partial_end ini_buffer_init f \<longleftrightarrow> length f mod 512 \<noteq> 0"
  by (simp add: partial_end_def ini_buffer_init_def)

text \<open>
  C18: \<open>ProcessINI\<close> with its 512 byte blocks and its character loop handles the lines of the
  file one after the other: when every line is shorter than 256 bytes it succeeds and its
  configuration is the fold of the line step over the lines, where a last line without an end of
  line counts only if the file does not end with a full block. One longer line makes it write
  behind the array \<open>Cmd\<close>, long before the limit of 511 bytes that it checks.
\<close>

theorem ProcessINI_lines:
  assumes "fs fileName = Some f" and "length stack = 256"
  shows "if \<forall>l \<in> set (ini_lines True f). length l < 256
    then \<exists>b. ProcessINI fs fileName stack ini_buffer_init ini =
      Inr (0, b, snd (fold ini_step (map cstr (ini_lines (length f mod 512 \<noteq> 0) f)) (None, ini_defaults ini)))
    else ProcessINI fs fileName stack ini_buffer_init ini = Inl OutOfBounds"
proof -
  note wf = ini_wf_init [of f]
  show ?thesis
    using images.parses_lines [OF wf(1) assms(2), of None "ini_defaults ini"] images.parse_overflow [OF wf(1) assms(2), of None "ini_defaults ini"] assms(1)
    by (auto simp: ProcessINI_def wf(2) partial_end_init not_less)
qed

theorem ProcessINI_lines_witness:
  "\<exists>b. ProcessINI [''a.ini'' \<mapsto> ''[Logo File Name]'' @ [CHR 0x0D, CHR 0x0A] @ ''logo.bin''] ''a.ini'' (replicate 256 CHR 0x00) ini_buffer_init
     \<lparr>NandLoader = replicate 512 CHR 0x00, Logo = replicate 512 CHR 0x00, ExecFile = replicate 512 CHR 0x00, ExecFileNum = 7, ExecAddress = 7\<rparr> =
   Inr (0, b, \<lparr>NandLoader = replicate 512 CHR 0x00, Logo = ''logo.bin'' @ replicate 504 CHR 0x00, ExecFile = replicate 512 CHR 0x00,
     ExecFileNum = 0, ExecAddress = 0\<rparr>)"
proof -
  let ?f = "''[Logo File Name]'' @ [CHR 0x0D, CHR 0x0A] @ ''logo.bin''"
  have lines: "ini_lines True ?f = [''[Logo File Name]'', ''logo.bin'']"
    by (simp add: ini_lines.simps first_line_def other_lines_def)
  have zero: "(replicate 512 CHR 0x00)[0 := CHR 0x00] = replicate 512 CHR 0x00" "drop 9 (replicate 512 CHR 0x00) = replicate 503 CHR 0x00"
    "replicate 504 CHR 0x00 = CHR 0x00 # replicate 503 CHR 0x00"
    by (simp_all add: list_update_same_conv flip: replicate_Suc)
  show ?thesis
    using ProcessINI_lines [of "[''a.ini'' \<mapsto> ?f]" "''a.ini''" ?f "replicate 256 CHR 0x00"
        "\<lparr>NandLoader = replicate 512 CHR 0x00, Logo = replicate 512 CHR 0x00, ExecFile = replicate 512 CHR 0x00, ExecFileNum = 7, ExecAddress = 7\<rparr>"] lines
    by (simp add: ini_defaults_def zero ini_step_def ini_line_def ini_key_def store_value_def strcpy_c_def cstr_def)
qed

subsection \<open>Round trips\<close>

definition unlines :: "string list \<Rightarrow> string" where
  "unlines ls = concat (map (\<lambda>l. l @ [CHR 0x0A]) ls)"

definition plain_line :: "string \<Rightarrow> bool" where
  "plain_line l \<longleftrightarrow> length l < 256 \<and> CHR 0x0A \<notin> set l \<and> CHR 0x0D \<notin> set l \<and> CHR 0x00 \<notin> set l"

lemma first_line_plain: "CHR 0x0A \<notin> set l \<Longrightarrow> CHR 0x0D \<notin> set l \<Longrightarrow> first_line l = l"
  by (induction l) (auto simp: first_line_Cons)

lemma ini_lines_unlines:
  assumes "\<forall>l \<in> set ls. plain_line l"
  shows "ini_lines p (unlines ls) = ls"
  using assms
proof (induction ls)
  case Nil
  show ?case by (subst ini_lines.simps) (simp add: unlines_def)
next
  case (Cons l ls)
  have "first_line (unlines (l # ls)) = l" "other_lines (unlines (l # ls)) = unlines ls"
    using Cons.prems
    by (simp_all add: unlines_def plain_line_def lines_append first_line_plain first_line_Cons other_lines_Cons)
  with Cons show ?case
    by (subst ini_lines.simps) (simp add: unlines_def)
qed

lemma cstr_plain: "plain_line l \<Longrightarrow> cstr l = l"
  by (auto simp: plain_line_def cstr_def takeWhile_eq_all_conv)

lemma map_cstr_plain: "\<forall>l \<in> set ls. plain_line l \<Longrightarrow> map cstr ls = ls"
  by (induction ls) (auto simp: cstr_plain)

lemma cstr_strcpy_c: "plain_line s \<Longrightarrow> cstr (strcpy_c a s) = s"
  by (simp add: strcpy_c_def cstr_terminated cstr_plain)

text \<open>A line that can be a value: not empty, no comment and no section.\<close>

definition value_line :: "string \<Rightarrow> bool" where
  "value_line l \<longleftrightarrow> plain_line l \<and> l \<noteq> [] \<and> \<not> is_comment l \<and> \<not> opens_section l"

lemma value_line_dec_str:
  assumes "n < 2147483648"
  shows "value_line (dec_str n)"
proof -
  have "set (dec_str n) \<subseteq> set ''0123456789''"
  proof
    fix c assume "c \<in> set (dec_str n)"
    then obtain d where "d < 10" "c = char_of (48 + d :: nat)" using set_dec_str by blast
    moreover have "\<forall>d \<in> set [0..<10]. (char_of (48 + d :: nat) :: char) \<in> set ''0123456789''" by code_simp
    ultimately show "c \<in> set ''0123456789''" by simp
  qed
  moreover obtain c cs where "dec_str n = c # cs" by (cases "dec_str n") auto
  moreover have "length (dec_str n) \<le> 10" using assms by (intro length_dec_str_u32) simp
  ultimately show ?thesis
    by (cases cs) (auto simp: value_line_def plain_line_def)
qed

definition ini_text :: "string \<Rightarrow> string \<Rightarrow> string \<Rightarrow> nat \<Rightarrow> nat \<Rightarrow> string" where
  "ini_text loader logo exec num addr =
     unlines [''[NandLoader File Name]'', loader, [], ''[Logo File Name]'', logo, [], ''[Execute File Name]'', exec, [],
       ''[Execute Image Number]'', dec_str num, [], ''[Execute Image Address]'', dec_str addr]"

lemma ini_step_value:
  assumes "value_line s"
  shows "ini_step s (Some k, ini) = (None, the (store_value k s ini))"
  using assms by (auto simp: ini_step_def ini_line_def value_line_def plain_line_def store_value_def split: option.split ini_key.split)

lemma ini_key_names:
  "ini_key [] = None" "ini_key ''[NandLoader File Name]'' = Some KNandLoader" "ini_key ''[Logo File Name]'' = Some KLogo"
  "ini_key ''[Execute File Name]'' = Some KExecFile" "ini_key ''[Execute Image Number]'' = Some KExecFileNum"
  "ini_key ''[Execute Image Address]'' = Some KExecAddress"
  by (simp_all add: ini_key_def)

lemma store_value_plain:
  "value_line s \<Longrightarrow> store_value KNandLoader s ini = Some (ini\<lparr>NandLoader := strcpy_c (NandLoader ini) s\<rparr>)"
  "value_line s \<Longrightarrow> store_value KLogo s ini = Some (ini\<lparr>Logo := strcpy_c (Logo ini) s\<rparr>)"
  "value_line s \<Longrightarrow> store_value KExecFile s ini = Some (ini\<lparr>ExecFile := strcpy_c (ExecFile ini) s\<rparr>)"
  "n < 2147483648 \<Longrightarrow> store_value KExecFileNum (dec_str n) ini = Some (ini\<lparr>ExecFileNum := int n\<rparr>)"
  "n < 2147483648 \<Longrightarrow> store_value KExecAddress (dec_str n) ini = Some (ini\<lparr>ExecAddress := of_nat n\<rparr>)"
  by (simp_all add: store_value_def value_line_def plain_line_def atoi_dec_str)

lemma ProcessINI_text:
  assumes "fs fileName = Some (ini_text loader logo exec num addr)" and "length stack = 256"
    and "value_line loader" and "value_line logo" and "value_line exec" and "num < 2147483648" and "addr < 2147483648"
  shows "\<exists>b. ProcessINI fs fileName stack ini_buffer_init ini =
    Inr (0, b, (ini_defaults ini)\<lparr>NandLoader := strcpy_c (NandLoader (ini_defaults ini)) loader, Logo := strcpy_c (Logo (ini_defaults ini)) logo,
      ExecFile := strcpy_c (ExecFile (ini_defaults ini)) exec, ExecFileNum := int num, ExecAddress := of_nat addr\<rparr>)"
proof -
  let ?ls = "[''[NandLoader File Name]'', loader, [], ''[Logo File Name]'', logo, [], ''[Execute File Name]'', exec, [],
       ''[Execute Image Number]'', dec_str num, [], ''[Execute Image Address]'', dec_str addr]"
  have v: "value_line (dec_str num)" "value_line (dec_str addr)" using assms by (simp_all add: value_line_dec_str)
  have plain: "\<forall>l \<in> set ?ls. plain_line l"
    using assms v by (auto simp: value_line_def) (simp_all add: plain_line_def)
  hence lines: "ini_lines p (ini_text loader logo exec num addr) = ?ls" for p
    unfolding ini_text_def by (rule ini_lines_unlines)
  have open_section: "ini_step s (None, i) = (ini_key s, i)" for s i by (simp add: ini_step_def ini_line_def)
  have "\<exists>b. ProcessINI fs fileName stack ini_buffer_init ini =
      Inr (0, b, snd (fold ini_step (map cstr ?ls) (None, ini_defaults ini)))"
    using images.parses_lines [OF ini_wf_init(1) assms(2), of "ini_text loader logo exec num addr" None "ini_defaults ini"] assms(1) plain
    by (auto simp: ProcessINI_def ini_wf_init(2) lines plain_line_def)
  moreover have "snd (fold ini_step ?ls (None, ini_defaults ini)) =
      (ini_defaults ini)\<lparr>NandLoader := strcpy_c (NandLoader (ini_defaults ini)) loader, Logo := strcpy_c (Logo (ini_defaults ini)) logo,
        ExecFile := strcpy_c (ExecFile (ini_defaults ini)) exec, ExecFileNum := int num, ExecAddress := of_nat addr\<rparr>"
    using assms(3-7) v by (simp add: open_section ini_step_value ini_key_names store_value_plain)
  ultimately show ?thesis
    unfolding map_cstr_plain [OF plain] by simp
qed

text \<open>
  Writing the image list and reading it back: for names shorter than 256 bytes that are no
  comments and open no section, \<open>ProcessINI\<close> recovers the three names, the number of copies and
  the decimal execution address, whatever the structure and the array \<open>Cmd\<close> held before.
\<close>

theorem ProcessINI_roundtrip:
  assumes "fs fileName = Some (ini_text loader logo exec num addr)" and "length stack = 256"
    and "value_line loader" and "value_line logo" and "value_line exec" and "num < 2147483648" and "addr < 2147483648"
  shows "\<exists>b ini'. ProcessINI fs fileName stack ini_buffer_init ini = Inr (0, b, ini') \<and>
    cstr (NandLoader ini') = loader \<and> cstr (Logo ini') = logo \<and> cstr (ExecFile ini') = exec \<and>
    ExecFileNum ini' = int num \<and> ExecAddress ini' = of_nat addr"
proof -
  obtain b where "ProcessINI fs fileName stack ini_buffer_init ini =
    Inr (0, b, (ini_defaults ini)\<lparr>NandLoader := strcpy_c (NandLoader (ini_defaults ini)) loader, Logo := strcpy_c (Logo (ini_defaults ini)) logo,
      ExecFile := strcpy_c (ExecFile (ini_defaults ini)) exec, ExecFileNum := int num, ExecAddress := of_nat addr\<rparr>)"
    using ProcessINI_text [of fs fileName, OF assms] by blast
  thus ?thesis
    using assms(3-5) by (simp add: value_line_def cstr_strcpy_c)
qed

theorem ProcessINI_roundtrip_witness:
  "\<exists>b ini'. ProcessINI [''n.ini'' \<mapsto> ini_text ''nand.bin'' ''logo.bin'' ''conprog.bin'' 1 8388608] ''n.ini'' (replicate 256 CHR 0x00) ini_buffer_init
     \<lparr>NandLoader = [], Logo = [], ExecFile = [], ExecFileNum = 0, ExecAddress = 0\<rparr> =
     Inr (0, b, ini') \<and> cstr (NandLoader ini') = ''nand.bin'' \<and> cstr (Logo ini') = ''logo.bin'' \<and> cstr (ExecFile ini') = ''conprog.bin'' \<and>
     ExecFileNum ini' = 1 \<and> ExecAddress ini' = 8388608"
  using ProcessINI_roundtrip [of "[''n.ini'' \<mapsto> ini_text ''nand.bin'' ''logo.bin'' ''conprog.bin'' 1 8388608]" "''n.ini''"
      "''nand.bin''" "''logo.bin''" "''conprog.bin''" 1 8388608 "replicate 256 CHR 0x00"
      "\<lparr>NandLoader = [], Logo = [], ExecFile = [], ExecFileNum = 0, ExecAddress = 0\<rparr>"]
  by (simp add: value_line_def plain_line_def)

subsection \<open>Hexadecimal numbers\<close>

lemma power_loop_eq: "power_loop n x num = num * x ^ n"
  by (induction n arbitrary: num) (simp_all add: ac_simps)

definition digit_or_zero :: "char \<Rightarrow> 32 word" where
  "digit_or_zero c = (case hex_digit c of Some d \<Rightarrow> d | None \<Rightarrow> 0)"

lemma hex_loop_horner: "hex_loop s acc = acc + fold (\<lambda>c v. v * 16 + digit_or_zero c) s 0"
proof (induction s arbitrary: acc)
  case (Cons c cs)
  have horner: "fold (\<lambda>c v. v * 16 + digit_or_zero c) cs v = v * 16 ^ length cs + fold (\<lambda>c v. v * 16 + digit_or_zero c) cs 0" for v
  proof (induction cs arbitrary: v)
    case (Cons d ds)
    show ?case
      using Cons [of "v * 16 + digit_or_zero d"] Cons [of "digit_or_zero d"] by (simp add: algebra_simps)
  qed simp
  show ?case
    using horner [of "digit_or_zero c"]
    by (simp add: Cons.IH power_u32_def power_loop_eq digit_or_zero_def algebra_simps split: option.split)
qed simp

text \<open>
  The sum of powers that \<open>transfer_hex_string_to_int\<close> computes is the value of the string
  by Horner's rule in 32-bit arithmetic, an unknown character counting as the digit 0.
\<close>

theorem transfer_hex_horner: "transfer_hex_string_to_int s = fold (\<lambda>c v. v * 16 + digit_or_zero c) s 0"
  by (simp add: transfer_hex_string_to_int_def hex_loop_horner)

lemma digit_hex_char: "d < 16 \<Longrightarrow> digit_or_zero (hex_char d) = of_nat d"
proof -
  have "\<forall>d \<in> set [0..<16]. digit_or_zero (hex_char d) = of_nat d" by code_simp
  thus "d < 16 \<Longrightarrow> digit_or_zero (hex_char d) = of_nat d" by simp
qed

lemma transfer_hex_str: "transfer_hex_string_to_int (hex_str n) = of_nat n"
proof (induction n rule: hex_str.induct)
  case (1 n)
  have "of_nat (n div 16) * 16 + of_nat (n mod 16) = (of_nat (n div 16 * 16 + n mod 16) :: 32 word)"
    by (simp only: of_nat_add of_nat_mult of_nat_numeral)
  thus ?case
    using 1 by (subst hex_str.simps) (simp add: transfer_hex_string_to_int_def hex_loop_horner digit_hex_char)
qed

subsection \<open>The settings of the boot header\<close>

definition pair_line :: "32 word \<times> 32 word \<Rightarrow> string" where
  "pair_line p = '' '' @ hex_str (unat (fst p)) @ '' = '' @ hex_str (unat (snd p))"

definition optional_text :: "(32 word \<times> 32 word) list \<Rightarrow> string" where
  "optional_text ps = unlines (''[N3290 USER_DEFINE]'' # map pair_line ps)"

definition pair_of :: "32 word \<times> 32 word \<Rightarrow> optional_pair" where
  "pair_of p = \<lparr>address = fst p, pair_value = snd p\<rparr>"

text \<open>The structure with the settings \<open>ps\<close> in front of the table.\<close>

definition settings_of :: "(32 word \<times> 32 word) list \<Rightarrow> optional_struct" where
  "settings_of ps =
     \<lparr>OptionalMarker = IBR_BOOT_CODE_OPTIONAL_MARKER, Counter = of_nat (length ps),
      Pairs = map pair_of ps @ replicate (63 - length ps) \<lparr>address = 0xFFFFFFFF, pair_value = 0xFFFFFFFF\<rparr>\<rparr>"

lemma hex_str_plain: "c \<in> set (hex_str n) \<Longrightarrow> c \<notin> set ('' ='' @ [CHR 0x09, CHR 0x0A, CHR 0x0D, CHR 0x00])"
  using set_hex_str [of n] by auto

lemma length_hex_unat: "length (hex_str (unat (w :: 32 word))) \<le> 8"
  using length_hex_str [of "unat w" 7] unsigned_less [of w] by simp

lemma pair_line_value: "value_line (pair_line p)"
proof -
  have "c \<notin> set (hex_str n)" if "c \<in> {CHR 0x0A, CHR 0x0D, CHR 0x00}" for c n
    using hex_str_plain [of c n] that by auto
  moreover have "\<not> is_comment (CHR '' '' # t)" for t
    by (cases t) simp_all
  ultimately show ?thesis
    using length_hex_unat [of "fst p"] length_hex_unat [of "snd p"]
    by (simp add: value_line_def plain_line_def pair_line_def)
qed

lemma pair_line_tokens: "strtok_all ('' ='' @ [CHR 0x09]) [] (pair_line p) = [hex_str (unat (fst p)), hex_str (unat (snd p))]"
proof -
  let ?d = "'' ='' @ [CHR 0x09]" and ?a = "hex_str (unat (fst p))" and ?v = "hex_str (unat (snd p))"
  have free: "set ?a \<inter> set ?d = {}" "set ?v \<inter> set ?d = {}" using hex_str_plain by fastforce+
  have "strtok_all ?d [] (pair_line p) = strtok_all ?d [] (?a @ CHR '' '' # (''= '' @ ?v))"
    by (simp add: pair_line_def)
  also have "\<dots> = ?a # strtok_all ?d [] (''= '' @ ?v)"
    by (rule strtok_all_token(1)) (use free in simp_all)
  also have "strtok_all ?d [] (''= '' @ ?v) = strtok_all ?d [] ?v"
    by simp
  also have "\<dots> = [?v]"
    by (rule strtok_all_token(2)) (use free in simp_all)
  finally show ?thesis .
qed

lemma optional_line_pair:
  assumes "length ps < 63"
  shows "optional_line (pair_line p) (True, settings_of ps) = (True, settings_of (ps @ [p]))"
proof -
  have n: "unat (of_nat (length ps) :: 32 word) = length ps" "(63 \<le> (of_nat (length ps) :: 32 word)) = False"
    using assms by (simp_all add: unat_of_nat word_le_nat_alt)
  obtain k where k: "63 - length ps = Suc k" "62 - length ps = k" using assms by (cases "63 - length ps") auto
  have vl: "pair_line p \<noteq> []" "\<not> is_comment (pair_line p)" "\<not> opens_section (pair_line p)"
    using pair_line_value [of p] by (auto simp: value_line_def)
  have pair: "parsePair (settings_of ps) (pair_line p) =
      (settings_of ps)\<lparr>Pairs := (Pairs (settings_of ps))[length ps := \<lparr>address = fst p, pair_value = snd p\<rparr>]\<rparr>"
    by (simp add: parsePair_def pair_line_tokens [simplified] settings_of_def n k transfer_hex_str nth_append Let_def)
  show ?thesis
    using vl by (simp add: optional_line_def IBR_BOOT_CODE_OPTIONAL_MAX_NUMBER_def pair)
      (simp add: settings_of_def n k pair_of_def list_update_append ac_simps)
qed

lemma optional_line_full:
  assumes "length ps = 63"
  shows "fold optional_line (map pair_line qs) (m, settings_of ps) = (m \<and> qs = [], settings_of ps)"
proof (induction qs arbitrary: m)
  case (Cons q qs)
  have vl: "pair_line q \<noteq> []" "\<not> is_comment (pair_line q)" "\<not> opens_section (pair_line q)" "\<not> user_define (pair_line q)"
    using pair_line_value [of q] by (auto simp: value_line_def user_define_def)
  hence "optional_line (pair_line q) (m, settings_of ps) = (False, settings_of ps)"
    by (simp add: optional_line_def IBR_BOOT_CODE_OPTIONAL_MAX_NUMBER_def settings_of_def assms)
  thus ?case by (simp add: Cons.IH)
qed simp

lemma optional_line_fold:
  assumes "length ps \<le> 63"
  shows "snd (fold optional_line (map pair_line qs) (True, settings_of ps)) = settings_of (take 63 (ps @ qs))"
  using assms
proof (induction qs arbitrary: ps)
  case (Cons q qs)
  show ?case
  proof (cases "length ps = 63")
    case True
    thus ?thesis using optional_line_full [of ps "q # qs"] by simp
  next
    case False
    thus ?thesis using Cons.prems Cons.IH [of "ps @ [q]"] by (simp add: optional_line_pair)
  qed
qed simp

lemma ProcessOptionalINI_text:
  assumes "fs fileName = Some (optional_text ps)" and "length stack = 256" and "length (iniBuf b) = 512"
  shows "\<exists>b'. ProcessOptionalINI fs fileName stack b = Inr (0, b', settings_of (take 63 ps))"
proof -
  let ?b = "b\<lparr>buffer_current := 0, buffer_end := 0\<rparr>" and ?ls = "''[N3290 USER_DEFINE]'' # map pair_line ps"
  have wf: "ini_wf ?b f" "unread ?b f = f" for f
    using assms(3) by (simp_all add: ini_wf_def unread_def buffered_def)
  have plain: "\<forall>l \<in> set ?ls. plain_line l"
    using pair_line_value by (auto simp: value_line_def) (simp add: plain_line_def)
  hence lines: "ini_lines q (optional_text ps) = ?ls" for q
    unfolding optional_text_def by (rule ini_lines_unlines)
  have "\<exists>b'. optional_lines False ?b (optional_text ps) stack optional_defaults =
      Inr (0, b', snd (fold optional_line (map cstr ?ls) (False, optional_defaults)))"
    using settings.parses_lines [OF wf(1) assms(2), of "optional_text ps" False optional_defaults] plain
    unfolding wf(2) lines by (auto simp: plain_line_def)
  moreover have "optional_defaults = settings_of []"
    by (simp add: optional_defaults_def settings_of_def)
  ultimately show ?thesis
    using assms(1) optional_line_fold [of "[]" ps] unfolding map_cstr_plain [OF plain]
    by (simp add: ProcessOptionalINI_def optional_line_def user_define_def)
qed

text \<open>
  Writing register settings as a section of the settings file and reading them back:
  \<open>ProcessOptionalINI\<close> recovers the pairs in their order, counts them and leaves the rest of the
  table erased; of more than 63 pairs it keeps the first 63, so no store leaves the table.
\<close>

theorem ProcessOptionalINI_roundtrip:
  assumes "fs fileName = Some (optional_text ps)" and "length stack = 256" and "length (iniBuf b) = 512"
  shows "\<exists>b'. ProcessOptionalINI fs fileName stack b = Inr (0, b', settings_of (take 63 ps))"
  using assms by (rule ProcessOptionalINI_text)

theorem ProcessOptionalINI_roundtrip_witness:
  "\<exists>b'. ProcessOptionalINI [''t.ini'' \<mapsto> optional_text [(0xB0003010, 5)]] ''t.ini'' (replicate 256 CHR 0x00) ini_buffer_init =
     Inr (0, b', settings_of [(0xB0003010, 5)])"
  using ProcessOptionalINI_roundtrip [of "[''t.ini'' \<mapsto> optional_text [(0xB0003010, 5)]]" "''t.ini''" "[(0xB0003010, 5)]" "replicate 256 CHR 0x00" ini_buffer_init]
  by (simp add: ini_buffer_init_def INI_BUF_SIZE_def)

end
