(* ===== verification/MnWriter.thy ===== *)
theory MnWriter
  imports MnIni
begin

text \<open>
  The program of src/mtdnand/mn_writer/src/mn_writer.c: it builds the block of the system area
  (boot header, register settings, loader and table of images) and hands it and the images to the
  flash tools. The block buffer of \<open>malloc\<close> is a list of bytes; copies that leave it are faults.
  Files are given by their bytes, \<open>sys\<close> answers \<open>system\<close>, and the result of a run is the
  file written and the commands executed; \<open>exit\<close> is the fault \<open>ProcessExit\<close>.
\<close>

definition uIBRAreaSize :: nat where "uIBRAreaSize = 4"
definition MAX_FWInfo :: nat where "MAX_FWInfo = 16"

definition ImageFlag_Exec :: "16 word" where "ImageFlag_Exec = 1"
definition ImageFlag_System :: "16 word" where "ImageFlag_System = 3"
definition ImageFlag_Logo :: "16 word" where "ImageFlag_Logo = 4"

record fw_info =
  imageNo :: "16 word"
  imageFlag :: "16 word"
  startBlock :: "16 word"
  endBlock :: "16 word"
  executeAddr :: "32 word"
  fileLen :: "32 word"
  imageName :: string

text \<open>\<open>memset(&FWInfo, 0xFF, sizeof(FWInfo))\<close>\<close>

definition fw_erased :: "fw_info list" where
  "fw_erased = replicate MAX_FWInfo
     \<lparr>imageNo = 0xFFFF, imageFlag = 0xFFFF, startBlock = 0xFFFF, endBlock = 0xFFFF, executeAddr = 0xFFFFFFFF, fileLen = 0xFFFFFFFF,
      imageName = replicate 32 CHR 0xFF\<rparr>"

text \<open>
  \<open>write_fw_info\<close>: the file name is the array it is stored in. A file without \<open>stat\<close> leaves the
  table alone; the callers do not look at the result.
\<close>

definition write_fw_info ::
  "(string \<Rightarrow> string option) \<Rightarrow> 32 word \<Rightarrow> int \<Rightarrow> string \<Rightarrow> 16 word \<Rightarrow> 32 word \<Rightarrow> fw_info list \<Rightarrow> fault + fw_info list" where
  "write_fw_info fs blockSize idx filename flag addr fw =
     (case fs (cstr filename) of
        None \<Rightarrow> Inr fw
      | Some bytes \<Rightarrow>
          (let size = of_nat (length bytes) :: 32 word in
           bindr (arr_get fw idx) (\<lambda>old.
           bindr (if flag = ImageFlag_System then Inr (0, 3)
                  else bindr (arr_get fw (idx - 1)) (\<lambda>before.
                    if blockSize = 0 then Inl DivByZero
                    else (let start = endBlock before + 1 in Inr (start, ucast (ucast start + size div blockSize)))))
           (\<lambda>(start, last).
             Inr (fw[nat idx :=
               \<lparr>imageNo = word_of_int idx, imageFlag = flag, startBlock = start, endBlock = last, executeAddr = addr, fileLen = size,
                imageName = (take 32 filename)[31 := CHR 0x00]\<rparr>])))))"

subsection \<open>Flashing\<close>

text \<open>\<open>sprintf\<close> into \<open>szCmd[2048]\<close> and \<open>system\<close>.\<close>

definition print_cmd :: "string \<Rightarrow> fault + string" where
  "print_cmd s = (if length s < 2048 then Inr s else Inl OutOfBounds)"

definition run_cmd :: "(string \<Rightarrow> int) \<Rightarrow> string \<Rightarrow> string list \<Rightarrow> fault + string list" where
  "run_cmd sys s done = (if sys s = -1 then Inl (ProcessExit 1) else Inr (done @ [s]))"

definition hex_u32 :: "32 word \<Rightarrow> string" where
  "hex_u32 w = hex_str (unat w)"

text \<open>The loop over the copies of the system block.\<close>

fun burn_system :: "(string \<Rightarrow> int) \<Rightarrow> 32 word \<Rightarrow> 32 word \<Rightarrow> string \<Rightarrow> nat list \<Rightarrow> string list \<Rightarrow> fault + string list" where
  "burn_system sys block page out [] done = Inr done"
| "burn_system sys block page out (i # is) done =
     bindr (print_cmd (''./nandwrite -m -a /dev/mtd0 -s 0x'' @ hex_u32 (of_nat i * block) @ '' '' @ out)) (\<lambda>szCmd.
     bindr (run_cmd sys szCmd done) (\<lambda>done1.
     bindr (print_cmd (''./nanddump -c -o /dev/mtd0 -s 0x'' @ hex_u32 (of_nat i * block) @ '' -l 0x'' @ hex_u32 page @ '' > /dev/null'')) (\<lambda>szCmd.
     bindr (run_cmd sys szCmd done1) (\<lambda>done2. burn_system sys block page out is done2))))"

text \<open>
  The loop over the images. For an entry that is neither a logo nor an executable \<open>szCmd\<close> still
  holds the command before and is executed again.
\<close>

definition image_offset :: "32 word \<Rightarrow> fw_info \<Rightarrow> 32 word" where
  "image_offset block e = (ucast (startBlock e) - 4) * block"

fun burn_entries ::
  "(string \<Rightarrow> int) \<Rightarrow> 32 word \<Rightarrow> 32 word \<Rightarrow> ini_info \<Rightarrow> fw_info list \<Rightarrow> nat list \<Rightarrow> string \<Rightarrow> string list \<Rightarrow> fault + string list" where
  "burn_entries sys block page ini fw [] szCmd done = Inr done"
| "burn_entries sys block page ini fw (i # is) szCmd done =
     bindr (arr_get fw (int i)) (\<lambda>e.
     bindr
       (if imageFlag e = ImageFlag_Logo then
          print_cmd (''./nandwrite -p -m -a /dev/mtd1 -s 0x'' @ hex_u32 (image_offset block e) @ '' '' @ cstr (Logo ini))
        else if imageFlag e = ImageFlag_Exec then
          print_cmd (''./nandwrite -p -m -a /dev/mtd1 -s 0x'' @ hex_u32 (image_offset block e) @ '' '' @ cstr (ExecFile ini))
        else Inr szCmd) (\<lambda>szCmd1.
     bindr (run_cmd sys szCmd1 done) (\<lambda>done1.
     bindr (print_cmd (''./nanddump -c -o /dev/mtd1 -s 0x'' @ hex_u32 (image_offset block e) @ '' -l 0x'' @ hex_u32 page @ '' > /dev/null'')) (\<lambda>szCmd2.
     bindr (run_cmd sys szCmd2 done1) (\<lambda>done2. burn_entries sys block page ini fw is szCmd2 done2)))))"

definition burn_images ::
  "(string \<Rightarrow> int) \<Rightarrow> 32 word \<Rightarrow> 32 word \<Rightarrow> string \<Rightarrow> ini_info \<Rightarrow> fw_info list \<Rightarrow> int \<Rightarrow> fault + string list" where
  "burn_images sys block page out ini fw n =
     bindr (run_cmd sys ''./flash_erase /dev/mtd0 0 0'' []) (\<lambda>done.
     bindr (burn_system sys block page out [0 ..< uIBRAreaSize] done) (\<lambda>done.
     bindr (run_cmd sys ''./flash_erase /dev/mtd1 0 0'' done) (\<lambda>done.
     burn_entries sys block page ini fw [0 ..< nat n] ''./flash_erase /dev/mtd1 0 0'' done)))"

subsection \<open>Options\<close>

record mn_opts =
  ipMkSysImgFilePath :: "string option"
  ipTWFilePath :: "string option"
  opOutSysFilePath :: "string option"
  oobSize :: "32 word"
  blockSize :: "32 word"
  pageSize :: "32 word"
  noBurn :: bool

definition mn_opts_init :: mn_opts where
  "mn_opts_init =
     \<lparr>ipMkSysImgFilePath = None, ipTWFilePath = None, opOutSysFilePath = None, oobSize = 64, blockSize = 64 * 2048, pageSize = 2048, noBurn = False\<rparr>"

text \<open>The answers of \<open>getopt\<close>: the option and \<open>optarg\<close>; \<open>usage\<close> exits.\<close>

fun mn_getopt :: "(char \<times> string) list \<Rightarrow> mn_opts \<Rightarrow> fault + mn_opts" where
  "mn_getopt [] o' = Inr o'"
| "mn_getopt ((ch, arg) # as) o' =
     (if ch = CHR ''f'' then mn_getopt as (o'\<lparr>ipMkSysImgFilePath := Some arg\<rparr>)
      else if ch = CHR ''t'' then mn_getopt as (o'\<lparr>ipTWFilePath := Some arg\<rparr>)
      else if ch = CHR ''x'' then mn_getopt as (o'\<lparr>opOutSysFilePath := Some arg\<rparr>)
      else if ch = CHR ''o'' then mn_getopt as (o'\<lparr>oobSize := word_of_int (atoi arg)\<rparr>)
      else if ch = CHR ''b'' then mn_getopt as (o'\<lparr>blockSize := word_of_int (atoi arg)\<rparr>)
      else if ch = CHR ''p'' then mn_getopt as (o'\<lparr>pageSize := word_of_int (atoi arg)\<rparr>)
      else if ch = CHR ''q'' then mn_getopt as (o'\<lparr>noBurn := True\<rparr>)
      else Inl (ProcessExit 1))"

subsection \<open>The system block\<close>

text \<open>Words in the memory of the little-endian target, and the structs as their bytes.\<close>

definition le32 :: "32 word \<Rightarrow> string" where
  "le32 w = map (\<lambda>k. char_of (unat (drop_bit (8 * k) w) mod 256)) [0, 1, 2, 3]"

definition le16 :: "16 word \<Rightarrow> string" where
  "le16 w = map (\<lambda>k. char_of (unat (drop_bit (8 * k) w) mod 256)) [0, 1]"

definition fw_bytes :: "fw_info \<Rightarrow> string" where
  "fw_bytes e =
     le16 (imageNo e) @ le16 (imageFlag e) @ le16 (startBlock e) @ le16 (endBlock e) @ le32 (executeAddr e) @ le32 (fileLen e) @ imageName e"

definition optional_bytes :: "optional_struct \<Rightarrow> string" where
  "optional_bytes c = le32 (OptionalMarker c) @ le32 (Counter c) @ concat (map (\<lambda>p. le32 (address p) @ le32 (pair_value p)) (Pairs c))"

definition optional_ini_size :: "optional_struct \<Rightarrow> nat" where
  "optional_ini_size c =
     (if Counter c = 0 then 0
      else 8 * (unat (Counter c) + 1) + (if Counter c mod 2 = 0 then 8 else 0))"

text \<open>\<open>NandMark\<close>\<close>

definition nand_mark :: "bool \<Rightarrow> nat \<Rightarrow> string" where
  "nand_mark no_burn len = le32 0x57425AA5 @ le32 (if no_burn then 0x01F00000 else 0x00900000) @ le32 (of_nat len) @ le32 0"

text \<open>The copies of the loader part.\<close>

definition copy_loader :: "(string \<Rightarrow> string option) \<Rightarrow> bool \<Rightarrow> optional_struct \<Rightarrow> string \<Rightarrow> string \<Rightarrow> fault + string" where
  "copy_loader fs no_burn c loader buf =
     (let bytes = (case fs loader of None \<Rightarrow> [] | Some bytes \<Rightarrow> bytes) in
      bindr (arr_copy 0 (nand_mark no_burn (length bytes)) buf) (\<lambda>buf1.
      bindr (arr_copy 16 (take (optional_ini_size c) (optional_bytes c)) buf1) (\<lambda>buf2.
      arr_copy (16 + optional_ini_size c) bytes buf2)))"

text \<open>The loop over the copies of the executable.\<close>

fun exec_entries ::
  "(string \<Rightarrow> string option) \<Rightarrow> 32 word \<Rightarrow> ini_info \<Rightarrow> nat \<Rightarrow> int \<Rightarrow> fw_info list \<Rightarrow> fault + (int \<times> fw_info list)" where
  "exec_entries fs block ini 0 idx fw = Inr (idx, fw)"
| "exec_entries fs block ini (Suc n) idx fw =
     bindr (write_fw_info fs block (idx + 1) (ExecFile ini) ImageFlag_Exec (ExecAddress ini) fw) (\<lambda>fw1.
     exec_entries fs block ini n (idx + 1) fw1)"

text \<open>The three parts from \<open>copy NandLoader\<close> to \<open>WriteSysteInfo\<close>: the buffer, \<open>gFileInfoIdx\<close> and the table.\<close>

definition loader_part ::
  "(string \<Rightarrow> string option) \<Rightarrow> mn_opts \<Rightarrow> ini_info \<Rightarrow> optional_struct \<Rightarrow> string \<Rightarrow> fault + (string \<times> int \<times> fw_info list)" where
  "loader_part fs o' ini c buf =
     (if cstr (NandLoader ini) = [] then Inr (buf, -1, fw_erased)
      else
        bindr (copy_loader fs (noBurn o') c (cstr (NandLoader ini)) buf) (\<lambda>buf1.
        bindr (write_fw_info fs (blockSize o') 0 (NandLoader ini) ImageFlag_System (if noBurn o' then 0x01F00000 else 0x00900000) fw_erased)
          (\<lambda>fw. Inr (buf1, 0, fw))))"

definition logo_part :: "(string \<Rightarrow> string option) \<Rightarrow> 32 word \<Rightarrow> ini_info \<Rightarrow> int \<Rightarrow> fw_info list \<Rightarrow> fault + (int \<times> fw_info list)" where
  "logo_part fs block ini idx fw =
     (if cstr (Logo ini) = [] then Inr (idx, fw)
      else bindr (write_fw_info fs block (idx + 1) (Logo ini) ImageFlag_Logo 0x500000 fw) (\<lambda>fw1. Inr (idx + 1, fw1)))"

definition exec_part :: "(string \<Rightarrow> string option) \<Rightarrow> 32 word \<Rightarrow> ini_info \<Rightarrow> int \<Rightarrow> fw_info list \<Rightarrow> fault + (int \<times> fw_info list)" where
  "exec_part fs block ini idx fw =
     (if cstr (ExecFile ini) = [] then Inr (idx, fw) else exec_entries fs block ini (nat (ExecFileNum ini)) idx fw)"

definition collect_images ::
  "(string \<Rightarrow> string option) \<Rightarrow> mn_opts \<Rightarrow> ini_info \<Rightarrow> optional_struct \<Rightarrow> string \<Rightarrow> fault + (string \<times> int \<times> fw_info list)" where
  "collect_images fs o' ini c buf =
     bindr (loader_part fs o' ini c buf) (\<lambda>(buf1, idx, fw).
     bindr (logo_part fs (blockSize o') ini idx fw) (\<lambda>(idx1, fw1).
     bindr (exec_part fs (blockSize o') ini idx1 fw1) (\<lambda>(idx2, fw2).
     Inr (buf1, idx2, fw2))))"

text \<open>The information at the second last page.\<close>

definition write_system_info :: "mn_opts \<Rightarrow> int \<Rightarrow> fw_info list \<Rightarrow> string \<Rightarrow> fault + string" where
  "write_system_info o' n fw buf =
     (let at = unat (blockSize o' - 2 * pageSize o') in
      bindr (arr_copy at (le32 0x574255AA @ le32 (word_of_int n) @ le32 0 @ le32 0x57425963) buf) (\<lambda>buf1.
      arr_copy (at + 16) (concat (map fw_bytes fw)) buf1))"

definition mn_writer ::
  "(string \<Rightarrow> string option) \<Rightarrow> (string \<Rightarrow> bool) \<Rightarrow> bool \<Rightarrow> (string \<Rightarrow> int) \<Rightarrow> string \<Rightarrow> string \<Rightarrow> ini_info \<Rightarrow> (char \<times> string) list \<Rightarrow>
    fault + ((string \<times> string) option \<times> string list)" where
  "mn_writer fs can_write malloc_ok sys stack1 stack2 ini0 args =
     bindr (mn_getopt args mn_opts_init) (\<lambda>o'.
     if pageSize o' mod 512 \<noteq> 0 \<or> blockSize o' mod 512 \<noteq> 0 \<or> oobSize o' = 0 then Inl (ProcessExit 1)
     else
       (case (ipTWFilePath o', ipMkSysImgFilePath o') of
          (Some tw, Some mk) \<Rightarrow>
            if fs tw = None then Inl (ProcessExit 1)
            else if fs mk = None then Inl (ProcessExit 1)
            else if \<not> malloc_ok then Inl (ProcessExit 1)
            else
              bindr (ProcessINI fs mk stack1 ini_buffer_init ini0) (\<lambda>(status, b, ini).
              if status < 0 then Inl (ProcessExit 1)
              else if fs (cstr (NandLoader ini)) = None then Inl (ProcessExit 1)
              else if pageSize o' = 0 then Inl DivByZero
              else
                bindr (ProcessOptionalINI fs tw stack2 ini_buffer_init) (\<lambda>(status, b2, c).
                if status < 0 then Inl (ProcessExit 1)
                else
                  bindr (collect_images fs o' ini c (replicate (unat (blockSize o')) CHR 0xFF)) (\<lambda>(buf, idx, fw).
                  if cstr (NandLoader ini) = [] \<and> cstr (Logo ini) = [] \<and> cstr (ExecFile ini) = [] then Inr (None, [])
                  else
                    bindr (write_system_info o' (idx + 1) fw buf) (\<lambda>img.
                    (case opOutSysFilePath o' of
                       None \<Rightarrow> Inl NullDeref
                     | Some out \<Rightarrow>
                         if \<not> can_write out then Inl NullDeref
                         else
                           bindr (burn_images sys (blockSize o') (pageSize o') out ini fw (idx + 1)) (\<lambda>log.
                           Inr (Some (out, img), log)))))))
        | _ \<Rightarrow> Inl (ProcessExit 1)))"

subsection \<open>The table of images\<close>

text \<open>An image: the array with its name, its flag, its execution address and its size.\<close>

type_synonym image = "string \<times> 16 word \<times> 32 word \<times> nat"

definition entry_at :: "nat \<Rightarrow> nat \<Rightarrow> nat \<Rightarrow> image \<Rightarrow> fw_info" where
  "entry_at idx start fin im =
     (case im of (name, flag, addr, len) \<Rightarrow>
        \<lparr>imageNo = of_nat idx, imageFlag = flag, startBlock = of_nat start, endBlock = of_nat fin, executeAddr = addr, fileLen = of_nat len,
         imageName = (take 32 name)[31 := CHR 0x00]\<rparr>)"

definition blocks_of :: "nat \<Rightarrow> image \<Rightarrow> nat" where
  "blocks_of block im = (case im of (_, _, _, len) \<Rightarrow> len div block + 1)"

text \<open>The images one behind the other, from the entry \<open>idx\<close> and the block \<open>start\<close> on.\<close>

fun layout :: "nat \<Rightarrow> nat \<Rightarrow> nat \<Rightarrow> image list \<Rightarrow> fw_info list" where
  "layout block idx start [] = []"
| "layout block idx start (im # ims) =
     entry_at idx start (start + blocks_of block im - 1) im # layout block (idx + 1) (start + blocks_of block im) ims"

definition next_block :: "nat \<Rightarrow> nat \<Rightarrow> image list \<Rightarrow> nat" where
  "next_block block start ims = start + sum_list (map (blocks_of block) ims)"

definition pad_table :: "fw_info list \<Rightarrow> fw_info list" where
  "pad_table es = es @ drop (length es) fw_erased"

lemma layout_append:
  "layout block idx start (ims @ jms) = layout block idx start ims @ layout block (idx + length ims) (next_block block start ims) jms"
  by (induction ims arbitrary: idx start) (simp_all add: next_block_def ac_simps)

lemma length_layout [simp]: "length (layout block idx start ims) = length ims"
  by (induction ims arbitrary: idx start) simp_all

lemma length_pad_table [simp]: "length es \<le> 16 \<Longrightarrow> length (pad_table es) = 16"
  by (simp add: pad_table_def fw_erased_def MAX_FWInfo_def)

lemma nth_pad_table [simp]: "i < length es \<Longrightarrow> pad_table es ! i = es ! i"
  by (simp add: pad_table_def nth_append)

lemma pad_table_snoc:
  assumes "length es < 16"
  shows "(pad_table es)[length es := e] = pad_table (es @ [e])"
proof -
  have "drop (length es) fw_erased = fw_erased ! length es # drop (Suc (length es)) fw_erased"
    using assms by (intro Cons_nth_drop_Suc [symmetric]) (simp add: fw_erased_def MAX_FWInfo_def)
  thus ?thesis by (simp add: pad_table_def list_update_append)
qed

lemma of_nat_div_u32:
  assumes "a < 4294967296" and "b < 4294967296"
  shows "(of_nat a div of_nat b :: 32 word) = of_nat (a div b)"
proof -
  have "a div b < 4294967296" using assms(1) by (rule le_less_trans [OF div_le_dividend])
  thus ?thesis
    using assms by (simp add: word_unat_eq_iff unat_div_distrib unat_of_nat)
qed

text \<open>\<open>write_fw_info\<close> on the table that ends in front of the entry: the image goes behind the one before.\<close>

lemma write_fw_info_next:
  assumes "fs (cstr name) = Some bytes" and "flag \<noteq> ImageFlag_System" and "es \<noteq> []" and "length es < 16"
    and "endBlock (last es) = of_nat (start - 1)" and "0 < start" and "start + length bytes div unat block < 65536"
    and "length bytes < 4294967296" and "block \<noteq> 0"
  shows "write_fw_info fs block (int (length es)) name flag addr (pad_table es) =
    Inr (pad_table (es @ layout (unat block) (length es) start [(name, flag, addr, length bytes)]))"
proof -
  have before: "arr_get (pad_table es) (int (length es) - 1) = Inr (last es)"
    using assms(3,4) by (auto simp: last_conv_nth nat_diff_distrib Suc_leI)
  have start: "of_nat (start - Suc 0) + 1 = (of_nat start :: 16 word)"
    using assms(6) by (cases start) simp_all
  have "unat (of_nat start :: 16 word) = start" using assms(7) by (simp add: unat_of_nat)
  hence wide: "ucast (of_nat start :: 16 word) = (of_nat start :: 32 word)"
    using assms(7) by (simp add: word_unat_eq_iff unat_of_nat unsigned_ucast_eq take_bit_nat_eq_self)
  have div: "of_nat (length bytes) div block = (of_nat (length bytes div unat block) :: 32 word)"
    using of_nat_div_u32 [of "length bytes" "unat block"] assms(8) unsigned_less [of block] by simp
  have narrow: "ucast (of_nat (start + length bytes div unat block) :: 32 word) = (of_nat (start + length bytes div unat block) :: 16 word)"
    using assms(7) by (subst unsigned_of_nat) (simp add: take_bit_nat_eq_self)
  show ?thesis
    using assms(1,2,4,5,9) before
    by (simp add: write_fw_info_def Let_def start wide div pad_table_snoc entry_at_def blocks_of_def narrow flip: of_nat_add)
qed

lemma next_block_simps [simp]:
  "next_block block start [] = start"
  "next_block block start (im # ims) = next_block block (start + blocks_of block im) ims"
  by (simp_all add: next_block_def)

lemma next_block_ge: "start \<le> next_block block start ims"
  by (simp add: next_block_def)

lemma exec_entries_layout:
  assumes "fs (cstr (ExecFile ini)) = Some bytes" and "length bytes < 4294967296" and "block \<noteq> 0"
    and "es \<noteq> []" and "length es + n \<le> 16" and "endBlock (last es) = of_nat (start - 1)" and "0 < start"
    and "next_block (unat block) start (replicate n (ExecFile ini, ImageFlag_Exec, ExecAddress ini, length bytes)) \<le> 65536"
  shows "exec_entries fs block ini n (int (length es) - 1) (pad_table es) =
    Inr (int (length es + n) - 1,
      pad_table (es @ layout (unat block) (length es) start (replicate n (ExecFile ini, ImageFlag_Exec, ExecAddress ini, length bytes))))"
  using assms(4-)
proof (induction n arbitrary: es start)
  case (Suc n)
  let ?im = "(ExecFile ini, ImageFlag_Exec, ExecAddress ini, length bytes)" and ?q = "blocks_of (unat block) (ExecFile ini, ImageFlag_Exec, ExecAddress ini, length bytes)"
  let ?es = "es @ layout (unat block) (length es) start [?im]"
  have q: "?q = length bytes div unat block + 1" by (simp add: blocks_of_def)
  have fits: "start + length bytes div unat block < 65536"
    using Suc.prems(5) next_block_ge [of "start + ?q" "unat block" "replicate n ?im"] by (simp add: q)
  have step: "write_fw_info fs block (int (length es)) (ExecFile ini) ImageFlag_Exec (ExecAddress ini) (pad_table es) = Inr (pad_table ?es)"
    using Suc.prems assms(1-3) fits by (intro write_fw_info_next) (simp_all add: ImageFlag_Exec_def ImageFlag_System_def)
  have "exec_entries fs block ini n (int (length ?es) - 1) (pad_table ?es) =
      Inr (int (length ?es + n) - 1, pad_table (?es @ layout (unat block) (length ?es) (start + ?q) (replicate n ?im)))"
    by (rule Suc.IH) (use Suc.prems in \<open>simp_all add: entry_at_def q\<close>)
  thus ?case
    using step by (simp add: layout_append [of _ _ _ "[?im]", simplified] ac_simps)
qed simp

definition file_size :: "(string \<Rightarrow> string option) \<Rightarrow> string \<Rightarrow> nat" where
  "file_size fs name = (case fs name of None \<Rightarrow> 0 | Some bytes \<Rightarrow> length bytes)"

text \<open>The images behind the loader, in the order of the table.\<close>

definition images_of :: "(string \<Rightarrow> string option) \<Rightarrow> ini_info \<Rightarrow> image list" where
  "images_of fs ini =
     (if cstr (Logo ini) = [] then [] else [(Logo ini, ImageFlag_Logo, 0x500000, file_size fs (cstr (Logo ini)))]) @
     (if cstr (ExecFile ini) = [] then []
      else replicate (nat (ExecFileNum ini)) (ExecFile ini, ImageFlag_Exec, ExecAddress ini, file_size fs (cstr (ExecFile ini))))"

definition loader_addr :: "bool \<Rightarrow> 32 word" where
  "loader_addr no_burn = (if no_burn then 0x01F00000 else 0x00900000)"

definition image_table :: "(string \<Rightarrow> string option) \<Rightarrow> mn_opts \<Rightarrow> ini_info \<Rightarrow> fw_info list" where
  "image_table fs o' ini =
     entry_at 0 0 3 (NandLoader ini, ImageFlag_System, loader_addr (noBurn o'), file_size fs (cstr (NandLoader ini))) #
     layout (unat (blockSize o')) 1 4 (images_of fs ini)"

text \<open>What the table asks of the configuration: the files exist, there is room for the entries and the blocks.\<close>

definition images_fit :: "(string \<Rightarrow> string option) \<Rightarrow> mn_opts \<Rightarrow> ini_info \<Rightarrow> bool" where
  "images_fit fs o' ini \<longleftrightarrow>
     blockSize o' \<noteq> 0 \<and> cstr (NandLoader ini) \<noteq> [] \<and> fs (cstr (NandLoader ini)) \<noteq> None \<and>
     (\<forall>name \<in> {cstr (Logo ini), cstr (ExecFile ini)}. name \<noteq> [] \<longrightarrow> fs name \<noteq> None \<and> file_size fs name < 4294967296) \<and>
     length (images_of fs ini) < 16 \<and> next_block (unat (blockSize o')) 4 (images_of fs ini) \<le> 65536"

lemma collect_images_table:
  assumes "images_fit fs o' ini"
  shows "collect_images fs o' ini c buf =
    bindr (copy_loader fs (noBurn o') c (cstr (NandLoader ini)) buf)
      (\<lambda>buf1. Inr (buf1, int (length (images_of fs ini)), pad_table (image_table fs o' ini)))"
proof -
  let ?block = "unat (blockSize o')"
  let ?e0 = "entry_at 0 0 3 (NandLoader ini, ImageFlag_System, loader_addr (noBurn o'), file_size fs (cstr (NandLoader ini)))"
  let ?logo = "(if cstr (Logo ini) = [] then [] else [(Logo ini, ImageFlag_Logo, 0x500000 :: 32 word, file_size fs (cstr (Logo ini)))])"
  let ?exec = "(if cstr (ExecFile ini) = [] then []
      else replicate (nat (ExecFileNum ini)) (ExecFile ini, ImageFlag_Exec, ExecAddress ini, file_size fs (cstr (ExecFile ini))))"
  let ?es = "?e0 # layout ?block 1 4 ?logo"
  have images: "images_of fs ini = ?logo @ ?exec" by (simp add: images_of_def)
  have block: "blockSize o' \<noteq> 0" using assms by (simp add: images_fit_def)
  have mid: "next_block ?block 4 ?logo \<le> 65536" "length (?logo @ ?exec) < 16" "next_block ?block (next_block ?block 4 ?logo) ?exec \<le> 65536"
    using assms next_block_ge [of "next_block ?block 4 ?logo" ?block ?exec] by (auto simp: images_fit_def images next_block_def)
  have first: "write_fw_info fs (blockSize o') 0 (NandLoader ini) ImageFlag_System (loader_addr (noBurn o')) fw_erased = Inr (pad_table [?e0])"
    using assms pad_table_snoc [of "[]" ?e0]
    by (auto simp: images_fit_def write_fw_info_def Let_def entry_at_def file_size_def pad_table_def fw_erased_def MAX_FWInfo_def)
  have second: "logo_part fs (blockSize o') ini 0 (pad_table [?e0]) = Inr (int (length ?es) - 1, pad_table ?es)"
  proof (cases "cstr (Logo ini) = []")
    case False
    then obtain bytes where b: "fs (cstr (Logo ini)) = Some bytes" "length bytes < 4294967296"
      using assms by (auto simp: images_fit_def file_size_def)
    have "write_fw_info fs (blockSize o') (int (length [?e0])) (Logo ini) ImageFlag_Logo 0x500000 (pad_table [?e0]) =
        Inr (pad_table ([?e0] @ layout ?block (length [?e0]) 4 [(Logo ini, ImageFlag_Logo, 0x500000, length bytes)]))"
      using b mid(1) False block
      by (intro write_fw_info_next) (simp_all add: ImageFlag_Logo_def ImageFlag_System_def entry_at_def file_size_def blocks_of_def)
    thus ?thesis using False b by (simp add: logo_part_def file_size_def)
  qed (simp add: logo_part_def)
  have third: "exec_part fs (blockSize o') ini (int (length ?es) - 1) (pad_table ?es) =
      Inr (int (length (?logo @ ?exec)), pad_table (?es @ layout ?block (length ?es) (next_block ?block 4 ?logo) ?exec))"
  proof (cases "cstr (ExecFile ini) = []")
    case False
    then obtain bytes where b: "fs (cstr (ExecFile ini)) = Some bytes" "length bytes < 4294967296"
      using assms by (auto simp: images_fit_def file_size_def)
    have "exec_entries fs (blockSize o') ini (nat (ExecFileNum ini)) (int (length ?es) - 1) (pad_table ?es) =
        Inr (int (length ?es + nat (ExecFileNum ini)) - 1, pad_table (?es @ layout ?block (length ?es) (next_block ?block 4 ?logo)
          (replicate (nat (ExecFileNum ini)) (ExecFile ini, ImageFlag_Exec, ExecAddress ini, length bytes))))"
      using b mid(2,3) False block
      by (intro exec_entries_layout) (auto simp: entry_at_def file_size_def blocks_of_def split: if_splits)
    thus ?thesis using False b by (simp add: exec_part_def file_size_def)
  qed (simp add: exec_part_def)
  have table: "?es @ layout ?block (length ?es) (next_block ?block 4 ?logo) ?exec = image_table fs o' ini"
    unfolding image_table_def images layout_append by simp
  have "loader_part fs o' ini c buf =
      bindr (copy_loader fs (noBurn o') c (cstr (NandLoader ini)) buf) (\<lambda>buf1. Inr (buf1, 0, pad_table [?e0]))"
    using assms first by (simp add: loader_part_def images_fit_def loader_addr_def)
  thus ?thesis
    using second third unfolding table images
    by (cases "copy_loader fs (noBurn o') c (cstr (NandLoader ini)) buf") (simp_all add: collect_images_def)
qed

lemma layout_nth:
  assumes "i < length ims"
  shows "layout block idx start ims ! i =
    entry_at (idx + i) (next_block block start (take i ims)) (next_block block start (take (Suc i) ims) - 1) (ims ! i)"
  using assms
proof (induction ims arbitrary: idx start i)
  case (Cons im ims)
  thus ?case by (cases i) (simp_all add: blocks_of_def split: prod.split)
qed simp

lemma next_block_take: "next_block block start (take i ims) \<le> next_block block start ims"
  using next_block_ge [of "next_block block start (take i ims)" block "drop i ims"]
  by (metis append_take_drop_id next_block_def add.assoc map_append sum_list_append)

lemma next_block_Suc:
  "i < length ims \<Longrightarrow> next_block block start (take (Suc i) ims) = next_block block start (take i ims) + blocks_of block (ims ! i)"
  by (simp add: next_block_def take_Suc_conv_app_nth)

text \<open>
  C17: The images of the table lie behind each other: when the files exist and the entries and
  blocks are enough, the loader has the blocks 0 to 3, every further entry starts at the block
  behind the end of the one before, and its blocks hold more bytes than its file has, so no two
  images overlap.
\<close>

theorem images_disjoint:
  assumes "images_fit fs o' ini" and "copy_loader fs (noBurn o') c (cstr (NandLoader ini)) buf = Inr buf1"
  shows "\<exists>fw. collect_images fs o' ini c buf = Inr (buf1, int (length (images_of fs ini)), fw) \<and>
    startBlock (fw ! 0) = 0 \<and> endBlock (fw ! 0) = 3 \<and>
    (\<forall>i < length (images_of fs ini).
       unat (startBlock (fw ! Suc i)) = unat (endBlock (fw ! i)) + 1 \<and>
       unat (fileLen (fw ! Suc i)) < (unat (endBlock (fw ! Suc i)) + 1 - unat (startBlock (fw ! Suc i))) * unat (blockSize o'))"
proof -
  let ?fw = "pad_table (image_table fs o' ini)" and ?ims = "images_of fs ini" and ?block = "unat (blockSize o')"
  have len: "length (image_table fs o' ini) = Suc (length ?ims)" by (simp add: image_table_def)
  have ends: "next_block ?block 4 ?ims \<le> 65536" "0 < ?block" using assms(1) by (auto simp: images_fit_def unat_gt_0)
  have fin: "unat (endBlock (?fw ! i)) + 1 = next_block ?block 4 (take i ?ims)" if i: "i \<le> length ?ims" for i
  proof (cases i)
    case 0
    thus ?thesis by (simp add: image_table_def len entry_at_def)
  next
    case (Suc k)
    have "next_block ?block 4 (take (Suc k) ?ims) \<le> 65536" using next_block_take ends(1) by (rule order_trans)
    moreover have "4 \<le> next_block ?block 4 (take (Suc k) ?ims)" by (rule next_block_ge)
    ultimately obtain n where "next_block ?block 4 (take (Suc k) ?ims) = Suc n" "n < 65536"
      by (cases "next_block ?block 4 (take (Suc k) ?ims)") auto
    thus ?thesis
      using i Suc by (cases "?ims ! k") (simp add: image_table_def len layout_nth entry_at_def unat_of_nat)
  qed
  have start: "unat (startBlock (?fw ! Suc i)) = next_block ?block 4 (take i ?ims)"
    "unat (fileLen (?fw ! Suc i)) < blocks_of ?block (?ims ! i) * ?block" if i: "i < length ?ims" for i
  proof -
    obtain name flag addr len where im: "?ims ! i = (name, flag, addr, len)" by (cases "?ims ! i") auto
    have "next_block ?block 4 (take (Suc i) ?ims) \<le> 65536" using next_block_take ends(1) by (rule order_trans)
    hence "next_block ?block 4 (take i ?ims) < 65536" by (simp add: next_block_Suc [OF i] im blocks_of_def)
    thus "unat (startBlock (?fw ! Suc i)) = next_block ?block 4 (take i ?ims)"
      using i by (simp add: image_table_def len layout_nth entry_at_def im unat_of_nat)
    have "unat (of_nat len :: 32 word) \<le> len" by (simp add: unat_of_nat)
    also have "len < (len div ?block + 1) * ?block"
      using ends(2) by (metis add.commute mult.commute dividend_less_times_div Suc_eq_plus1 mult_Suc_right)
    finally show "unat (fileLen (?fw ! Suc i)) < blocks_of ?block (?ims ! i) * ?block"
      using i by (simp add: image_table_def len layout_nth entry_at_def im blocks_of_def)
  qed
  have "unat (endBlock (?fw ! Suc i)) + 1 - unat (startBlock (?fw ! Suc i)) = blocks_of ?block (?ims ! i)" if "i < length ?ims" for i
    using fin [of "Suc i"] start(1) [OF that] that by (simp add: next_block_Suc)
  moreover have "startBlock (?fw ! 0) = 0" "endBlock (?fw ! 0) = 3" by (simp_all add: image_table_def len entry_at_def)
  ultimately show ?thesis
    using start fin collect_images_table [OF assms(1)] assms(2) by (intro exI [of _ ?fw]) simp
qed

subsection \<open>The bytes of the system block\<close>

lemma length_le [simp]: "length (le32 w) = 4" "length (le16 v) = 2"
  by (simp_all add: le32_def le16_def)

lemma length_fw_bytes [simp]: "length (imageName e) = 32 \<Longrightarrow> length (fw_bytes e) = 48"
  by (simp add: fw_bytes_def)

lemma length_concat_same: "\<forall>x \<in> set xs. length (f x) = n \<Longrightarrow> length (concat (map f xs)) = n * length xs"
  by (induction xs) simp_all

lemma blit_replicate:
  assumes "length xs \<le> i" and "i + length ys \<le> n"
  shows "blit i ys (xs @ replicate (n - length xs) c) = xs @ replicate (i - length xs) c @ ys @ replicate (n - i - length ys) c"
  using assms by (simp add: blit_def take_replicate drop_replicate min_def)

text \<open>The block: header, settings, loader, erased bytes, the information and the table.\<close>

definition system_block :: "bool \<Rightarrow> optional_struct \<Rightarrow> string \<Rightarrow> nat \<Rightarrow> nat \<Rightarrow> nat \<Rightarrow> fw_info list \<Rightarrow> string" where
  "system_block no_burn c loader n block page fw =
     (let front = nand_mark no_burn (length loader) @ take (optional_ini_size c) (optional_bytes c) @ loader;
          info = le32 0x574255AA @ le32 (of_nat n) @ le32 0 @ le32 0x57425963 @ concat (map fw_bytes fw)
      in front @ replicate (block - 2 * page - length front) CHR 0xFF @ info @ replicate (2 * page - length info) CHR 0xFF)"

definition settings_ok :: "optional_struct \<Rightarrow> bool" where
  "settings_ok c \<longleftrightarrow> length (Pairs c) = 63 \<and> unat (Counter c) \<le> 63"

lemma length_optional_bytes: "settings_ok c \<Longrightarrow> length (optional_bytes c) = 512"
  by (simp add: settings_ok_def optional_bytes_def length_concat_same [where n = 8])

lemma optional_ini_size_le: "settings_ok c \<Longrightarrow> optional_ini_size c \<le> 512"
proof -
  assume ok: "settings_ok c"
  have "unat (Counter c) \<noteq> 63" if "even (Counter c)"
  proof
    assume "unat (Counter c) = 63"
    hence "Counter c = 63" by (simp add: word_unat_eq_iff)
    thus False using that by simp
  qed
  thus ?thesis using ok by (auto simp: settings_ok_def optional_ini_size_def le_less)
qed

lemma blit_prefix: "i = length xs \<Longrightarrow> length ys \<le> length a \<Longrightarrow> blit i ys (xs @ a) = xs @ blit 0 ys a"
  by (simp add: blit_def)

lemma copy_loader_bytes:
  assumes "fs loader = Some bytes" and "settings_ok c" and "16 + optional_ini_size c + length bytes \<le> n"
  shows "copy_loader fs no_burn c loader (replicate n CHR 0xFF) =
    Inr ((nand_mark no_burn (length bytes) @ take (optional_ini_size c) (optional_bytes c) @ bytes) @
      replicate (n - (16 + optional_ini_size c + length bytes)) CHR 0xFF)"
proof -
  let ?m = "nand_mark no_burn (length bytes)" and ?t = "take (optional_ini_size c) (optional_bytes c)"
  have len: "length ?m = 16" "length ?t = optional_ini_size c"
    using length_optional_bytes [OF assms(2)] optional_ini_size_le [OF assms(2)] by (simp_all add: nand_mark_def)
  have one: "arr_copy 0 ?m (replicate n CHR 0xFF) = Inr (?m @ replicate (n - 16) CHR 0xFF)"
    using assms(3) len by (simp add: drop_replicate)
  have two: "arr_copy 16 ?t (?m @ replicate (n - 16) CHR 0xFF) = Inr (?m @ ?t @ replicate (n - 16 - optional_ini_size c) CHR 0xFF)"
    using assms(3) len by (simp add: blit_prefix drop_replicate)
  have "arr_copy (16 + optional_ini_size c) bytes ((?m @ ?t) @ replicate (n - 16 - optional_ini_size c) CHR 0xFF) =
      Inr ((?m @ ?t) @ bytes @ replicate (n - 16 - optional_ini_size c - length bytes) CHR 0xFF)"
    using assms(3) len by (subst arr_copy_Inr, simp, subst blit_prefix) (simp_all add: drop_replicate)
  thus ?thesis
    using one two by (simp add: copy_loader_def assms(1) Let_def)
qed

lemma write_system_info_bytes:
  assumes "length front + 2 * unat (pageSize o') \<le> unat (blockSize o')" and "length fw = 16" and "\<forall>e \<in> set fw. length (imageName e) = 32"
    and "392 \<le> unat (pageSize o')"
  shows "write_system_info o' n fw (front @ replicate (unat (blockSize o') - length front) CHR 0xFF) =
    Inr (let info = le32 0x574255AA @ le32 (word_of_int n) @ le32 0 @ le32 0x57425963 @ concat (map fw_bytes fw) in
      front @ replicate (unat (blockSize o') - 2 * unat (pageSize o') - length front) CHR 0xFF @ info @
      replicate (2 * unat (pageSize o') - length info) CHR 0xFF)"
proof -
  let ?b = "unat (blockSize o')" and ?p = "unat (pageSize o')"
  let ?h = "le32 0x574255AA @ le32 (word_of_int n) @ le32 0 @ le32 0x57425963" and ?t = "concat (map fw_bytes fw)"
  have "?b < 4294967296" by (rule less_le_trans [OF unsigned_less]) simp
  hence "2 * ?p < 4294967296" using assms(1) by linarith
  hence two: "unat (2 * pageSize o') = 2 * ?p" by (simp add: unat_word_ariths)
  have at: "unat (blockSize o' - 2 * pageSize o') = ?b - 2 * ?p"
    using assms(1) by (subst unat_sub) (simp_all add: word_le_nat_alt two)
  have t: "length ?t = 768" using assms(2,3) by (subst length_concat_same [where n = 48]) simp_all
  let ?gap = "replicate (?b - 2 * ?p - length front) CHR 0xFF"
  have one: "blit (?b - 2 * ?p) ?h (front @ replicate (?b - length front) CHR 0xFF) = front @ ?gap @ ?h @ replicate (2 * ?p - 16) CHR 0xFF"
    using assms(1,4) by (subst blit_replicate) auto
  have "blit (?b - 2 * ?p + 16) ?t ((front @ ?gap @ ?h) @ replicate (2 * ?p - 16) CHR 0xFF) =
      (front @ ?gap @ ?h) @ blit 0 ?t (replicate (2 * ?p - 16) CHR 0xFF)"
    using assms(1,4) t by (intro blit_prefix) auto
  thus ?thesis
    using one assms(1,4) t by (simp add: write_system_info_def at Let_def drop_replicate)
qed

subsection \<open>The commands\<close>

definition system_cmds :: "32 word \<Rightarrow> 32 word \<Rightarrow> string \<Rightarrow> nat \<Rightarrow> string list" where
  "system_cmds block page out i =
     [''./nandwrite -m -a /dev/mtd0 -s 0x'' @ hex_u32 (of_nat i * block) @ '' '' @ out,
      ''./nanddump -c -o /dev/mtd0 -s 0x'' @ hex_u32 (of_nat i * block) @ '' -l 0x'' @ hex_u32 page @ '' > /dev/null'']"

definition dump_cmd :: "32 word \<Rightarrow> 32 word \<Rightarrow> fw_info \<Rightarrow> string" where
  "dump_cmd block page e =
     ''./nanddump -c -o /dev/mtd1 -s 0x'' @ hex_u32 (image_offset block e) @ '' -l 0x'' @ hex_u32 page @ '' > /dev/null''"

definition write_cmd :: "32 word \<Rightarrow> ini_info \<Rightarrow> fw_info \<Rightarrow> string" where
  "write_cmd block ini e =
     ''./nandwrite -p -m -a /dev/mtd1 -s 0x'' @ hex_u32 (image_offset block e) @ '' '' @
     cstr (if imageFlag e = ImageFlag_Logo then Logo ini else ExecFile ini)"

text \<open>The whole session, for a table that starts with the loader.\<close>

definition burn_log :: "32 word \<Rightarrow> 32 word \<Rightarrow> string \<Rightarrow> ini_info \<Rightarrow> fw_info list \<Rightarrow> string list" where
  "burn_log block page out ini table =
     ''./flash_erase /dev/mtd0 0 0'' # concat (map (system_cmds block page out) [0 ..< 4]) @
     [''./flash_erase /dev/mtd1 0 0'', ''./flash_erase /dev/mtd1 0 0'', dump_cmd block page (hd table)] @
     concat (map (\<lambda>e. [write_cmd block ini e, dump_cmd block page e]) (tl table))"

lemma length_hex_u32 [simp]: "length (hex_u32 w) \<le> 8"
  by (simp add: hex_u32_def length_hex_unat)

lemma print_cmd_short: "length s < 2048 \<Longrightarrow> print_cmd s = Inr s"
  by (simp add: print_cmd_def)

lemma dump_cmd_short: "print_cmd (dump_cmd block page e) = Inr (dump_cmd block page e)"
  using length_hex_u32 [of page] length_hex_u32 [of "image_offset block e"]
  by (intro print_cmd_short) (simp add: dump_cmd_def del: length_hex_u32)

lemma burn_system_log:
  assumes "\<forall>s. sys s \<noteq> -1" and "length out \<le> 1900"
  shows "burn_system sys block page out is done = Inr (done @ concat (map (system_cmds block page out) is))"
proof (induction "is" arbitrary: "done")
  case (Cons i "is")
  have "print_cmd s = Inr s" if "s \<in> set (system_cmds block page out i)" for s
    using that assms(2) length_hex_u32 [of page] length_hex_u32 [of "of_nat i * block"]
    by (intro print_cmd_short) (auto simp: system_cmds_def simp del: length_hex_u32)
  thus ?case
    using assms(1) Cons.IH by (simp add: run_cmd_def system_cmds_def)
qed simp

lemma burn_entries_log:
  assumes "\<forall>s. sys s \<noteq> -1" and "length (cstr (Logo ini)) \<le> 512" and "length (cstr (ExecFile ini)) \<le> 512"
    and "\<forall>i \<in> set is. i < length fw \<and> imageFlag (fw ! i) \<in> {ImageFlag_Logo, ImageFlag_Exec}"
  shows "burn_entries sys block page ini fw is szCmd done =
    Inr (done @ concat (map (\<lambda>i. [write_cmd block ini (fw ! i), dump_cmd block page (fw ! i)]) is))"
  using assms(4)
proof (induction "is" arbitrary: szCmd "done")
  case (Cons i "is")
  have "print_cmd (write_cmd block ini (fw ! i)) = Inr (write_cmd block ini (fw ! i))"
    using assms(2,3) length_hex_u32 [of "image_offset block (fw ! i)"]
    by (intro print_cmd_short) (auto simp: write_cmd_def simp del: length_hex_u32)
  moreover have "print_cmd (dump_cmd block page (fw ! i)) = Inr (dump_cmd block page (fw ! i))" by (rule dump_cmd_short)
  moreover have "ImageFlag_Logo \<noteq> ImageFlag_Exec" by (simp add: ImageFlag_Logo_def ImageFlag_Exec_def)
  ultimately show ?case
    using assms(1) Cons by (auto simp: run_cmd_def write_cmd_def dump_cmd_def)
qed simp

lemma burn_images_log:
  assumes "\<forall>s. sys s \<noteq> -1" and "length out \<le> 1900" and "length (cstr (Logo ini)) \<le> 512" and "length (cstr (ExecFile ini)) \<le> 512"
    and "length table \<le> 16" and "table = e # es" and "imageFlag e = ImageFlag_System"
    and "\<forall>e \<in> set es. imageFlag e \<in> {ImageFlag_Logo, ImageFlag_Exec}"
  shows "burn_images sys block page out ini (pad_table table) (int (length table)) = Inr (burn_log block page out ini table)"
proof -
  let ?fw = "pad_table table" and ?n = "length es"
  have idx: "[0 ..< nat (int (length table))] = 0 # map Suc [0 ..< ?n]"
    using assms(6) by (simp add: map_Suc_upt upt_conv_Cons nat_add_distrib del: upt_Suc)
  have e: "arr_get ?fw 0 = Inr e" using assms(5,6) by (simp add: arr_get_def nth_pad_table)
  have nth: "?fw ! Suc i = es ! i" if "i < ?n" for i using assms(6) that by simp
  have "burn_entries sys block page ini ?fw (map Suc [0 ..< ?n]) szCmd done =
      Inr (done @ concat (map (\<lambda>i. [write_cmd block ini (?fw ! i), dump_cmd block page (?fw ! i)]) (map Suc [0 ..< ?n])))" for szCmd "done"
    using assms(5,6,8) by (intro burn_entries_log assms(1,3,4)) (auto simp: nth simp del: image_Suc_atLeastLessThan)
  also have "map (\<lambda>i. [write_cmd block ini (?fw ! i), dump_cmd block page (?fw ! i)]) (map Suc [0 ..< ?n]) =
      map (\<lambda>e. [write_cmd block ini e, dump_cmd block page e]) es"
    by (intro nth_equalityI) (auto simp: nth)
  finally have rest: "burn_entries sys block page ini ?fw (map Suc [0 ..< ?n]) szCmd done =
      Inr (done @ concat (map (\<lambda>e. [write_cmd block ini e, dump_cmd block page e]) es))" for szCmd "done" .
  have flags: "imageFlag e \<noteq> ImageFlag_Logo" "imageFlag e \<noteq> ImageFlag_Exec"
    using assms(7) by (simp_all add: ImageFlag_Logo_def ImageFlag_Exec_def ImageFlag_System_def)
  have "burn_entries sys block page ini ?fw [0 ..< nat (int (length table))] szCmd done =
      Inr (done @ [szCmd, dump_cmd block page e] @ concat (map (\<lambda>e. [write_cmd block ini e, dump_cmd block page e]) es))" for szCmd "done"
    unfolding idx using assms(1) flags rest dump_cmd_short [of block page e] by (simp add: e run_cmd_def dump_cmd_def)
  thus ?thesis
    using assms(1) burn_system_log [OF assms(1,2), of block page "[0 ..< 4]"]
    by (simp add: burn_images_def run_cmd_def uIBRAreaSize_def burn_log_def assms(6))
qed

subsection \<open>The whole program\<close>

text \<open>The globals before the program runs, and what the image list leaves in them.\<close>

definition ini_zero :: ini_info where
  "ini_zero = \<lparr>NandLoader = replicate 512 CHR 0x00, Logo = replicate 512 CHR 0x00, ExecFile = replicate 512 CHR 0x00, ExecFileNum = 0, ExecAddress = 0\<rparr>"

definition ini_read :: "string \<Rightarrow> string \<Rightarrow> string \<Rightarrow> nat \<Rightarrow> nat \<Rightarrow> ini_info" where
  "ini_read loader logo exec num addr =
     \<lparr>NandLoader = strcpy_c (replicate 512 CHR 0x00) loader, Logo = strcpy_c (replicate 512 CHR 0x00) logo,
      ExecFile = strcpy_c (replicate 512 CHR 0x00) exec, ExecFileNum = int num, ExecAddress = of_nat addr\<rparr>"

lemma ProcessINI_zero:
  assumes "fs fileName = Some (ini_text loader logo exec num addr)" and "length stack = 256"
    and "value_line loader" and "value_line logo" and "value_line exec" and "num < 2147483648" and "addr < 2147483648"
  shows "\<exists>b. ProcessINI fs fileName stack ini_buffer_init ini_zero = Inr (0, b, ini_read loader logo exec num addr)"
proof -
  have "(replicate 512 CHR 0x00)[0 := CHR 0x00] = replicate 512 CHR 0x00" by (simp add: list_update_same_conv)
  thus ?thesis
    using ProcessINI_text [of fs fileName, OF assms, of ini_zero] by (simp add: ini_defaults_def ini_zero_def ini_read_def)
qed

lemma settings_of_ok: "length ps \<le> 63 \<Longrightarrow> settings_ok (settings_of ps)"
  by (simp add: settings_ok_def settings_of_def unat_of_nat)

lemma length_strcpy_c: "length s < 512 \<Longrightarrow> length (strcpy_c (replicate 512 CHR 0x00) s) = 512"
  by (simp add: strcpy_c_def)

lemma table_names:
  assumes "value_line loader" and "value_line logo" and "value_line exec"
  shows "\<forall>e \<in> set (pad_table (image_table fs o' (ini_read loader logo exec num addr))). length (imageName e) = 32"
proof -
  let ?ini = "ini_read loader logo exec num addr"
  have names: "length (NandLoader ?ini) = 512" "length (Logo ?ini) = 512" "length (ExecFile ?ini) = 512"
    using assms by (simp_all add: ini_read_def length_strcpy_c value_line_def plain_line_def)
  have "length (imageName e) = 32" if "e \<in> set (layout block idx start ims)" "\<forall>im \<in> set ims. length (fst im) = 512" for e block idx start ims
    using that by (induction ims arbitrary: idx start) (auto simp: entry_at_def)
  moreover have "\<forall>im \<in> set (images_of fs ?ini). length (fst im) = 512"
    using names by (auto simp: images_of_def)
  ultimately show ?thesis
    using names by (auto simp: pad_table_def image_table_def entry_at_def fw_erased_def dest: in_set_dropD)
qed

lemma table_flags: "\<forall>e \<in> set (layout block idx start (images_of fs ini)). imageFlag e \<in> {ImageFlag_Logo, ImageFlag_Exec}"
proof -
  have "\<forall>im \<in> set (images_of fs ini). fst (snd im) \<in> {ImageFlag_Logo, ImageFlag_Exec}"
    by (auto simp: images_of_def)
  moreover have "\<forall>im \<in> set ims. fst (snd im) \<in> F \<Longrightarrow> \<forall>e \<in> set (layout block idx start ims). imageFlag e \<in> F" for ims F
    by (induction ims arbitrary: idx start) (auto simp: entry_at_def)
  ultimately show ?thesis by blast
qed

text \<open>What a run needs: valid options, the two files, room in the block, and tools that start.\<close>

definition run_ready ::
  "(string \<Rightarrow> string option) \<Rightarrow> (string \<Rightarrow> bool) \<Rightarrow> mn_opts \<Rightarrow> string \<Rightarrow> (string \<times> string \<times> string \<times> nat \<times> nat) \<Rightarrow> (32 word \<times> 32 word) list \<Rightarrow> bool" where
  "run_ready fs can_write o' out images ps \<longleftrightarrow>
     (case images of (loader, logo, exec, num, addr) \<Rightarrow>
        pageSize o' mod 512 = 0 \<and> pageSize o' \<noteq> 0 \<and> blockSize o' mod 512 = 0 \<and> oobSize o' \<noteq> 0 \<and>
        (case ipMkSysImgFilePath o' of None \<Rightarrow> False | Some mk \<Rightarrow> fs mk = Some (ini_text loader logo exec num addr)) \<and>
        (case ipTWFilePath o' of None \<Rightarrow> False | Some tw \<Rightarrow> fs tw = Some (optional_text ps)) \<and>
        value_line loader \<and> value_line logo \<and> value_line exec \<and> num < 2147483648 \<and> addr < 2147483648 \<and>
        images_fit fs o' (ini_read loader logo exec num addr) \<and>
        16 + optional_ini_size (settings_of (take 63 ps)) + file_size fs loader + 2 * unat (pageSize o') \<le> unat (blockSize o') \<and>
        opOutSysFilePath o' = Some out \<and> can_write out \<and> length out \<le> 1900)"

text \<open>
  C16: The NAND writer end to end. With readable files and enough room it writes the system
  block (header with the size of the loader, register settings, loader, erased bytes up to the
  second last page, number and table of the images) to the file given with \<open>-x\<close>, erases both
  partitions, writes the block to each of the four system blocks and every image to the offset of
  its table entry, and dumps each one. The commands are the same with and without \<open>-q\<close>.
\<close>

theorem mn_writer_flashes:
  assumes "mn_getopt args mn_opts_init = Inr o'" and "run_ready fs can_write o' out (loader, logo, exec, num, addr) ps"
    and "length stack1 = 256" and "length stack2 = 256" and "\<forall>s. sys s \<noteq> -1"
  shows "mn_writer fs can_write True sys stack1 stack2 ini_zero args =
    (let ini = ini_read loader logo exec num addr; table = image_table fs o' ini in
     Inr (Some (out, system_block (noBurn o') (settings_of (take 63 ps)) (the (fs loader)) (length table)
            (unat (blockSize o')) (unat (pageSize o')) (pad_table table)),
          burn_log (blockSize o') (pageSize o') out ini table))"
proof -
  let ?ini = "ini_read loader logo exec num addr" and ?c = "settings_of (take 63 ps)" and ?b = "unat (blockSize o')" and ?p = "unat (pageSize o')"
  let ?table = "image_table fs o' (ini_read loader logo exec num addr)"
  have opts: "pageSize o' mod 512 = 0" "blockSize o' mod 512 = 0" "pageSize o' \<noteq> 0" "oobSize o' \<noteq> 0" "opOutSysFilePath o' = Some out"
      "can_write out" "length out \<le> 1900"
    and names: "value_line loader" "value_line logo" "value_line exec" and fit: "images_fit fs o' ?ini"
    and nums: "num < 2147483648" "addr < 2147483648"
    and room: "16 + optional_ini_size ?c + file_size fs loader + 2 * ?p \<le> ?b"
    using assms(2) by (auto simp: run_ready_def)
  obtain mk tw where files: "ipMkSysImgFilePath o' = Some mk" "fs mk = Some (ini_text loader logo exec num addr)"
      "ipTWFilePath o' = Some tw" "fs tw = Some (optional_text ps)"
    using assms(2) by (auto simp: run_ready_def split: option.splits)
  obtain b where one: "ProcessINI fs mk stack1 ini_buffer_init ini_zero = Inr (0, b, ?ini)"
    using ProcessINI_zero [of fs mk, OF files(2) assms(3) names nums] by blast
  obtain b2 where two: "ProcessOptionalINI fs tw stack2 ini_buffer_init = Inr (0, b2, ?c)"
    using ProcessOptionalINI_text [of fs tw, OF files(4) assms(4), of ini_buffer_init] by (auto simp: ini_buffer_init_def INI_BUF_SIZE_def)
  have cstrs: "cstr (NandLoader ?ini) = loader" "cstr (Logo ?ini) = logo" "cstr (ExecFile ?ini) = exec"
    using names by (simp_all add: ini_read_def cstr_strcpy_c value_line_def)
  obtain L where L: "fs loader = Some L" and loader: "loader \<noteq> []" using fit cstrs by (auto simp: images_fit_def)
  define front where "front = nand_mark (noBurn o') (length L) @ take (optional_ini_size ?c) (optional_bytes ?c) @ L"
  have ok: "settings_ok ?c" by (rule settings_of_ok) simp
  have front: "length front = 16 + optional_ini_size ?c + length L"
    using length_optional_bytes [OF ok] optional_ini_size_le [OF ok] by (simp add: nand_mark_def front_def)
  have copy: "copy_loader fs (noBurn o') ?c loader (replicate ?b CHR 0xFF) = Inr (front @ replicate (?b - length front) CHR 0xFF)"
    using copy_loader_bytes [of fs loader, OF L ok, of ?b] room L unfolding front by (simp add: file_size_def front_def)
  have len: "length ?table = Suc (length (images_of fs ?ini))" "length ?table \<le> 16"
    using fit by (simp_all add: image_table_def images_fit_def)
  have collect: "collect_images fs o' ?ini ?c (replicate ?b CHR 0xFF) =
      Inr (front @ replicate (?b - length front) CHR 0xFF, int (length ?table) - 1, pad_table ?table)"
    using collect_images_table [OF fit] copy by (simp add: cstrs len)
  have "?p mod 512 = 0" "0 < ?p" using opts(1,3) by (simp_all add: word_unat_eq_iff unat_mod_distrib)
  hence "512 \<le> ?p" by (intro dvd_imp_le) auto
  hence info: "write_system_info o' (int (length ?table)) (pad_table ?table) (front @ replicate (?b - length front) CHR 0xFF) =
      Inr (system_block (noBurn o') ?c L (length ?table) ?b ?p (pad_table ?table))"
    using write_system_info_bytes [of front o' "pad_table ?table" "int (length ?table)"] table_names [OF names, of fs o' num addr] room L len(2)
    unfolding system_block_def Let_def append_assoc [symmetric] by (simp add: front file_size_def flip: front_def)
  have burn: "burn_images sys (blockSize o') (pageSize o') out ?ini (pad_table ?table) (int (length ?table)) =
      Inr (burn_log (blockSize o') (pageSize o') out ?ini ?table)"
    using assms(5) opts(7) names len(2)
    by (intro burn_images_log) (auto simp: cstrs value_line_def plain_line_def image_table_def entry_at_def dest!: table_flags [THEN bspec])
  show ?thesis
    using assms(1) opts files loader L collect info burn
    by (simp add: mn_writer_def one two cstrs Let_def)
qed

lemma cstr_read:
  assumes "value_line loader" and "value_line logo" and "value_line exec"
  shows "cstr (NandLoader (ini_read loader logo exec num addr)) = loader" "cstr (Logo (ini_read loader logo exec num addr)) = logo"
    "cstr (ExecFile (ini_read loader logo exec num addr)) = exec"
  using assms by (simp_all add: ini_read_def cstr_strcpy_c value_line_def)

definition sample_files :: "string \<Rightarrow> string option" where
  "sample_files =
     [''n.ini'' \<mapsto> ini_text ''nand.bin'' ''logo.bin'' ''con.bin'' 1 8388608, ''t.ini'' \<mapsto> optional_text [(0xB0003010, 5)],
      ''nand.bin'' \<mapsto> ''LOADER'', ''logo.bin'' \<mapsto> ''LOGO'', ''con.bin'' \<mapsto> ''KERNEL'']"

definition sample_opts :: mn_opts where
  "sample_opts =
     \<lparr>ipMkSysImgFilePath = Some ''n.ini'', ipTWFilePath = Some ''t.ini'', opOutSysFilePath = Some ''s.img'', oobSize = 64, blockSize = 2048,
      pageSize = 512, noBurn = True\<rparr>"

lemma sample_names: "value_line ''nand.bin''" "value_line ''logo.bin''" "value_line ''con.bin''"
  by (simp_all add: value_line_def plain_line_def)

lemma sample_fit: "images_fit sample_files sample_opts (ini_read ''nand.bin'' ''logo.bin'' ''con.bin'' 1 8388608)"
proof -
  let ?ini = "ini_read ''nand.bin'' ''logo.bin'' ''con.bin'' 1 8388608"
  have files: "sample_files ''nand.bin'' = Some ''LOADER''" "sample_files ''logo.bin'' = Some ''LOGO''" "sample_files ''con.bin'' = Some ''KERNEL''"
    by (simp_all add: sample_files_def)
  have images: "images_of sample_files ?ini =
      [(Logo ?ini, ImageFlag_Logo, 0x500000, 4), (ExecFile ?ini, ImageFlag_Exec, ExecAddress ?ini, 6)]"
    unfolding images_of_def cstr_read [OF sample_names] by (simp add: file_size_def files) (simp add: ini_read_def)
  show ?thesis
    unfolding images_fit_def images cstr_read [OF sample_names] by (simp add: files file_size_def sample_opts_def blocks_of_def)
qed

lemma sample_ready:
  "run_ready sample_files (\<lambda>_. True) sample_opts ''s.img'' (''nand.bin'', ''logo.bin'', ''con.bin'', 1, 8388608) [(0xB0003010, 5)]"
  using sample_fit sample_names
  by (simp add: run_ready_def sample_opts_def sample_files_def file_size_def optional_ini_size_def settings_of_def)

theorem mn_writer_flashes_witness:
  "mn_writer sample_files (\<lambda>_. True) True (\<lambda>_. 0) (replicate 256 CHR 0x00) (replicate 256 CHR 0x00) ini_zero
     [(CHR ''f'', ''n.ini''), (CHR ''t'', ''t.ini''), (CHR ''x'', ''s.img''), (CHR ''b'', ''2048''), (CHR ''p'', ''512''), (CHR ''q'', [])] =
   (let ini = ini_read ''nand.bin'' ''logo.bin'' ''con.bin'' 1 8388608; table = image_table sample_files sample_opts ini in
    Inr (Some (''s.img'', system_block True (settings_of [(0xB0003010, 5)]) ''LOADER'' (length table) 2048 512 (pad_table table)),
      burn_log 2048 512 ''s.img'' ini table))"
proof -
  have "atoi ''2048'' = 2048" "atoi ''512'' = 512" by code_simp+
  hence "mn_getopt [(CHR ''f'', ''n.ini''), (CHR ''t'', ''t.ini''), (CHR ''x'', ''s.img''), (CHR ''b'', ''2048''), (CHR ''p'', ''512''), (CHR ''q'', [])]
      mn_opts_init = Inr sample_opts"
    by (simp add: mn_opts_init_def sample_opts_def)
  moreover have "the (sample_files ''nand.bin'') = ''LOADER''" "noBurn sample_opts" "unat (blockSize sample_opts) = 2048" "unat (pageSize sample_opts) = 512"
      "blockSize sample_opts = 2048" "pageSize sample_opts = 512"
    by (simp_all add: sample_files_def sample_opts_def)
  ultimately show ?thesis
    using mn_writer_flashes [of _ sample_opts sample_files "\<lambda>_. True" "''s.img''" "''nand.bin''" "''logo.bin''" "''con.bin''" 1 8388608
        "[(0xB0003010, 5)]" "replicate 256 CHR 0x00" "replicate 256 CHR 0x00" "\<lambda>_. 0"] sample_ready
    by simp
qed

theorem images_disjoint_witness:
  "\<exists>buf1 fw. collect_images sample_files sample_opts (ini_read ''nand.bin'' ''logo.bin'' ''con.bin'' 1 8388608) (settings_of [(0xB0003010, 5)])
     (replicate 2048 CHR 0xFF) =
     Inr (buf1, int (length (images_of sample_files (ini_read ''nand.bin'' ''logo.bin'' ''con.bin'' 1 8388608))), fw) \<and>
    startBlock (fw ! 0) = 0 \<and> endBlock (fw ! 0) = 3 \<and>
    (\<forall>i < length (images_of sample_files (ini_read ''nand.bin'' ''logo.bin'' ''con.bin'' 1 8388608)).
       unat (startBlock (fw ! Suc i)) = unat (endBlock (fw ! i)) + 1 \<and>
       unat (fileLen (fw ! Suc i)) < (unat (endBlock (fw ! Suc i)) + 1 - unat (startBlock (fw ! Suc i))) * unat (blockSize sample_opts))"
proof -
  have loader: "sample_files ''nand.bin'' = Some ''LOADER''" by (simp add: sample_files_def)
  have ok: "settings_ok (settings_of [(0xB0003010, 5)])" by (rule settings_of_ok) simp
  have "optional_ini_size (settings_of [(0xB0003010, 5)]) = 16" by (simp add: optional_ini_size_def settings_of_def)
  hence "\<exists>buf1. copy_loader sample_files (noBurn sample_opts) (settings_of [(0xB0003010, 5)])
      (cstr (NandLoader (ini_read ''nand.bin'' ''logo.bin'' ''con.bin'' 1 8388608))) (replicate 2048 CHR 0xFF) = Inr buf1"
    unfolding cstr_read [OF sample_names]
    using copy_loader_bytes [of sample_files "''nand.bin''", OF loader ok, of 2048] by simp
  thus ?thesis
    using images_disjoint [OF sample_fit] by blast
qed

end
