(* ===== verification/Motion.thy ===== *)
theory Motion
  imports InputRaw CString
begin

text \<open>
  The motion service src/msensor/motion.c: the table of callbacks, the three detectors on the
  history of the accelerations and the work of the service thread on one event, and the sysfs
  attributes of the sensor. The thread and its mutex are in theory MotionThreads.

  The thresholds of the source are products of floating point constants with integral values;
  an integer is compared with them. A callback is a number that stands for the function.
\<close>

definition ABS_Z :: nat where "ABS_Z = 2"

definition MAX_CALLBACK_NUM :: nat where "MAX_CALLBACK_NUM = 5"
definition MOTION_HISTORY_DEPTH :: nat where "MOTION_HISTORY_DEPTH = 5"
definition GRAVITY_EARTH :: int where "GRAVITY_EARTH = 9806550"
definition GRAVITY_2G :: int where "GRAVITY_2G = 19613100"
definition MOTION_SLOW_THRESHOLD :: int where "MOTION_SLOW_THRESHOLD = GRAVITY_EARTH * 8 div 10"
definition MOTION_COLLISION_THRESHOLD :: int where "MOTION_COLLISION_THRESHOLD = GRAVITY_EARTH * 18 div 10"
definition MOTION_GZ0_THRESHOLD :: int where "MOTION_GZ0_THRESHOLD = GRAVITY_2G + GRAVITY_EARTH * 8 div 10"
definition MOTION_GZ180_THRESHOLD :: int where "MOTION_GZ180_THRESHOLD = GRAVITY_2G - GRAVITY_EARTH * 8 div 10"

lemmas motion_consts = GRAVITY_EARTH_def GRAVITY_2G_def MOTION_SLOW_THRESHOLD_def MOTION_COLLISION_THRESHOLD_def
  MOTION_GZ0_THRESHOLD_def MOTION_GZ180_THRESHOLD_def

record MOTION_ACC =
  acc_x :: int
  acc_y :: int
  acc_z :: int
  acc_time :: "32 word"

datatype MOTION_ACTION =
  MOTION_ACTION_NULL | MOTION_ACTION_SLOW_UP | MOTION_ACTION_SLOW_DOWN | MOTION_ACTION_COLLISION | MOTION_ACTION_GZ0 | MOTION_ACTION_GZ180
| MOTION_ACTION_TOTAL

record MOTION_CALLBACK =
  cb_action :: MOTION_ACTION
  pfnCallBack :: "nat option"

text \<open>The variables of the file, the locals of the thread that survive a round, and the calls made.\<close>

record motion =
  g_acc :: MOTION_ACC
  g_action :: MOTION_ACTION
  g_action_pre :: MOTION_ACTION
  g_angle :: MOTION_ACTION
  callback :: "MOTION_CALLBACK list"
  g_acc_history :: "MOTION_ACC list"
  time_pre :: "32 word"
  calls :: "(nat \<times> MOTION_ACTION) list"

definition acc_zero :: MOTION_ACC where
  "acc_zero = \<lparr>acc_x = 0, acc_y = 0, acc_z = 0, acc_time = 0\<rparr>"

definition cb_free :: MOTION_CALLBACK where
  "cb_free = \<lparr>cb_action = MOTION_ACTION_NULL, pfnCallBack = None\<rparr>"

definition motion_init :: motion where
  "motion_init =
     \<lparr>g_acc = acc_zero, g_action = MOTION_ACTION_NULL, g_action_pre = MOTION_ACTION_NULL, g_angle = MOTION_ACTION_NULL,
      callback = replicate MAX_CALLBACK_NUM cb_free, g_acc_history = replicate MOTION_HISTORY_DEPTH acc_zero, time_pre = 0, calls = []\<rparr>"

subsection \<open>The table of callbacks\<close>

fun find_free :: "nat \<Rightarrow> MOTION_CALLBACK list \<Rightarrow> int" where
  "find_free i [] = -1"
| "find_free i (cb # cbs) = (if cb_action cb = MOTION_ACTION_NULL then int i else find_free (i + 1) cbs)"

text \<open>The store of \<open>motion_register_action\<close> behind the search, and the function as a whole.\<close>

definition set_callback :: "nat \<Rightarrow> MOTION_ACTION \<Rightarrow> nat option \<Rightarrow> MOTION_CALLBACK list \<Rightarrow> MOTION_CALLBACK list" where
  "set_callback i a fn cbs = cbs[i := \<lparr>cb_action = a, pfnCallBack = fn\<rparr>]"

definition motion_register_action :: "MOTION_ACTION \<Rightarrow> nat option \<Rightarrow> MOTION_CALLBACK list \<Rightarrow> int \<times> MOTION_CALLBACK list" where
  "motion_register_action a fn cbs =
     (let index = find_free 0 cbs in
      if index = -1 then (-1, cbs) else (index, set_callback (nat index) a fn cbs))"

definition motion_unregister_action :: "int \<Rightarrow> MOTION_CALLBACK list \<Rightarrow> fault + (int \<times> MOTION_CALLBACK list)" where
  "motion_unregister_action index cbs =
     (if int MAX_CALLBACK_NUM \<le> index then Inr (-1, cbs)
      else if index < 0 then Inl OutOfBounds
      else Inr (1, set_callback (nat index) MOTION_ACTION_NULL None cbs))"

subsection \<open>The detectors\<close>

definition motion_slow_detect :: "MOTION_ACC list \<Rightarrow> MOTION_ACTION" where
  "motion_slow_detect h =
     (let cur = h ! (MOTION_HISTORY_DEPTH - 1); old = h ! (MOTION_HISTORY_DEPTH - 2) in
      if acc_time old = 0 then MOTION_ACTION_NULL
      else if acc_x old < acc_x cur then
        (if MOTION_SLOW_THRESHOLD < s32 (acc_x cur - acc_x old) then MOTION_ACTION_SLOW_UP else MOTION_ACTION_NULL)
      else
        (if MOTION_SLOW_THRESHOLD < s32 (acc_x old - acc_x cur) then MOTION_ACTION_SLOW_DOWN else MOTION_ACTION_NULL))"

definition distance :: "int \<Rightarrow> int \<Rightarrow> int" where
  "distance cur old = (if old < cur then s32 (cur - old) else s32 (old - cur))"

definition motion_collision_detect :: "MOTION_ACC list \<Rightarrow> MOTION_ACTION" where
  "motion_collision_detect h =
     (let cur = h ! (MOTION_HISTORY_DEPTH - 1); old = h ! (MOTION_HISTORY_DEPTH - 2) in
      if acc_time old = 0 then MOTION_ACTION_NULL
      else
        (let x = distance (acc_x cur) (acc_x old); y = distance (acc_y cur) (acc_y old); z = distance (acc_z cur) (acc_z old) in
         if MOTION_COLLISION_THRESHOLD < s32 \<bar>x\<bar> then MOTION_ACTION_COLLISION
         else if MOTION_COLLISION_THRESHOLD < s32 \<bar>y\<bar> then MOTION_ACTION_COLLISION
         else if MOTION_COLLISION_THRESHOLD < s32 \<bar>z\<bar> then MOTION_ACTION_COLLISION
         else MOTION_ACTION_NULL))"

definition motion_angle_detect :: "motion \<Rightarrow> MOTION_ACTION \<times> motion" where
  "motion_angle_detect m =
     (let cur = g_acc_history m ! (MOTION_HISTORY_DEPTH - 1) in
      if acc_time cur = 0 then (MOTION_ACTION_NULL, m)
      else
        (let z = acc_z cur;
             m1 = (if MOTION_GZ0_THRESHOLD < z then m\<lparr>g_action := MOTION_ACTION_GZ0\<rparr> else m) in
         if MOTION_GZ0_THRESHOLD < z \<and> g_action_pre m1 \<noteq> MOTION_ACTION_GZ0 then
           (MOTION_ACTION_GZ0, m1\<lparr>g_action_pre := MOTION_ACTION_GZ0\<rparr>)
         else
           (let m2 = (if z < MOTION_GZ180_THRESHOLD then m1\<lparr>g_action := MOTION_ACTION_GZ180\<rparr> else m1) in
            if z < MOTION_GZ180_THRESHOLD \<and> g_action_pre m2 \<noteq> MOTION_ACTION_GZ180 then
              (MOTION_ACTION_GZ180, m2\<lparr>g_action_pre := MOTION_ACTION_GZ180\<rparr>)
            else (MOTION_ACTION_NULL, m2))))"

subsection \<open>One event\<close>

text \<open>The loop over the table.\<close>

definition call_all :: "MOTION_ACTION \<Rightarrow> MOTION_CALLBACK list \<Rightarrow> (nat \<times> MOTION_ACTION) list" where
  "call_all a cbs =
     concat (map (\<lambda>cb. if cb_action cb = a then (case pfnCallBack cb of None \<Rightarrow> [] | Some fn \<Rightarrow> [(fn, a)]) else []) cbs)"

definition event_time :: "input_event \<Rightarrow> 32 word" where
  "event_time e = word_of_int (tv_sec (ev_time e) * 1000 + tv_usec (ev_time e) sdiv 1000)"

text \<open>The first half of a round: the event changes the current acceleration.\<close>

definition take_event :: "input_event \<Rightarrow> motion \<Rightarrow> motion" where
  "take_event e m =
     (if ev_type e = EV_ABS then
        (if ev_code e = ABS_X then m\<lparr>g_acc := (g_acc m)\<lparr>acc_x := s32 (ev_value e + GRAVITY_2G)\<rparr>\<rparr>
         else if ev_code e = ABS_Y then m\<lparr>g_acc := (g_acc m)\<lparr>acc_y := s32 (ev_value e + GRAVITY_2G)\<rparr>\<rparr>
         else if ev_code e = ABS_Z then m\<lparr>g_acc := (g_acc m)\<lparr>acc_z := s32 (ev_value e + GRAVITY_2G)\<rparr>\<rparr>
         else m)
      else if ev_type e = EV_SYN then
        m\<lparr>g_acc := (g_acc m)\<lparr>acc_time := event_time e - time_pre m\<rparr>, time_pre := event_time e\<rparr>
      else m)"

text \<open>The second half, for a report: the history, the detectors and the callbacks.\<close>

definition dispatch :: "MOTION_ACTION \<Rightarrow> motion \<Rightarrow> motion" where
  "dispatch a m =
     (let m1 = m\<lparr>g_action := a\<rparr> in
      if a \<noteq> MOTION_ACTION_NULL then m1\<lparr>calls := calls m1 @ call_all a (callback m1)\<rparr> else m1)"

definition report :: "motion \<Rightarrow> motion" where
  "report m =
     (let m1 = m\<lparr>g_acc_history := tl (g_acc_history m) @ [g_acc m]\<rparr>;
          m2 = dispatch (motion_slow_detect (g_acc_history m1)) m1;
          m3 = dispatch (motion_collision_detect (g_acc_history m2)) m2
      in case motion_angle_detect m3 of (angle, m4) \<Rightarrow>
        (let m5 = m4\<lparr>g_angle := angle\<rparr> in
         if angle \<noteq> MOTION_ACTION_NULL then m5\<lparr>calls := calls m5 @ call_all (g_action m5) (callback m5)\<rparr> else m5))"

definition motion_event :: "input_event \<Rightarrow> motion \<Rightarrow> motion" where
  "motion_event e m = (let m1 = take_event e m in if ev_type e \<noteq> EV_SYN then m1 else report m1)"

subsection \<open>The attributes of the sensor\<close>

text \<open>
  Reading an attribute: \<open>None\<close> when it cannot be opened, \<open>Some None\<close> when \<open>read\<close> fails. The
  number read is that of \<open>strtoul\<close> with base 10 on at most 16 bytes.
\<close>

type_synonym attribute = "string option option"

definition strtoul10 :: "string \<Rightarrow> 32 word" where
  "strtoul10 s =
     (case scan_base10 s of (neg, n) \<Rightarrow>
        if 4294967296 \<le> n then ULONG_MAX else if neg then - of_nat n else of_nat n)"

definition bma220_get :: "attribute \<Rightarrow> int" where
  "bma220_get a = (case a of Some (Some bytes) \<Rightarrow> sint (strtoul10 (take 16 bytes)) | _ \<Rightarrow> -1)"

text \<open>Writing one: the result, and the text handed to the driver when the attribute opens.\<close>

definition bma220_set :: "bool \<Rightarrow> bool \<Rightarrow> int \<Rightarrow> int \<times> string option" where
  "bma220_set opens write_ok v = (if \<not> opens then (-1, None) else if \<not> write_ok then (-1, Some (dec_int v)) else (0, Some (dec_int v)))"

text \<open>\<open>sscanf(buf, "%d %d %d", ...)\<close>: the numbers up to the first failure.\<close>

fun scan_ints :: "nat \<Rightarrow> string \<Rightarrow> int list" where
  "scan_ints 0 s = []"
| "scan_ints (Suc k) s =
     (case strip_sign (dropWhile isspace_c s) of (neg, s1) \<Rightarrow>
        if s1 = [] \<or> \<not> is_digit_of 10 (hd s1) then []
        else fst (clamp_long (neg, digits_val 10 0 s1)) # scan_ints k (dropWhile (is_digit_of 10) s1))"

definition bma220_get_data :: "attribute \<Rightarrow> int list \<Rightarrow> int \<times> int list" where
  "bma220_get_data a xyz =
     (case a of
        Some (Some bytes) \<Rightarrow> (let vs = scan_ints 3 (takeWhile (\<lambda>c. c \<noteq> CHR 0x00) (take 64 bytes)) in (0, vs @ drop (length vs) xyz))
      | _ \<Rightarrow> (-1, xyz))"

text \<open>The start of the thread: the first acceleration.\<close>

definition motion_start :: "attribute \<Rightarrow> motion \<Rightarrow> motion" where
  "motion_start a m =
     (case bma220_get_data a [acc_x (g_acc m), acc_y (g_acc m), acc_z (g_acc m)] of (ret, xyz) \<Rightarrow>
        if ret \<noteq> -1 then
          m\<lparr>g_acc := \<lparr>acc_x = s32 (xyz ! 0 + GRAVITY_2G), acc_y = s32 (xyz ! 1 + GRAVITY_2G), acc_z = s32 (xyz ! 2 + GRAVITY_2G), acc_time = 1\<rparr>\<rparr>
        else m)"

lemma strtoul10_dec_int:
  assumes "in_s32 v"
  shows "sint (strtoul10 (dec_int v)) = v"
proof -
  have digits: "scan_base10 (dec_str n) = (False, n)" "scan_base10 (CHR ''-'' # dec_str n) = (True, n)" for n
  proof -
    obtain c cs where s: "dec_str n = c # cs" by (cases "dec_str n") auto
    have "\<not> isspace_c c" "c \<noteq> CHR ''-''" "c \<noteq> CHR ''+''" using dec_str_plain [of c n] s by auto
    thus "scan_base10 (dec_str n) = (False, n)" "scan_base10 (CHR ''-'' # dec_str n) = (True, n)"
      using digits_val_dec_str [of n] by (simp_all add: scan_base10_def s isspace_c_def)
  qed
  have w: "strtoul10 (dec_int v) = word_of_int v"
    using assms by (auto simp: strtoul10_def dec_int_def digits in_s32_def)
  show ?thesis
    unfolding w using assms by (simp flip: s32_eq_sint add: s32_id)
qed

text \<open>A driver that gives back the text it was handed: the number read is the number written.\<close>

lemma bma220_set_get:
  assumes "in_s32 v"
  shows "case bma220_set True True v of (r, Some t) \<Rightarrow> r = 0 \<and> bma220_get (Some (Some t)) = v | _ \<Rightarrow> False"
proof -
  have "length (dec_str (nat \<bar>v\<bar>)) \<le> 10"
    using assms by (intro length_dec_str_u32) (auto simp: in_s32_def)
  hence "length (dec_int v) \<le> 16"
    by (cases "v < 0") (auto simp: dec_int_def)
  thus ?thesis
    using strtoul10_dec_int [OF assms] by (simp add: bma220_set_def bma220_get_def)
qed

subsection \<open>What the service detects\<close>

text \<open>A report of the sensor: the three accelerations and the time.\<close>

type_synonym sample = "int \<times> int \<times> int \<times> timeval"

definition frame :: "sample \<Rightarrow> input_event list" where
  "frame s =
     (case s of (x, y, z, t) \<Rightarrow>
        [\<lparr>ev_time = t, ev_type = EV_ABS, ev_code = ABS_X, ev_value = x\<rparr>, \<lparr>ev_time = t, ev_type = EV_ABS, ev_code = ABS_Y, ev_value = y\<rparr>,
         \<lparr>ev_time = t, ev_type = EV_ABS, ev_code = ABS_Z, ev_value = z\<rparr>, \<lparr>ev_time = t, ev_type = EV_SYN, ev_code = 0, ev_value = 0\<rparr>])"

definition sample_time :: "sample \<Rightarrow> 32 word" where
  "sample_time s = (case s of (_, _, _, t) \<Rightarrow> word_of_int (tv_sec t * 1000 + tv_usec t sdiv 1000))"

text \<open>
  The actions between two samples: a change of more than 0.8 g along x is a slow movement, a
  change of more than 1.8 g along any axis a collision.
\<close>

definition slow :: "sample \<Rightarrow> sample \<Rightarrow> MOTION_ACTION" where
  "slow p c =
     (case (p, c) of ((x0, _), (x1, _)) \<Rightarrow>
        if 7845240 < x1 - x0 then MOTION_ACTION_SLOW_UP else if 7845240 < x0 - x1 then MOTION_ACTION_SLOW_DOWN else MOTION_ACTION_NULL)"

definition collides :: "sample \<Rightarrow> sample \<Rightarrow> MOTION_ACTION" where
  "collides p c =
     (case (p, c) of ((x0, y0, z0, _), (x1, y1, z1, _)) \<Rightarrow>
        if 17651790 < \<bar>x1 - x0\<bar> \<or> 17651790 < \<bar>y1 - y0\<bar> \<or> 17651790 < \<bar>z1 - z0\<bar> then MOTION_ACTION_COLLISION else MOTION_ACTION_NULL)"

definition movement :: "sample \<Rightarrow> sample \<Rightarrow> MOTION_ACTION list" where
  "movement p c = filter (\<lambda>a. a \<noteq> MOTION_ACTION_NULL) [slow p c, collides p c]"

text \<open>The side that lies down, when gravity along z decides it.\<close>

definition side :: "sample \<Rightarrow> MOTION_ACTION option" where
  "side c =
     (case c of (_, _, z, _) \<Rightarrow>
        if 7845240 < z then Some MOTION_ACTION_GZ0 else if z < - 7845240 then Some MOTION_ACTION_GZ180 else None)"

fun detections :: "sample option \<Rightarrow> MOTION_ACTION \<Rightarrow> sample list \<Rightarrow> MOTION_ACTION list" where
  "detections prev down [] = []"
| "detections prev down (c # cs) =
     (case prev of None \<Rightarrow> [] | Some p \<Rightarrow> movement p c) @
     (case side c of
        Some a \<Rightarrow> (if a \<noteq> down then [a] else []) @ detections (Some c) a cs
      | None \<Rightarrow> detections (Some c) down cs)"

definition in_range :: "sample \<Rightarrow> bool" where
  "in_range s \<longleftrightarrow> (case s of (x, y, z, _) \<Rightarrow> \<bar>x\<bar> \<le> 1000000000 \<and> \<bar>y\<bar> \<le> 1000000000 \<and> \<bar>z\<bar> \<le> 1000000000)"

text \<open>No two successive reports have the same millisecond.\<close>

fun ticking :: "32 word \<Rightarrow> sample list \<Rightarrow> bool" where
  "ticking t [] \<longleftrightarrow> True"
| "ticking t (c # cs) \<longleftrightarrow> sample_time c \<noteq> t \<and> ticking (sample_time c) cs"

text \<open>The state of the service after the sample \<open>prev\<close>.\<close>

definition acc_of :: "sample \<Rightarrow> 32 word \<Rightarrow> MOTION_ACC" where
  "acc_of s dt = (case s of (x, y, z, _) \<Rightarrow> \<lparr>acc_x = x + GRAVITY_2G, acc_y = y + GRAVITY_2G, acc_z = z + GRAVITY_2G, acc_time = dt\<rparr>)"

definition serves :: "sample option \<Rightarrow> MOTION_ACTION \<Rightarrow> 32 word \<Rightarrow> MOTION_CALLBACK list \<Rightarrow> motion \<Rightarrow> bool" where
  "serves prev down t cbs m \<longleftrightarrow>
     length (g_acc_history m) = 5 \<and> g_action_pre m = down \<and> time_pre m = t \<and> callback m = cbs \<and>
     (case prev of
        None \<Rightarrow> acc_time (g_acc_history m ! 4) = 0
      | Some p \<Rightarrow> in_range p \<and> (\<exists>dt. dt \<noteq> 0 \<and> g_acc_history m ! 4 = acc_of p dt))"

lemma s32_range: "\<bar>v\<bar> \<le> 2147483647 \<Longrightarrow> s32 v = v"
  by (simp add: s32_id)

lemma distance_eq: "\<bar>cur - old\<bar> \<le> 2147483647 \<Longrightarrow> distance cur old = \<bar>cur - old\<bar>"
  by (auto simp: distance_def s32_range)

lemma detectors:
  assumes "in_range p" and "in_range c" and "h ! 3 = acc_of p d0" and "h ! 4 = acc_of c d1" and "d0 \<noteq> 0"
  shows "motion_slow_detect h = slow p c" and "motion_collision_detect h = collides p c"
proof -
  obtain x0 y0 z0 t0 x1 y1 z1 t1 where s: "p = (x0, y0, z0, t0)" "c = (x1, y1, z1, t1)" by (cases p, cases c) auto
  have r: "\<bar>x1 - x0\<bar> \<le> 2147483647" "\<bar>y1 - y0\<bar> \<le> 2147483647" "\<bar>z1 - z0\<bar> \<le> 2147483647"
    using assms(1,2) by (auto simp: in_range_def s)
  show "motion_slow_detect h = slow p c"
    using assms(3-5) r(1) by (simp add: motion_slow_detect_def slow_def acc_of_def s MOTION_HISTORY_DEPTH_def motion_consts s32_range Let_def)
  show "motion_collision_detect h = collides p c"
    using assms(3-5) r by (simp add: motion_collision_detect_def collides_def acc_of_def s MOTION_HISTORY_DEPTH_def motion_consts s32_range distance_eq Let_def)
qed

lemma detectors_first:
  assumes "acc_time (h ! 3) = 0"
  shows "motion_slow_detect h = MOTION_ACTION_NULL" and "motion_collision_detect h = MOTION_ACTION_NULL"
  using assms by (simp_all add: motion_slow_detect_def motion_collision_detect_def MOTION_HISTORY_DEPTH_def Let_def)

definition run_calls :: "MOTION_ACTION list \<Rightarrow> MOTION_CALLBACK list \<Rightarrow> (nat \<times> MOTION_ACTION) list" where
  "run_calls acts cbs = concat (map (\<lambda>a. call_all a cbs) acts)"

lemma dispatch_calls:
  "calls (dispatch a m) = calls m @ run_calls (filter (\<lambda>a. a \<noteq> MOTION_ACTION_NULL) [a]) (callback m)"
  "g_acc_history (dispatch a m) = g_acc_history m" "g_action_pre (dispatch a m) = g_action_pre m" "time_pre (dispatch a m) = time_pre m"
  "callback (dispatch a m) = callback m" "g_acc (dispatch a m) = g_acc m"
  by (simp_all add: dispatch_def run_calls_def Let_def)

lemma angle_detect_side:
  assumes "g_acc_history m ! 4 = acc_of c dt" and "dt \<noteq> 0"
  shows "motion_angle_detect m =
    (case side c of
       None \<Rightarrow> (MOTION_ACTION_NULL, m)
     | Some a \<Rightarrow> if a \<noteq> g_action_pre m then (a, m\<lparr>g_action := a, g_action_pre := a\<rparr>) else (MOTION_ACTION_NULL, m\<lparr>g_action := a\<rparr>))"
  using assms by (cases c) (simp add: motion_angle_detect_def side_def acc_of_def MOTION_HISTORY_DEPTH_def motion_consts Let_def)

lemma report_step:
  assumes "serves prev down t cbs m" and "in_range c" and "dt \<noteq> 0" and "g_acc m = acc_of c dt"
  shows "serves (Some c) (case side c of Some a \<Rightarrow> a | None \<Rightarrow> down) t cbs (report m)"
    and "calls (report m) = calls m @
      run_calls ((case prev of None \<Rightarrow> [] | Some p \<Rightarrow> movement p c) @ (case side c of Some a \<Rightarrow> if a \<noteq> down then [a] else [] | None \<Rightarrow> [])) cbs"
proof -
  let ?h = "tl (g_acc_history m) @ [g_acc m]"
  have len: "length (g_acc_history m) = 5" using assms(1) by (simp add: serves_def)
  have h: "?h ! 4 = acc_of c dt" "?h ! 3 = g_acc_history m ! 4" "length ?h = 5"
    using len assms(4) by (simp_all add: nth_append nth_tl)
  define m2 where "m2 = dispatch (motion_slow_detect ?h) (m\<lparr>g_acc_history := ?h\<rparr>)"
  define m3 where "m3 = dispatch (motion_collision_detect ?h) m2"
  have m3: "g_acc_history m3 = ?h" "g_action_pre m3 = down" "time_pre m3 = t" "callback m3 = cbs"
    using assms(1) by (simp_all add: m3_def m2_def dispatch_calls serves_def)
  have report: "report m = (case motion_angle_detect m3 of (angle, m4) \<Rightarrow>
      (let m5 = m4\<lparr>g_angle := angle\<rparr> in
       if angle \<noteq> MOTION_ACTION_NULL then m5\<lparr>calls := calls m5 @ call_all (g_action m5) (callback m5)\<rparr> else m5))"
    by (simp add: report_def Let_def m3_def m2_def dispatch_calls)
  note angle = angle_detect_side [of m3 c dt, unfolded m3(1,2), OF h(1) assms(3)]
  have null: "side c \<noteq> Some MOTION_ACTION_NULL" by (cases c) (simp add: side_def)
  have moved: "calls m3 = calls m @ run_calls (case prev of None \<Rightarrow> [] | Some p \<Rightarrow> movement p c) cbs"
  proof (cases prev)
    case None
    hence "acc_time (?h ! 3) = 0" using assms(1) h by (simp add: serves_def)
    from detectors_first [OF this] show ?thesis
      using None by (simp add: m3_def m2_def dispatch_calls run_calls_def)
  next
    case (Some p)
    then obtain d0 where p: "in_range p" "d0 \<noteq> 0" "?h ! 3 = acc_of p d0" using assms(1) h by (auto simp: serves_def)
    from detectors [OF p(1) assms(2) p(3) h(1) p(2)] show ?thesis
      using Some assms(1) by (simp add: m3_def m2_def dispatch_calls run_calls_def movement_def serves_def)
  qed
  show "serves (Some c) (case side c of Some a \<Rightarrow> a | None \<Rightarrow> down) t cbs (report m)"
    unfolding report angle using m3 h assms(2,3) null by (auto simp: serves_def Let_def split: option.split)
  show "calls (report m) = calls m @
      run_calls ((case prev of None \<Rightarrow> [] | Some p \<Rightarrow> movement p c) @ (case side c of Some a \<Rightarrow> if a \<noteq> down then [a] else [] | None \<Rightarrow> [])) cbs"
    unfolding report angle using m3 null moved by (auto simp: run_calls_def Let_def split: option.split)
qed

lemma frame_step:
  assumes "serves prev down t cbs m" and "in_range c" and "sample_time c \<noteq> t"
  shows "serves (Some c) (case side c of Some a \<Rightarrow> a | None \<Rightarrow> down) (sample_time c) cbs (fold motion_event (frame c) m)"
    and "calls (fold motion_event (frame c) m) = calls m @
      run_calls ((case prev of None \<Rightarrow> [] | Some p \<Rightarrow> movement p c) @ (case side c of Some a \<Rightarrow> if a \<noteq> down then [a] else [] | None \<Rightarrow> [])) cbs"
proof -
  obtain x y z tv where c: "c = (x, y, z, tv)" by (cases c) auto
  let ?m = "m\<lparr>g_acc := acc_of c (sample_time c - t), time_pre := sample_time c\<rparr>"
  have r: "s32 (x + GRAVITY_2G) = x + GRAVITY_2G" "s32 (y + GRAVITY_2G) = y + GRAVITY_2G" "s32 (z + GRAVITY_2G) = z + GRAVITY_2G"
    using assms(2) by (auto simp: in_range_def c GRAVITY_2G_def intro!: s32_range)
  have "time_pre m = t" using assms(1) by (simp add: serves_def)
  hence run: "fold motion_event (frame c) m = report ?m"
    by (cases "g_acc m") (simp add: frame_def c motion_event_def take_event_def evdev_codes ABS_Z_def r acc_of_def event_time_def sample_time_def Let_def)
  have "serves prev down (sample_time c) cbs ?m" using assms(1) by (cases prev) (simp_all add: serves_def)
  note step = report_step [OF this assms(2), of "sample_time c - t"]
  show "serves (Some c) (case side c of Some a \<Rightarrow> a | None \<Rightarrow> down) (sample_time c) cbs (fold motion_event (frame c) m)"
    unfolding run using step(1) assms(3) by simp
  show "calls (fold motion_event (frame c) m) = calls m @
      run_calls ((case prev of None \<Rightarrow> [] | Some p \<Rightarrow> movement p c) @ (case side c of Some a \<Rightarrow> if a \<noteq> down then [a] else [] | None \<Rightarrow> [])) cbs"
    unfolding run using step(2) assms(3) by simp
qed

lemma frames_run:
  assumes "serves prev down t cbs m" and "\<forall>c \<in> set cs. in_range c" and "ticking t cs"
  shows "calls (fold motion_event (concat (map frame cs)) m) = calls m @ run_calls (detections prev down cs) cbs"
  using assms
proof (induction cs arbitrary: prev down t m)
  case (Cons c cs)
  have range: "in_range c" and tick: "sample_time c \<noteq> t" using Cons.prems by auto
  note step = frame_step [OF Cons.prems(1) range tick]
  show ?case
    using Cons.IH [OF step(1)] Cons.prems step(2) by (auto simp: run_calls_def split: option.split)
qed (simp add: run_calls_def)

text \<open>
  C19: The service turns a stream of reports into calls: started on an empty history, it calls
  for each report, in the order of the table, the callbacks registered for the actions between
  this sample and the one before: a change of more than 0.8 g along x, a change of more than
  1.8 g along some axis, and the other side lying down. Nothing else is called, whatever the
  history buffer, the offset of 2 g and the shared variables hold in between.
\<close>

theorem motion_service_detects:
  assumes "\<forall>c \<in> set cs. in_range c" and "ticking 0 cs"
  shows "calls (fold motion_event (concat (map frame cs)) (motion_init\<lparr>callback := cbs\<rparr>)) =
    run_calls (detections None MOTION_ACTION_NULL cs) cbs"
proof -
  have "serves None MOTION_ACTION_NULL 0 cbs (motion_init\<lparr>callback := cbs\<rparr>)"
    by (simp add: serves_def motion_init_def MOTION_HISTORY_DEPTH_def acc_zero_def)
  from frames_run [OF this assms] show ?thesis
    by (simp add: motion_init_def)
qed

theorem motion_service_detects_witness:
  "calls (fold motion_event (concat (map frame
       [(0, 0, 9000000, \<lparr>tv_sec = 1, tv_usec = 0\<rparr>), (8000000, 0, 9000000, \<lparr>tv_sec = 1, tv_usec = 50000\<rparr>), (8000000, 0, - 9000000, \<lparr>tv_sec = 1, tv_usec = 100000\<rparr>)]))
     (motion_init\<lparr>callback := [\<lparr>cb_action = MOTION_ACTION_SLOW_UP, pfnCallBack = Some 7\<rparr>, \<lparr>cb_action = MOTION_ACTION_COLLISION, pfnCallBack = Some 8\<rparr>,
        \<lparr>cb_action = MOTION_ACTION_GZ180, pfnCallBack = Some 9\<rparr>, cb_free, cb_free]\<rparr>)) =
   [(7, MOTION_ACTION_SLOW_UP), (8, MOTION_ACTION_COLLISION), (9, MOTION_ACTION_GZ180)]"
proof -
  let ?cs = "[(0, 0, 9000000, \<lparr>tv_sec = 1, tv_usec = 0\<rparr>), (8000000, 0, 9000000, \<lparr>tv_sec = 1, tv_usec = 50000\<rparr>),
    (8000000, 0, - 9000000, \<lparr>tv_sec = 1, tv_usec = 100000\<rparr>)] :: sample list"
  have "detections None MOTION_ACTION_NULL ?cs =
      [MOTION_ACTION_GZ0, MOTION_ACTION_SLOW_UP, MOTION_ACTION_COLLISION, MOTION_ACTION_GZ180]"
    by (simp add: movement_def slow_def collides_def side_def)
  moreover have "\<forall>c \<in> set ?cs. in_range c" by (simp add: in_range_def)
  moreover have "ticking 0 ?cs" by (simp add: sample_time_def signed_divide_int_def)
  ultimately show ?thesis
    using motion_service_detects [of ?cs] by (simp add: run_calls_def call_all_def cb_free_def del: fold_simps)
qed

end
