(* ===== verification/MotionThreads.thy ===== *)
theory MotionThreads
  imports Motion
begin

text \<open>
  The service thread of src/msensor/motion.c and the functions an application calls, as threads
  that share the mutex \<open>g_motion_mutex\<close>: a step relation with one rule for each stretch between
  two points where another thread may run. The service thread holds the mutex while it waits in
  \<open>read\<close> for the next event; whether the sensor sends events is a function \<open>emits\<close> of its
  enable attribute. A call is a pair of the function and how far it got.
\<close>

datatype owner = Service | Client nat

datatype call = Suspend | Resume | SetDelay int | Register MOTION_ACTION "nat option" | Unregister int | Stop

datatype phase = Called | Waiting int | Holding int | Returned int

datatype service_pc = AtLock | AtRead | AtHandle input_event | Cancelled

record threads =
  mutex :: "owner option"
  service :: service_pc
  queue :: "input_event list"
  enable :: int
  delay :: int
  cancel :: bool
  vars :: motion
  clients :: "(call \<times> phase) list"

definition threads_init :: "(call \<times> phase) list \<Rightarrow> threads" where
  "threads_init cs =
     \<lparr>mutex = None, service = AtLock, queue = [], enable = 1, delay = 50, cancel = False, vars = motion_init, clients = cs\<rparr>"

text \<open>What a function does before it asks for the mutex: the new phase of the call.\<close>

definition enter :: "call \<Rightarrow> motion \<Rightarrow> phase" where
  "enter c m =
     (case c of
        Register a fn \<Rightarrow> (let k = find_free 0 (callback m) in if k = -1 then Returned (-1) else Waiting k)
      | Unregister k \<Rightarrow> if int MAX_CALLBACK_NUM \<le> k then Returned (-1) else Waiting k
      | Stop \<Rightarrow> Returned 1
      | _ \<Rightarrow> Waiting 0)"

text \<open>What it does with the mutex, and its result.\<close>

definition work :: "call \<Rightarrow> int \<Rightarrow> threads \<Rightarrow> threads" where
  "work c k s =
     (case c of
        Suspend \<Rightarrow> s\<lparr>enable := 0\<rparr>
      | Resume \<Rightarrow> s\<lparr>enable := 1\<rparr>
      | SetDelay d \<Rightarrow> s\<lparr>delay := d\<rparr>
      | Register a fn \<Rightarrow> s\<lparr>vars := (vars s)\<lparr>callback := set_callback (nat k) a fn (callback (vars s))\<rparr>\<rparr>
      | Unregister k \<Rightarrow> s\<lparr>vars := (vars s)\<lparr>callback := set_callback (nat k) MOTION_ACTION_NULL None (callback (vars s))\<rparr>\<rparr>
      | Stop \<Rightarrow> s)"

definition outcome :: "call \<Rightarrow> int \<Rightarrow> int" where
  "outcome c k = (case c of Register a fn \<Rightarrow> k | _ \<Rightarrow> 1)"

text \<open>A negative index is not checked and leaves the table: such a call has no step.\<close>

definition wild :: "call \<Rightarrow> bool" where
  "wild c = (case c of Unregister k \<Rightarrow> k < 0 | _ \<Rightarrow> False)"

inductive motion_step :: "(int \<Rightarrow> bool) \<Rightarrow> threads \<Rightarrow> threads \<Rightarrow> bool" for emits where
  event: "emits (enable s) \<Longrightarrow> motion_step emits s (s\<lparr>queue := queue s @ [e]\<rparr>)"
| lock: "service s = AtLock \<Longrightarrow> mutex s = None \<Longrightarrow> motion_step emits s (s\<lparr>mutex := Some Service, service := AtRead\<rparr>)"
| read: "service s = AtRead \<Longrightarrow> queue s = e # q \<Longrightarrow> motion_step emits s (s\<lparr>service := AtHandle e, queue := q\<rparr>)"
| handle: "service s = AtHandle e \<Longrightarrow> motion_step emits s (s\<lparr>vars := motion_event e (vars s), mutex := None, service := AtLock\<rparr>)"
| cancelled: "service s = AtRead \<Longrightarrow> cancel s \<Longrightarrow> motion_step emits s (s\<lparr>service := Cancelled\<rparr>)"
| call: "i < length (clients s) \<Longrightarrow> clients s ! i = (c, Called) \<Longrightarrow> \<not> wild c \<Longrightarrow>
    motion_step emits s (s\<lparr>clients := (clients s)[i := (c, enter c (vars s))], cancel := cancel s \<or> c = Stop\<rparr>)"
| acquire: "i < length (clients s) \<Longrightarrow> clients s ! i = (c, Waiting k) \<Longrightarrow> mutex s = None \<Longrightarrow>
    motion_step emits s (s\<lparr>mutex := Some (Client i), clients := (clients s)[i := (c, Holding k)]\<rparr>)"
| release: "i < length (clients s) \<Longrightarrow> clients s ! i = (c, Holding k) \<Longrightarrow>
    motion_step emits s ((work c k s)\<lparr>mutex := None, clients := (clients s)[i := (c, Returned (outcome c k))]\<rparr>)"

inductive_cases motion_stepE: "motion_step emits s s'"

abbreviation motion_steps :: "(int \<Rightarrow> bool) \<Rightarrow> threads \<Rightarrow> threads \<Rightarrow> bool" where
  "motion_steps emits \<equiv> (motion_step emits)\<^sup>*\<^sup>*"

lemma work_keeps [simp]: "service (work c k s) = service s" "queue (work c k s) = queue s" "cancel (work c k s) = cancel s"
  "clients (work c k s) = clients s" "mutex (work c k s) = mutex s"
  by (simp_all add: work_def split: call.split)

subsection \<open>Mutual exclusion\<close>

definition in_service :: "service_pc \<Rightarrow> bool" where
  "in_service pc \<longleftrightarrow> pc \<noteq> AtLock"

fun holds :: "call \<times> phase \<Rightarrow> bool" where
  "holds (c, Holding k) \<longleftrightarrow> True"
| "holds _ \<longleftrightarrow> False"

definition exclusive :: "threads \<Rightarrow> bool" where
  "exclusive s \<longleftrightarrow>
     (mutex s = Some Service \<longleftrightarrow> in_service (service s)) \<and>
     (\<forall>i < length (clients s). mutex s = Some (Client i) \<longleftrightarrow> holds (clients s ! i))"

lemma enter_not_holding: "\<not> holds (c, enter c m)"
  by (simp add: enter_def Let_def split: call.split)

lemma exclusive_step: "motion_step emits s s' \<Longrightarrow> exclusive s \<Longrightarrow> exclusive s'"
proof (induction rule: motion_step.induct)
  case (call i s c)
  thus ?case using enter_not_holding [of c "vars s"] by (auto simp: exclusive_def nth_list_update)
next
  case (release i s c k)
  have "mutex s = Some (Client i)" using release by (auto simp: exclusive_def)
  thus ?case using release by (auto simp: exclusive_def nth_list_update)
qed (auto simp: exclusive_def in_service_def nth_list_update)

lemma exclusive_steps: "motion_steps emits s s' \<Longrightarrow> exclusive s \<Longrightarrow> exclusive s'"
  by (induction rule: rtranclp_induct) (auto intro: exclusive_step)

lemma exclusive_init: "\<forall>cp \<in> set cs. snd cp = Called \<Longrightarrow> exclusive (threads_init cs)"
proof -
  assume called: "\<forall>cp \<in> set cs. snd cp = Called"
  have "\<not> holds (cs ! i)" if "i < length cs" for i
    using called nth_mem [OF that] by (cases "cs ! i") auto
  thus "exclusive (threads_init cs)" by (simp add: exclusive_def threads_init_def in_service_def)
qed



subsection \<open>A service that waits for ever\<close>

text \<open>The service sleeps with the mutex: cancelled, or in \<open>read\<close> while no event can come.\<close>

definition asleep :: "(int \<Rightarrow> bool) \<Rightarrow> threads \<Rightarrow> bool" where
  "asleep emits s \<longleftrightarrow>
     mutex s = Some Service \<and> exclusive s \<and> (service s = Cancelled \<or> service s = AtRead \<and> queue s = [] \<and> \<not> emits (enable s))"

lemma asleep_step:
  assumes "motion_step emits s s'" and "asleep emits s"
  shows "asleep emits s' \<and> enable s' = enable s \<and> vars s' = vars s \<and>
    (\<forall>i < length (clients s). \<forall>c k. clients s ! i = (c, Waiting k) \<longrightarrow> clients s' ! i = (c, Waiting k))"
proof -
  have ex: "exclusive s'" using exclusive_step [OF assms(1)] assms(2) by (simp add: asleep_def)
  from assms(1) show ?thesis
  proof cases
    case (release i c k)
    have False using release assms(2) by (auto simp: asleep_def exclusive_def)
    thus ?thesis ..
  qed (use assms(2) ex in \<open>auto simp: asleep_def nth_list_update\<close>)
qed

lemma asleep_steps:
  assumes "motion_steps emits s s'" and "asleep emits s"
  shows "asleep emits s' \<and> enable s' = enable s \<and> length (clients s') = length (clients s) \<and>
    (\<forall>i < length (clients s). \<forall>c k. clients s ! i = (c, Waiting k) \<longrightarrow> clients s' ! i = (c, Waiting k))"
  using assms
proof (induction rule: rtranclp_induct)
  case (step s1 s2)
  have "length (clients s2) = length (clients s1)" using step(2) by (cases) auto
  thus ?case using asleep_step [OF step(2)] step by auto
qed simp

lemma steps_intro: "motion_steps emits s s1 \<Longrightarrow> motion_step emits s1 s2 \<Longrightarrow> motion_steps emits s s2"
  by (rule rtranclp.rtrancl_into_rtrancl)



text \<open>Stopping the service while it waits leaves the mutex locked: no call that needs it returns any more.\<close>

theorem motion_stop_keeps_mutex:
  assumes "exclusive s" and "service s = Cancelled" and "i < length (clients s)" and "clients s ! i = (c, Waiting k)"
    and "motion_steps emits s s'"
  shows "mutex s' = Some Service \<and> clients s' ! i = (c, Waiting k)"
proof -
  have "asleep emits s" using assms(1,2) by (auto simp: asleep_def exclusive_def in_service_def)
  from asleep_steps [OF assms(5) this] assms(3,4) show ?thesis by (auto simp: asleep_def)
qed

subsection \<open>Two registrations at once\<close>

text \<open>
  The function \<open>motion_register_action\<close> looks for a free entry before it takes the mutex: two calls at
  the same time can both return the entry 0, and only the second one is in the table.
\<close>

theorem motion_register_race:
  "\<exists>s. motion_steps emits (threads_init [(Register a f, Called), (Register b g, Called)]) s \<and>
    clients s = [(Register a f, Returned 0), (Register b g, Returned 0)] \<and>
    callback (vars s) = \<lparr>cb_action = b, pfnCallBack = g\<rparr> # replicate 4 cb_free"
proof -
  define s0 where "s0 = threads_init [(Register a f, Called), (Register b g, Called)]"
  define s1 where "s1 = s0\<lparr>clients := [(Register a f, Waiting 0), (Register b g, Called)], cancel := False\<rparr>"
  define s2 where "s2 = s1\<lparr>clients := [(Register a f, Waiting 0), (Register b g, Waiting 0)], cancel := False\<rparr>"
  define s3 where "s3 = s2\<lparr>mutex := Some (Client 0), clients := [(Register a f, Holding 0), (Register b g, Waiting 0)]\<rparr>"
  define s4 where "s4 = s3\<lparr>vars := motion_init\<lparr>callback := \<lparr>cb_action = a, pfnCallBack = f\<rparr> # replicate 4 cb_free\<rparr>,
    mutex := None, clients := [(Register a f, Returned 0), (Register b g, Waiting 0)]\<rparr>"
  define s5 where "s5 = s4\<lparr>mutex := Some (Client 1), clients := [(Register a f, Returned 0), (Register b g, Holding 0)]\<rparr>"
  define s6 where "s6 = s5\<lparr>vars := motion_init\<lparr>callback := \<lparr>cb_action = b, pfnCallBack = g\<rparr> # replicate 4 cb_free\<rparr>,
    mutex := None, clients := [(Register a f, Returned 0), (Register b g, Returned 0)]\<rparr>"
  note defs = s0_def s1_def s2_def s3_def s4_def s5_def s6_def threads_init_def
  have table: "callback motion_init = cb_free # replicate 4 cb_free" "cb_action cb_free = MOTION_ACTION_NULL"
    by (simp_all add: motion_init_def MAX_CALLBACK_NUM_def numeral_eq_Suc cb_free_def)
  have 1: "motion_step emits s0 s1"
    using motion_step.call [of 0 s0 "Register a f" emits] by (simp add: defs enter_def wild_def table Let_def)
  have 2: "motion_step emits s1 s2"
    using motion_step.call [of 1 s1 "Register b g" emits] by (simp add: defs enter_def wild_def table Let_def)
  have 3: "motion_step emits s2 s3"
    using motion_step.acquire [of 0 s2 "Register a f" 0 emits] by (simp add: defs)
  have 4: "motion_step emits s3 s4"
    using motion_step.release [of 0 s3 "Register a f" 0 emits] by (simp add: defs work_def outcome_def set_callback_def table)
  have 5: "motion_step emits s4 s5"
    using motion_step.acquire [of 1 s4 "Register b g" 0 emits] by (simp add: defs)
  have 6: "motion_step emits s5 s6"
    using motion_step.release [of 1 s5 "Register b g" 0 emits] by (simp add: defs work_def outcome_def set_callback_def)
  have "motion_steps emits s0 s6"
    using 1 2 3 4 5 6 by (meson rtranclp.rtrancl_refl steps_intro)
  thus ?thesis
    by (intro exI [of _ s6]) (simp add: s0_def s6_def)
qed

end
