(* ===== verification/V4L.thy ===== *)
theory V4L
  imports TsPrelude
begin

unbundle bit_operations_syntax

text \<open>
  The capture device of the camera demo, src/videoin_HW/V4L.c. The driver is a parameter: a
  function of the events so far and of the request, which may answer anything; a reply of the wrong
  kind leaves the struct of the caller as it is. The events are kept in a log. Addresses are
  integers, and a local struct that is read before it is written is an argument.
\<close>

subsection \<open>Data\<close>

datatype E_IMAGE_RESOL = eIMAGE_QVGA | eIMAGE_WQVGA | eIMAGE_VGA | eIMAGE_SVGA | eIMAGE_HD720

definition ERR_V4L_SUCCESS :: "32 word" where "ERR_V4L_SUCCESS = 0"
definition ERR_V4L_OPEN_DEV :: "32 word" where "ERR_V4L_OPEN_DEV = 0x80400001"
definition ERR_V4L_VID_GET_CAP :: "32 word" where "ERR_V4L_VID_GET_CAP = 0x80400002"
definition ERR_V4L_VID_GRAB_DEV :: "32 word" where "ERR_V4L_VID_GRAB_DEV = 0x80400003"
definition ERR_V4L_VID_SET_PICT :: "32 word" where "ERR_V4L_VID_SET_PICT = 0x80400004"
definition ERR_V4L_VID_SET_WIN :: "32 word" where "ERR_V4L_VID_SET_WIN = 0x80400005"
definition ERR_AVDEV_VID_CAPTURE :: "32 word" where "ERR_AVDEV_VID_CAPTURE = 0x80400006"
definition ERR_V4L_MMAP :: "32 word" where "ERR_V4L_MMAP = 0x80400007"
definition ERR_V4L_VID_MCAPTURE :: "32 word" where "ERR_V4L_VID_MCAPTURE = 0x80400008"
definition ERR_V4L_VID_SYNC :: "32 word" where "ERR_V4L_VID_SYNC = 0x80400009"
definition ERR_V4L_VID_CAPTURE :: "32 word" where "ERR_V4L_VID_CAPTURE = 0x8040000A"
definition ERR_V4L_VID_QUERY_UID :: "32 word" where "ERR_V4L_VID_QUERY_UID = 0x8040000B"

definition VIDEO_START :: "32 word" where "VIDEO_START = 0"
definition VIDEO_STOP :: "32 word" where "VIDEO_STOP = 1"
definition REG_SDE_CTRL :: int where "REG_SDE_CTRL = 0x6A"
definition REG_BRIGHT :: int where "REG_BRIGHT = 0x9B"
definition MAX_USER_CTRL :: nat where "MAX_USER_CTRL = 16"

record video_window =
  win_x :: "32 word"
  win_y :: "32 word"
  win_width :: "32 word"
  win_height :: "32 word"
  win_chromakey :: "32 word"
  win_flags :: "32 word"

record video_mbuf =
  mb_size :: int
  mb_frames :: int
  mb_offsets :: "int list"

datatype video_palette = VIDEO_PALETTE_YUV422 | VIDEO_PALETTE_YUV420P | VIDEO_PALETTE_YUV422P

record video_mmap =
  mm_frame :: "32 word"
  mm_height :: int
  mm_width :: int
  mm_format :: video_palette

record v4l2_queryctrl =
  qc_id :: "32 word"
  qc_name :: string
  qc_disabled :: bool

record v4l2_rect =
  r_left :: int
  r_top :: int
  r_width :: int
  r_height :: int

record v4l2_cropcap =
  defrect :: v4l2_rect
  pa_numerator :: "32 word"
  pa_denominator :: "32 word"

record S_PIPE_INFO =
  i32PipeBufNo :: int
  i32PipeBufSize :: int
  i32CurrPipePhyAddr :: int

text \<open>The state \<open>s_sVidData\<close> with the other statics of the file.\<close>

record vid =
  i32VidFD :: int
  i32FrameFmt :: video_palette
  i32UseMMap :: bool
  i32FrameSize :: int
  sVidWin :: video_window
  pu8VidBuf :: int
  sVidMBufs :: video_mbuf
  sVidMMap :: video_mmap
  i32VidFrame :: int
  s_u64PrevTS :: "64 word"
  ctrl_id :: nat
  PrivateUserCtrl :: "v4l2_queryctrl list"

subsection \<open>The driver\<close>

datatype errno = EAGAIN | EINTR | EINVAL | EOTHER

datatype v4l_req =
    VIDIOCGCAP | VIDIOCGPICT | VIDIOCSPICT video_palette int | VIDIOCGMBUF
  | VIDIOCSWIN video_window | VIDIOCCAPTURE "32 word" | VIDIOCMCAPTURE video_mmap
  | VIDIOCSYNC int | VIDIOCGCAPTIME int | VIDIOCSPREVIEW int
  | VIDIOC_QUERYCTRL "32 word" | VIDIOC_S_CTRL "32 word" int | VIDIOC_G_CTRL "32 word"
  | VIDIOC_CROPCAP | VIDIOC_G_CROP | VIDIOC_S_CROP v4l2_rect
  | VIDIOC_QUERY_SENSOR_ID | VIDIOC_G_PACKET_INFO | VIDIOC_G_PLANAR_INFO | VIDIOC_S_MAP_BUF int

datatype v4l_ev = Ioctl v4l_req | OpenDev | CloseFd int | Mmap int bool | Munmap int | OpenFile string | WriteFile nat | CloseFile

datatype v4l_reply =
    Fails errno | Granted
  | GotCap bool | GotMBuf video_mbuf | GotTime "32 word" "32 word" "32 word"
  | GotQuery string bool | GotCtrl int | GotCropCap v4l2_cropcap | GotCrop v4l2_rect
  | GotInt int | GotPipe S_PIPE_INFO

text \<open>What \<open>open\<close> and \<open>mmap\<close> give, and the replies of the driver.\<close>

record v4l_env =
  open_fd :: int
  mmap_at :: "bool \<Rightarrow> int option"
  driver :: "v4l_ev list \<Rightarrow> v4l_req \<Rightarrow> v4l_reply"

type_synonym vstate = "vid \<times> v4l_ev list"

definition fails :: "v4l_reply \<Rightarrow> bool" where
  "fails r \<longleftrightarrow> (case r of Fails _ \<Rightarrow> True | _ \<Rightarrow> False)"

definition ioctl :: "v4l_env \<Rightarrow> v4l_req \<Rightarrow> v4l_ev list \<Rightarrow> v4l_reply \<times> v4l_ev list" where
  "ioctl e q l = (driver e l q, l @ [Ioctl q])"

text \<open>A request whose result is only success or failure.\<close>

definition request :: "v4l_env \<Rightarrow> v4l_req \<Rightarrow> 32 word \<Rightarrow> vstate \<Rightarrow> 32 word \<times> vstate" where
  "request e q err = (\<lambda>(v, l). let (r, l) = ioctl e q l in (if fails r then err else ERR_V4L_SUCCESS, v, l))"

subsection \<open>Opening\<close>

definition image_size :: "E_IMAGE_RESOL \<Rightarrow> int \<times> int" where
  "image_size eImageResol =
     (if eImageResol = eIMAGE_VGA then (640, 480) else if eImageResol = eIMAGE_WQVGA then (480, 272) else (320, 240))"

text \<open>Access by \<open>read\<close>, when the driver has no buffers to map.\<close>

definition init_read :: "v4l_env \<Rightarrow> int \<Rightarrow> int \<Rightarrow> vstate \<Rightarrow> 32 word \<times> vstate" where
  "init_read e i32Width i32Height = (\<lambda>(v, l).
     let v = v\<lparr>sVidWin := \<lparr>win_x = 0, win_y = 0, win_width = word_of_int i32Width, win_height = word_of_int i32Height, win_chromakey = - 1, win_flags = 0\<rparr>\<rparr>;
         (err, v, l) = request e (VIDIOCSWIN (sVidWin v)) ERR_V4L_VID_SET_WIN (v, l) in
     if err \<noteq> ERR_V4L_SUCCESS then (err, v, l)
     else
       let v = v\<lparr>i32FrameFmt := VIDEO_PALETTE_YUV420P\<rparr>;
           (err, v, l) = request e (VIDIOCCAPTURE 1) ERR_AVDEV_VID_CAPTURE (v, l) in
       if err \<noteq> ERR_V4L_SUCCESS then (err, v, l) else (ERR_V4L_SUCCESS, v\<lparr>i32UseMMap := False\<rparr>, l))"

text \<open>Access by the mapped buffers, shared or else private; the first frame is started.\<close>

definition init_mmap :: "v4l_env \<Rightarrow> int \<Rightarrow> int \<Rightarrow> vstate \<Rightarrow> fault + 32 word \<times> vstate" where
  "init_mmap e i32Width i32Height = (\<lambda>(v, l).
     let sz = mb_size (sVidMBufs v);
         l = l @ [Mmap sz True];
         (buf, l) = (case mmap_at e True of Some a \<Rightarrow> (Some a, l) | None \<Rightarrow> (mmap_at e False, l @ [Mmap sz False])) in
     case buf of
       None \<Rightarrow> Inr (ERR_V4L_MMAP, v\<lparr>pu8VidBuf := - 1\<rparr>, l)
     | Some a \<Rightarrow>
         if mb_frames (sVidMBufs v) = 0 then Inl DivByZero
         else
           let v = v\<lparr>pu8VidBuf := a, i32VidFrame := 0,
                     sVidMMap := \<lparr>mm_frame = word_of_int (0 smod mb_frames (sVidMBufs v)), mm_height = i32Height, mm_width = i32Width, mm_format = VIDEO_PALETTE_YUV420P\<rparr>\<rparr>;
               (err, v, l) = request e (VIDIOCMCAPTURE (sVidMMap v)) ERR_V4L_VID_MCAPTURE (v, l) in
           if err \<noteq> ERR_V4L_SUCCESS then Inr (err, v, l)
           else Inr (ERR_V4L_SUCCESS, v\<lparr>i32FrameFmt := mm_format (sVidMMap v), i32UseMMap := True\<rparr>, l))"

definition init_buffers :: "v4l_env \<Rightarrow> int \<Rightarrow> int \<Rightarrow> vstate \<Rightarrow> fault + 32 word \<times> vstate" where
  "init_buffers e i32Width i32Height = (\<lambda>(v, l).
     let (r, l) = ioctl e VIDIOCGMBUF l in
     if fails r then Inr (init_read e i32Width i32Height (v, l))
     else init_mmap e i32Width i32Height ((case r of GotMBuf m \<Rightarrow> v\<lparr>sVidMBufs := m\<rparr> | _ \<Rightarrow> v), l))"

definition InitV4LDevice :: "v4l_env \<Rightarrow> bool \<Rightarrow> E_IMAGE_RESOL \<Rightarrow> vstate \<Rightarrow> fault + 32 word \<times> vstate" where
  "InitV4LDevice e capture_junk eImageResol = (\<lambda>(v, l).
     let l = l @ [OpenDev]; fd = open_fd e;
         fail = (\<lambda>err (v, l). Inr (err, v, l @ [CloseFd fd])) in
     if fd < 0 then Inr (ERR_V4L_OPEN_DEV, v, l)
     else
       let (r, l) = ioctl e VIDIOCGCAP l in
       if fails r then fail ERR_V4L_VID_GET_CAP (v, l)
       else if \<not> (case r of GotCap b \<Rightarrow> b | _ \<Rightarrow> capture_junk) then fail ERR_V4L_VID_GRAB_DEV (v, l)
       else
         let (i32Width, i32Height) = image_size eImageResol;
             l = snd (ioctl e VIDIOCGPICT l);
             (err, v, l) = request e (VIDIOCSPICT VIDEO_PALETTE_YUV422 16) ERR_V4L_VID_SET_PICT (v, l) in
         if err \<noteq> ERR_V4L_SUCCESS then fail err (v, l)
         else bindr (init_buffers e i32Width i32Height (v, l)) (\<lambda>(err, v, l).
           if err \<noteq> ERR_V4L_SUCCESS then fail err (v, l)
           else Inr (err, v\<lparr>i32FrameSize := s32 (s32 (mm_width (sVidMMap v) * mm_height (sVidMMap v)) * 2), i32VidFD := fd\<rparr>, l)))"

subsection \<open>Frames\<close>

text \<open>Waiting for the frame: another failure than \<open>EAGAIN\<close> or \<open>EINTR\<close> ends the loop like success.\<close>

function sync_loop :: "v4l_env \<Rightarrow> nat \<Rightarrow> int \<Rightarrow> v4l_ev list \<Rightarrow> bool \<times> v4l_ev list" where
  "sync_loop e i32TryCnt frame l =
     (let (r, l) = ioctl e (VIDIOCSYNC frame) l in
      if r = Fails EAGAIN \<or> r = Fails EINTR then
        (if i32TryCnt + 1 \<ge> 100 then (False, l) else sync_loop e (i32TryCnt + 1) frame l)
      else (True, l))"
  by pat_completeness auto
termination by (relation "measure (\<lambda>(_, i32TryCnt, _). 100 - i32TryCnt)") auto

declare sync_loop.simps [simp del]

definition ReadV4LPicture :: "v4l_env \<Rightarrow> 32 word \<times> 32 word \<times> 32 word \<Rightarrow> vstate \<Rightarrow> fault + 32 word \<times> (int \<times> 64 word \<times> 32 word) option \<times> vstate" where
  "ReadV4LPicture e junk = (\<lambda>(v, l).
     let (ok, l) = sync_loop e 0 (i32VidFrame v) l in
     if \<not> ok then Inr (ERR_V4L_VID_SYNC, None, v, l)
     else
       let (r, l) = ioctl e (VIDIOCGCAPTIME (i32VidFrame v)) l;
           (tv_sec, tv_usec, userptr) = (case r of GotTime a b c \<Rightarrow> (a, b, c) | _ \<Rightarrow> junk);
           ts = scast tv_sec * 1000000 + scast tv_usec in
       bindr (arr_get (mb_offsets (sVidMBufs v)) (i32VidFrame v)) (\<lambda>off.
       Inr (ERR_V4L_SUCCESS, Some (pu8VidBuf v + off, ts, userptr), v\<lparr>s_u64PrevTS := ts\<rparr>, l)))"

definition TriggerV4LNextFrame :: "v4l_env \<Rightarrow> vstate \<Rightarrow> fault + 32 word \<times> vstate" where
  "TriggerV4LNextFrame e = (\<lambda>(v, l).
     let (ok, l) = sync_loop e 0 (i32VidFrame v) l in
     if \<not> ok then Inr (ERR_V4L_VID_SYNC, v, l)
     else
       let v = v\<lparr>sVidMMap := (sVidMMap v)\<lparr>mm_frame := word_of_int (i32VidFrame v)\<rparr>\<rparr>;
           (err, v, l) = request e (VIDIOCMCAPTURE (sVidMMap v)) ERR_V4L_VID_MCAPTURE (v, l) in
       if err \<noteq> ERR_V4L_SUCCESS then Inr (err, v, l)
       else if mb_frames (sVidMBufs v) = 0 then Inl DivByZero
       else Inr (ERR_V4L_SUCCESS, v\<lparr>i32VidFrame := s32 (i32VidFrame v + 1) smod mb_frames (sVidMBufs v)\<rparr>, l))"

definition StartV4LCapture :: "v4l_env \<Rightarrow> vstate \<Rightarrow> 32 word \<times> vstate" where
  "StartV4LCapture e s =
     (let (err, v, l) = request e (VIDIOCCAPTURE VIDEO_START) ERR_V4L_VID_CAPTURE s in
      (err, if err = ERR_V4L_SUCCESS then v\<lparr>i32VidFrame := 0\<rparr> else v, l))"

definition StopV4LCapture :: "v4l_env \<Rightarrow> vstate \<Rightarrow> 32 word \<times> vstate" where
  "StopV4LCapture e = request e (VIDIOCCAPTURE VIDEO_STOP) ERR_V4L_VID_CAPTURE"

definition StartPreview :: "v4l_env \<Rightarrow> vstate \<Rightarrow> 32 word \<times> vstate" where
  "StartPreview e = request e (VIDIOCSPREVIEW 1) ERR_V4L_VID_CAPTURE"

definition StopPreview :: "v4l_env \<Rightarrow> vstate \<Rightarrow> 32 word \<times> vstate" where
  "StopPreview e = request e (VIDIOCSPREVIEW 0) ERR_V4L_VID_CAPTURE"

definition SetV4LViewWindow :: "v4l_env \<Rightarrow> int \<Rightarrow> int \<Rightarrow> int \<Rightarrow> int \<Rightarrow> vstate \<Rightarrow> 32 word \<times> vstate" where
  "SetV4LViewWindow e lcmwidth lcmheight prewidth preheight = (\<lambda>(v, l).
     let v = v\<lparr>sVidWin := \<lparr>win_x = word_of_int (s32 (lcmwidth - prewidth) sdiv 2), win_y = word_of_int (s32 (lcmheight - preheight) sdiv 2),
                 win_width = word_of_int prewidth, win_height = word_of_int preheight, win_chromakey = - 1, win_flags = 0\<rparr>\<rparr>;
         (err, v, l) = request e (VIDIOCSWIN (sVidWin v)) ERR_V4L_VID_SET_WIN (v, l) in
     if err \<noteq> ERR_V4L_SUCCESS then (err, v, if 0 \<le> i32VidFD v then l @ [CloseFd (i32VidFD v)] else l) else (err, v, l))"

definition SetV4LEncode :: "v4l_env \<Rightarrow> int \<Rightarrow> int \<Rightarrow> int \<Rightarrow> video_palette \<Rightarrow> vstate \<Rightarrow> 32 word \<times> vstate" where
  "SetV4LEncode e frame width height pal = (\<lambda>(v, l).
     let v = v\<lparr>sVidMMap := \<lparr>mm_frame = word_of_int frame, mm_height = height, mm_width = width, mm_format = pal\<rparr>,
               i32FrameSize := s32 (s32 (width * height) * 2)\<rparr> in
     request e (VIDIOCMCAPTURE (sVidMMap v)) ERR_V4L_VID_MCAPTURE (v, l))"

subsection \<open>Controls\<close>

text \<open>
  The standard controls, numbers from \<open>V4L2_CID_BASE\<close> to \<open>V4L2_CID_LASTP1\<close> of the kernel headers:
  only the error code and the struct that is filled are kept.
\<close>

definition take_query :: "32 word \<Rightarrow> v4l_reply \<Rightarrow> v4l2_queryctrl \<Rightarrow> v4l2_queryctrl" where
  "take_query i r queryctrl = (case r of GotQuery nm dis \<Rightarrow> \<lparr>qc_id = i, qc_name = nm, qc_disabled = dis\<rparr> | _ \<Rightarrow> queryctrl\<lparr>qc_id := i\<rparr>)"

fun query_standard :: "v4l_env \<Rightarrow> 32 word list \<Rightarrow> v4l2_queryctrl \<Rightarrow> 32 word \<Rightarrow> v4l_ev list \<Rightarrow> 32 word \<times> v4l2_queryctrl \<times> v4l_ev list" where
  "query_standard e [] queryctrl err l = (err, queryctrl, l)"
| "query_standard e (i # ids) queryctrl err l =
     (let (r, l) = ioctl e (VIDIOC_QUERYCTRL i) l in
      query_standard e ids (take_query i r queryctrl) (if fails r \<and> r \<noteq> Fails EINVAL then ERR_V4L_VID_QUERY_UID else err) l)"

text \<open>The private controls, numbers from \<open>V4L2_CID_PRIVATE_BASE\<close> on until the driver knows no more.\<close>

partial_function (option) query_private :: "v4l_env \<Rightarrow> 32 word \<Rightarrow> v4l2_queryctrl \<Rightarrow> 32 word \<Rightarrow> vstate \<Rightarrow> (fault + 32 word \<times> vstate) option" where
  "query_private e i queryctrl err s =
     (case ioctl e (VIDIOC_QUERYCTRL i) (snd s) of (r, l) \<Rightarrow>
      if fails r then
        (if r = Fails EINVAL then Some (Inr (err, fst s, l))
         else query_private e (i + 1) (queryctrl\<lparr>qc_id := i\<rparr>) ERR_V4L_VID_QUERY_UID (fst s, l))
      else
        (let q = take_query i r queryctrl in
         if qc_disabled q then query_private e (i + 1) q err (fst s, l)
         else if MAX_USER_CTRL < ctrl_id (fst s) then Some (Inr (ERR_V4L_VID_QUERY_UID, fst s, l))
         else (case arr_put (ctrl_id (fst s)) q (PrivateUserCtrl (fst s)) of
                 Inl f \<Rightarrow> Some (Inl f)
               | Inr tab \<Rightarrow> query_private e (i + 1) q err ((fst s)\<lparr>PrivateUserCtrl := tab, ctrl_id := ctrl_id (fst s) + 1\<rparr>, l))))"

definition QueryV4LUserControl :: "v4l_env \<Rightarrow> 32 word list \<Rightarrow> 32 word \<Rightarrow> vstate \<Rightarrow> (fault + 32 word \<times> vstate) option" where
  "QueryV4LUserControl e standard private_base = (\<lambda>(v, l).
     let (err, queryctrl, l) = query_standard e standard \<lparr>qc_id = 0, qc_name = [], qc_disabled = False\<rparr> ERR_V4L_SUCCESS l in
     query_private e private_base queryctrl err (v, l))"

definition ctrl_by_name :: "string \<Rightarrow> vid \<Rightarrow> fault + 32 word" where
  "ctrl_by_name nm v =
     (case find (\<lambda>c. qc_name c = nm) (take MAX_USER_CTRL (PrivateUserCtrl v)) of Some c \<Rightarrow> Inr (qc_id c) | None \<Rightarrow> Inl NullDeref)"

text \<open>One register of the sensor: its address is set, it is read, and the changed value is written.\<close>

definition change_register :: "v4l_env \<Rightarrow> 32 word \<Rightarrow> 32 word \<Rightarrow> 32 word \<Rightarrow> int \<Rightarrow> (int \<Rightarrow> int) \<Rightarrow> vstate \<Rightarrow> 32 word \<times> vstate" where
  "change_register e set_addr write rd reg f = (\<lambda>(v, l).
     let (r, l) = ioctl e (VIDIOC_S_CTRL set_addr reg) l in
     if fails r then (- 1, v, l)
     else
       let (r, l) = ioctl e (VIDIOC_G_CTRL rd) l in
       if fails r then (- 1, v, l)
       else
         let old = (case r of GotCtrl x \<Rightarrow> x | _ \<Rightarrow> reg);
             (r, l) = ioctl e (VIDIOC_S_CTRL write (f old)) l in
         (if fails r then - 1 else ERR_V4L_SUCCESS, v, l))"

definition ChangeV4LUserControl_Brigness :: "v4l_env \<Rightarrow> int \<Rightarrow> vstate \<Rightarrow> fault + 32 word \<times> vstate" where
  "ChangeV4LUserControl_Brigness e ctrl = (\<lambda>(v, l).
     bindr (ctrl_by_name ''i2c_set_addr'' v) (\<lambda>set_addr.
     bindr (ctrl_by_name ''i2c_write'' v) (\<lambda>write.
     bindr (ctrl_by_name ''i2c_read'' v) (\<lambda>rd.
     let (err, v, l) = change_register e set_addr write rd REG_SDE_CTRL (\<lambda>x. x OR 0x04) (v, l) in
     if err \<noteq> ERR_V4L_SUCCESS then Inr (err, v, l)
     else Inr (change_register e set_addr write rd REG_BRIGHT (\<lambda>x. if 0 \<le> ctrl then s32 (x + 1) else s32 (x - 1)) (v, l))))))"

subsection \<open>Zooming\<close>

definition QueryV4LZoomInfo :: "v4l_env \<Rightarrow> v4l2_cropcap \<times> v4l2_rect \<Rightarrow> vstate \<Rightarrow> 32 word \<times> (v4l2_cropcap \<times> v4l2_rect) \<times> vstate" where
  "QueryV4LZoomInfo e = (\<lambda>(cap, crop) (v, l).
     let (r, l) = ioctl e VIDIOC_CROPCAP l in
     if fails r then (- 1, (cap, crop), v, l)
     else
       let cap = (case r of GotCropCap c \<Rightarrow> c | _ \<Rightarrow> cap);
           (r, l) = ioctl e VIDIOC_G_CROP l in
       if fails r then (- 1, (cap, crop), v, l)
       else (ERR_V4L_SUCCESS, (cap, (case r of GotCrop c \<Rightarrow> c | _ \<Rightarrow> crop)), v, l))"

text \<open>
  A side of the window is \<open>__s32\<close>, a step \<open>__u32\<close>: sums, differences and comparisons are unsigned, and
  the results are stored in \<open>__s32\<close> fields.
\<close>

definition u32_of :: "int \<Rightarrow> 32 word" where
  "u32_of v = word_of_int v"

definition zoom_in_fits :: "v4l2_cropcap \<Rightarrow> v4l2_rect \<Rightarrow> bool" where
  "zoom_in_fits cap c \<longleftrightarrow>
     u32_of (r_width (defrect cap) sdiv 8) \<le> u32_of (r_width c) - pa_denominator cap \<and>
     u32_of (r_height (defrect cap) sdiv 8) \<le> u32_of (r_height c) - pa_numerator cap"

definition zoom_in :: "v4l2_cropcap \<Rightarrow> v4l2_rect \<Rightarrow> v4l2_rect" where
  "zoom_in cap c = c\<lparr>
     r_width := sint (u32_of (r_width c) - pa_denominator cap),
     r_height := sint (u32_of (r_height c) - pa_numerator cap),
     r_left := sint (u32_of (r_left c) + pa_denominator cap div 2),
     r_top := sint (u32_of (r_top c) + pa_numerator cap div 2)\<rparr>"

definition zoom_out_fits :: "v4l2_cropcap \<Rightarrow> v4l2_rect \<Rightarrow> bool" where
  "zoom_out_fits cap c \<longleftrightarrow>
     u32_of (r_width c) + pa_denominator cap \<le> u32_of (r_width (defrect cap)) \<and>
     u32_of (r_height c) + pa_numerator cap \<le> u32_of (r_height (defrect cap))"

definition zoom_out :: "v4l2_cropcap \<Rightarrow> v4l2_rect \<Rightarrow> v4l2_rect" where
  "zoom_out cap c = c\<lparr>
     r_width := sint (u32_of (r_width c) + pa_denominator cap),
     r_height := sint (u32_of (r_height c) + pa_numerator cap),
     r_left := sint (u32_of (r_left c) - pa_denominator cap div 2),
     r_top := sint (u32_of (r_top c) - pa_numerator cap div 2)\<rparr>"

definition set_crop :: "v4l_env \<Rightarrow> v4l2_cropcap \<Rightarrow> v4l2_rect \<Rightarrow> vstate \<Rightarrow> 32 word \<times> (v4l2_cropcap \<times> v4l2_rect) \<times> vstate" where
  "set_crop e cap c = (\<lambda>(v, l). let (r, l) = ioctl e (VIDIOC_S_CROP c) l in (if fails r then - 1 else ERR_V4L_SUCCESS, (cap, c), v, l))"

definition Zooming :: "v4l_env \<Rightarrow> int \<Rightarrow> v4l2_cropcap \<times> v4l2_rect \<Rightarrow> vstate \<Rightarrow> 32 word \<times> (v4l2_cropcap \<times> v4l2_rect) \<times> vstate" where
  "Zooming e ctrl z s =
     (let (err, (cap, crop), s) = QueryV4LZoomInfo e z s in
      if err \<noteq> ERR_V4L_SUCCESS then (- 1, (cap, crop), s)
      else if ctrl = 1 then
        (if zoom_in_fits cap crop then set_crop e cap (zoom_in cap crop) s else (ERR_V4L_SUCCESS, (cap, crop), s))
      else
        (if zoom_out_fits cap crop then set_crop e cap (zoom_out cap crop) s else (ERR_V4L_SUCCESS, (cap, crop), s)))"

subsection \<open>The other requests\<close>

definition QueryV4LSensorID :: "v4l_env \<Rightarrow> int \<Rightarrow> vstate \<Rightarrow> 32 word \<times> int \<times> vstate" where
  "QueryV4LSensorID e old = (\<lambda>(v, l).
     let (r, l) = ioctl e VIDIOC_QUERY_SENSOR_ID l in
     (if fails r then - 1 else ERR_V4L_SUCCESS, (case r of GotInt x \<Rightarrow> x | _ \<Rightarrow> old), v, l))"

definition query_pipe :: "v4l_env \<Rightarrow> v4l_req \<Rightarrow> S_PIPE_INFO \<Rightarrow> vstate \<Rightarrow> 32 word \<times> S_PIPE_INFO \<times> vstate" where
  "query_pipe e q old = (\<lambda>(v, l).
     let (r, l) = ioctl e q l in
     (if fails r then - 1 else ERR_V4L_SUCCESS, (case r of GotPipe x \<Rightarrow> x | _ \<Rightarrow> old), v, l))"

definition QueryV4LPacketInformation :: "v4l_env \<Rightarrow> S_PIPE_INFO \<Rightarrow> vstate \<Rightarrow> 32 word \<times> S_PIPE_INFO \<times> vstate" where
  "QueryV4LPacketInformation e = query_pipe e VIDIOC_G_PACKET_INFO"

definition QueryV4LPlanarInformation :: "v4l_env \<Rightarrow> S_PIPE_INFO \<Rightarrow> vstate \<Rightarrow> 32 word \<times> S_PIPE_INFO \<times> vstate" where
  "QueryV4LPlanarInformation e = query_pipe e VIDIOC_G_PLANAR_INFO"

text \<open>The two results are only written where the function does not fail before.\<close>

definition ChangeEncodeV4LResoultion :: "v4l_env \<Rightarrow> vstate \<Rightarrow> 32 word \<times> (int \<times> int) option \<times> vstate" where
  "ChangeEncodeV4LResoultion e s =
     (let (err, v, l) = request e (VIDIOCCAPTURE 0) ERR_AVDEV_VID_CAPTURE s in
      if err \<noteq> ERR_V4L_SUCCESS then (err, None, v, l)
      else
        let v = v\<lparr>sVidMMap := (sVidMMap v)\<lparr>mm_height := 240, mm_width := 320\<rparr>, i32FrameSize := s32 (s32 (320 * 240) * 2)\<rparr>;
            (err, v, l) = request e (VIDIOCMCAPTURE (sVidMMap v)) ERR_V4L_VID_MCAPTURE (v, l) in
        if err \<noteq> ERR_V4L_SUCCESS then (err, None, v, l)
        else
          let (err, v, l) = request e (VIDIOCCAPTURE 0) ERR_AVDEV_VID_CAPTURE (v\<lparr>i32VidFrame := 0\<rparr>, l) in
          (err, Some (320, 240), v, l))"

definition menuEncodeV4LResoultion :: "v4l_env \<Rightarrow> int \<Rightarrow> vstate \<Rightarrow> E_IMAGE_RESOL \<times> vstate" where
  "menuEncodeV4LResoultion e junk s =
     (let (_, wh, s) = ChangeEncodeV4LResoultion e s;
          i32width = (case wh of Some (w, _) \<Rightarrow> w | None \<Rightarrow> junk) in
      (if i32width = 320 then eIMAGE_QVGA else if i32width = 480 then eIMAGE_WQVGA else if i32width = 800 then eIMAGE_SVGA
       else if i32width = 1280 then eIMAGE_HD720 else eIMAGE_VGA, s))"

text \<open>\<open>item\<close> is the constant \<open>e\<close>.\<close>

definition menuChangeParameter :: "v4l_env \<Rightarrow> int \<Rightarrow> vstate \<Rightarrow> E_IMAGE_RESOL \<times> vstate" where
  "menuChangeParameter = menuEncodeV4LResoultion"

text \<open>\<open>__DUMP_PACKET__\<close> is defined. Whether the file opens and what \<open>write\<close> returns are arguments.\<close>

definition dumpV4LBuffer :: "v4l_env \<Rightarrow> S_PIPE_INFO \<Rightarrow> bool \<Rightarrow> int \<Rightarrow> vstate \<Rightarrow> int \<times> vstate" where
  "dumpV4LBuffer e junk opens written s =
     (let (_, info, v, l) = QueryV4LPacketInformation e junk s;
          (r, l) = ioctl e (VIDIOC_S_MAP_BUF 3) l in
      if fails r then (- 1, v, l)
      else
        let l = l @ [Mmap (i32PipeBufSize info) True, OpenFile ''DumpPacket.pb''] in
        if \<not> opens then (- 1, v, l)
        else
          let l = l @ [WriteFile (320 * 240 * 2)] in
          if written = - 1 then (- 1, v, l) else (0, v, l @ [CloseFile, Munmap (i32PipeBufSize info)]))"

definition FinializeV4LDevice :: "vstate \<Rightarrow> vstate" where
  "FinializeV4LDevice = (\<lambda>(v, l).
     (v\<lparr>i32VidFD := - 1\<rparr>, (if i32UseMMap v then l @ [Munmap (mb_size (sVidMBufs v))] else l) @ [CloseFd (i32VidFD v)]))"

subsection \<open>Zoom levels\<close>

text \<open>The window the driver has: the last one that was set.\<close>

fun crop_of :: "v4l2_rect \<Rightarrow> v4l_ev list \<Rightarrow> v4l2_rect" where
  "crop_of c [] = c"
| "crop_of c (Ioctl (VIDIOC_S_CROP c') # l) = crop_of c' l"
| "crop_of c (_ # l) = crop_of c l"

lemma crop_of_append: "crop_of c (l @ l') = crop_of (crop_of c l) l'"
  by (induction c l rule: crop_of.induct) simp_all

text \<open>A driver that knows its limits and keeps the window it is given.\<close>

definition crop_driver :: "v4l_env \<Rightarrow> v4l2_cropcap \<Rightarrow> bool" where
  "crop_driver e cap \<longleftrightarrow> (\<forall>l.
     driver e l VIDIOC_CROPCAP = GotCropCap cap \<and>
     driver e l VIDIOC_G_CROP = GotCrop (crop_of (defrect cap) l) \<and>
     (\<forall>c. \<not> fails (driver e l (VIDIOC_S_CROP c))))"

definition cap_ok :: "v4l2_cropcap \<Rightarrow> bool" where
  "cap_ok cap \<longleftrightarrow>
     (let W = r_width (defrect cap); H = r_height (defrect cap); dx = uint (pa_denominator cap); dy = uint (pa_numerator cap) in
      0 < dx \<and> dx \<le> W div 8 \<and> 0 < dy \<and> dy \<le> H div 8 \<and> W < 32768 \<and> H < 32768 \<and>
      0 \<le> r_left (defrect cap) \<and> r_left (defrect cap) < 32768 \<and> 0 \<le> r_top (defrect cap) \<and> r_top (defrect cap) < 32768)"

definition zoom_max :: "v4l2_cropcap \<Rightarrow> int" where
  "zoom_max cap =
     (let W = r_width (defrect cap); H = r_height (defrect cap) in
      min ((W - W div 8) div uint (pa_denominator cap)) ((H - H div 8) div uint (pa_numerator cap)))"

definition level_window :: "v4l2_cropcap \<Rightarrow> int \<Rightarrow> v4l2_rect" where
  "level_window cap n =
     (let d = defrect cap; dx = uint (pa_denominator cap); dy = uint (pa_numerator cap) in
      d\<lparr>r_left := r_left d + n * (dx div 2), r_top := r_top d + n * (dy div 2), r_width := r_width d - n * dx, r_height := r_height d - n * dy\<rparr>)"

definition level_step :: "v4l2_cropcap \<Rightarrow> int \<Rightarrow> int \<Rightarrow> int" where
  "level_step cap n ctrl = (if ctrl = 1 then min (n + 1) (zoom_max cap) else max (n - 1) 0)"

lemma uint_u32_of: "0 \<le> v \<Longrightarrow> v < 4294967296 \<Longrightarrow> uint (u32_of v) = v"
  by (simp add: u32_of_def unsigned_of_int take_bit_int_eq_self)

lemma sint_small_u32: "uint (w :: 32 word) < 2147483648 \<Longrightarrow> sint w = uint w"
  by (simp add: sint_uint signed_take_bit_int_eq_self_iff) (rule order_trans [of _ 0]; simp)

lemma u32_of_plus: "0 \<le> v \<Longrightarrow> v + uint d < 4294967296 \<Longrightarrow> uint (u32_of v + d) = v + uint d"
  using uint_u32_of [of v] unsigned_greater_eq [of d, where 'a = int] by (simp add: uint_word_ariths take_bit_int_eq_self)

lemma u32_of_minus:
  assumes "uint d \<le> v" and "v < 4294967296"
  shows "uint (u32_of v - d) = v - uint d"
proof -
  have d: "0 \<le> uint d" by simp
  have "uint (u32_of v) = v" using d assms by (intro uint_u32_of) linarith+
  hence "uint (u32_of v - d) = (v - uint d) mod 4294967296" by (simp add: uint_word_ariths)
  also have "\<dots> = v - uint d" using d assms by (intro mod_pos_pos_trivial) linarith+
  finally show ?thesis .
qed

lemma level_window_simps [simp]:
  "r_width (level_window cap n) = r_width (defrect cap) - n * uint (pa_denominator cap)"
  "r_height (level_window cap n) = r_height (defrect cap) - n * uint (pa_numerator cap)"
  "r_left (level_window cap n) = r_left (defrect cap) + n * (uint (pa_denominator cap) div 2)"
  "r_top (level_window cap n) = r_top (defrect cap) + n * (uint (pa_numerator cap) div 2)"
  by (simp_all add: level_window_def Let_def)

lemma le_div_iff: "0 < (d :: int) \<Longrightarrow> k \<le> a div d \<longleftrightarrow> k * d \<le> a"
proof
  assume d: "0 < d" and "k \<le> a div d"
  hence "k * d \<le> a div d * d" by (simp add: mult_right_mono)
  also have "\<dots> \<le> a" using d div_mult_mod_eq [of a d] pos_mod_sign [OF d, of a] by linarith
  finally show "k * d \<le> a" .
next
  assume d: "0 < d" and "k * d \<le> a"
  from zdiv_mono1 [OF this(2,1)] show "k \<le> a div d" using d by simp
qed

text \<open>One side of the window: the unsigned tests and results of the code are those on integers.\<close>

lemma zoom_side:
  assumes "0 < uint (d :: 32 word)" and "uint d \<le> W div 8" and "W < 32768" and "0 \<le> n" and "n \<le> (W - W div 8) div uint d"
  shows zoom_side_in: "u32_of (W sdiv 8) \<le> u32_of (W - n * uint d) - d \<longleftrightarrow> n + 1 \<le> (W - W div 8) div uint d"
    and zoom_side_out: "u32_of (W - n * uint d) + d \<le> u32_of W \<longleftrightarrow> 1 \<le> n"
    and zoom_side_less: "sint (u32_of (W - n * uint d) - d) = W - (n + 1) * uint d"
    and zoom_side_more: "1 \<le> n \<Longrightarrow> sint (u32_of (W - n * uint d) + d) = W - (n - 1) * uint d"
proof -
  let ?d = "uint d"
  have W: "0 < W" using assms(1,2) by linarith
  have sd: "W sdiv 8 = W div 8" using W by (simp add: signed_divide_int_def)
  have le: "n * ?d \<le> W - W div 8" using assms(1,5) by (simp add: le_div_iff)
  have nd: "0 \<le> n * ?d" using assms(4) by simp
  have less: "uint (u32_of (W - n * ?d) - d) = W - n * ?d - ?d"
    using le nd assms(2,3) by (intro u32_of_minus) linarith+
  have plus: "uint (u32_of (W - n * ?d) + d) = W - n * ?d + ?d"
    using le nd assms(2,3) W by (intro u32_of_plus) linarith+
  have W8: "uint (u32_of (W sdiv 8)) = W div 8" and WW: "uint (u32_of W) = W"
    unfolding sd using W assms(3) by (simp_all add: uint_u32_of)
  show "u32_of (W sdiv 8) \<le> u32_of (W - n * ?d) - d \<longleftrightarrow> n + 1 \<le> (W - W div 8) div ?d"
    unfolding word_le_def W8 less using assms(1) by (simp add: le_div_iff distrib_right) linarith
  have "1 \<le> n \<longleftrightarrow> ?d \<le> n * ?d"
    using assms(1,4) mult_le_cancel_right2 [of ?d n] by (cases "n = 0") auto
  thus "u32_of (W - n * ?d) + d \<le> u32_of W \<longleftrightarrow> 1 \<le> n"
    unfolding word_le_def plus WW by linarith
  show "sint (u32_of (W - n * ?d) - d) = W - (n + 1) * ?d"
    using less nd assms(3) sint_small_u32 [of "u32_of (W - n * ?d) - d"] assms(1) by (simp add: distrib_right)
  show "sint (u32_of (W - n * ?d) + d) = W - (n - 1) * ?d" if "1 \<le> n"
    using plus nd assms(2,3) sint_small_u32 [of "u32_of (W - n * ?d) + d"] by (simp add: left_diff_distrib)
qed

lemma zoom_corner:
  assumes "uint (d :: 32 word) < 32768" and "0 \<le> n" and "n \<le> 32768" and "0 \<le> L" and "L < 32768"
  shows zoom_corner_in: "sint (u32_of (L + n * (uint d div 2)) + d div 2) = L + (n + 1) * (uint d div 2)"
    and zoom_corner_out: "1 \<le> n \<Longrightarrow> sint (u32_of (L + n * (uint d div 2)) - d div 2) = L + (n - 1) * (uint d div 2)"
proof -
  have h: "uint (d div 2) = uint d div 2" by (simp add: uint_div_distrib)
  have d: "0 \<le> uint d div 2" "uint d div 2 < 16384" using assms(1) by simp_all
  have "n * (uint d div 2) \<le> 32768 * 16384" using d assms(2,3) by (intro mult_mono) linarith+
  hence nd: "0 \<le> n * (uint d div 2)" "n * (uint d div 2) \<le> 536870912" using assms(2) d by simp_all
  have "uint (u32_of (L + n * (uint d div 2)) + d div 2) = L + n * (uint d div 2) + uint (d div 2)"
    using nd d h assms(4,5) by (intro u32_of_plus) linarith+
  thus "sint (u32_of (L + n * (uint d div 2)) + d div 2) = L + (n + 1) * (uint d div 2)"
    using nd d h assms(4,5) sint_small_u32 [of "u32_of (L + n * (uint d div 2)) + d div 2"] by (simp add: distrib_right)
  assume n: "1 \<le> n"
  have one: "uint d div 2 \<le> n * (uint d div 2)" using mult_right_mono [OF n d(1)] by simp
  have "uint (u32_of (L + n * (uint d div 2)) - d div 2) = L + n * (uint d div 2) - uint (d div 2)"
    using nd d h one assms(4,5) by (intro u32_of_minus) linarith+
  moreover have "L + n * (uint d div 2) - uint d div 2 < 2147483648" using nd d assms(5) by linarith
  ultimately show "sint (u32_of (L + n * (uint d div 2)) - d div 2) = L + (n - 1) * (uint d div 2)"
    using h sint_small_u32 [of "u32_of (L + n * (uint d div 2)) - d div 2"] by (simp add: left_diff_distrib)
qed

lemma cap_okD:
  assumes "cap_ok cap"
  shows "0 < uint (pa_denominator cap)" "uint (pa_denominator cap) \<le> r_width (defrect cap) div 8" "r_width (defrect cap) < 32768"
    "0 < uint (pa_numerator cap)" "uint (pa_numerator cap) \<le> r_height (defrect cap) div 8" "r_height (defrect cap) < 32768"
    "0 \<le> r_left (defrect cap)" "r_left (defrect cap) < 32768" "0 \<le> r_top (defrect cap)" "r_top (defrect cap) < 32768"
  using assms by (simp_all add: cap_ok_def Let_def)

lemma zoom_max_small:
  assumes "cap_ok cap"
  shows "0 \<le> zoom_max cap" "zoom_max cap \<le> 32768"
proof -
  note c = cap_okD [OF assms]
  let ?W = "r_width (defrect cap)" and ?H = "r_height (defrect cap)"
  have pos: "0 \<le> ?W - ?W div 8" "0 \<le> ?H - ?H div 8" using c(1,2,4,5) by linarith+
  thus "0 \<le> zoom_max cap" using c(1,4) by (simp add: zoom_max_def Let_def pos_imp_zdiv_nonneg_iff)
  have "(?W - ?W div 8) div uint (pa_denominator cap) \<le> ?W - ?W div 8"
    using zdiv_mono2 [OF pos(1), of 1 "uint (pa_denominator cap)"] c(1) by simp
  also have "\<dots> \<le> 32768" using c(1-3) by linarith
  finally show "zoom_max cap \<le> 32768" by (simp add: zoom_max_def Let_def)
qed

lemma zoom_level:
  assumes "cap_ok cap" and "0 \<le> n" and "n \<le> zoom_max cap"
  shows zoom_in_level: "zoom_in_fits cap (level_window cap n) \<longleftrightarrow> n + 1 \<le> zoom_max cap"
      "zoom_in cap (level_window cap n) = level_window cap (n + 1)"
    and zoom_out_level: "zoom_out_fits cap (level_window cap n) \<longleftrightarrow> 1 \<le> n"
      "1 \<le> n \<Longrightarrow> zoom_out cap (level_window cap n) = level_window cap (n - 1)"
proof -
  note c = cap_okD [OF assms(1)]
  let ?W = "r_width (defrect cap)" and ?H = "r_height (defrect cap)"
  have x: "n \<le> (?W - ?W div 8) div uint (pa_denominator cap)" and y: "n \<le> (?H - ?H div 8) div uint (pa_numerator cap)"
    using assms(3) by (simp_all add: zoom_max_def Let_def)
  have dx: "uint (pa_denominator cap) < 32768" and dy: "uint (pa_numerator cap) < 32768" using c(1-6) by linarith+
  have n: "n \<le> 32768" using assms(3) zoom_max_small(2) [OF assms(1)] by linarith
  note sides = zoom_side [OF c(1-3) assms(2) x] zoom_side [OF c(4-6) assms(2) y]
    and corners = zoom_corner [OF dx assms(2) n c(7,8)] zoom_corner [OF dy assms(2) n c(9,10)]
  show "zoom_in_fits cap (level_window cap n) \<longleftrightarrow> n + 1 \<le> zoom_max cap"
    using sides by (simp add: zoom_in_fits_def zoom_max_def Let_def)
  show "zoom_out_fits cap (level_window cap n) \<longleftrightarrow> 1 \<le> n"
    using sides by (simp add: zoom_out_fits_def)
  show "zoom_in cap (level_window cap n) = level_window cap (n + 1)"
    using sides corners by (simp add: zoom_in_def level_window_def Let_def)
  show "zoom_out cap (level_window cap n) = level_window cap (n - 1)" if "1 \<le> n"
    using sides corners that by (simp add: zoom_out_def level_window_def Let_def)
qed

text \<open>A call of \<open>Zooming\<close> on the window of a level.\<close>

lemma Zooming_level:
  assumes "crop_driver e cap" and "cap_ok cap" and "0 \<le> n" and "n \<le> zoom_max cap" and "crop_of (defrect cap) l = level_window cap n"
  obtains l' where "Zooming e ctrl z (v, l) = (ERR_V4L_SUCCESS, (cap, level_window cap (level_step cap n ctrl)), v, l')"
    "crop_of (defrect cap) l' = level_window cap (level_step cap n ctrl)"
proof -
  have q: "QueryV4LZoomInfo e z (v, l) = (ERR_V4L_SUCCESS, (cap, level_window cap n), v, l @ [Ioctl VIDIOC_CROPCAP, Ioctl VIDIOC_G_CROP])"
    using assms(1,5) by (cases z) (simp add: QueryV4LZoomInfo_def ioctl_def crop_driver_def fails_def crop_of_append)
  have s: "set_crop e cap c (v, l0) = (ERR_V4L_SUCCESS, (cap, c), v, l0 @ [Ioctl (VIDIOC_S_CROP c)])" for c l0
    using assms(1) by (simp add: set_crop_def ioctl_def crop_driver_def)
  note z = zoom_in_level [OF assms(2-4)] zoom_out_level [OF assms(2-4)]
  have step: "level_step cap n ctrl = (if ctrl = 1 then if n + 1 \<le> zoom_max cap then n + 1 else n else if 1 \<le> n then n - 1 else n)"
    using assms(3,4) by (auto simp: level_step_def)
  let ?l = "l @ [Ioctl VIDIOC_CROPCAP, Ioctl VIDIOC_G_CROP]"
  consider "level_step cap n ctrl = n" "Zooming e ctrl z (v, l) = (ERR_V4L_SUCCESS, (cap, level_window cap n), v, ?l)"
    | "Zooming e ctrl z (v, l) = set_crop e cap (level_window cap (level_step cap n ctrl)) (v, ?l)"
    using q z step by (cases "ctrl = 1"; cases "n + 1 \<le> zoom_max cap"; cases "1 \<le> n") (simp_all add: Zooming_def)
  thus ?thesis
  proof cases
    case 1
    thus ?thesis using that [of ?l] assms(5) by (simp add: crop_of_append)
  next
    case 2
    thus ?thesis using that [of "?l @ [Ioctl (VIDIOC_S_CROP (level_window cap (level_step cap n ctrl)))]"] s by (simp add: crop_of_append)
  qed
qed

fun zoom_keys :: "v4l_env \<Rightarrow> int list \<Rightarrow> v4l2_cropcap \<times> v4l2_rect \<Rightarrow> vstate \<Rightarrow> 32 word list \<times> (v4l2_cropcap \<times> v4l2_rect) \<times> vstate" where
  "zoom_keys e [] z s = ([], z, s)"
| "zoom_keys e (ctrl # ctrls) z s =
     (let (err, z, s) = Zooming e ctrl z s; (errs, z, s) = zoom_keys e ctrls z s in (err # errs, z, s))"

lemma level_step_range: "cap_ok cap \<Longrightarrow> 0 \<le> n \<Longrightarrow> n \<le> zoom_max cap \<Longrightarrow> 0 \<le> level_step cap n ctrl \<and> level_step cap n ctrl \<le> zoom_max cap"
  using zoom_max_small(1) [of cap] by (auto simp: level_step_def)

lemma zoom_keys_levels:
  assumes "crop_driver e cap" and "cap_ok cap"
  shows "0 \<le> n \<Longrightarrow> n \<le> zoom_max cap \<Longrightarrow> crop_of (defrect cap) l = level_window cap n \<Longrightarrow>
    \<exists>z' l'. zoom_keys e ctrls z (v, l) = (replicate (length ctrls) ERR_V4L_SUCCESS, z', v, l') \<and>
      crop_of (defrect cap) l' = level_window cap (foldl (level_step cap) n ctrls) \<and>
      0 \<le> foldl (level_step cap) n ctrls \<and> foldl (level_step cap) n ctrls \<le> zoom_max cap"
proof (induction ctrls arbitrary: n z l)
  case Nil
  thus ?case by simp
next
  case (Cons ctrl ctrls)
  obtain l' where l': "Zooming e ctrl z (v, l) = (ERR_V4L_SUCCESS, (cap, level_window cap (level_step cap n ctrl)), v, l')"
      "crop_of (defrect cap) l' = level_window cap (level_step cap n ctrl)"
    by (rule Zooming_level [OF assms Cons.prems])
  show ?case
    using Cons.IH [OF _ _ l'(2), of "(cap, level_window cap (level_step cap n ctrl))"] level_step_range [OF assms(2) Cons.prems(1,2), of ctrl] l'(1) by auto
qed

text \<open>
  C25: On a driver that keeps the window it is given, any sequence of zoom requests walks through
  the zoom levels: level n is the default window less n steps on each side, a step in goes to the
  next level unless the window would get smaller than an eighth of the default one, a step out
  goes back, and level 0 is the default window. Every request succeeds, and the unsigned
  arithmetic of the code never wraps.
\<close>

theorem zoom_levels:
  assumes "crop_driver e cap" and "cap_ok cap"
  shows "\<exists>z' l'. zoom_keys e ctrls z (v, []) = (replicate (length ctrls) ERR_V4L_SUCCESS, z', v, l') \<and>
    crop_of (defrect cap) l' = level_window cap (foldl (level_step cap) 0 ctrls) \<and>
    0 \<le> foldl (level_step cap) 0 ctrls \<and> foldl (level_step cap) 0 ctrls \<le> zoom_max cap"
proof (rule zoom_keys_levels [OF assms])
  show "crop_of (defrect cap) [] = level_window cap 0" by (simp add: level_window_def Let_def)
  show "0 \<le> zoom_max cap" by (rule zoom_max_small(1) [OF assms(2)])
qed simp

definition vga_cap :: v4l2_cropcap where
  "vga_cap = \<lparr>defrect = \<lparr>r_left = 0, r_top = 0, r_width = 640, r_height = 480\<rparr>, pa_numerator = 12, pa_denominator = 16\<rparr>"

definition sample_env :: v4l_env where
  "sample_env = \<lparr>open_fd = 3, mmap_at = \<lambda>_. Some 4096, driver = \<lambda>l q.
     (case q of VIDIOC_CROPCAP \<Rightarrow> GotCropCap vga_cap | VIDIOC_G_CROP \<Rightarrow> GotCrop (crop_of (defrect vga_cap) l)
      | VIDIOC_QUERYCTRL i \<Rightarrow> if i < 3 then GotQuery [char_of (65 + unat i)] (i = 1) else Fails EINVAL
      | VIDIOCGCAPTIME i \<Rightarrow> GotTime 7 8 9
      | _ \<Rightarrow> Granted)\<rparr>"

theorem zoom_levels_witness:
  "\<forall>z v. \<exists>z' l'. zoom_keys sample_env [1, 1, - 1, 1] z (v, []) = (replicate (length [1, 1, - 1, 1 :: int]) ERR_V4L_SUCCESS, z', v, l') \<and>
    crop_of (defrect vga_cap) l' = \<lparr>r_left = 16, r_top = 12, r_width = 608, r_height = 456\<rparr>"
proof (intro allI)
  fix z v
  have "crop_driver sample_env vga_cap" by (simp add: crop_driver_def sample_env_def fails_def)
  moreover have "cap_ok vga_cap" by (simp add: cap_ok_def vga_cap_def)
  ultimately obtain z' l' where r: "zoom_keys sample_env [1, 1, - 1, 1] z (v, []) = (replicate (length [1, 1, - 1, 1 :: int]) ERR_V4L_SUCCESS, z', v, l')"
      "crop_of (defrect vga_cap) l' = level_window vga_cap (foldl (level_step vga_cap) 0 [1, 1, - 1, 1])"
    using zoom_levels [of sample_env vga_cap "[1, 1, - 1, 1]" z v] by blast
  have "foldl (level_step vga_cap) 0 [1, 1, - 1, 1] = 2" by (simp add: level_step_def zoom_max_def vga_cap_def)
  hence "level_window vga_cap (foldl (level_step vga_cap) 0 [1, 1, - 1, 1]) = \<lparr>r_left = 16, r_top = 12, r_width = 608, r_height = 456\<rparr>"
    by (simp only:) (simp add: level_window_def Let_def vga_cap_def)
  thus "\<exists>z' l'. zoom_keys sample_env [1, 1, - 1, 1] z (v, []) = (replicate (length [1, 1, - 1, 1 :: int]) ERR_V4L_SUCCESS, z', v, l') \<and>
    crop_of (defrect vga_cap) l' = \<lparr>r_left = 16, r_top = 12, r_width = 608, r_height = 456\<rparr>"
    using r by metis
qed

text \<open>
  Where an eighth of the default window is smaller than a step, the unsigned difference wraps at the
  last level, the test passes, and a window with a negative side is set.
\<close>

theorem zoom_in_wraps:
  assumes "uint (pa_denominator cap) = 16" "uint (pa_numerator cap) = 12" "r_width (defrect cap) = 100" "r_height (defrect cap) = 80"
    and "r_width c = 12" "r_height c = 30"
  shows "zoom_in_fits cap c \<and> r_width (zoom_in cap c) = - 4"
proof -
  have d: "pa_denominator cap = 16" "pa_numerator cap = 12" using assms(1,2) by (simp_all add: word_uint_eq_iff)
  have "u32_of (100 sdiv 8) \<le> u32_of 12 - 16" "u32_of (80 sdiv 8) \<le> u32_of 30 - 12" "sint (u32_of 12 - 16) = - 4" by code_simp+
  thus ?thesis using assms(3-6) by (simp add: zoom_in_fits_def zoom_in_def d)
qed

subsection \<open>The ring of frames\<close>

text \<open>The part of the loop of \<open>main\<close> that fetches a picture and triggers the next frame; the addresses of the pictures are collected.\<close>

fun grab :: "v4l_env \<Rightarrow> 32 word \<times> 32 word \<times> 32 word \<Rightarrow> nat \<Rightarrow> vstate \<Rightarrow> fault + int option list \<times> vstate" where
  "grab e junk 0 s = Inr ([], s)"
| "grab e junk (Suc k) s =
     bindr (ReadV4LPicture e junk s) (\<lambda>(err, pic, s).
     bindr (if err = ERR_V4L_SUCCESS then TriggerV4LNextFrame e s else Inr (err, s)) (\<lambda>(_, s).
     bindr (grab e junk k s) (\<lambda>(pics, s). Inr (map_option fst pic # pics, s))))"

definition frame_driver :: "v4l_env \<Rightarrow> bool" where
  "frame_driver e \<longleftrightarrow> (\<forall>l i m. driver e l (VIDIOCSYNC i) \<notin> {Fails EAGAIN, Fails EINTR} \<and> \<not> fails (driver e l (VIDIOCMCAPTURE m)))"

lemma sync_loop_ok: "frame_driver e \<Longrightarrow> sync_loop e n i l = (True, l @ [Ioctl (VIDIOCSYNC i)])"
  by (subst sync_loop.simps) (simp add: frame_driver_def ioctl_def)

lemma ReadV4LPicture_ok:
  assumes "frame_driver e" and "i32VidFrame v = int j" and "j < length (mb_offsets (sVidMBufs v))"
  obtains ts ptr l1 where "ReadV4LPicture e junk (v, l) =
    Inr (ERR_V4L_SUCCESS, Some (pu8VidBuf v + mb_offsets (sVidMBufs v) ! j, ts, ptr), v\<lparr>s_u64PrevTS := ts\<rparr>, l1)"
proof -
  obtain a b c where t: "(case driver e (l @ [Ioctl (VIDIOCSYNC (int j))]) (VIDIOCGCAPTIME (int j)) of GotTime a b c \<Rightarrow> (a, b, c) | _ \<Rightarrow> junk) = (a, b, c)"
    by (metis prod_cases3)
  show ?thesis
    using assms that [of "scast a * 1000000 + scast b" c "l @ [Ioctl (VIDIOCSYNC (int j)), Ioctl (VIDIOCGCAPTIME (int j))]"]
    by (simp add: ReadV4LPicture_def sync_loop_ok ioctl_def t Let_def)
qed

lemma TriggerV4LNextFrame_ok:
  assumes "frame_driver e" and "mb_frames (sVidMBufs v) = int m" and "0 < m" and "m < 2147483648" and "i32VidFrame v = int j" and "j < m"
  obtains l2 where "TriggerV4LNextFrame e (v, l) = Inr (ERR_V4L_SUCCESS,
    v\<lparr>sVidMMap := (sVidMMap v)\<lparr>mm_frame := word_of_int (int j)\<rparr>, i32VidFrame := int ((j + 1) mod m)\<rparr>, l2)"
proof -
  have "s32 (int j + 1) = int (j + 1)" using assms(4,6) by (subst s32_id) (auto simp: in_s32_def)
  moreover have "int (j + 1) smod int m = int (j + 1) mod int m" by (simp add: signed_modulo_int_def)
  ultimately have "s32 (int j + 1) smod int m = int ((j + 1) mod m)" by (simp add: zmod_int)
  thus ?thesis
    using assms that by (simp add: TriggerV4LNextFrame_def sync_loop_ok request_def ioctl_def frame_driver_def ERR_V4L_SUCCESS_def)
qed

lemma grab_ring:
  assumes "frame_driver e"
  shows "mb_frames (sVidMBufs v) = int m \<Longrightarrow> 0 < m \<Longrightarrow> m \<le> length (mb_offsets (sVidMBufs v)) \<Longrightarrow> m < 2147483648 \<Longrightarrow>
    i32VidFrame v = int j \<Longrightarrow> j < m \<Longrightarrow>
    \<exists>v' l'. grab e junk k (v, l) = Inr (map (\<lambda>i. Some (pu8VidBuf v + mb_offsets (sVidMBufs v) ! ((j + i) mod m))) [0 ..< k], v', l') \<and>
      i32VidFrame v' = int ((j + k) mod m)"
proof (induction k arbitrary: j v l)
  case 0
  thus ?case by simp
next
  case (Suc k)
  let ?o = "\<lambda>i. Some (pu8VidBuf v + mb_offsets (sVidMBufs v) ! ((j + i) mod m))"
  obtain ts ptr l1 where r: "ReadV4LPicture e junk (v, l) =
      Inr (ERR_V4L_SUCCESS, Some (pu8VidBuf v + mb_offsets (sVidMBufs v) ! j, ts, ptr), v\<lparr>s_u64PrevTS := ts\<rparr>, l1)"
    by (rule ReadV4LPicture_ok [OF assms Suc.prems(5), of junk l]) (use Suc.prems(3,6) in auto)
  define v1 where "v1 = v\<lparr>s_u64PrevTS := ts, sVidMMap := (sVidMMap v)\<lparr>mm_frame := word_of_int (int j)\<rparr>, i32VidFrame := int ((j + 1) mod m)\<rparr>"
  obtain l2 where t: "TriggerV4LNextFrame e (v\<lparr>s_u64PrevTS := ts\<rparr>, l1) = Inr (ERR_V4L_SUCCESS, v1, l2)"
    by (rule TriggerV4LNextFrame_ok [OF assms, of "v\<lparr>s_u64PrevTS := ts\<rparr>" m j l1]) (use Suc.prems in \<open>simp_all add: v1_def\<close>)
  have same: "sVidMBufs v1 = sVidMBufs v" "pu8VidBuf v1 = pu8VidBuf v" "i32VidFrame v1 = int ((j + 1) mod m)" by (simp_all add: v1_def)
  obtain v' l' where g: "grab e junk k (v1, l2) = Inr (map (\<lambda>i. ?o (Suc i)) [0 ..< k], v', l')" "i32VidFrame v' = int ((j + Suc k) mod m)"
    using Suc.IH [of v1 "(j + 1) mod m" l2] Suc.prems(1-4) unfolding same by (auto simp: mod_simps add.commute add.left_commute)
  have "map ?o [0 ..< Suc k] = ?o 0 # map (\<lambda>i. ?o (Suc i)) [0 ..< k]"
    by (simp add: upt_conv_Cons map_Suc_upt [symmetric] del: upt_Suc)
  thus ?case using r t g Suc.prems(6) by simp
qed

text \<open>
  The pictures come from the buffers of the ring in turn: the k-th picture of the loop is in
  buffer k modulo the number of buffers, no index leaves the table of offsets, and the frame that
  is started next is the one behind the last picture. This is so even where \<open>VIDIOCSYNC\<close> fails with
  another error than \<open>EAGAIN\<close> or \<open>EINTR\<close>, which the code takes for success.
\<close>

theorem frames_in_order:
  assumes "frame_driver e" and "mb_frames (sVidMBufs v) = int m" and "0 < m" and "m \<le> length (mb_offsets (sVidMBufs v))" and "m < 2147483648"
    and "i32VidFrame v = 0"
  shows "\<exists>v' l'. grab e junk k (v, l) = Inr (map (\<lambda>i. Some (pu8VidBuf v + mb_offsets (sVidMBufs v) ! (i mod m))) [0 ..< k], v', l') \<and>
    i32VidFrame v' = int (k mod m)"
  using grab_ring [OF assms(1-5), of 0 junk k l] assms(3,6) by simp

definition sample_vid :: vid where
  "sample_vid = \<lparr>i32VidFD = 3, i32FrameFmt = VIDEO_PALETTE_YUV420P, i32UseMMap = True, i32FrameSize = 153600,
     sVidWin = \<lparr>win_x = 0, win_y = 0, win_width = 320, win_height = 240, win_chromakey = - 1, win_flags = 0\<rparr>, pu8VidBuf = 4096,
     sVidMBufs = \<lparr>mb_size = 300000, mb_frames = 2, mb_offsets = [0, 153600]\<rparr>,
     sVidMMap = \<lparr>mm_frame = 0, mm_height = 240, mm_width = 320, mm_format = VIDEO_PALETTE_YUV420P\<rparr>, i32VidFrame = 0, s_u64PrevTS = 0,
     ctrl_id = 0, PrivateUserCtrl = replicate 16 \<lparr>qc_id = 0, qc_name = [], qc_disabled = False\<rparr>\<rparr>"

theorem frames_in_order_witness:
  "\<exists>v' l'. grab sample_env (0, 0, 0) 3 (sample_vid, []) = Inr ([Some 4096, Some 157696, Some 4096], v', l') \<and> i32VidFrame v' = 1"
proof -
  have "frame_driver sample_env" by (simp add: frame_driver_def sample_env_def fails_def)
  from frames_in_order [OF this, of sample_vid 2 "(0, 0, 0)" 3 "[]"] show ?thesis
    by (simp add: sample_vid_def upt_conv_Cons)
qed

text \<open>The wait gives up after a hundred answers \<open>EAGAIN\<close>.\<close>

lemma sync_loop_gives_up:
  assumes "\<And>l. driver e l (VIDIOCSYNC i) = Fails EAGAIN"
  shows "n < 100 \<Longrightarrow> sync_loop e n i l = (False, l @ replicate (100 - n) (Ioctl (VIDIOCSYNC i)))"
proof (induction "99 - n" arbitrary: n l)
  case 0
  hence "n = 99" by simp
  thus ?case using assms by (subst sync_loop.simps) (simp add: ioctl_def)
next
  case (Suc m)
  hence "100 - n = Suc (100 - (n + 1))" by simp
  hence "replicate (100 - n) x = x # replicate (100 - (n + 1)) x" for x :: v4l_ev by (metis replicate_Suc)
  thus ?case using Suc.hyps(1) [of "n + 1"] Suc.hyps(2) assms by (subst sync_loop.simps) (simp add: ioctl_def)
qed

subsection \<open>The table of private controls\<close>

fun answers :: "v4l_env \<Rightarrow> 32 word \<Rightarrow> (string \<times> bool) list \<Rightarrow> bool" where
  "answers e i [] \<longleftrightarrow> (\<forall>l. driver e l (VIDIOC_QUERYCTRL i) = Fails EINVAL)"
| "answers e i ((nm, dis) # cs) \<longleftrightarrow> (\<forall>l. driver e l (VIDIOC_QUERYCTRL i) = GotQuery nm dis) \<and> answers e (i + 1) cs"

fun enabled :: "32 word \<Rightarrow> (string \<times> bool) list \<Rightarrow> v4l2_queryctrl list" where
  "enabled i [] = []"
| "enabled i ((nm, dis) # cs) = (if dis then enabled (i + 1) cs else \<lparr>qc_id = i, qc_name = nm, qc_disabled = False\<rparr> # enabled (i + 1) cs)"

lemma query_private_fits:
  "answers e i cs \<Longrightarrow> length (PrivateUserCtrl v) = MAX_USER_CTRL \<Longrightarrow> ctrl_id v + length (enabled i cs) \<le> MAX_USER_CTRL \<Longrightarrow>
   \<exists>l'. query_private e i q err (v, l) = Some (Inr (err,
     v\<lparr>PrivateUserCtrl := blit (ctrl_id v) (enabled i cs) (PrivateUserCtrl v), ctrl_id := ctrl_id v + length (enabled i cs)\<rparr>, l'))"
proof (induction i cs arbitrary: v q l rule: enabled.induct)
  case (1 i)
  thus ?case by (subst query_private.simps) (simp add: ioctl_def fails_def)
next
  case (2 i nm dis cs)
  show ?case
  proof (cases dis)
    case True
    thus ?thesis using 2 by (subst query_private.simps) (simp add: ioctl_def fails_def take_query_def)
  next
    case False
    let ?q = "\<lparr>qc_id = i, qc_name = nm, qc_disabled = False\<rparr>"
    let ?v = "v\<lparr>PrivateUserCtrl := (PrivateUserCtrl v)[ctrl_id v := ?q], ctrl_id := ctrl_id v + 1\<rparr>"
    have c: "ctrl_id v < length (PrivateUserCtrl v)" using 2(4,5) False by simp
    obtain l' where "query_private e (i + 1) ?q err (?v, l @ [Ioctl (VIDIOC_QUERYCTRL i)]) = Some (Inr (err,
        ?v\<lparr>PrivateUserCtrl := blit (ctrl_id ?v) (enabled (i + 1) cs) (PrivateUserCtrl ?v), ctrl_id := ctrl_id ?v + length (enabled (i + 1) cs)\<rparr>, l'))"
      using 2(2) [OF False, of ?v ?q "l @ [Ioctl (VIDIOC_QUERYCTRL i)]"] 2(3-5) False by auto
    thus ?thesis
      using 2(3-5) False c by (subst query_private.simps) (simp add: ioctl_def fails_def take_query_def blit_Cons)
  qed
qed

lemma query_private_overflows:
  "answers e i cs \<Longrightarrow> length (PrivateUserCtrl v) = MAX_USER_CTRL \<Longrightarrow> ctrl_id v \<le> MAX_USER_CTRL \<Longrightarrow>
   MAX_USER_CTRL < ctrl_id v + length (enabled i cs) \<Longrightarrow> query_private e i q err (v, l) = Some (Inl OutOfBounds)"
proof (induction i cs arbitrary: v q l rule: enabled.induct)
  case (2 i nm dis cs)
  show ?case
  proof (cases dis)
    case True
    thus ?thesis using 2 by (subst query_private.simps) (simp add: ioctl_def fails_def take_query_def)
  next
    case False
    thus ?thesis
      using 2 by (subst query_private.simps) (auto simp: ioctl_def fails_def take_query_def arr_put_def Let_def)
  qed
qed simp

text \<open>
  \<open>QueryV4LUserControl\<close> enters the private controls that are not disabled into the table, in the
  order of their numbers and with their names, when there are at most 16 of them; the test
  \<open>ctrl_id > MAX_USER_CTRL\<close> lets the seventeenth be stored behind the table.
\<close>

theorem private_controls:
  assumes "answers e base cs" and "length (PrivateUserCtrl v) = MAX_USER_CTRL" and "ctrl_id v = 0"
  shows "if length (enabled base cs) \<le> MAX_USER_CTRL
    then \<exists>err l'. QueryV4LUserControl e standard base (v, l) = Some (Inr (err,
      v\<lparr>PrivateUserCtrl := enabled base cs @ drop (length (enabled base cs)) (PrivateUserCtrl v), ctrl_id := length (enabled base cs)\<rparr>, l'))
    else QueryV4LUserControl e standard base (v, l) = Some (Inl OutOfBounds)"
proof -
  let ?z = "\<lparr>qc_id = 0, qc_name = [], qc_disabled = False\<rparr>"
  obtain err q l1 where std: "query_standard e standard ?z ERR_V4L_SUCCESS l = (err, q, l1)" by (cases "query_standard e standard ?z ERR_V4L_SUCCESS l")
  show ?thesis
    using query_private_fits [OF assms(1,2), of q err l1] query_private_overflows [OF assms(1,2), of q err l1] assms(3)
    by (auto simp: QueryV4LUserControl_def std)
qed

theorem private_controls_witness:
  "\<exists>err l'. QueryV4LUserControl sample_env [] 0 (sample_vid, []) = Some (Inr (err,
      sample_vid\<lparr>PrivateUserCtrl := [\<lparr>qc_id = 0, qc_name = ''A'', qc_disabled = False\<rparr>, \<lparr>qc_id = 2, qc_name = ''C'', qc_disabled = False\<rparr>]
        @ drop 2 (PrivateUserCtrl sample_vid), ctrl_id := 2\<rparr>, l'))"
proof -
  have "answers sample_env 0 [(''A'', False), (''B'', True), (''C'', False)]"
    by (simp add: sample_env_def) code_simp
  from private_controls [OF this, of sample_vid "[]" "[]"] show ?thesis
    by (simp add: sample_vid_def MAX_USER_CTRL_def numeral_2_eq_2)
qed

text \<open>A driver that fails in another way than with \<open>EINVAL\<close> keeps the loop running for ever.\<close>

theorem QueryV4LUserControl_runs_on:
  assumes "\<And>l i. driver e l (VIDIOC_QUERYCTRL i) = Fails EOTHER"
  shows "QueryV4LUserControl e standard base s = None"
proof -
  have "e' \<noteq> e" if "query_private e' i q err s = Some r" for e' i q err s r
  proof (rule query_private.raw_induct [where P = "\<lambda>e' _ _ _ _ _. e' \<noteq> e", OF _ that])
    fix f e' i q err s r
    assume ih: "\<And>e' i q err s r. f e' i q err s = Some r \<Longrightarrow> e' \<noteq> e"
      and body: "(case ioctl e' (VIDIOC_QUERYCTRL i) (snd s) of (r, l) \<Rightarrow>
        if fails r then
          (if r = Fails EINVAL then Some (Inr (err, fst s, l))
           else f e' (i + 1) (q\<lparr>qc_id := i\<rparr>) ERR_V4L_VID_QUERY_UID (fst s, l))
        else
          (let q = take_query i r q in
           if qc_disabled q then f e' (i + 1) q err (fst s, l)
           else if MAX_USER_CTRL < ctrl_id (fst s) then Some (Inr (ERR_V4L_VID_QUERY_UID, fst s, l))
           else (case arr_put (ctrl_id (fst s)) q (PrivateUserCtrl (fst s)) of
                   Inl f \<Rightarrow> Some (Inl f)
                 | Inr tab \<Rightarrow> f e' (i + 1) q err ((fst s)\<lparr>PrivateUserCtrl := tab, ctrl_id := ctrl_id (fst s) + 1\<rparr>, l)))) = Some r"
    show "e' \<noteq> e"
    proof
      assume e: "e' = e"
      from body have "f e (i + 1) (q\<lparr>qc_id := i\<rparr>) ERR_V4L_VID_QUERY_UID (fst s, snd s @ [Ioctl (VIDIOC_QUERYCTRL i)]) = Some r"
        using assms by (simp add: e ioctl_def fails_def)
      from ih [OF this] show False by simp
    qed
  qed
  hence none: "query_private e i q err s = None" for i q err s by (metis not_Some_eq)
  show ?thesis by (cases s) (simp add: QueryV4LUserControl_def none split: prod.split)
qed

text \<open>Changing the resolution issues the same capture request before and behind; it never stops or never starts the capture.\<close>

theorem ChangeEncode_same_request:
  assumes "\<And>l q. \<not> fails (driver e l q)"
  shows "snd (snd (snd (ChangeEncodeV4LResoultion e (v, l)))) =
    l @ [Ioctl (VIDIOCCAPTURE 0), Ioctl (VIDIOCMCAPTURE ((sVidMMap v)\<lparr>mm_height := 240, mm_width := 320\<rparr>)), Ioctl (VIDIOCCAPTURE 0)]"
  using assms by (simp add: ChangeEncodeV4LResoultion_def request_def ioctl_def Let_def)

end
