(* ===== verification/Exif.thy ===== *)
theory Exif
  imports CString
begin

unbundle bit_operations_syntax

text \<open>
  The EXIF header of src/videoin_HW/exif.c: the conversions between numbers and bytes in the two
  byte orders, and \<open>create_simple_EXIF\<close>, which lays out three directories in a buffer. A buffer
  is a list of bytes and a store behind it is a fault; the global \<open>MotorolaOrder\<close> is an argument.
\<close>

definition FMT_STRING :: "16 word" where "FMT_STRING = 0x0002"
definition FMT_ULONG :: "16 word" where "FMT_ULONG = 0x0004"
definition TAG_DATETIME :: "16 word" where "TAG_DATETIME = 0x0132"
definition TAG_THUMBNAIL_OFFSET :: "16 word" where "TAG_THUMBNAIL_OFFSET = 0x0201"
definition TAG_THUMBNAIL_LENGTH :: "16 word" where "TAG_THUMBNAIL_LENGTH = 0x0202"
definition TAG_EXIF_OFFSET :: "16 word" where "TAG_EXIF_OFFSET = 0x8769"
definition TAG_DATETIME_ORIGINAL :: "16 word" where "TAG_DATETIME_ORIGINAL = 0x9003"

subsection \<open>Numbers and bytes\<close>

definition Put16u :: "bool \<Rightarrow> nat \<Rightarrow> 16 word \<Rightarrow> bytes \<Rightarrow> fault + bytes" where
  "Put16u MotorolaOrder i PutValue buf =
     (if MotorolaOrder then
        bindr (arr_put i (ucast (drop_bit 8 PutValue)) buf) (arr_put (i + 1) (ucast PutValue))
      else
        bindr (arr_put i (ucast PutValue) buf) (arr_put (i + 1) (ucast (drop_bit 8 PutValue))))"

definition Get16u :: "bool \<Rightarrow> nat \<Rightarrow> bytes \<Rightarrow> 32 word" where
  "Get16u MotorolaOrder i buf =
     (if MotorolaOrder then push_bit 8 (ucast (buf ! i)) OR ucast (buf ! (i + 1))
      else push_bit 8 (ucast (buf ! (i + 1))) OR ucast (buf ! i))"

text \<open>The first byte is a \<open>char\<close>, which is shifted out of its sign extension.\<close>

definition Get32s :: "bool \<Rightarrow> nat \<Rightarrow> bytes \<Rightarrow> int" where
  "Get32s MotorolaOrder i buf =
     sint (if MotorolaOrder then
        push_bit 24 (scast (buf ! i)) OR push_bit 16 (ucast (buf ! (i + 1))) OR push_bit 8 (ucast (buf ! (i + 2))) OR ucast (buf ! (i + 3))
      else
        push_bit 24 (scast (buf ! (i + 3))) OR push_bit 16 (ucast (buf ! (i + 2))) OR push_bit 8 (ucast (buf ! (i + 1))) OR ucast (buf ! i) :: 32 word)"

definition Put32u :: "bool \<Rightarrow> nat \<Rightarrow> 32 word \<Rightarrow> bytes \<Rightarrow> fault + bytes" where
  "Put32u MotorolaOrder i PutValue buf =
     (if MotorolaOrder then
        bindr (arr_put i (ucast (drop_bit 24 PutValue)) buf) (\<lambda>b1.
        bindr (arr_put (i + 1) (ucast (drop_bit 16 PutValue)) b1) (\<lambda>b2.
        bindr (arr_put (i + 2) (ucast (drop_bit 8 PutValue)) b2) (\<lambda>b3.
        arr_put (i + 3) (ucast PutValue) b3)))
      else
        bindr (arr_put i (ucast PutValue) buf) (\<lambda>b1.
        bindr (arr_put (i + 1) (ucast (drop_bit 8 PutValue)) b1) (\<lambda>b2.
        bindr (arr_put (i + 2) (ucast (drop_bit 16 PutValue)) b2) (\<lambda>b3.
        arr_put (i + 3) (ucast (drop_bit 24 PutValue)) b3))))"

definition Get32u :: "bool \<Rightarrow> nat \<Rightarrow> bytes \<Rightarrow> 32 word" where
  "Get32u MotorolaOrder i buf = word_of_int (Get32s MotorolaOrder i buf) AND 0xffffffff"

subsection \<open>The header\<close>

text \<open>One entry of a directory: tag, format, number of components, and pointer or value.\<close>

definition put_entry :: "nat \<Rightarrow> 16 word \<Rightarrow> 16 word \<Rightarrow> 32 word \<Rightarrow> 32 word \<Rightarrow> bytes \<Rightarrow> fault + bytes" where
  "put_entry i tag fmt n v buf =
     bindr (Put16u False i tag buf) (\<lambda>b1.
     bindr (Put16u False (i + 2) fmt b1) (\<lambda>b2.
     bindr (Put32u False (i + 4) n b2) (\<lambda>b3.
     Put32u False (i + 8) v b3)))"

text \<open>\<open>%02d\<close> and the text \<open>sprintf\<close> makes of the local time.\<close>

record tm =
  tm_year :: nat
  tm_mon :: nat
  tm_mday :: nat
  tm_hour :: nat
  tm_min :: nat
  tm_sec :: nat

definition dec02 :: "nat \<Rightarrow> string" where
  "dec02 n = (if n < 10 then CHR ''0'' # dec_str n else dec_str n)"

definition time_text :: "tm \<Rightarrow> string" where
  "time_text t =
     dec_str (1900 + tm_year t) @ '':'' @ dec02 (tm_mon t + 1) @ '':'' @ dec02 (tm_mday t) @ '' '' @
     dec02 (tm_hour t) @ '':'' @ dec02 (tm_min t) @ '':'' @ dec02 (tm_sec t) @ [CHR 0x0A]"

definition byte_of :: "char \<Rightarrow> 8 word" where
  "byte_of c = of_nat (of_char c)"

text \<open>\<open>sprintf(timeString, ...)\<close> with \<open>char timeString[20]\<close>; what the array held is \<open>stack\<close>.\<close>

definition put_time :: "tm \<Rightarrow> bytes \<Rightarrow> fault + bytes" where
  "put_time t stack = arr_copy 0 (map byte_of (time_text t) @ [0]) stack"

text \<open>
  The part behind it, block by block. Each block gets \<open>DataWriteIndex\<close>, where its directory goes,
  and gives the buffer and the indices the later blocks need.
\<close>

definition exif_head :: "bytes \<Rightarrow> fault + bytes" where
  "exif_head Buffer =
     bindr (arr_copy 0 (map byte_of (''Exif'' @ [CHR 0x00, CHR 0x00] @ ''II'')) Buffer) (\<lambda>b.
     bindr (Put16u False 8 0x2a b) (\<lambda>b.
     Put32u False 10 (14 - 6) b))"

text \<open>The first directory: the date and the link to the second; \<open>DateIndex\<close> and \<open>DirContinuation\<close> follow from its place.\<close>

definition date_block :: "bytes \<Rightarrow> nat \<Rightarrow> bytes \<Rightarrow> fault + (nat \<times> nat \<times> nat \<times> bytes)" where
  "date_block timeString DataWriteIndex b =
     (let DirIndex = DataWriteIndex; DataWriteIndex = DataWriteIndex + 2 + 2 * 12 + 4 in
      bindr (Put16u False DirIndex 2 b) (\<lambda>b.
      let DirIndex = DirIndex + 2 in
      bindr (put_entry DirIndex TAG_DATETIME FMT_STRING 20 (of_nat (DataWriteIndex - 6)) b) (\<lambda>b.
      let DirIndex = DirIndex + 12; DateIndex = DataWriteIndex in
      bindr (arr_copy DataWriteIndex (take 19 timeString) b) (\<lambda>b.
      bindr (arr_put (DataWriteIndex + 19) 0 b) (\<lambda>b.
      let DataWriteIndex = DataWriteIndex + 20 in
      bindr (put_entry DirIndex TAG_EXIF_OFFSET FMT_ULONG 1 (of_nat (DataWriteIndex - 6)) b) (\<lambda>b.
      Inr (DateIndex, DirIndex + 12, DataWriteIndex, b)))))))"

definition original_block :: "nat \<Rightarrow> nat \<Rightarrow> bytes \<Rightarrow> fault + (nat \<times> bytes)" where
  "original_block DateIndex DataWriteIndex b =
     (let DirIndex = DataWriteIndex; DataWriteIndex = DataWriteIndex + 2 + 1 * 12 + 4 in
      bindr (Put16u False DirIndex 1 b) (\<lambda>b.
      let DirIndex = DirIndex + 2 in
      bindr (put_entry DirIndex TAG_DATETIME_ORIGINAL FMT_STRING 20 (of_nat (DataWriteIndex - 6)) b) (\<lambda>b.
      let DirIndex = DirIndex + 12 in
      bindr (arr_copy DataWriteIndex (take 20 (drop DateIndex b)) b) (\<lambda>b.
      let DataWriteIndex = DataWriteIndex + 20 in
      bindr (Put32u False DirIndex 0 b) (\<lambda>b.
      Inr (DataWriteIndex, b))))))"

definition thumbnail_block :: "32 word \<Rightarrow> 32 word \<Rightarrow> nat \<Rightarrow> nat \<Rightarrow> bytes \<Rightarrow> fault + bytes" where
  "thumbnail_block thumbnail_offset thumbnail_size DirContinuation DataWriteIndex b =
     bindr (Put32u False DirContinuation (of_nat (DataWriteIndex - 6)) b) (\<lambda>b.
     let DirIndex = DataWriteIndex in
     bindr (Put16u False DirIndex 2 b) (\<lambda>b.
     let DirIndex = DirIndex + 2 in
     bindr (put_entry DirIndex TAG_THUMBNAIL_OFFSET FMT_ULONG 1 thumbnail_offset b) (\<lambda>b.
     let DirIndex = DirIndex + 12 in
     bindr (put_entry DirIndex TAG_THUMBNAIL_LENGTH FMT_ULONG 1 thumbnail_size b) (\<lambda>b.
     Put32u False (DirIndex + 12) 0 b))))"

definition fill_EXIF :: "32 word \<Rightarrow> 32 word \<Rightarrow> bytes \<Rightarrow> bytes \<Rightarrow> fault + bytes" where
  "fill_EXIF thumbnail_offset thumbnail_size timeString Buffer =
     bindr (exif_head Buffer) (\<lambda>b.
     bindr (date_block timeString 14 b) (\<lambda>(DateIndex, DirContinuation, DataWriteIndex, b).
     bindr (original_block DateIndex DataWriteIndex b) (\<lambda>(DataWriteIndex, b).
     thumbnail_block thumbnail_offset thumbnail_size DirContinuation DataWriteIndex b)))"

definition create_simple_EXIF :: "tm \<Rightarrow> bytes \<Rightarrow> bytes \<Rightarrow> 32 word \<Rightarrow> 32 word \<Rightarrow> fault + bytes" where
  "create_simple_EXIF t stack Buffer thumbnail_offset thumbnail_size =
     bindr (put_time t stack) (\<lambda>timeString. fill_EXIF thumbnail_offset thumbnail_size timeString Buffer)"

subsection \<open>Reading numbers back\<close>

definition u16 :: "16 word \<Rightarrow> bytes" where
  "u16 v = [ucast v, ucast (drop_bit 8 v)]"

definition u32 :: "32 word \<Rightarrow> bytes" where
  "u32 v = [ucast v, ucast (drop_bit 8 v), ucast (drop_bit 16 v), ucast (drop_bit 24 v)]"

lemma length_u [simp]: "length (u16 v) = 2" "length (u32 w) = 4"
  by (simp_all add: u16_def u32_def)

lemma join16: "push_bit 8 (ucast (ucast (drop_bit 8 v) :: 8 word)) OR ucast (ucast v :: 8 word) = (ucast (v :: 16 word) :: 32 word)"
  by (rule bit_word_eqI) (auto simp: bit_simps dest: bit_imp_le_length)

lemma join32:
  "push_bit 24 (scast (ucast (drop_bit 24 v) :: 8 word)) OR push_bit 16 (ucast (ucast (drop_bit 16 v) :: 8 word)) OR
   push_bit 8 (ucast (ucast (drop_bit 8 v) :: 8 word)) OR ucast (ucast v :: 8 word) = (v :: 32 word)"
proof (rule bit_word_eqI)
  fix n assume "n < LENGTH(32)"
  hence n: "n < 32" by simp
  consider "n < 8" | "8 \<le> n" "n < 16" | "16 \<le> n" "n < 24" | "24 \<le> n" "n < 32" using n by linarith
  thus "bit ((push_bit 24 (scast (ucast (drop_bit 24 v) :: 8 word)) OR push_bit 16 (ucast (ucast (drop_bit 16 v) :: 8 word)) OR
      push_bit 8 (ucast (ucast (drop_bit 8 v) :: 8 word)) OR ucast (ucast v :: 8 word)) :: 32 word) n = bit v n"
    by cases (auto simp: bit_simps)
qed

lemma all_bits [simp]: "(v :: 32 word) AND 0xffffffff = v"
proof -
  have "(0xffffffff :: 32 word) = - 1" by simp
  thus ?thesis by (simp only: and.right_neutral)
qed

lemma blit_2: "i + 2 \<le> length b \<Longrightarrow> blit i [x, y] b = b[i := x, Suc i := y]"
  using blit_Cons [of i b "[y]" x] blit_single [of "Suc i" "b[i := x]" y] by simp

lemma blit_4: "i + 4 \<le> length b \<Longrightarrow> blit i [x, y, z, w] b = b[i := x, Suc i := y, Suc (Suc i) := z, Suc (Suc (Suc i)) := w]"
  using blit_Cons [of i b "[y, z, w]" x] blit_Cons [of "Suc i" "b[i := x]" "[z, w]" y] blit_2 [of "Suc (Suc i)" "b[i := x, Suc i := y]" z w] by simp

lemma Put_blit:
  "i + 2 \<le> length b \<Longrightarrow> Put16u False i v b = Inr (blit i (u16 v) b)"
  "i + 4 \<le> length b \<Longrightarrow> Put32u False i w b = Inr (blit i (u32 w) b)"
  by (simp_all add: Put16u_def u16_def blit_2 Put32u_def u32_def blit_4 numeral_3_eq_3)

text \<open>A number that was put is the number got, in both byte orders, and no other byte changes.\<close>

theorem Put32u_Get32u:
  assumes "i + 4 \<le> length b"
  shows "\<exists>b'. Put32u order i v b = Inr b' \<and> Get32u order i b' = v \<and> length b' = length b \<and>
    (\<forall>k < length b. k < i \<or> i + 4 \<le> k \<longrightarrow> b' ! k = b ! k)"
  using assms join32 [of v]
  by (cases order) (simp_all add: Put32u_def Get32u_def Get32s_def nth_list_update or.assoc or.commute or.left_commute)

definition region :: "nat \<Rightarrow> nat \<Rightarrow> bytes \<Rightarrow> bytes" where
  "region i n b = take n (drop i b)"

lemma region_same: "i + length xs \<le> length b \<Longrightarrow> n = length xs \<Longrightarrow> region i n (blit i xs b) = xs"
  by (simp add: region_def blit_def)

lemma region_other:
  assumes "i + n \<le> j \<or> j + length xs \<le> i" and "j + length xs \<le> length b"
  shows "region i n (blit j xs b) = region i n b"
  using assms(1)
proof
  assume "i + n \<le> j"
  hence "take (i + n) (blit j xs b) = take (i + n) b" using assms(2) by (intro take_blit) auto
  thus ?thesis by (simp add: region_def take_drop add.commute)
next
  assume "j + length xs \<le> i"
  hence "drop i (blit j xs b) = drop i b" using assms(2) by (intro drop_blit) auto
  thus ?thesis by (simp add: region_def)
qed

lemma Get_region:
  "region i 2 b = u16 v \<Longrightarrow> Get16u False i b = ucast v"
  "region i 4 b = u32 w \<Longrightarrow> Get32u False i b = w"
proof -
  assume r: "region i 2 b = u16 v"
  hence "length (region i 2 b) = 2" by simp
  hence "i + 1 < length b" by (simp add: region_def)
  hence "region i 2 b = [b ! i, b ! (i + 1)]"
    by (simp add: region_def numeral_eq_Suc take_Suc_conv_app_nth)
  thus "Get16u False i b = ucast v" using r join16 [of v] by (simp add: Get16u_def u16_def)
next
  assume r: "region i 4 b = u32 w"
  hence "length (region i 4 b) = 4" by simp
  hence "i + 3 < length b" by (simp add: region_def)
  hence "region i 4 b = [b ! i, b ! (i + 1), b ! (i + 2), b ! (i + 3)]"
    by (simp add: region_def numeral_eq_Suc take_Suc_conv_app_nth)
  thus "Get32u False i b = w" using r join32 [of w] by (simp add: Get32u_def Get32s_def u32_def)
qed

subsection \<open>The directories\<close>

definition entry_bytes :: "16 word \<Rightarrow> 16 word \<Rightarrow> 32 word \<Rightarrow> 32 word \<Rightarrow> bytes" where
  "entry_bytes tag fmt n v = u16 tag @ u16 fmt @ u32 n @ u32 v"

lemma length_entry_bytes [simp]: "length (entry_bytes tag fmt n v) = 12"
  by (simp add: entry_bytes_def)

lemma put_entry_blit:
  assumes "i + 12 \<le> length b"
  shows "put_entry i tag fmt n v b = Inr (blit i (entry_bytes tag fmt n v) b)"
  using assms by (simp add: put_entry_def Put_blit entry_bytes_def blit_blit add.assoc)

text \<open>A reader of the format: the entries of the directory at an offset behind the mark \<open>Exif\<close>, and the link at its end.\<close>

definition entry :: "bytes \<Rightarrow> nat \<Rightarrow> 32 word \<times> 32 word \<times> 32 word \<times> 32 word" where
  "entry b i = (Get16u False i b, Get16u False (i + 2) b, Get32u False (i + 4) b, Get32u False (i + 8) b)"

definition directory :: "bytes \<Rightarrow> 32 word \<Rightarrow> (32 word \<times> 32 word \<times> 32 word \<times> 32 word) list \<times> 32 word" where
  "directory b at =
     (let i = unat at + 6; n = unat (Get16u False i b) in
      (map (\<lambda>k. entry b (i + 2 + 12 * k)) [0 ..< n], Get32u False (i + 2 + 12 * n) b))"

lemma entry_region:
  assumes "region i 12 b = entry_bytes tag fmt n v"
  shows "entry b i = (ucast tag, ucast fmt, n, v)"
proof -
  have sub: "region (i + k) l b = take l (drop k (entry_bytes tag fmt n v))" if "k + l \<le> 12" for k l
    using that by (simp add: region_def min_def add.commute flip: assms) (simp add: drop_take min_def add.commute)
  have "region i 2 b = u16 tag" "region (i + 2) 2 b = u16 fmt" "region (i + 4) 4 b = u32 n" "region (i + 8) 4 b = u32 v"
    using sub [of 0 2] sub [of 2 2] sub [of 4 4] sub [of 8 4] by (simp_all add: entry_bytes_def)
  thus ?thesis by (simp add: entry_def Get_region)
qed

text \<open>The four blocks as copies into the buffer.\<close>

definition exif_magic :: bytes where
  "exif_magic = map byte_of (''Exif'' @ [CHR 0x00, CHR 0x00] @ ''II'')"

lemma length_exif_magic [simp]: "length exif_magic = 8"
  by (simp add: exif_magic_def)

lemma exif_head_blit: "14 \<le> length b \<Longrightarrow> exif_head b = Inr (blit 0 (exif_magic @ u16 0x2a @ u32 8) b)"
  unfolding exif_head_def exif_magic_def [symmetric] by (simp add: Put_blit blit_blit del: blit_zero)

lemma arr_put_blit: "i < length b \<Longrightarrow> arr_put i v b = Inr (blit i [v] b)"
  by (simp add: blit_single)

lemma date_block_blit:
  assumes "132 \<le> length b" and "19 \<le> length ts"
  shows "date_block ts 14 b =
    Inr (44, 40, 64, blit 28 (entry_bytes TAG_EXIF_OFFSET FMT_ULONG 1 58) (blit 44 (take 19 ts @ [0])
      (blit 14 (u16 2 @ entry_bytes TAG_DATETIME FMT_STRING 20 38) b)))"
proof -
  have two: "blit 16 (entry_bytes TAG_DATETIME FMT_STRING 20 38) (blit 14 (u16 2) b) = blit 14 (u16 2 @ entry_bytes TAG_DATETIME FMT_STRING 20 38) b"
    using assms(1) by (simp add: blit_blit)
  have date: "blit 63 [0] (blit 44 (take 19 ts) c) = blit 44 (take 19 ts @ [0]) c" if "length c = length b" for c
    using assms that by (simp add: blit_blit)
  show ?thesis
    using assms by (simp add: date_block_def Let_def Put_blit put_entry_blit arr_put_blit two date del: arr_put_Inr)
qed

lemma original_block_blit:
  assumes "132 \<le> length b"
  shows "original_block 44 64 b =
    Inr (102, blit 78 (u32 0) (blit 82 (region 44 20 b) (blit 64 (u16 1 @ entry_bytes TAG_DATETIME_ORIGINAL FMT_STRING 20 76) b)))"
proof -
  have two: "blit 66 (entry_bytes TAG_DATETIME_ORIGINAL FMT_STRING 20 76) (blit 64 (u16 1) b) =
      blit 64 (u16 1 @ entry_bytes TAG_DATETIME_ORIGINAL FMT_STRING 20 76) b"
    using assms by (simp add: blit_blit)
  have "take 20 (drop 44 (blit 64 (u16 1 @ entry_bytes TAG_DATETIME_ORIGINAL FMT_STRING 20 76) b)) = region 44 20 b"
    using region_other [of 44 20 64 "u16 1 @ entry_bytes TAG_DATETIME_ORIGINAL FMT_STRING 20 76" b] assms by (simp add: region_def)
  moreover have "length (region 44 20 b) = 20" using assms by (simp add: region_def)
  ultimately show ?thesis
    using assms by (simp add: original_block_def Let_def Put_blit put_entry_blit two)
qed

lemma thumbnail_block_blit:
  assumes "132 \<le> length b"
  shows "thumbnail_block off len 40 102 b =
    Inr (blit 102 (u16 2 @ entry_bytes TAG_THUMBNAIL_OFFSET FMT_ULONG 1 off @ entry_bytes TAG_THUMBNAIL_LENGTH FMT_ULONG 1 len @ u32 0) (blit 40 (u32 96) b))"
  using assms by (simp add: thumbnail_block_def Let_def Put_blit put_entry_blit blit_blit)

subsection \<open>What a reader finds\<close>

lemma region_part:
  assumes "region i n b = xs" and "k + l \<le> n"
  shows "region (i + k) l b = take l (drop k xs)"
  using assms(2) unfolding assms(1) [symmetric] by (simp add: region_def drop_take min_def add.commute)

lemma directory_region:
  assumes "region (unat at + 6) 2 b = u16 n" and "region (unat at + 8 + 12 * unat n) 4 b = u32 link"
    and "length es = unat n" and "\<And>k. k < length es \<Longrightarrow> entry b (unat at + 8 + 12 * k) = es ! k"
  shows "directory b at = (es, link)"
proof -
  have "unat n < 4294967296" by (rule less_le_trans [OF unsigned_less]) simp
  hence n: "unat (ucast n :: 32 word) = unat n" by (simp add: unsigned_ucast_eq take_bit_nat_eq_self)
  have "map (\<lambda>k. entry b (unat at + 8 + 12 * k)) [0 ..< unat n] = es"
    using assms(3,4) by (intro nth_equalityI) auto
  thus ?thesis
    using Get_region(1) [OF assms(1)] Get_region(2) [OF assms(2)] n by (simp add: directory_def Let_def ac_simps)
qed

text \<open>
  C27: The header that the function lays out can be read back: behind the mark a reader finds
  the directory with the date and the link to the second directory, that one with the original
  date, and behind the first one the directory with the offset and the length of the thumbnail;
  both pointers to a date lead to the text of the time, cut to 19 characters and terminated.
  The header takes 132 bytes and the rest of the buffer is as before.
\<close>

theorem EXIF_readable:
  assumes "132 \<le> length Buffer" and "19 \<le> length timeString"
  shows "\<exists>b. fill_EXIF off len timeString Buffer = Inr b \<and> drop 132 b = drop 132 Buffer \<and> region 0 8 b = exif_magic \<and>
    directory b (Get32u False 10 b) =
      ([(ucast TAG_DATETIME, ucast FMT_STRING, 20, 38), (ucast TAG_EXIF_OFFSET, ucast FMT_ULONG, 1, 58)], 96) \<and>
    directory b 58 = ([(ucast TAG_DATETIME_ORIGINAL, ucast FMT_STRING, 20, 76)], 0) \<and>
    directory b 96 = ([(ucast TAG_THUMBNAIL_OFFSET, ucast FMT_ULONG, 1, off), (ucast TAG_THUMBNAIL_LENGTH, ucast FMT_ULONG, 1, len)], 0) \<and>
    region (38 + 6) 20 b = take 19 timeString @ [0] \<and> region (76 + 6) 20 b = take 19 timeString @ [0]"
proof -
  let ?date = "take 19 timeString @ [0]" and ?h = "exif_magic @ u16 0x2a @ u32 8"
  let ?d1 = "u16 2 @ entry_bytes TAG_DATETIME FMT_STRING 20 38" and ?d2 = "entry_bytes TAG_EXIF_OFFSET FMT_ULONG 1 58"
  let ?o = "u16 1 @ entry_bytes TAG_DATETIME_ORIGINAL FMT_STRING 20 76"
  let ?t = "u16 2 @ entry_bytes TAG_THUMBNAIL_OFFSET FMT_ULONG 1 off @ entry_bytes TAG_THUMBNAIL_LENGTH FMT_ULONG 1 len @ u32 0"
  define b1 where "b1 = blit 0 ?h Buffer"
  define b2 where "b2 = blit 28 ?d2 (blit 44 ?date (blit 14 ?d1 b1))"
  define b3 where "b3 = blit 78 (u32 0) (blit 82 ?date (blit 64 ?o b2))"
  define b4 where "b4 = blit 102 ?t (blit 40 (u32 96) b3)"
  have l1: "length b1 = length Buffer" using assms(1) unfolding b1_def by (intro length_blit) simp
  have l2: "length b2 = length Buffer" using assms l1 by (simp add: b2_def)
  have l3: "length b3 = length Buffer" using assms l2 by (simp add: b3_def)
  have r2: "region 44 20 b2 = ?date"
    using assms l1 by (simp add: b2_def region_same region_other)
  have run: "fill_EXIF off len timeString Buffer = Inr b4"
    using assms l1 l2 l3 r2 by (simp add: fill_EXIF_def exif_head_blit date_block_blit original_block_blit thumbnail_block_blit b4_def del: blit_zero
        flip: b1_def b2_def b3_def)
  have early: "region i n b4 = region i n b3" if "i + n \<le> 40 \<or> 44 \<le> i \<and> i + n \<le> 102" for i n
    using that assms l3 by (auto simp: b4_def region_other)
  have mid: "region i n b3 = region i n b2" if "i + n \<le> 64" for i n
    using that assms l2 by (simp add: b3_def region_other)
  have first: "region i n b2 = region i n b1" if "i + n \<le> 14" for i n
    using that assms l1 by (simp add: b2_def region_other)
  have head: "region 0 14 b4 = ?h"
    using assms(1) by (simp add: early mid first b1_def region_same del: blit_zero)
  have dir1: "region 14 14 b4 = ?d1" "region 28 12 b4 = ?d2" "region 40 4 b4 = u32 96"
    using assms l1 l3 by (simp_all add: early mid) (simp_all add: b2_def b4_def region_same region_other)
  have dir2: "region 64 14 b4 = ?o" "region 78 4 b4 = u32 0"
    using assms l2 by (simp_all add: early) (simp_all add: b3_def region_same region_other)
  have dir3: "region 102 30 b4 = ?t"
    using assms l3 by (simp add: b4_def region_same)
  have dates: "region 44 20 b4 = ?date" "region 82 20 b4 = ?date"
    using assms l2 r2 by (simp_all add: early mid) (simp add: b3_def region_same region_other)
  have rest: "drop 132 b4 = drop 132 Buffer"
    using assms l1 l2 l3 by (simp add: b4_def b3_def b2_def drop_blit) (simp add: b1_def drop_blit del: blit_zero)
  have at: "Get32u False 10 b4 = 8" "region 0 8 b4 = exif_magic"
    using region_part [OF head, of 10 4] region_part [OF head, of 0 8] by (simp_all add: Get_region exif_magic_def)
  have e: "entry b4 16 = (ucast TAG_DATETIME, ucast FMT_STRING, 20, 38)" "entry b4 28 = (ucast TAG_EXIF_OFFSET, ucast FMT_ULONG, 1, 58)"
    "entry b4 66 = (ucast TAG_DATETIME_ORIGINAL, ucast FMT_STRING, 20, 76)"
    "entry b4 104 = (ucast TAG_THUMBNAIL_OFFSET, ucast FMT_ULONG, 1, off)" "entry b4 116 = (ucast TAG_THUMBNAIL_LENGTH, ucast FMT_ULONG, 1, len)"
    using region_part [OF dir1(1), of 2 12] dir1(2) region_part [OF dir2(1), of 2 12] region_part [OF dir3, of 2 12] region_part [OF dir3, of 14 12]
    by (simp_all add: entry_region)
  have "directory b4 8 = ([(ucast TAG_DATETIME, ucast FMT_STRING, 20, 38), (ucast TAG_EXIF_OFFSET, ucast FMT_ULONG, 1, 58)], 96)"
    using region_part [OF dir1(1), of 0 2] dir1(3) e by (intro directory_region [of _ _ 2]) (auto simp: less_Suc_eq)
  moreover have "directory b4 58 = ([(ucast TAG_DATETIME_ORIGINAL, ucast FMT_STRING, 20, 76)], 0)"
    using region_part [OF dir2(1), of 0 2] dir2(2) e by (intro directory_region [of _ _ 1]) auto
  moreover have "directory b4 96 = ([(ucast TAG_THUMBNAIL_OFFSET, ucast FMT_ULONG, 1, off), (ucast TAG_THUMBNAIL_LENGTH, ucast FMT_ULONG, 1, len)], 0)"
    using region_part [OF dir3, of 0 2] region_part [OF dir3, of 26 4] e by (intro directory_region [of _ _ 2]) (auto simp: less_Suc_eq)
  ultimately show ?thesis
    using run rest at dates by (intro exI [of _ b4]) simp
qed

theorem EXIF_readable_witness:
  "\<exists>b. fill_EXIF 300 4000 (map byte_of ''2012:03:04 05:06:07'') (replicate 140 0xFF) = Inr b \<and> drop 132 b = drop 132 (replicate 140 0xFF) \<and>
    region 0 8 b = exif_magic \<and>
    directory b (Get32u False 10 b) =
      ([(ucast TAG_DATETIME, ucast FMT_STRING, 20, 38), (ucast TAG_EXIF_OFFSET, ucast FMT_ULONG, 1, 58)], 96) \<and>
    directory b 58 = ([(ucast TAG_DATETIME_ORIGINAL, ucast FMT_STRING, 20, 76)], 0) \<and>
    directory b 96 = ([(ucast TAG_THUMBNAIL_OFFSET, ucast FMT_ULONG, 1, 300), (ucast TAG_THUMBNAIL_LENGTH, ucast FMT_ULONG, 1, 4000)], 0) \<and>
    region (38 + 6) 20 b = take 19 (map byte_of ''2012:03:04 05:06:07'') @ [0] \<and>
    region (76 + 6) 20 b = take 19 (map byte_of ''2012:03:04 05:06:07'') @ [0]"
  by (rule EXIF_readable) simp_all

subsection \<open>The text of the time\<close>

lemma length_dec_str_ge: "10 ^ k \<le> n \<Longrightarrow> Suc k \<le> length (dec_str n)"
proof (induction k arbitrary: n)
  case 0
  thus ?case by (cases "dec_str n") auto
next
  case (Suc k)
  have "10 ^ k \<le> n div 10" using Suc.prems by (simp add: less_eq_div_iff_mult_less_eq mult.commute)
  from Suc.IH [OF this] have "Suc k \<le> length (dec_str (n div 10))" .
  moreover have "10 * 1 \<le> 10 * (10 :: nat) ^ k" by (intro mult_le_mono2) simp
  hence "\<not> n < 10" using Suc.prems unfolding power_Suc by linarith
  ultimately show ?case by (subst dec_str.simps) simp
qed

lemma length_dec02: "2 \<le> length (dec02 n)"
proof (cases "n < 10")
  case True
  thus ?thesis by (cases "dec_str n") (auto simp: dec02_def)
next
  case False
  thus ?thesis using length_dec_str_ge [of 1 n] by (simp add: dec02_def)
qed

text \<open>
  The text of the time ends with a line feed, so that it has 20 characters and 21 bytes with its
  terminator: the array \<open>timeString\<close> is too small for every time.
\<close>

theorem create_simple_EXIF_overflows:
  assumes "length stack = 20"
  shows "create_simple_EXIF t stack Buffer off len = Inl OutOfBounds"
proof -
  have "4 \<le> length (dec_str (1900 + tm_year t))" using length_dec_str_ge [of 3 "1900 + tm_year t"] by simp
  hence "20 \<le> length (time_text t)"
    using length_dec02 [of "tm_mon t + 1"] length_dec02 [of "tm_mday t"] length_dec02 [of "tm_hour t"] length_dec02 [of "tm_min t"] length_dec02 [of "tm_sec t"]
    by (simp add: time_text_def)
  thus ?thesis
    using assms by (simp add: create_simple_EXIF_def put_time_def arr_copy_def)
qed

end
