(* ===== verification/JpegEnc.thy ===== *)
theory JpegEnc
  imports V4L Exif
begin

unbundle bit_operations_syntax

text \<open>
  The JPEG encoder of the camera demo, src/videoin_HW/JpegEnc.c: which planes, sizes and formats are
  given to the engine, and where the EXIF header goes. The engine is a parameter like the capture
  driver of theory V4L: its replies depend on the events so far, and when an encoded picture is
  read it may change the mapped buffer. \<open>_PLANAR_YUV420_\<close> is not defined by the Makefile.
\<close>

subsection \<open>State\<close>

definition DRVJPEG_ENC_PRIMARY_YUV422 :: "32 word" where "DRVJPEG_ENC_PRIMARY_YUV422 = 0xA8"
definition DRVJPEG_ENC_SRC_PLANAR :: "32 word" where "DRVJPEG_ENC_SRC_PLANAR = 0"
definition DRVJPEG_ENC_SRC_PACKET :: "32 word" where "DRVJPEG_ENC_SRC_PACKET = 1"
definition RETRY_NUM :: nat where "RETRY_NUM = 4"

datatype E_JPEG_ENC_THB_SUPP = eJPEG_ENC_THB_NONE | eJPEG_ENC_THB_QQVGA | eJPEG_ENC_THB_QVGA

record jpeg_param =
  p_encode :: "32 word"
  p_scale :: "32 word"
  p_scaled_width :: "32 word"
  p_scaled_height :: "32 word"
  p_encode_width :: "32 word"
  p_encode_height :: "32 word"
  p_qadjust :: "8 word"
  p_qscaling :: "8 word"
  p_encode_source_format :: "32 word"
  p_encode_image_format :: "32 word"
  p_buffersize :: "32 word"
  p_buffercount :: "32 word"

datatype jpeg_req =
    JPEG_GET_JPEG_BUFFER
  | JPEG_SET_ENC_USER_YADDRESS "32 word" | JPEG_SET_ENC_USER_UADDRESS "32 word" | JPEG_SET_ENC_USER_VADDRESS "32 word"
  | JPEG_SET_ENCOCDE_RESERVED "32 word" | JPEG_SET_ENC_STRIDE "32 word" | JPEG_S_PARAM jpeg_param
  | JPEG_SET_ENC_THUMBNAIL "32 word" | JPEG_TRIGGER
  | JPEG_GET_ENC_THUMBNAIL_SIZE | JPEG_GET_ENC_THUMBNAIL_OFFSET

datatype jpeg_ev = JIoctl jpeg_req | JOpen string | JClose int | JMmap "32 word" | JMunmap "32 word" | JRead

datatype jpeg_reply = JFails | JDone | JGot "32 word"

record jpeg_env =
  j_open :: "string \<Rightarrow> int"
  j_malloc :: bool
  j_mmap :: "32 word \<Rightarrow> bytes option"
  j_driver :: "jpeg_ev list \<Rightarrow> jpeg_req \<Rightarrow> jpeg_reply"
  j_read :: "jpeg_ev list \<Rightarrow> bytes \<Rightarrow> (32 word \<times> bytes) option"

record jpeg =
  s_pu8JpegEncBuf :: "bytes option"
  s_i32JpegFd :: int
  s_u32JpegBufSize :: "32 word"
  s_sJpegParam :: jpeg_param
  s_pJpegInfo :: bool

type_synonym jstate = "jpeg \<times> jpeg_ev list"

definition j_ioctl :: "jpeg_env \<Rightarrow> jpeg_req \<Rightarrow> jpeg_ev list \<Rightarrow> jpeg_reply \<times> jpeg_ev list" where
  "j_ioctl e q l = (j_driver e l q, l @ [JIoctl q])"

text \<open>The requests in order, up to the first one that fails.\<close>

fun j_requests :: "jpeg_env \<Rightarrow> jpeg_req list \<Rightarrow> jpeg_ev list \<Rightarrow> bool \<times> jpeg_ev list" where
  "j_requests e [] l = (True, l)"
| "j_requests e (q # qs) l = (let (r, l) = j_ioctl e q l in if r = JFails then (False, l) else j_requests e qs l)"

subsection \<open>Opening and closing\<close>

definition jpeg_device :: "nat \<Rightarrow> string" where
  "jpeg_device n = ''/dev/video'' @ [char_of (49 + n)]"

text \<open>The loop over the devices; \<open>n\<close> is how often the last character was incremented.\<close>

fun find_jpeg :: "jpeg_env \<Rightarrow> nat \<Rightarrow> nat \<Rightarrow> jstate \<Rightarrow> jstate" where
  "find_jpeg e 0 n s = s"
| "find_jpeg e (Suc k) n (j, l) =
     (let fd = j_open e (jpeg_device n); j = j\<lparr>s_i32JpegFd := fd\<rparr>; l = l @ [JOpen (jpeg_device n)] in
      if fd < 0 then find_jpeg e k (n + 1) (j, l)
      else
        let (r, l) = j_ioctl e JPEG_GET_JPEG_BUFFER l in
        if r = JFails then find_jpeg e k (n + 1) (j, l @ [JClose fd])
        else (case r of JGot sz \<Rightarrow> j\<lparr>s_u32JpegBufSize := sz\<rparr> | _ \<Rightarrow> j, l))"

definition initial_param :: "E_IMAGE_RESOL \<Rightarrow> jpeg_param" where
  "initial_param eImageResol =
     \<lparr>p_encode = 1, p_scale = 0, p_scaled_width = 0, p_scaled_height = 0,
      p_encode_width = word_of_int (fst (image_size eImageResol)), p_encode_height = word_of_int (snd (image_size eImageResol)),
      p_qadjust = 0xf, p_qscaling = 7, p_encode_source_format = 0, p_encode_image_format = DRVJPEG_ENC_PRIMARY_YUV422,
      p_buffersize = 0, p_buffercount = 1\<rparr>"

definition InitJpegDevice :: "jpeg_env \<Rightarrow> E_IMAGE_RESOL \<Rightarrow> jstate \<Rightarrow> int \<times> jstate" where
  "InitJpegDevice e eImageResol s =
     (let (j, l) = find_jpeg e RETRY_NUM 0 s; fd = s_i32JpegFd j in
      if fd < 0 then (fd, j, l)
      else if \<not> j_malloc e then (- 1, j\<lparr>s_pJpegInfo := False\<rparr>, l @ [JClose fd])
      else
        let j = j\<lparr>s_pJpegInfo := True, s_pu8JpegEncBuf := j_mmap e (s_u32JpegBufSize j)\<rparr>;
            l = l @ [JMmap (s_u32JpegBufSize j)] in
        if s_pu8JpegEncBuf j = None then (- 1, j, l @ [JClose fd])
        else (fd, j\<lparr>s_sJpegParam := initial_param eImageResol\<rparr>, l))"

definition FinializeJpegDevice :: "jstate \<Rightarrow> jstate" where
  "FinializeJpegDevice = (\<lambda>(j, l).
     (j\<lparr>s_pJpegInfo := False, s_pu8JpegEncBuf := None, s_i32JpegFd := if 0 < s_i32JpegFd j then - 1 else s_i32JpegFd j\<rparr>,
      l @ (if s_pu8JpegEncBuf j = None then [] else [JMunmap (s_u32JpegBufSize j)])
        @ (if 0 < s_i32JpegFd j then [JClose (s_i32JpegFd j)] else [])))"

subsection \<open>Encoding\<close>

definition encode_size :: "E_IMAGE_RESOL \<Rightarrow> 32 word \<times> 32 word" where
  "encode_size eEncodeImgResol =
     (case eEncodeImgResol of eIMAGE_WQVGA \<Rightarrow> (480, 272) | eIMAGE_VGA \<Rightarrow> (640, 480) | eIMAGE_SVGA \<Rightarrow> (800, 600)
      | eIMAGE_HD720 \<Rightarrow> (1280, 720) | eIMAGE_QVGA \<Rightarrow> (320, 240))"

text \<open>The places of the U and the V plane behind the Y plane.\<close>

definition planes :: "32 word \<Rightarrow> 32 word \<Rightarrow> v4l2_rect \<Rightarrow> 32 word \<Rightarrow> 32 word \<times> 32 word" where
  "planes u32Width u32Height crop y =
     (if u32Width < u32_of (r_width crop) then
        (let u = y + u32Width * u32Height in (u, u + u32Width * u32Height div 2))
      else
        (let wh = s32 (r_width crop * r_height crop); u = y + u32_of wh in (u, u + u32_of (wh sdiv 2))))"

text \<open>The bytes behind the start of the picture that are kept for the EXIF header.\<close>

definition reserve :: "jpeg_env \<Rightarrow> E_JPEG_ENC_THB_SUPP \<Rightarrow> jstate \<Rightarrow> fault + jstate" where
  "reserve e thb = (\<lambda>(j, l).
     if thb = eJPEG_ENC_THB_NONE then Inr (j, l)
     else (case s_pu8JpegEncBuf j of
             None \<Rightarrow> Inl WildPointer
           | Some b \<Rightarrow> bindr (arr_copy 6 (replicate 0x84 0xFF) b) (\<lambda>b.
               Inr (j\<lparr>s_pu8JpegEncBuf := Some b\<rparr>, snd (j_ioctl e (JPEG_SET_ENCOCDE_RESERVED 0x84) l)))))"

text \<open>The EXIF header at its place; the two numbers are uninitialised where the engine does not give them.\<close>

definition put_exif :: "jpeg_env \<Rightarrow> E_JPEG_ENC_THB_SUPP \<Rightarrow> tm \<Rightarrow> bytes \<Rightarrow> 32 word \<times> 32 word \<Rightarrow> jstate \<Rightarrow> fault + jstate" where
  "put_exif e thb t stack junk = (\<lambda>(j, l).
     if thb = eJPEG_ENC_THB_NONE then Inr (j, l)
     else
       let (r, l) = j_ioctl e JPEG_GET_ENC_THUMBNAIL_SIZE l;
           len = (case r of JGot x \<Rightarrow> x | _ \<Rightarrow> fst junk);
           (r, l) = j_ioctl e JPEG_GET_ENC_THUMBNAIL_OFFSET l;
           off = (case r of JGot x \<Rightarrow> x | _ \<Rightarrow> snd junk) in
       (case s_pu8JpegEncBuf j of
          None \<Rightarrow> Inl WildPointer
        | Some b \<Rightarrow> bindr (create_simple_EXIF t stack (drop 6 b) off len) (\<lambda>b'.
            Inr (j\<lparr>s_pu8JpegEncBuf := Some (take 6 b @ b')\<rparr>, l))))"

text \<open>From \<open>JPEG_S_PARAM\<close> to the end, the same in both functions.\<close>

definition run_engine :: "jpeg_env \<Rightarrow> E_JPEG_ENC_THB_SUPP \<Rightarrow> tm \<Rightarrow> bytes \<Rightarrow> 32 word \<times> 32 word \<Rightarrow> jstate \<Rightarrow> fault + 32 word option \<times> jstate" where
  "run_engine e thb t stack junk = (\<lambda>(j, l).
     let (r, l) = j_ioctl e (JPEG_S_PARAM (s_sJpegParam j)) l in
     if r = JFails then Inr (None, j, l)
     else
       let l = (case thb of eJPEG_ENC_THB_NONE \<Rightarrow> l
                | eJPEG_ENC_THB_QQVGA \<Rightarrow> snd (j_ioctl e (JPEG_SET_ENC_THUMBNAIL 1) l)
                | eJPEG_ENC_THB_QVGA \<Rightarrow> snd (j_ioctl e (JPEG_SET_ENC_THUMBNAIL 0) l));
           (r, l) = j_ioctl e JPEG_TRIGGER l in
       if r = JFails then Inr (None, j, l)
       else (case s_pu8JpegEncBuf j of
               None \<Rightarrow> Inl WildPointer
             | Some b \<Rightarrow>
                 (case j_read e l b of
                    None \<Rightarrow> Inr (None, j, l @ [JRead])
                  | Some (len, b') \<Rightarrow>
                      bindr (put_exif e thb t stack junk (j\<lparr>s_pu8JpegEncBuf := Some b'\<rparr>, l @ [JRead])) (\<lambda>s. Inr (Some len, s)))))"

definition JpegEncFromVIN ::
    "jpeg_env \<Rightarrow> tm \<Rightarrow> bytes \<Rightarrow> 32 word \<times> 32 word \<Rightarrow> E_IMAGE_RESOL \<Rightarrow> 32 word \<Rightarrow> E_JPEG_ENC_THB_SUPP \<Rightarrow> v4l2_rect \<Rightarrow> jstate \<Rightarrow> fault + 32 word option \<times> jstate" where
  "JpegEncFromVIN e t stack junk eEncodeImgResol y thb crop = (\<lambda>(j, l).
     let (u32Width, u32Height) = encode_size eEncodeImgResol;
         (u, v) = planes u32Width u32Height crop y;
         (ok, l) = j_requests e [JPEG_SET_ENC_USER_YADDRESS y, JPEG_SET_ENC_USER_UADDRESS u, JPEG_SET_ENC_USER_VADDRESS v] l in
     if \<not> ok then Inr (None, j, l)
     else
       let j = j\<lparr>s_sJpegParam := (s_sJpegParam j)\<lparr>p_encode_image_format := DRVJPEG_ENC_PRIMARY_YUV422, p_encode_source_format := DRVJPEG_ENC_SRC_PLANAR\<rparr>\<rparr> in
       bindr (reserve e thb (j, l)) (\<lambda>(j, l).
       if u32_of (r_width crop) < u32Width \<or> u32_of (r_height crop) < u32Height then
         run_engine e thb t stack junk
           (j\<lparr>s_sJpegParam := (s_sJpegParam j)\<lparr>p_scaled_width := u32Width, p_scaled_height := u32Height,
                p_encode_width := u32_of (r_width crop), p_encode_height := u32_of (r_height crop), p_scale := 1\<rparr>\<rparr>,
            snd (j_ioctl e (JPEG_SET_ENC_STRIDE (if u32Width < u32_of (r_width crop) then 1 else 0)) l))
       else
         run_engine e thb t stack junk
           (j\<lparr>s_sJpegParam := (s_sJpegParam j)\<lparr>p_scale := 0, p_encode_width := u32Width, p_encode_height := u32Height\<rparr>\<rparr>,
            snd (j_ioctl e (JPEG_SET_ENC_STRIDE u32Width) l))))"

definition JpegEncFromVIN_Packet ::
    "jpeg_env \<Rightarrow> tm \<Rightarrow> bytes \<Rightarrow> 32 word \<times> 32 word \<Rightarrow> E_IMAGE_RESOL \<Rightarrow> 32 word \<Rightarrow> E_JPEG_ENC_THB_SUPP \<Rightarrow> jstate \<Rightarrow> fault + 32 word option \<times> jstate" where
  "JpegEncFromVIN_Packet e t stack junk eEncodeImgResol y thb = (\<lambda>(j, l).
     let (u32Width, u32Height) = encode_size eEncodeImgResol;
         (ok, l) = j_requests e [JPEG_SET_ENC_USER_YADDRESS y] l in
     if \<not> ok then Inr (None, j, l)
     else
       let j = j\<lparr>s_sJpegParam := (s_sJpegParam j)\<lparr>p_encode_image_format := DRVJPEG_ENC_PRIMARY_YUV422, p_encode_source_format := DRVJPEG_ENC_SRC_PACKET\<rparr>\<rparr>;
           l = snd (j_ioctl e (JPEG_SET_ENC_STRIDE u32Width) l) in
       bindr (reserve e thb (j, l)) (\<lambda>(j, l).
       run_engine e thb t stack junk
         (j\<lparr>s_sJpegParam := (s_sJpegParam j)\<lparr>p_scale := 0, p_encode_width := u32Width, p_encode_height := u32Height\<rparr>\<rparr>, l)))"

end
