(* ===== verification/Dsc.thy ===== *)
theory Dsc
  imports Exif
begin

unbundle bit_operations_syntax

text \<open>
  The numbering of the captured pictures, src/videoin_HW/dsc.c, and the part of
  \<open>CaptureImage\<close> (vin_demo.c) that stores a picture. The index file \<open>.dsc.idx\<close> of the folder
  holds the date and the number of the last picture; the search for a free name is a loop that
  may, as far as its text goes, run for ever, and is a partial function.

  The file system maps a path to the bytes of the file. The block \<open>s_pchFilePath\<close> is its capacity
  and the text last printed into it; a text that does not fit is a fault. What the kernel and the
  allocator may refuse is a record of answers. Path lengths are far below the range of \<open>int32_t\<close>.
\<close>

subsection \<open>State\<close>

definition ERR_DSC_SUCCESS :: "32 word" where "ERR_DSC_SUCCESS = 0"
definition ERR_DSC_OPEN_INDEX_FILE :: "32 word" where "ERR_DSC_OPEN_INDEX_FILE = 0x80800000 OR 1"
definition ERR_DSC_MALLOC :: "32 word" where "ERR_DSC_MALLOC = 0x80800000 OR 2"
definition ERR_DSC_OPEN_CAP_FILE :: "32 word" where "ERR_DSC_OPEN_CAP_FILE = 0x80800000 OR 3"

definition DSC_INDEX_FILE :: string where "DSC_INDEX_FILE = ''.dsc.idx''"

record S_DSC_IDX_ELEM =
  u32Mon :: "32 word"
  u32MDay :: "32 word"
  u32SeqNo :: "32 word"

record dsc =
  s_pchFilePath :: "(nat \<times> string) option"
  s_u32FilePathLen :: nat
  s_sCurIdxElem :: S_DSC_IDX_ELEM

text \<open>The struct in memory and in the index file: three little-endian numbers.\<close>

definition elem_bytes :: "S_DSC_IDX_ELEM \<Rightarrow> bytes" where
  "elem_bytes el = u32 (u32Mon el) @ u32 (u32MDay el) @ u32 (u32SeqNo el)"

definition elem_of :: "bytes \<Rightarrow> S_DSC_IDX_ELEM" where
  "elem_of b = \<lparr>u32Mon = Get32u False 0 b, u32MDay = Get32u False 4 b, u32SeqNo = Get32u False 8 b\<rparr>"

text \<open>The outside: which requests are granted, and the files and descriptors.\<close>

record cam_env =
  e_malloc :: "nat \<Rightarrow> bool"
  e_open :: "string \<Rightarrow> bool"
  e_write :: "nat \<Rightarrow> nat"

record cam_world =
  w_files :: "string \<rightharpoonup> bytes"
  w_fds :: "(nat \<times> string) list"
  w_hidden :: "string list"

text \<open>\<open>open\<close> gives the lowest descriptor that is not in use.\<close>

definition new_fd :: "cam_world \<Rightarrow> nat" where
  "new_fd w = hd (filter (\<lambda>n. n \<notin> fst ` set (w_fds w)) [0 ..< Suc (length (w_fds w))])"

definition open_rdwr :: "cam_env \<Rightarrow> string \<Rightarrow> cam_world \<Rightarrow> (nat \<times> cam_world) option" where
  "open_rdwr e path w =
     (if e_open e path \<and> w_files w path \<noteq> None then Some (new_fd w, w\<lparr>w_fds := (new_fd w, path) # w_fds w\<rparr>) else None)"

definition open_trunc :: "cam_env \<Rightarrow> string \<Rightarrow> cam_world \<Rightarrow> (nat \<times> cam_world) option" where
  "open_trunc e path w =
     (if e_open e path then Some (new_fd w, w\<lparr>w_files := (w_files w)(path \<mapsto> []), w_fds := (new_fd w, path) # w_fds w\<rparr>) else None)"

definition read_fd :: "nat \<Rightarrow> nat \<Rightarrow> cam_world \<Rightarrow> bytes" where
  "read_fd fd n w =
     (case map_of (w_fds w) fd of None \<Rightarrow> []
      | Some path \<Rightarrow> (case w_files w path of None \<Rightarrow> [] | Some bs \<Rightarrow> take n bs))"

text \<open>A write to a file that was just truncated adds the bytes the system takes to its end.\<close>

definition write_fd :: "cam_env \<Rightarrow> nat \<Rightarrow> bytes \<Rightarrow> cam_world \<Rightarrow> nat \<times> cam_world" where
  "write_fd e fd bs w =
     (case map_of (w_fds w) fd of None \<Rightarrow> (0, w)
      | Some path \<Rightarrow> (let out = take (e_write e (length bs)) bs in
          (length out, w\<lparr>w_files := (w_files w)(path \<mapsto> (case w_files w path of None \<Rightarrow> [] | Some old \<Rightarrow> old) @ out)\<rparr>)))"

definition hide_fd :: "nat \<Rightarrow> cam_world \<Rightarrow> cam_world" where
  "hide_fd fd w = (case map_of (w_fds w) fd of None \<Rightarrow> w | Some path \<Rightarrow> w\<lparr>w_hidden := path # w_hidden w\<rparr>)"

definition close_desc :: "nat \<Rightarrow> cam_world \<Rightarrow> cam_world" where
  "close_desc fd w = w\<lparr>w_fds := filter (\<lambda>(f, _). f \<noteq> fd) (w_fds w)\<rparr>"

subsection \<open>The path block\<close>

definition path_room :: "cam_env \<Rightarrow> nat \<Rightarrow> dsc \<Rightarrow> bool \<times> dsc" where
  "path_room e i32PathLen d =
     (if s_pchFilePath d = None \<or> s_u32FilePathLen d < i32PathLen then
        (if e_malloc e i32PathLen
         then (True, d\<lparr>s_pchFilePath := Some (i32PathLen, []), s_u32FilePathLen := i32PathLen\<rparr>)
         else (False, d\<lparr>s_pchFilePath := None\<rparr>))
      else (True, d))"

definition print_path :: "string \<Rightarrow> dsc \<Rightarrow> fault + dsc" where
  "print_path s d =
     (case s_pchFilePath d of None \<Rightarrow> Inl NullDeref
      | Some (cap, _) \<Rightarrow> if length s < cap then Inr (d\<lparr>s_pchFilePath := Some (cap, s)\<rparr>) else Inl OutOfBounds)"

definition path_text :: "dsc \<Rightarrow> string" where
  "path_text d = (case s_pchFilePath d of None \<Rightarrow> [] | Some (_, s) \<Rightarrow> s)"

subsection \<open>The index file\<close>

definition index_path :: "string \<Rightarrow> string" where
  "index_path pchDSCFolderPath = pchDSCFolderPath @ ''/'' @ DSC_INDEX_FILE"

definition GetDSCIndexElem :: "cam_env \<Rightarrow> string \<Rightarrow> dsc \<times> cam_world \<Rightarrow> fault + (32 word \<times> dsc \<times> cam_world)" where
  "GetDSCIndexElem e pchDSCFolderPath = (\<lambda>(d, w).
     let (ok, d) = path_room e (length pchDSCFolderPath + length DSC_INDEX_FILE + 10) d in
     if \<not> ok then Inr (ERR_DSC_MALLOC, d, w)
     else bindr (print_path (index_path pchDSCFolderPath) d) (\<lambda>d.
       case open_rdwr e (path_text d) w of
         None \<Rightarrow> Inr (ERR_DSC_OPEN_INDEX_FILE, d, w)
       | Some (fd, w) \<Rightarrow>
           let got = read_fd fd 12 w;
               d = d\<lparr>s_sCurIdxElem := elem_of (blit 0 got (elem_bytes (s_sCurIdxElem d)))\<rparr> in
           Inr (if length got \<noteq> 12 then ERR_DSC_OPEN_INDEX_FILE else ERR_DSC_SUCCESS, d, close_desc fd w)))"

definition UpdateDSCIndexFile :: "cam_env \<Rightarrow> string \<Rightarrow> dsc \<times> cam_world \<Rightarrow> fault + (32 word \<times> dsc \<times> cam_world)" where
  "UpdateDSCIndexFile e pchDSCFolderPath = (\<lambda>(d, w).
     let (ok, d) = path_room e (length pchDSCFolderPath + length DSC_INDEX_FILE + 10) d in
     if \<not> ok then Inr (ERR_DSC_MALLOC, d, w)
     else bindr (print_path (index_path pchDSCFolderPath) d) (\<lambda>d.
       case open_trunc e (path_text d) w of
         None \<Rightarrow> Inr (ERR_DSC_OPEN_INDEX_FILE, d, w)
       | Some (fd, w) \<Rightarrow>
           let (n, w) = write_fd e fd (elem_bytes (s_sCurIdxElem d)) w in
           Inr (if n \<noteq> 12 then ERR_DSC_OPEN_INDEX_FILE else ERR_DSC_SUCCESS, d, close_desc fd (hide_fd fd w))))"

subsection \<open>A new file\<close>

text \<open>\<open>%s/KRV%02d%02d%03d.jpg\<close>; \<open>%d\<close> prints the unsigned number as a signed one.\<close>

definition cap_name :: "string \<Rightarrow> tm \<Rightarrow> 32 word \<Rightarrow> string" where
  "cap_name pchDSCFolderPath t seqNo =
     pchDSCFolderPath @ ''/KRV'' @ dec_pad 2 (int (tm_mon t) + 1) @ dec_pad 2 (int (tm_mday t)) @ dec_pad 3 (sint seqNo) @ ''.jpg''"

partial_function (option) next_name :: "(string \<Rightarrow> bool) \<Rightarrow> string \<Rightarrow> tm \<Rightarrow> 32 word \<Rightarrow> dsc \<Rightarrow> (fault + (32 word option \<times> dsc)) option" where
  "next_name exists_at pchDSCFolderPath t seqNo d =
     (if exists_at (path_text d) then
        (if 999 < seqNo + 1 then Some (Inr (None, d))
         else (case print_path (cap_name pchDSCFolderPath t (seqNo + 1)) d of
                 Inl f \<Rightarrow> Some (Inl f)
               | Inr d' \<Rightarrow> next_name exists_at pchDSCFolderPath t (seqNo + 1) d'))
      else Some (Inr (Some seqNo, d)))"

text \<open>The date of the call, the number the search starts with, and the call itself.\<close>

definition month_no :: "tm \<Rightarrow> 32 word" where "month_no t = of_nat (tm_mon t) + 1"
definition day_no :: "tm \<Rightarrow> 32 word" where "day_no t = of_nat (tm_mday t)"

definition first_seq :: "tm \<Rightarrow> dsc \<Rightarrow> 32 word" where
  "first_seq t d =
     (if u32Mon (s_sCurIdxElem d) \<noteq> month_no t \<or> u32MDay (s_sCurIdxElem d) \<noteq> day_no t then 0
      else u32SeqNo (s_sCurIdxElem d) + 1)"

definition new_file :: "cam_env \<Rightarrow> tm \<Rightarrow> (32 word option \<times> dsc) \<Rightarrow> cam_world \<Rightarrow> 32 word \<times> nat option \<times> dsc \<times> cam_world" where
  "new_file e t = (\<lambda>(n, d) w.
     case n of
       None \<Rightarrow> (ERR_DSC_OPEN_CAP_FILE, None, d, w)
     | Some seqNo \<Rightarrow>
         (case open_trunc e (path_text d) w of
            None \<Rightarrow> (ERR_DSC_OPEN_CAP_FILE, None, d, w)
          | Some (fd, w) \<Rightarrow> (ERR_DSC_SUCCESS, Some fd,
              d\<lparr>s_sCurIdxElem := \<lparr>u32Mon = month_no t, u32MDay = day_no t, u32SeqNo = seqNo\<rparr>\<rparr>, w)))"

definition DSC_NewCapFile :: "cam_env \<Rightarrow> tm \<Rightarrow> string \<Rightarrow> dsc \<times> cam_world \<Rightarrow> (fault + (32 word \<times> nat option \<times> dsc \<times> cam_world)) option" where
  "DSC_NewCapFile e t pchDSCFolderPath s =
     (case GetDSCIndexElem e pchDSCFolderPath s of
        Inl f \<Rightarrow> Some (Inl f)
      | Inr (err, d, w) \<Rightarrow>
          if err \<noteq> ERR_DSC_SUCCESS \<and> err \<noteq> ERR_DSC_OPEN_INDEX_FILE then Some (Inr (err, None, d, w))
          else
            let d = (if err = ERR_DSC_OPEN_INDEX_FILE
                     then d\<lparr>s_sCurIdxElem := \<lparr>u32Mon = month_no t, u32MDay = day_no t, u32SeqNo = 0\<rparr>\<rparr> else d);
                seqNo = first_seq t d;
                (ok, d) = path_room e (length pchDSCFolderPath + 8 + 3 + 10) d in
            if \<not> ok then Some (Inr (ERR_DSC_MALLOC, None, d, w))
            else (case print_path (cap_name pchDSCFolderPath t seqNo) d of
                    Inl f \<Rightarrow> Some (Inl f)
                  | Inr d \<Rightarrow>
                      (case next_name (\<lambda>p. w_files w p \<noteq> None) pchDSCFolderPath t seqNo d of
                         None \<Rightarrow> None
                       | Some (Inl f) \<Rightarrow> Some (Inl f)
                       | Some (Inr r) \<Rightarrow> Some (Inr (new_file e t r w)))))"

definition DSC_CloseCapFile :: "cam_env \<Rightarrow> string \<Rightarrow> nat \<Rightarrow> dsc \<times> cam_world \<Rightarrow> fault + (dsc \<times> cam_world)" where
  "DSC_CloseCapFile e pchDSCFolderPath i32CloseFileFD = (\<lambda>(d, w).
     bindr (UpdateDSCIndexFile e pchDSCFolderPath (d, close_desc i32CloseFileFD w)) (\<lambda>(_, d, w).
     Inr (d\<lparr>s_pchFilePath := None\<rparr>, w)))"

text \<open>The end of \<open>CaptureImage\<close>: the encoded picture is stored if the folder has room for it.\<close>

definition store_picture :: "cam_env \<Rightarrow> tm \<Rightarrow> string \<Rightarrow> nat \<Rightarrow> bytes \<Rightarrow> dsc \<times> cam_world \<Rightarrow> (fault + (dsc \<times> cam_world)) option" where
  "store_picture e t pchSaveFolder u64DiskAvailSize jpeg s =
     (if u64DiskAvailSize \<le> length jpeg then Some (Inr s)
      else (case DSC_NewCapFile e t pchSaveFolder s of
              None \<Rightarrow> None
            | Some (Inl f) \<Rightarrow> Some (Inl f)
            | Some (Inr (err, fd, d, w)) \<Rightarrow>
                if err \<noteq> ERR_DSC_SUCCESS then Some (Inr (d, w))
                else Some (DSC_CloseCapFile e pchSaveFolder (the fd) (d, snd (write_fd e (the fd) jpeg w)))))"

subsection \<open>The search ends\<close>

lemma unat_plus_1_small:
  assumes "\<not> 999 < n + (1 :: 32 word)"
  shows "(if n + 1 = - 1 then 1001 else 1000 - unat (n + 1)) < (if n = - 1 then 1001 else 1000 - unat n)"
proof -
  have le: "unat (n + 1) \<le> 999" using assms by (simp add: word_le_nat_alt not_less)
  moreover have "n + 1 \<noteq> - 1"
  proof
    assume top: "n + 1 = - 1"
    have "(999 :: 32 word) < - 1" by code_simp
    thus False using assms unfolding top by simp
  qed
  moreover have "unat (n + 1) = unat n + 1" if "n \<noteq> - 1"
    using that by (metis Suc_eq_plus1 add.commute add_eq_0_iff2 unatSuc)
  ultimately show ?thesis by auto
qed

lemma next_name_returns: "\<exists>r. next_name exists_at folder t n d = Some r"
proof (induction "if n = - 1 then 1001 else 1000 - unat n" arbitrary: n d rule: less_induct)
  case less
  show ?case
  proof (cases "exists_at (path_text d) \<and> \<not> 999 < n + 1")
    case True
    with less [OF unat_plus_1_small [of n]] show ?thesis
      by (subst next_name.simps) (auto split: sum.splits)
  next
    case False
    thus ?thesis by (subst next_name.simps) auto
  qed
qed

text \<open>
  The search for a free name ends on every file system, also on one where every name exists,
  and from every number an index file can hold, \<open>0xffffffff\<close> and the wrap to 0 included:
  \<open>DSC_NewCapFile\<close> returns.
\<close>

theorem DSC_NewCapFile_returns: "\<exists>r. DSC_NewCapFile e t folder s = Some r"
proof (cases "GetDSCIndexElem e folder s")
  case (Inr r)
  obtain err d w where r: "r = (err, d, w)" by (cases r)
  show ?thesis
    using next_name_returns [of "\<lambda>p. w_files w p \<noteq> None" folder t]
    by (auto simp: DSC_NewCapFile_def Inr r Let_def split: sum.splits option.splits prod.splits) (metis option.distinct(1))+
qed (simp add: DSC_NewCapFile_def)

subsection \<open>Descriptors and the path block\<close>

lemma new_fd_fresh: "new_fd w \<notin> fst ` set (w_fds w)"
proof -
  let ?free = "filter (\<lambda>n. n \<notin> fst ` set (w_fds w)) [0 ..< Suc (length (w_fds w))]"
  have "?free \<noteq> []"
  proof
    assume "?free = []"
    hence "{0 ..< Suc (length (w_fds w))} \<subseteq> fst ` set (w_fds w)" by (auto simp: filter_empty_conv simp del: upt_Suc)
    from card_mono [OF _ this] have "Suc (length (w_fds w)) \<le> card (fst ` set (w_fds w))" by simp
    also have "\<dots> \<le> card (set (w_fds w))" by (rule card_image_le) simp
    also have "\<dots> \<le> length (w_fds w)" by (rule card_length)
    finally show False by simp
  qed
  hence "hd ?free \<in> set ?free" by (rule hd_in_set)
  thus ?thesis by (simp add: new_fd_def del: upt_Suc)
qed

lemma close_new [simp]: "filter (\<lambda>(f, _). f \<noteq> new_fd w) (w_fds w) = w_fds w"
  using new_fd_fresh [of w] by (intro filter_True) force

text \<open>The length that is kept is the one of the block.\<close>

definition dsc_wf :: "dsc \<Rightarrow> bool" where
  "dsc_wf d \<longleftrightarrow> (case s_pchFilePath d of None \<Rightarrow> True | Some (cap, _) \<Rightarrow> cap = s_u32FilePathLen d)"

lemma dsc_wf_simps [simp]: "dsc_wf (d\<lparr>s_sCurIdxElem := el\<rparr>) = dsc_wf d" "dsc_wf (d\<lparr>s_pchFilePath := None\<rparr>)"
  by (auto simp: dsc_wf_def split: option.splits)

definition granting :: "cam_env \<Rightarrow> bool" where
  "granting e \<longleftrightarrow> (\<forall>n. e_malloc e n)"

lemma path_print:
  assumes "granting e" and "dsc_wf d" and "length s < n"
  obtains d1 d2 where "path_room e n d = (True, d1)" "print_path s d1 = Inr d2"
    "dsc_wf d2" "path_text d2 = s" "s_pchFilePath d2 \<noteq> None" "n \<le> s_u32FilePathLen d2" "s_sCurIdxElem d2 = s_sCurIdxElem d" "s_sCurIdxElem d1 = s_sCurIdxElem d"
proof -
  obtain cap old d1 where d1: "path_room e n d = (True, d1)" "s_pchFilePath d1 = Some (cap, old)" "n \<le> cap" "cap = s_u32FilePathLen d1"
    "s_sCurIdxElem d1 = s_sCurIdxElem d"
    using assms(1,2) by (cases "s_pchFilePath d"; cases "s_u32FilePathLen d < n") (auto simp: path_room_def granting_def dsc_wf_def)
  show ?thesis
    using d1 assms(3) that [of d1 "d1\<lparr>s_pchFilePath := Some (cap, s)\<rparr>"] by (auto simp: print_path_def dsc_wf_def path_text_def)
qed

lemma print_path_again:
  assumes "dsc_wf d" and "s_pchFilePath d \<noteq> None" and "length s < s_u32FilePathLen d"
  obtains d' where "print_path s d = Inr d'" "dsc_wf d'" "path_text d' = s" "s_pchFilePath d' \<noteq> None"
    "s_u32FilePathLen d' = s_u32FilePathLen d" "s_sCurIdxElem d' = s_sCurIdxElem d"
  using assms that by (auto simp: print_path_def dsc_wf_def path_text_def)

subsection \<open>The index file\<close>

lemma length_elem_bytes [simp]: "length (elem_bytes el) = 12"
  by (simp add: elem_bytes_def)

lemma elem_of_bytes [simp]: "elem_of (elem_bytes el) = el"
proof -
  have "region 0 4 (elem_bytes el) = u32 (u32Mon el)" "region 4 4 (elem_bytes el) = u32 (u32MDay el)"
    "region 8 4 (elem_bytes el) = u32 (u32SeqNo el)"
    by (simp_all add: region_def elem_bytes_def)
  from this [THEN Get_region(2)] show ?thesis by (simp add: elem_of_def)
qed

text \<open>What the index file says, if it is there and complete.\<close>

definition index_elem :: "cam_env \<Rightarrow> string \<Rightarrow> cam_world \<Rightarrow> S_DSC_IDX_ELEM option" where
  "index_elem e folder w =
     (if e_open e (index_path folder)
      then (case w_files w (index_path folder) of None \<Rightarrow> None
            | Some bs \<Rightarrow> if 12 \<le> length bs then Some (elem_of (take 12 bs)) else None)
      else None)"

lemma err_codes [simp]:
  "ERR_DSC_OPEN_INDEX_FILE \<noteq> ERR_DSC_SUCCESS" "ERR_DSC_OPEN_CAP_FILE \<noteq> ERR_DSC_SUCCESS"
  "ERR_DSC_SUCCESS \<noteq> ERR_DSC_OPEN_INDEX_FILE" "ERR_DSC_SUCCESS \<noteq> ERR_DSC_OPEN_CAP_FILE" "ERR_DSC_MALLOC \<noteq> ERR_DSC_SUCCESS" "ERR_DSC_MALLOC \<noteq> ERR_DSC_OPEN_INDEX_FILE"
  by (simp_all add: ERR_DSC_OPEN_INDEX_FILE_def ERR_DSC_SUCCESS_def ERR_DSC_OPEN_CAP_FILE_def ERR_DSC_MALLOC_def)

lemma length_index_path [simp]: "length (index_path folder) = length folder + 9" "length DSC_INDEX_FILE = 8"
  by (simp_all add: index_path_def DSC_INDEX_FILE_def)

lemma GetDSCIndexElem_ok:
  assumes "granting e" and "dsc_wf d"
  obtains d' where "GetDSCIndexElem e folder (d, w) = Inr (if index_elem e folder w = None then ERR_DSC_OPEN_INDEX_FILE else ERR_DSC_SUCCESS, d', w)"
    "dsc_wf d'" "\<And>el. index_elem e folder w = Some el \<Longrightarrow> s_sCurIdxElem d' = el" "s_pchFilePath d' \<noteq> None"
proof -
  obtain d1 d2 where p: "path_room e (18 + length folder) d = (True, d1)" "print_path (index_path folder) d1 = Inr d2"
      "dsc_wf d2" "path_text d2 = index_path folder" "s_pchFilePath d2 \<noteq> None"
    by (rule path_print [OF assms, of "index_path folder" "18 + length folder"]) simp_all
  show ?thesis
  proof (cases "e_open e (index_path folder) \<and> w_files w (index_path folder) \<noteq> None")
    case True
    then obtain bs where bs: "w_files w (index_path folder) = Some bs" by blast
    let ?d = "d2\<lparr>s_sCurIdxElem := elem_of (blit 0 (take 12 bs) (elem_bytes (s_sCurIdxElem d2)))\<rparr>"
    have "blit 0 (take 12 bs) (elem_bytes el) = take 12 bs" if "12 \<le> length bs" for el
      using that by simp
    thus ?thesis
      using p True bs that [of ?d]
      by (cases "12 \<le> length bs") (auto simp: GetDSCIndexElem_def index_elem_def open_rdwr_def read_fd_def close_desc_def dsc_wf_def min_def simp del: blit_zero)
  next
    case False
    hence "index_elem e folder w = None" by (auto simp: index_elem_def)
    thus ?thesis
      using p False that [of d2] by (auto simp: GetDSCIndexElem_def open_rdwr_def)
  qed
qed

subsection \<open>The name that is chosen\<close>

definition picture :: "string \<Rightarrow> tm \<Rightarrow> nat \<Rightarrow> string" where
  "picture folder t k = cap_name folder t (of_nat k)"

definition tm_date :: "tm \<Rightarrow> bool" where
  "tm_date t \<longleftrightarrow> tm_mon t < 12 \<and> 1 \<le> tm_mday t \<and> tm_mday t \<le> 31"

lemma sint_of_nat_small: "k < 2147483648 \<Longrightarrow> sint (of_nat k :: 32 word) = int k"
  by (simp add: signed_of_nat signed_take_bit_int_eq_self)

lemma picture_eq:
  "k < 2147483648 \<Longrightarrow>
   picture folder t k = folder @ ''/KRV'' @ dec_pad 2 (int (tm_mon t + 1)) @ dec_pad 2 (int (tm_mday t)) @ dec_pad 3 (int k) @ ''.jpg''"
  by (simp add: picture_def cap_name_def sint_of_nat_small add.commute)

lemma length_picture: "tm_date t \<Longrightarrow> k \<le> 999 \<Longrightarrow> length (picture folder t k) = length folder + 15"
  by (simp add: picture_eq tm_date_def length_dec_pad del: of_nat_add of_nat_Suc)

lemma picture_inject: "k \<le> 999 \<Longrightarrow> l \<le> 999 \<Longrightarrow> picture folder t k = picture folder t l \<longleftrightarrow> k = l"
  by (simp add: picture_eq)

lemma picture_not_index: "k \<le> 999 \<Longrightarrow> picture folder t k \<noteq> index_path folder"
  by (simp add: picture_eq index_path_def DSC_INDEX_FILE_def)

text \<open>The search gives the first free number up to 999.\<close>

lemma next_name_find:
  assumes "tm_date t" and "length folder + 21 \<le> s_u32FilePathLen d" and "n \<le> 999"
    and "dsc_wf d" and "s_pchFilePath d \<noteq> None" and "path_text d = picture folder t n"
  shows "\<exists>d'. next_name exists_at folder t (of_nat n) d =
      Some (Inr (map_option of_nat (find (\<lambda>k. \<not> exists_at (picture folder t k)) [n ..< 1000]), d')) \<and>
    dsc_wf d' \<and> s_sCurIdxElem d' = s_sCurIdxElem d \<and>
    (\<forall>k. find (\<lambda>k. \<not> exists_at (picture folder t k)) [n ..< 1000] = Some k \<longrightarrow> path_text d' = picture folder t k)"
  using assms(2-6)
proof (induction "1000 - n" arbitrary: n d)
  case 0
  thus ?case by simp
next
  case (Suc m)
  have upt: "[n ..< 1000] = n # [Suc n ..< 1000]" using Suc.prems(2) by (intro upt_conv_Cons) simp
  have w: "of_nat n + (1 :: 32 word) = of_nat (Suc n)" by simp
  have top: "999 < (of_nat (Suc n) :: 32 word) \<longleftrightarrow> n = 999"
    using Suc.prems(2) by (simp add: word_less_nat_alt unat_of_nat del: of_nat_Suc) linarith
  consider "\<not> exists_at (picture folder t n)" | "exists_at (picture folder t n)" "n = 999" | "exists_at (picture folder t n)" "n < 999"
    using Suc.prems(2) by linarith
  thus ?case
  proof cases
    case 1
    thus ?thesis using Suc.prems by (subst next_name.simps) (simp add: upt)
  next
    case 2
    thus ?thesis using Suc.prems by (subst next_name.simps) (simp add: upt w top del: of_nat_Suc)
  next
    case 3
    obtain d' where d': "print_path (picture folder t (Suc n)) d = Inr d'" "dsc_wf d'" "path_text d' = picture folder t (Suc n)"
        "s_pchFilePath d' \<noteq> None" "s_u32FilePathLen d' = s_u32FilePathLen d" "s_sCurIdxElem d' = s_sCurIdxElem d"
      by (rule print_path_again [OF Suc.prems(3,4), of "picture folder t (Suc n)"]) (use 3 Suc.prems(1) assms(1) in \<open>simp_all add: length_picture\<close>)
    have "m = 1000 - Suc n" using Suc.hyps(2) by linarith
    from Suc.hyps(1) [OF this, of d'] show ?thesis
      using 3 d' Suc.prems(1,5) by (subst next_name.simps) (simp add: upt w top picture_def del: of_nat_Suc)
  qed
qed

definition today :: "tm \<Rightarrow> nat \<Rightarrow> S_DSC_IDX_ELEM" where
  "today t k = \<lparr>u32Mon = month_no t, u32MDay = day_no t, u32SeqNo = of_nat k\<rparr>"

definition start_no :: "tm \<Rightarrow> S_DSC_IDX_ELEM option \<Rightarrow> 32 word" where
  "start_no t idx =
     (case idx of None \<Rightarrow> 1
      | Some el \<Rightarrow> if u32Mon el \<noteq> month_no t \<or> u32MDay el \<noteq> day_no t then 0 else u32SeqNo el + 1)"

text \<open>The call up to the search: the path block holds the first name to try.\<close>

lemma DSC_NewCapFile_search:
  assumes "granting e" and "dsc_wf d" and "tm_date t" and "start_no t (index_elem e folder w) = of_nat n" and "n \<le> 999"
  obtains d' where "DSC_NewCapFile e t folder (d, w) = (case next_name (\<lambda>p. w_files w p \<noteq> None) folder t (of_nat n) d' of
      None \<Rightarrow> None | Some (Inl f) \<Rightarrow> Some (Inl f) | Some (Inr r) \<Rightarrow> Some (Inr (new_file e t r w)))"
    "length folder + 21 \<le> s_u32FilePathLen d'" "dsc_wf d'" "s_pchFilePath d' \<noteq> None" "path_text d' = picture folder t n"
proof -
  let ?err = "if index_elem e folder w = None then ERR_DSC_OPEN_INDEX_FILE else ERR_DSC_SUCCESS"
  obtain d1 where d1: "GetDSCIndexElem e folder (d, w) = Inr (?err, d1, w)" "dsc_wf d1"
      "\<And>el. index_elem e folder w = Some el \<Longrightarrow> s_sCurIdxElem d1 = el"
    by (rule GetDSCIndexElem_ok [OF assms(1,2), of folder w]) blast
  define d2 where "d2 = (if ?err = ERR_DSC_OPEN_INDEX_FILE
    then d1\<lparr>s_sCurIdxElem := \<lparr>u32Mon = month_no t, u32MDay = day_no t, u32SeqNo = 0\<rparr>\<rparr> else d1)"
  have wf2: "dsc_wf d2" using d1(2) by (simp add: d2_def)
  have seq: "first_seq t d2 = of_nat n"
    using assms(4) d1(3) by (auto simp: first_seq_def start_no_def d2_def split: option.splits)
  obtain d3 d4 where d4: "path_room e (21 + length folder) d2 = (True, d3)" "print_path (picture folder t n) d3 = Inr d4" "dsc_wf d4"
      "path_text d4 = picture folder t n" "s_pchFilePath d4 \<noteq> None" "21 + length folder \<le> s_u32FilePathLen d4"
    by (rule path_print [OF assms(1) wf2, of "picture folder t n" "21 + length folder"]) (use assms(3,5) in \<open>simp_all add: length_picture\<close>)
  have "DSC_NewCapFile e t folder (d, w) = (case next_name (\<lambda>p. w_files w p \<noteq> None) folder t (of_nat n) d4 of
      None \<Rightarrow> None | Some (Inl f) \<Rightarrow> Some (Inl f) | Some (Inr r) \<Rightarrow> Some (Inr (new_file e t r w)))"
    using d4(1,2) seq by (simp add: DSC_NewCapFile_def d1(1) Let_def picture_def flip: d2_def)
  thus ?thesis using that [of d4] d4 by simp
qed

lemma DSC_NewCapFile_find:
  assumes "granting e" and "dsc_wf d" and "tm_date t" and "start_no t (index_elem e folder w) = of_nat n" and "n \<le> 999"
  obtains d' where "dsc_wf d'" "DSC_NewCapFile e t folder (d, w) = Some (Inr
      (case find (\<lambda>k. w_files w (picture folder t k) = None) [n ..< 1000] of
         None \<Rightarrow> (ERR_DSC_OPEN_CAP_FILE, None, d', w)
       | Some k \<Rightarrow>
           if e_open e (picture folder t k)
           then (ERR_DSC_SUCCESS, Some (new_fd w), d'\<lparr>s_sCurIdxElem := today t k\<rparr>,
                 w\<lparr>w_files := (w_files w)(picture folder t k \<mapsto> []), w_fds := (new_fd w, picture folder t k) # w_fds w\<rparr>)
           else (ERR_DSC_OPEN_CAP_FILE, None, d', w)))"
proof -
  obtain d1 where d1: "DSC_NewCapFile e t folder (d, w) = (case next_name (\<lambda>p. w_files w p \<noteq> None) folder t (of_nat n) d1 of
        None \<Rightarrow> None | Some (Inl f) \<Rightarrow> Some (Inl f) | Some (Inr r) \<Rightarrow> Some (Inr (new_file e t r w)))"
      "length folder + 21 \<le> s_u32FilePathLen d1" "dsc_wf d1" "s_pchFilePath d1 \<noteq> None" "path_text d1 = picture folder t n"
    by (rule DSC_NewCapFile_search [OF assms])
  let ?k = "find (\<lambda>k. w_files w (picture folder t k) = None) [n ..< 1000]"
  obtain d2 where d2: "next_name (\<lambda>p. w_files w p \<noteq> None) folder t (of_nat n) d1 = Some (Inr (map_option of_nat ?k, d2))" "dsc_wf d2"
      "\<And>k. ?k = Some k \<Longrightarrow> path_text d2 = picture folder t k"
    using next_name_find [OF assms(3) d1(2) assms(5) d1(3-5), of "\<lambda>p. w_files w p \<noteq> None"] by auto
  show ?thesis
    using d2 that [of d2] by (cases ?k) (auto simp: d1(1) new_file_def open_trunc_def today_def)
qed

text \<open>
  C26: A capture gets the first number, from the one behind the last picture of the day on, whose
  file does not exist: the file is new and empty, every other file stays as it is, and the error
  \<open>ERR_DSC_OPEN_CAP_FILE\<close> means that the file could not be created or that every number up to
  999 is taken. No name leaves the path block. The numbers of a day start with 0, but with 1
  where there is no index file.
\<close>

theorem DSC_NewCapFile_picks:
  assumes "granting e" and "dsc_wf d" and "tm_date t" and "start_no t (index_elem e folder w) \<le> 999"
  shows "\<exists>d'. dsc_wf d' \<and> DSC_NewCapFile e t folder (d, w) = Some (Inr
      (case find (\<lambda>k. w_files w (picture folder t k) = None) [unat (start_no t (index_elem e folder w)) ..< 1000] of
         None \<Rightarrow> (ERR_DSC_OPEN_CAP_FILE, None, d', w)
       | Some k \<Rightarrow>
           if e_open e (picture folder t k)
           then (ERR_DSC_SUCCESS, Some (new_fd w), d'\<lparr>s_sCurIdxElem := today t k\<rparr>,
                 w\<lparr>w_files := (w_files w)(picture folder t k \<mapsto> []), w_fds := (new_fd w, picture folder t k) # w_fds w\<rparr>)
           else (ERR_DSC_OPEN_CAP_FILE, None, d', w)))"
proof -
  have le: "unat (start_no t (index_elem e folder w)) \<le> 999" using assms(4) by (simp add: word_le_nat_alt)
  show ?thesis
    by (rule DSC_NewCapFile_find [OF assms(1-3), of folder w "unat (start_no t (index_elem e folder w))"]) (use le in auto)
qed

theorem DSC_NewCapFile_picks_witness:
  "\<exists>d'. dsc_wf d' \<and> DSC_NewCapFile \<lparr>e_malloc = \<lambda>_. True, e_open = \<lambda>_. True, e_write = id\<rparr>
      \<lparr>tm_year = 112, tm_mon = 2, tm_mday = 4, tm_hour = 5, tm_min = 6, tm_sec = 7\<rparr> ''/dsc''
      (\<lparr>s_pchFilePath = None, s_u32FilePathLen = 0, s_sCurIdxElem = \<lparr>u32Mon = 0, u32MDay = 0, u32SeqNo = 0\<rparr>\<rparr>,
       \<lparr>w_files = [''/dsc/KRV0304001.jpg'' \<mapsto> [1, 2]], w_fds = [], w_hidden = []\<rparr>) =
    Some (Inr (ERR_DSC_SUCCESS, Some 0, d',
      \<lparr>w_files = [''/dsc/KRV0304001.jpg'' \<mapsto> [1, 2], ''/dsc/KRV0304002.jpg'' \<mapsto> []], w_fds = [(0, ''/dsc/KRV0304002.jpg'')], w_hidden = []\<rparr>))"
proof -
  let ?e = "\<lparr>e_malloc = \<lambda>_. True, e_open = \<lambda>_. True, e_write = id\<rparr>"
  let ?t = "\<lparr>tm_year = 112, tm_mon = 2, tm_mday = 4, tm_hour = 5, tm_min = 6, tm_sec = 7\<rparr>"
  let ?d = "\<lparr>s_pchFilePath = None, s_u32FilePathLen = 0, s_sCurIdxElem = \<lparr>u32Mon = 0, u32MDay = 0, u32SeqNo = 0\<rparr>\<rparr>"
  let ?w = "\<lparr>w_files = [''/dsc/KRV0304001.jpg'' \<mapsto> [1, 2]], w_fds = [], w_hidden = []\<rparr> :: cam_world"
  have names: "picture ''/dsc'' ?t 1 = ''/dsc/KRV0304001.jpg''" "picture ''/dsc'' ?t 2 = ''/dsc/KRV0304002.jpg''" by code_simp+
  have start: "start_no ?t (index_elem ?e ''/dsc'' ?w) = 1" by code_simp
  have upt: "[Suc 0 ..< 1000] = 1 # 2 # [3 ..< 1000]" 
    using upt_conv_Cons [of 1 1000] upt_conv_Cons [of 2 1000] by (simp add: numeral_2_eq_2 numeral_3_eq_3 del: upt_rec_numeral)
  have fd: "new_fd ?w = 0" by code_simp
  obtain d' where "dsc_wf d'" "DSC_NewCapFile ?e ?t ''/dsc'' (?d, ?w) = Some (Inr
      (case find (\<lambda>k. w_files ?w (picture ''/dsc'' ?t k) = None) [unat (start_no ?t (index_elem ?e ''/dsc'' ?w)) ..< 1000] of
         None \<Rightarrow> (ERR_DSC_OPEN_CAP_FILE, None, d', ?w)
       | Some k \<Rightarrow>
           if e_open ?e (picture ''/dsc'' ?t k)
           then (ERR_DSC_SUCCESS, Some (new_fd ?w), d'\<lparr>s_sCurIdxElem := today ?t k\<rparr>,
                 ?w\<lparr>w_files := (w_files ?w)(picture ''/dsc'' ?t k \<mapsto> []), w_fds := (new_fd ?w, picture ''/dsc'' ?t k) # w_fds ?w\<rparr>)
           else (ERR_DSC_OPEN_CAP_FILE, None, d', ?w)))"
    using DSC_NewCapFile_picks [of ?e ?d ?t "''/dsc''" ?w] by (auto simp: granting_def dsc_wf_def tm_date_def start simp del: upt_rec_numeral)
  thus ?thesis
    by (intro exI [of _ "d'\<lparr>s_sCurIdxElem := today ?t 2\<rparr>"]) (simp add: start upt names [simplified] names fd del: upt_rec_numeral)
qed

subsection \<open>A day of captures\<close>

definition full_access :: "cam_env \<Rightarrow> bool" where
  "full_access e \<longleftrightarrow> granting e \<and> (\<forall>p. e_open e p) \<and> (\<forall>n. e_write e n = n)"

lemma UpdateDSCIndexFile_ok:
  assumes "full_access e" and "dsc_wf d"
  obtains d' where "dsc_wf d'" "UpdateDSCIndexFile e folder (d, w) = Inr (ERR_DSC_SUCCESS, d',
    w\<lparr>w_files := (w_files w)(index_path folder \<mapsto> elem_bytes (s_sCurIdxElem d)), w_hidden := index_path folder # w_hidden w\<rparr>)"
proof -
  have g: "granting e" using assms(1) by (simp add: full_access_def)
  obtain d1 d2 where p: "path_room e (18 + length folder) d = (True, d1)" "print_path (index_path folder) d1 = Inr d2"
      "dsc_wf d2" "path_text d2 = index_path folder" "s_sCurIdxElem d2 = s_sCurIdxElem d"
    by (rule path_print [OF g assms(2), of "index_path folder" "18 + length folder"]) simp_all
  show ?thesis
    using p assms(1) that [of d2] by (simp add: UpdateDSCIndexFile_def full_access_def open_trunc_def write_fd_def hide_fd_def close_desc_def)
qed

text \<open>The folder after \<open>k\<close> pictures of the day: the index file says so and the higher numbers are free.\<close>

definition at_number :: "cam_env \<Rightarrow> string \<Rightarrow> tm \<Rightarrow> nat \<Rightarrow> cam_world \<Rightarrow> bool" where
  "at_number e folder t k w \<longleftrightarrow>
     index_elem e folder w = (if k = 0 then None else Some (today t k)) \<and>
     (\<forall>i. k < i \<and> i \<le> 999 \<longrightarrow> w_files w (picture folder t i) = None)"

lemma start_no_today: "at_number e folder t k w \<Longrightarrow> start_no t (index_elem e folder w) = of_nat (Suc k)"
  by (simp add: at_number_def start_no_def today_def)

lemma store_picture_next:
  assumes "full_access e" and "dsc_wf d" and "tm_date t" and "at_number e folder t k w" and "k < 999" and "length jpeg < avail"
  obtains d' where "dsc_wf d'" "store_picture e t folder avail jpeg (d, w) = Some (Inr (d',
    w\<lparr>w_files := (w_files w)(picture folder t (Suc k) \<mapsto> jpeg, index_path folder \<mapsto> elem_bytes (today t (Suc k))),
      w_hidden := index_path folder # w_hidden w\<rparr>))"
proof -
  have g: "granting e" using assms(1) by (simp add: full_access_def)
  have "[Suc k ..< 1000] = Suc k # [Suc (Suc k) ..< 1000]" using assms(5) by (intro upt_conv_Cons) simp
  moreover have "w_files w (picture folder t (Suc k)) = None" using assms(4,5) by (simp add: at_number_def)
  ultimately have f: "find (\<lambda>i. w_files w (picture folder t i) = None) [Suc k ..< 1000] = Some (Suc k)" by simp
  let ?p = "picture folder t (Suc k)"
  let ?w = "w\<lparr>w_files := (w_files w)(?p \<mapsto> []), w_fds := (new_fd w, ?p) # w_fds w\<rparr>"
  obtain d1 where d1: "dsc_wf d1" "DSC_NewCapFile e t folder (d, w) =
      Some (Inr (ERR_DSC_SUCCESS, Some (new_fd w), d1\<lparr>s_sCurIdxElem := today t (Suc k)\<rparr>, ?w))"
    by (rule DSC_NewCapFile_find [OF g assms(2,3) start_no_today [OF assms(4)]]) (use assms(1,5) f in \<open>auto simp: full_access_def\<close>)
  obtain d2 where d2: "dsc_wf d2" "UpdateDSCIndexFile e folder (d1\<lparr>s_sCurIdxElem := today t (Suc k)\<rparr>, w\<lparr>w_files := (w_files w)(?p \<mapsto> jpeg)\<rparr>) =
      Inr (ERR_DSC_SUCCESS, d2, w\<lparr>w_files := (w_files w)(?p \<mapsto> jpeg, index_path folder \<mapsto> elem_bytes (today t (Suc k))),
        w_hidden := index_path folder # w_hidden w\<rparr>)"
    by (rule UpdateDSCIndexFile_ok [OF assms(1), of "d1\<lparr>s_sCurIdxElem := today t (Suc k)\<rparr>" folder "w\<lparr>w_files := (w_files w)(?p \<mapsto> jpeg)\<rparr>"])
      (use d1(1) in simp_all)
  have "close_desc (new_fd w) (snd (write_fd e (new_fd w) jpeg ?w)) = w\<lparr>w_files := (w_files w)(?p \<mapsto> jpeg)\<rparr>"
    using assms(1) by (simp add: write_fd_def full_access_def close_desc_def)
  thus ?thesis
    using that [of "d2\<lparr>s_pchFilePath := None\<rparr>"] assms(6) by (simp add: store_picture_def d1(2) DSC_CloseCapFile_def d2(2))
qed

lemma at_number_next:
  assumes "full_access e" and "at_number e folder t k w" and "k < 999"
  shows "at_number e folder t (Suc k) (w\<lparr>w_files := (w_files w)(picture folder t (Suc k) \<mapsto> jpeg, index_path folder \<mapsto> elem_bytes (today t (Suc k))),
      w_hidden := index_path folder # w_hidden w\<rparr>)"
  using assms by (auto simp: at_number_def index_elem_def full_access_def picture_inject picture_not_index)

text \<open>Pictures stored one after the other, the state of the file kept or, in a program started anew, not.\<close>

fun store_pictures :: "cam_env \<Rightarrow> tm \<Rightarrow> string \<Rightarrow> nat \<Rightarrow> bytes list \<Rightarrow> dsc \<times> cam_world \<Rightarrow> (fault + (dsc \<times> cam_world)) option" where
  "store_pictures e t folder avail [] s = Some (Inr s)"
| "store_pictures e t folder avail (jpeg # jpegs) s =
     (case store_picture e t folder avail jpeg s of
        None \<Rightarrow> None
      | Some (Inl f) \<Rightarrow> Some (Inl f)
      | Some (Inr s') \<Rightarrow> store_pictures e t folder avail jpegs s')"

lemma store_pictures_from:
  assumes "full_access e" and "tm_date t"
  shows "dsc_wf d \<Longrightarrow> at_number e folder t k w \<Longrightarrow> k + length jpegs \<le> 999 \<Longrightarrow> \<forall>jpeg \<in> set jpegs. length jpeg < avail \<Longrightarrow>
    \<exists>d' w'. store_pictures e t folder avail jpegs (d, w) = Some (Inr (d', w')) \<and> dsc_wf d' \<and> w_fds w' = w_fds w \<and>
      at_number e folder t (k + length jpegs) w' \<and>
      (\<forall>i < length jpegs. w_files w' (picture folder t (k + i + 1)) = Some (jpegs ! i)) \<and>
      (\<forall>p. p \<noteq> index_path folder \<and> p \<notin> picture folder t ` {k <.. k + length jpegs} \<longrightarrow> w_files w' p = w_files w p)"
proof (induction jpegs arbitrary: d k w)
  case Nil
  thus ?case by simp
next
  case (Cons jpeg jpegs)
  let ?p = "picture folder t (Suc k)"
  let ?w = "w\<lparr>w_files := (w_files w)(?p \<mapsto> jpeg, index_path folder \<mapsto> elem_bytes (today t (Suc k))),
      w_hidden := index_path folder # w_hidden w\<rparr>"
  have k: "k < 999" using Cons.prems(3) by simp
  obtain d1 where d1: "dsc_wf d1" "store_picture e t folder avail jpeg (d, w) = Some (Inr (d1, ?w))"
    by (rule store_picture_next [OF assms(1) Cons.prems(1) assms(2) Cons.prems(2) k, of jpeg avail]) (use Cons.prems(4) in auto)
  obtain d' w' where r: "store_pictures e t folder avail jpegs (d1, ?w) = Some (Inr (d', w'))" "dsc_wf d'" "w_fds w' = w_fds w"
      "at_number e folder t (Suc k + length jpegs) w'"
      "\<And>i. i < length jpegs \<Longrightarrow> w_files w' (picture folder t (Suc k + i + 1)) = Some (jpegs ! i)"
      "\<And>p. p \<noteq> index_path folder \<Longrightarrow> p \<notin> picture folder t ` {Suc k <.. Suc k + length jpegs} \<Longrightarrow> w_files w' p = w_files ?w p"
    using Cons.IH [OF d1(1) at_number_next [OF assms(1) Cons.prems(2) k, of jpeg]] Cons.prems(3,4) by auto
  have here: "w_files w' ?p = Some jpeg"
  proof -
    have "?p \<notin> picture folder t ` {Suc k <.. Suc k + length jpegs}"
      using Cons.prems(3) by (auto simp: picture_inject)
    thus ?thesis using r(6) [of ?p] k by (simp add: picture_not_index)
  qed
  have "w_files w' (picture folder t (k + i + 1)) = Some ((jpeg # jpegs) ! i)" if "i < length (jpeg # jpegs)" for i
    using that r(5) [of "i - 1"] here by (cases i) simp_all
  moreover have "w_files w' p = w_files w p" if "p \<noteq> index_path folder" "p \<notin> picture folder t ` {k <.. k + length (jpeg # jpegs)}" for p
  proof -
    have "p \<noteq> ?p" using that(2) by auto
    moreover have "p \<notin> picture folder t ` {Suc k <.. Suc k + length jpegs}" using that(2) by auto
    ultimately show ?thesis using r(6) [of p] that(1) by simp
  qed
  ultimately show ?case using d1(2) r(1-4) by auto
qed

text \<open>
  The pictures of a day, stored in a folder without an index file and without pictures of that
  day, get the numbers 1, 2, 3 and so on: each file holds its picture, no other file but the index
  is touched, the index file keeps the last number, and no descriptor stays open.
\<close>

theorem day_of_captures:
  assumes "full_access e" and "tm_date t" and "dsc_wf d"
    and "w_files w (index_path folder) = None" and "\<forall>i \<le> 999. w_files w (picture folder t i) = None"
    and "jpegs \<noteq> []" and "length jpegs \<le> 999" and "\<forall>jpeg \<in> set jpegs. length jpeg < avail"
  shows "\<exists>d' w'. store_pictures e t folder avail jpegs (d, w) = Some (Inr (d', w')) \<and> w_fds w' = w_fds w \<and>
      (\<forall>i < length jpegs. w_files w' (picture folder t (i + 1)) = Some (jpegs ! i)) \<and>
      index_elem e folder w' = Some (today t (length jpegs)) \<and>
      (\<forall>p. p \<noteq> index_path folder \<and> p \<notin> picture folder t ` {1 .. length jpegs} \<longrightarrow> w_files w' p = w_files w p)"
proof -
  have "at_number e folder t 0 w" using assms(4,5) by (simp add: at_number_def index_elem_def)
  from store_pictures_from [OF assms(1-3) this _ assms(8)] show ?thesis
    using assms(6,7) by (force simp: at_number_def atLeastSucAtMost_greaterThanAtMost)
qed

theorem day_of_captures_witness:
  "\<exists>d' w'. store_pictures \<lparr>e_malloc = \<lambda>_. True, e_open = \<lambda>_. True, e_write = id\<rparr>
      \<lparr>tm_year = 112, tm_mon = 2, tm_mday = 4, tm_hour = 5, tm_min = 6, tm_sec = 7\<rparr> ''/dsc'' 100 [[1, 2], [3]]
      (\<lparr>s_pchFilePath = None, s_u32FilePathLen = 0, s_sCurIdxElem = \<lparr>u32Mon = 0, u32MDay = 0, u32SeqNo = 0\<rparr>\<rparr>,
       \<lparr>w_files = \<lambda>_. None, w_fds = [], w_hidden = []\<rparr>) = Some (Inr (d', w')) \<and>
    w_files w' ''/dsc/KRV0304001.jpg'' = Some [1, 2] \<and> w_files w' ''/dsc/KRV0304002.jpg'' = Some [3] \<and> w_fds w' = []"
proof -
  let ?e = "\<lparr>e_malloc = \<lambda>_. True, e_open = \<lambda>_. True, e_write = id\<rparr>"
  let ?t = "\<lparr>tm_year = 112, tm_mon = 2, tm_mday = 4, tm_hour = 5, tm_min = 6, tm_sec = 7\<rparr>"
  let ?d = "\<lparr>s_pchFilePath = None, s_u32FilePathLen = 0, s_sCurIdxElem = \<lparr>u32Mon = 0, u32MDay = 0, u32SeqNo = 0\<rparr>\<rparr>"
  have names: "picture ''/dsc'' ?t (0 + 1) = ''/dsc/KRV0304001.jpg''" "picture ''/dsc'' ?t (1 + 1) = ''/dsc/KRV0304002.jpg''" by code_simp+
  obtain d' w' where "store_pictures ?e ?t ''/dsc'' 100 [[1, 2], [3]] (?d, \<lparr>w_files = \<lambda>_. None, w_fds = [], w_hidden = []\<rparr>) = Some (Inr (d', w'))"
      "w_fds w' = []" and pics: "\<forall>i < 2. w_files w' (picture ''/dsc'' ?t (i + 1)) = Some ([[1, 2], [3]] ! i)"
    using day_of_captures [of ?e ?t ?d "\<lparr>w_files = \<lambda>_. None, w_fds = [], w_hidden = []\<rparr>" "''/dsc''" "[[1, 2], [3]]" 100]
    by (auto simp: full_access_def granting_def tm_date_def dsc_wf_def)
  moreover have "w_files w' ''/dsc/KRV0304001.jpg'' = Some [1, 2]" "w_files w' ''/dsc/KRV0304002.jpg'' = Some [3]"
    using pics [rule_format, of 0] pics [rule_format, of 1] unfolding names by simp_all
  ultimately show ?thesis by blast
qed

subsection \<open>Numbers of the index file\<close>

text \<open>
  The number of the index file is not checked. Behind picture 999 comes a name with four digits,
  although the loop stops at 999; and a number of nine digits overflows the path block.
\<close>

theorem DSC_NewCapFile_after_999:
  assumes "full_access e" and "dsc_wf d" and "tm_date t" and "s_pchFilePath d = None"
    and "index_elem e folder w = Some (today t 999)" and "w_files w (picture folder t 1000) = None"
  shows "\<exists>d' w'. DSC_NewCapFile e t folder (d, w) = Some (Inr (ERR_DSC_SUCCESS, Some (new_fd w), d', w')) \<and>
    w_files w' (picture folder t 1000) = Some []"
proof -
  have g: "granting e" using assms(1) by (simp add: full_access_def)
  obtain d1 where d1: "GetDSCIndexElem e folder (d, w) = Inr (ERR_DSC_SUCCESS, d1, w)" "dsc_wf d1" "s_sCurIdxElem d1 = today t 999"
    by (rule GetDSCIndexElem_ok [OF g assms(2), of folder w]) (use assms(5) in auto)
  have seq: "first_seq t d1 = 1000" by (simp add: first_seq_def d1(3) today_def)
  have "length (dec_pad 3 1000) \<le> 5" by code_simp
  hence len: "length (picture folder t 1000) < 21 + length folder"
    using assms(3) picture_eq [of 1000 folder t] by (simp add: tm_date_def length_dec_pad del: of_nat_add of_nat_Suc)
  obtain d3 d4 where d4: "path_room e (21 + length folder) d1 = (True, d3)" "print_path (picture folder t 1000) d3 = Inr d4"
      "path_text d4 = picture folder t 1000"
    by (rule path_print [OF g d1(2) len])
  have "next_name (\<lambda>p. w_files w p \<noteq> None) folder t 1000 d4 = Some (Inr (Some 1000, d4))"
    using assms(6) d4(3) by (subst next_name.simps) simp
  thus ?thesis
    using assms(1) d4 by (simp add: DSC_NewCapFile_def d1(1) Let_def seq picture_def new_file_def open_trunc_def full_access_def)
qed

theorem DSC_NewCapFile_index_overflow:
  assumes "granting e" and "tm_date t" and "s_pchFilePath d = None"
    and "index_elem e folder w = Some (today t n)" and "99999999 \<le> n" and "n < 2147483647"
  shows "DSC_NewCapFile e t folder (d, w) = Some (Inl OutOfBounds)"
proof -
  obtain d1 where d1: "GetDSCIndexElem e folder (d, w) = Inr (ERR_DSC_SUCCESS, d1, w)" "s_sCurIdxElem d1 = today t n"
      "s_u32FilePathLen d1 = 18 + length folder"
    using assms(1,3,4)
    by (auto simp: GetDSCIndexElem_def path_room_def granting_def print_path_def index_elem_def path_text_def open_rdwr_def read_fd_def close_desc_def min_def
        split: if_splits option.splits)
  have seq: "first_seq t d1 = of_nat (Suc n)" by (simp add: first_seq_def d1(2) today_def)
  have "10 ^ 8 \<le> Suc n" using assms(5) by simp
  from length_dec_str_ge [OF this] have "9 \<le> length (dec_pad 3 (int (Suc n)))" by (simp add: dec_pad_def nat_add_distrib)
  hence "21 + length folder \<le> length (picture folder t (Suc n))"
    using assms(2,6) picture_eq [of "Suc n" folder t] by (simp add: tm_date_def length_dec_pad del: of_nat_add of_nat_Suc)
  thus ?thesis
    using assms(1) by (simp add: DSC_NewCapFile_def d1(1,3) Let_def seq path_room_def granting_def print_path_def picture_def del: of_nat_Suc)
qed

end
