(* ===== verification/VinDemo.thy ===== *)
theory VinDemo
  imports JpegEnc Dsc
begin

unbundle bit_operations_syntax

text \<open>
  The camera program src/videoin_HW/vin_demo.c: options, keypad, the two capture functions and the
  loop of \<open>main\<close>, over the capture device (V4L), the encoder (JpegEnc) and the numbering of the
  pictures (Dsc). The framebuffer is only told to be cleared, enabled and disabled, which is kept
  in a list. Each round of the loop is given what it reads from the keypad and the time.
\<close>

subsection \<open>State\<close>

definition HOME_KEY :: nat where "HOME_KEY = 19"
definition CAMERA :: nat where "CAMERA = 13"
definition VOL_PLUS_KEY :: nat where "VOL_PLUS_KEY = 175"
definition VOL_MINUS_KEY :: nat where "VOL_MINUS_KEY = 174"
definition UP_KEY :: nat where "UP_KEY = 14"
definition DOWN_KEY :: nat where "DOWN_KEY = 15"
definition LEFT_KEY :: nat where "LEFT_KEY = 1"
definition RIGHT_KEY :: nat where "RIGHT_KEY = 2"

datatype fb_ev = LCD_DISABLE | LCD_ENABLE | CLEAR_FB | FORMAT_CHANGE bool | FB_OPEN | FB_MMAP | FB_MUNMAP | FB_CLOSE | KPD_CLOSE

record kpd_event =
  k_type :: nat
  k_code :: nat
  k_value :: int

record camera =
  c_v4l :: vstate
  c_jpeg :: jstate
  c_dsc :: "dsc \<times> cam_world"
  c_fb :: "fb_ev list"
  c_zoom :: "v4l2_cropcap \<times> v4l2_rect"
  c_encode :: E_IMAGE_RESOL

text \<open>The outside, the folder and the option of the program, and the contents of uninitialised locals.\<close>

record vin_env =
  e_v4l :: v4l_env
  e_jpeg :: jpeg_env
  e_files :: cam_env
  e_statfs :: "string \<Rightarrow> nat option"
  e_thb :: E_JPEG_ENC_THB_SUPP
  e_folder :: string
  e_stack :: bytes
  e_junk :: "32 word \<times> 32 word \<times> 32 word"
  e_dump :: "bool \<times> int"

subsection \<open>Options and keypad\<close>

definition resolution :: "string \<Rightarrow> E_IMAGE_RESOL \<Rightarrow> E_IMAGE_RESOL" where
  "resolution optarg old =
     (if strcasecmp_eq optarg ''qvga'' then eIMAGE_QVGA else if strcasecmp_eq optarg ''vga'' then eIMAGE_VGA
      else if strcasecmp_eq optarg ''wqvga'' then eIMAGE_WQVGA else if strcasecmp_eq optarg ''svga'' then eIMAGE_SVGA
      else if strcasecmp_eq optarg ''hd720'' then eIMAGE_HD720 else old)"

text \<open>
  What \<open>getopt\<close> returns, letter by letter with its argument: the preview and the encoding
  resolution and the folder; \<open>None\<close> ends the program with the usage.
\<close>

fun vin_options :: "(char \<times> string) list \<Rightarrow> E_IMAGE_RESOL \<times> E_IMAGE_RESOL \<times> string option \<Rightarrow> (E_IMAGE_RESOL \<times> E_IMAGE_RESOL \<times> string option) option" where
  "vin_options [] opts = Some opts"
| "vin_options ((c, optarg) # os) (preview, encode, folder) =
     (if c = CHR ''s'' then vin_options os (resolution optarg preview, encode, folder)
      else if c = CHR ''e'' then vin_options os (preview, resolution optarg encode, folder)
      else if c = CHR ''p'' then vin_options os (preview, encode, Some (optarg @ ''/''))
      else if c = CHR ''h'' then None
      else vin_options os (preview, encode, folder))"

definition DEFAULT_SAVE_FOLDER :: string where "DEFAULT_SAVE_FOLDER = ''/mnt/nand1-2/dsc''"

definition GetKey :: "kpd_event \<Rightarrow> nat option" where
  "GetKey ev = (if k_type ev = 0 \<or> k_value ev \<noteq> 0 then None else Some (k_code ev))"

definition kpd_device :: "nat \<Rightarrow> string" where
  "kpd_device n = ''/dev/input/event'' @ [char_of (48 + n)]"

fun find_kpd :: "(string \<Rightarrow> int) \<Rightarrow> (string \<Rightarrow> string option) \<Rightarrow> nat \<Rightarrow> nat \<Rightarrow> int option" where
  "find_kpd opens nm 0 n = None"
| "find_kpd opens nm (Suc k) n =
     (if opens (kpd_device n) < 0 then None
      else (case nm (kpd_device n) of
              Some s \<Rightarrow> if \<exists>i \<le> length s. take 6 (drop i s) = ''Keypad'' then Some (opens (kpd_device n)) else find_kpd opens nm k (n + 1)
            | None \<Rightarrow> find_kpd opens nm k (n + 1)))"

definition InitKpdDevice :: "(string \<Rightarrow> int) \<Rightarrow> (string \<Rightarrow> string option) \<Rightarrow> int" where
  "InitKpdDevice opens nm = (case find_kpd opens nm RETRY_NUM 0 of Some fd \<Rightarrow> fd | None \<Rightarrow> - 1)"

subsection \<open>Capturing\<close>

definition ClearFB :: "camera \<Rightarrow> camera" where
  "ClearFB c = c\<lparr>c_fb := c_fb c @ [LCD_DISABLE, CLEAR_FB, LCD_ENABLE]\<rparr>"

definition lcd_enable :: "camera \<Rightarrow> camera" where
  "lcd_enable c = c\<lparr>c_fb := c_fb c @ [LCD_ENABLE]\<rparr>"

definition on_v4l :: "(vstate \<Rightarrow> 32 word \<times> vstate) \<Rightarrow> camera \<Rightarrow> camera" where
  "on_v4l f c = c\<lparr>c_v4l := snd (f (c_v4l c))\<rparr>"

text \<open>The label \<open>exit_capture_image\<close>.\<close>

definition exit_capture_image :: "vin_env \<Rightarrow> camera \<Rightarrow> camera" where
  "exit_capture_image e c = on_v4l (StartV4LCapture (e_v4l e)) (lcd_enable c)"

text \<open>From the encoded picture to the label: the next frame, the stop and the file.\<close>

definition save_picture :: "vin_env \<Rightarrow> tm \<Rightarrow> nat \<Rightarrow> 32 word \<Rightarrow> camera \<Rightarrow> (fault + camera) option" where
  "save_picture e t u64DiskAvailSize u32JpegEncLen c =
     (case TriggerV4LNextFrame (e_v4l e) (c_v4l c) of
        Inl f \<Rightarrow> Some (Inl f)
      | Inr (_, s) \<Rightarrow>
          (let c = on_v4l (StopV4LCapture (e_v4l e)) (c\<lparr>c_v4l := s\<rparr>);
               jpeg = take (unat u32JpegEncLen) (case s_pu8JpegEncBuf (fst (c_jpeg c)) of None \<Rightarrow> [] | Some b \<Rightarrow> b) in
           case store_picture (e_files e) t (e_folder e) u64DiskAvailSize jpeg (c_dsc c) of
             None \<Rightarrow> None
           | Some (Inl f) \<Rightarrow> Some (Inl f)
           | Some (Inr d) \<Rightarrow> Some (Inr (exit_capture_image e (c\<lparr>c_dsc := d\<rparr>)))))"

definition CaptureImage :: "vin_env \<Rightarrow> tm \<Rightarrow> E_IMAGE_RESOL \<Rightarrow> camera \<Rightarrow> (fault + camera) option" where
  "CaptureImage e t eEncodeImgResol c =
     (let c = ClearFB (on_v4l (StopPreview (e_v4l e)) c) in
      case e_statfs e (e_folder e) of
        None \<Rightarrow> Some (Inr c)
      | Some avail \<Rightarrow>
          (let c = on_v4l (StartPreview (e_v4l e)) (lcd_enable c) in
           case ReadV4LPicture (e_v4l e) (e_junk e) (c_v4l c) of
             Inl f \<Rightarrow> Some (Inl f)
           | Inr (_, pic, s) \<Rightarrow>
               (let adr = (case pic of Some (_, _, a) \<Rightarrow> a | None \<Rightarrow> fst (e_junk e));
                    (err, z, s) = QueryV4LZoomInfo (e_v4l e) (c_zoom c) s;
                    c = c\<lparr>c_v4l := s, c_zoom := z\<rparr> in
                if err \<noteq> ERR_V4L_SUCCESS then Some (Inr (exit_capture_image e c))
                else (case JpegEncFromVIN (e_jpeg e) t (e_stack e) (fst (e_junk e), fst (snd (e_junk e))) eEncodeImgResol adr (e_thb e) (snd (c_zoom c)) (c_jpeg c) of
                        Inl f \<Rightarrow> Some (Inl f)
                      | Inr (None, s) \<Rightarrow> Some (Inr (exit_capture_image e (c\<lparr>c_jpeg := s\<rparr>)))
                      | Inr (Some len, s) \<Rightarrow> save_picture e t avail len (c\<lparr>c_jpeg := s\<rparr>)))))"

definition CaptureImage_Packet :: "vin_env \<Rightarrow> tm \<Rightarrow> E_IMAGE_RESOL \<Rightarrow> camera \<Rightarrow> (fault + camera) option" where
  "CaptureImage_Packet e t eEncodeImgResol c =
     (case e_statfs e (e_folder e) of
        None \<Rightarrow> Some (Inr c)
      | Some avail \<Rightarrow>
          (let c = on_v4l (StartPreview (e_v4l e)) (lcd_enable c);
               (err, info, s) = QueryV4LPacketInformation (e_v4l e) \<lparr>i32PipeBufNo = 0, i32PipeBufSize = 0, i32CurrPipePhyAddr = sint (fst (e_junk e))\<rparr> (c_v4l c);
               c = c\<lparr>c_v4l := s\<rparr> in
           if err \<noteq> ERR_V4L_SUCCESS then Some (Inr (exit_capture_image e c))
           else (case JpegEncFromVIN_Packet (e_jpeg e) t (e_stack e) (fst (e_junk e), fst (snd (e_junk e))) eEncodeImgResol (u32_of (i32CurrPipePhyAddr info)) (e_thb e) (c_jpeg c) of
                   Inl f \<Rightarrow> Some (Inl f)
                 | Inr (None, s) \<Rightarrow> Some (Inr (exit_capture_image e (c\<lparr>c_jpeg := s\<rparr>)))
                 | Inr (Some len, s) \<Rightarrow> save_picture e t avail len (c\<lparr>c_jpeg := s\<rparr>))))"

subsection \<open>The loop\<close>

definition vin_key :: "vin_env \<Rightarrow> tm \<Rightarrow> nat \<Rightarrow> camera \<Rightarrow> (fault + camera) option" where
  "vin_key e t key c =
     (if key = CAMERA then CaptureImage e t (c_encode c) c
      else if key = VOL_PLUS_KEY then
        Some (bindr (ChangeV4LUserControl_Brigness (e_v4l e) 1 (c_v4l c)) (\<lambda>(_, s). Inr (c\<lparr>c_v4l := s\<rparr>)))
      else if key = VOL_MINUS_KEY then
        Some (bindr (ChangeV4LUserControl_Brigness (e_v4l e) (- 1) (c_v4l c)) (\<lambda>(_, s). Inr (c\<lparr>c_v4l := s\<rparr>)))
      else if key = UP_KEY then
        Some (Inr (c\<lparr>c_v4l := snd (dumpV4LBuffer (e_v4l e) \<lparr>i32PipeBufNo = 0, i32PipeBufSize = sint (fst (e_junk e)), i32CurrPipePhyAddr = 0\<rparr>
          (fst (e_dump e)) (snd (e_dump e)) (c_v4l c))\<rparr>))
      else if key = DOWN_KEY then
        (let (_, z, s) = Zooming (e_v4l e) (- 1) (c_zoom c) (c_v4l c) in Some (Inr (c\<lparr>c_v4l := s, c_zoom := z\<rparr>)))
      else if key = LEFT_KEY then
        (let (r, s) = menuChangeParameter (e_v4l e) (sint (fst (e_junk e))) (c_v4l c) in Some (Inr (c\<lparr>c_v4l := s, c_encode := r\<rparr>)))
      else if key = RIGHT_KEY then CaptureImage_Packet e t eIMAGE_QVGA c
      else Some (Inr c))"

text \<open>Refreshing the picture at the head of the loop.\<close>

definition refresh :: "vin_env \<Rightarrow> camera \<Rightarrow> fault + camera" where
  "refresh e c =
     bindr (ReadV4LPicture (e_v4l e) (e_junk e) (c_v4l c)) (\<lambda>(err, _, s).
     if err = ERR_V4L_SUCCESS then bindr (TriggerV4LNextFrame (e_v4l e) s) (\<lambda>(_, s). Inr (c\<lparr>c_v4l := s\<rparr>))
     else Inr (c\<lparr>c_v4l := s\<rparr>))"

text \<open>The rounds of the loop; the flag tells whether the key \<open>HOME\<close> ended it.\<close>

fun vin_loop :: "vin_env \<Rightarrow> (kpd_event \<times> tm) list \<Rightarrow> camera \<Rightarrow> (fault + bool \<times> camera) option" where
  "vin_loop e [] c = Some (Inr (False, c))"
| "vin_loop e ((ev, t) # evs) c =
     (case refresh e c of
        Inl f \<Rightarrow> Some (Inl f)
      | Inr c \<Rightarrow>
          (case GetKey ev of
             None \<Rightarrow> vin_loop e evs c
           | Some key \<Rightarrow>
               if key = HOME_KEY then Some (Inr (True, c))
               else (case vin_key e t key c of
                       None \<Rightarrow> None
                     | Some (Inl f) \<Rightarrow> Some (Inl f)
                     | Some (Inr c) \<Rightarrow> vin_loop e evs c)))"

subsection \<open>Start and end\<close>

text \<open>
  The framebuffer device: \<open>OSDCheckExist\<close> is the constant 0. The arguments are the descriptor, the size
  of the screen if the driver gives it, and whether \<open>mmap\<close> succeeds.
\<close>

definition InitFBDevice :: "int \<Rightarrow> (int \<times> int) option \<Rightarrow> bool \<Rightarrow> int \<times> fb_ev list" where
  "InitFBDevice fd screen_size mapped =
     (if fd < 0 then (- 1, [])
      else if screen_size = None then (- 1, [FB_OPEN, FB_CLOSE])
      else if \<not> mapped then (- 1, [FB_OPEN, FB_CLOSE])
      else (fd, [FB_OPEN, FB_MMAP, LCD_DISABLE, FORMAT_CHANGE True, LCD_ENABLE]))"

definition preview_size :: "E_IMAGE_RESOL \<Rightarrow> int \<times> int" where
  "preview_size r = (let (w, h) = encode_size r in (sint w, sint h))"

text \<open>
  From the framebuffer to the first preview; the keypad is open. The flag tells whether the loop is
  reached. The numbers of the standard controls and the first private one are constants of the
  kernel headers.
\<close>

definition vin_start :: "vin_env \<Rightarrow> int \<Rightarrow> (int \<times> int) option \<Rightarrow> bool \<Rightarrow> bool \<Rightarrow> 32 word list \<Rightarrow> 32 word \<Rightarrow> E_IMAGE_RESOL \<Rightarrow> camera \<Rightarrow> (fault + bool \<times> camera) option" where
  "vin_start e fd screen_size mapped capture_junk standard private_base preview c =
     (let (fbfd, evs) = InitFBDevice fd screen_size mapped; c = c\<lparr>c_fb := c_fb c @ evs\<rparr> in
      if fbfd < 0 then Some (Inr (False, c\<lparr>c_fb := c_fb c @ [KPD_CLOSE]\<rparr>))
      else (case InitV4LDevice (e_v4l e) capture_junk (c_encode c) (c_v4l c) of
              Inl f \<Rightarrow> Some (Inl f)
            | Inr (err, s) \<Rightarrow>
                (let c = c\<lparr>c_v4l := s\<rparr> in
                 if err \<noteq> ERR_V4L_SUCCESS then
                   Some (Inr (False, c\<lparr>c_fb := c_fb c @ [LCD_DISABLE, FORMAT_CHANGE False, LCD_ENABLE, FB_MUNMAP, FB_CLOSE, KPD_CLOSE]\<rparr>))
                 else
                   let (jfd, j) = InitJpegDevice (e_jpeg e) (c_encode c) (c_jpeg c); c = c\<lparr>c_jpeg := j\<rparr> in
                   if jfd < 0 then
                     Some (Inr (False, c\<lparr>c_v4l := FinializeV4LDevice (c_v4l c), c_fb := c_fb c @ [FB_MUNMAP, FB_CLOSE, KPD_CLOSE]\<rparr>))
                   else
                     let c = lcd_enable c;
                         (w, h) = preview_size (c_encode c);
                         c = on_v4l (SetV4LEncode (e_v4l e) 0 w h VIDEO_PALETTE_YUV422P) c;
                         (lw, lh) = the screen_size;
                         (pw, ph) = preview_size preview;
                         c = lcd_enable (on_v4l (StartV4LCapture (e_v4l e)) (on_v4l (SetV4LViewWindow (e_v4l e) lw lh pw ph) c)) in
                     (case QueryV4LUserControl (e_v4l e) standard private_base (c_v4l c) of
                        None \<Rightarrow> None
                      | Some (Inl f) \<Rightarrow> Some (Inl f)
                      | Some (Inr (_, s)) \<Rightarrow>
                          let (_, _, s) = QueryV4LSensorID (e_v4l e) 0 s in
                          Some (Inr (True, on_v4l (StartPreview (e_v4l e)) (c\<lparr>c_v4l := s\<rparr>)))))))"

text \<open>What \<open>main\<close> does behind the loop.\<close>

definition vin_close :: "camera \<Rightarrow> camera" where
  "vin_close c = c\<lparr>c_jpeg := FinializeJpegDevice (c_jpeg c), c_v4l := FinializeV4LDevice (c_v4l c),
     c_fb := c_fb c @ [FB_MUNMAP, FORMAT_CHANGE False, FB_CLOSE, KPD_CLOSE]\<rparr>"

subsection \<open>The capture device in the loop\<close>

text \<open>The current frame is one of the mapped ones.\<close>

definition v_ok :: "vstate \<Rightarrow> bool" where
  "v_ok s \<longleftrightarrow> (let v = fst s in 0 < mb_frames (sVidMBufs v) \<and> mb_frames (sVidMBufs v) \<le> int (length (mb_offsets (sVidMBufs v))) \<and>
     mb_frames (sVidMBufs v) < 2147483648 \<and> 0 \<le> i32VidFrame v \<and> i32VidFrame v < mb_frames (sVidMBufs v))"

lemma v_okE:
  assumes "v_ok (v, l)"
  obtains m j where "mb_frames (sVidMBufs v) = int m" "0 < m" "m \<le> length (mb_offsets (sVidMBufs v))" "m < 2147483648" "i32VidFrame v = int j" "j < m"
  using that [of "nat (mb_frames (sVidMBufs v))" "nat (i32VidFrame v)"] assms by (simp add: v_ok_def Let_def nat_less_iff nat_le_iff)

lemma v_ok_request [simp]: "v_ok s \<Longrightarrow> v_ok (snd (request e q err s))"
  by (cases s) (auto simp: request_def v_ok_def split: prod.split)

lemma v_ok_start [simp]: "v_ok s \<Longrightarrow> v_ok (snd (StartV4LCapture e s))"
  using v_ok_request [of s e "VIDIOCCAPTURE VIDEO_START" ERR_V4L_VID_CAPTURE]
  by (cases "request e (VIDIOCCAPTURE VIDEO_START) ERR_V4L_VID_CAPTURE s") (auto simp: StartV4LCapture_def v_ok_def)

lemma Read_v_ok:
  assumes "frame_driver e" and "v_ok s"
  obtains pic s' where "ReadV4LPicture e junk s = Inr (ERR_V4L_SUCCESS, Some pic, s')" "v_ok s'"
proof -
  obtain v l where s: "s = (v, l)" by (cases s)
  obtain m j where m: "mb_frames (sVidMBufs v) = int m" "0 < m" "m \<le> length (mb_offsets (sVidMBufs v))" "m < 2147483648" "i32VidFrame v = int j" "j < m"
    using assms(2) unfolding s by (rule v_okE)
  show ?thesis
    by (rule ReadV4LPicture_ok [OF assms(1) m(5), of junk l]) (use m that in \<open>auto simp: s v_ok_def\<close>)
qed

lemma Trigger_v_ok:
  assumes "frame_driver e" and "v_ok s"
  obtains s' where "TriggerV4LNextFrame e s = Inr (ERR_V4L_SUCCESS, s')" "v_ok s'"
proof -
  obtain v l where s: "s = (v, l)" by (cases s)
  obtain m j where m: "mb_frames (sVidMBufs v) = int m" "0 < m" "m \<le> length (mb_offsets (sVidMBufs v))" "m < 2147483648" "i32VidFrame v = int j" "j < m"
    using assms(2) unfolding s by (rule v_okE)
  have "(j + 1) mod m < m" using m(2) by simp
  hence less: "int ((j + 1) mod m) < int m" by (simp only: of_nat_less_iff)
  show ?thesis
    by (rule TriggerV4LNextFrame_ok [OF assms(1) m(1,2,4,5,6), of l]) (use m that less in \<open>auto simp: s v_ok_def\<close>)
qed

subsection \<open>The encoder\<close>

definition shots :: "jpeg_ev list \<Rightarrow> nat" where
  "shots l = length (filter (\<lambda>x. x = JRead) l)"

lemma shots_simps [simp]: "shots [] = 0" "shots (l @ l') = shots l + shots l'" "shots (x # l) = (if x = JRead then 1 else 0) + shots l"
  by (simp_all add: shots_def)

text \<open>An engine that grants every request and gives the pictures \<open>pic 0\<close>, \<open>pic 1\<close> and so on.\<close>

definition engine_gives :: "jpeg_env \<Rightarrow> (nat \<Rightarrow> bytes) \<Rightarrow> bool" where
  "engine_gives e pic \<longleftrightarrow> (\<forall>l q b. j_driver e l q \<noteq> JFails \<and> length (pic (shots l)) < 4294967296 \<and>
     (\<exists>rest. j_read e l b = Some (of_nat (length (pic (shots l))), pic (shots l) @ rest)))"

lemma run_engine_gives:
  assumes "engine_gives e pic" and "s_pu8JpegEncBuf j = Some b"
  obtains j' l' rest where "run_engine e eJPEG_ENC_THB_NONE t stack junk (j, l) = Inr (Some (of_nat (length (pic (shots l)))), j', l')"
    "s_pu8JpegEncBuf j' = Some (pic (shots l) @ rest)" "shots l' = shots l + 1"
proof -
  let ?l = "l @ [JIoctl (JPEG_S_PARAM (s_sJpegParam j)), JIoctl JPEG_TRIGGER]"
  obtain rest where "j_read e ?l b = Some (of_nat (length (pic (shots ?l))), pic (shots ?l) @ rest)"
    using assms(1) unfolding engine_gives_def by blast
  thus ?thesis
    using assms that [of "j\<lparr>s_pu8JpegEncBuf := Some (pic (shots l) @ rest)\<rparr>" "?l @ [JRead]" rest]
    by (simp add: run_engine_def j_ioctl_def engine_gives_def put_exif_def)
qed

lemma JpegEncFromVIN_gives:
  assumes "engine_gives e pic" and "s_pu8JpegEncBuf j = Some b"
  obtains j' l' rest where "JpegEncFromVIN e t stack junk res y eJPEG_ENC_THB_NONE crop (j, l) = Inr (Some (of_nat (length (pic (shots l)))), j', l')"
    "s_pu8JpegEncBuf j' = Some (pic (shots l) @ rest)" "shots l' = shots l + 1"
proof -
  obtain w h where wh: "encode_size res = (w, h)" by (cases "encode_size res")
  obtain u v where uv: "planes w h crop y = (u, v)" by (cases "planes w h crop y")
  obtain j1 l1 where run: "JpegEncFromVIN e t stack junk res y eJPEG_ENC_THB_NONE crop (j, l) = run_engine e eJPEG_ENC_THB_NONE t stack junk (j1, l1)"
      and b1: "s_pu8JpegEncBuf j1 = Some b" and l1: "shots l1 = shots l"
  proof (cases "u32_of (r_width crop) < w \<or> u32_of (r_height crop) < h")
    case True
    show ?thesis
      by (rule that) (use assms True in \<open>simp add: JpegEncFromVIN_def wh uv j_ioctl_def engine_gives_def reserve_def Let_def; fail\<close>)+
  next
    case False
    show ?thesis
      by (rule that) (use assms False in \<open>simp add: JpegEncFromVIN_def wh uv j_ioctl_def engine_gives_def reserve_def Let_def; fail\<close>)+
  qed
  show ?thesis
    by (rule run_engine_gives [OF assms(1) b1, of t stack junk l1]) (use run l1 that in auto)
qed

subsection \<open>A capture\<close>

definition same_day :: "tm \<Rightarrow> tm \<Rightarrow> bool" where
  "same_day t t' \<longleftrightarrow> tm_mon t = tm_mon t' \<and> tm_mday t = tm_mday t'"

lemma same_dayD:
  assumes "same_day t t'"
  shows "picture folder t = picture folder t'" "today t = today t'" "at_number e folder t = at_number e folder t'" "tm_date t = tm_date t'"
proof -
  show p: "picture folder t = picture folder t'" and d: "today t = today t'" "tm_date t = tm_date t'"
    using assms by (simp_all add: fun_eq_iff same_day_def picture_def cap_name_def today_def month_no_def day_no_def tm_date_def)
  show "at_number e folder t = at_number e folder t'" by (simp add: fun_eq_iff at_number_def p d)
qed

text \<open>Drivers that grant what the loop asks for, and a folder with room.\<close>

definition camera_ready :: "vin_env \<Rightarrow> (nat \<Rightarrow> bytes) \<Rightarrow> nat \<Rightarrow> bool" where
  "camera_ready e pic avail \<longleftrightarrow> frame_driver (e_v4l e) \<and>
     (\<forall>l. \<not> fails (driver (e_v4l e) l VIDIOC_CROPCAP) \<and> \<not> fails (driver (e_v4l e) l VIDIOC_G_CROP)) \<and>
     engine_gives (e_jpeg e) pic \<and> full_access (e_files e) \<and> e_thb e = eJPEG_ENC_THB_NONE \<and>
     e_statfs e (e_folder e) = Some avail \<and> (\<forall>i. length (pic i) < avail)"

definition cam_ok :: "camera \<Rightarrow> bool" where
  "cam_ok c \<longleftrightarrow> v_ok (c_v4l c) \<and> s_pu8JpegEncBuf (fst (c_jpeg c)) \<noteq> None \<and> dsc_wf (fst (c_dsc c))"

lemma refresh_ok:
  assumes "camera_ready e pic avail" and "cam_ok c"
  obtains s where "refresh e c = Inr (c\<lparr>c_v4l := s\<rparr>)" "cam_ok (c\<lparr>c_v4l := s\<rparr>)"
proof -
  have f: "frame_driver (e_v4l e)" and v: "v_ok (c_v4l c)" using assms by (simp_all add: camera_ready_def cam_ok_def)
  obtain p s1 where s1: "ReadV4LPicture (e_v4l e) (e_junk e) (c_v4l c) = Inr (ERR_V4L_SUCCESS, Some p, s1)" "v_ok s1"
    by (rule Read_v_ok [OF f v])
  obtain s2 where "TriggerV4LNextFrame (e_v4l e) s1 = Inr (ERR_V4L_SUCCESS, s2)" "v_ok s2" by (rule Trigger_v_ok [OF f s1(2)])
  thus ?thesis using s1(1) assms(2) that [of s2] by (simp add: refresh_def cam_ok_def)
qed

lemma Query_v_ok:
  assumes "camera_ready e pic avail" and "v_ok s"
  obtains z' s' where "QueryV4LZoomInfo (e_v4l e) z s = (ERR_V4L_SUCCESS, z', s')" "v_ok s'"
  using assms that by (cases s; cases z) (simp add: QueryV4LZoomInfo_def ioctl_def camera_ready_def v_ok_def)

lemma v_ok_on [simp]:
  "v_ok s \<Longrightarrow> v_ok (snd (StopPreview e s))" "v_ok s \<Longrightarrow> v_ok (snd (StartPreview e s))" "v_ok s \<Longrightarrow> v_ok (snd (StopV4LCapture e s))"
  by (simp_all add: StopPreview_def StartPreview_def StopV4LCapture_def)

text \<open>Storing the encoded picture as the next one of the day.\<close>

lemma save_picture_next:
  assumes "camera_ready e pic avail" and "cam_ok c" and "tm_date t" and "at_number (e_files e) (e_folder e) t k (snd (c_dsc c))" and "k < 999"
    and "s_pu8JpegEncBuf (fst (c_jpeg c)) = Some (pic n @ rest)"
  obtains c' where "save_picture e t avail (of_nat (length (pic n))) c = Some (Inr c')" "cam_ok c'" "c_jpeg c' = c_jpeg c" "c_encode c' = c_encode c"
    "at_number (e_files e) (e_folder e) t (Suc k) (snd (c_dsc c'))" "w_fds (snd (c_dsc c')) = w_fds (snd (c_dsc c))"
    "w_files (snd (c_dsc c')) = (w_files (snd (c_dsc c)))(picture (e_folder e) t (Suc k) \<mapsto> pic n, index_path (e_folder e) \<mapsto> elem_bytes (today t (Suc k)))"
proof -
  have f: "frame_driver (e_v4l e)" and a: "full_access (e_files e)" and len: "length (pic n) < avail" and v: "v_ok (c_v4l c)" and wf: "dsc_wf (fst (c_dsc c))"
    using assms(1,2) by (simp_all add: camera_ready_def cam_ok_def)
  obtain d w where dw: "c_dsc c = (d, w)" by (cases "c_dsc c")
  obtain s where s: "TriggerV4LNextFrame (e_v4l e) (c_v4l c) = Inr (ERR_V4L_SUCCESS, s)" "v_ok s" by (rule Trigger_v_ok [OF f v])
  let ?w = "w\<lparr>w_files := (w_files w)(picture (e_folder e) t (Suc k) \<mapsto> pic n, index_path (e_folder e) \<mapsto> elem_bytes (today t (Suc k))),
      w_hidden := index_path (e_folder e) # w_hidden w\<rparr>"
  obtain d' where d': "dsc_wf d'" "store_picture (e_files e) t (e_folder e) avail (pic n) (d, w) = Some (Inr (d', ?w))"
    by (rule store_picture_next [OF a, of d t "e_folder e" k w "pic n" avail]) (use assms(3-5) len wf dw in auto)
  have "shots (replicate n JRead) = n" by (induction n) simp_all
  moreover have "length (pic (shots (replicate n JRead))) < 4294967296" using assms(1) by (simp add: camera_ready_def engine_gives_def)
  ultimately have "unat (of_nat (length (pic n)) :: 32 word) = length (pic n)" by (simp add: unat_of_nat)
  hence j: "take (unat (of_nat (length (pic n)) :: 32 word)) (pic n @ rest) = pic n" by simp
  let ?c = "exit_capture_image e (on_v4l (StopV4LCapture (e_v4l e)) (c\<lparr>c_v4l := s\<rparr>)\<lparr>c_dsc := (d', ?w)\<rparr>)"
  have run: "save_picture e t avail (of_nat (length (pic n))) c = Some (Inr ?c)"
    using j d'(2) by (simp add: save_picture_def s(1) on_v4l_def assms(6) dw)
  have "cam_ok ?c" using s(2) d'(1) assms(6) by (simp add: cam_ok_def exit_capture_image_def on_v4l_def lcd_enable_def)
  moreover have "at_number (e_files e) (e_folder e) t (Suc k) ?w"
    using at_number_next [OF a, of "e_folder e" t k w "pic n"] assms(4,5) dw by simp
  ultimately show ?thesis
    by (intro that [OF run]) (simp_all add: exit_capture_image_def on_v4l_def lcd_enable_def dw)
qed

lemma CaptureImage_next:
  assumes "camera_ready e pic avail" and "cam_ok c" and "tm_date t" and "at_number (e_files e) (e_folder e) t k (snd (c_dsc c))" and "k < 999"
    and "shots (snd (c_jpeg c)) = n"
  obtains c' where "CaptureImage e t res c = Some (Inr c')" "cam_ok c'" "shots (snd (c_jpeg c')) = n + 1"
    "at_number (e_files e) (e_folder e) t (Suc k) (snd (c_dsc c'))" "w_fds (snd (c_dsc c')) = w_fds (snd (c_dsc c))"
    "w_files (snd (c_dsc c')) = (w_files (snd (c_dsc c)))(picture (e_folder e) t (Suc k) \<mapsto> pic n, index_path (e_folder e) \<mapsto> elem_bytes (today t (Suc k)))"
proof -
  have f: "frame_driver (e_v4l e)" and g: "engine_gives (e_jpeg e) pic" and st: "e_statfs e (e_folder e) = Some avail" and thb: "e_thb e = eJPEG_ENC_THB_NONE"
    using assms(1) by (simp_all add: camera_ready_def)
  obtain j l b where j: "c_jpeg c = (j, l)" "s_pu8JpegEncBuf j = Some b" using assms(2) by (cases "c_jpeg c") (auto simp: cam_ok_def)
  define c1 where "c1 = on_v4l (StartPreview (e_v4l e)) (lcd_enable (ClearFB (on_v4l (StopPreview (e_v4l e)) c)))"
  have c1: "cam_ok c1" "c_jpeg c1 = (j, l)" "c_dsc c1 = c_dsc c"
    using assms(2) j(1) by (simp_all add: c1_def cam_ok_def on_v4l_def lcd_enable_def ClearFB_def)
  obtain p s1 where s1: "ReadV4LPicture (e_v4l e) (e_junk e) (c_v4l c1) = Inr (ERR_V4L_SUCCESS, Some p, s1)" "v_ok s1"
    by (rule Read_v_ok [OF f, of "c_v4l c1" "e_junk e"]) (use c1(1) in \<open>auto simp: cam_ok_def\<close>)
  obtain z s2 where s2: "QueryV4LZoomInfo (e_v4l e) (c_zoom c1) s1 = (ERR_V4L_SUCCESS, z, s2)" "v_ok s2"
    by (rule Query_v_ok [OF assms(1) s1(2)])
  obtain x y adr where p: "p = (x, y, adr)" by (cases p)
  obtain j' l' rest where j': "JpegEncFromVIN (e_jpeg e) t (e_stack e) (fst (e_junk e), fst (snd (e_junk e))) res adr eJPEG_ENC_THB_NONE (snd z) (j, l) =
      Inr (Some (of_nat (length (pic (shots l)))), j', l')" "s_pu8JpegEncBuf j' = Some (pic (shots l) @ rest)" "shots l' = shots l + 1"
    by (rule JpegEncFromVIN_gives [OF g j(2)])
  let ?c = "c1\<lparr>c_v4l := s2, c_zoom := z, c_jpeg := (j', l')\<rparr>"
  have n: "shots l = n" using assms(6) j(1) by simp
  obtain c' where c': "save_picture e t avail (of_nat (length (pic n))) ?c = Some (Inr c')" "cam_ok c'" "c_jpeg c' = (j', l')"
      "at_number (e_files e) (e_folder e) t (Suc k) (snd (c_dsc c'))" "w_fds (snd (c_dsc c')) = w_fds (snd (c_dsc c))"
      "w_files (snd (c_dsc c')) = (w_files (snd (c_dsc c)))(picture (e_folder e) t (Suc k) \<mapsto> pic n, index_path (e_folder e) \<mapsto> elem_bytes (today t (Suc k)))"
    by (rule save_picture_next [OF assms(1) _ assms(3), of ?c k n rest]) (use assms(2,4,5) c1 s2(2) j'(2) n in \<open>auto simp: cam_ok_def\<close>)
  have "CaptureImage e t res c = Some (Inr c')"
    using s1(1) s2(1) j'(1) c'(1) n c1(2) by (simp add: CaptureImage_def st thb p flip: c1_def)
  thus ?thesis using that c' j'(3) n by simp
qed

subsection \<open>A session\<close>

definition click :: "kpd_event \<times> tm \<Rightarrow> bool" where
  "click x \<longleftrightarrow> GetKey (fst x) = Some CAMERA"

definition clicks :: "(kpd_event \<times> tm) list \<Rightarrow> nat" where
  "clicks evs = length (filter click evs)"

lemma vin_loop_clicks:
  assumes "camera_ready e pic avail" and "tm_date t"
    and "GetKey ev = Some HOME_KEY"
  shows "cam_ok c \<Longrightarrow> at_number (e_files e) (e_folder e) t k (snd (c_dsc c)) \<Longrightarrow> shots (snd (c_jpeg c)) = n \<Longrightarrow>
    \<forall>x \<in> set evs. same_day (snd x) t \<and> (GetKey (fst x) = None \<or> click x) \<Longrightarrow> k + clicks evs \<le> 999 \<Longrightarrow>
    \<exists>c'. vin_loop e (evs @ (ev, t') # more_evs) c = Some (Inr (True, c')) \<and> w_fds (snd (c_dsc c')) = w_fds (snd (c_dsc c)) \<and>
      at_number (e_files e) (e_folder e) t (k + clicks evs) (snd (c_dsc c')) \<and>
      (\<forall>i < clicks evs. w_files (snd (c_dsc c')) (picture (e_folder e) t (k + i + 1)) = Some (pic (n + i))) \<and>
      (\<forall>p. p \<noteq> index_path (e_folder e) \<and> p \<notin> picture (e_folder e) t ` {k <.. k + clicks evs} \<longrightarrow> w_files (snd (c_dsc c')) p = w_files (snd (c_dsc c)) p)"
proof (induction evs arbitrary: c k n)
  case Nil
  obtain s where "refresh e c = Inr (c\<lparr>c_v4l := s\<rparr>)" by (rule refresh_ok [OF assms(1) Nil.prems(1)])
  thus ?case using Nil.prems(2) assms(3) by (simp add: clicks_def)
next
  case (Cons x evs)
  obtain ev1 t1 where x: "x = (ev1, t1)" by (cases x)
  have rest: "\<forall>x \<in> set evs. same_day (snd x) t \<and> (GetKey (fst x) = None \<or> click x)" using Cons.prems(4) by simp
  obtain s where s: "refresh e c = Inr (c\<lparr>c_v4l := s\<rparr>)" "cam_ok (c\<lparr>c_v4l := s\<rparr>)" by (rule refresh_ok [OF assms(1) Cons.prems(1)])
  show ?case
  proof (cases "click x")
    case False
    hence "GetKey ev1 = None" "clicks (x # evs) = clicks evs" using Cons.prems(4) x by (simp_all add: clicks_def)
    thus ?thesis using Cons.IH [OF s(2), of k n] Cons.prems(2,3,5) rest s(1) x by simp
  next
    case True
    hence cl: "clicks (x # evs) = Suc (clicks evs)" and key: "GetKey ev1 = Some CAMERA" and k: "k < 999" and day: "same_day t1 t"
      using Cons.prems(4,5) x by (simp_all add: clicks_def click_def)
    note same = same_dayD [OF day]
    obtain c1 where c1: "CaptureImage e t1 (c_encode c) (c\<lparr>c_v4l := s\<rparr>) = Some (Inr c1)" "cam_ok c1" "shots (snd (c_jpeg c1)) = n + 1"
        "at_number (e_files e) (e_folder e) t (Suc k) (snd (c_dsc c1))" "w_fds (snd (c_dsc c1)) = w_fds (snd (c_dsc c))"
        "w_files (snd (c_dsc c1)) = (w_files (snd (c_dsc c)))(picture (e_folder e) t (Suc k) \<mapsto> pic n, index_path (e_folder e) \<mapsto> elem_bytes (today t (Suc k)))"
      by (rule CaptureImage_next [OF assms(1) s(2), of t1 k n "c_encode c"]) (use assms(2) Cons.prems(2,3) k same in auto)
    obtain c' where c': "vin_loop e (evs @ (ev, t') # more_evs) c1 = Some (Inr (True, c'))" "w_fds (snd (c_dsc c')) = w_fds (snd (c_dsc c))"
        "at_number (e_files e) (e_folder e) t (Suc k + clicks evs) (snd (c_dsc c'))"
        "\<And>i. i < clicks evs \<Longrightarrow> w_files (snd (c_dsc c')) (picture (e_folder e) t (Suc k + i + 1)) = Some (pic (n + 1 + i))"
        "\<And>p. p \<noteq> index_path (e_folder e) \<Longrightarrow> p \<notin> picture (e_folder e) t ` {Suc k <.. Suc k + clicks evs} \<Longrightarrow> w_files (snd (c_dsc c')) p = w_files (snd (c_dsc c1)) p"
      using Cons.IH [OF c1(2,4,3) rest] Cons.prems(5) cl c1(5) by auto
    have run: "vin_loop e ((x # evs) @ (ev, t') # more_evs) c = Some (Inr (True, c'))"
      using s(1) key c1(1) c'(1) x by (simp add: vin_key_def CAMERA_def HOME_KEY_def)
    have "picture (e_folder e) t (Suc k) \<notin> picture (e_folder e) t ` {Suc k <.. Suc k + clicks evs}"
      using Cons.prems(5) cl by (auto simp: picture_inject)
    hence here: "w_files (snd (c_dsc c')) (picture (e_folder e) t (Suc k)) = Some (pic n)"
      using c'(5) [of "picture (e_folder e) t (Suc k)"] k c1(6) by (simp add: picture_not_index)
    have "w_files (snd (c_dsc c')) (picture (e_folder e) t (k + i + 1)) = Some (pic (n + i))" if "i < clicks (x # evs)" for i
      using that here c'(4) [of "i - 1"] cl by (cases i) simp_all
    moreover have "w_files (snd (c_dsc c')) p = w_files (snd (c_dsc c)) p"
      if "p \<noteq> index_path (e_folder e)" "p \<notin> picture (e_folder e) t ` {k <.. k + clicks (x # evs)}" for p
    proof -
      have "p \<noteq> picture (e_folder e) t (Suc k)" "p \<notin> picture (e_folder e) t ` {Suc k <.. Suc k + clicks evs}" using that(2) cl by auto
      thus ?thesis using c'(5) [of p] that(1) c1(6) by simp
    qed
    ultimately show ?thesis using run c'(2,3) cl by auto
  qed
qed


definition sample_day :: tm where
  "sample_day = \<lparr>tm_year = 112, tm_mon = 2, tm_mday = 4, tm_hour = 5, tm_min = 6, tm_sec = 7\<rparr>"

definition sample_vin :: vin_env where
  "sample_vin = \<lparr>e_v4l = sample_env,
     e_jpeg = \<lparr>j_open = \<lambda>_. 4, j_malloc = True, j_mmap = \<lambda>_. Some [], j_driver = \<lambda>_ _. JDone,
       j_read = \<lambda>l b. Some (1, [of_nat (shots l)])\<rparr>,
     e_files = \<lparr>e_malloc = \<lambda>_. True, e_open = \<lambda>_. True, e_write = id\<rparr>, e_statfs = \<lambda>_. Some 1000,
     e_thb = eJPEG_ENC_THB_NONE, e_folder = ''/dsc'', e_stack = [], e_junk = (0, 0, 0), e_dump = (True, 0)\<rparr>"

definition sample_camera :: camera where
  "sample_camera = \<lparr>c_v4l = (sample_vid, []),
     c_jpeg = (\<lparr>s_pu8JpegEncBuf = Some [], s_i32JpegFd = 4, s_u32JpegBufSize = 0, s_sJpegParam = initial_param eIMAGE_VGA, s_pJpegInfo = True\<rparr>, []),
     c_dsc = (\<lparr>s_pchFilePath = None, s_u32FilePathLen = 0, s_sCurIdxElem = \<lparr>u32Mon = 0, u32MDay = 0, u32SeqNo = 0\<rparr>\<rparr>,
       \<lparr>w_files = \<lambda>_. None, w_fds = [], w_hidden = []\<rparr>),
     c_fb = [], c_zoom = (vga_cap, defrect vga_cap), c_encode = eIMAGE_VGA\<rparr>"


subsection \<open>A start that fails\<close>

text \<open>
  Where the start fails, the framebuffer and the keypad are closed as often as they were opened; but
  behind a failure of the encoder the format of the display stays changed.
\<close>

lemma InitV4L_fb: "InitFBDevice fd sz mapped = (fbfd, evs) \<Longrightarrow>
   count_list evs FB_OPEN = (if fbfd < 0 then count_list evs FB_CLOSE else 1) \<and> (0 \<le> fbfd \<longrightarrow> count_list evs FB_CLOSE = 0) \<and> count_list evs KPD_CLOSE = 0"
  by (auto simp: InitFBDevice_def split: if_splits)

theorem vin_start_fails_clean:
  assumes "vin_start e fd sz mapped junk standard base preview c = Some (Inr (False, c'))" and "c_fb c = []"
  shows "count_list (c_fb c') FB_OPEN = count_list (c_fb c') FB_CLOSE \<and> count_list (c_fb c') KPD_CLOSE = 1"
proof -
  obtain fbfd evs where fb: "InitFBDevice fd sz mapped = (fbfd, evs)" by (cases "InitFBDevice fd sz mapped")
  note count = InitV4L_fb [OF fb]
  show ?thesis
    using assms count
    by (auto simp: vin_start_def fb Let_def split: if_splits sum.splits prod.splits option.splits)
qed

text \<open>Where \<open>statfs\<close> fails, the capture returns with the preview stopped.\<close>

theorem CaptureImage_statfs_fails:
  assumes "e_statfs e (e_folder e) = None"
  shows "\<exists>c'. CaptureImage e t res c = Some (Inr c') \<and> snd (c_v4l c') = snd (c_v4l c) @ [Ioctl (VIDIOCSPREVIEW 0)] \<and> c_dsc c' = c_dsc c"
  using assms by (cases "c_v4l c") (simp add: CaptureImage_def ClearFB_def on_v4l_def StopPreview_def request_def ioctl_def)

end
