(* ===== verification/TsPrint.thy ===== *)
theory TsPrint
  imports CalProgram
begin

text \<open>
  The programs src/tslib-1.1/tests/ts_print.c and ts_print_raw.c: they print every sample they read until a read
  fails. They differ in the function that reads.
\<close>

definition pad6 :: "int \<Rightarrow> string" where
  "pad6 v = replicate (6 - length (dec_int v)) CHR '' '' @ dec_int v"

definition print_sample :: "ts_sample \<Rightarrow> string" where
  "print_sample samp =
     dec_int (tv_sec (samp_tv samp)) @ ''.'' @ dec_pad 6 (tv_usec (samp_tv samp)) @ '': '' @
     pad6 (samp_x samp) @ '' '' @ pad6 (samp_y samp) @ '' '' @ pad6 (sint (samp_pressure samp)) @ [CHR 0x0A]"

text \<open>The text that has been printed when the program ends; the loop has no other end than a failing read.\<close>

partial_function (option) print_loop :: "'a reader \<Rightarrow> ts_sample \<Rightarrow> string \<Rightarrow> 'a \<times> world \<Rightarrow> (fault + string) option" where
  "print_loop rd samp out s =
     (case rd s [samp] 1 of
        Inl e \<Rightarrow> Some (Inl e)
      | Inr (ret, buf, s') \<Rightarrow>
          if ret < 0 then Some (Inr out)
          else if ret \<noteq> 1 then print_loop rd (hd buf) out s'
          else print_loop rd (hd buf) (out @ print_sample (hd buf)) s')"

definition print_main ::
  "bool \<Rightarrow> ts_sample \<Rightarrow> (string \<Rightarrow> int \<Rightarrow> int \<times> int) \<Rightarrow> bool \<Rightarrow> string option \<Rightarrow> ts_env \<Rightarrow> world \<Rightarrow> (fault + string) option" where
  "print_main raw junk openf malloc_ok tsdevice env w =
     (case open_device openf malloc_ok tsdevice 0 of
        None \<Rightarrow> Some (Inl (ProcessExit 1))
      | Some stA \<Rightarrow>
          (case ts_config env stA of
             Inl e \<Rightarrow> Some (Inl e)
           | Inr (ret, st) \<Rightarrow>
               if ret \<noteq> 0 then Some (Inl (ProcessExit 1))
               else
                 print_loop (if raw then ts_read_raw junk (st_brk st + 1) (st_list_raw st) else ts_read junk (st_brk st + 1) (st_list st))
                   junk [] (st_heap st, w\<lparr>w_dev := st_dev st\<rparr>)))"

text \<open>Every sample up to the failing read is printed, in order and once.\<close>

theorem print_loop_prints:
  assumes "yields rd s samps s'" and "\<And>c. \<exists>buf s1. rd s' [c] 1 = Inr (- 1, buf, s1)"
  shows "print_loop rd samp out s = Some (Inr (out @ concat (map print_sample samps)))"
  using assms
proof (induction arbitrary: samp out rule: yields.induct)
  case (yields_Nil s)
  obtain buf s1 where "rd s [samp] 1 = Inr (- 1, buf, s1)" using yields_Nil by blast
  thus ?case by (subst print_loop.simps) simp
next
  case (yields_Cons s v s1 vs s')
  show ?case using yields_Cons.IH [OF yields_Cons.prems, of v "out @ print_sample v"]
    by (subst print_loop.simps) (simp add: yields_Cons.hyps(1))
qed

end
