(* ===== verification/Harvest.thy ===== *)
theory Harvest
  imports TsTest
begin

unbundle bit_operations_syntax

text \<open>
  The harvesting program src/tslib-1.1/tests/ts_harvest.c: crosses are shown at the points of a grid that is
  wide in the middle of the screen and narrow at its edges, and each is touched. The grid is computed on the way
  with unsigned positions and a signed increment; here it is shown which points it has and that the
  loops end.
\<close>

subsection \<open>Drawing\<close>

definition harvest_palette :: "32 word list" where
  "harvest_palette = [0x000000, 0xffe080, 0xffffff, 0xe0c0a0, 0x304050, 0x80b8c0]"

definition X_STEP :: "32 word" where "X_STEP = 10"
definition Y_STEP :: "32 word" where "Y_STEP = 10"

definition harvest_refresh :: "framebuffer \<Rightarrow> fault + framebuffer" where
  "harvest_refresh fb = fillrect 0 0 (sint (xres fb - 1)) (sint (yres fb - 1)) 0 fb"

definition ts_harvest_put_cross :: "int \<Rightarrow> int \<Rightarrow> 32 word \<Rightarrow> framebuffer \<Rightarrow> fault + framebuffer" where
  "ts_harvest_put_cross x y colidx = seqr
     [line (x - 10) y (x - 2) y colidx,
      line (x + 2) y (x + 10) y colidx,
      line x (y - 10) x (y - 2) colidx,
      line x (y + 2) x (y + 10) colidx]"

text \<open>A line of text at a part of the height, a product of doubles that is cut off.\<close>

definition caption :: "(rat \<Rightarrow> rat) \<Rightarrow> rat \<Rightarrow> string \<Rightarrow> 32 word \<Rightarrow> framebuffer \<Rightarrow> fault + framebuffer" where
  "caption rnd part s colidx fb =
     put_string_center (sint (xres fb div 2)) (trunc (rnd (of_int (uint (yres fb)) * rnd part))) s colidx fb"

subsection \<open>One point\<close>

text \<open>
  \<open>flush\<close> is what the \<open>read\<close> of \<open>ts_flush\<close> does to the device; the samples that \<open>getxy\<close> finds in its array are \<open>junk\<close>, and
  its loops have \<open>fuel\<close> rounds.
\<close>

record 'a harvest_env =
  he_fuel :: nat
  he_rd :: "'a reader"
  he_flush :: "'a \<times> world \<Rightarrow> 'a \<times> world"
  he_junk :: "ts_sample list"

record 'a harvest_st =
  hs_fb :: framebuffer
  hs_s :: "'a \<times> world"
  hs_out :: string

definition out_line :: "int \<Rightarrow> int \<Rightarrow> int \<Rightarrow> int \<Rightarrow> string" where
  "out_line x y tx ty = dec_int x @ CHR 0x09 # dec_int y @ CHR 0x09 # dec_int tx @ CHR 0x09 # dec_int ty @ [CHR 0x0A]"

definition harvest_point :: "'a harvest_env \<Rightarrow> 32 word \<Rightarrow> 32 word \<Rightarrow> 'a harvest_st \<Rightarrow> (fault + 'a harvest_st) option" where
  "harvest_point e y x st =
     (case ts_harvest_put_cross (sint x) (sint y) CROSS (hs_fb st) of
        Inl f \<Rightarrow> Some (Inl f)
      | Inr fb1 \<Rightarrow>
          (case getxy (he_fuel e) (he_rd e) (he_flush e (hs_s st)) (he_junk e) of
             None \<Rightarrow> None
           | Some (Inl f) \<Rightarrow> Some (Inl f)
           | Some (Inr ((tx, ty), s')) \<Rightarrow>
               (case ts_harvest_put_cross (sint x) (sint y) CROSS fb1 of
                  Inl f \<Rightarrow> Some (Inl f)
                | Inr fb2 \<Rightarrow>
                    Some (Inr \<lparr>hs_fb = fb2, hs_s = s', hs_out = hs_out st @ out_line (sint x) (sint y) tx ty\<rparr>))))"

subsection \<open>The grid\<close>

text \<open>The next position and increment; the code is the same for the columns and the rows.\<close>

definition grid_step :: "32 word \<Rightarrow> 32 word \<Rightarrow> 32 word \<Rightarrow> int \<Rightarrow> 32 word \<times> int" where
  "grid_step step half x incr =
     (let x_new = x + word_of_int (s32 (incr * uint step)) in
      if x < half then
        if half < x_new then (half + (half - x - 1), s32 (incr - 1))
        else if x_new < half then (x_new, s32 (incr + 1))
        else (x_new, incr)
      else (x_new, s32 (incr - 1)))"

partial_function (option) harvest_row ::
  "'a harvest_env \<Rightarrow> 32 word \<Rightarrow> 32 word \<Rightarrow> 32 word \<Rightarrow> int \<Rightarrow> 'a harvest_st \<Rightarrow> (fault + 'a harvest_st) option" where
  "harvest_row e xr y x x_incr st =
     (if x < xr \<and> 0 \<le> x_incr then
        (case harvest_point e y x st of
           None \<Rightarrow> None
         | Some r \<Rightarrow>
             (case r of
                Inl f \<Rightarrow> Some (Inl f)
              | Inr st \<Rightarrow> (case grid_step X_STEP (xr div 2) x x_incr of (x, x_incr) \<Rightarrow> harvest_row e xr y x x_incr st)))
      else Some (Inr st))"

partial_function (option) harvest_rows ::
  "'a harvest_env \<Rightarrow> 32 word \<Rightarrow> 32 word \<Rightarrow> 32 word \<Rightarrow> int \<Rightarrow> 'a harvest_st \<Rightarrow> (fault + 'a harvest_st) option" where
  "harvest_rows e xr yr y y_incr st =
     (if y < yr \<and> 0 \<le> y_incr then
        (case harvest_row e xr y 0 1 st of
           None \<Rightarrow> None
         | Some r \<Rightarrow>
             (case r of
                Inl f \<Rightarrow> Some (Inl f)
              | Inr st \<Rightarrow> (case grid_step Y_STEP (yr div 2) y y_incr of (y, y_incr) \<Rightarrow> harvest_rows e xr yr y y_incr st)))
      else Some (Inr st))"

subsection \<open>The program\<close>

definition harvest_screen :: "(rat \<Rightarrow> rat) \<Rightarrow> framebuffer \<Rightarrow> fault + framebuffer" where
  "harvest_screen rnd = seqr
     (map (\<lambda>i. setcolor (of_nat i) (harvest_palette ! i)) [0 ..< length harvest_palette] @
      [harvest_refresh, caption rnd (1 / 10) ''TSLIB harvesting utility'' 4, caption rnd (15 / 100) ''Touch the crosshair center'' 1,
       caption rnd (2 / 10) ''with as much accurary'' 1, caption rnd (25 / 100) ''as possible'' 1,
       caption rnd (35 / 100) ''Touch anywhere to start'' 1])"

definition harvest_thanks :: "(rat \<Rightarrow> rat) \<Rightarrow> framebuffer \<Rightarrow> fault + framebuffer" where
  "harvest_thanks rnd = seqr
     [harvest_refresh, caption rnd (75 / 100) ''Thank you (pfooh!)'' 1, caption rnd (80 / 100) ''Output saved to ts_harvest.out'' 1,
      caption rnd (85 / 100) ''Touch anywhere to quit'' 4]"

definition out_header :: string where
  "out_header = ''X_expected'' @ CHR 0x09 # ''Y_expected'' @ CHR 0x09 # ''X_measured'' @ CHR 0x09 # ''Y_measured'' @ [CHR 0x0A]"

text \<open>\<open>main\<close> behind \<open>open_framebuffer\<close>: the text of the file and the screen. The result of \<open>fopen\<close> is not checked.\<close>

definition harvest :: "(rat \<Rightarrow> rat) \<Rightarrow> 'a harvest_env \<Rightarrow> bool \<Rightarrow> framebuffer \<Rightarrow> 'a \<times> world \<Rightarrow> (fault + string \<times> framebuffer) option" where
  "harvest rnd e fopen_ok fb s =
     (case harvest_screen rnd fb of
        Inl f \<Rightarrow> Some (Inl f)
      | Inr fb1 \<Rightarrow>
          (case getxy (he_fuel e) (he_rd e) s (he_junk e) of
             None \<Rightarrow> None
           | Some (Inl f) \<Rightarrow> Some (Inl f)
           | Some (Inr (_, s1)) \<Rightarrow>
               (case harvest_refresh fb1 of
                  Inl f \<Rightarrow> Some (Inl f)
                | Inr fb2 \<Rightarrow>
                    if \<not> fopen_ok then Some (Inl NullDeref)
                    else
                      (case harvest_rows e (xres fb2) (yres fb2) 0 1 \<lparr>hs_fb = fb2, hs_s = s1, hs_out = out_header\<rparr> of
                         None \<Rightarrow> None
                       | Some (Inl f) \<Rightarrow> Some (Inl f)
                       | Some (Inr st) \<Rightarrow>
                           (case harvest_thanks rnd (hs_fb st) of
                              Inl f \<Rightarrow> Some (Inl f)
                            | Inr fb3 \<Rightarrow>
                                (case getxy (he_fuel e) (he_rd e) (hs_s st) (he_junk e) of
                                   None \<Rightarrow> None
                                 | Some (Inl f) \<Rightarrow> Some (Inl f)
                                 | Some (Inr _) \<Rightarrow>
                                     (case harvest_refresh fb3 of
                                        Inl f \<Rightarrow> Some (Inl f)
                                      | Inr fb4 \<Rightarrow> Some (Inr (hs_out st, fb4)))))))))"

definition harvest_main ::
  "(rat \<Rightarrow> rat) \<Rightarrow> nat \<Rightarrow> ts_sample list \<Rightarrow> (heap \<times> world \<Rightarrow> heap \<times> world) \<Rightarrow> bool \<Rightarrow> (string \<Rightarrow> int \<Rightarrow> int \<times> int) \<Rightarrow> bool \<Rightarrow>
   string option \<Rightarrow> ts_env \<Rightarrow> world \<Rightarrow> fb_os \<Rightarrow> fb_state \<Rightarrow> (fault + string \<times> fb_state) option" where
  "harvest_main rnd fuel junk flush fopen_ok openf malloc_ok tsdevice env w os fbs =
     (case open_device openf malloc_ok tsdevice 0 of
        None \<Rightarrow> Some (Inl (ProcessExit 1))
      | Some stA \<Rightarrow>
          (case ts_config env stA of
             Inl f \<Rightarrow> Some (Inl f)
           | Inr (ret, st) \<Rightarrow>
               if ret \<noteq> 0 then Some (Inl (ProcessExit 1))
               else
                 (case open_framebuffer os fbs of
                    Inl f \<Rightarrow> Some (Inl f)
                  | Inr (fret, fbs1) \<Rightarrow>
                      if fret \<noteq> 0 then Some (Inl (ProcessExit 1))
                      else
                        (case harvest rnd \<lparr>he_fuel = fuel, he_rd = ts_read_raw (hd junk) (st_brk st + 1) (st_list_raw st), he_flush = flush,
                                he_junk = junk\<rparr> fopen_ok (fbs_fb fbs1) (st_heap st, w\<lparr>w_dev := st_dev st\<rparr>) of
                           None \<Rightarrow> None
                         | Some (Inl f) \<Rightarrow> Some (Inl f)
                         | Some (Inr (text, fb)) \<Rightarrow> Some (Inr (text, close_framebuffer os (fbs1\<lparr>fbs_fb := fb\<rparr>)))))))"

subsection \<open>The points of the grid\<close>

text \<open>The sums of the increments: 0, 10, 30, 60, 100, and so on.\<close>

definition tri :: "nat \<Rightarrow> nat" where "tri k = 5 * k * (k + 1)"

lemma tri_Suc: "tri (Suc k) = tri k + 10 * Suc k"
  by (simp add: tri_def algebra_simps)

lemma tri_0 [simp]: "tri 0 = 0"
  by (simp add: tri_def)

lemma tri_ge: "10 * k \<le> tri k"
  by (induction k) (simp_all add: tri_Suc)

text \<open>The last of these sums before the middle, counted from \<open>k\<close> on.\<close>

function rank :: "nat \<Rightarrow> nat \<Rightarrow> nat" where
  "rank half k = (if tri (Suc k) < half then rank half (Suc k) else k)"
  by pat_completeness auto
termination
  by (relation "measure (\<lambda>(half, k). half - tri k)") (auto simp: tri_Suc)

declare rank.simps [simp del]

text \<open>
  The positions: they move away from the edge with growing distance up to the middle and then come
  nearer to the other edge as its mirror image. When one falls on the middle the image is moved by one, and its last
  position is behind the screen when the number of pixels is even.
\<close>

definition right_part :: "nat \<Rightarrow> nat \<Rightarrow> nat list" where
  "right_part edge n = map (\<lambda>k. edge - tri k) (rev [0 ..< n])"

definition behind_middle :: "nat \<Rightarrow> nat \<Rightarrow> nat list" where
  "behind_middle res k =
     (let half = res div 2 in
      if tri (Suc k) = half then half # filter (\<lambda>x. x < res) (right_part (2 * half) (Suc k)) else right_part (2 * half - 1) (Suc k))"

definition columns :: "nat \<Rightarrow> nat list" where
  "columns res = (let k = rank (res div 2) 0 in map tri [0 ..< Suc k] @ behind_middle res k)"

lemma tri_small: "tri k < 2147483648 \<Longrightarrow> k < 1000000"
proof (rule ccontr)
  assume "tri k < 2147483648" "\<not> k < 1000000"
  moreover from this have "1000000 * 1000000 \<le> k * (k + 1)" by (intro mult_le_mono) simp_all
  ultimately show False by (simp add: tri_def)
qed

lemma rank_ge: "k \<le> rank half k"
proof (induction half k rule: rank.induct)
  case (1 half k)
  thus ?case by (subst rank.simps) auto
qed

lemma set_right_part: "x \<in> set (right_part edge n) \<Longrightarrow> x \<le> edge"
  by (auto simp: right_part_def)

text \<open>One step, where the increment fits the position.\<close>

lemma small_unat: "n < 4294967296 \<Longrightarrow> unat (of_nat n :: 32 word) = n"
  by (simp add: unat_of_nat)

lemma step_new: "uint step = 10 \<Longrightarrow> i < 10000000 \<Longrightarrow> (of_nat x :: 32 word) + word_of_int (s32 (int i * uint step)) = of_nat (x + 10 * i)"
  by (simp add: s32_id in_s32_def ac_simps)

lemma grid_step_up:
  assumes "uint step = 10" "half < 2147483648" "tri k < half" "k < 1000000"
  shows "grid_step step (of_nat half) (of_nat (tri k)) (int (Suc k)) =
    (if tri (Suc k) < half then (of_nat (tri (Suc k)), int (Suc (Suc k)))
     else if tri (Suc k) = half then (of_nat half, int (Suc k))
     else (of_nat (2 * half - 1 - tri k), int k))"
proof -
  have new: "(of_nat (tri k) :: 32 word) + word_of_int (s32 (int (Suc k) * uint step)) = of_nat (tri (Suc k))"
    using assms(4) by (subst step_new [OF assms(1)]) (simp_all add: tri_Suc)
  have u: "unat (of_nat half :: 32 word) = half" "unat (of_nat (tri k) :: 32 word) = tri k" "unat (of_nat (tri (Suc k)) :: 32 word) = tri (Suc k)"
    using assms(2-4) by (auto intro!: small_unat simp: tri_Suc simp del: of_nat_add of_nat_mult)
  have image: "(of_nat half :: 32 word) + (of_nat half - of_nat (tri k) - 1) = of_nat (2 * half - 1 - tri k)"
    using assms(3) by (simp add: of_nat_diff)
  show ?thesis
    unfolding grid_step_def Let_def new word_less_nat_alt u image
    using assms(3,4) by (auto simp: s32_id in_s32_def)
qed

lemma grid_step_down:
  assumes "uint step = 10" "half \<le> x" "x < 4294967296" "i < 1000000"
  shows "grid_step step (of_nat half) (of_nat x) (int i) = (of_nat (x + 10 * i), int i - 1)"
proof -
  have "\<not> (of_nat x :: 32 word) < of_nat half" using assms(2,3) by (simp add: word_less_nat_alt small_unat)
  thus ?thesis using assms(4) by (simp add: grid_step_def Let_def step_new [OF assms(1)] s32_id in_s32_def)
qed

subsection \<open>Loops over the grid\<close>

fun run_list :: "('p \<Rightarrow> 's \<Rightarrow> (fault + 's) option) \<Rightarrow> 'p list \<Rightarrow> 's \<Rightarrow> (fault + 's) option" where
  "run_list f [] s = Some (Inr s)"
| "run_list f (p # ps) s = (case f p s of None \<Rightarrow> None | Some (Inl e) \<Rightarrow> Some (Inl e) | Some (Inr s) \<Rightarrow> run_list f ps s)"

text \<open>
  What the two loops of \<open>main\<close> have in common: they satisfy the equation of the loop with the step of the grid.
  Such a loop ends and does its body for the positions of the grid in turn, whatever the body does.
\<close>

locale grid_loop =
  fixes body :: "32 word \<Rightarrow> 's \<Rightarrow> (fault + 's) option" and loop :: "32 word \<Rightarrow> int \<Rightarrow> 's \<Rightarrow> (fault + 's) option"
    and res :: "32 word" and step :: "32 word"
  assumes loop_eq: "loop v incr s =
      (if v < res \<and> 0 \<le> incr then
         (case body v s of
            None \<Rightarrow> None
          | Some r \<Rightarrow> (case r of Inl f \<Rightarrow> Some (Inl f) | Inr s \<Rightarrow> (case grid_step step (res div 2) v incr of (v, incr) \<Rightarrow> loop v incr s)))
       else Some (Inr s))"
    and step_10: "uint step = 10"
begin

lemma half_res: "res div 2 = of_nat (unat res div 2)"
proof -
  have "of_nat (unat (res div 2)) = res div 2" by simp
  thus ?thesis by (simp add: unat_div_distrib)
qed

lemma loop_at:
  assumes "x < 4294967296" and "grid_step step (res div 2) (of_nat x) (int i) = (v, incr)"
    and "\<And>s. loop v incr s = run_list body ps s"
  shows "loop (of_nat x) (int i) s = (if x < unat res then run_list body (of_nat x # ps) s else Some (Inr s))"
proof -
  have "(of_nat x :: 32 word) < res \<longleftrightarrow> x < unat res" using assms(1) by (simp add: word_less_nat_alt small_unat)
  thus ?thesis using assms(2,3) by (subst loop_eq) (auto split: option.splits sum.splits)
qed

lemma loop_down:
  assumes "edge \<le> unat res" and "unat res div 2 \<le> edge - tri j" and "tri j \<le> edge" and "j < 1000000"
  shows "loop (of_nat (edge - tri j)) (int j) s = run_list body (map of_nat (filter (\<lambda>x. x < unat res) (right_part edge (Suc j)))) s"
  using assms
proof (induction j arbitrary: s)
  case 0
  have lt: "unat res < 4294967296" by (rule less_le_trans [OF unsigned_less]) simp
  have "loop (of_nat edge) (int 0) s = (if edge < unat res then run_list body [of_nat edge] s else Some (Inr s))"
  proof (rule loop_at)
    show "grid_step step (res div 2) (of_nat edge) (int 0) = (of_nat edge, - 1)"
      using grid_step_down [OF step_10, of "unat res div 2" edge 0] 0 lt unfolding half_res by simp
    show "loop (of_nat edge) (- 1) s = run_list body [] s" for s by (subst loop_eq) simp
  qed (use 0 lt in simp)
  thus ?case by (simp add: right_part_def)
next
  case (Suc j)
  have lt: "unat res < 4294967296" by (rule less_le_trans [OF unsigned_less]) simp
  let ?x = "edge - tri (Suc j)"
  have x: "?x < unat res" "?x + 10 * Suc j = edge - tri j" using Suc.prems by (simp_all add: tri_Suc)
  have "loop (of_nat ?x) (int (Suc j)) s = (if ?x < unat res then run_list body (of_nat ?x # map of_nat (filter (\<lambda>x. x < unat res) (right_part edge (Suc j)))) s else Some (Inr s))"
  proof (rule loop_at)
    show "grid_step step (res div 2) (of_nat ?x) (int (Suc j)) = (of_nat (edge - tri j), int j)"
      using grid_step_down [OF step_10, of "unat res div 2" ?x "Suc j"] Suc.prems lt unfolding x(2) half_res by simp
    show "loop (of_nat (edge - tri j)) (int j) s = run_list body (map of_nat (filter (\<lambda>x. x < unat res) (right_part edge (Suc j)))) s" for s
      by (rule Suc.IH) (use Suc.prems in \<open>simp_all add: tri_Suc\<close>)
  qed (use x lt in simp)
  thus ?case using x(1) by (simp add: right_part_def)
qed

lemma loop_up:
  assumes "unat res < 2147483648" and "tri k < unat res div 2"
  shows "loop (of_nat (tri k)) (int (Suc k)) s =
    run_list body (map of_nat (map tri [k ..< Suc (rank (unat res div 2) k)] @ behind_middle (unat res) (rank (unat res div 2) k))) s"
  using assms(2)
proof (induction "unat res div 2" k arbitrary: s rule: rank.induct)
  case (1 k)
  let ?half = "unat res div 2"
  have k: "k < 1000000" using 1 assms(1) by (intro tri_small) linarith
  have here: "tri k < unat res" "tri k < 4294967296" using 1(2) assms(1) by linarith+
  note step = grid_step_up [OF step_10 _ 1(2) k, folded half_res]
  consider "tri (Suc k) < ?half" | "tri (Suc k) = ?half" | "?half < tri (Suc k)" by linarith
  thus ?case
  proof cases
    case 1
    hence r: "rank ?half k = rank ?half (Suc k)" by (subst rank.simps) simp
    have "[k ..< Suc (rank ?half (Suc k))] = k # [Suc k ..< Suc (rank ?half (Suc k))]"
      using rank_ge [of "Suc k" ?half] by (intro upt_conv_Cons) simp
    with loop_at [OF here(2), of "Suc k" _ _ _ s] step 1 "1.hyps" [OF 1] here(1) assms(1) r show ?thesis by simp
  next
    case 2
    hence r: "rank ?half k = k" by (subst rank.simps) simp
    have x: "?half + 10 * Suc k = 2 * ?half - tri k" using 2 by (simp add: tri_Suc)
    have down: "loop (of_nat (2 * ?half - tri k)) (int k) s = run_list body (map of_nat (filter (\<lambda>x. x < unat res) (right_part (2 * ?half) (Suc k)))) s" for s
      using "1.prems" k by (intro loop_down) auto
    have "Suc k < 1000000" using 2 assms(1) by (intro tri_small) simp
    hence g: "grid_step step (res div 2) (of_nat ?half) (int (Suc k)) = (of_nat (2 * ?half - tri k), int k)"
      using grid_step_down [OF step_10, of ?half ?half "Suc k"] assms(1) unfolding x half_res by simp
    have mid: "loop (of_nat ?half) (int (Suc k)) s = run_list body (map of_nat (behind_middle (unat res) k)) s" for s
      using loop_at [OF _ g down, of s] 2 "1.prems" assms(1) by (simp add: behind_middle_def Let_def)
    show ?thesis using loop_at [OF here(2), of "Suc k" _ _ _ s, OF _ mid] step 2 here(1) assms(1) r half_res by simp
  next
    case 3
    hence r: "rank ?half k = k" by (subst rank.simps) simp
    have all: "filter (\<lambda>x. x < unat res) (right_part (2 * ?half - 1) (Suc k)) = right_part (2 * ?half - 1) (Suc k)"
      using "1.prems" by (intro filter_True) (auto dest!: set_right_part)
    have down: "loop (of_nat (2 * ?half - 1 - tri k)) (int k) s = run_list body (map of_nat (behind_middle (unat res) k)) s" for s
      using loop_down [of "2 * ?half - 1" k s] "1.prems" k 3 unfolding all by (auto simp: behind_middle_def)
    show ?thesis using loop_at [OF here(2), of "Suc k" _ _ _ s, OF _ down] step 3 here(1) assms(1) r by simp
  qed
qed

lemma loop_runs:
  assumes "2 \<le> unat res" and "unat res < 2147483648"
  shows "loop 0 1 s = run_list body (map of_nat (columns (unat res))) s"
  using loop_up [OF assms(2), of 0 s] assms(1) by (simp add: columns_def Let_def)

end

text \<open>Both loops of the program are such loops.\<close>

interpretation row: grid_loop "harvest_point e y" "harvest_row e xr y" xr X_STEP for e xr y
  by unfold_locales (subst harvest_row.simps, simp, simp add: X_STEP_def)

interpretation rows: grid_loop "\<lambda>y. harvest_row e xr y 0 1" "harvest_rows e xr yr" yr Y_STEP for e xr yr
  by unfold_locales (subst harvest_rows.simps, simp, simp add: Y_STEP_def)

lemma run_list_append:
  "run_list f (ps @ qs) s = (case run_list f ps s of None \<Rightarrow> None | Some (Inl e) \<Rightarrow> Some (Inl e) | Some (Inr s) \<Rightarrow> run_list f qs s)"
  by (induction ps arbitrary: s) (auto split: option.splits sum.splits)

lemma run_list_map: "run_list f (map g ps) = run_list (\<lambda>p. f (g p)) ps"
proof
  show "run_list f (map g ps) s = run_list (\<lambda>p. f (g p)) ps s" for s
    by (induction ps arbitrary: s) (auto split: option.splits sum.splits)
qed

lemma run_list_nested: "run_list (\<lambda>y. run_list (f y) xs) ys s = run_list (\<lambda>(x, y). f y x) (concat (map (\<lambda>y. map (\<lambda>x. (x, y)) xs) ys)) s"
  by (induction ys arbitrary: s) (auto simp: run_list_append run_list_map split: option.splits sum.splits)

definition points :: "nat \<Rightarrow> nat \<Rightarrow> (nat \<times> nat) list" where
  "points xr yr = concat (map (\<lambda>y. map (\<lambda>x. (x, y)) (columns xr)) (columns yr))"

lemma tri_less_rank: "tri k < half \<Longrightarrow> tri (rank half k) < half"
proof (induction half k rule: rank.induct)
  case (1 half k)
  thus ?case by (subst rank.simps) simp
qed

lemma tri_mono: "j \<le> k \<Longrightarrow> tri j \<le> tri k"
  unfolding tri_def by (intro mult_le_mono add_le_mono) simp_all

lemma columns_on_screen:
  assumes "2 \<le> res" "x \<in> set (columns res)"
  shows "x < res"
proof -
  let ?half = "res div 2" and ?k = "rank (res div 2) 0"
  have k: "tri ?k < ?half" using assms(1) by (intro tri_less_rank) simp
  consider j where "x = tri j" "j \<le> ?k" | "x = ?half" | "x < res" | "x \<in> set (right_part (2 * ?half - 1) (Suc ?k))"
    using assms(2) by (auto simp: columns_def behind_middle_def Let_def less_Suc_eq_le simp del: upt_Suc split: if_splits)
  thus ?thesis
  proof cases
    case 1
    hence "tri j < ?half" using tri_mono [of j ?k] k by simp
    thus ?thesis using 1(1) by simp
  qed (use assms(1) in \<open>auto dest!: set_right_part\<close>)
qed

text \<open>
  On a screen with an even number of pixels the grid is its own mirror image, unless one of the sums 10,
  30, 60 and so on falls on the middle; then the opposite edge is left out, as on a screen of 720 pixels.
\<close>

theorem columns_mirror:
  assumes "even res" "2 \<le> res" "tri (Suc (rank (res div 2) 0)) \<noteq> res div 2"
  shows "rev (columns res) = map (\<lambda>x. res - 1 - x) (columns res)"
proof -
  let ?n = "Suc (rank (res div 2) 0)"
  have "tri (rank (res div 2) 0) < res div 2" using assms(2) by (intro tri_less_rank) simp
  hence le: "Suc (tri k) \<le> res" if "k < ?n" for k using tri_mono [of k "rank (res div 2) 0"] that by simp
  have cols: "columns res = map tri [0 ..< ?n] @ map (\<lambda>k. res - 1 - tri k) (rev [0 ..< ?n])"
    using assms(1,3) by (simp add: columns_def behind_middle_def Let_def right_part_def)
  show ?thesis unfolding cols by (auto simp: rev_map simp del: upt_Suc dest!: le)
qed

theorem columns_720: "0 \<in> set (columns 720)" "719 \<notin> set (columns 720)"
  by code_simp+

lemma rows_visit:
  assumes "2 \<le> unat xr" "unat xr < 2147483648" "2 \<le> unat yr" "unat yr < 2147483648"
  shows "harvest_rows e xr yr 0 1 st = run_list (\<lambda>(x, y). harvest_point e (of_nat y) (of_nat x)) (points (unat xr) (unat yr)) st"
proof -
  have "(\<lambda>y. harvest_row e xr y 0 1) = (\<lambda>y. run_list (harvest_point e y) (map of_nat (columns (unat xr))))"
    by (intro ext row.loop_runs [OF assms(1,2)])
  hence "harvest_rows e xr yr 0 1 st =
      run_list (\<lambda>y. run_list (\<lambda>x. harvest_point e (of_nat y) (of_nat x)) (columns (unat xr))) (columns (unat yr)) st"
    using rows.loop_runs [OF assms(3,4), of e xr st] by (simp add: run_list_map)
  thus ?thesis by (simp only: points_def run_list_nested)
qed

text \<open>
  C28: The two nested loops end on every screen, and they show and measure a cross at the points of the grid row
  by row, whatever the device and the user do: as long as every measurement returns, so do the loops.
\<close>

theorem harvest_visits_grid:
  assumes "2 \<le> unat xr" "unat xr < 2147483648" "2 \<le> unat yr" "unat yr < 2147483648"
  shows "harvest_rows e xr yr 0 1 st =
    run_list (\<lambda>(x, y). harvest_point e (of_nat y) (of_nat x)) (points (unat xr) (unat yr)) st"
  by (rule rows_visit [OF assms])

theorem harvest_visits_grid_witness:
  "\<forall>(e :: unit harvest_env) st. harvest_rows e 60 41 0 1 st =
     run_list (\<lambda>(x, y). harvest_point e (of_nat y) (of_nat x)) (points 60 41) st \<and> columns 60 = [0, 10, 30, 50] \<and> columns 41 = [0, 10, 29, 39]"
proof -
  have "columns 60 = [0, 10, 30, 50]" "columns 41 = [0, 10, 29, 39]" by code_simp+
  moreover have "harvest_rows e 60 41 0 1 st = run_list (\<lambda>(x, y). harvest_point e (of_nat y) (of_nat x)) (points 60 41) st"
    for e :: "unit harvest_env" and st
    using harvest_visits_grid [of 60 41 e st] by simp
  ultimately show ?thesis by simp
qed


subsection \<open>The program as a whole\<close>

lemma harvest_cross_twice:
  assumes "fb_wf fb" "on_plane x" "on_plane y"
  obtains fb' where "ts_harvest_put_cross x y CROSS fb = Inr fb'" "fb_wf fb'" "ts_harvest_put_cross x y CROSS fb' = Inr fb"
proof -
  let ?ds = "concat [line_dots (x - 10) y (x - 2) y CROSS, line_dots (x + 2) y (x + 10) y CROSS,
    line_dots x (y - 10) x (y - 2) CROSS, line_dots x (y + 2) x (y + 10) CROSS]"
  have near: "in_s32 (v - 10)" "in_s32 (v - 2)" "in_s32 (v + 2)" "in_s32 (v + 10)" if "on_plane v" for v
    using that by (simp_all add: on_plane_def in_s32_def)
  have eq: "ts_harvest_put_cross x y CROSS fb = draw ?ds fb" for fb
    using near [OF assms(2)] near [OF assms(3)] assms(2,3) by (simp add: ts_harvest_put_cross_def line_draw split: sum.split)
  have "\<forall>d \<in> set ?ds. color_ok (snd (snd d)) \<and> is_xor d"
    using xor_color [of 2] by (auto dest!: set_line_dots simp: CROSS_def is_xor_def)
  from draw_xor_twice [OF assms(1) this] show ?thesis using that by (auto simp only: eq)
qed

text \<open>A touch of every point, behind what the flush takes away.\<close>

fun marks :: "'a harvest_env \<Rightarrow> 'a \<times> world \<Rightarrow> (int \<times> int) list \<Rightarrow> 'a \<times> world \<Rightarrow> bool" where
  "marks e s [] s' \<longleftrightarrow> s' = s"
| "marks e s ((tx, ty) # ms) s' \<longleftrightarrow> (\<exists>s1. touch (he_fuel e) (he_rd e) (he_flush e s) tx ty s1 \<and> marks e s1 ms s')"

definition out_lines :: "(nat \<times> nat) list \<Rightarrow> (int \<times> int) list \<Rightarrow> string" where
  "out_lines ps ms = concat (map (\<lambda>((x, y), tx, ty). out_line (int x) (int y) tx ty) (zip ps ms))"

lemma harvest_points_marked:
  assumes "length (he_junk e) = 128"
  shows "marks e s ms s' \<Longrightarrow> length ms = length ps \<Longrightarrow> fb_wf fb \<Longrightarrow> \<forall>(x, y) \<in> set ps. x < 32768 \<and> y < 32768 \<Longrightarrow>
    run_list (\<lambda>(x, y). harvest_point e (of_nat y) (of_nat x)) ps \<lparr>hs_fb = fb, hs_s = s, hs_out = out\<rparr> =
      Some (Inr \<lparr>hs_fb = fb, hs_s = s', hs_out = out @ out_lines ps ms\<rparr>)"
proof (induction ps arbitrary: ms s out)
  case (Cons p ps)
  obtain x y where p: "p = (x, y)" by (cases p)
  obtain tx ty ms' where ms: "ms = (tx, ty) # ms'" using Cons.prems(2) by (cases ms) auto
  obtain s1 where s1: "touch (he_fuel e) (he_rd e) (he_flush e s) tx ty s1" "marks e s1 ms' s'" using Cons.prems(1) by (auto simp: ms)
  have sint: "sint (of_nat v :: 32 word) = int v" "on_plane (int v)" if "v < 32768" for v
  proof -
    have "uint (of_nat v :: 32 word) = int v" using small_unat [of v] that by (simp only: uint_nat)
    thus "sint (of_nat v :: 32 word) = int v" "on_plane (int v)" using that sint_word_small [of "of_nat v"] by (simp_all add: on_plane_def)
  qed
  obtain fb' where "ts_harvest_put_cross (int x) (int y) CROSS fb = Inr fb'" "ts_harvest_put_cross (int x) (int y) CROSS fb' = Inr fb"
    using Cons.prems(3,4) by (auto simp: p intro: harvest_cross_twice [OF _ sint(2) sint(2)])
  hence "harvest_point e (of_nat y) (of_nat x) \<lparr>hs_fb = fb, hs_s = s, hs_out = out\<rparr> =
      Some (Inr \<lparr>hs_fb = fb, hs_s = s1, hs_out = out @ out_line (int x) (int y) tx ty\<rparr>)"
    using Cons.prems(4) touch_getxy [OF s1(1) assms] by (simp add: p harvest_point_def sint(1))
  moreover note Cons.IH [OF s1(2) _ Cons.prems(3), of "out @ out_line (int x) (int y) tx ty"]
  ultimately show ?case using Cons.prems(2,4) by (simp add: p ms out_lines_def)
qed (simp add: out_lines_def)

lemma harvest_draws:
  assumes "screen xr yr fb"
  shows "\<exists>fb'. harvest_refresh fb = Inr fb' \<and> screen xr yr fb'" and "color_ok c \<Longrightarrow> \<exists>fb'. caption rnd part t c fb = Inr fb' \<and> screen xr yr fb'"
proof -
  have "color_ok 0" by (simp add: color_ok_def)
  thus "\<exists>fb'. harvest_refresh fb = Inr fb' \<and> screen xr yr fb'" unfolding harvest_refresh_def by (rule screen_draws(1) [OF assms])
  show "\<exists>fb'. caption rnd part t c fb = Inr fb' \<and> screen xr yr fb'" if "color_ok c"
    unfolding caption_def by (rule screen_draws(2) [OF assms that])
qed

lemma harvest_screens:
  assumes "screen xr yr fb"
  shows "\<exists>fb'. harvest_screen rnd fb = Inr fb' \<and> screen xr yr fb'" and "\<exists>fb'. harvest_thanks rnd fb = Inr fb' \<and> screen xr yr fb'"
proof -
  have col: "color_ok 1" "color_ok 4" by (simp_all add: color_ok_def XORMODE_def)
  show "\<exists>fb'. harvest_screen rnd fb = Inr fb' \<and> screen xr yr fb'"
    unfolding harvest_screen_def by (rule seqr_preserves [of _ "screen xr yr", OF _ assms])
      (use col in \<open>auto simp: harvest_palette_def intro!: harvest_draws setcolor_screen\<close>)
  show "\<exists>fb'. harvest_thanks rnd fb = Inr fb' \<and> screen xr yr fb'"
    unfolding harvest_thanks_def by (rule seqr_preserves [of _ "screen xr yr", OF _ assms]) (use col in \<open>auto intro!: harvest_draws\<close>)
qed

text \<open>
  The harvesting program as a whole. After a touch to start, a touch of every cross and a touch to quit it ends,
  and the file has a line for every point of the grid, row by row, with the position of the cross and the
  measured one. Every cross is on the screen, and no drawing leaves the framebuffer.
\<close>

theorem harvest_program:
  assumes "screen xr yr fb" "2 \<le> unat xr" "unat xr \<le> 32767" "2 \<le> unat yr" "unat yr \<le> 32767" "length (he_junk e) = 128"
    and "touch (he_fuel e) (he_rd e) s tx ty s1" "marks e s1 ms s2" "length ms = length (points (unat xr) (unat yr))"
    and "touch (he_fuel e) (he_rd e) s2 tx' ty' s3"
  shows "(\<exists>fb'. harvest rnd e True fb s = Some (Inr (out_header @ out_lines (points (unat xr) (unat yr)) ms, fb')) \<and> screen xr yr fb') \<and>
    (\<forall>(x, y) \<in> set (points (unat xr) (unat yr)). x < unat xr \<and> y < unat yr)"
proof (rule conjI)
  show on: "\<forall>(x, y) \<in> set (points (unat xr) (unat yr)). x < unat xr \<and> y < unat yr"
    using columns_on_screen [OF assms(2)] columns_on_screen [OF assms(4)] by (auto simp: points_def)
  obtain fb1 where fb1: "harvest_screen rnd fb = Inr fb1" "screen xr yr fb1" using harvest_screens(1) [OF assms(1)] by blast
  obtain fb2 where fb2: "harvest_refresh fb1 = Inr fb2" "screen xr yr fb2" using harvest_draws(1) [OF fb1(2)] by blast
  obtain fb3 where fb3: "harvest_thanks rnd fb2 = Inr fb3" "screen xr yr fb3" using harvest_screens(2) [OF fb2(2)] by blast
  obtain fb4 where fb4: "harvest_refresh fb3 = Inr fb4" "screen xr yr fb4" using harvest_draws(1) [OF fb3(2)] by blast
  have dims: "xres fb2 = xr" "yres fb2 = yr" "fb_wf fb2" using fb2(2) by (auto simp: screen_def screen_wf_def)
  have "\<forall>(x, y) \<in> set (points (unat xr) (unat yr)). x < 32768 \<and> y < 32768" using on assms(3,5) by fastforce
  hence "harvest_rows e xr yr 0 1 \<lparr>hs_fb = fb2, hs_s = s1, hs_out = out_header\<rparr> =
      Some (Inr \<lparr>hs_fb = fb2, hs_s = s2, hs_out = out_header @ out_lines (points (unat xr) (unat yr)) ms\<rparr>)"
    using harvest_points_marked [OF assms(6,8,9) dims(3)] rows_visit [of xr yr e] assms(2-5) by simp
  thus "\<exists>fb'. harvest rnd e True fb s = Some (Inr (out_header @ out_lines (points (unat xr) (unat yr)) ms, fb')) \<and> screen xr yr fb'"
    using fb1(1) fb2(1) fb3(1) fb4 dims(1,2) touch_getxy [OF assms(7,6)] touch_getxy [OF assms(10,6)] by (simp add: harvest_def)
qed

lemma list_reader_marks:
  "0 < he_fuel e \<Longrightarrow> he_rd e = list_reader \<Longrightarrow> he_flush e = id \<Longrightarrow> marks e (concat (map tap ms) @ rest, w) ms (rest, w)"
  by (induction ms) (auto simp: tap_def intro!: exI list_reader_touch)

theorem harvest_program_witness:
  "\<exists>fb'. harvest exact \<lparr>he_fuel = 3, he_rd = list_reader, he_flush = id, he_junk = replicate 128 (smp 0 0 0)\<rparr> True square_fb
      (concat (map tap (replicate 66 (7, 9))), world0) = Some (Inr (out_header @ out_lines (points 150 150) (replicate 64 (7, 9)), fb'))"
proof -
  let ?e = "\<lparr>he_fuel = 3, he_rd = list_reader, he_flush = id, he_junk = replicate 128 (smp 0 0 0)\<rparr>"
  have scr: "screen 150 150 square_fb"
    using square_fb_wf by (simp add: screen_def screen_wf_def square_fb_def init_framebuffer_def demo_fb_def)
  have n: "length (points 150 150) = 64" by code_simp
  have taps: "concat (map tap (replicate 66 (7, 9))) = smp 7 9 5 # smp 0 0 0 # concat (map tap (replicate 64 (7, 9))) @ tap (7, 9)"
    by (simp add: tap_def numeral_eq_Suc)
  have start: "touch 3 list_reader (concat (map tap (replicate 66 (7, 9))), world0) 7 9 (concat (map tap (replicate 64 (7, 9))) @ tap (7, 9), world0)"
    unfolding taps by (rule list_reader_touch) simp
  have quit: "touch 3 list_reader (tap (7, 9), world0) 7 9 ([], world0)" using list_reader_touch [of 3 7 9 "[]" world0] by (simp add: tap_def)
  have "marks ?e (concat (map tap (replicate 64 (7, 9))) @ tap (7, 9), world0) (replicate 64 (7, 9)) (tap (7, 9), world0)"
    by (rule list_reader_marks) simp_all
  from harvest_program [OF scr _ _ _ _ _ _ this, of "(concat (map tap (replicate 66 (7, 9))), world0)" 7 9 7 9 "([], world0)" exact] start quit n
  show ?thesis by auto
qed

end
