(* ===== verification/SerialLoop.thy ===== *)
theory SerialLoop
  imports CString Termios
begin

unbundle bit_operations_syntax

text \<open>
  The loop-back test of a serial port, src/serial_loop/serial_loop.c. The port is a state of any
  type with the operations \<open>write\<close>, \<open>select\<close> and \<open>read\<close>; the loops of \<open>main\<close> wait for it without a limit
  and are partial functions. The random pattern of a round is an argument.
\<close>

subsection \<open>Settings of the port\<close>

definition speeds :: "(int \<times> 32 word) list" where
  "speeds = [(2400, 0xB), (4800, 0xC), (9600, B9600), (19200, 0xE), (57600, 0x1001), (115200, 0x1002), (230400, 0x1003),
     (460800, 0x1004), (921600, 0x1007), (1000000, 0x1008), (1500000, 0x100A), (2000000, 0x100B), (3000000, 0x100D), (4000000, 0x100F)]"

definition char_size :: "int \<Rightarrow> termios \<Rightarrow> termios" where
  "char_size nBits t =
     (let t = t\<lparr>c_cflag := (c_cflag t OR (CLOCAL OR CREAD)) AND NOT CSIZE\<rparr> in
      if nBits = 7 then t\<lparr>c_cflag := c_cflag t OR CS7\<rparr> else if nBits = 8 then t\<lparr>c_cflag := c_cflag t OR CS8\<rparr> else t)"

definition parity :: "char \<Rightarrow> termios \<Rightarrow> termios" where
  "parity nEvent t =
     (if nEvent = CHR ''O'' then t\<lparr>c_cflag := c_cflag t OR PARENB OR PARODD, c_iflag := c_iflag t OR (INPCK OR ISTRIP)\<rparr>
      else if nEvent = CHR ''E'' then t\<lparr>c_iflag := c_iflag t OR (INPCK OR ISTRIP), c_cflag := (c_cflag t OR PARENB) AND NOT PARODD\<rparr>
      else if nEvent = CHR ''N'' then t\<lparr>c_cflag := c_cflag t AND NOT PARENB\<rparr> else t)"

definition speed :: "int \<Rightarrow> termios \<Rightarrow> termios" where
  "speed nSpeed t = cfsetspeed (case map_of speeds nSpeed of Some code \<Rightarrow> code | None \<Rightarrow> B9600) t"

definition stop_bits :: "int \<Rightarrow> termios \<Rightarrow> termios" where
  "stop_bits nStop t =
     (if nStop = 1 then t\<lparr>c_cflag := c_cflag t AND NOT CSTOPB\<rparr> else if nStop = 2 then t\<lparr>c_cflag := c_cflag t OR CSTOPB\<rparr> else t)"

text \<open>The arguments are whether \<open>tcgetattr\<close> and \<open>tcsetattr\<close> succeed; the result has the settings that were made.\<close>

definition set_opt :: "bool \<Rightarrow> bool \<Rightarrow> int \<Rightarrow> int \<Rightarrow> char \<Rightarrow> int \<Rightarrow> int \<times> termios option" where
  "set_opt gets sets nSpeed nBits nEvent nStop =
     (if \<not> gets then (- 1, None)
      else
        let newtio = \<lparr>c_iflag = 0, c_oflag = 0, c_cflag = 0, c_lflag = 0, c_line = 0, c_vtime = 0, c_vmin = 0\<rparr>;
            newtio = (stop_bits nStop (speed nSpeed (parity nEvent (char_size nBits newtio))))\<lparr>c_vtime := 0, c_vmin := 0\<rparr> in
        if \<not> sets then (- 1, None) else (0, Some newtio))"

subsection \<open>The port\<close>

record 'd port =
  p_write :: "'d \<Rightarrow> bytes \<Rightarrow> int \<times> 'd"
  p_select :: "'d \<Rightarrow> int \<times> 'd"
  p_read :: "'d \<Rightarrow> nat \<Rightarrow> bytes option \<times> 'd"

definition PATTERN_SIZE :: nat where "PATTERN_SIZE = 1024"

text \<open>
  The \<open>else\<close> in front of the \<open>return\<close> belongs to the test of the error: where \<open>write\<close> fails, nothing is
  returned, and the caller gets what is in the register, \<open>junk\<close>.
\<close>

definition write_port :: "'d port \<Rightarrow> int \<Rightarrow> bytes \<Rightarrow> 'd \<Rightarrow> int \<times> 'd" where
  "write_port p junk buf d = (let (num, d) = p_write p d buf in (if num < 0 then junk else num, d))"

definition read_port :: "'d port \<Rightarrow> nat \<Rightarrow> 'd \<Rightarrow> int \<times> bytes \<times> 'd" where
  "read_port p n d =
     (let (ret, d) = p_select p d in
      if ret < 0 then (ret, [], d)
      else if 0 < ret then (let (r, d) = p_read p d n in case r of None \<Rightarrow> (- 1, [], d) | Some bs \<Rightarrow> (int (length bs), bs, d))
      else (0, [], d))"

subsection \<open>The test\<close>

partial_function (option) send_loop :: "'d port \<Rightarrow> int \<Rightarrow> bytes \<Rightarrow> int \<Rightarrow> 'd \<Rightarrow> 'd option" where
  "send_loop p junk send_buf offset d =
     (if offset < int PATTERN_SIZE then
        (case write_port p junk (drop (nat offset) send_buf) d of (send_num, d) \<Rightarrow>
           if 0 < send_num then send_loop p junk send_buf (offset + send_num) d else send_loop p junk send_buf offset d)
      else Some d)"

partial_function (option) recv_loop :: "'d port \<Rightarrow> bytes \<Rightarrow> nat \<Rightarrow> 'd \<Rightarrow> (bytes \<times> 'd) option" where
  "recv_loop p recv_buf offset d =
     (if offset < PATTERN_SIZE then
        (case read_port p (PATTERN_SIZE - offset) d of (recv_num, bs, d) \<Rightarrow>
           if recv_num < 0 then recv_loop p recv_buf offset d
           else recv_loop p (blit offset bs recv_buf) (offset + length bs) d)
      else Some (recv_buf, d))"

definition mismatch :: "bytes \<Rightarrow> bytes \<Rightarrow> bool" where
  "mismatch send_buf recv_buf \<longleftrightarrow> list_ex (\<lambda>i. send_buf ! i \<noteq> recv_buf ! i) [0 ..< PATTERN_SIZE]"

text \<open>The rounds; what \<open>recv_buf\<close> holds before a round is what the last one left in it.\<close>

fun serial_rounds :: "'d port \<Rightarrow> int \<Rightarrow> bytes list \<Rightarrow> bytes \<Rightarrow> 'd \<Rightarrow> (int \<times> 'd) option" where
  "serial_rounds p junk [] recv_buf d = Some (0, d)"
| "serial_rounds p junk (send_buf # pats) recv_buf d =
     (case send_loop p junk send_buf 0 d of
        None \<Rightarrow> None
      | Some d \<Rightarrow>
          (case recv_loop p recv_buf 0 d of
             None \<Rightarrow> None
           | Some (recv_buf, d) \<Rightarrow>
               if mismatch send_buf recv_buf then Some (- 1, d) else serial_rounds p junk pats recv_buf d))"

definition serial_main :: "int \<Rightarrow> bool \<Rightarrow> bool \<Rightarrow> string list \<Rightarrow> 'd port \<Rightarrow> int \<Rightarrow> bytes list \<Rightarrow> bytes \<Rightarrow> 'd \<Rightarrow> (int \<times> 'd) option" where
  "serial_main fd gets sets args p junk pats stack d =
     (if fd < 0 then Some (- 1, d)
      else if length args \<noteq> 1 then Some (0, d)
      else if fst (set_opt gets sets (atoi (args ! 0)) 8 CHR ''N'' 1) < 0 then Some (- 1, d)
      else serial_rounds p junk pats stack d)"

subsection \<open>A line that gives back what it gets\<close>

text \<open>
  The bytes come back in order, each changed by \<open>g\<close>, the identity on a good line; a write takes and a
  read gives at least one byte, in pieces of any size. \<open>q\<close> is what is on the line.
\<close>

definition channel :: "'d port \<Rightarrow> ('d \<Rightarrow> bytes) \<Rightarrow> (8 word \<Rightarrow> 8 word) \<Rightarrow> bool" where
  "channel p q g \<longleftrightarrow>
     (\<forall>d bs. bs \<noteq> [] \<longrightarrow> (\<exists>k d'. p_write p d bs = (int k, d') \<and> 1 \<le> k \<and> k \<le> length bs \<and> q d' = q d @ map g (take k bs))) \<and>
     (\<forall>d. q d \<noteq> [] \<longrightarrow> (\<exists>n d'. p_select p d = (n, d') \<and> 0 < n \<and> q d' = q d)) \<and>
     (\<forall>d n. q d \<noteq> [] \<and> 0 < n \<longrightarrow> (\<exists>k d'. p_read p d n = (Some (take k (q d)), d') \<and> 1 \<le> k \<and> k \<le> n \<and> k \<le> length (q d) \<and> q d' = drop k (q d)))"

lemma channel_write:
  assumes "channel p q g" and "bs \<noteq> []"
  obtains k d' where "p_write p d bs = (int k, d')" "1 \<le> k" "k \<le> length bs" "q d' = q d @ map g (take k bs)"
  using assms unfolding channel_def by blast

lemma channel_read:
  assumes "channel p q g" and "q d \<noteq> []" and "0 < n"
  obtains k d' where "read_port p n d = (int k, take k (q d), d')" "1 \<le> k" "k \<le> n" "k \<le> length (q d)" "q d' = drop k (q d)"
proof -
  obtain m d1 where d1: "p_select p d = (m, d1)" "0 < m" "q d1 = q d" using assms(1,2) unfolding channel_def by blast
  have "q d1 \<noteq> [] \<and> 0 < n" using assms(2,3) d1(3) by simp
  with assms(1) obtain k d2 where "p_read p d1 n = (Some (take k (q d1)), d2)" "1 \<le> k" "k \<le> n" "k \<le> length (q d1)" "q d2 = drop k (q d1)"
    unfolding channel_def by blast
  thus ?thesis using that [of k d2] d1 by (simp add: read_port_def)
qed

lemma send_loop_ok:
  assumes "channel p q g" and "length send_buf = PATTERN_SIZE"
  shows "n \<le> PATTERN_SIZE \<Longrightarrow> \<exists>d'. send_loop p junk send_buf (int n) d = Some d' \<and> q d' = q d @ map g (drop n send_buf)"
proof (induction "PATTERN_SIZE - n" arbitrary: n d rule: less_induct)
  case less
  show ?case
  proof (cases "n = PATTERN_SIZE")
    case True
    thus ?thesis using assms(2) by (subst send_loop.simps) simp
  next
    case False
    hence n: "n < PATTERN_SIZE" using less.prems by simp
    hence "drop n send_buf \<noteq> []" using assms(2) by simp
    then obtain k d1 where k: "p_write p d (drop n send_buf) = (int k, d1)" "1 \<le> k" "k \<le> length (drop n send_buf)" "q d1 = q d @ map g (take k (drop n send_buf))"
      by (rule channel_write [OF assms(1)])
    have "PATTERN_SIZE - (n + k) < PATTERN_SIZE - n" "n + k \<le> PATTERN_SIZE" using n k(2,3) assms(2) by auto
    from less.hyps [OF this, of d1] obtain d' where d': "send_loop p junk send_buf (int (n + k)) d1 = Some d'" "q d' = q d1 @ map g (drop (n + k) send_buf)"
      by blast
    have "drop n send_buf = take k (drop n send_buf) @ drop (n + k) send_buf"
      by (metis add.commute append_take_drop_id drop_drop)
    hence "map g (drop n send_buf) = map g (take k (drop n send_buf)) @ map g (drop (n + k) send_buf)" by (simp only: flip: map_append)
    hence "q d' = q d @ map g (drop n send_buf)" using d'(2) k(4) by simp
    moreover have "send_loop p junk send_buf (int n) d = send_loop p junk send_buf (int n + int k) d1"
      using n k(1,2) by (subst send_loop.simps) (simp add: write_port_def)
    ultimately show ?thesis using d'(1) by simp
  qed
qed

lemma recv_loop_ok:
  assumes "channel p q g" and "length rx = PATTERN_SIZE"
  shows "n \<le> PATTERN_SIZE \<Longrightarrow> length buf = PATTERN_SIZE \<Longrightarrow> take n buf = take n rx \<Longrightarrow> q d = drop n rx \<Longrightarrow>
    \<exists>d'. recv_loop p buf n d = Some (rx, d') \<and> q d' = []"
proof (induction "PATTERN_SIZE - n" arbitrary: n d buf rule: less_induct)
  case less
  show ?case
  proof (cases "n = PATTERN_SIZE")
    case True
    thus ?thesis using assms(2) less.prems by (subst recv_loop.simps) simp
  next
    case False
    hence n: "n < PATTERN_SIZE" using less.prems(1) by simp
    hence "q d \<noteq> []" "0 < PATTERN_SIZE - n" using assms(2) less.prems(4) by simp_all
    then obtain k d1 where k: "read_port p (PATTERN_SIZE - n) d = (int k, take k (q d), d1)" "1 \<le> k" "k \<le> PATTERN_SIZE - n" "k \<le> length (q d)" "q d1 = drop k (q d)"
      by (rule channel_read [OF assms(1)])
    let ?buf = "blit n (take k (q d)) buf"
    have len: "length (take k (q d)) = k" using k(4) by simp
    have "take (n + k) rx = take n rx @ take k (drop n rx)" by (rule take_add)
    moreover have "take (n + k) ?buf = take n buf @ take k (q d)" using len n less.prems(2) by (simp add: blit_def)
    ultimately have buf: "take (n + k) ?buf = take (n + k) rx" using less.prems(3,4) by simp
    have "length ?buf = PATTERN_SIZE" using n k(3) len less.prems(2) by simp
    moreover have "q d1 = drop (n + k) rx" using k(5) less.prems(4) by (simp add: add.commute)
    moreover have "PATTERN_SIZE - (n + k) < PATTERN_SIZE - n" "n + k \<le> PATTERN_SIZE" using k(2,3) n by linarith+
    ultimately obtain d' where "recv_loop p ?buf (n + k) d1 = Some (rx, d')" "q d' = []"
      using less.hyps [of "n + k" ?buf d1] buf by blast
    thus ?thesis using n k(1) len by (subst recv_loop.simps) simp
  qed
qed

lemma mismatch_iff: "length a = PATTERN_SIZE \<Longrightarrow> length b = PATTERN_SIZE \<Longrightarrow> mismatch a b \<longleftrightarrow> a \<noteq> b"
  by (auto simp: mismatch_def list_ex_iff list_eq_iff_nth_eq)

lemma serial_rounds_tell:
  assumes "channel p q g"
  shows "q d = [] \<Longrightarrow> length buf = PATTERN_SIZE \<Longrightarrow> \<forall>pat \<in> set pats. length pat = PATTERN_SIZE \<Longrightarrow>
    \<exists>d'. serial_rounds p junk pats buf d = Some (if \<forall>pat \<in> set pats. map g pat = pat then 0 else - 1, d')"
proof (induction pats arbitrary: buf d)
  case (Cons pat pats)
  have len: "length pat = PATTERN_SIZE" "length (map g pat) = PATTERN_SIZE" using Cons.prems(3) by simp_all
  obtain d1 where d1: "send_loop p junk pat 0 d = Some d1" "q d1 = map g pat"
    using send_loop_ok [OF assms len(1), of 0 junk d] Cons.prems(1) by auto
  obtain d2 where d2: "recv_loop p buf 0 d1 = Some (map g pat, d2)" "q d2 = []"
    using recv_loop_ok [OF assms len(2), of 0 buf d1] Cons.prems(2) d1(2) by auto
  show ?case
  proof (cases "map g pat = pat")
    case True
    thus ?thesis using Cons.IH [OF d2(2) len(2)] Cons.prems(3) d1(1) d2(1) len by (auto simp: mismatch_iff)
  next
    case False
    thus ?thesis using d1(1) d2(1) len by (auto simp: mismatch_iff)
  qed
qed simp

text \<open>
  The program on such a line: it ends, for every speed that is asked for, with status 0 exactly when
  every byte of every pattern came back unchanged and with -1 otherwise.
\<close>

theorem serial_main_tells:
  assumes "channel p q g" and "q d = []" and "length stack = PATTERN_SIZE" and "\<forall>pat \<in> set pats. length pat = PATTERN_SIZE" and "0 \<le> fd"
  shows "\<exists>d'. serial_main fd True True [baud] p junk pats stack d = Some (if \<forall>pat \<in> set pats. map g pat = pat then 0 else - 1, d')"
  using serial_rounds_tell [OF assms(1-4)] assms(5) by (simp add: serial_main_def set_opt_def)

definition loop_port :: "(8 word \<Rightarrow> 8 word) \<Rightarrow> bytes port" where
  "loop_port g = \<lparr>p_write = \<lambda>d bs. (int (min 16 (length bs)), d @ map g (take 16 bs)),
     p_select = \<lambda>d. (if d = [] then 0 else 1, d), p_read = \<lambda>d n. (Some (take (min n 8) d), drop (min n 8) d)\<rparr>"

lemma loop_port_channel: "channel (loop_port g) (\<lambda>d. d) g"
  unfolding channel_def
proof (intro conjI allI impI)
  fix d bs :: bytes
  assume "bs \<noteq> []"
  thus "\<exists>k d'. p_write (loop_port g) d bs = (int k, d') \<and> 1 \<le> k \<and> k \<le> length bs \<and> d' = d @ map g (take k bs)"
    by (intro exI [of _ "min 16 (length bs)"] exI [of _ "d @ map g (take 16 bs)"]) (auto simp: loop_port_def Suc_le_eq min_def)
next
  fix d :: bytes and n :: nat
  assume "d \<noteq> [] \<and> 0 < n"
  thus "\<exists>k d'. p_read (loop_port g) d n = (Some (take k d), d') \<and> 1 \<le> k \<and> k \<le> n \<and> k \<le> length d \<and> d' = drop k d"
    by (intro exI [of _ "min (length d) (min n 8)"] exI [of _ "drop (min n 8) d"]) (auto simp: loop_port_def Suc_le_eq min_def)
qed (simp add: loop_port_def)

theorem serial_main_tells_witness:
  "(\<exists>d'. serial_main 3 True True [''115200''] (loop_port (\<lambda>b. b)) 0 (map (replicate 1024) [0, 85, 170, 255, 7]) (replicate 1024 0) [] = Some (0, d')) \<and>
   (\<exists>d'. serial_main 3 True True [''115200''] (loop_port (\<lambda>b. b AND 0x7F)) 0 (map (replicate 1024) [0, 85, 170, 255, 7]) (replicate 1024 0) [] = Some (- 1, d'))"
  using serial_main_tells [OF loop_port_channel [of "\<lambda>b. b"], of "[]" "replicate 1024 0" "map (replicate 1024) [0, 85, 170, 255, 7]" 3 "''115200''" 0]
    serial_main_tells [OF loop_port_channel [of "\<lambda>b. b AND 0x7F"], of "[]" "replicate 1024 0" "map (replicate 1024) [0, 85, 170, 255, 7]" 3 "''115200''" 0]
  by (simp add: PATTERN_SIZE_def)

text \<open>The settings that are made are those of a raw line at the speed asked for, 9600 for a speed that is not in the list.\<close>

theorem set_opt_8N1: "\<exists>t. set_opt True True nSpeed 8 CHR ''N'' 1 = (0, Some t) \<and> raw_line (case map_of speeds nSpeed of Some code \<Rightarrow> code | None \<Rightarrow> B9600) t"
proof -
  have "\<forall>code \<in> insert B9600 (snd ` set speeds). code AND 0x100F = code \<and> code AND 0x970 = 0 \<and> code AND - 65 = code" by (simp add: speeds_def termios_defs)
  moreover have "(case map_of speeds nSpeed of Some code \<Rightarrow> code | None \<Rightarrow> B9600) \<in> insert B9600 (snd ` set speeds)"
    by (auto split: option.split dest: map_of_SomeD intro: rev_image_eqI)
  ultimately obtain code where c: "(case map_of speeds nSpeed of Some code \<Rightarrow> code | None \<Rightarrow> B9600) = code" "code AND 0x100F = code" "code AND 0x970 = 0" "code AND - 65 = code"
    by blast
  have "code AND 0x170 = (code AND 0x970) AND 0x170" "code AND 0x800 = (code AND 0x970) AND 0x800" by (simp_all add: and.assoc)
  thus ?thesis
    using c by (simp add: set_opt_def char_size_def parity_def speed_def stop_bits_def cfsetspeed_def raw_line_def termios_defs word_or_and)
qed

text \<open>A line that loses a byte keeps the test waiting for ever.\<close>

theorem recv_loop_waits:
  assumes "\<And>d. p_select p d = (0, d)" and "n < PATTERN_SIZE"
  shows "recv_loop p buf n d = None"
proof -
  have "PATTERN_SIZE \<le> n' \<or> p' \<noteq> p" if "recv_loop p' buf' n' d' = Some r" for p' buf' n' d' r
  proof (rule recv_loop.raw_induct [where P = "\<lambda>p' _ n' _ _. PATTERN_SIZE \<le> n' \<or> p' \<noteq> p", OF _ that])
    fix f p' buf' n' d' r
    assume ih: "\<And>p' buf' n' d' r. f p' buf' n' d' = Some r \<Longrightarrow> PATTERN_SIZE \<le> n' \<or> p' \<noteq> p"
      and body: "(if n' < PATTERN_SIZE then (case read_port p' (PATTERN_SIZE - n') d' of (recv_num, bs, d) \<Rightarrow>
          if recv_num < 0 then f p' buf' n' d else f p' (blit n' bs buf') (n' + length bs) d) else Some (buf', d')) = Some r"
    show "PATTERN_SIZE \<le> n' \<or> p' \<noteq> p"
    proof (rule ccontr)
      assume "\<not> ?thesis"
      hence n: "n' < PATTERN_SIZE" "p' = p" by simp_all
      from body have "f p (blit n' [] buf') (n' + 0) d' = Some r" using n assms(1) by (simp add: read_port_def)
      from ih [OF this] n show False by simp
    qed
  qed
  thus ?thesis using assms(2) by (metis not_Some_eq not_le)
qed

end
