(* ===== verification/Rtc.thy ===== *)
theory Rtc
  imports CString
begin

text \<open>
  The real time clock demo, src/rtc/rtc.c. The clock is a state of any type with its requests and a
  \<open>read\<close> that waits for an interrupt. What the program prints is kept where it is the result of a test:
  a time that was read, a request that failed, the call of the alarm function, the success.
\<close>

subsection \<open>The clock\<close>

record rtc_time =
  rt_sec :: int
  rt_min :: int
  rt_hour :: int
  rt_mday :: int
  rt_mon :: int
  rt_year :: int

datatype rtc_req =
    RTC_RD_TIME | RTC_SET_TIME rtc_time | RTC_WKALM_SET rtc_time | RTC_WKALM_RD | RTC_ALM_SET rtc_time | RTC_ALM_READ
  | RTC_AIE_ON | RTC_AIE_OFF | RTC_TICK_ON | RTC_TICK_SET nat | RTC_TICK_READ | RTC_TICK_OFF

text \<open>
  A request fails (\<open>None\<close>) or is done; those that read give the time they stored, the answer of the
  others is not looked at. \<open>read\<close> gives whether data came. The tick count is only printed.
\<close>

record 'd rtc =
  r_ioctl :: "'d \<Rightarrow> rtc_req \<Rightarrow> rtc_time option \<times> 'd"
  r_read :: "'d \<Rightarrow> bool \<times> 'd"

datatype rtc_out = Shows rtc_time | Failed rtc_req | NoData | FuncCalled | TestOK

text \<open>A request, the message and the return of the function where it fails, and what follows where it does not.\<close>

definition rtc_do :: "'d rtc \<Rightarrow> rtc_req \<Rightarrow> rtc_out list \<times> 'd \<Rightarrow> (rtc_time \<Rightarrow> rtc_out list \<times> 'd \<Rightarrow> rtc_out list \<times> 'd) \<Rightarrow> rtc_out list \<times> 'd" where
  "rtc_do r q s k =
     (case r_ioctl r (snd s) q of
        (None, d) \<Rightarrow> (fst s @ [Failed q], d)
      | (Some t, d) \<Rightarrow> k t (fst s, d))"

definition rtc_say :: "rtc_out \<Rightarrow> rtc_out list \<times> 'd \<Rightarrow> rtc_out list \<times> 'd" where
  "rtc_say out s = (fst s @ [out], snd s)"

subsection \<open>Time\<close>

definition read_time :: "'d rtc \<Rightarrow> rtc_out list \<times> 'd \<Rightarrow> rtc_out list \<times> 'd" where
  "read_time r s = rtc_do r RTC_RD_TIME s (\<lambda>t s. rtc_say TestOK (rtc_say (Shows t) s))"

text \<open>
  \<open>scanf\<close> with six \<open>%s\<close>: white space is skipped and a word is stored with its terminator, whatever the
  size of its array, until the input ends; the arrays are static and keep what they hold.
\<close>

fun scan_words :: "nat list \<Rightarrow> string list \<Rightarrow> string \<Rightarrow> fault + string list \<times> string" where
  "scan_words (room # rooms) (old # olds) input =
     (let input = dropWhile isspace_c input; w = takeWhile (\<lambda>c. \<not> isspace_c c) input in
      if w = [] then Inr (old # olds, [])
      else if room \<le> length w then Inl OutOfBounds
      else bindr (scan_words rooms olds (dropWhile (\<lambda>c. \<not> isspace_c c) input)) (\<lambda>(ws, rest). Inr (w # ws, rest)))"
| "scan_words rooms olds input = Inr (olds, input)"

definition rooms :: "nat list" where "rooms = [5, 4, 4, 4, 4, 4]"

definition words_time :: "string list \<Rightarrow> rtc_time" where
  "words_time ws =
     \<lparr>rt_sec = atoi (ws ! 5), rt_min = atoi (ws ! 4), rt_hour = atoi (ws ! 3), rt_mday = atoi (ws ! 2),
      rt_mon = s32 (atoi (ws ! 1) - 1), rt_year = s32 (atoi (ws ! 0) - 1900)\<rparr>"

definition setup_time :: "'d rtc \<Rightarrow> string list \<Rightarrow> string \<Rightarrow> rtc_out list \<times> 'd \<Rightarrow> fault + string list \<times> string \<times> rtc_out list \<times> 'd" where
  "setup_time r statics input s =
     bindr (scan_words rooms statics input) (\<lambda>(ws, rest).
       let t = words_time ws in
       Inr (ws, rest, rtc_do r (RTC_SET_TIME t) s (\<lambda>_ s. rtc_say TestOK (rtc_say (Shows t) s))))"

subsection \<open>Alarms\<close>

definition later :: "int \<Rightarrow> rtc_time \<Rightarrow> rtc_time" where
  "later sec t =
     (let t = t\<lparr>rt_sec := s32 (rt_sec t + sec)\<rparr> in
      if 60 < rt_sec t then t\<lparr>rt_sec := s32 (rt_sec t - 60), rt_min := s32 (rt_min t + 1)\<rparr> else t)"

text \<open>The end that both alarms have.\<close>

definition wait_alarm :: "'d rtc \<Rightarrow> rtc_out list \<times> 'd \<Rightarrow> rtc_out list \<times> 'd" where
  "wait_alarm r s =
     rtc_do r RTC_AIE_ON s (\<lambda>_ s.
       case r_read r (snd s) of (got, d) \<Rightarrow>
         if \<not> got then rtc_say NoData (fst s, d)
         else rtc_do r RTC_AIE_OFF (rtc_say FuncCalled (fst s, d)) (\<lambda>_. rtc_say TestOK))"

definition setup_wkalarm :: "'d rtc \<Rightarrow> int \<Rightarrow> rtc_out list \<times> 'd \<Rightarrow> rtc_out list \<times> 'd" where
  "setup_wkalarm r sec s =
     rtc_do r RTC_RD_TIME s (\<lambda>t s.
       rtc_do r (RTC_WKALM_SET (later sec t)) (rtc_say (Shows t) s) (\<lambda>_ s.
         rtc_do r RTC_WKALM_RD s (\<lambda>t s. wait_alarm r (rtc_say (Shows t) s))))"

definition setup_alarm :: "'d rtc \<Rightarrow> int \<Rightarrow> rtc_out list \<times> 'd \<Rightarrow> rtc_out list \<times> 'd" where
  "setup_alarm r sec s =
     rtc_do r RTC_RD_TIME s (\<lambda>t s.
       rtc_do r (RTC_ALM_SET (later sec t)) (rtc_say (Shows t) s) (\<lambda>_ s.
         rtc_do r RTC_ALM_READ s (\<lambda>t s. wait_alarm r (rtc_say (Shows t) s))))"

subsection \<open>Ticks\<close>

fun tick_loop :: "'d rtc \<Rightarrow> nat \<Rightarrow> rtc_out list \<times> 'd \<Rightarrow> bool \<times> rtc_out list \<times> 'd" where
  "tick_loop r 0 s = (True, s)"
| "tick_loop r (Suc icount) s =
     (case r_read r (snd s) of (got, d) \<Rightarrow>
        if got then tick_loop r icount (rtc_say FuncCalled (fst s, d)) else (False, rtc_say NoData (fst s, d)))"

definition setup_tick :: "'d rtc \<Rightarrow> nat \<Rightarrow> rtc_out list \<times> 'd \<Rightarrow> rtc_out list \<times> 'd" where
  "setup_tick r tick s =
     rtc_do r RTC_TICK_ON s (\<lambda>_ s. rtc_do r (RTC_TICK_SET tick) s (\<lambda>_ s. rtc_do r RTC_TICK_READ s (\<lambda>_ s.
       case tick_loop r 10 s of (ok, s) \<Rightarrow>
         if ok then rtc_do r RTC_TICK_OFF s (\<lambda>_. rtc_say TestOK) else s)))"

subsection \<open>The menu\<close>

text \<open>
  The state of the menu: the static arrays and the output with the clock. At the end of the input \<open>getchar\<close> gives
  \<open>EOF\<close>, which is no command, so the loop goes on without end.
\<close>

partial_function (option) rtc_menu :: "'d rtc \<Rightarrow> string \<Rightarrow> string list \<Rightarrow> rtc_out list \<times> 'd \<Rightarrow> (fault + rtc_out list \<times> 'd) option" where
  "rtc_menu r input statics s =
     (case input of
        [] \<Rightarrow> rtc_menu r [] statics s
      | c # rest \<Rightarrow>
          if c = CHR ''1'' then rtc_menu r rest statics (read_time r s)
          else if c = CHR ''2'' then
            (case setup_time r statics rest s of
               Inl e \<Rightarrow> Some (Inl e)
             | Inr (ws, rest, s) \<Rightarrow> rtc_menu r rest ws s)
          else if c = CHR ''3'' then rtc_menu r rest statics (setup_wkalarm r 5 s)
          else if c = CHR ''4'' then rtc_menu r rest statics (setup_alarm r 3 s)
          else if c = CHR ''5'' then rtc_menu r rest statics (setup_tick r 0 s)
          else if c = CHR ''X'' \<or> c = CHR ''x'' then Some (Inr s)
          else rtc_menu r rest statics s)"

text \<open>Which of the three devices can be opened; without one \<open>main\<close> returns without a value.\<close>

definition rtc_main :: "bool list \<Rightarrow> 'd rtc \<Rightarrow> string \<Rightarrow> 'd \<Rightarrow> (fault + rtc_out list \<times> 'd) option" where
  "rtc_main opens r input d =
     (if list_ex id (take 3 opens) then rtc_menu r input (replicate 6 []) ([], d) else Some (Inr ([], d)))"

subsection \<open>The alarm is set for the right moment\<close>

definition clock_ok :: "rtc_time \<Rightarrow> bool" where
  "clock_ok t \<longleftrightarrow> 0 \<le> rt_sec t \<and> rt_sec t < 60 \<and> 0 \<le> rt_min t \<and> rt_min t < 60"

definition day_seconds :: "rtc_time \<Rightarrow> int" where
  "day_seconds t = (rt_hour t * 60 + rt_min t) * 60 + rt_sec t"

lemma later_cases:
  assumes "clock_ok t" and "0 \<le> n" and "n < 60"
  shows "later n t = (if 60 < rt_sec t + n then t\<lparr>rt_sec := rt_sec t + n - 60, rt_min := rt_min t + 1\<rparr> else t\<lparr>rt_sec := rt_sec t + n\<rparr>)"
  using assms by (simp add: later_def clock_ok_def s32_id in_s32_def)

lemma day_seconds_later: "clock_ok t \<Longrightarrow> 0 \<le> n \<Longrightarrow> n < 60 \<Longrightarrow> day_seconds (later n t) = day_seconds t + n"
  by (simp add: later_cases day_seconds_def)

lemma clock_ok_later:
  "clock_ok t \<Longrightarrow> 0 \<le> n \<Longrightarrow> n < 60 \<Longrightarrow> clock_ok (later n t) \<longleftrightarrow> rt_sec t + n \<noteq> 60 \<and> (rt_min t = 59 \<longrightarrow> rt_sec t + n < 60)"
  by (auto simp: later_cases clock_ok_def)

text \<open>The alarm \<open>n\<close> seconds ahead needs no carry that the code does not make.\<close>

definition alarm_fits :: "int \<Rightarrow> rtc_time \<Rightarrow> bool" where
  "alarm_fits n t \<longleftrightarrow> rt_sec t + n \<noteq> 60 \<and> (rt_min t = 59 \<longrightarrow> rt_sec t + n < 60)"

text \<open>
  A clock with one alarm: \<open>now\<close> and \<open>alarm\<close> are read as they are, a time with 60 seconds or 60 minutes is refused,
  and the interrupt comes.
\<close>

definition alarm_clock :: "'d rtc \<Rightarrow> ('d \<Rightarrow> rtc_time) \<Rightarrow> ('d \<Rightarrow> rtc_time) \<Rightarrow> bool" where
  "alarm_clock r now alarm \<longleftrightarrow>
     (\<forall>d. \<exists>d'. r_ioctl r d RTC_RD_TIME = (Some (now d), d')) \<and>
     (\<forall>d t q. q \<in> {RTC_ALM_SET t, RTC_WKALM_SET t} \<longrightarrow>
        (\<exists>d'. if clock_ok t then (\<exists>u. r_ioctl r d q = (Some u, d')) \<and> alarm d' = t else r_ioctl r d q = (None, d'))) \<and>
     (\<forall>d q. q \<in> {RTC_ALM_READ, RTC_WKALM_RD} \<longrightarrow> (\<exists>d'. r_ioctl r d q = (Some (alarm d), d') \<and> alarm d' = alarm d)) \<and>
     (\<forall>d q. q \<in> {RTC_AIE_ON, RTC_AIE_OFF} \<longrightarrow> (\<exists>u d'. r_ioctl r d q = (Some u, d') \<and> alarm d' = alarm d)) \<and>
     (\<forall>d. \<exists>d'. r_read r d = (True, d') \<and> alarm d' = alarm d)"

lemma alarm_clockD:
  assumes "alarm_clock r now alarm"
  shows "\<exists>d'. r_ioctl r d RTC_RD_TIME = (Some (now d), d')"
    and "q \<in> {RTC_ALM_SET t, RTC_WKALM_SET t} \<Longrightarrow>
      \<exists>d'. if clock_ok t then (\<exists>u. r_ioctl r d q = (Some u, d')) \<and> alarm d' = t else r_ioctl r d q = (None, d')"
    and "q \<in> {RTC_ALM_READ, RTC_WKALM_RD} \<Longrightarrow> \<exists>d'. r_ioctl r d q = (Some (alarm d), d') \<and> alarm d' = alarm d"
    and "q \<in> {RTC_AIE_ON, RTC_AIE_OFF} \<Longrightarrow> \<exists>u d'. r_ioctl r d q = (Some u, d') \<and> alarm d' = alarm d"
    and "\<exists>d'. r_read r d = (True, d') \<and> alarm d' = alarm d"
proof -
  note laws = assms [unfolded alarm_clock_def]
  note laws2 = laws [THEN conjunct2] and laws3 = laws [THEN conjunct2, THEN conjunct2] and laws4 = laws [THEN conjunct2, THEN conjunct2, THEN conjunct2]
  show "\<exists>d'. r_ioctl r d RTC_RD_TIME = (Some (now d), d')" by (rule laws [THEN conjunct1, THEN spec])
  show "\<exists>d'. if clock_ok t then (\<exists>u. r_ioctl r d q = (Some u, d')) \<and> alarm d' = t else r_ioctl r d q = (None, d')" if "q \<in> {RTC_ALM_SET t, RTC_WKALM_SET t}"
    by (rule laws2 [THEN conjunct1, THEN spec, THEN spec, THEN spec, THEN mp, OF that])
  show "\<exists>d'. r_ioctl r d q = (Some (alarm d), d') \<and> alarm d' = alarm d" if "q \<in> {RTC_ALM_READ, RTC_WKALM_RD}"
    by (rule laws3 [THEN conjunct1, THEN spec, THEN spec, THEN mp, OF that])
  show "\<exists>u d'. r_ioctl r d q = (Some u, d') \<and> alarm d' = alarm d" if "q \<in> {RTC_AIE_ON, RTC_AIE_OFF}"
    by (rule laws4 [THEN conjunct1, THEN spec, THEN spec, THEN mp, OF that])
  show "\<exists>d'. r_read r d = (True, d') \<and> alarm d' = alarm d" by (rule laws4 [THEN conjunct2, THEN spec])
qed

lemma wait_alarm_rings:
  assumes "alarm_clock r now alarm"
  shows "\<exists>d'. wait_alarm r (out, d) = (out @ [FuncCalled, TestOK], d') \<and> alarm d' = alarm d"
proof -
  obtain u d1 where d1: "r_ioctl r d RTC_AIE_ON = (Some u, d1)" "alarm d1 = alarm d" using alarm_clockD(4) [OF assms, of RTC_AIE_ON d] by auto
  obtain d2 where d2: "r_read r d1 = (True, d2)" "alarm d2 = alarm d1" using alarm_clockD(5) [OF assms, of d1] by auto
  obtain v d3 where d3: "r_ioctl r d2 RTC_AIE_OFF = (Some v, d3)" "alarm d3 = alarm d2" using alarm_clockD(4) [OF assms, of RTC_AIE_OFF d2] by auto
  show ?thesis using d1 d2 d3 by (simp add: wait_alarm_def rtc_do_def rtc_say_def)
qed

text \<open>What the two functions share: they differ in the requests that set and read the alarm.\<close>

lemma alarm_sequence:
  assumes clock: "alarm_clock r now alarm" and now: "clock_ok (now d)" and n: "0 \<le> n" "n < 60"
    and kind: "(set_q, read_q) \<in> {(RTC_ALM_SET, RTC_ALM_READ), (RTC_WKALM_SET, RTC_WKALM_RD)}"
  shows "\<exists>d'. rtc_do r RTC_RD_TIME (out, d) (\<lambda>t s. rtc_do r (set_q (later n t)) (rtc_say (Shows t) s) (\<lambda>_ s.
         rtc_do r read_q s (\<lambda>t s. wait_alarm r (rtc_say (Shows t) s)))) =
      (out @ Shows (now d) # (if clock_ok (later n (now d)) then [Shows (later n (now d)), FuncCalled, TestOK]
         else [Failed (set_q (later n (now d)))]), d') \<and>
      (clock_ok (later n (now d)) \<longrightarrow> alarm d' = later n (now d))"
proof -
  let ?t = "later n (now d)"
  obtain d1 where d1: "r_ioctl r d RTC_RD_TIME = (Some (now d), d1)" using alarm_clockD(1) [OF clock] by blast
  have "set_q ?t \<in> {RTC_ALM_SET ?t, RTC_WKALM_SET ?t}" using kind by auto
  note set_t = alarm_clockD(2) [OF clock this, of d1]
  show ?thesis
  proof (cases "clock_ok ?t")
    case True
    obtain u d2 where d2: "r_ioctl r d1 (set_q ?t) = (Some u, d2)" "alarm d2 = ?t" using set_t True by auto
    have "read_q \<in> {RTC_ALM_READ, RTC_WKALM_RD}" using kind by auto
    then obtain d3 where d3: "r_ioctl r d2 read_q = (Some (alarm d2), d3)" "alarm d3 = alarm d2" using alarm_clockD(3) [OF clock, of read_q d2] by auto
    show ?thesis
      using wait_alarm_rings [OF clock, of "out @ [Shows (now d), Shows ?t]" d3] d1 d2 d3 True by (auto simp: rtc_do_def rtc_say_def)
  next
    case False
    then obtain d2 where "r_ioctl r d1 (set_q ?t) = (None, d2)" using set_t by auto
    thus ?thesis using d1 False by (simp add: rtc_do_def rtc_say_def)
  qed
qed


text \<open>A clock that stands still, with the alarm beside it.\<close>

definition still_clock :: "(rtc_time \<times> rtc_time) rtc" where
  "still_clock =
     \<lparr>r_ioctl = \<lambda>d q. (case q of
        RTC_ALM_SET t \<Rightarrow> if clock_ok t then (Some t, (fst d, t)) else (None, d)
      | RTC_WKALM_SET t \<Rightarrow> if clock_ok t then (Some t, (fst d, t)) else (None, d)
      | RTC_ALM_READ \<Rightarrow> (Some (snd d), d) | RTC_WKALM_RD \<Rightarrow> (Some (snd d), d)
      | _ \<Rightarrow> (Some (fst d), d)),
      r_read = \<lambda>d. (True, d)\<rparr>"

lemma still_clock_alarms: "alarm_clock still_clock fst snd"
  by (auto simp: alarm_clock_def still_clock_def)

definition at_time :: "int \<Rightarrow> int \<Rightarrow> rtc_time" where
  "at_time m s = \<lparr>rt_sec = s, rt_min = m, rt_hour = 10, rt_mday = 15, rt_mon = 2, rt_year = 112\<rparr>"


subsection \<open>Setting the time\<close>

definition time_words :: "rtc_time \<Rightarrow> string list" where
  "time_words t = map (\<lambda>v. dec_str (nat v)) [rt_year t + 1900, rt_mon t + 1, rt_mday t, rt_hour t, rt_min t, rt_sec t]"

lemma scan_words_print:
  assumes "\<forall>w \<in> set ws. w \<noteq> [] \<and> (\<forall>c \<in> set w. \<not> isspace_c c)" and "list_all2 (\<lambda>room w. length w < room) rs ws" and "length olds = length ws"
  shows "scan_words rs olds (concat (map (\<lambda>w. CHR 0x0A # w) ws) @ CHR 0x0A # rest) = Inr (ws, CHR 0x0A # rest)"
  using assms
proof (induction ws arbitrary: rs olds)
  case (Cons w ws)
  obtain room rs' where rs: "rs = room # rs'" "length w < room" "list_all2 (\<lambda>room w. length w < room) rs' ws"
    using Cons.prems(2) by (auto simp: list_all2_Cons2)
  obtain old olds' where olds: "olds = old # olds'" "length olds' = length ws" using Cons.prems(3) by (cases olds) auto
  let ?more = "concat (map (\<lambda>w. CHR 0x0A # w) ws) @ CHR 0x0A # rest"
  obtain tl' where more: "?more = CHR 0x0A # tl'" by (cases ws) auto
  have nl: "isspace_c (CHR 0x0A)" by (simp add: isspace_c_def)
  have w: "w \<noteq> []" "\<forall>c \<in> set w. \<not> isspace_c c" using Cons.prems(1) by simp_all
  have skip: "dropWhile isspace_c (CHR 0x0A # w @ ?more) = w @ ?more" using w nl by (cases w) auto
  have word: "takeWhile (\<lambda>c. \<not> isspace_c c) (w @ ?more) = w" "dropWhile (\<lambda>c. \<not> isspace_c c) (w @ ?more) = ?more"
    using w(2) nl unfolding more by (simp_all add: takeWhile_append2 dropWhile_append2)
  have "scan_words rs' olds' ?more = Inr (ws, CHR 0x0A # rest)" using Cons.IH [OF _ rs(3) olds(2)] Cons.prems(1) by simp
  thus ?case using rs(1,2) olds(1) w(1) skip word by (simp add: bindr_def)
qed (auto simp: scan_words.simps)

text \<open>The six words of a time of the years 1900 to 9999 set the clock to this time.\<close>

theorem setup_time_sets:
  assumes "0 \<le> rt_year t" "rt_year t + 1900 < 10000" "0 \<le> rt_mon t" "rt_mon t < 12" "0 \<le> rt_mday t" "rt_mday t < 32"
    and "0 \<le> rt_hour t" "rt_hour t < 24" "0 \<le> rt_min t" "rt_min t < 60" "0 \<le> rt_sec t" "rt_sec t < 60" and "length statics = 6"
  shows "setup_time r statics (concat (map (\<lambda>w. CHR 0x0A # w) (time_words t)) @ CHR 0x0A # rest) s =
    Inr (time_words t, CHR 0x0A # rest, rtc_do r (RTC_SET_TIME t) s (\<lambda>_ s. rtc_say TestOK (rtc_say (Shows t) s)))"
proof -
  have two: "length (dec_str (nat v)) < 4" if "v < 100" for v proof -
    have "nat v < 10 ^ Suc 1" using that by simp
    from length_dec_str [OF this] show ?thesis by simp
  qed
  have four: "length (dec_str (nat v)) < 5" if "v < 10000" for v proof -
    have "nat v < 10 ^ Suc 3" using that by simp
    from length_dec_str [OF this] show ?thesis by simp
  qed
  have "\<forall>w \<in> set (time_words t). w \<noteq> [] \<and> (\<forall>c \<in> set w. \<not> isspace_c c)" by (auto simp: time_words_def dest: dec_str_plain(1))
  moreover have "list_all2 (\<lambda>room w. length w < room) rooms (time_words t)"
    using assms by (simp add: rooms_def time_words_def two four)
  ultimately have scan: "scan_words rooms statics (concat (map (\<lambda>w. CHR 0x0A # w) (time_words t)) @ CHR 0x0A # rest) = Inr (time_words t, CHR 0x0A # rest)"
    using assms(13) by (intro scan_words_print) (simp_all add: time_words_def)
  have "words_time (time_words t) = t"
    using assms by (simp add: words_time_def time_words_def atoi_dec_str s32_id in_s32_def)
  thus ?thesis by (simp add: setup_time_def scan bindr_def)
qed

subsection \<open>The ticks and the menu\<close>

text \<open>The function is called for ten ticks.\<close>

lemma tick_loop_calls:
  assumes "\<And>d. \<exists>d'. r_read r d = (True, d')"
  shows "\<exists>d'. tick_loop r n (out, d) = (True, out @ replicate n FuncCalled, d')"
proof (induction n arbitrary: out d)
  case (Suc n)
  obtain d1 where "r_read r d = (True, d1)" using assms by blast
  thus ?case using Suc.IH [of "out @ [FuncCalled]" d1] by (simp add: rtc_say_def replicate_app_Cons_same)
qed simp

text \<open>When the input ends without an \<open>X\<close>, the menu never returns.\<close>

theorem rtc_menu_eof: "rtc_menu r [] statics s = None"
proof -
  have "input \<noteq> []" if "rtc_menu r' input statics' s' = Some x" for r' :: "'d rtc" and input statics' s' x
  proof (rule rtc_menu.raw_induct [where P = "\<lambda>_ input _ _ _. input \<noteq> []", OF _ that])
  qed (fastforce split: list.splits)
  thus ?thesis by (metis not_None_eq)
qed

end
