(* ===== verification/Gpio.thy ===== *)
theory Gpio
  imports CString
begin

text \<open>
  The GPIO demo, src/gpio/gpio.c. The files below \<open>/sys/class/gpio\<close> answer as a function of the events so far; the
  loops of \<open>main\<close> have no end and run here for a given number of rounds.
\<close>

subsection \<open>Files\<close>

datatype gpio_ev = GOpen string | GWrite string string | GRead string | GClose string | Status "32 word" nat | Interrupt "32 word" | Dot

text \<open>The result of \<open>open\<close>; the character that \<open>read\<close> stores, if any; the results of \<open>lseek\<close> and \<open>poll\<close>, with \<open>POLLPRI\<close>.\<close>

record gpio_env =
  ge_open :: "gpio_ev list \<Rightarrow> string \<Rightarrow> int"
  ge_read :: "gpio_ev list \<Rightarrow> string \<Rightarrow> char option"
  ge_lseek :: "gpio_ev list \<Rightarrow> int"
  ge_poll :: "gpio_ev list \<Rightarrow> int \<times> bool"

definition SYSFS_GPIO_DIR :: string where "SYSFS_GPIO_DIR = ''/sys/class/gpio''"
definition MAX_BUF :: nat where "MAX_BUF = 64"

text \<open>\<open>snprintf\<close> into a buffer of \<open>MAX_BUF\<close> bytes, and the conversion \<open>%d\<close> of an unsigned number.\<close>

definition in_buf :: "string \<Rightarrow> string" where "in_buf s = take (MAX_BUF - 1) s"
definition gpio_num :: "32 word \<Rightarrow> string" where "gpio_num gpio = dec_int (sint gpio)"

definition gpio_path :: "32 word \<Rightarrow> string \<Rightarrow> string" where
  "gpio_path gpio attr = in_buf (SYSFS_GPIO_DIR @ ''/gpio'' @ gpio_num gpio @ attr)"

text \<open>The frame that the functions share: a negative descriptor is returned, else the file is used and closed.\<close>

definition with_file :: "gpio_env \<Rightarrow> string \<Rightarrow> (gpio_ev list \<Rightarrow> gpio_ev list) \<Rightarrow> gpio_ev list \<Rightarrow> int \<times> gpio_ev list" where
  "with_file e path use l =
     (let fd = ge_open e l path; l = l @ [GOpen path] in
      if fd < 0 then (fd, l) else (0, use l @ [GClose path]))"

definition write_file :: "gpio_env \<Rightarrow> string \<Rightarrow> string \<Rightarrow> gpio_ev list \<Rightarrow> int \<times> gpio_ev list" where
  "write_file e path s l = with_file e path (\<lambda>l. l @ [GWrite path s]) l"

subsection \<open>Operations\<close>

definition gpio_export :: "gpio_env \<Rightarrow> 32 word \<Rightarrow> gpio_ev list \<Rightarrow> int \<times> gpio_ev list" where
  "gpio_export e gpio = write_file e (SYSFS_GPIO_DIR @ ''/export'') (in_buf (gpio_num gpio))"

definition gpio_unexport :: "gpio_env \<Rightarrow> 32 word \<Rightarrow> gpio_ev list \<Rightarrow> int \<times> gpio_ev list" where
  "gpio_unexport e gpio = write_file e (SYSFS_GPIO_DIR @ ''/unexport'') (in_buf (gpio_num gpio))"

text \<open>The strings are written with their terminator.\<close>

definition gpio_set_dir :: "gpio_env \<Rightarrow> 32 word \<Rightarrow> nat \<Rightarrow> gpio_ev list \<Rightarrow> int \<times> gpio_ev list" where
  "gpio_set_dir e gpio out_flag =
     write_file e (gpio_path gpio ''/direction'') (if out_flag \<noteq> 0 then ''out'' @ [CHR 0x00] else ''in'' @ [CHR 0x00])"

definition gpio_set_value :: "gpio_env \<Rightarrow> 32 word \<Rightarrow> nat \<Rightarrow> gpio_ev list \<Rightarrow> int \<times> gpio_ev list" where
  "gpio_set_value e gpio v =
     write_file e (gpio_path gpio ''/value'') (if v \<noteq> 0 then ''1'' @ [CHR 0x00] else ''0'' @ [CHR 0x00])"

text \<open>
  A \<open>read\<close> that gives nothing leaves \<open>ch\<close> as it is, \<open>junk\<close>. The result has the value that is stored, if the file was
  opened.
\<close>

definition gpio_get_value :: "gpio_env \<Rightarrow> char \<Rightarrow> 32 word \<Rightarrow> nat \<Rightarrow> gpio_ev list \<Rightarrow> int \<times> nat \<times> gpio_ev list" where
  "gpio_get_value e junk gpio old l =
     (let path = gpio_path gpio ''/value''; fd = ge_open e l path; l = l @ [GOpen path] in
      if fd < 0 then (fd, old, l)
      else
        let ch = (case ge_read e l path of Some c \<Rightarrow> c | None \<Rightarrow> junk) in
        (0, if ch \<noteq> CHR ''0'' then 1 else 0, l @ [GRead path, GClose path]))"

definition gpio_set_edge :: "gpio_env \<Rightarrow> 32 word \<Rightarrow> string \<Rightarrow> gpio_ev list \<Rightarrow> int \<times> gpio_ev list" where
  "gpio_set_edge e gpio edge = write_file e (gpio_path gpio ''/edge'') (edge @ [CHR 0x00])"

definition gpio_fd_open :: "gpio_env \<Rightarrow> 32 word \<Rightarrow> gpio_ev list \<Rightarrow> int \<times> gpio_ev list" where
  "gpio_fd_open e gpio l = (let path = gpio_path gpio ''/value'' in (ge_open e l path, l @ [GOpen path]))"

subsection \<open>The program\<close>

fun output_loop :: "gpio_env \<Rightarrow> 32 word \<Rightarrow> nat \<Rightarrow> nat \<Rightarrow> gpio_ev list \<Rightarrow> gpio_ev list" where
  "output_loop e gpio 0 toggle l = l"
| "output_loop e gpio (Suc n) toggle l =
     (let toggle = (if toggle = 0 then 1 else 0) in
      output_loop e gpio n toggle (snd (gpio_set_value e gpio (if toggle \<noteq> 0 then 1 else 0) l)))"

fun input_loop :: "gpio_env \<Rightarrow> char \<Rightarrow> 32 word \<Rightarrow> nat \<Rightarrow> nat \<Rightarrow> gpio_ev list \<Rightarrow> gpio_ev list" where
  "input_loop e junk gpio 0 v l = l"
| "input_loop e junk gpio (Suc n) v l =
     (case gpio_get_value e junk gpio v l of (_, v, l) \<Rightarrow> input_loop e junk gpio n v (l @ [Status gpio v]))"

text \<open>The result is the status of the program where it returns.\<close>

fun interrupt_loop :: "gpio_env \<Rightarrow> 32 word \<Rightarrow> nat \<Rightarrow> gpio_ev list \<Rightarrow> int option \<times> gpio_ev list" where
  "interrupt_loop e gpio 0 l = (None, l)"
| "interrupt_loop e gpio (Suc n) l =
     (if ge_lseek e l = - 1 then (Some (- 1), l)
      else
        case ge_poll e l of (rc, pri) \<Rightarrow>
          if rc < 0 then (Some (- 1), l)
          else
            let l = (if rc = 0 then l @ [Dot] else l);
                l = (if pri then l @ [GRead (gpio_path gpio ''/value''), Interrupt gpio] else l) in
            interrupt_loop e gpio n l)"

definition gpio_main :: "gpio_env \<Rightarrow> char \<Rightarrow> nat \<Rightarrow> int \<Rightarrow> nat \<Rightarrow> gpio_ev list \<Rightarrow> int option \<times> gpio_ev list" where
  "gpio_main e junk value0 i n l =
     (let gpio = 32 in
      if i = 1 then (None, output_loop e gpio n 0 (snd (gpio_set_dir e gpio 1 (snd (gpio_export e gpio l)))))
      else if i = 2 then (None, input_loop e junk gpio n value0 (snd (gpio_set_dir e gpio 0 (snd (gpio_export e gpio l)))))
      else if i = 3 then
        let l = snd (gpio_set_edge e gpio ''rising'' (snd (gpio_set_dir e gpio 0 (snd (gpio_export e gpio l)))));
            (fd, l) = gpio_fd_open e gpio l in
        interrupt_loop e gpio n (l @ [GRead (gpio_path gpio ''/value'')])
      else (Some 0, l))"

subsection \<open>Paths\<close>

lemma length_gpio_num: "length (gpio_num gpio) \<le> 11"
proof -
  have "nat \<bar>sint gpio\<bar> < 10 ^ Suc 9" using sint_ge [of gpio] sint_lt [of gpio] by simp
  from length_dec_str [OF this] show ?thesis by (auto simp: gpio_num_def dec_int_def)
qed

text \<open>No path is cut by the size of the buffers, for any of the \<open>2\<^sup>3\<^sup>2\<close> numbers.\<close>

theorem gpio_path_whole:
  assumes "attr \<in> {''/direction'', ''/value'', ''/edge''}"
  shows "gpio_path gpio attr = ''/sys/class/gpio/gpio'' @ gpio_num gpio @ attr" and "in_buf (gpio_num gpio) = gpio_num gpio"
  using assms length_gpio_num [of gpio] by (auto simp: gpio_path_def in_buf_def MAX_BUF_def SYSFS_GPIO_DIR_def)

subsection \<open>What is written\<close>

fun writes :: "gpio_ev list \<Rightarrow> (string \<times> string) list" where
  "writes [] = []"
| "writes (GWrite p s # l) = (p, s) # writes l"
| "writes (_ # l) = writes l"

lemma writes_append [simp]: "writes (a @ b) = writes a @ writes b"
  by (induction a rule: writes.induct) simp_all

lemma writes_write_file: "(\<And>l p. 0 \<le> ge_open e l p) \<Longrightarrow> writes (snd (write_file e path s l)) = writes l @ [(path, s)]"
  by (simp add: write_file_def with_file_def Let_def linorder_not_less [symmetric])

lemma output_loop_writes:
  assumes "\<And>l p. 0 \<le> ge_open e l p" and "toggle < 2"
  shows "writes (output_loop e gpio n toggle l) =
    writes l @ map (\<lambda>k. (gpio_path gpio ''/value'', [if even (k + toggle) then CHR ''1'' else CHR ''0'', CHR 0x00])) [0 ..< n]"
  using assms(2)
proof (induction n arbitrary: toggle l)
  case (Suc n)
  have up: "[0 ..< Suc n] = 0 # map Suc [0 ..< n]" by (simp add: upt_conv_Cons map_Suc_upt)
  have "toggle = 0 \<or> toggle = 1" using Suc.prems by auto
  thus ?case
    by (auto simp: up Suc.IH gpio_set_value_def writes_write_file [OF assms(1)] o_def simp del: upt_Suc)
qed simp

text \<open>
  The output test makes pin 32 an output and then writes high and low in turn, beginning with high, for
  as long as it runs.
\<close>

theorem gpio_output_blinks:
  assumes "\<And>l p. 0 \<le> ge_open e l p"
  shows "writes (snd (gpio_main e junk v 1 n [])) =
    [(''/sys/class/gpio/export'', ''32''), (''/sys/class/gpio/gpio32/direction'', ''out'' @ [CHR 0x00])] @
    map (\<lambda>k. (''/sys/class/gpio/gpio32/value'', [if even k then CHR ''1'' else CHR ''0'', CHR 0x00])) [0 ..< n]"
proof -
  have num: "gpio_num 32 = ''32''" by code_simp
  note path = gpio_path_whole(1) [of _ 32, unfolded num]
  show ?thesis
    using gpio_path_whole(2) [of _ 32]
    by (simp add: gpio_main_def output_loop_writes [OF assms] gpio_set_dir_def gpio_export_def writes_write_file [OF assms] path num in_buf_def MAX_BUF_def SYSFS_GPIO_DIR_def)
qed

text \<open>In the input test a file that cannot be opened shows the value of the round before, at first an arbitrary one.\<close>

theorem gpio_input_stale:
  assumes "\<And>l p. ge_open e l p < 0"
  shows "Status gpio v \<in> set (input_loop e junk gpio (Suc n) v l)"
proof -
  have get: "gpio_get_value e junk gpio v l = (ge_open e l (gpio_path gpio ''/value''), v, l @ [GOpen (gpio_path gpio ''/value'')])" for v l
    using assms by (simp add: gpio_get_value_def Let_def)
  have grow: "set l \<subseteq> set (input_loop e junk gpio n v l)" for n v l
  proof (induction n arbitrary: l)
    case (Suc n)
    show ?case using Suc [of "l @ [GOpen (gpio_path gpio ''/value''), Status gpio v]"] by (simp add: get)
  qed simp
  show ?thesis using grow [of "l @ [GOpen (gpio_path gpio ''/value''), Status gpio v]" n v] by (simp add: get)
qed

end
