(* ===== verification/Webcam.thy ===== *)
theory Webcam
  imports Exif
begin

unbundle bit_operations_syntax

text \<open>
  The capture side of the webcam program, src/webcam_demo/cam_lib.c, the parameters of the decoder
  (JpegDec.c) and the choice of the number of buffers in \<open>main\<close> (webcam.c). The driver is a function of
  the events so far and of the request. Addresses are 32-bit words.
\<close>

subsection \<open>Data\<close>

definition ERR_NO_DEV :: int where "ERR_NO_DEV = 1"
definition ERR_NO_VIDEO :: int where "ERR_NO_VIDEO = 2"
definition ERR_NO_SUPPORT :: int where "ERR_NO_SUPPORT = 3"
definition ERR_NO_FMT :: int where "ERR_NO_FMT = 4"
definition ERR_OUT_OF_MEM :: int where "ERR_OUT_OF_MEM = 5"
definition ERR_UNKNOWN :: int where "ERR_UNKNOWN = 6"

definition BUFFER_SIZE_OTHER_USE :: "32 word" where "BUFFER_SIZE_OTHER_USE = 0 * 1024"
definition BUFFER_SIZE_WEBCAM_BITSTREAM :: "32 word" where "BUFFER_SIZE_WEBCAM_BITSTREAM = 200 * 1024"
definition IMAGE_WIDTH :: "32 word" where "IMAGE_WIDTH = 640"
definition IMAGE_HEIGHT :: "32 word" where "IMAGE_HEIGHT = 480"

record cam_buffer =
  b_start :: "32 word"
  b_length :: "32 word"

datatype webcam_req =
    VIDIOC_QUERYCAP | VIDIOC_CROPCAP | VIDIOC_S_CROP | VIDIOC_S_FMT "32 word" "32 word" | VIDIOC_G_FMT
  | VIDIOC_S_USER_MEMORY_POOL_ENABLE bool | VIDIOC_S_MEMORY_POOL_PADDR "32 word"
  | VIDIOC_REQBUFS nat | VIDIOC_QUERYBUF nat | VIDIOC_QBUF nat | VIDIOC_DQBUF | VIDIOC_STREAMON | VIDIOC_STREAMOFF

datatype webcam_ev = WIoctl webcam_req | WMmap "32 word" "32 word" | WMunmap "32 word" "32 word"

text \<open>
  A failure, with whether \<open>errno\<close> is \<open>EINVAL\<close>; capabilities (capture, streaming); length and offset of a
  buffer; index and used bytes of a filled buffer.
\<close>

datatype webcam_reply = WFails bool | WDone | WCap bool bool | WBuf "32 word" "32 word" | WFilled nat nat

record webcam_env =
  we_driver :: "webcam_ev list \<Rightarrow> webcam_req \<Rightarrow> webcam_reply"
  we_mmap :: "webcam_ev list \<Rightarrow> 32 word option"
  we_calloc :: bool
  we_preview :: bool
  we_pool :: bool
  we_jpeg_paddress :: "32 word"
  we_jpeg_vaddress :: "32 word"
  we_count :: nat

record webcam =
  wc_buffers :: "cam_buffer list option"
  wc_bitstream_paddress :: "32 word"
  wc_bitstream_vaddress :: "32 word"
  wc_log :: "webcam_ev list"

definition w_fails :: "webcam_reply \<Rightarrow> bool" where
  "w_fails r \<longleftrightarrow> (case r of WFails _ \<Rightarrow> True | _ \<Rightarrow> False)"

definition w_ioctl :: "webcam_env \<Rightarrow> webcam_req \<Rightarrow> webcam \<Rightarrow> webcam_reply \<times> webcam" where
  "w_ioctl e q c = (we_driver e (wc_log c) q, c\<lparr>wc_log := wc_log c @ [WIoctl q]\<rparr>)"

subsection \<open>Buffers\<close>

text \<open>The loop of \<open>init_mmap\<close> over the buffers from number \<open>i\<close> on; \<open>k\<close> is how many there are left.\<close>

fun map_buffers :: "webcam_env \<Rightarrow> nat \<Rightarrow> nat \<Rightarrow> cam_buffer list \<Rightarrow> webcam \<Rightarrow> int \<times> cam_buffer list \<times> webcam" where
  "map_buffers e 0 i bufs c = (0, bufs, c)"
| "map_buffers e (Suc k) i bufs c =
     (let (r, c) = w_ioctl e (VIDIOC_QUERYBUF i) c in
      if w_fails r then (- ERR_UNKNOWN, bufs, c)
      else
        let (len, off) = (case r of WBuf a b \<Rightarrow> (a, b) | _ \<Rightarrow> (0, 0)) in
        if we_pool e then
          map_buffers e k (Suc i) (bufs[i := \<lparr>b_start = wc_bitstream_vaddress c + len * of_nat i, b_length = len\<rparr>]) c
        else
          let r = we_mmap e (wc_log c); c = c\<lparr>wc_log := wc_log c @ [WMmap len off]\<rparr> in
          (case r of
             None \<Rightarrow> (- ERR_UNKNOWN, bufs[i := \<lparr>b_start = - 1, b_length = len\<rparr>], c)
           | Some a \<Rightarrow> map_buffers e k (Suc i) (bufs[i := \<lparr>b_start = a, b_length = len\<rparr>]) c))"

definition webcam_init_mmap :: "webcam_env \<Rightarrow> webcam \<Rightarrow> int \<times> webcam" where
  "webcam_init_mmap e c =
     (let c = (if we_preview e then
                 let c = c\<lparr>wc_bitstream_paddress := we_jpeg_paddress e + BUFFER_SIZE_OTHER_USE, wc_bitstream_vaddress := we_jpeg_vaddress e + BUFFER_SIZE_OTHER_USE\<rparr>;
                     c = snd (w_ioctl e (VIDIOC_S_USER_MEMORY_POOL_ENABLE (we_pool e)) c) in
                 if we_pool e then snd (w_ioctl e (VIDIOC_S_MEMORY_POOL_PADDR (wc_bitstream_paddress c)) c) else c
               else c);
          (r, c) = w_ioctl e (VIDIOC_REQBUFS (we_count e)) c in
      if r = WFails True then (- ERR_NO_SUPPORT, c)
      else if w_fails r then (- ERR_UNKNOWN, c)
      else if \<not> we_calloc e then (- ERR_OUT_OF_MEM, c\<lparr>wc_buffers := None\<rparr>)
      else
        let (ret, bufs, c) = map_buffers e (we_count e) 0 (replicate (we_count e) \<lparr>b_start = 0, b_length = 0\<rparr>) c in
        (ret, c\<lparr>wc_buffers := Some bufs\<rparr>))"

subsection \<open>Capturing\<close>

definition stop_capturing :: "webcam_env \<Rightarrow> webcam \<Rightarrow> webcam" where
  "stop_capturing e c = snd (w_ioctl e VIDIOC_STREAMOFF c)"

fun queue_buffers :: "webcam_env \<Rightarrow> nat \<Rightarrow> nat \<Rightarrow> webcam \<Rightarrow> bool \<times> webcam" where
  "queue_buffers e 0 i c = (True, c)"
| "queue_buffers e (Suc k) i c =
     (let (r, c) = w_ioctl e (VIDIOC_QBUF i) c in if w_fails r then (False, c) else queue_buffers e k (Suc i) c)"

definition start_capturing :: "webcam_env \<Rightarrow> webcam \<Rightarrow> int \<times> webcam" where
  "start_capturing e c =
     (let (ok, c) = queue_buffers e (we_count e) 0 c in
      if \<not> ok then (- ERR_UNKNOWN, c)
      else let (r, c) = w_ioctl e VIDIOC_STREAMON c in (if w_fails r then - ERR_UNKNOWN else 0, c))"

text \<open>The sizes that are corrected after \<open>VIDIOC_G_FMT\<close> are local and not used again.\<close>

definition cam_start :: "webcam_env \<Rightarrow> bool \<times> bool \<Rightarrow> webcam \<Rightarrow> int \<times> webcam" where
  "cam_start e junk c =
     (let (r, c) = w_ioctl e VIDIOC_QUERYCAP c in
      if r = WFails True then (- ERR_NO_DEV, c)
      else if w_fails r then (- ERR_NO_VIDEO, c)
      else
        let (capture, streaming) = (case r of WCap a b \<Rightarrow> (a, b) | _ \<Rightarrow> junk) in
        if \<not> capture then (- ERR_NO_VIDEO, c)
        else if \<not> streaming then (- ERR_NO_SUPPORT, c)
        else
          let (r, c) = w_ioctl e VIDIOC_CROPCAP c;
              c = (if w_fails r then c else snd (w_ioctl e VIDIOC_S_CROP c));
              (r, c) = w_ioctl e (VIDIOC_S_FMT IMAGE_WIDTH IMAGE_HEIGHT) c in
          if w_fails r then (- ERR_NO_FMT, c)
          else
            let (r, c) = w_ioctl e VIDIOC_G_FMT c in
            if w_fails r then (- ERR_NO_FMT, c)
            else
              let (ret, c) = webcam_init_mmap e c in
              if ret < 0 then (ret, c) else start_capturing e c)"

fun unmap_buffers :: "cam_buffer list \<Rightarrow> webcam \<Rightarrow> webcam" where
  "unmap_buffers [] c = c"
| "unmap_buffers (b # bs) c = unmap_buffers bs (c\<lparr>wc_log := wc_log c @ [WMunmap (b_start b) (b_length b)]\<rparr>)"

definition cam_stop :: "webcam_env \<Rightarrow> webcam \<Rightarrow> fault + webcam" where
  "cam_stop e c =
     (let c = stop_capturing e c in
      if we_pool e then Inr (c\<lparr>wc_buffers := None\<rparr>)
      else (case wc_buffers c of
              None \<Rightarrow> if we_count e = 0 then Inr c else Inl NullDeref
            | Some bufs \<Rightarrow> Inr ((unmap_buffers bufs c)\<lparr>wc_buffers := None\<rparr>)))"

subsection \<open>Writing a picture\<close>

text \<open>
  \<open>Write2File\<close>: the file is a state of any type whose \<open>write\<close> gives the number of bytes taken or -1. The
  counters are \<open>unsigned long\<close>, so the test \<open>wlen < 0\<close> is never true, and -1 is added as \<open>0xffffffff\<close>.
\<close>

partial_function (option) write_loop :: "('d \<Rightarrow> bytes \<Rightarrow> int \<times> 'd) \<Rightarrow> bytes \<Rightarrow> 32 word \<Rightarrow> 32 word \<Rightarrow> 'd \<Rightarrow> 'd option" where
  "write_loop wr buf len totalcnt d =
     (if totalcnt < len then
        (case wr d (take (unat (len - totalcnt)) (drop (unat totalcnt) buf)) of (wlen, d) \<Rightarrow>
           write_loop wr buf len (totalcnt + word_of_int wlen) d)
      else Some d)"

definition Write2File :: "('d \<Rightarrow> bytes \<Rightarrow> int \<times> 'd) \<Rightarrow> 'd option \<Rightarrow> bytes \<Rightarrow> 32 word \<Rightarrow> (int \<times> 'd option) option" where
  "Write2File wr opened buf len =
     (case opened of None \<Rightarrow> Some (- 1, None)
      | Some d \<Rightarrow> (case write_loop wr buf len 0 d of None \<Rightarrow> None | Some d \<Rightarrow> Some (0, Some d)))"

definition jpegfilename :: "tm \<Rightarrow> string" where
  "jpegfilename t =
     ''./'' @ dec_str (1900 + tm_year t) @ dec_pad 2 (int (tm_mon t) + 1) @ dec_pad 2 (int (tm_mday t)) @ dec_pad 2 (int (tm_hour t)) @
     dec_pad 2 (int (tm_min t)) @ dec_pad 2 (int (tm_sec t)) @ ''.jpg''"

text \<open>
  One frame: what is decoded for the preview, which file is written from which buffer, and whether the
  buffer is given back. The key is the type and value of the event that was read.
\<close>

datatype frame_act = Decode nat | Save string nat nat

definition cam_read :: "webcam_env \<Rightarrow> nat \<times> int \<Rightarrow> tm \<Rightarrow> webcam \<Rightarrow> fault + int \<times> frame_act list \<times> webcam" where
  "cam_read e key t c =
     (let (r, c) = w_ioctl e VIDIOC_DQBUF c in
      if w_fails r then Inr (- ERR_UNKNOWN, [], c)
      else
        let (i, used) = (case r of WFilled i n \<Rightarrow> (i, n) | _ \<Rightarrow> (0, 0)) in
        if \<not> i < we_count e then Inl (ProcessExit 134)
        else
          let acts = (if we_preview e then [Decode i] else []) @
                     (if fst key \<noteq> 0 \<and> snd key = 0 then [Save (jpegfilename t) i used] else []);
              (r, c) = w_ioctl e (VIDIOC_QBUF i) c in
          Inr (if w_fails r then - ERR_UNKNOWN else 1, acts, c))"

subsection \<open>The decoder and the number of buffers\<close>

text \<open>The source address of the decoder, virtual and physical, and the bytes copied to it, if any.\<close>

definition jpegDec_source :: "webcam_env \<Rightarrow> webcam \<Rightarrow> nat \<Rightarrow> 32 word \<Rightarrow> fault + 32 word \<times> 32 word \<times> bool" where
  "jpegDec_source e c i len =
     (case wc_buffers c of
        None \<Rightarrow> Inl NullDeref
      | Some bufs \<Rightarrow>
          if we_pool e then bindr (arr_get bufs (int i)) (\<lambda>b. Inr (b_start b, wc_bitstream_paddress c + of_nat i * len, False))
          else Inr (wc_bitstream_vaddress c, wc_bitstream_paddress c, True))"

definition jpeg_v4l2_buffer_num :: "32 word \<Rightarrow> int" where
  "jpeg_v4l2_buffer_num jpeg_buffer_size =
     sint ((jpeg_buffer_size - BUFFER_SIZE_OTHER_USE - BUFFER_SIZE_WEBCAM_BITSTREAM) div (IMAGE_WIDTH * IMAGE_HEIGHT * 2))"

text \<open>The numbers the user types until one is accepted.\<close>

fun buffer_count :: "bool \<Rightarrow> 32 word \<Rightarrow> int list \<Rightarrow> int option" where
  "buffer_count pool jpeg_buffer_size [] = None"
| "buffer_count pool jpeg_buffer_size (n # ns) =
     (if n \<le> 0 then buffer_count pool jpeg_buffer_size ns
      else if pool \<and> jpeg_v4l2_buffer_num jpeg_buffer_size < n then buffer_count pool jpeg_buffer_size ns
      else Some n)"

subsection \<open>The buffers of the pool\<close>

lemma buffer_count_pool: "buffer_count True bufsize ns = Some n \<Longrightarrow> 0 < n \<and> n \<le> jpeg_v4l2_buffer_num bufsize"
  by (induction ns) (auto split: if_splits)

lemma map_buffers_pool:
  assumes "we_pool e" and "\<And>l i. we_driver e l (VIDIOC_QUERYBUF i) = WBuf len (off i)"
  shows "i + k = length bufs \<Longrightarrow> \<forall>m < i. bufs ! m = \<lparr>b_start = wc_bitstream_vaddress c + len * of_nat m, b_length = len\<rparr> \<Longrightarrow>
    \<exists>c'. map_buffers e k i bufs c = (0, map (\<lambda>m. \<lparr>b_start = wc_bitstream_vaddress c + len * of_nat m, b_length = len\<rparr>) [0 ..< length bufs], c')"
proof (induction k arbitrary: i bufs c)
  case 0
  thus ?case by (auto intro!: nth_equalityI)
next
  case (Suc k)
  let ?bufs = "bufs[i := \<lparr>b_start = wc_bitstream_vaddress c + len * of_nat i, b_length = len\<rparr>]"
  let ?c = "c\<lparr>wc_log := wc_log c @ [WIoctl (VIDIOC_QUERYBUF i)]\<rparr>"
  have "\<forall>m < Suc i. ?bufs ! m = \<lparr>b_start = wc_bitstream_vaddress ?c + len * of_nat m, b_length = len\<rparr>"
    using Suc.prems by (auto simp: less_Suc_eq nth_list_update)
  from Suc.IH [OF _ this] show ?case
    using Suc.prems(1) assms by (simp add: w_ioctl_def w_fails_def)
qed

text \<open>
  A number of buffers that the program accepts fits into the memory of the JPEG engine: with buffers no
  larger than a raw picture they lie one behind the other inside it, provided the memory has at least
  the 200 KB for the bit stream.
\<close>

theorem pool_buffers_inside:
  assumes "buffer_count True bufsize ns = Some n" and "204800 \<le> unat bufsize" and "unat (wc_bitstream_vaddress c) + unat bufsize < 4294967296"
    and "we_pool e" and "\<And>l i. we_driver e l (VIDIOC_QUERYBUF i) = WBuf len (off i)" and "unat len \<le> 614400"
  shows "\<exists>bufs c'. map_buffers e (nat n) 0 (replicate (nat n) \<lparr>b_start = 0, b_length = 0\<rparr>) c = (0, bufs, c') \<and> length bufs = nat n \<and>
    (\<forall>i < nat n. unat (b_start (bufs ! i)) = unat (wc_bitstream_vaddress c) + i * unat len \<and>
      unat (b_start (bufs ! i)) + unat len \<le> unat (wc_bitstream_vaddress c) + unat bufsize)"
proof -
  have num: "jpeg_v4l2_buffer_num bufsize = int ((unat bufsize - 204800) div 614400)"
  proof -
    have b: "unat (BUFFER_SIZE_WEBCAM_BITSTREAM) = 204800" by (simp add: BUFFER_SIZE_WEBCAM_BITSTREAM_def)
    have "unat (bufsize - BUFFER_SIZE_WEBCAM_BITSTREAM) = unat bufsize - 204800"
      using assms(2) b by (subst unat_sub) (simp_all add: word_le_nat_alt)
    hence u: "unat ((bufsize - BUFFER_SIZE_WEBCAM_BITSTREAM) div 614400) = (unat bufsize - 204800) div 614400" by (simp add: unat_div_distrib)
    have "unat bufsize < 4294967296" by (rule less_le_trans [OF unsigned_less]) simp
    hence "(unat bufsize - 204800) div 614400 < 2147483648" by (simp add: less_mult_imp_div_less)
    hence "sint ((bufsize - BUFFER_SIZE_WEBCAM_BITSTREAM) div 614400) = int ((unat bufsize - 204800) div 614400)"
      using u by (simp add: sint_uint uint_nat signed_take_bit_int_eq_self del: of_nat_unat)
    thus ?thesis by (simp add: jpeg_v4l2_buffer_num_def BUFFER_SIZE_OTHER_USE_def IMAGE_WIDTH_def IMAGE_HEIGHT_def)
  qed
  have "0 < n" "n \<le> int ((unat bufsize - 204800) div 614400)" using buffer_count_pool [OF assms(1)] num by simp_all
  hence "nat n \<le> (unat bufsize - 204800) div 614400" by linarith
  hence fit: "nat n * 614400 \<le> unat bufsize" by (metis diff_le_self le_trans less_eq_div_iff_mult_less_eq zero_less_numeral)
  let ?bufs = "map (\<lambda>m. \<lparr>b_start = wc_bitstream_vaddress c + len * of_nat m, b_length = len\<rparr>) [0 ..< nat n]"
  obtain c' where run: "map_buffers e (nat n) 0 (replicate (nat n) \<lparr>b_start = 0, b_length = 0\<rparr>) c = (0, ?bufs, c')"
    using map_buffers_pool [OF assms(4,5), of 0 "nat n" "replicate (nat n) \<lparr>b_start = 0, b_length = 0\<rparr>" c] by auto
  have place: "unat (b_start (?bufs ! i)) = unat (wc_bitstream_vaddress c) + i * unat len \<and> unat (b_start (?bufs ! i)) + unat len \<le> unat (wc_bitstream_vaddress c) + unat bufsize"
    if i: "i < nat n" for i
  proof -
    have "Suc i * unat len \<le> nat n * 614400" using i assms(6) by (intro mult_le_mono) simp_all
    hence inside: "i * unat len + unat len \<le> unat bufsize" using fit by simp
    hence small: "unat (wc_bitstream_vaddress c) + i * unat len < 4294967296" using assms(3) by linarith
    have "wc_bitstream_vaddress c + len * of_nat i = of_nat (unat (wc_bitstream_vaddress c) + i * unat len)" by (simp add: mult.commute)
    hence "unat (wc_bitstream_vaddress c + len * of_nat i) = unat (wc_bitstream_vaddress c) + i * unat len"
      using small by (simp only: unat_of_nat) simp
    thus ?thesis using i inside by simp
  qed
  show ?thesis
  proof (intro exI conjI)
    show "map_buffers e (nat n) 0 (replicate (nat n) \<lparr>b_start = 0, b_length = 0\<rparr>) c = (0, ?bufs, c')" by (rule run)
  qed (simp, use place in blast)
qed

text \<open>With less memory the unsigned difference wraps, and thousands of buffers are accepted.\<close>

theorem buffer_count_wraps: "buffer_count True 102400 [6990] = Some 6990"
proof -
  have "jpeg_v4l2_buffer_num 102400 = 6990" by code_simp
  thus ?thesis by simp
qed

subsection \<open>The file\<close>

definition file_takes :: "('d \<Rightarrow> bytes \<Rightarrow> int \<times> 'd) \<Rightarrow> ('d \<Rightarrow> bytes) \<Rightarrow> bool" where
  "file_takes wr content \<longleftrightarrow> (\<forall>d bs. bs \<noteq> [] \<longrightarrow>
     (\<exists>k d'. wr d bs = (int k, d') \<and> 1 \<le> k \<and> k \<le> length bs \<and> content d' = content d @ take k bs))"

lemma write_loop_writes:
  assumes "file_takes wr content" and "unat len \<le> length buf"
  shows "n \<le> unat len \<Longrightarrow> \<exists>d'. write_loop wr buf len (of_nat n) d = Some d' \<and> content d' = content d @ take (unat len - n) (drop n buf)"
proof (induction "unat len - n" arbitrary: n d rule: less_induct)
  case less
  have "unat len < 4294967296" by (rule less_le_trans [OF unsigned_less]) simp
  hence u: "unat (of_nat m :: 32 word) = m" if "m \<le> unat len" for m using that by (simp add: unat_of_nat)
  show ?case
  proof (cases "n = unat len")
    case True
    thus ?thesis by (subst write_loop.simps) simp
  next
    case False
    hence lt: "(of_nat n :: 32 word) < len" and n: "n < unat len" using less.prems u by (simp_all add: word_less_nat_alt)
    have rest: "unat (len - of_nat n) = unat len - n" using lt u [of n] n by (simp add: unat_sub)
    let ?bs = "take (unat len - n) (drop n buf)"
    have "?bs \<noteq> []" using n assms(2) by simp
    then obtain k d1 where k: "wr d ?bs = (int k, d1)" "1 \<le> k" "k \<le> length ?bs" "content d1 = content d @ take k ?bs"
      using assms(1) unfolding file_takes_def by blast
    have le: "n + k \<le> unat len" "unat len - (n + k) < unat len - n" using k(2,3) n assms(2) by auto
    obtain d' where d': "write_loop wr buf len (of_nat (n + k)) d1 = Some d'" "content d' = content d1 @ take (unat len - (n + k)) (drop (n + k) buf)"
      using less.hyps [OF le(2,1), of d1] by blast
    have "?bs = take k ?bs @ take (unat len - (n + k)) (drop (n + k) buf)"
      by (metis add.commute append_take_drop_id diff_diff_left drop_drop drop_take)
    hence "content d' = content d @ ?bs" using d'(2) k(4) by (metis append_assoc)
    moreover have "write_loop wr buf len (of_nat n) d = write_loop wr buf len (of_nat (n + k)) d1"
      using lt k(1) rest u [of n] n by (subst write_loop.simps) simp
    ultimately show ?thesis using d'(1) by simp
  qed
qed

text \<open>A file system that takes at least one byte at a time gets the whole picture.\<close>

theorem Write2File_writes:
  assumes "file_takes wr content" and "unat len \<le> length buf" and "content d = []"
  shows "\<exists>d'. Write2File wr (Some d) buf len = Some (0, Some d') \<and> content d' = take (unat len) buf"
  using write_loop_writes [OF assms(1,2), of 0 d] assms(3) by (auto simp: Write2File_def)

text \<open>A first \<open>write\<close> that fails is not noticed: the file stays empty and 0 is returned.\<close>

theorem Write2File_error_lost:
  assumes "\<And>bs. wr d bs = (- 1, d)"
  shows "Write2File wr (Some d) buf len = Some (0, Some d)"
proof -
  have top: "\<not> (- 1 :: 32 word) < len" by (simp add: word_less_nat_alt not_less) (metis max_word_max word_le_nat_alt)
  have "write_loop wr buf len (- 1) d = Some d" using top by (subst write_loop.simps) simp
  hence "write_loop wr buf len 0 d = Some d" using assms by (subst write_loop.simps) simp
  thus ?thesis by (simp add: Write2File_def)
qed

end
