(* ===== verification/JpegHeader.thy ===== *)
theory JpegHeader
  imports TsPrelude
begin

text \<open>
  The reader of JPEG headers in src/jpeg_codec/jpeg_demo.c, \<open>ParsingJPEG\<close>: it looks for the size of the picture in
  what has been read of the file and notes where the application segments are. The table of these segments is a
  pair of global arrays of ten. Positions are below the size of the memory of the engine, so the \<open>int\<close> index does not
  wrap.
\<close>

subsection \<open>The reader\<close>

datatype parse_next = Go int "(int \<times> int) list" | Stop int "(int \<times> int) option" "(int \<times> int) list"

text \<open>The two bytes at a position as a number.\<close>

definition word_at :: "bytes \<Rightarrow> int \<Rightarrow> fault + int" where
  "word_at buf i = bindr (arr_get buf i) (\<lambda>h. bindr (arr_get buf (i + 1)) (\<lambda>l. Inr (uint h * 256 + uint l)))"

definition not_baseline :: "8 word list" where
  "not_baseline = [0xC1, 0xC2, 0xC3, 0xC5, 0xC6, 0xC7, 0xC8, 0xC9, 0xCA, 0xCB, 0xCD, 0xCE, 0xCF]"

definition app_markers :: "8 word list" where
  "app_markers = [0xE0, 0xE1, 0xE2, 0xE3, 0xE4, 0xE5, 0xE6, 0xE7, 0xE8, 0xE9, 0xEA, 0xEB, 0xEC, 0xED, 0xEE, 0xEF, 0xFE]"

text \<open>\<open>MLength\<close> is an \<open>unsigned short\<close>; \<open>i\<close> is the position behind the marker.\<close>

definition dqt_marker :: "bytes \<Rightarrow> int \<Rightarrow> int \<Rightarrow> (int \<times> int) list \<Rightarrow> fault + parse_next" where
  "dqt_marker buf len i apps =
     (if len < i + 2 then Inr (Stop (- 1) None apps)
      else bindr (word_at buf i) (\<lambda>w.
        let MLength = (w - 2) mod 65536 in
        if MLength \<noteq> 65 \<and> MLength mod 65 \<noteq> 0 then Inr (Stop (- 1) None apps)
        else
          let index = (if MLength \<noteq> 65 then i + 2 + MLength else i + 2 + 64) in
          if len < index then Inr (Stop (- 1) None apps) else Inr (Go index apps)))"

definition sof_marker :: "bytes \<Rightarrow> int \<Rightarrow> int \<Rightarrow> (int \<times> int) list \<Rightarrow> fault + parse_next" where
  "sof_marker buf len i apps =
     (if len < i + 7 then Inr (Stop (- 1) None apps)
      else bindr (word_at buf (i + 3)) (\<lambda>height. bindr (word_at buf (i + 5)) (\<lambda>width. Inr (Stop 0 (Some (width, height)) apps))))"

definition skip_marker :: "bytes \<Rightarrow> int \<Rightarrow> int \<Rightarrow> (int \<times> int) list \<Rightarrow> fault + parse_next" where
  "skip_marker buf len i apps =
     (if len < i + 2 then Inr (Stop (- 1) None apps)
      else bindr (word_at buf i) (\<lambda>MLength.
        let index = i + 2 + (MLength - 2) in
        if len < index then Inr (Stop (- 1) None apps) else Inr (Go index apps)))"

definition app_marker :: "bytes \<Rightarrow> int \<Rightarrow> int \<Rightarrow> (int \<times> int) list \<Rightarrow> fault + parse_next" where
  "app_marker buf len i apps =
     (if len < i + 2 then Inr (Stop (- 1) None apps)
      else bindr (word_at buf i) (\<lambda>MLength.
        if \<not> length apps < 10 then Inl OutOfBounds
        else
          let apps = apps @ [(i + 2 - 4, MLength + 2)]; index = i + 2 + (MLength - 2) in
          if len < index then Inr (Stop (- 1) None apps) else Inr (Go index apps)))"

definition marker_step :: "bytes \<Rightarrow> int \<Rightarrow> int \<Rightarrow> (int \<times> int) list \<Rightarrow> fault + parse_next" where
  "marker_step buf len index apps =
     bindr (arr_get buf index) (\<lambda>HByte.
       if HByte \<noteq> 0xFF then Inr (Go (index + 1) apps)
       else bindr (arr_get buf (index + 1)) (\<lambda>LByte.
         let i = index + 2 in
         if LByte \<in> set not_baseline then Inr (Stop (- 1) None apps)
         else if LByte = 0xDB then dqt_marker buf len i apps
         else if LByte = 0xC0 then sof_marker buf len i apps
         else if LByte = 0xDA \<or> LByte = 0xC4 then skip_marker buf len i apps
         else if LByte \<in> set app_markers then app_marker buf len i apps
         else Inr (Go i apps)))"

text \<open>Every step goes forward, even over a segment whose length is given as 0 or 1.\<close>

lemma uint_byte_range: "0 \<le> uint (b :: 8 word)" "uint (b :: 8 word) < 256"
  using uint_bounded [of b] by simp_all

lemma word_at_range:
  assumes "word_at buf i = Inr w"
  shows "0 \<le> w \<and> w < 65536"
proof -
  obtain h l :: "8 word" where "w = uint h * 256 + uint l" using assms by (auto simp: word_at_def bindr_def split: sum.splits)
  thus ?thesis using uint_byte_range [of h] uint_byte_range [of l] by linarith
qed

lemma marker_step_forward: "marker_step buf len index apps = Inr (Go index' apps') \<Longrightarrow> index < index'"
  by (auto simp: marker_step_def dqt_marker_def sof_marker_def skip_marker_def app_marker_def Let_def bindr_def
      split: sum.splits if_splits dest!: word_at_range)

function parse_loop :: "bytes \<Rightarrow> int \<Rightarrow> int \<Rightarrow> (int \<times> int) list \<Rightarrow> fault + int \<times> (int \<times> int) option \<times> (int \<times> int) list" where
  "parse_loop buf len index apps =
     (if index < len then
        (case marker_step buf len index apps of
           Inl e \<Rightarrow> Inl e
         | Inr (Stop ret dims apps') \<Rightarrow> Inr (ret, dims, apps')
         | Inr (Go index' apps') \<Rightarrow> parse_loop buf len index' apps')
      else Inr (- 1, None, apps))"
  by pat_completeness auto
termination
  by (relation "measure (\<lambda>(buf, len, index, apps). nat (len - index))") (auto dest: marker_step_forward)

declare parse_loop.simps [simp del]

text \<open>The result, the width and height if they are stored, and the table of segments with their offsets and sizes.\<close>

definition ParsingJPEG :: "bytes \<Rightarrow> int \<Rightarrow> fault + int \<times> (int \<times> int) option \<times> (int \<times> int) list" where
  "ParsingJPEG buf len = parse_loop buf len 0 []"

subsection \<open>Headers\<close>

text \<open>
  The segments that may stand between the start of the image and the frame header: application data and
  comments, quantization tables of 65 bytes each, Huffman tables. The last byte of a single quantization table
  must not be \<open>0xFF\<close>: the code skips 64 of its 65 bytes and looks for a marker at the last one.
\<close>

datatype segment = App "8 word" bytes | Dqt bytes | Dht bytes

fun seg_ok :: "segment \<Rightarrow> bool" where
  "seg_ok (App m d) \<longleftrightarrow> m \<in> set app_markers \<and> length d \<le> 65533"
| "seg_ok (Dqt d) \<longleftrightarrow> length d mod 65 = 0 \<and> length d \<le> 65533 \<and> (length d = 65 \<longrightarrow> d ! 64 \<noteq> 0xFF)"
| "seg_ok (Dht d) \<longleftrightarrow> length d \<le> 65533"

definition be_bytes :: "nat \<Rightarrow> bytes" where
  "be_bytes n = [of_nat (n div 256), of_nat (n mod 256)]"

fun seg_marker :: "segment \<Rightarrow> 8 word" where
  "seg_marker (App m d) = m" | "seg_marker (Dqt d) = 0xDB" | "seg_marker (Dht d) = 0xC4"

fun seg_data :: "segment \<Rightarrow> bytes" where
  "seg_data (App m d) = d" | "seg_data (Dqt d) = d" | "seg_data (Dht d) = d"

definition seg_bytes :: "segment \<Rightarrow> bytes" where
  "seg_bytes g = 0xFF # seg_marker g # be_bytes (length (seg_data g) + 2) @ seg_data g"

definition seg_apps :: "nat \<Rightarrow> segment \<Rightarrow> (int \<times> int) list" where
  "seg_apps i g = (case g of App m d \<Rightarrow> [(int i, int (length d) + 4)] | _ \<Rightarrow> [])"

fun segs_apps :: "nat \<Rightarrow> segment list \<Rightarrow> (int \<times> int) list" where
  "segs_apps i [] = []"
| "segs_apps i (g # gs) = seg_apps i g @ segs_apps (i + length (seg_bytes g)) gs"

lemma length_seg_bytes: "length (seg_bytes g) = length (seg_data g) + 4"
  by (simp add: seg_bytes_def be_bytes_def)

lemma arr_get_at: "arr_get (pre @ b # post) (int (length pre)) = Inr b"
  by (simp add: arr_get_def)

lemma word_at_bytes: "n < 65536 \<Longrightarrow> word_at (pre @ be_bytes n @ post) (int (length pre)) = Inr (int n)"
proof -
  assume n: "n < 65536"
  have "arr_get (pre @ be_bytes n @ post) (int (length pre) + 1) = Inr (of_nat (n mod 256))"
    using arr_get_at [of "pre @ [of_nat (n div 256)]" "of_nat (n mod 256)" post] by (simp add: be_bytes_def add.commute)
  moreover have "arr_get (pre @ be_bytes n @ post) (int (length pre)) = Inr (of_nat (n div 256))"
    by (simp add: be_bytes_def arr_get_at)
  moreover have "uint (of_nat (n div 256) :: 8 word) = int (n div 256)" "uint (of_nat (n mod 256) :: 8 word) = int (n mod 256)"
    using n by (simp_all add: uint_nat unat_of_nat less_mult_imp_div_less)
  moreover have "int (n div 256) * 256 + int (n mod 256) = int n" by (metis div_mult_mod_eq of_nat_add of_nat_mult of_nat_numeral)
  ultimately show ?thesis by (simp add: word_at_def bindr_def)
qed

lemma parse_segment:
  assumes "seg_ok g" and buf: "buf = pre @ seg_bytes g @ post" and len: "int (length pre + length (seg_bytes g)) \<le> len"
    and room: "length apps + length (seg_apps (length pre) g) \<le> 10"
  shows "parse_loop buf len (int (length pre)) apps =
    parse_loop buf len (int (length pre + length (seg_bytes g))) (apps @ seg_apps (length pre) g)"
proof -
  let ?i = "int (length pre)" and ?n = "length (seg_data g)"
  have n: "?n \<le> 65533" using assms(1) by (cases g) auto
  have b0: "arr_get buf ?i = Inr 0xFF" unfolding buf seg_bytes_def by (simp add: arr_get_at)
  have b1: "arr_get buf (?i + 1) = Inr (seg_marker g)"
    using arr_get_at [of "pre @ [0xFF]" "seg_marker g"] unfolding buf seg_bytes_def by (simp add: add.commute)
  have w: "word_at buf (?i + 2) = Inr (int ?n + 2)"
    using word_at_bytes [of "?n + 2" "pre @ [0xFF, seg_marker g]" "seg_data g @ post"] n unfolding buf seg_bytes_def by (simp add: add.commute)
  have lt: "?i < len" "?i + 4 + int ?n \<le> len" using len by (simp_all add: length_seg_bytes)
  note step = parse_loop.simps [of buf len ?i apps] marker_step_def b0 b1 w lt bindr_def
  show ?thesis
  proof (cases g)
    case (App m d)
    hence "m \<noteq> 0xDB \<and> m \<noteq> 0xC0 \<and> m \<noteq> 0xDA \<and> m \<noteq> 0xC4 \<and> m \<notin> set not_baseline" "m \<in> set app_markers"
      using assms(1) by (auto simp: app_markers_def not_baseline_def)
    thus ?thesis using App room lt(2) n by (simp add: step app_marker_def seg_apps_def length_seg_bytes Let_def, (simp add: algebra_simps)?)
  next
    case (Dht d)
    thus ?thesis using lt(2) by (simp add: step skip_marker_def seg_apps_def length_seg_bytes not_baseline_def Let_def, (simp add: algebra_simps)?)
  next
    case (Dqt d)
    have m: "(int ?n + 2 - 2) mod 65536 = int ?n" "int ?n mod 65 = 0"
      using n assms(1) Dqt by (auto simp: zmod_int [symmetric])
    show ?thesis
    proof (cases "?n = 65")
      case False
      thus ?thesis using Dqt m lt(2) by (simp add: step dqt_marker_def seg_apps_def length_seg_bytes not_baseline_def Let_def, (simp add: algebra_simps)?)
    next
      case True
      have at: "nat (?i + 68) = length pre + 68" by simp
      have "arr_get buf (?i + 68) = Inr (d ! 64)" "d ! 64 \<noteq> 0xFF"
        using Dqt True assms(1) unfolding buf arr_get_def at by (simp_all add: seg_bytes_def be_bytes_def nth_append)
      moreover have "parse_loop buf len ?i apps = parse_loop buf len (?i + 68) apps"
        using Dqt m lt(2) True by (simp add: step dqt_marker_def not_baseline_def Let_def, (simp add: algebra_simps)?)
      ultimately show ?thesis
        using Dqt True lt(2) by (simp add: parse_loop.simps [of buf len "?i + 68"] marker_step_def bindr_def seg_apps_def length_seg_bytes, (simp add: algebra_simps)?)
    qed
  qed
qed

lemma parse_frame:
  assumes buf: "buf = pre @ [0xFF, 0xC0] @ be_bytes k @ prec # be_bytes h @ be_bytes w @ post" and len: "int (length pre) + 9 \<le> len"
    and "h < 65536" "w < 65536"
  shows "parse_loop buf len (int (length pre)) apps = Inr (0, Some (int w, int h), apps)"
proof -
  let ?i = "int (length pre)"
  have b0: "arr_get buf ?i = Inr 0xFF" unfolding buf by (simp add: arr_get_at)
  have b1: "arr_get buf (?i + 1) = Inr 0xC0" using arr_get_at [of "pre @ [0xFF]" "0xC0"] unfolding buf by (simp add: add.commute)
  have height: "word_at buf (?i + 2 + 3) = Inr (int h)"
    using word_at_bytes [OF assms(3), of "pre @ [0xFF, 0xC0] @ be_bytes k @ [prec]" "be_bytes w @ post"] unfolding buf by (simp add: be_bytes_def add.commute)
  have width: "word_at buf (?i + 2 + 5) = Inr (int w)"
    using word_at_bytes [OF assms(4), of "pre @ [0xFF, 0xC0] @ be_bytes k @ prec # be_bytes h" post] unfolding buf by (simp add: be_bytes_def add.commute)
  show ?thesis
    using len height width by (simp add: parse_loop.simps marker_step_def b0 b1 bindr_def sof_marker_def not_baseline_def)
qed

lemma parse_segments:
  assumes "\<forall>g \<in> set gs. seg_ok g" and "buf = pre @ concat (map seg_bytes gs) @ post"
    and "int (length pre + length (concat (map seg_bytes gs))) \<le> len" and "length apps + length (segs_apps (length pre) gs) \<le> 10"
  shows "parse_loop buf len (int (length pre)) apps =
    parse_loop buf len (int (length pre + length (concat (map seg_bytes gs)))) (apps @ segs_apps (length pre) gs)"
  using assms
proof (induction gs arbitrary: pre apps)
  case (Cons g gs)
  have "parse_loop buf len (int (length pre)) apps =
      parse_loop buf len (int (length pre + length (seg_bytes g))) (apps @ seg_apps (length pre) g)"
    by (rule parse_segment [where post = "concat (map seg_bytes gs) @ post"]) (use Cons.prems in simp_all)
  moreover note Cons.IH [of "pre @ seg_bytes g" "apps @ seg_apps (length pre) g"]
  ultimately show ?case using Cons.prems by (simp add: add.assoc)
qed simp


definition sample_header :: bytes where
  "sample_header = [0xFF, 0xD8] @ concat (map seg_bytes [App 0xE0 [1, 2, 3], Dqt (replicate 65 7), Dht [5], App 0xFE []]) @
     [0xFF, 0xC0] @ be_bytes 17 @ 8 # be_bytes 240 @ be_bytes 320 @ [3]"


subsection \<open>Bounds\<close>

text \<open>A step does not leave a buffer that is longer than what has been read, as long as the table has room.\<close>

theorem marker_step_safe:
  assumes "0 \<le> i" "i < len" "len < int (length buf)" "length apps < 10"
  shows "\<exists>r. marker_step buf len i apps = Inr r"
proof -
  have get: "arr_get buf j = Inr (buf ! nat j)" if "0 \<le> j" "j \<le> len" for j using that assms(3) by simp
  have word: "word_at buf j = Inr (uint (buf ! nat j) * 256 + uint (buf ! nat (j + 1)))" if "0 \<le> j" "j + 1 \<le> len" for j
    using that by (simp add: word_at_def bindr_def get)
  show ?thesis
    using assms(1,2,4) by (auto simp: marker_step_def dqt_marker_def sof_marker_def skip_marker_def app_marker_def Let_def bindr_def get word)
qed

text \<open>The eleventh application segment is stored behind the table.\<close>

theorem ParsingJPEG_eleven:
  "ParsingJPEG ([0xFF, 0xD8] @ concat (replicate 11 (seg_bytes (App 0xFE []))) @ [0xFF, 0xC0]) 48 = Inl OutOfBounds"
  by code_simp

text \<open>A single quantization table that ends with \<open>0xFF\<close> hides the marker behind it.\<close>

theorem ParsingJPEG_hidden:
  "ParsingJPEG ([0xFF, 0xD8] @ seg_bytes (Dqt (replicate 64 1 @ [0xFF])) @ [0xFF, 0xC0] @ be_bytes 17 @ 8 # be_bytes 240 @ be_bytes 320 @ replicate 10 3) 90 =
    Inr (- 1, None, [])"
  by code_simp

subsection \<open>Pieces of a file\<close>

lemma arr_get_agree:
  assumes "\<forall>k<nat m. buf ! k = c ! k" "m \<le> int (length buf)" "m \<le> int (length c)" "j < m"
  shows "arr_get buf j = arr_get c j"
  using assms by (auto simp: arr_get_def)

lemma word_at_agree:
  assumes "\<forall>k<nat m. buf ! k = c ! k" "m \<le> int (length buf)" "m \<le> int (length c)" "j + 1 < m"
  shows "word_at buf j = word_at c j"
  using arr_get_agree [OF assms(1-3)] assms(4) by (simp add: word_at_def)

text \<open>The result of a step of a shorter buffer: the same, or the end because the buffer is cut.\<close>

definition cut_off :: "int \<Rightarrow> int \<Rightarrow> fault + parse_next \<Rightarrow> fault + parse_next \<Rightarrow> bool" where
  "cut_off m len r s \<longleftrightarrow> (\<forall>x. r = Inr x \<longrightarrow> s = r \<or> m < len \<and> (\<exists>as. s = Inr (Stop (- 1) None as)))"

lemma markers_cut_off:
  assumes "\<forall>k<nat m. buf ! k = c ! k" "m \<le> int (length buf)" "m \<le> int (length c)" "m \<le> len"
  shows "cut_off m len (dqt_marker c len i apps) (dqt_marker buf m i apps)"
    and "cut_off m len (sof_marker c len i apps) (sof_marker buf m i apps)"
    and "cut_off m len (skip_marker c len i apps) (skip_marker buf m i apps)"
    and "cut_off m len (app_marker c len i apps) (app_marker buf m i apps)"
proof -
  note w = word_at_agree [OF assms(1-3)]
  show "cut_off m len (dqt_marker c len i apps) (dqt_marker buf m i apps)"
  proof (cases "m < i + 2")
    case True
    thus ?thesis using assms(4) by (auto simp: cut_off_def dqt_marker_def)
  next
    case False
    hence "word_at buf i = word_at c i" by (intro w) simp
    thus ?thesis using False assms(4) by (cases "word_at c i") (auto simp: cut_off_def dqt_marker_def Let_def)
  qed
  show "cut_off m len (skip_marker c len i apps) (skip_marker buf m i apps)"
  proof (cases "m < i + 2")
    case True
    thus ?thesis using assms(4) by (auto simp: cut_off_def skip_marker_def)
  next
    case False
    hence "word_at buf i = word_at c i" by (intro w) simp
    thus ?thesis using False assms(4) by (cases "word_at c i") (auto simp: cut_off_def skip_marker_def Let_def)
  qed
  show "cut_off m len (app_marker c len i apps) (app_marker buf m i apps)"
  proof (cases "m < i + 2")
    case True
    thus ?thesis using assms(4) by (auto simp: cut_off_def app_marker_def)
  next
    case False
    hence "word_at buf i = word_at c i" by (intro w) simp
    thus ?thesis using False assms(4) by (cases "word_at c i") (auto simp: cut_off_def app_marker_def Let_def)
  qed
  show "cut_off m len (sof_marker c len i apps) (sof_marker buf m i apps)"
  proof (cases "m < i + 7")
    case True
    thus ?thesis using assms(4) by (auto simp: cut_off_def sof_marker_def)
  next
    case False
    hence "word_at buf (i + 3) = word_at c (i + 3)" "word_at buf (i + 5) = word_at c (i + 5)" by (intro w; simp)+
    thus ?thesis using False assms(4) by (auto simp: cut_off_def sof_marker_def)
  qed
qed

lemma cut_off_refl: "cut_off m len r r"
  by (simp add: cut_off_def)

lemma marker_step_cut_off:
  assumes "\<forall>k<nat m. buf ! k = c ! k" "m \<le> int (length buf)" "m \<le> int (length c)" "i + 1 < m" "m \<le> len"
  shows "cut_off m len (marker_step c len i apps) (marker_step buf m i apps)"
proof -
  have 0: "arr_get buf i = arr_get c i" "arr_get buf (i + 1) = arr_get c (i + 1)"
    using arr_get_agree [OF assms(1-3)] assms(4) by simp_all
  show ?thesis unfolding marker_step_def 0
    by (cases "arr_get c i"; cases "arr_get c (i + 1)") (simp_all add: cut_off_refl Let_def markers_cut_off [OF assms(1-3,5)])
qed

text \<open>At the last byte of the buffer nothing is found, whatever stands behind it.\<close>

lemma marker_step_last_byte:
  assumes "marker_step buf m i apps = Inr r" "i + 1 = m"
  shows "(\<exists>as. r = Stop (- 1) None as) \<or> (\<exists>j as. r = Go j as \<and> m \<le> j)"
  using assms by (auto simp: marker_step_def dqt_marker_def sof_marker_def skip_marker_def app_marker_def Let_def bindr_def
      split: sum.splits if_splits)

lemma parse_at_end: "m \<le> i \<Longrightarrow> parse_loop buf m i apps = Inr (- 1, None, apps)"
  by (simp add: parse_loop.simps)

lemma parse_last_byte:
  assumes "marker_step buf m i apps = Inr r" "i + 1 = m"
  shows "\<exists>as. parse_loop buf m i apps = Inr (- 1, None, as)"
  using marker_step_last_byte [OF assms] assms by (auto simp: parse_loop.simps [of buf m i] parse_at_end)

lemma marker_step_last_byte_safe:
  assumes "0 \<le> i" "i + 1 = m" "m < int (length buf)"
  shows "\<exists>r. marker_step buf m i apps = Inr r"
proof -
  have "arr_get buf i = Inr (buf ! nat i)" "arr_get buf (i + 1) = Inr (buf ! nat (i + 1))" using assms by simp_all
  thus ?thesis using assms(2)
    by (simp add: marker_step_def dqt_marker_def sof_marker_def skip_marker_def app_marker_def Let_def)
qed

text \<open>
  When the size is found in a file, a shorter piece of the file gives the same result or none, also in a
  buffer that has something else behind the piece.
\<close>

lemma parse_prefix:
  assumes "parse_loop c len i apps = Inr (0, wh, as)" "0 \<le> i" "0 \<le> m" "m \<le> len" "\<forall>k<nat m. buf ! k = c ! k"
    "m < int (length buf)" "m \<le> int (length c)"
  shows "parse_loop buf m i apps = Inr (0, wh, as) \<or> m < len \<and> (\<exists>as. parse_loop buf m i apps = Inr (- 1, None, as))"
  using assms
proof (induction c len i apps rule: parse_loop.induct)
  case (1 c len i apps)
  have i: "i < len" using 1(2) by (auto simp: parse_loop.simps [of c len i] split: if_splits)
  then obtain r where r: "marker_step c len i apps = Inr r"
    using 1(2) by (auto simp: parse_loop.simps [of c len i] split: sum.splits)
  consider "m \<le> i" | "i + 1 = m" | "i + 1 < m" by linarith
  thus ?case
  proof cases
    assume "m \<le> i"
    thus ?thesis using i by (simp add: parse_at_end)
  next
    assume m: "i + 1 = m"
    obtain r' where r': "marker_step buf m i apps = Inr r'" using marker_step_last_byte_safe [OF 1(3) m 1(7)] by blast
    have "m \<noteq> len" using parse_last_byte [OF r] 1(2) m by auto
    thus ?thesis using parse_last_byte [OF r' m] 1(5) by simp
  next
    assume m: "i + 1 < m"
    hence cut: "cut_off m len (Inr r) (marker_step buf m i apps)"
      using marker_step_cut_off [OF 1(6) _ 1(8) m 1(5), of apps] 1(7) unfolding r by simp
    show ?thesis
    proof (cases "marker_step buf m i apps = Inr r")
      case False
      thus ?thesis using cut m by (auto simp: cut_off_def parse_loop.simps [of buf m i])
    next
      case same: True
      show ?thesis
      proof (cases r)
        case (Stop ret dims as')
        thus ?thesis using 1(2) i m by (simp add: same r parse_loop.simps [of c len i] parse_loop.simps [of buf m i])
      next
        case (Go j as')
        have "parse_loop c len j as' = Inr (0, wh, as)" using 1(2) i Go by (simp add: r parse_loop.simps [of c len i])
        moreover have "0 \<le> j" using marker_step_forward [of c len i apps j as'] r Go 1(3) by simp
        moreover note 1(1) [OF i r Go]
        ultimately show ?thesis using 1(4-8) m Go by (simp add: same parse_loop.simps [of buf m i])
      qed
    qed
  qed
qed

lemma ParsingJPEG_prefix:
  assumes "ParsingJPEG c (int (length c)) = Inr (0, wh, as)" "n \<le> length c" "n < length buf" "take n buf = take n c"
  shows "ParsingJPEG buf (int n) = Inr (0, wh, as) \<or> n < length c \<and> (\<exists>as. ParsingJPEG buf (int n) = Inr (- 1, None, as))"
proof -
  have "\<forall>k<n. buf ! k = c ! k" using assms(4) by (metis nth_take)
  thus ?thesis using parse_prefix [of c "int (length c)" 0 "[]" wh as "int n" buf] assms(1-3) by (simp add: ParsingJPEG_def)
qed

end
