(* ===== verification/JpegDemo.thy ===== *)
theory JpegDemo
  imports JpegHeader Webcam
begin

unbundle bit_operations_syntax

text \<open>
  The tests of src/jpeg_codec/jpeg_demo.c that decode or encode a whole file, \<open>jpegCodec\<close>, with the loop that
  loads a file into the memory of the engine and \<open>Write2File\<close>. The engine and its driver are parameters:
  whether a request succeeds, the number it gives, and what the memories are when the result is read are
  functions of the requests so far. The memories are the mapped memory of the engine, the panel, and the
  block for the target of a decode with output wait. A function that may not return has the value \<open>None\<close>
  there. Printing is left out, and so are the descriptors of the input files, which are never closed.
\<close>

subsection \<open>Programs that may not return\<close>

definition runs :: "(fault + 'a) option \<Rightarrow> ('a \<Rightarrow> (fault + 'b) option) \<Rightarrow> (fault + 'b) option" where
  "runs m f = (case m of None \<Rightarrow> None | Some (Inl e) \<Rightarrow> Some (Inl e) | Some (Inr x) \<Rightarrow> f x)"

lemma runs_simps [simp]: "runs (Some (Inr x)) f = f x" "runs (Some (Inl e)) f = Some (Inl e)" "runs None f = None"
  by (simp_all add: runs_def)

lemma runs_eq_InrE:
  assumes "runs m f = Some (Inr y)"
  obtains x where "m = Some (Inr x)" and "f x = Some (Inr y)"
  using assms by (auto simp: runs_def split: option.splits sum.splits)

subsection \<open>The codec\<close>

definition RGB565 :: "32 word" where "RGB565 = 0x06021"
definition YUV422_PACKET :: "32 word" where "YUV422_PACKET = 0x0021"
definition ENC_YUV420 :: "32 word" where "ENC_YUV420 = 0xA0"
definition ENC_YUV422 :: "32 word" where "ENC_YUV422 = 0xA8"
definition ENC_SRC_PACKET :: "32 word" where "ENC_SRC_PACKET = 1"
definition ST_DECODED_IMAGE :: "32 word" where "ST_DECODED_IMAGE = 11"
definition ST_MEM_SHORTAGE :: "32 word" where "ST_MEM_SHORTAGE = 15"
definition IPW_EMPTY :: "32 word" where "IPW_EMPTY = 1"

record jpeg_param_t =
  q_decopw_vaddr :: "32 word"
  q_decopw_en :: "32 word"
  q_decopw_TargetBuffersize :: "32 word"
  q_vaddr_dst :: "32 word"
  q_paddr_dst :: "32 word"
  q_src_bufsize :: "32 word"
  q_dst_bufsize :: "32 word"
  q_dec_stride :: "32 word"
  q_windec_en :: "32 word"
  q_mcux_start :: "32 word"
  q_mcux_end :: "32 word"
  q_mcuy_start :: "32 word"
  q_mcuy_end :: "32 word"
  q_windec_stride :: "32 word"
  q_decode_output_format :: "32 word"
  q_encode :: "32 word"
  q_scale :: "32 word"
  q_scaled_width :: "32 word"
  q_scaled_height :: "32 word"
  q_decInWait :: "32 word"
  q_encode_width :: "32 word"
  q_encode_height :: "32 word"
  q_encode_source_format :: "32 word"
  q_encode_image_format :: "32 word"
  q_buffersize :: "32 word"
  q_buffercount :: "32 word"

text \<open>What \<open>memset\<close> makes of \<open>jpeg_param\<close>. The fields that this program never sets are left out.\<close>

definition param0 :: jpeg_param_t where
  "param0 = \<lparr>q_decopw_vaddr = 0, q_decopw_en = 0, q_decopw_TargetBuffersize = 0, q_vaddr_dst = 0, q_paddr_dst = 0,
     q_src_bufsize = 0, q_dst_bufsize = 0, q_dec_stride = 0, q_windec_en = 0, q_mcux_start = 0, q_mcux_end = 0,
     q_mcuy_start = 0, q_mcuy_end = 0, q_windec_stride = 0, q_decode_output_format = 0, q_encode = 0, q_scale = 0,
     q_scaled_width = 0, q_scaled_height = 0, q_decInWait = 0, q_encode_width = 0, q_encode_height = 0,
     q_encode_source_format = 0, q_encode_image_format = 0, q_buffersize = 0, q_buffercount = 0\<rparr>"

record jpeg_info_t =
  i_width :: "32 word"
  i_height :: "32 word"
  i_state :: "32 word"
  i_image_size :: "32 word"

datatype codec_req =
    ReqParam jpeg_param_t | ReqTrigger | ReqState | ReqBufferState | ReqBufferSize | ReqResume | ReqStride "32 word"
  | ReqReserved "32 word" | ReqQTable0 bytes | ReqQTable1 bytes | ReqUserQTable | ReqDefaultQTable

datatype codec_ev = Req codec_req | Fill bytes | ReadInfo

record mems =
  m_jpeg :: bytes
  m_video :: bytes
  m_sw :: bytes

record codec_env =
  ce_ok :: "codec_ev list \<Rightarrow> bool"
  ce_val :: "codec_ev list \<Rightarrow> 32 word"
  ce_read :: "codec_ev list \<Rightarrow> mems \<Rightarrow> (jpeg_info_t \<times> mems) option"
  ce_ready :: "nat \<Rightarrow> bool"
  ce_creat :: "string \<Rightarrow> bool"
  ce_write :: "bytes \<Rightarrow> bytes \<Rightarrow> int \<times> bytes"
  ce_heap :: "nat \<Rightarrow> (32 word \<times> bytes) option"
  ce_junk :: "int \<times> int"
  ce_xres :: "32 word"
  ce_yres :: "32 word"
  ce_size :: "32 word"
  ce_paddr :: "32 word"
  ce_vaddr :: "32 word"

text \<open>The variables of the program; \<open>jd_selects\<close> counts the answers of \<open>select\<close>, \<open>jd_files\<close> is the directory.\<close>

record jd =
  jd_param :: jpeg_param_t
  jd_mem :: mems
  jd_apps :: "(int \<times> int) list"
  jd_qtflag :: bool
  jd_log :: "codec_ev list"
  jd_selects :: nat
  jd_files :: "string \<Rightarrow> bytes option"

definition request :: "codec_env \<Rightarrow> codec_req \<Rightarrow> jd \<Rightarrow> bool \<times> jd" where
  "request e q d = (let l = jd_log d @ [Req q] in (ce_ok e l, d\<lparr>jd_log := l\<rparr>))"

definition read_info :: "codec_env \<Rightarrow> jd \<Rightarrow> jpeg_info_t option \<times> jd" where
  "read_info e d =
     (let l = jd_log d @ [ReadInfo] in
      case ce_read e (jd_log d) (jd_mem d) of
        None \<Rightarrow> (None, d\<lparr>jd_log := l\<rparr>)
      | Some (info, m) \<Rightarrow> (Some info, d\<lparr>jd_log := l, jd_mem := m\<rparr>))"

text \<open>\<open>JPEG_S_PARAM\<close>, \<open>JPEG_TRIGGER\<close> and \<open>read\<close>; the first that fails ends the test.\<close>

definition trigger :: "codec_env \<Rightarrow> jd \<Rightarrow> jpeg_info_t option \<times> jd" where
  "trigger e d = (case request e ReqTrigger d of (ok, d) \<Rightarrow> if ok then read_info e d else (None, d))"

definition run_codec :: "codec_env \<Rightarrow> jd \<Rightarrow> jpeg_info_t option \<times> jd" where
  "run_codec e d = (case request e (ReqParam (jd_param d)) d of (ok, d) \<Rightarrow> if ok then trigger e d else (None, d))"

subsection \<open>Memory and files\<close>

definition mem_read :: "nat \<Rightarrow> nat \<Rightarrow> bytes \<Rightarrow> fault + bytes" where
  "mem_read off n b = (if off + n \<le> length b then Inr (take n (drop off b)) else Inl OutOfBounds)"

definition put_jpeg :: "nat \<Rightarrow> bytes \<Rightarrow> jd \<Rightarrow> fault + jd" where
  "put_jpeg off bs d = bindr (arr_copy off bs (m_jpeg (jd_mem d))) (\<lambda>b. Inr (d\<lparr>jd_mem := (jd_mem d)\<lparr>m_jpeg := b\<rparr>\<rparr>))"

definition put_video :: "nat \<Rightarrow> bytes \<Rightarrow> jd \<Rightarrow> fault + jd" where
  "put_video off bs d = bindr (arr_copy off bs (m_video (jd_mem d))) (\<lambda>b. Inr (d\<lparr>jd_mem := (jd_mem d)\<lparr>m_video := b\<rparr>\<rparr>))"

text \<open>
  \<open>Write2File\<close>, the same function as in the webcam program: the file is emptied when it is opened. The bytes
  come from a place inside one of the memories.
\<close>

definition save_file :: "codec_env \<Rightarrow> string \<Rightarrow> bytes \<Rightarrow> nat \<Rightarrow> 32 word \<Rightarrow> jd \<Rightarrow> (fault + jd) option" where
  "save_file e name b off len d =
     (case mem_read off (unat len) b of
        Inl x \<Rightarrow> Some (Inl x)
      | Inr bs \<Rightarrow>
          (case Write2File (ce_write e) (if ce_creat e name then Some [] else None) bs len of
             None \<Rightarrow> None
           | Some (_, None) \<Rightarrow> Some (Inr d)
           | Some (_, Some content) \<Rightarrow> Some (Inr (d\<lparr>jd_files := (jd_files d)(name \<mapsto> content)\<rparr>))))"

text \<open>
  One round of the loop that loads a file, in pieces of 4096 bytes as \<open>select\<close> allows. \<open>rest\<close> is what has not been read yet;
  the end of the file is known when a read gives fewer bytes than asked for. While the size of the picture is
  not known the header is parsed again.
\<close>

definition load_piece :: "bool \<Rightarrow> bytes \<Rightarrow> nat \<Rightarrow> jd \<Rightarrow> fault + (bytes \<times> bool \<times> nat \<times> jd)" where
  "load_piece ready rest n d =
     (if ready then bindr (put_jpeg n (take 4096 rest) d) (\<lambda>d.
        Inr (drop 4096 rest, length rest < 4096, n + length (take 4096 rest), d))
      else Inr (rest, False, n, d))"

definition parse_piece :: "bool \<Rightarrow> (int \<times> int) option \<Rightarrow> nat \<Rightarrow> jd \<Rightarrow> fault + ((int \<times> int) option \<times> jd)" where
  "parse_piece parses wh n d =
     (if parses \<and> wh = None then
        bindr (ParsingJPEG (m_jpeg (jd_mem d)) (int n)) (\<lambda>(ret, found, apps).
          Inr (if ret = 0 then found else None, d\<lparr>jd_apps := apps\<rparr>))
      else Inr (wh, d))"

partial_function (option) load_loop ::
  "codec_env \<Rightarrow> bool \<Rightarrow> nat \<Rightarrow> bytes \<Rightarrow> bool \<Rightarrow> nat \<Rightarrow> (int \<times> int) option \<Rightarrow> jd \<Rightarrow>
   (fault + (bool \<times> nat \<times> (int \<times> int) option \<times> jd)) option" where
  "load_loop e parses limit rest feof n wh d =
     (if feof then Some (Inr (True, n, wh, d))
      else
        case bindr (load_piece (ce_ready e (jd_selects d)) rest n (d\<lparr>jd_selects := jd_selects d + 1\<rparr>)) (\<lambda>(rest, feof, n, d).
          bindr (parse_piece parses wh n d) (\<lambda>(wh, d). Inr (rest, feof, n, wh, d)))
        of Inl x \<Rightarrow> Some (Inl x)
         | Inr (rest, feof, n, wh, d) \<Rightarrow>
             if limit < n then Some (Inr (False, n, wh, d)) else load_loop e parses limit rest feof n wh d)"

definition load_file ::
  "codec_env \<Rightarrow> bool \<Rightarrow> nat \<Rightarrow> bytes \<Rightarrow> jd \<Rightarrow> (fault + (bool \<times> nat \<times> (int \<times> int) option \<times> jd)) option" where
  "load_file e parses limit content d = load_loop e parses limit content False 0 None d"

definition round4 :: "nat \<Rightarrow> nat" where
  "round4 n = (if n mod 4 \<noteq> 0 then n - n mod 4 + 4 else n)"

subsection \<open>Decoding and encoding a file\<close>

datatype test =
    TEST_NORMAL_DECODE | TEST_NORMAL_ENCODE | TEST_DECODE_DOWNSCALE | TEST_ENCODE_UPSCALE | TEST_DECODE_OUTPUTWAIT
  | TEST_ENCODE_RESERVED | TEST_DECODE_DOWNSCALE_FB

definition is_decode :: "test \<Rightarrow> bool" where
  "is_decode mode \<longleftrightarrow> mode \<in> {TEST_NORMAL_DECODE, TEST_DECODE_DOWNSCALE, TEST_DECODE_OUTPUTWAIT, TEST_DECODE_DOWNSCALE_FB}"

definition is_downscale :: "test \<Rightarrow> bool" where
  "is_downscale mode \<longleftrightarrow> mode = TEST_DECODE_DOWNSCALE \<or> mode = TEST_DECODE_DOWNSCALE_FB"

definition dec_param :: "codec_env \<Rightarrow> test \<Rightarrow> jpeg_param_t" where
  "dec_param e mode =
     (let p = param0\<lparr>q_src_bufsize := 100 * 1024, q_dst_bufsize := 640 * 480 * 2\<rparr> in
      if is_downscale mode then p\<lparr>q_scale := 1, q_scaled_width := 320, q_scaled_height := 240, q_dec_stride := ce_xres e\<rparr>
      else if mode = TEST_DECODE_OUTPUTWAIT
      then p\<lparr>q_src_bufsize := 600 * 1024, q_dst_bufsize := 200 * 1024, q_decopw_en := 1\<rparr>
      else p)"

definition clear_buffers :: "nat \<Rightarrow> jd \<Rightarrow> fault + jd" where
  "clear_buffers n d = bindr (put_jpeg 0 (replicate n 0x77) d) (put_video 0 (replicate n 0x77))"

text \<open>
  The target of a decode with output wait; the check behind \<open>malloc\<close> looks at another pointer and never fails.
  The product is an \<open>int\<close>.
\<close>

definition output_wait :: "codec_env \<Rightarrow> int \<Rightarrow> int \<Rightarrow> jd \<Rightarrow> jd" where
  "output_wait e width height d =
     (let width = (if width smod 2 \<noteq> 0 then s32 (2 * (width div 2) + 2) else width);
          n = word_of_int (width * height * 4);
          (adr, block) = (case ce_heap e (unat n) of None \<Rightarrow> (0, []) | Some ab \<Rightarrow> ab) in
      d\<lparr>jd_param := (jd_param d)\<lparr>q_dec_stride := word_of_int width, q_decopw_TargetBuffersize := n, q_decopw_vaddr := adr\<rparr>,
        jd_mem := (jd_mem d)\<lparr>m_sw := block\<rparr>\<rparr>)"

text \<open>The place of the picture in the middle of the panel, in unsigned arithmetic.\<close>

definition output_offset :: "32 word \<Rightarrow> 32 word \<Rightarrow> 32 word" where
  "output_offset xres yres = (xres * ((yres - 240) div 2) + (xres - 320) div 2) * 2"

definition fb_target :: "codec_env \<Rightarrow> jpeg_param_t \<Rightarrow> jpeg_param_t" where
  "fb_target e p =
     (let off = output_offset (ce_xres e) (ce_yres e) in
      p\<lparr>q_paddr_dst := ce_paddr e + off, q_vaddr_dst := ce_vaddr e + off\<rparr>)"

text \<open>The parameters of the decode behind the load; \<open>n\<close> is the size of the file.\<close>

definition dec_setup :: "codec_env \<Rightarrow> test \<Rightarrow> nat \<Rightarrow> (int \<times> int) option \<Rightarrow> jd \<Rightarrow> jd" where
  "dec_setup e mode n wh d =
     (let p = jd_param d; total = q_src_bufsize p + q_dst_bufsize p; cnt = of_nat (round4 n);
          (width, height) = (case wh of None \<Rightarrow> ce_junk e | Some s \<Rightarrow> s);
          d = d\<lparr>jd_param := p\<lparr>q_src_bufsize := cnt, q_dst_bufsize := total - cnt\<rparr>\<rparr>;
          d = (if mode = TEST_DECODE_OUTPUTWAIT then output_wait e width height d else d);
          p = (jd_param d)\<lparr>q_buffersize := 0, q_buffercount := 1, q_decode_output_format := RGB565\<rparr> in
      d\<lparr>jd_param := if mode = TEST_DECODE_DOWNSCALE_FB then fb_target e p else p\<rparr>)"

definition dec_save :: "codec_env \<Rightarrow> test \<Rightarrow> jpeg_info_t \<Rightarrow> jd \<Rightarrow> (fault + jd) option" where
  "dec_save e mode info d =
     (let src = unat (q_src_bufsize (jd_param d)); n = i_image_size info; m = jd_mem d in
      if i_state info \<noteq> ST_DECODED_IMAGE then Some (Inr d)
      else if mode = TEST_DECODE_DOWNSCALE then
        runs (Some (bindr (mem_read src (unat n) (m_jpeg m)) (\<lambda>bs. put_video 0 bs d))) (\<lambda>d.
          save_file e ''./DecodeDownscale.dat'' (m_jpeg (jd_mem d)) src n d)
      else if mode = TEST_DECODE_DOWNSCALE_FB then
        save_file e ''./DecodeDownscaleFB.dat'' (m_video m) 0 (ce_xres e * ce_yres e * 2) d
      else if mode = TEST_DECODE_OUTPUTWAIT then save_file e ''./DecodeOPW.dat'' (m_sw m) 0 n d
      else save_file e ''./NormalDecode.dat'' (m_jpeg m) src n d)"

definition decode_file :: "codec_env \<Rightarrow> test \<Rightarrow> jd \<Rightarrow> (fault + jd) option" where
  "decode_file e mode d =
     (let p = dec_param e mode; total = q_src_bufsize p + q_dst_bufsize p; d = d\<lparr>jd_param := p\<rparr> in
      if ce_size e < total then Some (Inr d)
      else
        runs (Some (if is_downscale mode then clear_buffers (unat total) d else Inr d)) (\<lambda>d.
        case jd_files d (if mode = TEST_DECODE_OUTPUTWAIT then ''./jpegOPW.jpg'' else ''./jpegDec.jpg'') of
          None \<Rightarrow> Some (Inr d)
        | Some content \<Rightarrow>
            runs (load_file e True (unat (q_src_bufsize p)) content d) (\<lambda>(fits, n, wh, d).
              if \<not> fits then Some (Inr d)
              else
                case run_codec e (dec_setup e mode n wh d) of
                  (None, d) \<Rightarrow> Some (Inr d)
                | (Some info, d) \<Rightarrow> dec_save e mode info d)))"

definition enc_param :: "test \<Rightarrow> jpeg_param_t" where
  "enc_param mode =
     (let p = param0\<lparr>q_encode := 1, q_src_bufsize := 640 * 480 * 2, q_dst_bufsize := 100 * 1024, q_encode_width := 640,
           q_encode_height := 480, q_encode_source_format := ENC_SRC_PACKET, q_encode_image_format := ENC_YUV420,
           q_buffersize := 0, q_buffercount := 1\<rparr> in
      if mode = TEST_ENCODE_UPSCALE then p\<lparr>q_scaled_width := 800, q_scaled_height := 600, q_scale := 1\<rparr> else p)"

definition g_au8QT0 :: bytes where "g_au8QT0 = replicate 64 1"
definition g_au8QT1 :: bytes where "g_au8QT1 = replicate 64 2"

definition qtables :: "codec_env \<Rightarrow> jd \<Rightarrow> jd" where
  "qtables e d =
     (if jd_qtflag d
      then snd (request e ReqUserQTable (snd (request e (ReqQTable1 g_au8QT1) (snd (request e (ReqQTable0 g_au8QT0) d)))))
      else snd (request e ReqDefaultQTable d))"

text \<open>The data behind the first six bytes of the bit stream, for the use of an application.\<close>

definition reserved :: "codec_env \<Rightarrow> jd \<Rightarrow> fault + jd" where
  "reserved e d =
     bindr (put_jpeg (unat (q_src_bufsize (jd_param d)) + 6) (map of_nat [0..<1024]) d) (\<lambda>d.
       Inr (snd (request e (ReqReserved 1024) d)))"

definition enc_name :: "test \<Rightarrow> string" where
  "enc_name mode =
     (if mode = TEST_ENCODE_UPSCALE then ''./EncodeUpscale.jpg''
      else if mode = TEST_ENCODE_RESERVED then ''./NormalEncodeReserved.jpg'' else ''./NormalEncode.jpg'')"

definition encode_file :: "codec_env \<Rightarrow> test \<Rightarrow> jd \<Rightarrow> (fault + jd) option" where
  "encode_file e mode d =
     (let p = enc_param mode; d = d\<lparr>jd_param := p\<rparr> in
      runs (Some (if mode = TEST_ENCODE_RESERVED then reserved e d else Inr d)) (\<lambda>d.
      case request e (ReqParam p) (qtables e d) of (ok, d) \<Rightarrow>
        if \<not> ok then Some (Inr d)
        else if ce_size e < q_src_bufsize p + q_dst_bufsize p then Some (Inr d)
        else
          case jd_files d ''./jpegEnc.dat'' of
            None \<Rightarrow> Some (Inr d)
          | Some content \<Rightarrow>
              runs (load_file e False (unat (q_src_bufsize p)) content d) (\<lambda>(fits, n, wh, d).
                if \<not> fits then Some (Inr d)
                else
                  case trigger e d of
                    (None, d) \<Rightarrow> Some (Inr d)
                  | (Some info, d) \<Rightarrow>
                      save_file e (enc_name mode) (m_jpeg (jd_mem d)) (unat (q_src_bufsize p)) (i_image_size info) d)))"

definition jpegCodec :: "codec_env \<Rightarrow> test \<Rightarrow> jd \<Rightarrow> (fault + jd) option" where
  "jpegCodec e mode d = (if is_decode mode then decode_file e mode d else encode_file e mode d)"

subsection \<open>The loading of a file\<close>

text \<open>The variables when the first \<open>n\<close> bytes of a file are in the memory of the engine.\<close>

definition with_bytes :: "bytes \<Rightarrow> nat \<Rightarrow> (int \<times> int) list \<Rightarrow> nat \<Rightarrow> jd \<Rightarrow> jd" where
  "with_bytes content n apps k d =
     d\<lparr>jd_mem := (jd_mem d)\<lparr>m_jpeg := blit 0 (take n content) (m_jpeg (jd_mem d))\<rparr>, jd_apps := apps, jd_selects := k\<rparr>"

lemma with_bytes_simps [simp]:
  "(with_bytes content n as k d)\<lparr>jd_apps := bs\<rparr> = with_bytes content n bs k d"
  "(with_bytes content n as k d)\<lparr>jd_selects := j\<rparr> = with_bytes content n as j d"
  "jd_selects (with_bytes content n as k d) = k" "jd_apps (with_bytes content n as k d) = as"
  "with_bytes content 0 (jd_apps d) (jd_selects d) d = d"
  by (simp_all add: with_bytes_def)

lemma with_bytes_all: "length content \<le> n \<Longrightarrow> with_bytes content n as k d = with_bytes content (length content) as k d"
  by (simp add: with_bytes_def)

lemma load_piece_loads:
  assumes "n \<le> length content" "length content \<le> length (m_jpeg (jd_mem d))"
  shows "load_piece True (drop n content) n (with_bytes content n apps k d) =
      Inr (drop (n + 4096) content, length content < n + 4096, min (length content) (n + 4096), with_bytes content (n + 4096) apps k d)"
proof -
  let ?b = "m_jpeg (jd_mem d)" and ?c = "take 4096 (drop n content)"
  have "arr_copy n ?c (blit 0 (take n content) ?b) = Inr (blit n ?c (blit 0 (take n content) ?b))"
    using assms by (intro arr_copy_Inr) (auto simp: blit_def min_def)
  moreover have "blit n ?c (blit 0 (take n content) ?b) = blit 0 (take (n + 4096) content) ?b"
    using assms by (simp add: blit_def min_def take_add)
  moreover have "n + min (length content - n) 4096 = min (length content) (n + 4096)" "length content - n < 4096 \<longleftrightarrow> length content < n + 4096"
    using assms(1) by auto
  ultimately show ?thesis
    by (simp add: load_piece_def put_jpeg_def with_bytes_def add.commute)
qed

text \<open>What the loop knows: nothing, or the result of the header; without parsing the table is left alone.\<close>

definition known :: "bool \<Rightarrow> int \<times> int \<Rightarrow> (int \<times> int) list \<Rightarrow> (int \<times> int) option \<Rightarrow> (int \<times> int) list \<Rightarrow> bool" where
  "known parses s apps wh as \<longleftrightarrow> (if parses then wh = None \<or> wh = Some s \<and> as = apps else wh = None \<and> as = apps)"

lemma parse_piece_finds:
  assumes "parses \<Longrightarrow> ParsingJPEG content (int (length content)) = Inr (0, Some s, apps)" "length content < length (m_jpeg (jd_mem d))"
    and "known parses s apps wh as"
  shows "\<exists>wh' as'. parse_piece parses wh (min (length content) n) (with_bytes content n as k d) = Inr (wh', with_bytes content n as' k d) \<and>
    known parses s apps wh' as' \<and> (length content \<le> n \<longrightarrow> wh' = (if parses then Some s else None) \<and> as' = apps)"
proof (cases "parses \<and> wh = None")
  case False
  thus ?thesis using assms(3) by (auto simp: parse_piece_def known_def)
next
  case True
  let ?n = "min (length content) n" and ?b = "m_jpeg (jd_mem (with_bytes content n as k d))"
  have "take ?n ?b = take ?n content" "?n < length ?b"
    using assms(2) by (auto simp: with_bytes_def min_def)
  from ParsingJPEG_prefix [OF assms(1) _ this(2,1)] True
  show ?thesis by (auto simp: parse_piece_def known_def)
qed

text \<open>One round of the loop, without and with a piece of the file.\<close>

lemma load_loop_waits:
  assumes "parses \<Longrightarrow> ParsingJPEG content (int (length content)) = Inr (0, Some s, apps)"
    "length content \<le> limit" "length content < length (m_jpeg (jd_mem d))" "n \<le> length content" "known parses s apps wh as" "\<not> ce_ready e k"
  shows "\<exists>wh' as'. known parses s apps wh' as' \<and>
    load_loop e parses limit (drop n content) False n wh (with_bytes content n as k d) =
    load_loop e parses limit (drop n content) False n wh' (with_bytes content n as' (Suc k) d)"
proof -
  obtain wh' as' where p: "parse_piece parses wh n (with_bytes content n as (Suc k) d) = Inr (wh', with_bytes content n as' (Suc k) d)"
    "known parses s apps wh' as'"
    using parse_piece_finds [OF assms(1,3,5), of n "Suc k"] unfolding min_absorb2 [OF assms(4)] by blast
  show ?thesis
  proof (intro exI conjI)
    show "load_loop e parses limit (drop n content) False n wh (with_bytes content n as k d) =
      load_loop e parses limit (drop n content) False n wh' (with_bytes content n as' (Suc k) d)"
      using assms(2,4,6) p(1) by (subst load_loop.simps) (simp add: load_piece_def)
  qed (rule p(2))
qed

lemma load_loop_piece:
  assumes "parses \<Longrightarrow> ParsingJPEG content (int (length content)) = Inr (0, Some s, apps)"
    "length content \<le> limit" "length content < length (m_jpeg (jd_mem d))" "n \<le> length content" "known parses s apps wh as" "ce_ready e k"
  shows "\<exists>wh' as'. known parses s apps wh' as' \<and> (length content \<le> n + 4096 \<longrightarrow> wh' = (if parses then Some s else None) \<and> as' = apps) \<and>
    load_loop e parses limit (drop n content) False n wh (with_bytes content n as k d) =
    load_loop e parses limit (drop (n + 4096) content) (length content < n + 4096) (min (length content) (n + 4096)) wh'
      (with_bytes content (n + 4096) as' (Suc k) d)"
proof -
  let ?n = "min (length content) (n + 4096)"
  obtain wh' as' where p: "parse_piece parses wh ?n (with_bytes content (n + 4096) as (Suc k) d) = Inr (wh', with_bytes content (n + 4096) as' (Suc k) d)"
    "known parses s apps wh' as'" "length content \<le> n + 4096 \<longrightarrow> wh' = (if parses then Some s else None) \<and> as' = apps"
    using parse_piece_finds [OF assms(1,3,5), of "n + 4096" "Suc k"] by auto
  have "load_piece True (drop n content) n (with_bytes content n as (Suc k) d) =
      Inr (drop (n + 4096) content, length content < n + 4096, ?n, with_bytes content (n + 4096) as (Suc k) d)"
    using assms(3,4) by (intro load_piece_loads) simp_all
  moreover have "limit < ?n \<longleftrightarrow> False" using assms(2) by simp
  ultimately have "load_loop e parses limit (drop n content) False n wh (with_bytes content n as k d) =
    load_loop e parses limit (drop (n + 4096) content) (length content < n + 4096) ?n wh' (with_bytes content (n + 4096) as' (Suc k) d)"
    using assms(6) p(1) by (subst load_loop.simps) (simp del: min_less_iff_conj)
  thus ?thesis using p(2,3) by blast
qed

lemma load_loop_loads:
  assumes "parses \<Longrightarrow> ParsingJPEG content (int (length content)) = Inr (0, Some s, apps)" "\<forall>k. \<exists>j\<ge>k. ce_ready e j"
    "length content \<le> limit" "length content < length (m_jpeg (jd_mem d))" "n \<le> length content" "known parses s apps wh as"
  shows "\<exists>j. load_loop e parses limit (drop n content) False n wh (with_bytes content n as k d) =
    Some (Inr (True, length content, if parses then Some s else None, with_bytes content (length content) apps j d))"
  using assms(5,6)
proof (induction "length content - n" arbitrary: n wh as k rule: less_induct)
  case (less n wh as k)
  let ?f = "\<lambda>wh as k. load_loop e parses limit (drop n content) False n wh (with_bytes content n as k d)"
  obtain j where j: "k \<le> j" "ce_ready e j" using assms(2) by blast
  have "\<exists>wh' as' k'. known parses s apps wh' as' \<and> ce_ready e k' \<and> ?f wh as k = ?f wh' as' k'"
    if "k \<le> j" "known parses s apps wh as" for wh as k
    using that
  proof (induction "j - k" arbitrary: k wh as)
    case 0
    thus ?case using j(2) by auto
  next
    case (Suc m)
    show ?case
    proof (cases "ce_ready e k")
      case True
      thus ?thesis using Suc.prems(2) by blast
    next
      case False
      hence "Suc k \<le> j" using Suc.prems(1) j(2) by (metis le_neq_implies_less less_eq_Suc_le)
      moreover obtain wh' as' where "known parses s apps wh' as'" "?f wh as k = ?f wh' as' (Suc k)"
        using load_loop_waits [OF assms(1,3,4) less.prems(1) Suc.prems(2) False] by blast
      moreover have "m = j - Suc k" using Suc.hyps(2) by simp
      ultimately show ?thesis using Suc.hyps(1) [of "Suc k" wh' as'] by auto
    qed
  qed
  from this [OF j(1) less.prems(2)] obtain wh1 as1 k1 where 1: "known parses s apps wh1 as1" "ce_ready e k1" "?f wh as k = ?f wh1 as1 k1" by blast
  from load_loop_piece [OF assms(1,3,4) less.prems(1) 1(1,2)] obtain wh' as' where
    2: "known parses s apps wh' as'" "length content \<le> n + 4096 \<longrightarrow> wh' = (if parses then Some s else None) \<and> as' = apps"
    "?f wh1 as1 k1 = load_loop e parses limit (drop (n + 4096) content) (length content < n + 4096) (min (length content) (n + 4096)) wh'
      (with_bytes content (n + 4096) as' (Suc k1) d)" by blast
  show ?case
  proof (cases "length content < n + 4096")
    case True
    hence "?f wh as k = Some (Inr (True, length content, if parses then Some s else None, with_bytes content (length content) apps (Suc k1) d))"
      using 1(3) 2(2,3) by (simp add: load_loop.simps min_def with_bytes_all [of content "n + 4096"])
    thus ?thesis by blast
  next
    case False
    hence "length content - (n + 4096) < length content - n" "n + 4096 \<le> length content" by linarith+
    with less.hyps [OF this 2(1), of "Suc k1"] show ?thesis using 1(3) 2(3) False by (simp add: min_absorb2)
  qed
qed

text \<open>A file that fits is loaded whole, and with its header the size of the picture and the table of segments are known.\<close>

lemma load_file_loads:
  assumes "parses \<Longrightarrow> ParsingJPEG content (int (length content)) = Inr (0, Some s, apps)" "parses \<or> apps = jd_apps d" "\<forall>k. \<exists>j\<ge>k. ce_ready e j"
    "length content \<le> limit" "length content < length (m_jpeg (jd_mem d))"
  shows "\<exists>j. load_file e parses limit content d =
    Some (Inr (True, length content, if parses then Some s else None, with_bytes content (length content) apps j d))"
proof -
  have "known parses s apps None (jd_apps d)" using assms(2) by (auto simp: known_def)
  from load_loop_loads [OF assms(1,3-5) _ this, of 0 "jd_selects d"] show ?thesis by (simp add: load_file_def)
qed

subsection \<open>The tests\<close>

lemma round4_bounds: "n \<le> round4 n" "round4 n < n + 4" "round4 n mod 4 = 0"
  unfolding round4_def by presburger+

lemma save_file_saves:
  assumes "file_takes (ce_write e) id" "ce_creat e name" "off + unat len \<le> length b"
  shows "save_file e name b off len d = Some (Inr (d\<lparr>jd_files := (jd_files d)(name \<mapsto> take (unat len) (drop off b))\<rparr>))"
proof -
  let ?bs = "take (unat len) (drop off b)"
  have "unat len \<le> length ?bs" using assms(3) by simp
  from write_loop_writes [OF assms(1) this, of 0 "[]"]
  have "Write2File (ce_write e) (Some []) ?bs len = Some (0, Some ?bs)" by (auto simp: Write2File_def)
  thus ?thesis using assms(2,3) by (simp add: save_file_def mem_read_def)
qed

text \<open>An engine that takes every request, and a directory and a file system that take the result.\<close>

definition codec_fine :: "codec_env \<Rightarrow> bool" where
  "codec_fine e \<longleftrightarrow> (\<forall>l. ce_ok e l) \<and> (\<forall>k. \<exists>j\<ge>k. ce_ready e j) \<and> (\<forall>name. ce_creat e name) \<and> file_takes (ce_write e) id"

definition decode_request :: "nat \<Rightarrow> jpeg_param_t" where
  "decode_request n = param0\<lparr>q_src_bufsize := of_nat (round4 n), q_dst_bufsize := 716800 - of_nat (round4 n), q_buffercount := 1,
     q_decode_output_format := RGB565\<rparr>"

theorem jpegCodec_decodes:
  assumes "codec_fine e" "716800 \<le> ce_size e" "length (m_jpeg (jd_mem d)) = unat (ce_size e)"
    and "jd_files d ''./jpegDec.jpg'' = Some content" "length content \<le> 102400"
    and "ParsingJPEG content (int (length content)) = Inr (0, Some s, apps)"
    and "l = jd_log d @ [Req (ReqParam (decode_request (length content))), Req ReqTrigger]"
    and "ce_read e l ((jd_mem d)\<lparr>m_jpeg := blit 0 content (m_jpeg (jd_mem d))\<rparr>) = Some (info, m)"
    and "i_state info = ST_DECODED_IMAGE" "round4 (length content) + unat (i_image_size info) \<le> length (m_jpeg m)"
  shows "\<exists>d'. jpegCodec e TEST_NORMAL_DECODE d = Some (Inr d') \<and> jd_log d' = l @ [ReadInfo] \<and> jd_apps d' = apps \<and>
    jd_files d' = (jd_files d)(''./NormalDecode.dat'' \<mapsto> take (unat (i_image_size info)) (drop (round4 (length content)) (m_jpeg m)))"
proof -
  have u: "unat (102400 :: 32 word) = 102400" "unat (of_nat (round4 (length content)) :: 32 word) = round4 (length content)"
    "length content < length (m_jpeg (jd_mem d))"
    using round4_bounds [of "length content"] assms(2,3,5) by (simp_all add: unat_of_nat word_le_nat_alt)
  let ?d = "d\<lparr>jd_param := dec_param e TEST_NORMAL_DECODE\<rparr>"
  obtain j where ld: "load_file e True 102400 content ?d = Some (Inr (True, length content, Some s, with_bytes content (length content) apps j ?d))"
    using load_file_loads [of True content s apps ?d e 102400] assms(1,5,6) u(3) by (auto simp: codec_fine_def)
  have p: "dec_param e TEST_NORMAL_DECODE = param0\<lparr>q_src_bufsize := 102400, q_dst_bufsize := 614400\<rparr>"
    by (simp add: dec_param_def is_downscale_def)
  let ?w = "with_bytes content (length content) apps j ?d"
  have ds: "dec_setup e TEST_NORMAL_DECODE (length content) (Some s) ?w = ?w\<lparr>jd_param := decode_request (length content)\<rparr>"
    by (simp add: dec_setup_def with_bytes_def p decode_request_def Let_def param0_def split: prod.split)
  have rc: "run_codec e (?w\<lparr>jd_param := decode_request (length content)\<rparr>) =
      (Some info, ?w\<lparr>jd_param := decode_request (length content), jd_log := l @ [ReadInfo], jd_mem := m\<rparr>)"
    using assms(1,7,8) by (simp add: run_codec_def trigger_def request_def read_info_def with_bytes_def codec_fine_def)
  show ?thesis using assms(1,2,4,9,10) ld ds rc u(1,2)
    by (simp add: jpegCodec_def is_decode_def decode_file_def p Let_def is_downscale_def linorder_not_less [symmetric] dec_save_def
        decode_request_def save_file_saves codec_fine_def with_bytes_def)
qed

text \<open>The requests of an encode, in order.\<close>

definition encode_requests :: "test \<Rightarrow> bool \<Rightarrow> codec_ev list" where
  "encode_requests mode user =
     (if mode = TEST_ENCODE_RESERVED then [Req (ReqReserved 1024)] else []) @
     (if user then [Req (ReqQTable0 g_au8QT0), Req (ReqQTable1 g_au8QT1), Req ReqUserQTable] else [Req ReqDefaultQTable]) @
     [Req (ReqParam (enc_param mode)), Req ReqTrigger]"

definition encode_memory :: "test \<Rightarrow> bytes \<Rightarrow> bytes \<Rightarrow> bytes" where
  "encode_memory mode content b = blit 0 content (if mode = TEST_ENCODE_RESERVED then blit 614406 (map of_nat [0..<1024]) b else b)"

theorem jpegCodec_encodes:
  assumes "codec_fine e" "716800 \<le> ce_size e" "length (m_jpeg (jd_mem d)) = unat (ce_size e)" "\<not> is_decode mode"
    and "jd_files d ''./jpegEnc.dat'' = Some content" "length content \<le> 614400"
    and "ce_read e (jd_log d @ encode_requests mode (jd_qtflag d))
      ((jd_mem d)\<lparr>m_jpeg := encode_memory mode content (m_jpeg (jd_mem d))\<rparr>) = Some (info, m)"
    and "614400 + unat (i_image_size info) \<le> length (m_jpeg m)"
  shows "\<exists>d'. jpegCodec e mode d = Some (Inr d') \<and> jd_log d' = jd_log d @ encode_requests mode (jd_qtflag d) @ [ReadInfo] \<and>
    jd_files d' = (jd_files d)(enc_name mode \<mapsto> take (unat (i_image_size info)) (drop 614400 (m_jpeg m)))"
proof -
  have size: "716800 \<le> length (m_jpeg (jd_mem d))" using assms(2,3) by (simp add: word_le_nat_alt)
  have p: "q_src_bufsize (enc_param x) = 614400" "q_dst_bufsize (enc_param x) = 102400" for x by (simp_all add: enc_param_def Let_def)
  define d1 where "d1 = d\<lparr>jd_param := enc_param mode\<rparr>"
  define d2 where "d2 = (if mode = TEST_ENCODE_RESERVED
    then d1\<lparr>jd_mem := (jd_mem d)\<lparr>m_jpeg := blit 614406 (map of_nat [0..<1024]) (m_jpeg (jd_mem d))\<rparr>, jd_log := jd_log d @ [Req (ReqReserved 1024)]\<rparr> else d1)"
  have r: "(if mode = TEST_ENCODE_RESERVED then reserved e d1 else Inr d1) = Inr d2"
    using size by (simp add: reserved_def put_jpeg_def d1_def d2_def p request_def Let_def)
  define d3 where "d3 = snd (request e (ReqParam (enc_param mode)) (qtables e d2))"
  have d3: "request e (ReqParam (enc_param mode)) (qtables e d2) = (True, d3)"
    using assms(1) by (simp add: d3_def request_def codec_fine_def Let_def)
  have log: "jd_log d3 @ [Req ReqTrigger] = jd_log d @ encode_requests mode (jd_qtflag d)" "jd_files d3 = jd_files d"
    "jd_mem d3 = jd_mem d2"
    by (simp_all add: d3_def request_def qtables_def d2_def d1_def encode_requests_def Let_def)
  have "length content < length (m_jpeg (jd_mem d3))" using assms(6) size by (auto simp: log(3) d2_def d1_def)
  then obtain j where ld: "load_file e False 614400 content d3 = Some (Inr (True, length content, None, with_bytes content (length content) (jd_apps d3) j d3))"
    using load_file_loads [of False content "(0, 0)" "jd_apps d3" d3 e 614400] assms(1,6) by (auto simp: codec_fine_def)
  let ?w = "with_bytes content (length content) (jd_apps d3) j d3"
  have "jd_mem ?w = (jd_mem d)\<lparr>m_jpeg := encode_memory mode content (m_jpeg (jd_mem d))\<rparr>"
    by (simp add: with_bytes_def log(3) encode_memory_def d2_def d1_def)
  hence tr: "trigger e ?w = (Some info, ?w\<lparr>jd_log := jd_log d @ encode_requests mode (jd_qtflag d) @ [ReadInfo], jd_mem := m\<rparr>)"
    using assms(1,7) log(1) by (simp add: trigger_def request_def read_info_def codec_fine_def with_bytes_def)
  have sv: "save_file e (enc_name mode) (m_jpeg m) 614400 (i_image_size info) x =
      Some (Inr (x\<lparr>jd_files := (jd_files x)(enc_name mode \<mapsto> take (unat (i_image_size info)) (drop 614400 (m_jpeg m)))\<rparr>))" for x
    using assms(1,8) by (intro save_file_saves) (simp_all add: codec_fine_def)
  have w: "jd_files ?w = jd_files d" using log(2) by (simp add: with_bytes_def)
  have "\<not> ce_size e < 716800" using assms(2) by simp
  thus ?thesis unfolding jpegCodec_def encode_file_def Let_def d1_def [symmetric] r
    using assms(4,5) by (simp add: d3 ld tr sv w log(2) p)
qed

text \<open>
  A panel with less memory than the engine's 700 KB, for instance one of 320 by 240 pixels, is overrun by the
  \<open>memset\<close> in front of a decode with downscaling.
\<close>

theorem downscale_overruns:
  assumes "is_downscale mode" "716800 \<le> ce_size e" "length (m_jpeg (jd_mem d)) = unat (ce_size e)" "length (m_video (jd_mem d)) < 716800"
  shows "jpegCodec e mode d = Some (Inl OutOfBounds)"
proof -
  have p: "q_src_bufsize (dec_param e mode) + q_dst_bufsize (dec_param e mode) = 716800" using assms(1) by (simp add: dec_param_def Let_def)
  have "clear_buffers 716800 (d\<lparr>jd_param := dec_param e mode\<rparr>) = Inl OutOfBounds"
    using assms(2-4) by (simp add: clear_buffers_def put_jpeg_def put_video_def arr_copy_def word_le_nat_alt)
  thus ?thesis using assms(1,2) p
    by (auto simp: jpegCodec_def is_decode_def is_downscale_def decode_file_def Let_def linorder_not_less [symmetric])
qed

text \<open>On a panel of at least 320 by 240 pixels the picture in its middle lies inside the panel.\<close>

lemma word_half: "(w - v) div 2 = of_nat ((unat w - unat v) div 2)" if "unat v \<le> unat w" for w v :: "32 word"
proof -
  have "unat ((w - v) div 2) = (unat w - unat v) div 2" using that by (simp add: unat_div unat_sub word_le_nat_alt)
  thus ?thesis by (metis of_nat_unat ucast_id)
qed

theorem output_offset_inside:
  assumes "320 \<le> unat xres" "240 \<le> unat yres" "unat xres * unat yres * 2 < 4294967296"
  shows "unat (output_offset xres yres) + (239 * unat xres + 320) * 2 \<le> unat xres * unat yres * 2"
proof -
  obtain a b where ab: "unat xres = 320 + a" "unat yres = 240 + b" using assms(1,2) le_Suc_ex by blast
  let ?n = "((320 + a) * (b div 2) + a div 2) * 2"
  have "(320 + a) * (b div 2 * 2) \<le> (320 + a) * b" "a div 2 * 2 \<le> a" by (intro mult_le_mono) simp_all
  hence le: "?n + (239 * unat xres + 320) * 2 \<le> unat xres * unat yres * 2" unfolding ab by (simp add: algebra_simps)
  have "output_offset xres yres = of_nat ?n"
    using word_half [of 240 yres] word_half [of 320 xres] ab by (simp add: output_offset_def)
      (metis ab(1) of_nat_unat ucast_id of_nat_add of_nat_numeral)
  hence "unat (output_offset xres yres) = ?n mod 4294967296" by (simp del: of_nat_mult of_nat_add add: unat_of_nat)
  moreover have "?n < 4294967296" using le assms(3) by linarith
  ultimately show ?thesis using le by simp
qed

subsection \<open>An engine that does nothing\<close>

text \<open>It takes every request, leaves the memories alone and reports a decoded picture of \<open>n\<close> bytes.\<close>

definition idle_env :: "32 word \<Rightarrow> 32 word \<Rightarrow> 32 word \<Rightarrow> 32 word \<Rightarrow> codec_env" where
  "idle_env xres yres mem n = \<lparr>ce_ok = (\<lambda>_. True), ce_val = (\<lambda>_. 0),
     ce_read = (\<lambda>_ m. Some (\<lparr>i_width = xres, i_height = yres, i_state = ST_DECODED_IMAGE, i_image_size = n\<rparr>, m)),
     ce_ready = (\<lambda>_. True), ce_creat = (\<lambda>_. True), ce_write = (\<lambda>c bs. (int (length bs), c @ bs)), ce_heap = (\<lambda>_. None),
     ce_junk = (0, 0), ce_xres = xres, ce_yres = yres, ce_size = mem, ce_paddr = 0, ce_vaddr = 0\<rparr>"

definition demo_jpg :: bytes where
  "demo_jpg = [0xFF, 0xD8, 0xFF, 0xC0, 0, 17, 8, 0, 240, 1, 64]"

definition demo_jd :: "nat \<Rightarrow> nat \<Rightarrow> jd" where
  "demo_jd mem video = \<lparr>jd_param = param0, jd_mem = \<lparr>m_jpeg = replicate mem 0, m_video = replicate video 0, m_sw = []\<rparr>, jd_apps = [], jd_qtflag = False,
     jd_log = [], jd_selects = 0, jd_files = (\<lambda>_. Some demo_jpg)\<rparr>"

lemma demo_jpg_parse: "ParsingJPEG demo_jpg (int (length demo_jpg)) = Inr (0, Some (320, 240), [])"
  by code_simp

lemma idle_env_fine: "codec_fine (idle_env xres yres mem n)"
proof -
  have "\<exists>k d'. (int (length bs), c @ bs) = (int k, d') \<and> 1 \<le> k \<and> k \<le> length bs \<and> d' = c @ take k bs" if "bs \<noteq> []" for c bs :: bytes
    using that by (intro exI [of _ "length bs"]) (cases bs, auto)
  thus ?thesis unfolding codec_fine_def file_takes_def by (auto simp: idle_env_def)
qed

lemma idle_env_simps [simp]:
  "ce_xres (idle_env xres yres mem n) = xres" "ce_yres (idle_env xres yres mem n) = yres" "ce_size (idle_env xres yres mem n) = mem"
  "ce_read (idle_env xres yres mem n) l m = Some (\<lparr>i_width = xres, i_height = yres, i_state = ST_DECODED_IMAGE, i_image_size = n\<rparr>, m)"
  by (simp_all add: idle_env_def)

lemma demo_jd_simps [simp]:
  "jd_mem (demo_jd mem video) = \<lparr>m_jpeg = replicate mem 0, m_video = replicate video 0, m_sw = []\<rparr>"
  "jd_log (demo_jd mem video) = []" "jd_files (demo_jd mem video) = (\<lambda>_. Some demo_jpg)" "length demo_jpg = 11"
  by (simp_all add: demo_jd_def demo_jpg_def)

theorem jpegCodec_decodes_witness:
  "\<exists>d'. jpegCodec (idle_env 320 240 716800 4) TEST_NORMAL_DECODE (demo_jd 716800 0) = Some (Inr d') \<and>
    jd_log d' = [Req (ReqParam (decode_request 11)), Req ReqTrigger, ReadInfo] \<and>
    jd_files d' = (\<lambda>_. Some demo_jpg)(''./NormalDecode.dat'' \<mapsto> [0, 0, 0, 0])"
proof -
  let ?m = "(jd_mem (demo_jd 716800 0))\<lparr>m_jpeg := blit 0 demo_jpg (replicate 716800 0)\<rparr>"
  have r: "round4 11 = 12" by (simp add: round4_def)
  have "drop 12 (blit 0 demo_jpg (replicate 716800 0)) = replicate 716788 0" by (simp add: blit_def)
  moreover have "take 4 (replicate 716788 (0 :: 8 word)) = [0, 0, 0, 0]" by simp (simp add: numeral_eq_Suc)
  moreover have "length (m_jpeg ?m) = 716800" by simp
  ultimately show ?thesis
    using jpegCodec_decodes [of "idle_env 320 240 716800 4" "demo_jd 716800 0" demo_jpg "(320, 240)" "[]" _ _ ?m, OF idle_env_fine _ _ _ _ demo_jpg_parse refl]
    by (auto simp: r)
qed

end
