(* ===== verification/JpegWindow.thy ===== *)
theory JpegWindow
  imports JpegDemo
begin

unbundle bit_operations_syntax

text \<open>
  The tests of src/jpeg_codec/jpeg_demo.c that work piece by piece: \<open>jpegWindowCodec\<close> decodes a window of the
  picture that moves down to the right and back, \<open>jpegCodecIPW\<close> hands the bit stream to the engine in the
  pieces it asks for. Both loops may run for ever, and are partial functions.
\<close>

subsection \<open>Window decode\<close>

definition win_param :: "codec_env \<Rightarrow> jpeg_param_t" where
  "win_param e = param0\<lparr>q_src_bufsize := 300 * 1024, q_dst_bufsize := ce_xres e * ce_yres e * 2\<rparr>"

definition win_start :: "codec_env \<Rightarrow> nat \<Rightarrow> jpeg_param_t \<Rightarrow> jpeg_param_t" where
  "win_start e n p =
     (let total = q_src_bufsize p + q_dst_bufsize p; cnt = of_nat (round4 n) in
      p\<lparr>q_src_bufsize := cnt, q_dst_bufsize := total - cnt, q_mcux_start := 0, q_mcux_end := ce_xres e div 16 - 1,
        q_mcuy_start := 0, q_mcuy_end := ce_yres e div 16 - 1\<rparr>)"

text \<open>What every round sets.\<close>

definition win_round :: "codec_env \<Rightarrow> jpeg_param_t \<Rightarrow> jpeg_param_t" where
  "win_round e p = p\<lparr>q_encode := 0, q_src_bufsize := 300 * 1024, q_dst_bufsize := ce_xres e * ce_yres e * 2, q_decInWait := 0,
     q_windec_stride := ce_xres e, q_dec_stride := 0, q_scale := 0, q_buffersize := 0, q_buffercount := 1, q_windec_en := 1,
     q_decode_output_format := RGB565\<rparr>"

definition win_shift :: "32 word \<Rightarrow> jpeg_param_t \<Rightarrow> jpeg_param_t" where
  "win_shift v p = p\<lparr>q_mcux_start := q_mcux_start p + v, q_mcux_end := q_mcux_end p + v,
     q_mcuy_start := q_mcuy_start p + v, q_mcuy_end := q_mcuy_end p + v\<rparr>"

text \<open>The next window and direction; the last macro blocks of the picture are compared as unsigned numbers.\<close>

definition win_next :: "32 word \<Rightarrow> 32 word \<Rightarrow> bool \<Rightarrow> jpeg_param_t \<Rightarrow> jpeg_param_t \<times> bool" where
  "win_next wx wy back p =
     (let p = win_shift (if back then - 1 else 1) p in
      if wx < q_mcux_end p \<or> wy < q_mcuy_end p then (win_shift (- 1) p, True) else (p, back))"

definition win_show :: "codec_env \<Rightarrow> jpeg_info_t \<Rightarrow> jd \<Rightarrow> fault + jd" where
  "win_show e info d =
     (if i_state info = ST_DECODED_IMAGE
      then bindr (mem_read (unat (q_src_bufsize (jd_param d))) (unat (ce_xres e * ce_yres e * 2)) (m_jpeg (jd_mem d))) (\<lambda>bs. put_video 0 bs d)
      else Inr d)"

partial_function (option) window_loop :: "codec_env \<Rightarrow> 32 word \<Rightarrow> 32 word \<Rightarrow> bool \<Rightarrow> jd \<Rightarrow> (fault + jd) option" where
  "window_loop e wx wy back d =
     (case run_codec e (d\<lparr>jd_param := win_round e (jd_param d)\<rparr>) of
        (None, d) \<Rightarrow> Some (Inr d)
      | (Some info, d) \<Rightarrow>
          (case win_show e info d of
             Inl x \<Rightarrow> Some (Inl x)
           | Inr d \<Rightarrow>
               (let again = \<not> ((q_mcux_start (jd_param d) = 0 \<or> q_mcuy_start (jd_param d) = 0) \<and> back);
                    (p, back) = win_next wx wy back (jd_param d);
                    d = d\<lparr>jd_param := p\<rparr> in
                if again then window_loop e wx wy back d else Some (Inr d))))"

definition jpegWindowCodec :: "codec_env \<Rightarrow> jd \<Rightarrow> (fault + jd) option" where
  "jpegWindowCodec e d =
     (let p = win_param e; d = d\<lparr>jd_param := p\<rparr> in
      if ce_size e < q_src_bufsize p + q_dst_bufsize p then Some (Inr d)
      else
        case jd_files d ''./jpegWIN.jpg'' of
          None \<Rightarrow> Some (Inr d)
        | Some content \<Rightarrow>
            runs (load_file e True (unat (q_src_bufsize p)) content d) (\<lambda>(fits, n, wh, d).
              if \<not> fits then Some (Inr d)
              else
                let (width, height) = (case wh of None \<Rightarrow> ce_junk e | Some s \<Rightarrow> s) in
                window_loop e (word_of_int (width sdiv 16 - 1)) (word_of_int (height sdiv 16 - 1)) False
                  (d\<lparr>jd_param := win_start e n (jd_param d)\<rparr>)))"

subsection \<open>The windows\<close>

text \<open>The window \<open>i\<close> macro blocks away from the corner, for a panel of \<open>px\<close> by \<open>py\<close> blocks.\<close>

definition win_at :: "codec_env \<Rightarrow> nat \<Rightarrow> nat \<Rightarrow> nat \<Rightarrow> jpeg_param_t" where
  "win_at e px py i = (win_round e param0)\<lparr>q_mcux_start := of_nat i, q_mcux_end := of_nat (i + px - 1),
     q_mcuy_start := of_nat i, q_mcuy_end := of_nat (i + py - 1)\<rparr>"

definition win_events :: "codec_env \<Rightarrow> nat \<Rightarrow> nat \<Rightarrow> nat \<Rightarrow> codec_ev list" where
  "win_events e px py i = [Req (ReqParam (win_at e px py i)), Req ReqTrigger, ReadInfo]"

text \<open>An engine that takes every request and leaves the memories as large as they are.\<close>

definition engine_steady :: "codec_env \<Rightarrow> bool" where
  "engine_steady e \<longleftrightarrow> (\<forall>l. ce_ok e l) \<and> (\<forall>l m. \<exists>info m'. ce_read e l m = Some (info, m') \<and>
     length (m_jpeg m') = length (m_jpeg m) \<and> length (m_video m') = length (m_video m))"

definition win_mem_ok :: "codec_env \<Rightarrow> jd \<Rightarrow> bool" where
  "win_mem_ok e d \<longleftrightarrow> 307200 + unat (ce_xres e * ce_yres e * 2) \<le> length (m_jpeg (jd_mem d)) \<and>
     unat (ce_xres e * ce_yres e * 2) \<le> length (m_video (jd_mem d))"

lemma win_round_at: "win_round e (win_at e px py i) = win_at e px py i"
  by (simp add: win_at_def win_round_def)

lemma win_at_next:
  assumes "0 < px" "0 < py" "px \<le> w" "py \<le> h" "w < 65536" "h < 65536" "k = min (w - px) (h - py)" "i \<le> k"
  shows "win_next (of_nat (w - 1)) (of_nat (h - 1)) False (win_at e px py i) = (if i < k then (win_at e px py (Suc i), False) else (win_at e px py k, True))"
    and "0 < i \<Longrightarrow> win_next (of_nat (w - 1)) (of_nat (h - 1)) True (win_at e px py i) = (win_at e px py (i - 1), True)"
proof -
  have up: "win_shift 1 (win_at e px py i) = win_at e px py (Suc i)"
    using assms(1,2) by (simp add: win_shift_def win_at_def add.commute of_nat_diff)
  have down: "win_shift (- 1) (win_at e px py (Suc j)) = win_at e px py j" for j
    using assms(1,2) by (simp add: win_shift_def win_at_def of_nat_diff)
  have lt: "(of_nat (a - 1) :: 32 word) < of_nat (j + q - 1) \<longleftrightarrow> a < j + q" if "a < 65536" "0 < a" "0 < q" "j + q < 200000" for a j q
  proof -
    have "unat (of_nat (a - 1) :: 32 word) = a - 1" "unat (of_nat (j + q - 1) :: 32 word) = j + q - 1"
      using that by (simp_all only: unat_of_nat) (simp_all del: of_nat_diff)
    thus ?thesis using that(2,3) unfolding word_less_nat_alt by linarith
  qed
  have end1: "of_nat (w - 1) < q_mcux_end (win_at e px py j) \<longleftrightarrow> w < j + px" "of_nat (h - 1) < q_mcuy_end (win_at e px py j) \<longleftrightarrow> h < j + py"
    if "j \<le> Suc k" for j
    using lt [of w px j] lt [of h py j] that assms(1-7) by (simp_all add: win_at_def)
  show "win_next (of_nat (w - 1)) (of_nat (h - 1)) False (win_at e px py i) = (if i < k then (win_at e px py (Suc i), False) else (win_at e px py k, True))"
  proof (cases "i < k")
    case True
    hence "\<not> w < Suc i + px" "\<not> h < Suc i + py" using assms(7) by auto
    thus ?thesis using True end1 [of "Suc i"] by (simp add: win_next_def up)
  next
    case False
    hence "i = k" using assms(8) by simp
    hence "w < Suc i + px \<or> h < Suc i + py" using assms(3,4,7) by (auto simp: min_def split: if_splits)
    thus ?thesis using \<open>i = k\<close> end1 [of "Suc k"] up down [of k] by (auto simp: win_next_def Let_def)
  qed
  show "win_next (of_nat (w - 1)) (of_nat (h - 1)) True (win_at e px py i) = (win_at e px py (i - 1), True)" if pos: "0 < i"
  proof -
    obtain j where j: "i = Suc j" using pos gr0_implies_Suc by blast
    have "\<not> w < j + px" "\<not> h < j + py" using j assms(3,4,7,8) by (auto simp: min_def split: if_splits)
    thus ?thesis using end1 [of j] assms(8) by (simp add: win_next_def j down)
  qed
qed

text \<open>One round of the loop.\<close>

lemma win_show_ok:
  assumes "win_mem_ok e d" "q_src_bufsize (jd_param d) = 307200"
  shows "\<exists>v. win_show e info d = Inr (d\<lparr>jd_mem := (jd_mem d)\<lparr>m_video := v\<rparr>\<rparr>) \<and> length v = length (m_video (jd_mem d))"
proof (cases "i_state info = ST_DECODED_IMAGE")
  case True
  let ?n = "unat (ce_xres e * ce_yres e * 2)"
  define bs where "bs = take ?n (drop 307200 (m_jpeg (jd_mem d)))"
  have n: "length bs = ?n" "?n \<le> length (m_video (jd_mem d))" using assms(1) unfolding bs_def win_mem_ok_def by auto
  have "mem_read 307200 ?n (m_jpeg (jd_mem d)) = Inr bs" using assms(1) by (simp add: bs_def win_mem_ok_def mem_read_def)
  hence "win_show e info d = Inr (d\<lparr>jd_mem := (jd_mem d)\<lparr>m_video := blit 0 bs (m_video (jd_mem d))\<rparr>\<rparr>)"
    using True assms(2) n by (simp add: win_show_def put_video_def)
  thus ?thesis using n by (intro exI [of _ "blit 0 bs (m_video (jd_mem d))"]) simp
next
  case False
  hence "win_show e info d = Inr (d\<lparr>jd_mem := (jd_mem d)\<lparr>m_video := m_video (jd_mem d)\<rparr>\<rparr>)" by (simp add: win_show_def)
  thus ?thesis by blast
qed

lemma window_round:
  assumes "engine_steady e" "win_mem_ok e d" "jd_param d = win_at e px py i" "i < 65536"
  shows "\<exists>d'. win_mem_ok e d' \<and> jd_log d' = jd_log d @ win_events e px py i \<and> jd_param d' = fst (win_next wx wy back (win_at e px py i)) \<and>
    window_loop e wx wy back d =
      (if i = 0 \<and> back then Some (Inr d') else window_loop e wx wy (snd (win_next wx wy back (win_at e px py i))) d')"
proof -
  let ?p = "win_at e px py i" and ?l = "jd_log d @ [Req (ReqParam (win_at e px py i)), Req ReqTrigger]"
  obtain info m where r: "ce_read e ?l (jd_mem d) = Some (info, m)" "length (m_jpeg m) = length (m_jpeg (jd_mem d))"
    "length (m_video m) = length (m_video (jd_mem d))"
    using assms(1) unfolding engine_steady_def by blast
  let ?d = "d\<lparr>jd_log := jd_log d @ win_events e px py i, jd_mem := m\<rparr>"
  have run: "run_codec e (d\<lparr>jd_param := win_round e (win_at e px py i)\<rparr>) = (Some info, ?d)"
    using r(1) assms(1,3) by (simp add: run_codec_def trigger_def request_def read_info_def engine_steady_def win_round_at win_events_def)
  have "win_mem_ok e ?d" "q_src_bufsize (jd_param ?d) = 307200"
    using assms(2,3) r(2,3) by (simp_all add: win_mem_ok_def win_at_def win_round_def)
  then obtain v where v: "win_show e info ?d = Inr (?d\<lparr>jd_mem := m\<lparr>m_video := v\<rparr>\<rparr>)" "length v = length (m_video m)"
    using win_show_ok [of e ?d info] by auto
  have "(of_nat i :: 32 word) = 0 \<longleftrightarrow> i = 0" using assms(4) unat_eq_zero [of "of_nat i :: 32 word"] by (simp add: unat_of_nat)
  hence z: "q_mcux_start ?p = 0 \<longleftrightarrow> i = 0" "q_mcuy_start ?p = 0 \<longleftrightarrow> i = 0" by (simp_all add: win_at_def)
  define d1 where "d1 = ?d\<lparr>jd_mem := m\<lparr>m_video := v\<rparr>\<rparr>"
  have d1: "jd_param d1 = ?p" "jd_log d1 = jd_log d @ win_events e px py i" "win_mem_ok e d1"
    using assms(2,3) r(2,3) v(2) by (simp_all add: d1_def win_mem_ok_def)
  let ?d' = "d1\<lparr>jd_param := fst (win_next wx wy back ?p)\<rparr>"
  have "window_loop e wx wy back d =
      (if \<not> ((i = 0 \<or> i = 0) \<and> back) then window_loop e wx wy (snd (win_next wx wy back ?p)) ?d' else Some (Inr ?d'))"
    unfolding window_loop.simps [of e wx wy "back" d] assms(3) run prod.case option.case v(1) sum.case d1_def [symmetric] d1(1) z
    by (simp only: Let_def case_prod_unfold)
  thus ?thesis using d1(2,3) by (intro exI [of _ ?d']) (simp add: win_mem_ok_def)
qed

lemma window_back:
  assumes "engine_steady e" "0 < px" "0 < py" "px \<le> w" "py \<le> h" "w < 65536" "h < 65536" "k = min (w - px) (h - py)"
  shows "i \<le> k \<Longrightarrow> win_mem_ok e d \<Longrightarrow> jd_param d = win_at e px py i \<Longrightarrow>
    \<exists>d'. window_loop e (of_nat (w - 1)) (of_nat (h - 1)) True d = Some (Inr d') \<and> win_mem_ok e d' \<and>
      jd_log d' = jd_log d @ concat (map (win_events e px py) (rev [0..<Suc i]))"
proof (induction i arbitrary: d)
  case 0
  thus ?case using window_round [OF assms(1) 0(2,3), of "of_nat (w - 1)" "of_nat (h - 1)" True] by auto
next
  case (Suc i)
  have "Suc i < 65536" using Suc.prems(1) assms(6,8) by auto
  from window_round [OF assms(1) Suc.prems(2,3) this, of "of_nat (w - 1)" "of_nat (h - 1)" True]
  obtain d1 where 1: "win_mem_ok e d1" "jd_log d1 = jd_log d @ win_events e px py (Suc i)" "jd_param d1 = win_at e px py i"
    "window_loop e (of_nat (w - 1)) (of_nat (h - 1)) True d = window_loop e (of_nat (w - 1)) (of_nat (h - 1)) True d1"
    using win_at_next(2) [OF assms(2-8) Suc.prems(1), of e] by auto
  thus ?case using Suc.IH [OF _ 1(1,3)] Suc.prems(1) by auto
qed

lemma window_forth:
  assumes "engine_steady e" "0 < px" "0 < py" "px \<le> w" "py \<le> h" "w < 65536" "h < 65536" "k = min (w - px) (h - py)"
  shows "i \<le> k \<Longrightarrow> win_mem_ok e d \<Longrightarrow> jd_param d = win_at e px py i \<Longrightarrow>
    \<exists>d'. window_loop e (of_nat (w - 1)) (of_nat (h - 1)) False d = Some (Inr d') \<and> win_mem_ok e d' \<and>
      jd_log d' = jd_log d @ concat (map (win_events e px py) ([i..<Suc k] @ rev [0..<Suc k]))"
proof (induction "k - i" arbitrary: i d)
  case 0
  have i: "i = k" using 0(1,2) by simp
  hence i2: "i < 65536" using assms(6,8) by simp
  from window_round [OF assms(1) 0(3,4) i2, of "of_nat (w - 1)" "of_nat (h - 1)" False]
  obtain d1 where 1: "win_mem_ok e d1" "jd_log d1 = jd_log d @ win_events e px py k" "jd_param d1 = win_at e px py k"
    "window_loop e (of_nat (w - 1)) (of_nat (h - 1)) False d = window_loop e (of_nat (w - 1)) (of_nat (h - 1)) True d1"
    using win_at_next(1) [OF assms(2-8) 0(2), of e] i by auto
  thus ?case using window_back [OF assms _ 1(1,3)] i by auto
next
  case (Suc n)
  have i: "i < k" "i < 65536" "Suc i \<le> k" "n = k - Suc i" using Suc.hyps(2) assms(6,8) min.cobounded1 [of "w - px" "h - py"] by linarith+
  from window_round [OF assms(1) Suc.prems(2,3) i(2), of "of_nat (w - 1)" "of_nat (h - 1)" False]
  obtain d1 where 1: "win_mem_ok e d1" "jd_log d1 = jd_log d @ win_events e px py i" "jd_param d1 = win_at e px py (Suc i)"
    "window_loop e (of_nat (w - 1)) (of_nat (h - 1)) False d = window_loop e (of_nat (w - 1)) (of_nat (h - 1)) False d1"
    using win_at_next(1) [OF assms(2-8) Suc.prems(1), of e] i(1) by auto
  have "[i..<Suc k] = i # [Suc i..<Suc k]" using i(1) by (intro upt_conv_Cons) simp
  thus ?case using Suc.hyps(1) [OF i(4,3) 1(1,3)] 1(2,4) by auto
qed

lemma window_loop_round: "window_loop e wx wy b d = window_loop e wx wy b (d\<lparr>jd_param := win_round e (jd_param d)\<rparr>)"
proof -
  have "win_round e (win_round e p) = win_round e p" for p by (simp add: win_round_def)
  thus ?thesis by (simp add: window_loop.simps [of e wx wy b d] window_loop.simps [of e wx wy b "d\<lparr>jd_param := win_round e (jd_param d)\<rparr>"])
qed

lemma word_div16: "(w :: 32 word) div 16 - 1 = of_nat (unat w div 16 - 1)" if "16 \<le> unat w"
proof -
  have "1 \<le> unat w div 16" using that by simp
  have "unat (w div 16) = unat w div 16" by (simp add: unat_div)
  hence "w div 16 = of_nat (unat w div 16)" by (metis of_nat_unat ucast_id)
  with \<open>1 \<le> unat w div 16\<close> show ?thesis by (simp add: of_nat_diff)
qed

text \<open>
  C37: The windows of \<open>jpegWindowCodec\<close>: on a picture that is at least as large as the panel, counted in macro blocks, the
  loop ends, and the engine decodes the windows 0, 1, \<dots>, k and then k, \<dots>, 1, 0 blocks away from the corner, where
  k is the last that lies inside the picture. Every window has the size of the panel and lies inside the picture, and the
  copies to the panel stay inside its memory.
\<close>

theorem jpegWindowCodec_windows:
  assumes "codec_fine e" "engine_steady e" "307200 + unat (ce_xres e) * unat (ce_yres e) * 2 \<le> unat (ce_size e)"
    and "length (m_jpeg (jd_mem d)) = unat (ce_size e)" "length (m_video (jd_mem d)) = unat (ce_xres e) * unat (ce_yres e) * 2"
    and "jd_files d ''./jpegWIN.jpg'' = Some content" "length content \<le> 307200"
    and "ParsingJPEG content (int (length content)) = Inr (0, Some (int w, int h), apps)" "w < 65536" "h < 65536"
    and "px = unat (ce_xres e) div 16" "py = unat (ce_yres e) div 16" "0 < px" "0 < py" "px \<le> w div 16" "py \<le> h div 16"
    and "k = min (w div 16 - px) (h div 16 - py)"
  shows "\<exists>d'. jpegWindowCodec e d = Some (Inr d') \<and>
    jd_log d' = jd_log d @ concat (map (win_events e px py) ([0..<Suc k] @ rev [0..<Suc k])) \<and>
    (\<forall>i\<le>k. i + px \<le> w div 16 \<and> i + py \<le> h div 16)"
proof -
  have big: "16 \<le> unat (ce_xres e)" "16 \<le> unat (ce_yres e)" using assms(11-14) by (simp_all add: div_greater_zero_iff)
  have sz: "unat (ce_xres e * ce_yres e * 2) = unat (ce_xres e) * unat (ce_yres e) * 2"
    "unat (307200 + ce_xres e * ce_yres e * 2) = 307200 + unat (ce_xres e) * unat (ce_yres e) * 2"
  proof -
    let ?N = "unat (ce_xres e) * unat (ce_yres e) * 2"
    have lt: "307200 + ?N < 4294967296" by (rule le_less_trans [OF assms(3)]) (rule less_le_trans [OF unsigned_less], simp)
    have eq: "ce_xres e * ce_yres e * 2 = of_nat ?N" "307200 + ce_xres e * ce_yres e * 2 = of_nat (307200 + ?N)" by simp_all
    have "unat (of_nat ?N :: 32 word) = ?N" "unat (of_nat (307200 + ?N) :: 32 word) = 307200 + ?N"
      using lt by (simp_all only: unat_of_nat) simp_all
    thus "unat (ce_xres e * ce_yres e * 2) = ?N" "unat (307200 + ce_xres e * ce_yres e * 2) = 307200 + ?N" unfolding eq by simp_all
  qed
  hence fit: "\<not> ce_size e < 307200 + ce_xres e * ce_yres e * 2" using assms(3) by (simp only: word_less_nat_alt)
  define d1 where "d1 = d\<lparr>jd_param := win_param e\<rparr>"
  have "0 < unat (ce_xres e) * unat (ce_yres e) * 2" using big by simp
  hence "length content < unat (ce_size e)" using assms(3,7) by linarith
  hence "length content < length (m_jpeg (jd_mem d1))" using assms(4) by (simp add: d1_def)
  then obtain j where ld: "load_file e True 307200 content d1 =
      Some (Inr (True, length content, Some (int w, int h), with_bytes content (length content) apps j d1))"
    using load_file_loads [of True content "(int w, int h)" apps d1 e 307200] assms(1,7,8) by (auto simp: codec_fine_def)
  define d2 where "d2 = with_bytes content (length content) apps j d1"
  define d3 where "d3 = d2\<lparr>jd_param := win_at e px py 0\<rparr>"
  have "win_round e (win_start e (length content) (jd_param d2)) = win_at e px py 0"
    using big by (simp add: win_round_def win_start_def win_at_def d2_def with_bytes_def d1_def win_param_def Let_def word_div16 assms(11,12))
  hence loop: "window_loop e wx wy b (d2\<lparr>jd_param := win_start e (length content) (jd_param d2)\<rparr>) = window_loop e wx wy b d3" for wx wy b
    by (subst window_loop_round) (simp add: d3_def)
  have "win_mem_ok e d3" using assms(3-5,7) by (simp add: win_mem_ok_def sz d3_def d2_def with_bytes_def d1_def)
  moreover have "w div 16 < 65536" "h div 16 < 65536" using assms(9,10) by simp_all
  ultimately obtain d' where d': "window_loop e (of_nat (w div 16 - 1)) (of_nat (h div 16 - 1)) False d3 = Some (Inr d')"
      "jd_log d' = jd_log d3 @ concat (map (win_events e px py) ([0..<Suc k] @ rev [0..<Suc k]))"
    using window_forth [OF assms(2,13-16) _ _ assms(17), of 0 d3] by (auto simp: d3_def)
  have ends: "word_of_int (int w sdiv 16 - 1) = (of_nat (w div 16 - 1) :: 32 word)" "word_of_int (int h sdiv 16 - 1) = (of_nat (h div 16 - 1) :: 32 word)"
  proof -
    have "int n sdiv 16 - 1 = int (n div 16 - 1)" if "0 < n div 16" for n
      using that by (cases "n = 0") (simp_all add: signed_divide_int_def zdiv_int of_nat_diff)
    moreover have "0 < w div 16" "0 < h div 16" using assms(13-16) by linarith+
    ultimately show "word_of_int (int w sdiv 16 - 1) = (of_nat (w div 16 - 1) :: 32 word)" "word_of_int (int h sdiv 16 - 1) = (of_nat (h div 16 - 1) :: 32 word)"
      by (simp_all only: of_int_of_nat_eq)
  qed
  have "jd_log d3 = jd_log d" by (simp add: d3_def d2_def with_bytes_def d1_def)
  moreover have "jpegWindowCodec e d = window_loop e (word_of_int (int w sdiv 16 - 1)) (word_of_int (int h sdiv 16 - 1)) False d3"
    using fit assms(6) ld loop by (simp add: jpegWindowCodec_def win_param_def Let_def d1_def d2_def)
  hence "jpegWindowCodec e d = window_loop e (of_nat (w div 16 - 1)) (of_nat (h div 16 - 1)) False d3" by (simp only: ends)
  moreover have "\<forall>i\<le>k. i + px \<le> w div 16 \<and> i + py \<le> h div 16" using assms(15-17) by (simp add: le_diff_conv2)
  ultimately show ?thesis using d' by simp
qed

theorem jpegWindowCodec_windows_witness:
  "\<exists>d'. jpegWindowCodec (idle_env 32 16 308224 0) (demo_jd 308224 1024) = Some (Inr d') \<and>
    jd_log d' = concat (map (win_events (idle_env 32 16 308224 0) 2 1) ([0..<Suc 14] @ rev [0..<Suc 14]))"
proof -
  let ?e = "idle_env 32 16 308224 0" and ?d = "demo_jd 308224 1024"
  have "engine_steady ?e" by (auto simp: engine_steady_def idle_env_def)
  moreover have "ParsingJPEG demo_jpg (int (length demo_jpg)) = Inr (0, Some (int 320, int 240), [])" using demo_jpg_parse by simp
  ultimately have "\<exists>d'. jpegWindowCodec ?e ?d = Some (Inr d') \<and>
      jd_log d' = jd_log ?d @ concat (map (win_events ?e 2 1) ([0..<Suc 14] @ rev [0..<Suc 14])) \<and>
      (\<forall>i\<le>14. i + 2 \<le> 320 div 16 \<and> i + 1 \<le> (240 :: nat) div 16)"
    by (intro jpegWindowCodec_windows [OF idle_env_fine, where content = demo_jpg and apps = "[]"]) simp_all
  thus ?thesis unfolding demo_jd_simps append_Nil by blast
qed

subsection \<open>Decode with input wait\<close>

definition ipw_param :: "codec_env \<Rightarrow> bool \<Rightarrow> jpeg_param_t" where
  "ipw_param e downscale =
     (let p = param0\<lparr>q_src_bufsize := 16 * 1024, q_dst_bufsize := 640 * 480 * 2, q_decInWait := 16 * 1024, q_buffersize := 0,
            q_buffercount := 1, q_decode_output_format := RGB565\<rparr> in
      if downscale then p\<lparr>q_scale := 1, q_scaled_width := 320, q_scaled_height := 240, q_dec_stride := ce_xres e\<rparr> else p)"

text \<open>A request that gives a number, which is stored when it succeeds.\<close>

definition ask_codec :: "codec_env \<Rightarrow> codec_req \<Rightarrow> 32 word \<Rightarrow> jd \<Rightarrow> 32 word \<times> jd" where
  "ask_codec e q v d = (case request e q d of (ok, d) \<Rightarrow> (if ok then ce_val e (jd_log d) else v, d))"

text \<open>The inner loop waits until the buffer of the engine is empty or the engine is done.\<close>

definition ipw_done :: "32 word \<Rightarrow> bool" where
  "ipw_done state \<longleftrightarrow> state = ST_DECODED_IMAGE \<or> state = ST_MEM_SHORTAGE"

partial_function (option) ipw_poll :: "codec_env \<Rightarrow> 32 word \<Rightarrow> 32 word \<Rightarrow> jd \<Rightarrow> (32 word \<times> 32 word \<times> jd) option" where
  "ipw_poll e buffer state d =
     (case ask_codec e ReqBufferState buffer d of (buffer, d) \<Rightarrow>
      case ask_codec e ReqState state d of (state, d) \<Rightarrow>
        if buffer \<noteq> IPW_EMPTY \<and> \<not> ipw_done state then ipw_poll e buffer state d else Some (buffer, state, d))"

text \<open>
  A piece of the file goes through a block of 16 KB, which \<open>malloc\<close> may not have given, to the engine; how much
  it may be is up to the engine. The result of \<open>write\<close> is not looked at.
\<close>

definition ipw_fill :: "codec_env \<Rightarrow> nat \<Rightarrow> bytes \<Rightarrow> jd \<Rightarrow> fault + (bytes \<times> jd)" where
  "ipw_fill e n rest d =
     (let ready = ce_ready e (jd_selects d); d = d\<lparr>jd_selects := jd_selects d + 1\<rparr>; bs = take n rest in
      if \<not> ready \<or> bs = [] then Inr (rest, d)
      else if ce_heap e 16384 = None then Inl NullDeref
      else if 16384 < length bs then Inl OutOfBounds
      else Inr (drop n rest, d\<lparr>jd_log := jd_log d @ [Fill bs]\<rparr>))"

text \<open>
  The outer loop. Its condition is always true, because the state is never equal to both of two values: it ends
  only when the engine is done, the first result, or when a request fails.
\<close>

partial_function (option) ipw_loop :: "codec_env \<Rightarrow> bytes \<Rightarrow> bool \<Rightarrow> 32 word \<Rightarrow> 32 word \<Rightarrow> jd \<Rightarrow> (fault + (bool \<times> jd)) option" where
  "ipw_loop e rest bTrigger buffer state d =
     (case ipw_poll e buffer state d of
        None \<Rightarrow> None
      | Some (buffer, state, d) \<Rightarrow>
          if ipw_done state then Some (Inr (True, d))
          else
            case request e ReqBufferSize d of (ok, d) \<Rightarrow>
            if \<not> ok then Some (Inr (False, d))
            else
              case ipw_fill e (unat (ce_val e (jd_log d))) rest d of
                Inl x \<Rightarrow> Some (Inl x)
              | Inr (rest, d) \<Rightarrow>
                  if bTrigger then ipw_loop e rest True buffer state (snd (request e ReqResume d))
                  else
                    case request e ReqTrigger d of (ok, d) \<Rightarrow>
                    if \<not> ok then Some (Inr (False, d)) else ipw_loop e rest True buffer state d)"

definition ipw_save :: "codec_env \<Rightarrow> bool \<Rightarrow> jpeg_info_t \<Rightarrow> jd \<Rightarrow> (fault + jd) option" where
  "ipw_save e downscale info d =
     (let src = unat (q_src_bufsize (jd_param d)); n = i_image_size info in
      if i_state info \<noteq> ST_DECODED_IMAGE then Some (Inr d)
      else if downscale then
        runs (Some (bindr (mem_read src (unat n) (m_jpeg (jd_mem d))) (\<lambda>bs. put_video 0 bs d))) (\<lambda>d.
          save_file e ''./decIPW_DecodeDownscale.dat'' (m_jpeg (jd_mem d)) src n d)
      else save_file e ''./decIPW_NormalDecode.dat'' (m_jpeg (jd_mem d)) src n d)"

text \<open>\<open>mode\<close> is \<open>TEST_DECODE_DOWNSCALE\<close> or another; the two words are what the uninitialised variables hold.\<close>

definition jpegCodecIPW :: "codec_env \<Rightarrow> test \<Rightarrow> 32 word \<Rightarrow> 32 word \<Rightarrow> jd \<Rightarrow> (fault + jd) option" where
  "jpegCodecIPW e mode buffer state d =
     (let downscale = (mode = TEST_DECODE_DOWNSCALE); p = ipw_param e downscale; total = q_src_bufsize p + q_dst_bufsize p in
      case jd_files d ''./jpegIPW.jpg'' of
        None \<Rightarrow> Some (Inr (d\<lparr>jd_param := param0\<lparr>q_src_bufsize := 16 * 1024, q_dst_bufsize := 640 * 480 * 2, q_decInWait := 16 * 1024\<rparr>\<rparr>))
      | Some content \<Rightarrow>
          case request e (ReqParam p) (d\<lparr>jd_param := p\<rparr>) of (ok, d) \<Rightarrow>
          if \<not> ok then Some (Inr d)
          else if ce_size e < total then Some (Inr d)
          else
            runs (Some (if downscale then clear_buffers (unat total) d else Inr d)) (\<lambda>d.
            runs (ipw_loop e content False buffer state d) (\<lambda>(ended, d).
              if \<not> ended then Some (Inr d)
              else
                case read_info e d of
                  (None, d) \<Rightarrow> Some (Inr d)
                | (Some info, d) \<Rightarrow> ipw_save e downscale info d)))"

subsection \<open>The pieces of the bit stream\<close>

text \<open>What the engine has got, and the commands that set it going.\<close>

definition fed :: "codec_ev list \<Rightarrow> bytes" where
  "fed l = concat (map (\<lambda>x. case x of Fill bs \<Rightarrow> bs | _ \<Rightarrow> []) l)"

definition commands :: "codec_ev list \<Rightarrow> codec_ev list" where
  "commands l = filter (\<lambda>x. x = Req ReqTrigger \<or> x = Req ReqResume) l"

definition is_poll :: "codec_ev \<Rightarrow> bool" where
  "is_poll x \<longleftrightarrow> x = Req ReqBufferState \<or> x = Req ReqState"

text \<open>How often the state of the buffer was asked for since anything else happened.\<close>

definition polls :: "codec_ev list \<Rightarrow> nat" where
  "polls l = length (filter (\<lambda>x. x = Req ReqBufferState) (takeWhile is_poll (rev l)))"

text \<open>
  An engine that is done when it has got the whole file, empties its buffer after at most \<open>N\<close> questions before
  that, and then has room for at least one byte and at most 16 KB.
\<close>

definition ipw_engine :: "nat \<Rightarrow> bytes \<Rightarrow> codec_env \<Rightarrow> bool" where
  "ipw_engine N content e \<longleftrightarrow> (\<forall>l. ce_ok e l) \<and> (\<forall>k. \<exists>j\<ge>k. ce_ready e j) \<and> ce_heap e 16384 \<noteq> None \<and>
     (\<forall>l. fed l \<noteq> content \<and> N \<le> polls (l @ [Req ReqBufferState]) \<longrightarrow> ce_val e (l @ [Req ReqBufferState]) = IPW_EMPTY) \<and>
     (\<forall>l. ipw_done (ce_val e (l @ [Req ReqState])) \<longleftrightarrow> fed l = content) \<and>
     (\<forall>l. 1 \<le> unat (ce_val e (l @ [Req ReqBufferSize])) \<and> unat (ce_val e (l @ [Req ReqBufferSize])) \<le> 16384)"

lemma fed_simps [simp]: "fed [] = []" "fed (l @ l') = fed l @ fed l'" "fed (Req q # l) = fed l" "fed (Fill bs # l) = bs @ fed l"
  "fed (ReadInfo # l) = fed l"
  by (simp_all add: fed_def)

lemma commands_simps [simp]: "commands [] = []" "commands (l @ l') = commands l @ commands l'" "commands (Fill bs # l) = commands l"
  "commands (Req q # l) = (if q = ReqTrigger \<or> q = ReqResume then Req q # commands l else commands l)" "commands (ReadInfo # l) = commands l"
  by (simp_all add: commands_def)

lemma polls_simps [simp]: "polls (l @ [Req ReqBufferState]) = polls l + 1" "polls (l @ [Req ReqState]) = polls l"
  by (simp_all add: polls_def is_poll_def)

lemma fed_polls: "\<forall>x\<in>set ps. is_poll x \<Longrightarrow> fed ps = [] \<and> commands ps = []"
  by (auto simp: fed_def commands_def is_poll_def filter_empty_conv)

lemma ipw_poll_returns:
  assumes "ipw_engine N content e"
  shows "\<exists>b' s' ps. ipw_poll e b s d = Some (b', s', d\<lparr>jd_log := jd_log d @ ps\<rparr>) \<and> (\<forall>x\<in>set ps. is_poll x) \<and>
    (ipw_done s' \<longleftrightarrow> fed (jd_log d) = content)"
proof (induction "N - polls (jd_log d)" arbitrary: b s d rule: less_induct)
  case less
  let ?l = "jd_log d @ [Req ReqBufferState]"
  let ?b = "ce_val e ?l" and ?s = "ce_val e (?l @ [Req ReqState])" and ?d = "d\<lparr>jd_log := ?l @ [Req ReqState]\<rparr>"
  have s: "ipw_done ?s \<longleftrightarrow> fed (jd_log d) = content" using assms by (simp add: ipw_engine_def del: append_assoc)
  have ok: "ce_ok e x" for x using assms by (simp add: ipw_engine_def)
  have step: "ipw_poll e b s d = (if ?b \<noteq> IPW_EMPTY \<and> \<not> ipw_done ?s then ipw_poll e ?b ?s ?d else Some (?b, ?s, ?d))"
    using ok by (subst ipw_poll.simps) (simp add: ask_codec_def request_def)
  show ?case
  proof (cases "?b \<noteq> IPW_EMPTY \<and> \<not> ipw_done ?s")
    case False
    have "ipw_poll e b s d = Some (?b, ?s, d\<lparr>jd_log := jd_log d @ [Req ReqBufferState, Req ReqState]\<rparr>)"
      unfolding step if_not_P [OF False] by simp
    moreover have "\<forall>x\<in>set [Req ReqBufferState, Req ReqState]. is_poll x" by (simp add: is_poll_def)
    ultimately show ?thesis using s by blast
  next
    case True
    hence "fed (jd_log d) \<noteq> content" using s by simp
    hence "\<not> N \<le> polls ?l" using True assms unfolding ipw_engine_def by blast
    moreover have "polls (jd_log ?d) = Suc (polls (jd_log d))" by (simp del: append_assoc)
    ultimately have "N - polls (jd_log ?d) < N - polls (jd_log d)" by simp
    from less.hyps [OF this, of ?b ?s] obtain b' s' ps where
      "ipw_poll e ?b ?s ?d = Some (b', s', ?d\<lparr>jd_log := jd_log ?d @ ps\<rparr>)" "\<forall>x\<in>set ps. is_poll x" "ipw_done s' \<longleftrightarrow> fed (jd_log ?d) = content"
      by blast
    hence "ipw_poll e b s d = Some (b', s', d\<lparr>jd_log := jd_log d @ [Req ReqBufferState, Req ReqState] @ ps\<rparr>)"
      "\<forall>x\<in>set ([Req ReqBufferState, Req ReqState] @ ps). is_poll x" "ipw_done s' \<longleftrightarrow> fed (jd_log d) = content"
      using step True by (simp_all add: is_poll_def)
    thus ?thesis by blast
  qed
qed

definition ipw_result :: "bytes \<Rightarrow> bool \<Rightarrow> jd \<Rightarrow> (fault + (bool \<times> jd)) option \<Rightarrow> bool" where
  "ipw_result content bTrigger d r \<longleftrightarrow> (\<exists>l k m. r = Some (Inr (True, d\<lparr>jd_log := jd_log d @ l, jd_selects := k\<rparr>)) \<and> fed (jd_log d @ l) = content \<and>
     commands l = (if bTrigger then [] else [Req ReqTrigger]) @ replicate m (Req ReqResume))"

lemma jd_update_swap: "d\<lparr>jd_selects := k, jd_log := l\<rparr> = d\<lparr>jd_log := l, jd_selects := k\<rparr>"
  by simp

text \<open>One round that does not find the engine done: the poll, perhaps a piece of the file, and a command.\<close>

lemma ipw_round:
  assumes "ipw_engine N content e" "fed (jd_log d) @ rest = content" "rest \<noteq> []"
  shows "\<exists>n b' s' d1. ipw_loop e rest trig b s d = ipw_loop e (drop n rest) True b' s' d1 \<and> (ce_ready e (jd_selects d) \<longleftrightarrow> 0 < n) \<and>
    jd_selects d1 = Suc (jd_selects d) \<and> fed (jd_log d1) @ drop n rest = content \<and>
    (\<forall>r. ipw_result content True d1 r \<longrightarrow> ipw_result content trig d r)"
proof -
  obtain b' s' ps where p: "ipw_poll e b s d = Some (b', s', d\<lparr>jd_log := jd_log d @ ps\<rparr>)" "\<forall>x\<in>set ps. is_poll x"
    "ipw_done s' \<longleftrightarrow> fed (jd_log d) = content" using ipw_poll_returns [OF assms(1)] by blast
  have nd: "\<not> ipw_done s'" using p(3) assms(2,3) by auto
  let ?l = "jd_log d @ ps @ [Req ReqBufferSize]"
  define n where "n = (if ce_ready e (jd_selects d) then unat (ce_val e ?l) else 0)"
  have v: "1 \<le> unat (ce_val e ?l)" "unat (ce_val e ?l) \<le> 16384" using assms(1) unfolding ipw_engine_def append_assoc [symmetric] by blast+
  define fs where "fs = (if n = 0 then [] else [Fill (take n rest)])"
  define c where "c = Req (if trig then ReqResume else ReqTrigger)"
  define d1 where "d1 = d\<lparr>jd_log := ?l @ fs @ [c], jd_selects := Suc (jd_selects d)\<rparr>"
  have ok: "ce_ok e x" for x using assms(1) by (simp add: ipw_engine_def)
  have fill: "ipw_fill e (unat (ce_val e ?l)) rest (d\<lparr>jd_log := ?l\<rparr>) = Inr (drop n rest, d\<lparr>jd_log := ?l @ fs, jd_selects := Suc (jd_selects d)\<rparr>)"
    using assms(1,3) v by (auto simp: ipw_fill_def n_def fs_def ipw_engine_def)
  have "ipw_loop e rest trig b s d = ipw_loop e (drop n rest) True b' s' d1"
    unfolding ipw_loop.simps [of e rest trig b s d] p(1)
    using nd fill ok by (cases trig) (simp_all add: request_def d1_def c_def jd_update_swap)
  moreover have "fed (jd_log d1) @ drop n rest = content"
    using assms(2) fed_polls [OF p(2)] by (auto simp: d1_def fs_def c_def)
  moreover have "ipw_result content trig d r" if r: "ipw_result content True d1 r" for r
  proof -
    obtain l k m where r': "r = Some (Inr (True, d1\<lparr>jd_log := jd_log d1 @ l, jd_selects := k\<rparr>))" "fed (jd_log d1 @ l) = content"
      "commands l = replicate m (Req ReqResume)" using r by (auto simp: ipw_result_def)
    let ?l2 = "ps @ [Req ReqBufferSize] @ fs @ [c] @ l"
    have "commands ?l2 = (if trig then [] else [Req ReqTrigger]) @ replicate (if trig then Suc m else m) (Req ReqResume)"
      using r'(3) fed_polls [OF p(2)] by (simp add: fs_def c_def)
    moreover have "r = Some (Inr (True, d\<lparr>jd_log := jd_log d @ ?l2, jd_selects := k\<rparr>))" "fed (jd_log d @ ?l2) = content"
      using r'(1,2) by (simp_all add: d1_def)
    ultimately show ?thesis unfolding ipw_result_def by blast
  qed
  moreover have "ce_ready e (jd_selects d) \<longleftrightarrow> 0 < n" "jd_selects d1 = Suc (jd_selects d)" using v by (simp_all add: n_def d1_def)
  ultimately show ?thesis by blast
qed

lemma ipw_loop_feeds:
  assumes "ipw_engine N content e"
  shows "fed (jd_log d) @ rest = content \<Longrightarrow> rest = [] \<longrightarrow> trig \<Longrightarrow> ipw_result content trig d (ipw_loop e rest trig b s d)"
proof (induction "length rest" arbitrary: rest trig b s d rule: less_induct)
  case less
  show ?case
  proof (cases "rest = []")
    case True
    obtain b' s' ps where p: "ipw_poll e b s d = Some (b', s', d\<lparr>jd_log := jd_log d @ ps\<rparr>)" "\<forall>x\<in>set ps. is_poll x"
      "ipw_done s' \<longleftrightarrow> fed (jd_log d) = content" using ipw_poll_returns [OF assms] by blast
    have "ipw_loop e rest trig b s d = Some (Inr (True, d\<lparr>jd_log := jd_log d @ ps, jd_selects := jd_selects d\<rparr>))"
      using p(1,3) less.prems(1) True by (subst ipw_loop.simps) simp
    moreover have "fed (jd_log d @ ps) = content" "commands ps = []" using fed_polls [OF p(2)] less.prems(1) True by simp_all
    ultimately show ?thesis using less.prems(2) True unfolding ipw_result_def
      by (intro exI [of _ ps] exI [of _ "jd_selects d"] exI [of _ 0]) simp
  next
    case False
    obtain j where j: "jd_selects d \<le> j" "ce_ready e j" using assms unfolding ipw_engine_def by blast
    have "ipw_result content trig d (ipw_loop e rest trig b s d)" if "jd_selects d \<le> j" "fed (jd_log d) @ rest = content" for trig b s d
      using that
    proof (induction "j - jd_selects d" arbitrary: d trig b s rule: less_induct)
      case inner: less
      obtain n b' s' d1 where r: "ipw_loop e rest trig b s d = ipw_loop e (drop n rest) True b' s' d1" "ce_ready e (jd_selects d) \<longleftrightarrow> 0 < n"
        "jd_selects d1 = Suc (jd_selects d)" "fed (jd_log d1) @ drop n rest = content"
        "\<forall>r. ipw_result content True d1 r \<longrightarrow> ipw_result content trig d r"
        using ipw_round [OF assms inner.prems(2) False] by blast
      have "ipw_result content True d1 (ipw_loop e (drop n rest) True b' s' d1)"
      proof (cases "ce_ready e (jd_selects d)")
        case True
        hence "length (drop n rest) < length rest" using r(2) False by simp
        thus ?thesis using less.hyps r(4) by blast
      next
        case nr: False
        hence "jd_selects d1 \<le> j" "j - jd_selects d1 < j - jd_selects d" "drop n rest = rest"
          using j(2) r(2,3) inner.prems(1) by (auto simp: le_less Suc_le_eq)
        thus ?thesis using inner.hyps r(4) by simp
      qed
      thus ?case using r(1,5) by simp
    qed
    thus ?thesis using j(1) less.prems(1) by blast
  qed
qed


definition ipw_demo :: "bytes \<Rightarrow> codec_env" where
  "ipw_demo content = (idle_env 320 240 630784 2)\<lparr>ce_heap := (\<lambda>_. Some (0, [])),
     ce_val := (\<lambda>l. if last l = Req ReqBufferState then IPW_EMPTY
                   else if last l = Req ReqState then (if fed (butlast l) = content then ST_DECODED_IMAGE else 9) else 4),
     ce_read := (\<lambda>_ _. Some (\<lparr>i_width = 1, i_height = 1, i_state = ST_DECODED_IMAGE, i_image_size = 2\<rparr>,
                             \<lparr>m_jpeg = replicate 16384 0 @ [7, 8], m_video = [], m_sw = []\<rparr>))\<rparr>"


end
