(* ===== verification/JpegResize.thy ===== *)
theory JpegResize
  imports JpegWindow
begin

unbundle bit_operations_syntax

text \<open>
  The rest of src/jpeg_codec/jpeg_demo.c: \<open>jpeg_resize\<close>, which decodes a file and encodes it again with another size,
  and the menu. The input of the user is a string from which \<open>scanf\<close> and \<open>getchar\<close> take characters. Variables
  that are used before they are set are arguments.
\<close>

subsection \<open>Input\<close>

definition scan_word :: "string \<Rightarrow> string option \<times> string" where
  "scan_word inp =
     (let t = dropWhile isspace_c inp; w = takeWhile (\<lambda>c. \<not> isspace_c c) t in
      (if w = [] then None else Some w, drop (length w) t))"

text \<open>The conversion \<open>%d\<close>; a sign is taken even when no digit follows.\<close>

definition scan_int :: "string \<Rightarrow> int option \<times> string" where
  "scan_int inp =
     (let (neg, t) = strip_sign (dropWhile isspace_c inp); ds = takeWhile (is_digit_of 10) t in
      (if ds = [] then None else Some (fst (clamp_long (neg, digits_val 10 0 ds))), drop (length ds) t))"

definition scan_var :: "int \<Rightarrow> string \<Rightarrow> int \<times> string" where
  "scan_var v inp = (case scan_int inp of (r, inp) \<Rightarrow> (case r of None \<Rightarrow> v | Some n \<Rightarrow> n, inp))"

text \<open>
  The question that is repeated until the number is in the range. When \<open>scanf\<close> takes nothing it never will, and
  the loop runs for ever.
\<close>

function ask_range :: "int \<Rightarrow> int \<Rightarrow> int \<Rightarrow> string \<Rightarrow> (int \<times> string) option" where
  "ask_range lo hi v inp =
     (case scan_var v inp of (v, inp') \<Rightarrow>
        if lo \<le> v \<and> v \<le> hi then Some (v, inp')
        else if length inp' < length inp then ask_range lo hi v inp' else None)"
  by pat_completeness auto
termination
  by (relation "measure (\<lambda>(lo, hi, v, inp). length inp)") (auto split: prod.splits)

declare ask_range.simps [simp del]

subsection \<open>Resizing\<close>

record rz_junk =
  rj_input :: string
  rj_output :: string
  rj_width :: int
  rj_height :: int
  rj_format :: int
  rj_offset :: int
  rj_buffer :: "32 word"
  rj_state :: "32 word"

definition scale_range :: "int \<Rightarrow> int \<times> int" where
  "scale_range n = (max 1 (n sdiv 6), min 4095 (s32 (n * 8)))"

definition resize_dec_param :: "int \<Rightarrow> int \<Rightarrow> int \<Rightarrow> int \<Rightarrow> jpeg_param_t \<Rightarrow> jpeg_param_t" where
  "resize_dec_param width height scale_width scale_height p =
     (let sw = word_of_int (if scale_width \<le> width then scale_width else width) :: 32 word;
          sh = word_of_int (if scale_height \<le> height then scale_height else height) in
      p\<lparr>q_scale := 1, q_scaled_width := if sw mod 2 \<noteq> 0 then sw + 1 else sw, q_scaled_height := sh, q_dec_stride := 0, q_decopw_en := 0,
        q_windec_en := 0, q_buffersize := 0, q_buffercount := 1, q_decode_output_format := YUV422_PACKET\<rparr>)"

definition app_total :: "(int \<times> int) list \<Rightarrow> nat" where
  "app_total apps = nat (sum_list (map snd apps))"

text \<open>The application segments of the source, collected in a block.\<close>

fun collect_apps :: "bytes \<Rightarrow> (int \<times> int) list \<Rightarrow> fault + bytes" where
  "collect_apps b [] = Inr []"
| "collect_apps b ((off, n) # apps) =
     bindr (mem_read (nat off) (nat n) b) (\<lambda>bs. bindr (collect_apps b apps) (\<lambda>rest. Inr (bs @ rest)))"

definition app_info :: "codec_env \<Rightarrow> jd \<Rightarrow> fault + bytes" where
  "app_info e d =
     (if jd_apps d \<noteq> [] \<and> ce_heap e (app_total (jd_apps d)) = None then Inl NullDeref
      else collect_apps (m_jpeg (jd_mem d)) (jd_apps d))"

text \<open>
  What is done with the decoded picture: it is moved to the front of the memory. The result is the block with the
  segments and the room that is kept for it, rounded up.
\<close>

definition take_picture :: "codec_env \<Rightarrow> rz_junk \<Rightarrow> bool \<Rightarrow> jpeg_info_t \<Rightarrow> jd \<Rightarrow> fault + (bytes \<times> 32 word \<times> jd)" where
  "take_picture e rj appOption info d =
     (if i_state info \<noteq> ST_DECODED_IMAGE then Inr ([], word_of_int (rj_offset rj), d)
      else
        bindr (if appOption then app_info e d else Inr []) (\<lambda>app.
        bindr (mem_read (unat (q_src_bufsize (jd_param d))) (unat (i_image_size info)) (m_jpeg (jd_mem d))) (\<lambda>bs.
        bindr (put_jpeg 0 bs d) (\<lambda>d.
          Inr (app, if appOption then of_nat (round4 (length app)) else word_of_int (rj_offset rj), d)))))"

definition resize_enc_param :: "codec_env \<Rightarrow> int \<Rightarrow> int \<Rightarrow> int \<Rightarrow> int \<Rightarrow> int \<Rightarrow> 32 word \<Rightarrow> jpeg_param_t" where
  "resize_enc_param e width height scale_width scale_height format datasize =
     param0\<lparr>q_encode := 1, q_src_bufsize := datasize, q_dst_bufsize := ce_size e - datasize, q_encode_source_format := ENC_SRC_PACKET,
       q_encode_width := word_of_int (if scale_width < width then scale_width else width),
       q_encode_height := word_of_int (if scale_height < height then scale_height else height),
       q_scaled_width := word_of_int scale_width, q_scaled_height := word_of_int scale_height, q_scale := 1,
       q_encode_image_format := if format \<noteq> 0 then ENC_YUV422 else ENC_YUV420, q_buffersize := 0, q_buffercount := 1\<rparr>"

text \<open>
  The name of the result, built in the array of 50 characters behind the first dot of the name. The array
  holds arbitrary characters behind the end of the name.
\<close>

definition output_name :: "string \<Rightarrow> string \<Rightarrow> int \<Rightarrow> int \<Rightarrow> fault + string" where
  "output_name stack name scale_width scale_height =
     (let arr = name @ CHR 0x00 # drop (Suc (length name)) stack;
          i = length (takeWhile (\<lambda>c. c \<noteq> CHR ''.'') arr);
          tail = drop (i + 1) arr;
          ext = takeWhile (\<lambda>c. c \<noteq> CHR 0x00) tail;
          result = takeWhile (\<lambda>c. c \<noteq> CHR 0x00) (take i arr) @ ''_'' @ dec_int scale_width @ ''x'' @ dec_int scale_height @ ''.'' @ ext in
      if CHR 0x00 \<notin> set tail \<or> 50 \<le> length result then Inl OutOfBounds else Inr result)"

text \<open>
  The result is written with the segments of the source in front. They go behind a new start of the image, over the
  start that the engine wrote; the length of the file is counted without that start.
\<close>

definition save_resized :: "codec_env \<Rightarrow> string \<Rightarrow> bool \<Rightarrow> bytes \<Rightarrow> jpeg_info_t \<Rightarrow> jd \<Rightarrow> (fault + jd) option" where
  "save_resized e name appOption app info d =
     (let src = unat (q_src_bufsize (jd_param d)); n = i_image_size info in
      if \<not> appOption then save_file e name (m_jpeg (jd_mem d)) src n d
      else if src < length app then Some (Inl OutOfBounds)
      else
        runs (Some (bindr (put_jpeg (src + 2 - length app) app d) (put_jpeg (src - length app) [0xFF, 0xD8]))) (\<lambda>d.
          save_file e name (m_jpeg (jd_mem d)) (src - length app) (n + of_nat (length app) - 2)
            (d\<lparr>jd_param := (jd_param d)\<lparr>q_src_bufsize := of_nat (src + 2 - length app)\<rparr>\<rparr>)))"

text \<open>The second half, from the decoded picture to the file.\<close>

definition resize_encode ::
  "codec_env \<Rightarrow> rz_junk \<Rightarrow> string \<Rightarrow> int \<times> int \<Rightarrow> int \<times> int \<Rightarrow> int \<Rightarrow> bool \<Rightarrow> bool \<Rightarrow> jpeg_info_t \<Rightarrow> jd \<Rightarrow> (fault + jd) option" where
  "resize_encode e rj name = (\<lambda>(width, height) (scale_width, scale_height) format appOption QTOption info d.
     runs (Some (take_picture e rj appOption info d)) (\<lambda>(app, room, d).
     let p = resize_enc_param e width height scale_width scale_height format (i_image_size info + (if appOption then room else 0));
         d = d\<lparr>jd_param := p\<rparr>; d = (if QTOption then d else qtables e d) in
     case request e (ReqParam p) d of (ok, d) \<Rightarrow>
       if \<not> ok then Some (Inr d)
       else
         case trigger e (snd (request e (ReqStride (i_width info)) d)) of
           (None, d) \<Rightarrow> Some (Inr d)
         | (Some info, d) \<Rightarrow>
             runs (Some (output_name (rj_output rj) name scale_width scale_height)) (\<lambda>out.
               save_resized e out appOption app info d)))"

text \<open>The first half: the file is loaded, the questions are asked and the picture is decoded.\<close>

definition resize_decode ::
  "codec_env \<Rightarrow> rz_junk \<Rightarrow> string \<Rightarrow> nat \<Rightarrow> (int \<times> int) option \<Rightarrow> string \<Rightarrow> jd \<Rightarrow> (fault + (string \<times> jd)) option" where
  "resize_decode e rj name n wh inp d =
     (let (width, height) = (case wh of None \<Rightarrow> ce_junk e | Some s \<Rightarrow> s); cnt = of_nat (round4 n);
          p = (jd_param d)\<lparr>q_src_bufsize := cnt, q_dst_bufsize := ce_size e - cnt\<rparr> in
      case ask_range (fst (scale_range width)) (snd (scale_range width)) (rj_width rj) inp of
        None \<Rightarrow> None
      | Some (scale_width, inp) \<Rightarrow>
          (case ask_range (fst (scale_range height)) (snd (scale_range height)) (rj_height rj) inp of
             None \<Rightarrow> None
           | Some (scale_height, inp) \<Rightarrow>
               (let (format, inp) = scan_var (rj_format rj) inp; (appOption, inp) = scan_var 0 inp; (QTOption, inp) = scan_var 0 inp;
                    d = d\<lparr>jd_param := resize_dec_param width height scale_width scale_height p\<rparr> in
                case run_codec e d of
                  (None, d) \<Rightarrow> Some (Inr (inp, d))
                | (Some info, d) \<Rightarrow>
                    runs (resize_encode e rj name (width, height) (scale_width, scale_height) format (appOption \<noteq> 0) (QTOption \<noteq> 0) info d)
                      (\<lambda>d. Some (Inr (inp, d))))))"

definition jpeg_resize :: "codec_env \<Rightarrow> rz_junk \<Rightarrow> string \<Rightarrow> jd \<Rightarrow> (fault + (string \<times> jd)) option" where
  "jpeg_resize e rj inp d =
     (let d = d\<lparr>jd_param := param0\<rparr>; (w, inp) = scan_word inp; name = (case w of None \<Rightarrow> rj_input rj | Some t \<Rightarrow> t) in
      if 50 \<le> length name then Some (Inl OutOfBounds)
      else
        case jd_files d name of
          None \<Rightarrow> Some (Inr (inp, d))
        | Some content \<Rightarrow>
            runs (load_file e True (unat (ce_size e)) content d) (\<lambda>(fits, n, wh, d).
              if \<not> fits then Some (Inr (inp, d)) else resize_decode e rj name n wh inp d))"

subsection \<open>The menu\<close>

definition menu_choice :: "codec_env \<Rightarrow> rz_junk \<Rightarrow> char \<Rightarrow> string \<Rightarrow> jd \<Rightarrow> (fault + (string \<times> jd)) option" where
  "menu_choice e rj c inp d =
     (let test = (\<lambda>r. runs r (\<lambda>d. Some (Inr (inp, d)))) in
      if c = CHR ''1'' then test (jpegCodec e TEST_NORMAL_ENCODE d)
      else if c = CHR ''2'' then test (jpegCodec e TEST_NORMAL_DECODE d)
      else if c = CHR ''3'' then test (jpegCodec e TEST_DECODE_DOWNSCALE d)
      else if c = CHR ''4'' then test (jpegCodec e TEST_ENCODE_UPSCALE d)
      else if c = CHR ''5'' then test (jpegCodecIPW e TEST_NORMAL_DECODE (rj_buffer rj) (rj_state rj) d)
      else if c = CHR ''6'' then test (jpegCodecIPW e TEST_DECODE_DOWNSCALE (rj_buffer rj) (rj_state rj) d)
      else if c = CHR ''7'' then test (jpegCodec e TEST_DECODE_OUTPUTWAIT d)
      else if c = CHR ''8'' then test (jpegWindowCodec e d)
      else if c = CHR ''9'' then test (jpegCodec e TEST_ENCODE_RESERVED d)
      else if c = CHR ''a'' \<or> c = CHR ''A'' then jpeg_resize e rj inp d
      else if c = CHR ''b'' \<or> c = CHR ''B'' then Some (Inr (inp, d\<lparr>jd_qtflag := False\<rparr>))
      else if c = CHR ''c'' \<or> c = CHR ''C'' then Some (Inr (inp, d\<lparr>jd_qtflag := True\<rparr>))
      else if c = CHR ''d'' \<or> c = CHR ''D'' then test (jpegCodec e TEST_DECODE_DOWNSCALE_FB d)
      else Some (Inr (inp, d)))"

text \<open>At the end of the input \<open>getchar\<close> gives \<open>EOF\<close> again and again, which is no choice: the menu runs for ever.\<close>

partial_function (option) jpeg_menu :: "codec_env \<Rightarrow> rz_junk \<Rightarrow> string \<Rightarrow> jd \<Rightarrow> (fault + jd) option" where
  "jpeg_menu e rj inp d =
     (case inp of
        [] \<Rightarrow> None
      | c # rest \<Rightarrow>
          if c = CHR 0x0A \<or> c = CHR 0x0D then jpeg_menu e rj rest d
          else if c = CHR ''X'' \<or> c = CHR ''x'' then Some (Inr d)
          else
            (case menu_choice e rj c rest d of
               None \<Rightarrow> None
             | Some (Inl x) \<Rightarrow> Some (Inl x)
             | Some (Inr (rest, d)) \<Rightarrow> jpeg_menu e rj rest d))"

subsection \<open>The program\<close>

record jpeg_sys =
  js_fb_open :: bool
  js_vinfo :: "(32 word \<times> 32 word) option"
  js_video :: "bytes option"
  js_malloc :: bool
  js_dma :: "32 word option"
  js_open :: "string \<Rightarrow> bool"
  js_bufsize :: "string \<Rightarrow> 32 word option"
  js_jpeg :: "32 word \<Rightarrow> bytes option"

definition codec_device :: "nat \<Rightarrow> string" where
  "codec_device n = ''/dev/video'' @ [char_of (48 + n)]"

text \<open>The search for the codec; the next device is tried only when the request fails, not when the device cannot be opened.\<close>

fun find_codec :: "jpeg_sys \<Rightarrow> nat \<Rightarrow> nat \<Rightarrow> 32 word option" where
  "find_codec js 0 n = None"
| "find_codec js (Suc k) n =
     (if \<not> js_open js (codec_device n) then find_codec js k n
      else case js_bufsize js (codec_device n) of None \<Rightarrow> find_codec js k (n + 1) | Some sz \<Rightarrow> Some sz)"

text \<open>
  The result is the status and the panel. \<open>malloc\<close> is not checked in a way that could fail, so the copy to a null
  pointer faults. Without a codec the size of its memory is 0 and \<open>mmap\<close> fails.
\<close>

definition jpeg_demo_main :: "jpeg_sys \<Rightarrow> codec_env \<Rightarrow> rz_junk \<Rightarrow> string \<Rightarrow> (string \<Rightarrow> bytes option) \<Rightarrow> (fault + (int \<times> bytes)) option" where
  "jpeg_demo_main js e rj inp files =
     (if \<not> js_fb_open js then Some (Inr (- 1, []))
      else case js_vinfo js of
        None \<Rightarrow> Some (Inr (- 1, []))
      | Some (xres, yres) \<Rightarrow>
      (case js_video js of
        None \<Rightarrow> Some (Inl (ProcessExit 0))
      | Some video \<Rightarrow>
      if \<not> js_malloc js then Some (Inl NullDeref)
      else case js_dma js of
        None \<Rightarrow> Some (Inr (- 1, video))
      | Some paddr \<Rightarrow>
      (case find_codec js 4 0 of
        None \<Rightarrow> Some (Inr (0, video))
      | Some sz \<Rightarrow>
      (case js_jpeg js sz of
        None \<Rightarrow> Some (Inr (0, video))
      | Some b \<Rightarrow>
          runs (jpeg_menu (e\<lparr>ce_xres := xres, ce_yres := yres, ce_size := sz, ce_paddr := paddr\<rparr>) rj inp
            \<lparr>jd_param = param0, jd_mem = \<lparr>m_jpeg = b, m_video = video, m_sw = []\<rparr>, jd_apps = [], jd_qtflag = False, jd_log = [],
             jd_selects = 0, jd_files = files\<rparr>) (\<lambda>d.
          runs (Some (put_video 0 video d)) (\<lambda>d. Some (Inr (0, m_video (jd_mem d)))))))))"

subsection \<open>The size of the panel\<close>

text \<open>What holds of the result of a program that returns, with a rule for every construct of the programs.\<close>

definition ends :: "(fault + 'a) option \<Rightarrow> ('a \<Rightarrow> bool) \<Rightarrow> bool" where
  "ends r Q \<longleftrightarrow> (\<forall>x. r = Some (Inr x) \<longrightarrow> Q x)"

named_theorems panel_rules \<open>the size of the panel is kept\<close>

lemma ends_simps [simp]: "ends (Some (Inr x)) Q \<longleftrightarrow> Q x" "ends (Some (Inl f)) Q" "ends None Q"
  by (simp_all add: ends_def)

lemma ends_runs [panel_rules]: "ends m P \<Longrightarrow> (\<And>x. P x \<Longrightarrow> ends (f x) Q) \<Longrightarrow> ends (runs m f) Q"
  by (auto simp: ends_def elim!: runs_eq_InrE)

lemma ends_bind [panel_rules]: "ends (Some r) P \<Longrightarrow> (\<And>x. P x \<Longrightarrow> ends (Some (f x)) Q) \<Longrightarrow> ends (Some (bindr r f)) Q"
  by (auto simp: ends_def bindr_def split: sum.splits)

lemma ends_if [panel_rules]:
  "(b \<Longrightarrow> ends r Q) \<Longrightarrow> (\<not> b \<Longrightarrow> ends s Q) \<Longrightarrow> ends (if b then r else s) Q"
  "(b \<Longrightarrow> ends (Some u) Q) \<Longrightarrow> (\<not> b \<Longrightarrow> ends (Some v) Q) \<Longrightarrow> ends (Some (if b then u else v)) Q"
  by simp_all

lemma ends_option [panel_rules]:
  "ends r Q \<Longrightarrow> (\<And>y. x = Some y \<Longrightarrow> ends (f y) Q) \<Longrightarrow> ends (case x of None \<Rightarrow> r | Some y \<Rightarrow> f y) Q"
  by (cases x) simp_all

definition panel :: "nat \<Rightarrow> jd \<Rightarrow> bool" where
  "panel n d \<longleftrightarrow> length (m_video (jd_mem d)) = n"

lemma panel_update [simp]:
  "panel n (d\<lparr>jd_param := p\<rparr>) = panel n d" "panel n (d\<lparr>jd_log := l\<rparr>) = panel n d" "panel n (d\<lparr>jd_apps := a\<rparr>) = panel n d"
  "panel n (d\<lparr>jd_files := fs\<rparr>) = panel n d" "panel n (d\<lparr>jd_selects := k\<rparr>) = panel n d" "panel n (d\<lparr>jd_qtflag := q\<rparr>) = panel n d"
  "panel n (d\<lparr>jd_mem := (jd_mem d)\<lparr>m_jpeg := b\<rparr>\<rparr>) = panel n d"
  by (simp_all add: panel_def)

definition engine_keeps :: "codec_env \<Rightarrow> bool" where
  "engine_keeps e \<longleftrightarrow> (\<forall>l m info m'. ce_read e l m = Some (info, m') \<longrightarrow> length (m_video m') = length (m_video m))"

lemma panel_request [simp]: "panel n (snd (request e q d)) = panel n d"
  by (simp add: request_def Let_def)

lemma ends_request [panel_rules]:
  "panel n d \<Longrightarrow> (\<And>ok d'. panel n d' \<Longrightarrow> ends (f ok d') Q) \<Longrightarrow> ends (case request e q d of (ok, d) \<Rightarrow> f ok d) Q"
  by (simp add: request_def Let_def)

lemma panel_read_info: "engine_keeps e \<Longrightarrow> panel n d \<Longrightarrow> panel n (snd (read_info e d))"
  by (auto simp: read_info_def engine_keeps_def Let_def panel_def split: option.splits)

lemma panel_trigger: "engine_keeps e \<Longrightarrow> panel n d \<Longrightarrow> panel n (snd (trigger e d))"
  using panel_read_info [of e n "snd (request e ReqTrigger d)"] by (simp add: trigger_def case_prod_unfold)

lemma panel_run_codec: "engine_keeps e \<Longrightarrow> panel n d \<Longrightarrow> panel n (snd (run_codec e d))"
  using panel_trigger [of e n "snd (request e (ReqParam (jd_param d)) d)"] panel_request [of n e "ReqParam (jd_param d)" d]
  by (simp add: run_codec_def case_prod_unfold)

lemma ends_engine [panel_rules]:
  "engine_keeps e \<Longrightarrow> panel n d \<Longrightarrow> (\<And>i d'. panel n d' \<Longrightarrow> ends (f i d') Q) \<Longrightarrow> ends (case read_info e d of (i, d) \<Rightarrow> f i d) Q"
  "engine_keeps e \<Longrightarrow> panel n d \<Longrightarrow> (\<And>i d'. panel n d' \<Longrightarrow> ends (f i d') Q) \<Longrightarrow> ends (case trigger e d of (i, d) \<Rightarrow> f i d) Q"
  "engine_keeps e \<Longrightarrow> panel n d \<Longrightarrow> (\<And>i d'. panel n d' \<Longrightarrow> ends (f i d') Q) \<Longrightarrow> ends (case run_codec e d of (i, d) \<Rightarrow> f i d) Q"
  using panel_read_info [of e n d] panel_trigger [of e n d] panel_run_codec [of e n d] by (simp_all add: case_prod_unfold)

lemma panel_put_jpeg [panel_rules]: "panel n d \<Longrightarrow> ends (Some (put_jpeg off bs d)) (panel n)"
  by (auto simp: ends_def put_jpeg_def bindr_def split: sum.splits)

lemma panel_put_video [panel_rules]: "panel n d \<Longrightarrow> ends (Some (put_video off bs d)) (panel n)"
  by (auto simp: ends_def put_video_def bindr_def arr_copy_def panel_def split: sum.splits if_splits)

lemma panel_save_file [panel_rules]: "panel n d \<Longrightarrow> ends (save_file e name b off len d) (panel n)"
  by (auto simp: ends_def save_file_def split: sum.splits option.splits)

lemma ends_mem_read [panel_rules]: "ends (Some (mem_read off k b)) (\<lambda>_. True)"
  by (simp add: ends_def)

lemma panel_load_piece [panel_rules]: "panel n d \<Longrightarrow> ends (Some (load_piece ready rest k d)) (\<lambda>(rest, feof, k, d). panel n d)"
  unfolding load_piece_def by (rule panel_rules | simp)+

lemma panel_parse_piece [panel_rules]: "panel n d \<Longrightarrow> ends (Some (parse_piece parses wh k d)) (\<lambda>(wh, d). panel n d)"
  by (auto simp: ends_def parse_piece_def bindr_def split: sum.splits if_splits)

lemma load_loop_panel:
  assumes "load_loop e parses limit rest feof k wh d = Some y"
  shows "panel n d \<longrightarrow> ends (Some y) (\<lambda>(fits, k, wh, d). panel n d)"
proof (rule load_loop.raw_induct [where P = "\<lambda>e parses limit rest feof k wh d y. panel n d \<longrightarrow> ends (Some y) (\<lambda>(fits, k, wh, d). panel n d)", OF _ assms], rule impI)
  fix load e parses limit rest feof k wh d y
  let ?r = "bindr (load_piece (ce_ready e (jd_selects d)) rest k (d\<lparr>jd_selects := jd_selects d + 1\<rparr>)) (\<lambda>(rest, feof, n, d).
          bindr (parse_piece parses wh n d) (\<lambda>(wh, d). Inr (rest, feof, n, wh, d)))"
  assume IH: "\<And>e parses limit rest feof k wh d y. load e parses limit rest feof k wh d = Some y \<Longrightarrow>
      panel n d \<longrightarrow> ends (Some y) (\<lambda>(fits, k, wh, d). panel n d)"
    and body: "(if feof then Some (Inr (True, k, wh, d))
      else case ?r of Inl x \<Rightarrow> Some (Inl x)
        | Inr (rest, feof, k, wh, d) \<Rightarrow> if limit < k then Some (Inr (False, k, wh, d)) else load e parses limit rest feof k wh d) = Some y"
    and d: "panel n d"
  have r: "ends (Some ?r) (\<lambda>(rest, feof, k, wh, d). panel n d)"
    using d by (intro ends_bind [OF panel_load_piece]) (auto intro!: ends_bind [OF panel_parse_piece])
  show "ends (Some y) (\<lambda>(fits, k, wh, d). panel n d)"
  proof (cases ?r)
    case (Inl f)
    thus ?thesis using body d by (auto split: if_splits)
  next
    case (Inr x)
    thus ?thesis using body d r IH by (auto split: if_splits prod.splits)
  qed
qed

lemma panel_load_file [panel_rules]: "panel n d \<Longrightarrow> ends (load_file e parses limit content d) (\<lambda>(fits, k, wh, d). panel n d)"
  unfolding load_file_def using load_loop_panel [where n = n]
  by (cases "load_loop e parses limit content False 0 None d") auto

lemma panel_clear_buffers [panel_rules]: "panel n d \<Longrightarrow> ends (Some (clear_buffers k d)) (panel n)"
  unfolding clear_buffers_def by (rule panel_rules | assumption)+

lemma panel_dec_setup [simp]: "panel n (dec_setup e mode k wh d) = panel n d"
  by (simp add: dec_setup_def output_wait_def Let_def panel_def split: prod.split)

lemma panel_dec_save [panel_rules]: "panel n d \<Longrightarrow> ends (dec_save e mode info d) (panel n)"
  unfolding dec_save_def Let_def by (rule panel_rules | assumption | simp)+

lemma panel_decode_file [panel_rules]: "engine_keeps e \<Longrightarrow> panel n d \<Longrightarrow> ends (decode_file e mode d) (panel n)"
  unfolding decode_file_def Let_def by (rule panel_rules | assumption | clarsimp)+

lemma panel_reserved [panel_rules]: "panel n d \<Longrightarrow> ends (Some (reserved e d)) (panel n)"
  unfolding reserved_def by (rule panel_rules | assumption | simp)+

lemma panel_qtables [simp]: "panel n (qtables e d) = panel n d"
  by (simp add: qtables_def)

lemma panel_encode_file [panel_rules]: "engine_keeps e \<Longrightarrow> panel n d \<Longrightarrow> ends (encode_file e mode d) (panel n)"
  unfolding encode_file_def Let_def by (rule panel_rules | assumption | clarsimp)+

lemma panel_jpegCodec [panel_rules]: "engine_keeps e \<Longrightarrow> panel n d \<Longrightarrow> ends (jpegCodec e mode d) (panel n)"
  unfolding jpegCodec_def by (rule panel_rules | assumption)+

lemma ends_sum [panel_rules]: "ends (Some r) P \<Longrightarrow> (\<And>x. P x \<Longrightarrow> ends (f x) Q) \<Longrightarrow> ends (case r of Inl y \<Rightarrow> Some (Inl y) | Inr x \<Rightarrow> f x) Q"
  by (cases r) (simp_all add: ends_def)

lemma ends_prod: "(\<And>a b. x = (a, b) \<Longrightarrow> ends (f a b) Q) \<Longrightarrow> ends (case x of (a, b) \<Rightarrow> f a b) Q"
  by (cases x) simp

lemma panel_win_show [panel_rules]: "panel n d \<Longrightarrow> ends (Some (win_show e info d)) (panel n)"
  unfolding win_show_def by (rule panel_rules | assumption | simp)+

lemma window_loop_panel:
  assumes "window_loop e wx wy b d = Some y"
  shows "engine_keeps e \<and> panel n d \<longrightarrow> ends (Some y) (panel n)"
proof (rule window_loop.raw_induct [where P = "\<lambda>e wx wy b d y. engine_keeps e \<and> panel n d \<longrightarrow> ends (Some y) (panel n)", OF _ assms], goal_cases)
  case (1 loop e wx wy b d y)
  have IH: "ends (loop e wx wy b d) (panel n)" if "engine_keeps e" "panel n d" for e wx wy b d
    using 1(1) that by (cases "loop e wx wy b d") auto
  show ?case unfolding 1(2) [symmetric] Let_def by (rule impI, elim conjE) (rule panel_rules IH | assumption | rule ends_prod | simp)+
qed

lemma panel_window_loop [panel_rules]: "engine_keeps e \<Longrightarrow> panel n d \<Longrightarrow> ends (window_loop e wx wy b d) (panel n)"
  using window_loop_panel by (cases "window_loop e wx wy b d") auto

lemma panel_jpegWindowCodec [panel_rules]: "engine_keeps e \<Longrightarrow> panel n d \<Longrightarrow> ends (jpegWindowCodec e d) (panel n)"
  unfolding jpegWindowCodec_def Let_def by (rule panel_rules | assumption | clarsimp | rule ends_prod)+

lemma ipw_poll_mem:
  assumes "ipw_poll e b s d = Some y"
  shows "jd_mem (snd (snd y)) = jd_mem d"
proof (rule ipw_poll.raw_induct [where P = "\<lambda>e b s d y. jd_mem (snd (snd y)) = jd_mem d", OF _ assms], goal_cases)
  case (1 loop e b s d y)
  thus ?case by (auto simp: ask_codec_def request_def Let_def split: if_splits)
qed

lemma ends_poll [panel_rules]:
  assumes "panel n d" "\<And>b s d. panel n d \<Longrightarrow> ends (f b s d) Q"
  shows "ends (case ipw_poll e b s d of None \<Rightarrow> None | Some (b, s, d) \<Rightarrow> f b s d) Q"
proof (cases "ipw_poll e b s d")
  case (Some y)
  thus ?thesis using ipw_poll_mem [OF Some] assms by (cases y) (auto simp: panel_def)
qed simp

lemma panel_ipw_fill [panel_rules]: "panel n d \<Longrightarrow> ends (Some (ipw_fill e k rest d)) (\<lambda>(rest, d). panel n d)"
  by (auto simp: ends_def ipw_fill_def Let_def split: if_splits)

lemma ipw_loop_panel:
  assumes "ipw_loop e rest trig b s d = Some y"
  shows "panel n d \<longrightarrow> ends (Some y) (\<lambda>(ended, d). panel n d)"
proof (rule ipw_loop.raw_induct [where P = "\<lambda>e rest trig b s d y. panel n d \<longrightarrow> ends (Some y) (\<lambda>(ended, d). panel n d)", OF _ assms], goal_cases)
  case (1 loop e rest trig b s d y)
  have IH: "ends (loop e rest trig b s d) (\<lambda>(ended, d). panel n d)" if "panel n d" for e rest trig b s d
    using 1(1) that by (cases "loop e rest trig b s d") auto
  show ?case unfolding 1(2) [symmetric] by (rule impI) (rule ends_poll panel_rules IH conjI impI | assumption | clarsimp)+
qed

lemma panel_ipw_loop [panel_rules]: "panel n d \<Longrightarrow> ends (ipw_loop e rest trig b s d) (\<lambda>(ended, d). panel n d)"
  using ipw_loop_panel by (cases "ipw_loop e rest trig b s d") auto

lemma panel_ipw_save [panel_rules]: "panel n d \<Longrightarrow> ends (ipw_save e downscale info d) (panel n)"
  unfolding ipw_save_def Let_def by (rule panel_rules | assumption | simp)+

lemma panel_jpegCodecIPW [panel_rules]: "engine_keeps e \<Longrightarrow> panel n d \<Longrightarrow> ends (jpegCodecIPW e mode b s d) (panel n)"
  unfolding jpegCodecIPW_def Let_def by (rule panel_rules | assumption | clarsimp)+

lemma panel_take_picture [panel_rules]: "panel n d \<Longrightarrow> ends (Some (take_picture e rj appOption info d)) (\<lambda>(app, room, d). panel n d)"
  by (auto simp: take_picture_def ends_def put_jpeg_def elim!: bindr_eq_InrE split: if_splits)

lemma panel_save_resized [panel_rules]: "panel n d \<Longrightarrow> ends (save_resized e name appOption app info d) (panel n)"
  unfolding save_resized_def Let_def by (rule panel_rules | assumption | simp)+

lemma ends_any: "ends r (\<lambda>_. True)"
  by (simp add: ends_def)

lemma panel_resize_encode [panel_rules]:
  "engine_keeps e \<Longrightarrow> panel n d \<Longrightarrow> ends (resize_encode e rj name wh scale format appOption QTOption info d) (panel n)"
  unfolding resize_encode_def Let_def
  by (cases wh; cases scale) (rule panel_rules conjI impI | assumption | clarsimp | rule ends_any)+

lemma panel_resize_decode [panel_rules]:
  "engine_keeps e \<Longrightarrow> panel n d \<Longrightarrow> ends (resize_decode e rj name k wh inp d) (\<lambda>(inp, d). panel n d)"
  unfolding resize_decode_def Let_def by (rule panel_rules conjI impI | assumption | rule ends_prod | clarsimp)+

lemma panel_jpeg_resize [panel_rules]: "engine_keeps e \<Longrightarrow> panel n d \<Longrightarrow> ends (jpeg_resize e rj inp d) (\<lambda>(inp, d). panel n d)"
  unfolding jpeg_resize_def Let_def by (rule panel_rules conjI impI | assumption | rule ends_prod | clarsimp)+

lemma panel_menu_choice [panel_rules]: "engine_keeps e \<Longrightarrow> panel n d \<Longrightarrow> ends (menu_choice e rj c inp d) (\<lambda>(inp, d). panel n d)"
  unfolding menu_choice_def Let_def by (rule panel_rules | assumption | simp)+

lemma jpeg_menu_panel:
  assumes "jpeg_menu e rj inp d = Some y"
  shows "engine_keeps e \<and> panel n d \<longrightarrow> ends (Some y) (panel n)"
proof (rule jpeg_menu.raw_induct [where P = "\<lambda>e rj inp d y. engine_keeps e \<and> panel n d \<longrightarrow> ends (Some y) (panel n)", OF _ assms], goal_cases)
  case (1 loop e rj inp d y)
  have IH: "ends (loop e rj inp d) (panel n)" if "engine_keeps e" "panel n d" for e rj inp d
    using 1(1) that by (cases "loop e rj inp d") auto
  have choice: "ends (case menu_choice e rj c rest d of None \<Rightarrow> None | Some (Inl x) \<Rightarrow> Some (Inl x) | Some (Inr (rest, d)) \<Rightarrow> loop e rj rest d) (panel n)"
    if "engine_keeps e" "panel n d" for c rest
    using panel_menu_choice [OF that, of rj c rest] IH that(1) by (auto simp: ends_def split: option.splits sum.splits)
  show ?case unfolding 1(2) [symmetric] using IH choice by (auto split: list.splits)
qed

lemma panel_jpeg_menu: "engine_keeps e \<Longrightarrow> panel n d \<Longrightarrow> ends (jpeg_menu e rj inp d) (panel n)"
  using jpeg_menu_panel by (cases "jpeg_menu e rj inp d") auto

text \<open>
  C40: Whatever the user chooses and whatever the engine shows on the panel meanwhile, when the program ends with status 0 the
  panel is as it was at the start.
\<close>

theorem jpeg_demo_restores_panel:
  assumes "\<forall>l m info m'. ce_read e l m = Some (info, m') \<longrightarrow> length (m_video m') = length (m_video m)"
    and "js_video js = Some video" "jpeg_demo_main js e rj inp files = Some (Inr (0, out))"
  shows "out = video"
proof -
  have keeps: "engine_keeps (e\<lparr>ce_xres := x, ce_yres := y, ce_size := s, ce_paddr := a\<rparr>)" for x y s a
    using assms(1) by (simp add: engine_keeps_def)
  have fin: "ends (runs (Some (put_video 0 video d)) (\<lambda>d. Some (Inr (0 :: int, m_video (jd_mem d))))) (\<lambda>(st, out). st = 0 \<longrightarrow> out = video)"
    if "panel (length video) d" for d
    using that by (auto simp: ends_def put_video_def arr_copy_def panel_def bindr_def split: sum.splits if_splits elim!: runs_eq_InrE)
  have run: "ends (runs (jpeg_menu (e\<lparr>ce_xres := x, ce_yres := y, ce_size := s, ce_paddr := a\<rparr>) rj inp d)
      (\<lambda>d. runs (Some (put_video 0 video d)) (\<lambda>d. Some (Inr (0 :: int, m_video (jd_mem d)))))) (\<lambda>(st, out). st = 0 \<longrightarrow> out = video)"
    if "panel (length video) d" for x y s a d
    by (rule ends_runs [OF panel_jpeg_menu [OF keeps that]]) (rule fin)
  have "ends (jpeg_demo_main js e rj inp files) (\<lambda>(st, out). st = 0 \<longrightarrow> out = video)"
    unfolding jpeg_demo_main_def assms(2) using run by (auto simp: panel_def split: option.splits)
  thus ?thesis using assms(3) by (simp add: ends_def)
qed

definition demo_sys :: "nat \<Rightarrow> jpeg_sys" where
  "demo_sys n = \<lparr>js_fb_open = True, js_vinfo = Some (320, 240), js_video = Some (replicate n 5), js_malloc = True, js_dma = Some 0,
     js_open = (\<lambda>_. True), js_bufsize = (\<lambda>_. Some 716800), js_jpeg = (\<lambda>sz. Some (replicate (unat sz) 0))\<rparr>"

definition demo_junk :: rz_junk where
  "demo_junk = \<lparr>rj_input = [], rj_output = replicate 50 (CHR 0x00), rj_width = 0, rj_height = 0, rj_format = 0, rj_offset = 0, rj_buffer = 0, rj_state = 0\<rparr>"

theorem jpeg_demo_restores_panel_witness:
  "\<exists>out. jpeg_demo_main (demo_sys 153600) (idle_env 320 240 716800 4) demo_junk ''2X'' (\<lambda>_. Some demo_jpg) = Some (Inr (0, out)) \<and>
     out = replicate 153600 5"
proof -
  let ?e = "idle_env 320 240 716800 4" and ?d = "(demo_jd 716800 0)\<lparr>jd_mem := \<lparr>m_jpeg = replicate 716800 0, m_video = replicate 153600 5, m_sw = []\<rparr>\<rparr>"
  let ?m = "(jd_mem ?d)\<lparr>m_jpeg := blit 0 demo_jpg (replicate 716800 0)\<rparr>"
  have e: "?e\<lparr>ce_xres := 320, ce_yres := 240, ce_size := 716800, ce_paddr := 0\<rparr> = ?e" by (simp add: idle_env_def)
  have "length (m_jpeg ?m) = 716800" by simp
  then obtain d' where d': "jpegCodec ?e TEST_NORMAL_DECODE ?d = Some (Inr d')"
    using jpegCodec_decodes [of ?e ?d demo_jpg "(320, 240)" "[]" _ _ ?m, OF idle_env_fine _ _ _ _ demo_jpg_parse refl]
    by (auto simp: round4_def)
  have menu: "jpeg_menu ?e demo_junk ''2X'' ?d = Some (Inr d')"
    by (simp add: jpeg_menu.simps [of _ _ "''2X''"] jpeg_menu.simps [of _ _ "''X''"] menu_choice_def d')
  have keeps: "\<forall>l m info m'. ce_read ?e l m = Some (info, m') \<longrightarrow> length (m_video m') = length (m_video m)" by (auto simp: idle_env_def)
  have "engine_keeps ?e" unfolding engine_keeps_def by (rule keeps)
  moreover have "panel 153600 ?d" by (simp add: panel_def)
  ultimately have "panel 153600 d'" using panel_jpegCodec [of ?e 153600 ?d TEST_NORMAL_DECODE] d' by (simp add: ends_def)
  hence le: "0 + length (replicate 153600 (5 :: 8 word)) \<le> length (m_video (jd_mem d'))" unfolding panel_def by (simp only: length_replicate)
  have put: "put_video 0 (replicate 153600 5) d' = Inr (d'\<lparr>jd_mem := (jd_mem d')\<lparr>m_video := blit 0 (replicate 153600 5) (m_video (jd_mem d'))\<rparr>\<rparr>)"
    by (simp only: put_video_def arr_copy_Inr [OF le] bindr_simps)
  have four: "(4 :: nat) = Suc 3" by simp
  have find: "find_codec (demo_sys 153600) 4 0 = Some 716800" by (simp only: four find_codec.simps) (simp add: demo_sys_def)
  have "\<exists>out. jpeg_demo_main (demo_sys 153600) ?e demo_junk ''2X'' (\<lambda>_. Some demo_jpg) = Some (Inr (0, out))"
    using menu put find by (simp add: jpeg_demo_main_def demo_sys_def e demo_jd_def)
  thus ?thesis using jpeg_demo_restores_panel [OF keeps, of "demo_sys 153600" "replicate 153600 5"] by (auto simp: demo_sys_def)
qed

subsection \<open>The resized file\<close>

abbreviation lf :: char where "lf \<equiv> CHR 0x0A"

lemma lf_plain [simp]: "isspace_c lf" "\<not> is_digit_of 10 lf"
  by (simp_all add: isspace_c_def is_digit_of_def digit_val_def)

text \<open>A number on a line of its own is read back.\<close>

lemma scan_int_dec:
  assumes "n < 2147483648"
  shows "scan_int (lf # dec_str n @ lf # r) = (Some (int n), lf # r)"
proof -
  obtain c cs where s: "dec_str n = c # cs" by (cases "dec_str n") auto
  have "\<not> isspace_c c" "c \<noteq> CHR ''-''" "c \<noteq> CHR ''+''" using dec_str_plain [of c n] s by auto
  hence sgn: "strip_sign (dropWhile isspace_c (lf # dec_str n @ lf # r)) = (False, dec_str n @ lf # r)" by (simp add: s)
  have "takeWhile (is_digit_of 10) (dec_str n @ lf # r) = dec_str n" using dec_str_digits [of n] by (simp add: takeWhile_append2)
  thus ?thesis using assms sgn by (simp add: scan_int_def digits_val_dec_str clamp_long_def)
qed

lemma ask_range_dec:
  assumes "lo \<le> int n" "int n \<le> hi" "n < 2147483648"
  shows "ask_range lo hi v (lf # dec_str n @ lf # r) = Some (int n, lf # r)"
  using assms by (simp add: ask_range.simps scan_var_def scan_int_dec)

lemma scan_var_dec: "n < 2147483648 \<Longrightarrow> scan_var v (lf # dec_str n @ lf # r) = (int n, lf # r)"
  by (simp add: scan_var_def scan_int_dec)

lemma scan_word_name:
  assumes "name \<noteq> []" "\<forall>c\<in>set name. \<not> isspace_c c"
  shows "scan_word (name @ lf # r) = (Some name, lf # r)"
proof -
  have "dropWhile isspace_c (name @ lf # r) = name @ lf # r" using assms by (cases name) auto
  moreover have "takeWhile (\<lambda>c. \<not> isspace_c c) (name @ lf # r) = name" using assms(2) by (simp add: takeWhile_append2)
  ultimately show ?thesis using assms(1) by (simp add: scan_word_def Let_def)
qed

text \<open>The size goes in front of the last part of the name.\<close>

definition resized_name :: "string \<Rightarrow> string \<Rightarrow> nat \<Rightarrow> nat \<Rightarrow> string" where
  "resized_name base ext sw sh = base @ ''_'' @ dec_str sw @ ''x'' @ dec_str sh @ ''.'' @ ext"

lemma takeWhile_until: "c \<notin> set xs \<Longrightarrow> takeWhile (\<lambda>x. x \<noteq> c) (xs @ c # r) = xs"
  by (induction xs) auto

lemma output_name_resized:
  assumes "CHR ''.'' \<notin> set base" "CHR 0x00 \<notin> set base" "CHR 0x00 \<notin> set ext" "length (resized_name base ext sw sh) < 50"
  shows "output_name stack (base @ CHR ''.'' # ext) (int sw) (int sh) = Inr (resized_name base ext sw sh)"
proof -
  have b: "takeWhile (\<lambda>c. c \<noteq> CHR 0x00) base = base" using assms(2) by (auto simp: takeWhile_eq_all_conv)
  show ?thesis using assms(4)
    by (simp add: output_name_def resized_name_def dec_int_def Let_def takeWhile_until [OF assms(1)] takeWhile_until [OF assms(3)] b)
qed

text \<open>The file with the segments: the picture of the engine without its start, and without its last two bytes.\<close>

lemma save_resized_segments:
  assumes "codec_fine e" "src = unat (q_src_bufsize (jd_param d))" "length app \<le> src" "2 \<le> unat (i_image_size info)"
    "src + unat (i_image_size info) \<le> length (m_jpeg (jd_mem d))" "length (m_jpeg (jd_mem d)) < 4294967296"
  shows "\<exists>d'. save_resized e name True app info d = Some (Inr d') \<and> jd_log d' = jd_log d \<and> jd_files d' = (jd_files d)(name \<mapsto>
    take (length app + unat (i_image_size info) - 2) ([0xFF, 0xD8] @ app @ drop 2 (take (unat (i_image_size info)) (drop src (m_jpeg (jd_mem d))))))"
proof -
  let ?b = "m_jpeg (jd_mem d)" and ?n = "unat (i_image_size info)" and ?A = "length app"
  define b1 where "b1 = blit (src + 2 - ?A) app ?b"
  define b2 where "b2 = blit (src - ?A) [0xFF, 0xD8] b1"
  have l: "src + 2 - ?A + ?A \<le> length ?b" "length b1 = length ?b" "src - ?A + 2 \<le> length b1" "length b2 = length ?b"
    using assms(3-5) by (simp_all add: b1_def b2_def)
  have p1: "put_jpeg (src + 2 - ?A) app d = Inr (d\<lparr>jd_mem := (jd_mem d)\<lparr>m_jpeg := b1\<rparr>\<rparr>)"
    using l(1) by (simp add: put_jpeg_def b1_def)
  have p2: "put_jpeg (src - ?A) [0xFF, 0xD8] (d\<lparr>jd_mem := (jd_mem d)\<lparr>m_jpeg := b1\<rparr>\<rparr>) = Inr (d\<lparr>jd_mem := (jd_mem d)\<lparr>m_jpeg := b2\<rparr>\<rparr>)"
    using l(3) by (simp add: put_jpeg_def b2_def)
  have d2: "drop (src - ?A) b2 = [0xFF, 0xD8] @ app @ drop (src + 2) ?b"
    using assms(3,5) l by (simp add: b2_def b1_def blit_def)
  have len: "unat (i_image_size info + of_nat ?A - 2) = ?n + ?A - 2"
  proof -
    have "i_image_size info + of_nat ?A - 2 = of_nat (?n + ?A - 2)" using assms(4) by (simp add: of_nat_diff)
    moreover have "?n + ?A - 2 < 4294967296" using assms(3,5,6) by linarith
    ultimately show ?thesis by (simp only: unat_of_nat) simp
  qed
  have "src - ?A + unat (i_image_size info + of_nat ?A - 2) \<le> length b2" unfolding len l(4) using assms(3-5) by linarith
  note sv = save_file_saves [OF _ _ this, of e name]
  have "take (?n + ?A - 2) (drop (src - ?A) b2) = take (?A + ?n - 2) ([0xFF, 0xD8] @ app @ drop 2 (take ?n (drop src ?b)))"
    unfolding d2 by (simp add: drop_take add.commute min_absorb1 numeral_2_eq_2 take_Cons' Suc_diff_Suc)
  thus ?thesis using sv assms(1,3) unfolding save_resized_def Let_def assms(2) [symmetric] p1 bindr_simps p2 runs_simps
    by (simp add: len codec_fine_def)
qed

definition resized_file :: "nat \<Rightarrow> bytes \<Rightarrow> bytes \<Rightarrow> bytes" where
  "resized_file appOption app enc =
     (if appOption = 0 then enc else take (length app + length enc - 2) ([0xFF, 0xD8] @ app @ drop 2 enc))"

lemma save_resized_saves:
  assumes "codec_fine e" "src = unat (q_src_bufsize (jd_param d))" "a \<noteq> 0 \<longrightarrow> length app \<le> src" "2 \<le> unat (i_image_size info)"
    "src + unat (i_image_size info) \<le> length (m_jpeg (jd_mem d))" "length (m_jpeg (jd_mem d)) < 4294967296"
  shows "\<exists>d'. save_resized e name (int a \<noteq> 0) app info d = Some (Inr d') \<and> jd_log d' = jd_log d \<and>
    jd_files d' = (jd_files d)(name \<mapsto> resized_file a app (take (unat (i_image_size info)) (drop src (m_jpeg (jd_mem d)))))"
proof (cases "a = 0")
  case True
  thus ?thesis using assms(1,2,5) by (simp add: save_resized_def Let_def resized_file_def save_file_saves codec_fine_def)
next
  case False
  have "length (take (unat (i_image_size info)) (drop src (m_jpeg (jd_mem d)))) = unat (i_image_size info)" using assms(5) by simp
  thus ?thesis using save_resized_segments [OF assms(1,2) _ assms(4-6), of app name] assms(3) False by (simp add: resized_file_def)
qed

lemma collect_apps_prefix:
  assumes "collect_apps content apps = Inr app" "take (length content) b = content"
  shows "collect_apps b apps = Inr app"
  using assms
proof (induction apps arbitrary: app)
  case (Cons x apps)
  obtain off n where x: "x = (off, n)" by (cases x)
  obtain bs rest where r: "mem_read (nat off) (nat n) content = Inr bs" "collect_apps content apps = Inr rest" "app = bs @ rest"
    using Cons.prems(1) by (auto simp: x elim!: bindr_eq_InrE)
  obtain c where "b = content @ c" using Cons.prems(2) by (metis append_take_drop_id)
  hence "mem_read (nat off) (nat n) b = Inr bs" using r(1) by (auto simp: mem_read_def split: if_splits)
  thus ?case using Cons.IH [OF r(2) Cons.prems(2)] r(3) by (simp add: x)
qed simp

lemma collect_apps_length: "collect_apps b apps = Inr app \<Longrightarrow> \<forall>x\<in>set apps. 0 \<le> snd x \<Longrightarrow> length app = app_total apps"
proof (induction apps arbitrary: app)
  case (Cons x apps)
  obtain off n where x: "x = (off, n)" by (cases x)
  have pos: "0 \<le> sum_list (map snd apps)" using Cons.prems(2) by (induction apps) auto
  show ?case using Cons x pos by (auto simp: app_total_def mem_read_def nat_add_distrib elim!: bindr_eq_InrE split: if_splits)
qed (simp add: app_total_def)

text \<open>
  An engine for a resize: it takes every request, the first read gives \<open>info1\<close> and leaves the memories \<open>m1\<close> with the bit
  stream untouched, and every later read gives \<open>info2\<close> and \<open>m2\<close>.
\<close>

definition two_steps :: "codec_env \<Rightarrow> jpeg_info_t \<times> mems \<Rightarrow> jpeg_info_t \<times> mems \<Rightarrow> bool" where
  "two_steps e r1 r2 \<longleftrightarrow> (\<forall>l m. ce_read e l m = Some (if ReadInfo \<in> set l then r2 else r1))"

lemma run_codec_first:
  assumes "codec_fine e" "two_steps e (info1, m1) r2" "ReadInfo \<notin> set (jd_log d)"
  shows "run_codec e d = (Some info1, d\<lparr>jd_mem := m1, jd_log := jd_log d @ [Req (ReqParam (jd_param d)), Req ReqTrigger, ReadInfo]\<rparr>)"
  using assms by (simp add: run_codec_def trigger_def request_def read_info_def two_steps_def codec_fine_def)

lemma trigger_second:
  assumes "codec_fine e" "two_steps e r1 (info2, m2)" "ReadInfo \<in> set (jd_log d)"
  shows "trigger e d = (Some info2, d\<lparr>jd_mem := m2, jd_log := jd_log d @ [Req ReqTrigger, ReadInfo]\<rparr>)"
  using assms by (simp add: trigger_def request_def read_info_def two_steps_def codec_fine_def)

lemma qtables_log: "\<exists>qs. (if qt then d else qtables e d) = d\<lparr>jd_log := jd_log d @ qs\<rparr>"
proof (cases qt)
  case True
  thus ?thesis by (intro exI [of _ "[]"]) simp
next
  case False
  thus ?thesis by (auto simp: qtables_def request_def Let_def)
qed

text \<open>The second half, from the decoded picture to the file.\<close>

lemma resize_encode_writes:
  assumes "codec_fine e" "two_steps e r1 (info2, m2)" "ReadInfo \<in> set (jd_log d)" "i_state info1 = ST_DECODED_IMAGE"
    and "a \<noteq> 0 \<longrightarrow> app_info e d = Inr app"
    and "unat (q_src_bufsize (jd_param d)) + unat (i_image_size info1) \<le> length (m_jpeg (jd_mem d))"
    and "src = unat (i_image_size info1) + (if a = 0 then 0 else round4 (length app))" "n = unat (i_image_size info2)" "2 \<le> n"
    and "src + n \<le> length (m_jpeg m2)" "length (m_jpeg m2) < 4294967296"
    and "output_name (rj_output rj) name sw sh = Inr out"
  shows "\<exists>d'. resize_encode e rj name (w, h) (sw, sh) f (int a \<noteq> 0) qt info1 d = Some (Inr d') \<and>
    set (jd_log d) \<union> {Req (ReqParam (resize_enc_param e w h sw sh f (of_nat src)))} \<subseteq> set (jd_log d') \<and>
    jd_files d' = (jd_files d)(out \<mapsto> resized_file a app (take n (drop src (m_jpeg m2))))"
proof -
  let ?raw = "take (unat (i_image_size info1)) (drop (unat (q_src_bufsize (jd_param d))) (m_jpeg (jd_mem d)))"
  define app' where "app' = (if a = 0 then [] else app)"
  define room where "room = (if a = 0 then word_of_int (rj_offset rj) else of_nat (round4 (length app)) :: 32 word)"
  define d1 where "d1 = d\<lparr>jd_mem := (jd_mem d)\<lparr>m_jpeg := blit 0 ?raw (m_jpeg (jd_mem d))\<rparr>\<rparr>"
  have log1: "jd_log d1 = jd_log d" by (simp add: d1_def)
  have tp: "take_picture e rj (int a \<noteq> 0) info1 d = Inr (app', room, d1)"
    using assms(4-6) by (cases "a = 0") (simp_all add: take_picture_def mem_read_def put_jpeg_def app'_def room_def d1_def)
  have ds: "i_image_size info1 + (if int a \<noteq> 0 then room else 0) = of_nat src"
    by (simp add: assms(7) room_def)
  define p where "p = resize_enc_param e w h sw sh f (of_nat src)"
  obtain qs where q: "(if qt then d1\<lparr>jd_param := p\<rparr> else qtables e (d1\<lparr>jd_param := p\<rparr>)) = d1\<lparr>jd_param := p, jd_log := jd_log d @ qs\<rparr>"
    using qtables_log [of qt "d1\<lparr>jd_param := p\<rparr>" e] log1 by auto
  define d2 where "d2 = d1\<lparr>jd_param := p, jd_log := jd_log d @ qs @ [Req (ReqParam p), Req (ReqStride (i_width info1))]\<rparr>"
  define d3 where "d3 = d2\<lparr>jd_mem := m2, jd_log := jd_log d2 @ [Req ReqTrigger, ReadInfo]\<rparr>"
  have tr: "trigger e d2 = (Some info2, d3)"
    unfolding d3_def using assms(3) by (intro trigger_second [OF assms(1,2)]) (simp add: d2_def)
  have src: "unat (of_nat src :: 32 word) = src" using assms(10,11) by (simp add: unat_of_nat)
  have "a \<noteq> 0 \<longrightarrow> length app' \<le> src" using round4_bounds(1) [of "length app"] by (simp add: assms(7) app'_def)
  moreover have "q_src_bufsize (jd_param d3) = of_nat src" "m_jpeg (jd_mem d3) = m_jpeg m2"
    by (simp_all add: d3_def d2_def p_def resize_enc_param_def)
  ultimately obtain d' where d': "save_resized e out (int a \<noteq> 0) app' info2 d3 = Some (Inr d')" "jd_log d' = jd_log d3"
      "jd_files d' = (jd_files d3)(out \<mapsto> resized_file a app' (take n (drop src (m_jpeg m2))))"
    using save_resized_saves [OF assms(1), of src d3 a app' info2 out] assms(8-11) src by auto
  have "resize_encode e rj name (w, h) (sw, sh) f (int a \<noteq> 0) qt info1 d = Some (Inr d')"
    unfolding resize_encode_def prod.case tp runs_simps ds Let_def p_def [symmetric] q
    using assms(1) d'(1) tr by (simp add: request_def codec_fine_def d2_def assms(12))
  moreover have "resized_file a app' x = resized_file a app x" for x by (simp add: resized_file_def app'_def)
  moreover have "jd_files d3 = jd_files d" by (simp add: d3_def d2_def d1_def)
  moreover have "set (jd_log d) \<union> {Req (ReqParam p)} \<subseteq> set (jd_log d')" unfolding d'(2) by (auto simp: d3_def d2_def)
  ultimately show ?thesis using d'(3) unfolding p_def by auto
qed

text \<open>What the user types: the name, the new width and height, the format, and the two options, each on its own line.\<close>

definition resize_input :: "string \<Rightarrow> nat \<Rightarrow> nat \<Rightarrow> nat \<Rightarrow> nat \<Rightarrow> nat \<Rightarrow> string \<Rightarrow> string" where
  "resize_input name sw sh f a q rest = name @ lf # dec_str sw @ lf # dec_str sh @ lf # dec_str f @ lf # dec_str a @ lf # dec_str q @ lf # rest"

definition in_scale :: "nat \<Rightarrow> nat \<Rightarrow> bool" where
  "in_scale n s \<longleftrightarrow> n div 6 \<le> s \<and> 1 \<le> s \<and> s \<le> 8 * n \<and> s \<le> 4095"

lemma scale_range_in:
  assumes "in_scale n s" "n < 65536"
  shows "fst (scale_range (int n)) \<le> int s" "int s \<le> snd (scale_range (int n))"
proof -
  have "int n sdiv 6 = int (n div 6)" by (cases "n = 0") (simp_all add: signed_divide_int_def zdiv_int)
  moreover have "s32 (int n * 8) = int n * 8" using assms(2) by (intro s32_id) (simp add: in_s32_def)
  ultimately show "fst (scale_range (int n)) \<le> int s" "int s \<le> snd (scale_range (int n))"
    using assms(1) by (simp_all add: scale_range_def in_scale_def)
qed


definition resize_jpg :: bytes where
  "resize_jpg = [0xFF, 0xD8, 0xFF, 0xE0, 0, 3, 9, 0xFF, 0xC0, 0, 17, 8, 0, 240, 1, 64]"

definition resize_step1 :: "jpeg_info_t \<times> mems" where
  "resize_step1 = (\<lparr>i_width = 100, i_height = 80, i_state = ST_DECODED_IMAGE, i_image_size = 4\<rparr>,
     \<lparr>m_jpeg = resize_jpg @ replicate 84 0, m_video = [], m_sw = []\<rparr>)"

definition resize_step2 :: "jpeg_info_t \<times> mems" where
  "resize_step2 = (\<lparr>i_width = 100, i_height = 80, i_state = 3, i_image_size = 6\<rparr>,
     \<lparr>m_jpeg = replicate 12 0 @ [0xFF, 0xD8, 1, 2, 0xFF, 0xD9] @ replicate 82 0, m_video = [], m_sw = []\<rparr>)"

definition resize_env :: codec_env where
  "resize_env = (idle_env 320 240 100 4)\<lparr>ce_heap := (\<lambda>_. Some (0, [])), ce_read := (\<lambda>l m. Some (if ReadInfo \<in> set l then resize_step2 else resize_step1))\<rparr>"


end
