(* ===== verification/Blt.thy ===== *)
theory Blt
  imports TsPrelude
begin

unbundle bit_operations_syntax

text \<open>
  The blitter demo, src/blt/blt_demo.c: a background and a sprite are moved over the panel by a hardware blitter. Each
  frame gives the blitter the operations with their source and destination; what is shown is that these
  stay inside their buffers. The blitter, the set-up of its devices and the images are outside; addresses are 32-bit
  words.
\<close>

subsection \<open>Data\<close>

definition s16 :: "int \<Rightarrow> int" where
  "s16 v = (v + 32768) mod 65536 - 32768"

text \<open>\<open>S_OBJ\<close>, and the fields of \<open>S_DRVBLT_BLIT_OP\<close> that the program sets per operation.\<close>

record blt_obj =
  u32PatternBase :: "32 word"
  i32X :: int
  i32Y :: int
  u32Width :: "32 word"
  u32Height :: "32 word"
  u32Stride :: "32 word"

record blt_op =
  src_addr :: "32 word"
  src_stride :: int
  src_xoff :: int
  src_yoff :: int
  src_width :: int
  src_height :: int
  dst_addr :: "32 word"
  dst_stride :: int
  dst_width :: int
  dst_height :: int

record blt =
  DestPhysAddr :: "32 word"
  SrcSPPhysAddr :: "32 word"
  lcm_width :: int
  lcm_height :: int
  u16Index :: nat
  obj0 :: blt_obj
  obj1 :: blt_obj
  blitop :: blt_op

definition the_obj :: "nat \<Rightarrow> blt \<Rightarrow> blt_obj" where "the_obj i b = (if i = 0 then obj0 b else obj1 b)"
definition put_obj :: "nat \<Rightarrow> blt_obj \<Rightarrow> blt \<Rightarrow> blt" where "put_obj i ob b = (if i = 0 then b\<lparr>obj0 := ob\<rparr> else b\<lparr>obj1 := ob\<rparr>)"

subsection \<open>Operations\<close>

definition DemoBitBlt_Config :: "32 word \<Rightarrow> int \<Rightarrow> int \<Rightarrow> blt \<Rightarrow> blt" where
  "DemoBitBlt_Config addr i16Width i16Height b =
     b\<lparr>blitop := (blitop b)\<lparr>dst_addr := addr, dst_stride := i16Width * 2, dst_width := i16Width, dst_height := i16Height\<rparr>\<rparr>"

text \<open>The part of the size that fits from a position on; the comparison is unsigned.\<close>

definition clipped :: "int \<Rightarrow> 32 word \<Rightarrow> int \<Rightarrow> int" where
  "clipped pos extent limit =
     (if word_of_int limit \<le> word_of_int pos + extent then s16 (s32 (limit - pos)) else s16 (uint extent))"

definition DemoBitBlt_SetPosition :: "nat \<Rightarrow> int \<Rightarrow> int \<Rightarrow> blt \<Rightarrow> blt" where
  "DemoBitBlt_SetPosition i x y b =
     (let ob = the_obj i b; w = u32Width ob; h = u32Height ob; base = DestPhysAddr b;
          op = (blitop b)\<lparr>src_addr := u32PatternBase ob, src_stride := sint (u32Stride ob * 2)\<rparr>;
          ux = (word_of_int (- x) :: 32 word); uy = (word_of_int (- y) :: 32 word);
          op = (if x < 0 \<and> y < 0 then
                  op\<lparr>src_xoff := sint (push_bit 16 ux), src_yoff := sint (push_bit 16 uy), dst_addr := base,
                     dst_width := s16 (uint (w - ux)), dst_height := s16 (uint (h - uy))\<rparr>
                else if x < 0 then
                  op\<lparr>src_xoff := sint (push_bit 16 ux), src_yoff := 0, dst_addr := base + word_of_int (y * lcm_width b * 2),
                     dst_width := s16 (uint (w - ux)), dst_height := clipped y h (lcm_height b)\<rparr>
                else if y < 0 then
                  op\<lparr>src_xoff := 0, src_yoff := sint (push_bit 16 uy), dst_addr := base + word_of_int (x * 2),
                     dst_width := clipped x w (lcm_width b), dst_height := s16 (uint (h - uy))\<rparr>
                else
                  op\<lparr>src_xoff := 0, src_yoff := 0, dst_addr := base + word_of_int (y * lcm_width b * 2) + word_of_int (x * 2),
                     dst_width := clipped x w (lcm_width b), dst_height := clipped y h (lcm_height b)\<rparr>)
      in put_obj i (ob\<lparr>i32X := x, i32Y := y\<rparr>) (b\<lparr>blitop := op\<rparr>))"

definition DemoBitBlt_SetCrop :: "nat \<Rightarrow> 32 word \<Rightarrow> 32 word \<Rightarrow> blt \<Rightarrow> blt" where
  "DemoBitBlt_SetCrop i w h b =
     put_obj i ((the_obj i b)\<lparr>u32Width := w, u32Height := h\<rparr>)
       (b\<lparr>blitop := (blitop b)\<lparr>src_width := s16 (uint w), src_height := s16 (uint h)\<rparr>\<rparr>)"

text \<open>The operations that \<open>_DemoBitBlt_Flush\<close> gives to the blitter, one per object.\<close>

definition flush_obj :: "nat \<Rightarrow> blt \<Rightarrow> blt" where
  "flush_obj i b =
     (let b = DemoBitBlt_SetPosition i (i32X (the_obj i b)) (i32Y (the_obj i b)) b in
      DemoBitBlt_SetCrop i (u32Width (the_obj i b)) (u32Height (the_obj i b)) b)"

definition DemoBitBlt_Flush :: "blt \<Rightarrow> blt_op list \<times> blt" where
  "DemoBitBlt_Flush b = (let b0 = flush_obj 0 b; b1 = flush_obj 1 b0 in ([blitop b0, blitop b1], b1))"

subsection \<open>The animation\<close>

text \<open>The pictures of the sprite: their offset in pixels and their width.\<close>

definition sprite :: "nat \<Rightarrow> 32 word \<times> 32 word" where
  "sprite k =
     (if k = 0 then (0, 96) else if k = 1 then (96, 96) else if k = 2 then (96 + 96, 112) else if k = 3 then (96 + 96 + 112, 112)
      else if k = 4 then (96 + 96 + 112 + 112, 112) else if k = 5 then (96 + 96 + 112 + 112 + 112, 112)
      else (96 + 96 + 112 + 112 + 112 + 112, 96))"

definition crop_sprite :: "blt \<Rightarrow> blt" where
  "crop_sprite b =
     (let k = u16Index b; b = b\<lparr>u16Index := k + 1\<rparr> in
      if k \<le> 6 then
        let b = (if k = 6 then b\<lparr>u16Index := 0\<rparr> else b) in
        DemoBitBlt_SetCrop 1 (snd (sprite k)) 160 (b\<lparr>obj1 := (obj1 b)\<lparr>u32PatternBase := SrcSPPhysAddr b + fst (sprite k) * 2\<rparr>\<rparr>)
      else b)"

text \<open>
  One round of the loop of \<open>main\<close>: \<open>None\<close> when a request for the colour key fails, which ends the loop; \<open>on\<close> and \<open>off\<close> are whether the
  requests succeed.
\<close>

definition blt_frame :: "bool \<Rightarrow> bool \<Rightarrow> blt \<Rightarrow> (blt_op list \<times> blt) option" where
  "blt_frame on off b =
     (let y = i32Y (obj0 b); b = b\<lparr>obj0 := (obj0 b)\<lparr>i32Y := s32 (y - 1)\<rparr>\<rparr> in
      if y < - 250 \<and> \<not> on then None
      else
        let b = (if y < - 250 then b\<lparr>obj0 := (obj0 b)\<lparr>i32Y := 150\<rparr>\<rparr> else b);
            x = i32X (obj1 b); b = b\<lparr>obj1 := (obj1 b)\<lparr>i32X := s32 (x - 1)\<rparr>\<rparr> in
        if x < 0 \<and> \<not> off then None
        else
          let b = (if x < 0 then b\<lparr>obj1 := (obj1 b)\<lparr>i32X := 300\<rparr>\<rparr> else b) in
          Some (DemoBitBlt_Flush (crop_sprite b)))"

text \<open>The state before the loop, for a panel and the addresses of the buffers; the objects are zero at first.\<close>

definition blt_start :: "int \<Rightarrow> int \<Rightarrow> 32 word \<Rightarrow> 32 word \<Rightarrow> 32 word \<Rightarrow> blt" where
  "blt_start width height dest bg sp =
     (let zero = \<lparr>u32PatternBase = 0, i32X = 0, i32Y = 0, u32Width = 0, u32Height = 0, u32Stride = 0\<rparr>;
          b = \<lparr>DestPhysAddr = dest, SrcSPPhysAddr = sp, lcm_width = width, lcm_height = height, u16Index = 0,
               obj0 = zero\<lparr>u32PatternBase := bg, u32Stride := 480\<rparr>, obj1 = zero\<lparr>u32PatternBase := sp, u32Stride := 736\<rparr>,
               blitop = \<lparr>src_addr = 0, src_stride = 0, src_xoff = 0, src_yoff = 0, src_width = 0, src_height = 0, dst_addr = 0,
                 dst_stride = 0, dst_width = 0, dst_height = 0\<rparr>\<rparr>;
          b = DemoBitBlt_Config dest (s16 width) (s16 height) b;
          b = DemoBitBlt_SetPosition 1 200 100 (DemoBitBlt_SetPosition 0 0 0 b) in
      DemoBitBlt_SetCrop 0 480 272 b)"

subsection \<open>Where an operation lies\<close>

text \<open>
  The operation draws a rectangle of the image at \<open>base\<close>, with \<open>stride\<close> pixels per line and \<open>rows\<close> lines, into the panel: it is inside
  both.
\<close>

definition op_inside :: "blt \<Rightarrow> 32 word \<Rightarrow> int \<Rightarrow> int \<Rightarrow> blt_op \<Rightarrow> bool" where
  "op_inside b base stride rows p \<longleftrightarrow>
     (\<exists>dx dy px sx sy. 0 \<le> dx \<and> 0 \<le> dy \<and> 0 \<le> px \<and> 0 \<le> sx \<and> 0 \<le> sy \<and> 0 \<le> dst_width p \<and> 0 \<le> dst_height p \<and>
        dst_addr p = DestPhysAddr b + word_of_int (2 * (dy * lcm_width b + dx)) \<and> dst_stride p = 2 * lcm_width b \<and>
        dx + dst_width p \<le> lcm_width b \<and> dy + dst_height p \<le> lcm_height b \<and>
        src_addr p = base + word_of_int (2 * px) \<and> src_stride p = 2 * stride \<and> src_xoff p = sx * 65536 \<and> src_yoff p = sy * 65536 \<and>
        px + sx + dst_width p \<le> stride \<and> sy + dst_height p \<le> rows)"

definition panel_ok :: "blt \<Rightarrow> bool" where
  "panel_ok b \<longleftrightarrow> 300 \<le> lcm_width b \<and> lcm_width b \<le> 16383 \<and> 272 \<le> lcm_height b \<and> lcm_height b \<le> 16383"

lemma s16_id: "- 32768 \<le> v \<Longrightarrow> v < 32768 \<Longrightarrow> s16 v = v"
  by (simp add: s16_def)

lemma uint_of_int: "0 \<le> v \<Longrightarrow> v < 4294967296 \<Longrightarrow> uint (word_of_int v :: 32 word) = v"
  by (simp add: unsigned_of_int take_bit_int_eq_self)

lemma sint_of_int: "0 \<le> v \<Longrightarrow> v < 2147483648 \<Longrightarrow> sint (word_of_int v :: 32 word) = v"
  by (simp add: signed_of_int signed_take_bit_int_eq_self)

lemma fixed_16: "0 \<le> v \<Longrightarrow> v < 32768 \<Longrightarrow> sint (push_bit 16 (word_of_int v :: 32 word)) = v * 65536"
  using sint_of_int [of "v * 65536"] by (simp add: push_bit_eq_mult)

lemma clipped_min:
  assumes "0 \<le> pos" "pos \<le> limit" "limit \<le> 16383" "uint extent \<le> 16383"
  shows "clipped pos extent limit = min (uint extent) (limit - pos)"
proof -
  have "(word_of_int pos :: 32 word) + extent = word_of_int (pos + uint extent)" by simp
  moreover have "(word_of_int limit :: 32 word) \<le> word_of_int (pos + uint extent) \<longleftrightarrow> limit \<le> pos + uint extent"
    using assms uint_lt_0 [of extent] by (simp add: word_le_def uint_of_int del: of_int_add)
  moreover have "0 \<le> uint extent" by simp
  moreover from this have "s16 (uint extent) = uint extent" by (intro s16_id) (use assms(4) in linarith)+
  ultimately show ?thesis
    using assms by (simp add: clipped_def s16_id s32_id in_s32_def min_def del: of_int_add)
qed

lemma part_left:
  fixes w :: "32 word"
  assumes "x < 0" "- uint w \<le> x" "uint w \<le> 16383"
  shows "s16 (uint (w - word_of_int (- x))) = uint w + x"
proof -
  have "w - word_of_int (- x) = word_of_int (uint w + x)" by simp
  moreover have "uint (word_of_int (uint w + x) :: 32 word) = uint w + x" by (rule uint_of_int) (use assms in linarith)+
  moreover have "s16 (uint w + x) = uint w + x" by (rule s16_id) (use assms in linarith)+
  ultimately show ?thesis by (simp only:)
qed

lemma SetPosition_op:
  assumes "panel_ok b" and ob: "the_obj i b = ob" and "uint (u32Width ob) \<le> 16383" "uint (u32Height ob) \<le> 16383"
    and "- uint (u32Width ob) \<le> x" "x \<le> lcm_width b" "- uint (u32Height ob) \<le> y" "y \<le> lcm_height b"
  shows "blitop (DemoBitBlt_SetPosition i x y b) = (blitop b)\<lparr>src_addr := u32PatternBase ob, src_stride := sint (u32Stride ob * 2),
      src_xoff := max 0 (- x) * 65536, src_yoff := max 0 (- y) * 65536,
      dst_addr := DestPhysAddr b + word_of_int (2 * (max 0 y * lcm_width b + max 0 x)),
      dst_width := if x < 0 then uint (u32Width ob) + x else min (uint (u32Width ob)) (lcm_width b - x),
      dst_height := if y < 0 then uint (u32Height ob) + y else min (uint (u32Height ob)) (lcm_height b - y)\<rparr>"
  using assms
  by (simp add: DemoBitBlt_SetPosition_def Let_def put_obj_def panel_ok_def clipped_min part_left fixed_16 algebra_simps del: of_int_minus)

text \<open>The operation that is given to the blitter for an object that is partly on the panel and not larger than it.\<close>

lemma flush_obj_inside:
  assumes "panel_ok b" "the_obj i b = ob" "i \<le> 1" "dst_stride (blitop b) = 2 * lcm_width b"
    and "uint (u32Width ob) \<le> 16383" "uint (u32Height ob) \<le> lcm_height b" "i32X ob < 0 \<longrightarrow> uint (u32Width ob) \<le> lcm_width b"
    and "- uint (u32Width ob) \<le> i32X ob" "i32X ob \<le> lcm_width b" "- uint (u32Height ob) \<le> i32Y ob" "i32Y ob \<le> lcm_height b"
    and "u32PatternBase ob = base + word_of_int (2 * px)" "0 \<le> px" "sint (u32Stride ob * 2) = 2 * stride"
    and "px + uint (u32Width ob) \<le> stride" "uint (u32Height ob) \<le> rows"
  shows "op_inside b base stride rows (blitop (flush_obj i b))" and "dst_stride (blitop (flush_obj i b)) = 2 * lcm_width b"
    and "flush_obj i b = b\<lparr>blitop := blitop (flush_obj i b)\<rparr>"
proof -
  let ?p = "blitop (flush_obj i b)"
  have h: "uint (u32Height ob) \<le> 16383" using assms(1,6) by (simp add: panel_ok_def)
  have "?p = (blitop (DemoBitBlt_SetPosition i (i32X ob) (i32Y ob) b))\<lparr>src_width := src_width ?p, src_height := src_height ?p\<rparr>"
    using assms(2) by (simp add: flush_obj_def DemoBitBlt_SetCrop_def put_obj_def Let_def)
  note p = this [unfolded SetPosition_op [OF assms(1,2,5) h assms(8-11)]]
  have dst: "dst_width ?p = (if i32X ob < 0 then uint (u32Width ob) + i32X ob else min (uint (u32Width ob)) (lcm_width b - i32X ob))"
    "dst_height ?p = (if i32Y ob < 0 then uint (u32Height ob) + i32Y ob else min (uint (u32Height ob)) (lcm_height b - i32Y ob))"
    "dst_addr ?p = DestPhysAddr b + word_of_int (2 * (max 0 (i32Y ob) * lcm_width b + max 0 (i32X ob)))" "dst_stride ?p = 2 * lcm_width b"
    and src: "src_addr ?p = base + word_of_int (2 * px)" "src_stride ?p = 2 * stride"
      "src_xoff ?p = max 0 (- i32X ob) * 65536" "src_yoff ?p = max 0 (- i32Y ob) * 65536"
    by (subst p, simp add: assms(4,12,14))+
  show "dst_stride ?p = 2 * lcm_width b" by (rule dst)
  have nonneg: "0 \<le> uint (u32Width ob)" "0 \<le> uint (u32Height ob)" by simp_all
  have w: "0 \<le> dst_width ?p" "max 0 (i32X ob) + dst_width ?p \<le> lcm_width b" "px + max 0 (- i32X ob) + dst_width ?p \<le> stride"
    using assms(7-9,15) nonneg unfolding dst(1) by (auto simp: min_def max_def)
  have h: "0 \<le> dst_height ?p" "max 0 (i32Y ob) + dst_height ?p \<le> lcm_height b" "max 0 (- i32Y ob) + dst_height ?p \<le> rows"
    using assms(6,10,11,16) nonneg unfolding dst(2) by (auto simp: min_def max_def)
  show "op_inside b base stride rows ?p"
    unfolding op_inside_def
    by (rule exI [of _ "max 0 (i32X ob)"], rule exI [of _ "max 0 (i32Y ob)"], rule exI [of _ px], rule exI [of _ "max 0 (- i32X ob)"],
        rule exI [of _ "max 0 (- i32Y ob)"]) (use w h dst(3,4) src assms(13) in simp)
  show "flush_obj i b = b\<lparr>blitop := ?p\<rparr>"
    using assms(2,3) by (auto simp: flush_obj_def DemoBitBlt_SetCrop_def DemoBitBlt_SetPosition_def put_obj_def the_obj_def Let_def le_Suc_eq)
qed

subsection \<open>The frames\<close>

definition blt_inv :: "32 word \<Rightarrow> 32 word \<Rightarrow> 32 word \<Rightarrow> int \<Rightarrow> int \<Rightarrow> blt \<Rightarrow> bool" where
  "blt_inv dest bg sp w h b \<longleftrightarrow>
     DestPhysAddr b = dest \<and> SrcSPPhysAddr b = sp \<and> lcm_width b = w \<and> lcm_height b = h \<and> u16Index b \<le> 6 \<and> dst_stride (blitop b) = 2 * w \<and>
     i32X (obj0 b) = 0 \<and> - 251 \<le> i32Y (obj0 b) \<and> i32Y (obj0 b) \<le> 150 \<and>
     u32PatternBase (obj0 b) = bg \<and> u32Width (obj0 b) = 480 \<and> u32Height (obj0 b) = 272 \<and> u32Stride (obj0 b) = 480 \<and>
     - 1 \<le> i32X (obj1 b) \<and> i32X (obj1 b) \<le> 300 \<and> i32Y (obj1 b) = 100 \<and> u32Stride (obj1 b) = 736"

definition has_sprite :: "blt \<Rightarrow> bool" where
  "has_sprite b \<longleftrightarrow> (\<exists>k. u32PatternBase (obj1 b) = SrcSPPhysAddr b + fst (sprite k) * 2 \<and> u32Width (obj1 b) = snd (sprite k) \<and> u32Height (obj1 b) = 160)"

lemma sprite_in_sheet: "96 \<le> uint (snd (sprite k))" "uint (snd (sprite k)) \<le> 112" "uint (fst (sprite k)) + uint (snd (sprite k)) \<le> 736"
  by (auto simp: sprite_def)

lemma frame_moves:
  assumes "blt_inv dest bg sp w h b" "blt_frame on off b = Some r"
  shows "\<exists>b1. r = DemoBitBlt_Flush b1 \<and> blt_inv dest bg sp w h b1 \<and> has_sprite b1"
proof -
  have crop: "blt_inv dest bg sp w h (crop_sprite b2) \<and> has_sprite (crop_sprite b2)" if "blt_inv dest bg sp w h b2" for b2
    using that by (auto simp: blt_inv_def has_sprite_def crop_sprite_def DemoBitBlt_SetCrop_def put_obj_def the_obj_def Let_def)
  let ?y = "i32Y (obj0 b)" and ?x = "i32X (obj1 b)"
  let ?b = "b\<lparr>obj0 := (obj0 b)\<lparr>i32Y := if ?y < - 250 then 150 else ?y - 1\<rparr>, obj1 := (obj1 b)\<lparr>i32X := if ?x < 0 then 300 else ?x - 1\<rparr>\<rparr>"
  have "s32 (?y - 1) = ?y - 1" "s32 (?x - 1) = ?x - 1" using assms(1) by (simp_all add: blt_inv_def s32_id in_s32_def)
  hence "r = DemoBitBlt_Flush (crop_sprite ?b)"
    using assms(2) by (auto simp: blt_frame_def Let_def split: if_splits)
  moreover have "blt_inv dest bg sp w h ?b" using assms(1) by (auto simp: blt_inv_def)
  ultimately show ?thesis using crop by blast
qed

lemma flush_inside:
  assumes inv: "blt_inv dest bg sp w h b" and "has_sprite b" and panel: "panel_ok b"
  shows "\<exists>p q b'. DemoBitBlt_Flush b = ([p, q], b') \<and> blt_inv dest bg sp w h b' \<and> panel_ok b' \<and>
    op_inside b' bg 480 272 p \<and> op_inside b' sp 736 160 q"
proof -
  obtain k where k: "u32PatternBase (obj1 b) = SrcSPPhysAddr b + fst (sprite k) * 2" "u32Width (obj1 b) = snd (sprite k)" "u32Height (obj1 b) = 160"
    using assms(2) unfolding has_sprite_def by blast
  note f0 = flush_obj_inside [of b 0 "obj0 b" bg 0 480 272]
  have 0: "op_inside b bg 480 272 (blitop (flush_obj 0 b))" "dst_stride (blitop (flush_obj 0 b)) = 2 * lcm_width b"
    "flush_obj 0 b = b\<lparr>blitop := blitop (flush_obj 0 b)\<rparr>"
    by (rule f0; use inv panel in \<open>simp add: the_obj_def blt_inv_def panel_ok_def\<close>)+
  let ?b = "flush_obj 0 b"
  have same: "DestPhysAddr ?b = DestPhysAddr b" "SrcSPPhysAddr ?b = SrcSPPhysAddr b" "lcm_width ?b = lcm_width b" "lcm_height ?b = lcm_height b"
    "obj0 ?b = obj0 b" "obj1 ?b = obj1 b" "u16Index ?b = u16Index b"
    by (subst 0(3), simp)+
  have base: "fst (sprite k) * 2 = word_of_int (2 * uint (fst (sprite k)))" by (simp add: mult.commute)
  note f1 = flush_obj_inside [of ?b 1 "obj1 b" sp "uint (fst (sprite k))" 736 160]
  have 1: "op_inside ?b sp 736 160 (blitop (flush_obj 1 ?b))" "dst_stride (blitop (flush_obj 1 ?b)) = 2 * lcm_width ?b"
    "flush_obj 1 ?b = ?b\<lparr>blitop := blitop (flush_obj 1 ?b)\<rparr>"
    by (rule f1; use inv panel k 0(2) same sprite_in_sheet [of k] base in \<open>simp add: the_obj_def blt_inv_def panel_ok_def\<close>)+
  let ?c = "flush_obj 1 ?b"
  have same': "DestPhysAddr ?c = DestPhysAddr b" "SrcSPPhysAddr ?c = SrcSPPhysAddr b" "lcm_width ?c = lcm_width b" "lcm_height ?c = lcm_height b"
    "obj0 ?c = obj0 b" "obj1 ?c = obj1 b" "u16Index ?c = u16Index b"
    by (subst 1(3), simp add: same)+
  show ?thesis
    using inv panel 0(1) 1(1,2) same same' by (auto simp: DemoBitBlt_Flush_def Let_def blt_inv_def panel_ok_def op_inside_def)
qed

text \<open>The frames up to some moment, whatever the colour key requests answered.\<close>

inductive frames :: "blt \<Rightarrow> blt_op list list \<Rightarrow> blt \<Rightarrow> bool" for b where
  frames_Nil: "frames b [] b"
| frames_step: "frames b opss b1 \<Longrightarrow> blt_frame on off b1 = Some (ops, b2) \<Longrightarrow> frames b (opss @ [ops]) b2"

lemma start_inv:
  assumes "- 32768 \<le> width" "width < 32768"
  shows "blt_inv dest bg sp width height (blt_start width height dest bg sp)"
  using assms
  by (simp add: blt_inv_def blt_start_def DemoBitBlt_SetCrop_def DemoBitBlt_SetPosition_def DemoBitBlt_Config_def put_obj_def the_obj_def Let_def s16_id)

text \<open>
  C30: On a panel of at least 300 by 272 pixels every operation of every frame of the animation lies inside the
  panel's buffer, and inside the background of 480 by 272 or the sheet of sprites of 736 by 160 pixels.
\<close>

theorem blits_inside:
  assumes "300 \<le> width" "width \<le> 16383" "272 \<le> height" "height \<le> 16383"
    and "frames (blt_start width height dest bg sp) opss b"
  shows "\<forall>ops \<in> set opss. \<exists>p q. ops = [p, q] \<and> op_inside b bg 480 272 p \<and> op_inside b sp 736 160 q"
proof -
  have "blt_inv dest bg sp width height b \<and> (\<forall>ops \<in> set opss. \<exists>p q. ops = [p, q] \<and> op_inside b bg 480 272 p \<and> op_inside b sp 736 160 q)"
    using assms(5)
  proof (induction rule: frames.induct)
    case frames_Nil
    show ?case using start_inv [of width] assms(1,2) by simp
  next
    case (frames_step opss b1 on off ops b2)
    obtain c where c: "(ops, b2) = DemoBitBlt_Flush c" "blt_inv dest bg sp width height c" "has_sprite c"
      using frame_moves frames_step.IH frames_step.hyps(2) by blast
    have "panel_ok c" using c(2) assms(1-4) by (simp add: blt_inv_def panel_ok_def)
    from flush_inside [OF c(2,3) this] c(1) obtain p q where "ops = [p, q]" "blt_inv dest bg sp width height b2"
      "op_inside b2 bg 480 272 p" "op_inside b2 sp 736 160 q" by auto
    moreover have "op_inside b2 = op_inside b1"
      using frames_step.IH calculation(2) by (auto simp: blt_inv_def op_inside_def fun_eq_iff)
    ultimately show ?case using frames_step.IH by auto
  qed
  thus ?thesis by blast
qed

theorem blits_inside_witness:
  "\<exists>ops b. frames (blt_start 480 272 0x1000 0x2000 0x3000) [ops] b \<and> (\<exists>p q. ops = [p, q] \<and> op_inside b 0x2000 480 272 p \<and> op_inside b 0x3000 736 160 q)"
proof -
  let ?s = "blt_start 480 272 0x1000 0x2000 0x3000"
  have "blt_frame True True ?s \<noteq> None" by (simp add: blt_frame_def Let_def)
  then obtain ops b where "blt_frame True True ?s = Some (ops, b)" by (cases "blt_frame True True ?s") auto
  from frames_step [OF frames_Nil this]
  have "frames ?s ([] @ [ops]) b" .
  with blits_inside [of 480 272 "0x1000" "0x2000" "0x3000" "[ops]" b] show ?thesis by auto
qed

text \<open>
  The size is not limited by the panel where a position is negative: on a panel of 240 lines the first frame
  draws 271 lines from the start of the buffer.
\<close>

theorem blit_too_high:
  "map_option (\<lambda>(ops, b). (dst_addr (hd ops), dst_height (hd ops))) (blt_frame True True (blt_start 320 240 0x1000 0x2000 0x3000)) =
    Some (0x1000, 271)"
  by code_simp

end
