(* ===== verification/Cy8mrln.thy ===== *)
theory Cy8mrln
  imports TsTypes TsParseVars CalibFit
begin

text \<open>
  The raw module for the cy8mrln controller of the Palm Pre,
  src/tslib-1.1/plugins/cy8mrln-palmpre.c. The controller delivers frames: one 16-bit
  capacitance for each of 7 by 11 fields. The module keeps the largest value it has seen of
  every field (the reference, no finger), turns a frame into the differences to it, takes the
  field with the largest difference as the touch and interpolates with its neighbours. A frame
  with a value out of range means that the controller sleeps.

  \<^item> \<open>cydev\<close> is the module's struct together with what it talks to: the driver's answers to
    \<open>ioctl\<close> (the n-th call gets the n-th answer) with the list of the requests made, the
    answers to \<open>read\<close> as a script (the result, and what the array \<open>field\<close> of the local
    variable holds then), the clock, whether \<open>malloc\<close> finds memory, and the number of blocks
    the module owns on the heap.
  \<^item> The constants of the kernel header linux/spi/cy8mrln.h are arguments (\<open>cyhdr\<close>).
  \<^item> The arithmetic with \<open>float\<close> and \<open>double\<close> rounds with the two functions \<open>rnd\<close> and
    \<open>rndd\<close>, as in theory CalibFit.
\<close>

definition SCREEN_WIDTH :: int where "SCREEN_WIDTH = 319"
definition SCREEN_HEIGHT :: int where "SCREEN_HEIGHT = 527"
definition H_FIELDS :: nat where "H_FIELDS = 7"
definition V_FIELDS :: nat where "V_FIELDS = 11"
definition DEFAULT_SENSOR_DELTA_X :: int where "DEFAULT_SENSOR_DELTA_X = SCREEN_WIDTH sdiv int H_FIELDS"
definition DEFAULT_SENSOR_DELTA_Y :: int where "DEFAULT_SENSOR_DELTA_Y = SCREEN_HEIGHT sdiv (int V_FIELDS - 1)"
definition DEFAULT_SENSOR_OFFSET_X :: int where "DEFAULT_SENSOR_OFFSET_X = DEFAULT_SENSOR_DELTA_X sdiv 2"
definition DEFAULT_SENSOR_OFFSET_Y :: int where "DEFAULT_SENSOR_OFFSET_Y = DEFAULT_SENSOR_DELTA_Y sdiv 2"
definition ASLEEP_SCANRATE :: int where "ASLEEP_SCANRATE = 5"
definition DISCARD_FRAMES :: int where "DISCARD_FRAMES = 5"

lemma sensor_defaults [simp]:
  "DEFAULT_SENSOR_DELTA_X = 45" "DEFAULT_SENSOR_DELTA_Y = 52"
  "DEFAULT_SENSOR_OFFSET_X = 22" "DEFAULT_SENSOR_OFFSET_Y = 26"
  by (simp_all add: DEFAULT_SENSOR_DELTA_X_def DEFAULT_SENSOR_DELTA_Y_def DEFAULT_SENSOR_OFFSET_X_def
      DEFAULT_SENSOR_OFFSET_Y_def SCREEN_WIDTH_def SCREEN_HEIGHT_def H_FIELDS_def V_FIELDS_def)

text \<open>The macro \<open>field_nr\<close>: the columns are numbered from the right.\<close>

definition field_nr :: "int \<Rightarrow> int \<Rightarrow> int" where
  "field_nr x y = y * int H_FIELDS + (int H_FIELDS - x) - 1"

type_synonym cyframe = "16 word list"

datatype cy_req =
    SET_SCANRATE | SET_VERBOSE_MODE | SET_SLEEPMODE | SET_WOT_SCANRATE | SET_WOT_THRESHOLD | SET_TIMESTAMP_MODE

record cyhdr =
  CY8MRLN_ON_STATE :: int
  WOT_SCANRATE_512HZ :: int
  WOT_THRESHOLD_MIN :: int
  WOT_THRESHOLD_MAX :: int

text \<open>\<open>module.dev\<close> is the file descriptor of the device, if the pointer is not NULL.\<close>

record tslib_cy8mrln_palmpre =
  cy_moddev :: "int option"
  cy_references :: cyframe
  cy_scanrate :: int
  cy_verbose :: int
  cy_wot_threshold :: int
  cy_sleepmode :: int
  cy_wot_scanrate :: int
  cy_timestamp_mode :: int
  cy_gesture_height :: int
  cy_noise :: int
  cy_pressure :: int
  cy_sensor_offset_x :: int
  cy_sensor_offset_y :: int
  cy_sensor_delta_x :: int
  cy_sensor_delta_y :: int
  cy_last_n_valid_samples :: int
  cy_last_valid_samples :: "ts_sample list option"
  cy_discard_frames :: int
  cy_old_scanrate :: int

record cydev =
  cy_mod :: tslib_cy8mrln_palmpre
  cy_answer :: "nat \<Rightarrow> int"
  cy_ioctls :: "(cy_req \<times> int) list"
  cy_in :: "(int \<times> cyframe) list"
  cy_clock :: "nat \<Rightarrow> timeval"
  cy_tick :: nat
  cy_malloc_ok :: bool
  cy_heap :: nat

subsection \<open>The setters\<close>

text \<open>
  \<open>ioctl(info->module.dev->fd, req, &v)\<close>, and the setters that send it: the new value is kept
  when the driver accepts it. \<open>info\<close> is never NULL where they are called.
\<close>

definition cy_ioctl :: "cy_req \<Rightarrow> int \<Rightarrow> cydev \<Rightarrow> int \<times> cydev" where
  "cy_ioctl req v d = (cy_answer d (length (cy_ioctls d)), d\<lparr>cy_ioctls := cy_ioctls d @ [(req, v)]\<rparr>)"

definition cy_set :: "cy_req \<Rightarrow> (tslib_cy8mrln_palmpre \<Rightarrow> tslib_cy8mrln_palmpre) \<Rightarrow> int \<Rightarrow> cydev \<Rightarrow> int \<times> cydev" where
  "cy_set req store v d =
     (if cy_moddev (cy_mod d) = None then (-1, d)
      else
        (case cy_ioctl req v d of (r, d') \<Rightarrow>
           if r < 0 then (-1, d') else (0, d'\<lparr>cy_mod := store (cy_mod d')\<rparr>)))"

definition set_scanrate :: "int \<Rightarrow> cydev \<Rightarrow> int \<times> cydev" where
  "set_scanrate rate = cy_set SET_SCANRATE (\<lambda>m. m\<lparr>cy_scanrate := rate\<rparr>) rate"

definition set_verbose :: "int \<Rightarrow> cydev \<Rightarrow> int \<times> cydev" where
  "set_verbose v = cy_set SET_VERBOSE_MODE (\<lambda>m. m\<lparr>cy_verbose := v\<rparr>) v"

definition set_sleepmode :: "int \<Rightarrow> cydev \<Rightarrow> int \<times> cydev" where
  "set_sleepmode mode = cy_set SET_SLEEPMODE (\<lambda>m. m\<lparr>cy_sleepmode := mode\<rparr>) mode"

definition set_wot_scanrate :: "int \<Rightarrow> cydev \<Rightarrow> int \<times> cydev" where
  "set_wot_scanrate rate = cy_set SET_WOT_SCANRATE (\<lambda>m. m\<lparr>cy_wot_scanrate := rate\<rparr>) rate"

definition set_wot_threshold :: "cyhdr \<Rightarrow> int \<Rightarrow> cydev \<Rightarrow> int \<times> cydev" where
  "set_wot_threshold h v d =
     (if cy_moddev (cy_mod d) = None then (-1, d)
      else if v < WOT_THRESHOLD_MIN h \<or> WOT_THRESHOLD_MAX h < v then (-1, d)
      else
        (case cy_ioctl SET_WOT_THRESHOLD v d of (r, d') \<Rightarrow>
           if r < 0 then (-1, d') else (0, d'\<lparr>cy_mod := (cy_mod d')\<lparr>cy_wot_threshold := v\<rparr>\<rparr>)))"

definition set_timestamp_mode :: "int \<Rightarrow> cydev \<Rightarrow> int \<times> cydev" where
  "set_timestamp_mode v =
     (let v = (if v \<noteq> 0 then 1 else 0) in cy_set SET_TIMESTAMP_MODE (\<lambda>m. m\<lparr>cy_timestamp_mode := v\<rparr>) v)"

text \<open>The setters of values that only the module uses.\<close>

definition set_gesture_height :: "int \<Rightarrow> cydev \<Rightarrow> int \<times> cydev" where
  "set_gesture_height v d = (0, d\<lparr>cy_mod := (cy_mod d)\<lparr>cy_gesture_height := v\<rparr>\<rparr>)"

definition set_noise :: "int \<Rightarrow> cydev \<Rightarrow> int \<times> cydev" where
  "set_noise v d = (0, d\<lparr>cy_mod := (cy_mod d)\<lparr>cy_noise := v\<rparr>\<rparr>)"

definition set_pressure :: "int \<Rightarrow> cydev \<Rightarrow> int \<times> cydev" where
  "set_pressure v d = (0, d\<lparr>cy_mod := (cy_mod d)\<lparr>cy_pressure := v\<rparr>\<rparr>)"

definition set_sensor_offset_x :: "int \<Rightarrow> cydev \<Rightarrow> int \<times> cydev" where
  "set_sensor_offset_x v d = (0, d\<lparr>cy_mod := (cy_mod d)\<lparr>cy_sensor_offset_x := v\<rparr>\<rparr>)"

definition set_sensor_offset_y :: "int \<Rightarrow> cydev \<Rightarrow> int \<times> cydev" where
  "set_sensor_offset_y v d = (0, d\<lparr>cy_mod := (cy_mod d)\<lparr>cy_sensor_offset_y := v\<rparr>\<rparr>)"

definition set_sensor_delta_x :: "int \<Rightarrow> cydev \<Rightarrow> int \<times> cydev" where
  "set_sensor_delta_x v d = (0, d\<lparr>cy_mod := (cy_mod d)\<lparr>cy_sensor_delta_x := v\<rparr>\<rparr>)"

definition set_sensor_delta_y :: "int \<Rightarrow> cydev \<Rightarrow> int \<times> cydev" where
  "set_sensor_delta_y v d = (0, d\<lparr>cy_mod := (cy_mod d)\<lparr>cy_sensor_delta_y := v\<rparr>\<rparr>)"

lemmas cy_set_defs =
  cy_set_def cy_ioctl_def set_scanrate_def set_verbose_def set_sleepmode_def set_wot_scanrate_def set_wot_threshold_def
  set_timestamp_mode_def set_gesture_height_def set_noise_def set_pressure_def set_sensor_offset_x_def
  set_sensor_offset_y_def set_sensor_delta_x_def set_sensor_delta_y_def

subsection \<open>The options\<close>

text \<open>
  An option is read with \<open>strtoul\<close>; the \<open>unsigned long\<close> becomes the \<open>int\<close> of the setter. Most
  of the handlers refuse a number that is out of range, three do not look.
\<close>

definition cy_parse :: "bool \<Rightarrow> (int \<Rightarrow> cydev \<Rightarrow> int \<times> cydev) \<Rightarrow> cydev var_fn" where
  "cy_parse checked setter d str data errno =
     (case strtoul0 str errno of
        Inl e \<Rightarrow> Inl e
      | Inr (v, errno') \<Rightarrow>
          if checked \<and> v = ULONG_MAX \<and> errno' = ERANGE then Inr (d, -1, errno')
          else (case setter (sint v) d of (ret, d') \<Rightarrow> Inr (d', ret, errno')))"

definition parse_scanrate :: "cydev var_fn" where "parse_scanrate = cy_parse True set_scanrate"
definition parse_verbose :: "cydev var_fn" where "parse_verbose = cy_parse True set_verbose"
definition parse_wot_scanrate :: "cydev var_fn" where "parse_wot_scanrate = cy_parse False set_wot_scanrate"
definition parse_wot_threshold :: "cyhdr \<Rightarrow> cydev var_fn" where "parse_wot_threshold h = cy_parse False (set_wot_threshold h)"
definition parse_sleepmode :: "cydev var_fn" where "parse_sleepmode = cy_parse False set_sleepmode"

text \<open>The handler of \<open>timestamp_mode\<close> calls the setter of the sleep mode.\<close>

definition parse_timestamp_mode :: "cydev var_fn" where "parse_timestamp_mode = cy_parse True set_sleepmode"
definition parse_gesture_height :: "cydev var_fn" where "parse_gesture_height = cy_parse True set_gesture_height"
definition parse_noise :: "cydev var_fn" where "parse_noise = cy_parse True set_noise"
definition parse_pressure :: "cydev var_fn" where "parse_pressure = cy_parse True set_pressure"
definition parse_sensor_offset_x :: "cydev var_fn" where "parse_sensor_offset_x = cy_parse True set_sensor_offset_x"
definition parse_sensor_offset_y :: "cydev var_fn" where "parse_sensor_offset_y = cy_parse True set_sensor_offset_y"
definition parse_sensor_delta_x :: "cydev var_fn" where "parse_sensor_delta_x = cy_parse True set_sensor_delta_x"
definition parse_sensor_delta_y :: "cydev var_fn" where "parse_sensor_delta_y = cy_parse True set_sensor_delta_y"

lemmas cy_parse_defs =
  parse_scanrate_def parse_verbose_def parse_wot_scanrate_def parse_wot_threshold_def parse_sleepmode_def
  parse_timestamp_mode_def parse_gesture_height_def parse_noise_def parse_pressure_def parse_sensor_offset_x_def
  parse_sensor_offset_y_def parse_sensor_delta_x_def parse_sensor_delta_y_def

definition cy8mrln_palmpre_vars :: "cyhdr \<Rightarrow> cydev tslib_vars list" where
  "cy8mrln_palmpre_vars h =
     [\<lparr>var_name = ''scanrate'', var_data = 0, var_fun = parse_scanrate\<rparr>,
      \<lparr>var_name = ''verbose'', var_data = 0, var_fun = parse_verbose\<rparr>,
      \<lparr>var_name = ''wot_scanrate'', var_data = 0, var_fun = parse_wot_scanrate\<rparr>,
      \<lparr>var_name = ''wot_threshold'', var_data = 0, var_fun = parse_wot_threshold h\<rparr>,
      \<lparr>var_name = ''sleepmode'', var_data = 0, var_fun = parse_sleepmode\<rparr>,
      \<lparr>var_name = ''timestamp_mode'', var_data = 0, var_fun = parse_timestamp_mode\<rparr>,
      \<lparr>var_name = ''gesture_height'', var_data = 0, var_fun = parse_gesture_height\<rparr>,
      \<lparr>var_name = ''noise'', var_data = 0, var_fun = parse_noise\<rparr>,
      \<lparr>var_name = ''pressure'', var_data = 0, var_fun = parse_pressure\<rparr>,
      \<lparr>var_name = ''sensor_offset_x'', var_data = 0, var_fun = parse_sensor_offset_x\<rparr>,
      \<lparr>var_name = ''sensor_offset_y'', var_data = 0, var_fun = parse_sensor_offset_y\<rparr>,
      \<lparr>var_name = ''sensor_delta_x'', var_data = 0, var_fun = parse_sensor_delta_x\<rparr>,
      \<lparr>var_name = ''sensor_delta_y'', var_data = 0, var_fun = parse_sensor_delta_y\<rparr>]"

subsection \<open>Frames\<close>

text \<open>
  \<open>cy8mrln_palmpre_update_references\<close>: the two loops visit the elements of the two arrays in
  their order. A value out of range ends the loop, the elements before it are changed by then.
\<close>

definition cy_bad :: "16 word \<Rightarrow> bool" where
  "cy_bad v \<longleftrightarrow> v < 700 \<or> 1500 < v"

fun update_references :: "cyframe \<Rightarrow> cyframe \<Rightarrow> int \<times> cyframe \<times> cyframe" where
  "update_references (r # rs) (v # vs) =
     (if cy_bad v then (1, r # rs, v # vs)
      else
        (case update_references rs vs of (ret, rs', vs') \<Rightarrow>
           if r < v then (ret, v # rs', 0 # vs')
           else (ret, r # rs', (r - v) # vs')))"
| "update_references rs vs = (0, rs, vs)"

text \<open>The search for the largest value, row by row.\<close>

fun max_scan :: "cyframe \<Rightarrow> (nat \<times> nat) list \<Rightarrow> int \<times> nat \<times> nat \<Rightarrow> fault + (int \<times> nat \<times> nat)" where
  "max_scan fd [] best = Inr best"
| "max_scan fd ((y, x) # cells) (max_value, max_x, max_y) =
     (case arr_get fd (field_nr (int x) (int y)) of
        Inl e \<Rightarrow> Inl e
      | Inr tmp \<Rightarrow>
          if max_value < uint tmp then max_scan fd cells (uint tmp, x, y)
          else max_scan fd cells (max_value, max_x, max_y))"

definition cells :: "(nat \<times> nat) list" where
  "cells = List.product [0..<V_FIELDS] [0..<H_FIELDS]"

text \<open>
  \<open>cy8mrln_palmpre_interpolate\<close>. The quotient is computed in \<open>double\<close>, the rest in \<open>float\<close>. With
  \<open>tmpxy = 0\<close> the quotient is an infinity or not a number and the conversion to \<open>int\<close> is
  undefined.
\<close>

definition neighbour :: "cyframe \<Rightarrow> bool \<Rightarrow> int \<Rightarrow> int \<Rightarrow> int \<Rightarrow> fault + int" where
  "neighbour fd outside pressure tmpxy i =
     (if outside then Inr (s32 (pressure - tmpxy))
      else (case arr_get fd i of Inl e \<Rightarrow> Inl e | Inr v \<Rightarrow> Inr (uint v)))"

definition cy_shift :: "(rat \<Rightarrow> rat) \<Rightarrow> (rat \<Rightarrow> rat) \<Rightarrow> int \<Rightarrow> int \<Rightarrow> int \<Rightarrow> rat" where
  "cy_shift rnd rndd t3 t1 tmpxy =
     rnd (fdiv rndd (rnd (of_int (s32 (t3 - t1)))) (fmul rndd (rnd (of_int tmpxy)) (3 / 2)))"

definition interpolate ::
  "(rat \<Rightarrow> rat) \<Rightarrow> (rat \<Rightarrow> rat) \<Rightarrow> tslib_cy8mrln_palmpre \<Rightarrow> cyframe \<Rightarrow> int \<Rightarrow> int \<Rightarrow> fault + (int \<times> int)" where
  "interpolate rnd rndd m fd x y =
     (let posx = s32 (cy_sensor_delta_x m * x + cy_sensor_offset_x m);
          posy = s32 (cy_sensor_delta_y m * y + cy_sensor_offset_y m);
          nr = field_nr x y
      in bindr (arr_get fd nr) (\<lambda>v. let tmpxy = uint v; edge = cy_pressure m in
         bindr (neighbour fd (x = int H_FIELDS - 1) edge tmpxy (nr - 1)) (\<lambda>tmpx3.
         bindr (neighbour fd (x = 0) edge tmpxy (nr + 1)) (\<lambda>tmpx1.
         bindr (neighbour fd (y = int V_FIELDS - 1) edge tmpxy (nr + int H_FIELDS)) (\<lambda>tmpy3.
         bindr (neighbour fd (y = 0) edge tmpxy (nr - int H_FIELDS)) (\<lambda>tmpy1.
           if tmpxy = 0 then Inl ConvOverflow
           else
             (let fx = cy_shift rnd rndd tmpx3 tmpx1 tmpxy;
                  fy = cy_shift rnd rndd tmpy3 tmpy1 tmpxy
              in bindr (f2i (fadd rnd (rnd (of_int posx)) (fmul rnd fx (rnd (of_int (cy_sensor_delta_x m)))))) (\<lambda>ox.
                 bindr (f2i (fadd rnd (rnd (of_int posy)) (fmul rnd fy (rnd (of_int (cy_sensor_delta_y m)))))) (\<lambda>oy.
                   Inr (ox, oy))))))))))"

subsection \<open>The read\<close>

definition smp0 :: ts_sample where
  "smp0 = smp 0 0 0"

text \<open>
  A frame without noise has a touch: the sample goes to \<open>samp[0]\<close> and a copy of it to
  \<open>last_valid_samples\<close>, which is allocated if there is none (\<open>realloc\<close> of one that has another
  size keeps the number of blocks). The first frame with nothing but noise repeats the copy with
  pressure 0 and frees it.
\<close>

definition cy_touch ::
  "(rat \<Rightarrow> rat) \<Rightarrow> (rat \<Rightarrow> rat) \<Rightarrow> cyframe \<Rightarrow> int \<Rightarrow> int \<Rightarrow> int \<Rightarrow> ts_sample list \<Rightarrow> cydev \<Rightarrow>
   fault + (int \<times> ts_sample list \<times> cydev)" where
  "cy_touch rnd rndd fd max_value x y samp d =
     bindr (interpolate rnd rndd (cy_mod d) fd x y) (\<lambda>(ox, oy).
       bindr (arr_put 0 \<lparr>samp_x = ox, samp_y = oy, samp_pressure = word_of_int max_value,
                        samp_tv = cy_clock d (cy_tick d)\<rparr> samp) (\<lambda>samp'.
         let fresh = (cy_last_valid_samples (cy_mod d) = None) in
         if (fresh \<or> cy_last_n_valid_samples (cy_mod d) \<noteq> 1) \<and> \<not> cy_malloc_ok d then Inl NullDeref
         else Inr (1, samp', d\<lparr>cy_tick := cy_tick d + 1, cy_heap := cy_heap d + (if fresh then 1 else 0),
                cy_mod := (cy_mod d)\<lparr>cy_last_valid_samples := Some (take 1 samp'), cy_last_n_valid_samples := 1\<rparr>\<rparr>)))"

definition cy_release :: "ts_sample list \<Rightarrow> cydev \<Rightarrow> fault + (int \<times> ts_sample list \<times> cydev)" where
  "cy_release samp d =
     (case cy_last_valid_samples (cy_mod d) of
        None \<Rightarrow> Inr (0, samp, d)
      | Some saved \<Rightarrow>
          (let n = cy_last_n_valid_samples (cy_mod d) in
           if n < 0 \<or> int (length saved) < n then Inl OutOfBounds
           else
             bindr (arr_copy 0 (map (\<lambda>s. s\<lparr>samp_pressure := 0\<rparr>) (take (nat n) saved)) samp) (\<lambda>samp'.
               Inr (n, samp', d\<lparr>cy_heap := cy_heap d - 1,
                 cy_mod := (cy_mod d)\<lparr>cy_last_n_valid_samples := 0, cy_last_valid_samples := None\<rparr>\<rparr>))))"

text \<open>What is done with a frame, once \<open>read\<close> has delivered one.\<close>

definition cy_frame ::
  "(rat \<Rightarrow> rat) \<Rightarrow> (rat \<Rightarrow> rat) \<Rightarrow> cyframe \<Rightarrow> ts_sample list \<Rightarrow> cydev \<Rightarrow> fault + (int \<times> ts_sample list \<times> cydev)" where
  "cy_frame rnd rndd fd samp d =
     (case update_references (cy_references (cy_mod d)) fd of (asleep, refs, fd) \<Rightarrow>
        let d = d\<lparr>cy_mod := (cy_mod d)\<lparr>cy_references := refs\<rparr>\<rparr> in
        if asleep \<noteq> 0 then
          if cy_discard_frames (cy_mod d) = 0 then
            (let d = d\<lparr>cy_mod := (cy_mod d)\<lparr>cy_old_scanrate := cy_scanrate (cy_mod d)\<rparr>\<rparr>;
                 d = snd (set_scanrate ASLEEP_SCANRATE d)
             in Inr (0, samp, d\<lparr>cy_mod := (cy_mod d)\<lparr>cy_discard_frames := DISCARD_FRAMES\<rparr>\<rparr>))
          else Inr (0, samp, d)
        else
          (let d = (if cy_discard_frames (cy_mod d) = DISCARD_FRAMES
                    then snd (set_scanrate (cy_old_scanrate (cy_mod d)) d) else d)
           in
             if cy_discard_frames (cy_mod d) \<noteq> 0 then
               Inr (0, samp, d\<lparr>cy_mod := (cy_mod d)\<lparr>cy_discard_frames := s32 (cy_discard_frames (cy_mod d) - 1)\<rparr>\<rparr>)
             else
               bindr (max_scan fd cells (0, 0, 0)) (\<lambda>(max_value, max_x, max_y).
                 if cy_noise (cy_mod d) < max_value
                 then cy_touch rnd rndd fd max_value (int max_x) (int max_y) samp d
                 else cy_release samp d)))"

definition cy8mrln_palmpre_read :: "(rat \<Rightarrow> rat) \<Rightarrow> (rat \<Rightarrow> rat) \<Rightarrow> cydev reader" where
  "cy8mrln_palmpre_read rnd rndd = (\<lambda>(d, w) samp nr.
     if nr < 0 \<or> int (length samp) < nr then Inl OutOfBounds
     else
       (let samp = replicate (nat nr) smp0 @ drop (nat nr) samp in
        case cy_in d of
          [] \<Rightarrow> Inr (-1, samp, (d, w))
        | (ret, fd) # script \<Rightarrow>
            (let d = d\<lparr>cy_in := script\<rparr> in
             if 0 < ret then bindr (cy_frame rnd rndd fd samp d) (\<lambda>(r, samp', d'). Inr (r, samp', (d', w)))
             else Inr (-1, samp, (d, w)))))"

definition cy8mrln_palmpre_fini :: "cydev \<Rightarrow> int \<times> nat" where
  "cy8mrln_palmpre_fini d =
     (0, cy_heap d - (if cy_last_valid_samples (cy_mod d) \<noteq> None then 1 else 0) - 1)"

subsection \<open>The start\<close>

text \<open>
  The defaults, each of them sent to the driver; the results are not looked at. \<open>cy_initial\<close> is the
  struct after the first assignments, \<open>junk\<close> what \<open>malloc\<close> has returned.
\<close>

definition cy_initial :: "int \<Rightarrow> tslib_cy8mrln_palmpre \<Rightarrow> cydev \<Rightarrow> cydev" where
  "cy_initial fd junk d =
     d\<lparr>cy_mod := junk\<lparr>cy_moddev := Some fd, cy_last_valid_samples := None, cy_last_n_valid_samples := 0\<rparr>,
       cy_heap := cy_heap d + 1\<rparr>"

definition cy_defaults :: "cyhdr \<Rightarrow> cydev \<Rightarrow> cydev" where
  "cy_defaults h d0 =
     (let d = snd (set_verbose 0 d0);
          d = snd (set_scanrate 60 d);
          d = snd (set_timestamp_mode 1 d);
          d = snd (set_sleepmode (CY8MRLN_ON_STATE h) d);
          d = snd (set_wot_scanrate (WOT_SCANRATE_512HZ h) d);
          d = snd (set_wot_threshold h 22 d);
          d = snd (set_gesture_height 1 d);
          d = snd (set_noise 25 d);
          d = snd (set_pressure 60 d);
          d = snd (set_sensor_offset_x DEFAULT_SENSOR_OFFSET_X d);
          d = snd (set_sensor_offset_y DEFAULT_SENSOR_OFFSET_Y d);
          d = snd (set_sensor_delta_x DEFAULT_SENSOR_DELTA_X d);
          d = snd (set_sensor_delta_y DEFAULT_SENSOR_DELTA_Y d)
      in d\<lparr>cy_mod := (cy_mod d)\<lparr>cy_discard_frames := 0\<rparr>\<rparr>)"

text \<open>
  The loop that waits for the first frame. When the script is used up every further \<open>read\<close>
  returns 0 and the loop does not end: \<open>None\<close>.
\<close>

fun first_frame :: "(int \<times> cyframe) list \<Rightarrow> (cyframe \<times> (int \<times> cyframe) list) option" where
  "first_frame [] = None"
| "first_frame ((ret, fd) # script) = (if ret \<le> 0 then first_frame script else Some (fd, script))"

text \<open>\<open>Some (Inr (None, d))\<close>: the function returns NULL.\<close>

definition cy8mrln_palmpre_mod_init ::
  "cyhdr \<Rightarrow> int \<Rightarrow> tslib_cy8mrln_palmpre \<Rightarrow> string option \<Rightarrow> int \<Rightarrow> cydev \<Rightarrow>
   (fault + (unit option \<times> cydev)) option" where
  "cy8mrln_palmpre_mod_init h fd junk params errno d =
     (if \<not> cy_malloc_ok d then Some (Inr (None, d))
      else
        (case tslib_parse_vars (cy8mrln_palmpre_vars h) params (cy_defaults h (cy_initial fd junk d)) errno of
           Inl e \<Rightarrow> Some (Inl e)
         | Inr (d, ret, _) \<Rightarrow>
             if ret \<noteq> 0 then Some (Inr (None, d\<lparr>cy_heap := cy_heap d - 1\<rparr>))
             else
               (case first_frame (cy_in d) of
                  None \<Rightarrow> None
                | Some (field, script) \<Rightarrow>
                    Some (Inr (Some (), d\<lparr>cy_in := script, cy_mod := (cy_mod d)\<lparr>cy_references := field\<rparr>\<rparr>)))))"

subsection \<open>The references\<close>

lemma update_references_length:
  "update_references rs vs = (ret, rs', vs') \<Longrightarrow> length rs' = length rs"
  "update_references rs vs = (ret, rs', vs') \<Longrightarrow> length vs' = length vs"
  by (induction rs vs arbitrary: ret rs' vs' rule: update_references.induct)
    (auto split: if_splits prod.splits)

lemma update_references_good:
  assumes "length rs = length vs" "list_all (\<lambda>v. \<not> cy_bad v) vs"
  shows "update_references rs vs = (0, map2 max rs vs, map2 (\<lambda>r v. max r v - v) rs vs)"
  using assms
proof (induction rs vs rule: list_induct2)
  case (Cons r rs v vs)
  then have "update_references rs vs = (0, map2 max rs vs, map2 (\<lambda>r v. max r v - v) rs vs)" "\<not> cy_bad v" by simp_all
  then show ?case by (cases "r < v") (auto simp: max_def not_less dest: order.strict_implies_order)
qed simp

lemma update_references_bad:
  assumes "length rs = length vs" "\<not> list_all (\<lambda>v. \<not> cy_bad v) vs"
  shows "fst (update_references rs vs) = 1"
  using assms by (induction rs vs rule: list_induct2) (auto split: prod.splits)

lemma update_references_mono:
  "update_references rs vs = (ret, rs', vs') \<Longrightarrow> list_all2 (\<le>) rs rs'"
proof (induction rs vs arbitrary: ret rs' vs' rule: update_references.induct)
  case (1 r rs v vs)
  then show ?case by (cases "cy_bad v") (auto simp: list.rel_refl split: if_splits prod.splits)
qed (simp_all add: list.rel_refl)

subsection \<open>The fields\<close>

lemma field_nr_range:
  assumes "0 \<le> x" "x < 7" "0 \<le> y" "y < 11"
  shows "0 \<le> field_nr x y" "field_nr x y < 77"
  using assms by (simp_all add: field_nr_def H_FIELDS_def)

lemma field_nr_onto:
  assumes "i < 77"
  obtains x y where "x < 7" "y < 11" "nat (field_nr (int x) (int y)) = i"
proof (rule that [of "6 - i mod 7" "i div 7"])
  show "i div 7 < 11" using assms by simp
  have "i mod 7 \<le> 6" by simp
  then have "field_nr (int (6 - i mod 7)) (int (i div 7)) = int (i div 7 * 7 + i mod 7)"
    by (simp add: field_nr_def H_FIELDS_def of_nat_diff flip: of_nat_mod) presburger?
  then show "nat (field_nr (int (6 - i mod 7)) (int (i div 7))) = i" by (simp only: div_mult_mod_eq nat_int)
qed simp

lemma set_cells: "set cells = {(y, x). y < 11 \<and> x < 7}"
  by (auto simp: cells_def V_FIELDS_def H_FIELDS_def)

lemma max_scan_ok:
  assumes "length fd = 77" "\<forall>(y, x) \<in> set cs. y < 11 \<and> x < 7"
  shows "\<exists>mv mx my. max_scan fd cs (m, bx, b) = Inr (mv, mx, my) \<and> m \<le> mv \<and>
    (\<forall>(y, x) \<in> set cs. uint (fd ! nat (field_nr (int x) (int y))) \<le> mv) \<and>
    ((mv, mx, my) = (m, bx, b) \<or> (my, mx) \<in> set cs \<and> mv = uint (fd ! nat (field_nr (int mx) (int my))))"
  using assms(2)
proof (induction cs arbitrary: m bx b)
  case Nil
  then show ?case by simp
next
  case (Cons c cs)
  obtain y x where c: "c = (y, x)" by (cases c)
  let ?v = "fd ! nat (field_nr (int x) (int y))"
  have get: "arr_get fd (field_nr (int x) (int y)) = Inr ?v"
    using Cons.prems c field_nr_range [of "int x" "int y"] assms(1) by simp
  have cs: "\<forall>(y, x) \<in> set cs. y < 11 \<and> x < 7" using Cons.prems by simp
  show ?case
  proof (cases "m < uint ?v")
    case True
    from Cons.IH [OF cs, of "uint ?v" x y] obtain mv mx my where
      *: "max_scan fd cs (uint ?v, x, y) = Inr (mv, mx, my)" "uint ?v \<le> mv"
        "\<forall>(y, x) \<in> set cs. uint (fd ! nat (field_nr (int x) (int y))) \<le> mv"
        "(mv, mx, my) = (uint ?v, x, y) \<or> (my, mx) \<in> set cs \<and> mv = uint (fd ! nat (field_nr (int mx) (int my)))"
      by blast
    then show ?thesis using True by (intro exI [of _ mv] exI [of _ mx] exI [of _ my]) (auto simp: c get)
  next
    case False
    from Cons.IH [OF cs, of m bx b] obtain mv mx my where
      *: "max_scan fd cs (m, bx, b) = Inr (mv, mx, my)" "m \<le> mv"
        "\<forall>(y, x) \<in> set cs. uint (fd ! nat (field_nr (int x) (int y))) \<le> mv"
        "(mv, mx, my) = (m, bx, b) \<or> (my, mx) \<in> set cs \<and> mv = uint (fd ! nat (field_nr (int mx) (int my)))"
      by blast
    then show ?thesis using False by (intro exI [of _ mv] exI [of _ mx] exI [of _ my]) (auto simp: c get)
  qed
qed

text \<open>The search finds the largest value, and a field that has it.\<close>

lemma max_scan_cells:
  assumes "length fd = 77"
  obtains mv mx my where "max_scan fd cells (0, 0, 0) = Inr (mv, mx, my)" "mx < 7" "my < 11"
    "\<forall>i<77. uint (fd ! i) \<le> mv" "mv = uint (fd ! nat (field_nr (int mx) (int my)))"
proof -
  from max_scan_ok [OF assms, of cells 0 0 0] obtain mv mx my where
    s: "max_scan fd cells (0, 0, 0) = Inr (mv, mx, my)" "0 \<le> mv"
      "\<And>y x. y < 11 \<Longrightarrow> x < 7 \<Longrightarrow> uint (fd ! nat (field_nr (int x) (int y))) \<le> mv"
      "(mv, mx, my) = (0, 0, 0) \<or> (my < 11 \<and> mx < 7) \<and> mv = uint (fd ! nat (field_nr (int mx) (int my)))"
    by (fastforce simp: set_cells)
  have all: "uint (fd ! i) \<le> mv" if "i < 77" for i
    using that s(3) by (rule_tac field_nr_onto [OF that]) auto
  have "mv = uint (fd ! nat (field_nr (int mx) (int my)))" "mx < 7" "my < 11"
    using s(3) [of 0 0] s(4) by (auto intro: antisym)
  with s(1) all show thesis by (intro that) auto
qed

subsection \<open>The interpolation\<close>

text \<open>
  What the position needs of \<open>float\<close> and \<open>double\<close>: a result in their range is at most twice as large
  as the exact value, and small integers and halves are represented exactly.
\<close>

definition float_ok :: "(rat \<Rightarrow> rat) \<Rightarrow> (rat \<Rightarrow> rat) \<Rightarrow> bool" where
  "float_ok rnd rndd \<longleftrightarrow>
     (\<forall>q. \<bar>q\<bar> \<le> 2 ^ 100 \<longrightarrow> \<bar>rnd q\<bar> \<le> 2 * \<bar>q\<bar>) \<and> (\<forall>q. \<bar>q\<bar> \<le> 2 ^ 100 \<longrightarrow> \<bar>rndd q\<bar> \<le> 2 * \<bar>q\<bar>) \<and>
     (\<forall>k::int. \<bar>k\<bar> \<le> 2 ^ 24 \<longrightarrow> rnd (of_int k) = of_int k) \<and>
     (\<forall>k::int. \<bar>k\<bar> \<le> 2 ^ 24 \<longrightarrow> rndd (of_int k / 2) = of_int k / 2)"

lemma float_okD:
  assumes "float_ok rnd rndd"
  shows "\<bar>q\<bar> \<le> 2 ^ 100 \<Longrightarrow> \<bar>rnd q\<bar> \<le> 2 * \<bar>q\<bar>" "\<bar>q\<bar> \<le> 2 ^ 100 \<Longrightarrow> \<bar>rndd q\<bar> \<le> 2 * \<bar>q\<bar>"
    "\<bar>k\<bar> \<le> 2 ^ 24 \<Longrightarrow> rnd (of_int k) = of_int k" "\<bar>k\<bar> \<le> 2 ^ 24 \<Longrightarrow> rndd (of_int k / 2) = of_int k / 2"
  using assms by (simp_all add: float_ok_def)

lemma float_ok_twice:
  assumes "float_ok rnd rndd" "\<bar>q\<bar> \<le> B" "B \<le> 2 ^ 100"
  shows "\<bar>rnd q\<bar> \<le> 2 * B" "\<bar>rndd q\<bar> \<le> 2 * B"
  using float_okD(1,2) [OF assms(1), of q] assms(2,3) by linarith+

lemma float_ok_exact: "float_ok exact exact"
  by (simp add: float_ok_def exact_def)

text \<open>Settings of a real screen; the defaults are far inside.\<close>

definition cy_small :: "tslib_cy8mrln_palmpre \<Rightarrow> bool" where
  "cy_small m \<longleftrightarrow> \<bar>cy_sensor_delta_x m\<bar> \<le> 500 \<and> \<bar>cy_sensor_delta_y m\<bar> \<le> 500 \<and>
     \<bar>cy_sensor_offset_x m\<bar> \<le> 1000000 \<and> \<bar>cy_sensor_offset_y m\<bar> \<le> 1000000 \<and> \<bar>cy_pressure m\<bar> \<le> 100000"

lemma uint16_bounds: "0 \<le> uint (v :: 16 word)" "uint (v :: 16 word) \<le> 65535"
  using uint_bounded [of v] by simp_all

lemma neighbour_ok:
  assumes "outside \<or> (0 \<le> i \<and> i < int (length fd))" "\<bar>p\<bar> \<le> 100000" "0 \<le> t" "t \<le> 65535"
  shows "\<exists>v. neighbour fd outside p t i = Inr v \<and> \<bar>v\<bar> \<le> 165535"
proof (cases outside)
  case True
  have "in_s32 (p - t)" using assms(2-4) by (intro in_s32_small) linarith
  with True assms(2-4) show ?thesis by (simp add: neighbour_def s32_id)
next
  case False
  with assms(1) uint16_bounds [of "fd ! nat i"] show ?thesis by (simp add: neighbour_def)
qed

lemma cy_shift_bound:
  assumes "float_ok rnd rndd" "\<bar>t3\<bar> \<le> 165535" "\<bar>t1\<bar> \<le> 165535" "1 \<le> t" "t \<le> 65535"
  shows "\<bar>cy_shift rnd rndd t3 t1 t\<bar> \<le> 882854"
proof -
  note f = float_okD [OF assms(1)]
  have t31: "\<bar>t3 - t1\<bar> \<le> 331070" using assms(2,3) by linarith
  then have num: "rnd (of_int (s32 (t3 - t1))) = of_int (t3 - t1)" using f(3) [of "t3 - t1"] by (simp add: s32_id)
  have den: "fmul rndd (rnd (of_int t)) (3 / 2) = of_int t * (3 / 2)"
    using f(3) [of t] f(4) [of "3 * t"] assms(4,5) by (simp add: fmul_def mult.commute)
  let ?q = "(of_int (t3 - t1) :: rat) / (of_int t * (3 / 2))"
  have n: "\<bar>of_int (t3 - t1) :: rat\<bar> \<le> 331070" using t31 by (metis of_int_abs of_int_le_numeral_iff)
  have d: "(3 / 2 :: rat) \<le> of_int t * (3 / 2)" using assms(4) by simp
  have "\<bar>?q\<bar> = \<bar>of_int (t3 - t1)\<bar> / (of_int t * (3 / 2))"
    using assms(4) by (simp only: abs_divide abs_mult, simp?)
  also have "\<dots> \<le> 331070 / (3 / 2)" using n d by (intro frac_le) auto
  finally have q: "\<bar>?q\<bar> \<le> 662140 / 3" by simp
  then have r: "\<bar>rndd ?q\<bar> \<le> 1324280 / 3" using float_ok_twice(2) [OF assms(1) q] by simp
  then have "\<bar>rnd (rndd ?q)\<bar> \<le> 2648560 / 3" using float_ok_twice(1) [OF assms(1) r] by simp
  then show ?thesis by (simp add: cy_shift_def num den fdiv_def)
qed

lemma cy_position_ok:
  assumes "float_ok rnd rndd" "\<bar>s\<bar> \<le> 882854" "\<bar>pos\<bar> \<le> 1010000" "\<bar>dl\<bar> \<le> 500"
  shows "\<exists>v. f2i (fadd rnd (rnd (of_int pos)) (fmul rnd s (rnd (of_int dl)))) = Inr v"
proof -
  note f = float_okD [OF assms(1)]
  have e: "rnd (of_int pos) = of_int pos" "rnd (of_int dl) = of_int dl" using f(3) assms(3,4) by simp_all
  have p: "\<bar>of_int pos :: rat\<bar> \<le> 1010000" using assms(3) by (metis of_int_abs of_int_le_numeral_iff)
  have "\<bar>of_int dl :: rat\<bar> \<le> 500" using assms(4) by (metis of_int_abs of_int_le_numeral_iff)
  with assms(2) have "\<bar>s * of_int dl\<bar> \<le> 882854 * 500" by (simp only: abs_mult) (intro mult_mono, auto)
  then have "\<bar>rnd (s * of_int dl)\<bar> \<le> 882854000" using f(1) [of "s * of_int dl"] by simp
  with p have t: "\<bar>of_int pos + rnd (s * of_int dl)\<bar> \<le> 883864000" by linarith
  then have "\<bar>rnd (of_int pos + rnd (s * of_int dl))\<bar> \<le> 1767728000" (is "\<bar>?r\<bar> \<le> _")
    using f(1) [of "of_int pos + rnd (s * of_int dl)"] by simp
  then have "\<bar>trunc ?r\<bar> \<le> 1767728001" 
    unfolding trunc_def by (cases "0 \<le> ?r"; simp only: if_True if_False; linarith)
  then have "in_s32 (trunc ?r)" by (intro in_s32_small) linarith
  then show ?thesis by (simp add: e fadd_def fmul_def f2i_def)
qed

lemma interpolate_ok:
  assumes "float_ok rnd rndd" "cy_small m" "length fd = 77" "x < 7" "y < 11"
    "0 < uint (fd ! nat (field_nr (int x) (int y)))"
  shows "\<exists>ox oy. interpolate rnd rndd m fd (int x) (int y) = Inr (ox, oy)"
proof -
  let ?n = "field_nr (int x) (int y)"
  define t where "t = uint (fd ! nat ?n)"
  have get: "arr_get fd ?n = Inr (fd ! nat ?n)"
    using field_nr_range [of "int x" "int y"] assms(3-5) by simp
  have t: "1 \<le> t" "0 \<le> t" "t \<le> 65535" "t \<noteq> 0" using assms(6) uint16_bounds [of "fd ! nat ?n"] by (auto simp: t_def)
  have p: "\<bar>cy_pressure m\<bar> \<le> 100000" using assms(2) by (simp add: cy_small_def)
  have "int x < 7" "int y < 11" using assms(4,5) by simp_all
  then have r: "int x = int H_FIELDS - 1 \<or> 0 \<le> ?n - 1 \<and> ?n - 1 < int (length fd)"
      "int x = 0 \<or> 0 \<le> ?n + 1 \<and> ?n + 1 < int (length fd)"
      "int y = int V_FIELDS - 1 \<or> 0 \<le> ?n + int H_FIELDS \<and> ?n + int H_FIELDS < int (length fd)"
      "int y = 0 \<or> 0 \<le> ?n - int H_FIELDS \<and> ?n - int H_FIELDS < int (length fd)"
    using assms(3) unfolding field_nr_def H_FIELDS_def V_FIELDS_def by (simp_all, arith+)
  note nb = neighbour_ok [OF _ p t(2,3)]
  obtain a where a: "neighbour fd (int x = int H_FIELDS - 1) (cy_pressure m) t (?n - 1) = Inr a" "\<bar>a\<bar> \<le> 165535"
    using nb [OF r(1)] by blast
  obtain b where b: "neighbour fd (int x = 0) (cy_pressure m) t (?n + 1) = Inr b" "\<bar>b\<bar> \<le> 165535"
    using nb [OF r(2)] by blast
  obtain c where c: "neighbour fd (int y = int V_FIELDS - 1) (cy_pressure m) t (?n + int H_FIELDS) = Inr c" "\<bar>c\<bar> \<le> 165535"
    using nb [OF r(3)] by blast
  obtain e where e: "neighbour fd (int y = 0) (cy_pressure m) t (?n - int H_FIELDS) = Inr e" "\<bar>e\<bar> \<le> 165535"
    using nb [OF r(4)] by blast
  have pos: "\<bar>s32 (dl * k + off)\<bar> \<le> 1010000" if "\<bar>dl\<bar> \<le> 500" "\<bar>off\<bar> \<le> 1000000" "0 \<le> k" "k \<le> 10" for dl k off
  proof -
    have "\<bar>dl * k\<bar> \<le> 500 * 10" unfolding abs_mult using that by (intro mult_mono) auto
    with that have "\<bar>dl * k + off\<bar> \<le> 1010000" by linarith
    then show ?thesis by (simp add: s32_id)
  qed
  obtain ox where "f2i (fadd rnd (rnd (of_int (s32 (cy_sensor_delta_x m * int x + cy_sensor_offset_x m))))
      (fmul rnd (cy_shift rnd rndd a b t) (rnd (of_int (cy_sensor_delta_x m))))) = Inr ox"
    using cy_position_ok [OF assms(1) cy_shift_bound [OF assms(1) a(2) b(2) t(1,3)] pos, of "cy_sensor_delta_x m" "cy_sensor_offset_x m" "int x" "cy_sensor_delta_x m"] assms(2,4)
    by (auto simp: cy_small_def)
  moreover obtain oy where "f2i (fadd rnd (rnd (of_int (s32 (cy_sensor_delta_y m * int y + cy_sensor_offset_y m))))
      (fmul rnd (cy_shift rnd rndd c e t) (rnd (of_int (cy_sensor_delta_y m))))) = Inr oy"
    using cy_position_ok [OF assms(1) cy_shift_bound [OF assms(1) c(2) e(2) t(1,3)] pos, of "cy_sensor_delta_y m" "cy_sensor_offset_y m" "int y" "cy_sensor_delta_y m"] assms(2,5)
    by (auto simp: cy_small_def)
  ultimately show ?thesis
    by (simp only: interpolate_def Let_def get bindr_simps t_def [symmetric] a b c e t if_False) simp
qed

text \<open>
  In exact arithmetic: the shift is at most two thirds of the distance of the fields when no neighbour
  is larger, and cutting off the fraction adds less than one.
\<close>

lemma exact_position_near:
  assumes "0 \<le> a" "a \<le> t" "0 \<le> b" "b \<le> t" "0 < t" "t \<le> 65535" "0 \<le> k" "k \<le> 10" "\<bar>dl\<bar> \<le> 500" "\<bar>off\<bar> \<le> 1000000"
  shows "\<exists>v. f2i (fadd exact (exact (of_int (s32 (dl * k + off)))) (fmul exact (cy_shift exact exact a b t) (exact (of_int dl)))) = Inr v \<and>
    3 * \<bar>v - (dl * k + off)\<bar> \<le> 2 * \<bar>dl\<bar> + 2"
proof -
  have "\<bar>dl * k\<bar> \<le> 500 * 10" unfolding abs_mult using assms by (intro mult_mono) auto
  then have pos: "\<bar>dl * k + off\<bar> \<le> 1005000" using assms(10) by linarith
  have "in_s32 (a - b)" using assms(1-6) by (intro in_s32_small) linarith
  then have sh: "cy_shift exact exact a b t = of_int (a - b) / (of_int t * (3 / 2))"
    by (simp only: cy_shift_def exact_simps s32_id)
  have "\<bar>of_int (a - b) :: rat\<bar> \<le> of_int t" using assms(1-4) by linarith
  then have "\<bar>of_int (a - b) :: rat\<bar> / (of_int t * (3 / 2)) \<le> of_int t / (of_int t * (3 / 2))"
    using assms(5) by (intro divide_right_mono) auto
  moreover have "\<bar>cy_shift exact exact a b t\<bar> = \<bar>of_int (a - b)\<bar> / (of_int t * (3 / 2))"
    using assms(5) by (simp only: sh abs_divide abs_mult, simp?)
  moreover have "(of_int t :: rat) / (of_int t * (3 / 2)) = 2 / 3" using assms(5) by simp
  ultimately have "\<bar>cy_shift exact exact a b t\<bar> \<le> 2 / 3" by linarith
  then have "\<bar>cy_shift exact exact a b t * of_int dl\<bar> \<le> 2 / 3 * of_int \<bar>dl\<bar>" (is "\<bar>?e\<bar> \<le> _")
    unfolding abs_mult of_int_abs by (intro mult_right_mono) auto
  then have e: "3 * \<bar>?e\<bar> \<le> 2 * of_int \<bar>dl\<bar>" by linarith
  define r where "r = of_int (dl * k + off) + ?e"
  have tr: "\<bar>of_int (trunc r) - r\<bar> < 1" unfolding trunc_def by (cases "0 \<le> r"; simp only: if_True if_False; linarith)
  have "\<bar>of_int (trunc r) - of_int (dl * k + off)\<bar> \<le> \<bar>of_int (trunc r) - r\<bar> + \<bar>?e\<bar>" unfolding r_def by linarith
  moreover have "3 * u < 2 * A + 3" if "u \<le> z + w" "z < 1" "3 * w \<le> 2 * A" for u z w A :: rat using that by linarith
  ultimately have "3 * \<bar>of_int (trunc r) - of_int (dl * k + off) :: rat\<bar> < 2 * of_int \<bar>dl\<bar> + 3" using tr e by blast
  then have "of_int (3 * \<bar>trunc r - (dl * k + off)\<bar>) < (of_int (2 * \<bar>dl\<bar> + 3) :: rat)" by simp
  then have near: "3 * \<bar>trunc r - (dl * k + off)\<bar> < 2 * \<bar>dl\<bar> + 3" by (simp only: of_int_less_iff)
  have "\<bar>u\<bar> \<le> 2147483647" if u: "3 * \<bar>u - p\<bar> < 2 * \<bar>dl\<bar> + 3" "\<bar>p\<bar> \<le> 1005000" for u p
  proof -
    have "\<bar>u - p\<bar> \<le> 335" using u(1) assms(9) by presburger
    then show ?thesis using u(2) by linarith
  qed
  then have "in_s32 (trunc r)" using near pos by (blast intro: in_s32_small)
  moreover have "f2i (fadd exact (exact (of_int (s32 (dl * k + off)))) (fmul exact (cy_shift exact exact a b t) (exact (of_int dl)))) = f2i r"
    using pos by (simp add: r_def exact_simps s32_id)
  ultimately show ?thesis using near by (simp add: f2i_def)
qed

subsection \<open>The pen\<close>

text \<open>
  The pen as the callers see it: up, or down with the sample reported last. A sample with pressure
  puts it down or moves it; a sample without pressure lifts it and repeats the position.
\<close>

inductive pen_run :: "ts_sample option \<Rightarrow> ts_sample list \<Rightarrow> ts_sample option \<Rightarrow> bool" where
  pen_quiet: "pen_run p [] p"
| pen_press: "samp_pressure s \<noteq> 0 \<Longrightarrow> pen_run (Some s) ss p' \<Longrightarrow> pen_run p (s # ss) p'"
| pen_release: "pen_run None ss p' \<Longrightarrow> pen_run (Some q) (q\<lparr>samp_pressure := 0\<rparr> # ss) p'"

inductive_simps pen_run_simps: "pen_run p [] p'" "pen_run p (s # ss) p'"

lemma pen_run_append: "pen_run p xs q \<Longrightarrow> pen_run q ys r \<Longrightarrow> pen_run p (xs @ ys) r"
  by (induction rule: pen_run.induct) (auto intro: pen_run.intros)

definition pen :: "cydev \<Rightarrow> ts_sample option" where
  "pen d = map_option hd (cy_last_valid_samples (cy_mod d))"

text \<open>The invariant of the module; frames have the size of the struct.\<close>

definition cy_inv :: "cydev \<Rightarrow> bool" where
  "cy_inv d \<longleftrightarrow>
     length (cy_references (cy_mod d)) = 77 \<and> list_all (\<lambda>(ret, fd). length fd = 77) (cy_in d) \<and>
     0 \<le> cy_noise (cy_mod d) \<and> 0 \<le> cy_discard_frames (cy_mod d) \<and> cy_discard_frames (cy_mod d) \<le> 5 \<and>
     cy_small (cy_mod d) \<and> cy_malloc_ok d \<and>
     (case cy_last_valid_samples (cy_mod d) of
        None \<Rightarrow> cy_last_n_valid_samples (cy_mod d) = 0 \<and> cy_heap d = 1
      | Some saved \<Rightarrow> length saved = 1 \<and> cy_last_n_valid_samples (cy_mod d) = 1 \<and> cy_heap d = 2)"

lemma set_scanrate_keeps [simp]:
  "cy_inv (snd (set_scanrate r d)) = cy_inv d" "pen (snd (set_scanrate r d)) = pen d"
  "cy_in (snd (set_scanrate r d)) = cy_in d" "cy_discard_frames (cy_mod (snd (set_scanrate r d))) = cy_discard_frames (cy_mod d)"
  "cy_noise (cy_mod (snd (set_scanrate r d))) = cy_noise (cy_mod d)"
  "cy_moddev (cy_mod (snd (set_scanrate r d))) = cy_moddev (cy_mod d)"
  "cy_references (cy_mod (snd (set_scanrate r d))) = cy_references (cy_mod d)"
  "cy_old_scanrate (cy_mod (snd (set_scanrate r d))) = cy_old_scanrate (cy_mod d)"
  "cy_answer (snd (set_scanrate r d)) = cy_answer d"
  by (simp_all add: cy_set_defs cy_inv_def pen_def cy_small_def split: option.split)

lemma cy_inv_keeps:
  assumes "cy_inv d"
  shows "length refs = 77 \<Longrightarrow> cy_inv (d\<lparr>cy_mod := (cy_mod d)\<lparr>cy_references := refs\<rparr>\<rparr>)"
    "cy_inv (d\<lparr>cy_mod := (cy_mod d)\<lparr>cy_old_scanrate := r\<rparr>\<rparr>)"
    "0 \<le> k \<Longrightarrow> k \<le> 5 \<Longrightarrow> cy_inv (d\<lparr>cy_mod := (cy_mod d)\<lparr>cy_discard_frames := k\<rparr>\<rparr>)"
    "cy_in d = x # script \<Longrightarrow> cy_inv (d\<lparr>cy_in := script\<rparr>)"
  using assms by (simp_all add: cy_inv_def cy_small_def split: option.splits)

lemma pen_keeps [simp]:
  "pen (d\<lparr>cy_mod := (cy_mod d)\<lparr>cy_references := refs\<rparr>\<rparr>) = pen d"
  "pen (d\<lparr>cy_mod := (cy_mod d)\<lparr>cy_old_scanrate := r\<rparr>\<rparr>) = pen d"
  "pen (d\<lparr>cy_mod := (cy_mod d)\<lparr>cy_discard_frames := k\<rparr>\<rparr>) = pen d"
  "pen (d\<lparr>cy_in := script\<rparr>) = pen d"
  by (simp_all add: pen_def)

text \<open>The two ways a frame ends in a sample.\<close>

definition reports :: "cydev \<Rightarrow> ts_sample list \<Rightarrow> fault + (int \<times> ts_sample list \<times> cydev) \<Rightarrow> bool" where
  "reports d samp r \<longleftrightarrow>
     (\<exists>out d'. r = Inr (int (length out), out @ drop (length out) samp, d') \<and> length out \<le> 1 \<and>
        pen_run (pen d) out (pen d') \<and> cy_inv d')"

lemma cy_release_reports:
  assumes "cy_inv d" "samp \<noteq> []"
  shows "reports d samp (cy_release samp d)"
proof (cases "cy_last_valid_samples (cy_mod d)")
  case None
  with assms(1) show ?thesis
    unfolding reports_def by (intro exI [of _ "[]"] exI [of _ d]) (simp add: cy_release_def pen_run.intros)
next
  case (Some saved)
  then obtain q where q: "saved = [q]" "cy_last_n_valid_samples (cy_mod d) = 1" "pen d = Some q"
    using assms(1) by (cases saved) (auto simp: cy_inv_def pen_def)
  have "arr_copy 0 [q\<lparr>samp_pressure := 0\<rparr>] samp = Inr (q\<lparr>samp_pressure := 0\<rparr> # drop 1 samp)"
    using assms(2) by (cases samp) (simp_all add: arr_copy_def blit_def)
  moreover have "cy_inv (d\<lparr>cy_heap := cy_heap d - 1,
      cy_mod := (cy_mod d)\<lparr>cy_last_n_valid_samples := 0, cy_last_valid_samples := None\<rparr>\<rparr>)"
    using assms(1) Some by (simp add: cy_inv_def cy_small_def)
  ultimately show ?thesis
    unfolding reports_def using Some q
    by (intro exI [of _ "[q\<lparr>samp_pressure := 0\<rparr>]"] exI) (auto simp: cy_release_def pen_def pen_run.intros)
qed

lemma word32_of_uint16_pos: "0 < uint (v :: 16 word) \<Longrightarrow> (word_of_int (uint v) :: 32 word) \<noteq> 0"
proof -
  assume v: "0 < uint v"
  have "uint (word_of_int (uint v) :: 32 word) = uint v"
    using uint16_bounds [of v] by (simp only: uint_word_of_int) simp
  with v show ?thesis by auto
qed

lemma cy_touch_reports:
  assumes "cy_inv d" "samp \<noteq> []" "float_ok rnd rndd" "length fd = 77" "x < 7" "y < 11"
    "mv = uint (fd ! nat (field_nr (int x) (int y)))" "0 < mv"
  shows "reports d samp (cy_touch rnd rndd fd mv (int x) (int y) samp d)"
proof -
  obtain ox oy where xy: "interpolate rnd rndd (cy_mod d) fd (int x) (int y) = Inr (ox, oy)"
    using interpolate_ok [OF assms(3) _ assms(4-6), of "cy_mod d"] assms(1,7,8) by (auto simp: cy_inv_def)
  define s where "s = \<lparr>samp_x = ox, samp_y = oy, samp_pressure = word_of_int mv, samp_tv = cy_clock d (cy_tick d)\<rparr>"
  have p: "samp_pressure s \<noteq> 0" using word32_of_uint16_pos assms(7,8) by (simp add: s_def)
  have put: "arr_put 0 s samp = Inr (s # drop 1 samp)" using assms(2) by (cases samp) (simp_all add: arr_put_def)
  let ?d = "d\<lparr>cy_tick := cy_tick d + 1, cy_heap := cy_heap d + (if cy_last_valid_samples (cy_mod d) = None then 1 else 0),
    cy_mod := (cy_mod d)\<lparr>cy_last_valid_samples := Some [s], cy_last_n_valid_samples := 1\<rparr>\<rparr>"
  have "cy_touch rnd rndd fd mv (int x) (int y) samp d = Inr (1, s # drop 1 samp, ?d)"
    using assms(1) by (simp add: cy_touch_def xy s_def [symmetric] put Let_def cy_inv_def)
  moreover have "cy_inv ?d" using assms(1) by (auto simp: cy_inv_def cy_small_def split: option.splits)
  ultimately show ?thesis
    unfolding reports_def using p by (intro exI [of _ "[s]"] exI [of _ ?d]) (simp add: pen_def pen_run.intros)
qed

lemma cy_frame_reports:
  assumes "cy_inv d" "samp \<noteq> []" "float_ok rnd rndd" "length fd = 77"
  shows "reports d samp (cy_frame rnd rndd fd samp d)"
proof -
  obtain asleep refs fd' where u: "update_references (cy_references (cy_mod d)) fd = (asleep, refs, fd')"
    by (rule prod_cases3)
  have len: "length refs = 77" "length fd' = 77"
    using update_references_length [OF u] assms(1,4) by (simp_all add: cy_inv_def)
  define d1 where "d1 = d\<lparr>cy_mod := (cy_mod d)\<lparr>cy_references := refs\<rparr>\<rparr>"
  have d1: "cy_inv d1" "pen d1 = pen d" using cy_inv_keeps(1) [OF assms(1) len(1)] by (simp_all add: d1_def)
  then have k: "0 \<le> cy_discard_frames (cy_mod d1)" "cy_discard_frames (cy_mod d1) \<le> 5" "0 \<le> cy_noise (cy_mod d1)"
    by (simp_all add: cy_inv_def)
  define d2 where "d2 = snd (set_scanrate ASLEEP_SCANRATE (d1\<lparr>cy_mod := (cy_mod d1)\<lparr>cy_old_scanrate := cy_scanrate (cy_mod d1)\<rparr>\<rparr>))"
  have d2: "cy_inv d2" "pen d2 = pen d" using d1 cy_inv_keeps(2) by (simp_all add: d2_def)
  define d3 where "d3 = (if cy_discard_frames (cy_mod d1) = DISCARD_FRAMES
      then snd (set_scanrate (cy_old_scanrate (cy_mod d1)) d1) else d1)"
  have d3: "cy_inv d3" "pen d3 = pen d" "cy_discard_frames (cy_mod d3) = cy_discard_frames (cy_mod d1)" "0 \<le> cy_noise (cy_mod d3)"
    using d1 k by (simp_all add: d3_def)
  have quiet: "reports d samp (Inr (0, samp, d'))" if "cy_inv d'" "pen d' = pen d" for d'
    using that unfolding reports_def by (intro exI [of _ "[]"] exI [of _ d']) (simp add: pen_run.intros)
  obtain mv mx my where m: "max_scan fd' cells (0, 0, 0) = Inr (mv, mx, my)" "mx < 7" "my < 11"
    "\<forall>i<77. uint (fd' ! i) \<le> mv" "mv = uint (fd' ! nat (field_nr (int mx) (int my)))"
    by (rule max_scan_cells [OF len(2)])
  have rep: "reports d samp r" if "reports d3 samp r" for r
    using that d3(2) by (simp add: reports_def)
  have eq: "cy_frame rnd rndd fd samp d =
      (if asleep \<noteq> 0 then
         if cy_discard_frames (cy_mod d1) = 0 then Inr (0, samp, d2\<lparr>cy_mod := (cy_mod d2)\<lparr>cy_discard_frames := DISCARD_FRAMES\<rparr>\<rparr>)
         else Inr (0, samp, d1)
       else if cy_discard_frames (cy_mod d3) \<noteq> 0 then
         Inr (0, samp, d3\<lparr>cy_mod := (cy_mod d3)\<lparr>cy_discard_frames := s32 (cy_discard_frames (cy_mod d3) - 1)\<rparr>\<rparr>)
       else if cy_noise (cy_mod d3) < mv then cy_touch rnd rndd fd' mv (int mx) (int my) samp d3
       else cy_release samp d3)"
    by (simp only: cy_frame_def u prod.case Let_def d1_def d2_def d3_def m(1) bindr_simps)
  consider (sleep) "asleep \<noteq> 0" "cy_discard_frames (cy_mod d1) = 0" | (asleep) "asleep \<noteq> 0" "cy_discard_frames (cy_mod d1) \<noteq> 0"
    | (wake) "asleep = 0" "cy_discard_frames (cy_mod d1) \<noteq> 0" | (awake) "asleep = 0" "cy_discard_frames (cy_mod d1) = 0" by blast
  then show ?thesis
  proof cases
    case sleep
    then show ?thesis
      using cy_inv_keeps(3) [OF d2(1), of 5] d2(2) by (simp add: eq quiet DISCARD_FRAMES_def)
  next
    case asleep
    then show ?thesis by (simp add: eq quiet d1)
  next
    case wake
    then have "s32 (cy_discard_frames (cy_mod d1) - 1) = cy_discard_frames (cy_mod d1) - 1"
      using k by (intro s32_id in_s32_small) linarith
    with wake k d3 cy_inv_keeps(3) [OF d3(1), of "cy_discard_frames (cy_mod d1) - 1"] show ?thesis
      by (simp add: eq quiet)
  next
    case awake
    then show ?thesis
      using cy_touch_reports [OF d3(1) assms(2,3) len(2) m(2,3,5)] cy_release_reports [OF d3(1) assms(2)] d3(3,4)
      by (simp add: eq rep)
  qed
qed

text \<open>A caller that asks for one sample again and again, and all the samples it gets.\<close>

fun cy_reads ::
  "(rat \<Rightarrow> rat) \<Rightarrow> (rat \<Rightarrow> rat) \<Rightarrow> nat \<Rightarrow> cydev \<times> world \<Rightarrow> fault + (ts_sample list \<times> (cydev \<times> world))" where
  "cy_reads rnd rndd 0 s = Inr ([], s)"
| "cy_reads rnd rndd (Suc n) s =
     bindr (cy8mrln_palmpre_read rnd rndd s [smp0] 1) (\<lambda>(ret, buf, s').
       bindr (cy_reads rnd rndd n s') (\<lambda>(out, s''). Inr (take (nat ret) buf @ out, s'')))"

lemma cy_read_one:
  assumes "cy_inv d" "float_ok rnd rndd"
  shows "\<exists>ret buf d'. cy8mrln_palmpre_read rnd rndd (d, w) [smp0] 1 = Inr (ret, buf, (d', w)) \<and>
    pen_run (pen d) (take (nat ret) buf) (pen d') \<and> cy_inv d'"
proof (cases "cy_in d")
  case Nil
  with assms show ?thesis by (auto simp: cy8mrln_palmpre_read_def pen_run.intros)
next
  case (Cons a script)
  obtain r fd where a: "a = (r, fd)" by (cases a)
  let ?d = "d\<lparr>cy_in := script\<rparr>"
  have inv: "cy_inv ?d" and len: "length fd = 77"
    using cy_inv_keeps(4) [OF assms(1) Cons] assms(1) by (simp_all add: cy_inv_def Cons a)
  from cy_frame_reports [OF inv _ assms(2) len, of "[smp0]"] obtain out d' where
    o: "cy_frame rnd rndd fd [smp0] ?d = Inr (int (length out), out @ drop (length out) [smp0], d')" "length out \<le> 1"
      "pen_run (pen d) out (pen d')" "cy_inv d'"
    unfolding reports_def by auto
  then show ?thesis using inv by (auto simp: cy8mrln_palmpre_read_def Cons a Let_def pen_run.intros)
qed

subsection \<open>Sleeping and waking up\<close>

abbreviation good_frame :: "cyframe \<Rightarrow> bool" where
  "good_frame fd \<equiv> list_all (\<lambda>v. \<not> cy_bad v) fd"

abbreviation frames_good :: "(int \<times> cyframe) list \<Rightarrow> nat" where
  "frames_good ps \<equiv> length (filter (\<lambda>p. good_frame (snd p)) ps)"

text \<open>
  \<open>waking k d S L p\<close>: \<open>k\<close> more good frames are to be dropped. While \<open>k\<close> is 5 the controller is asleep
  and \<open>S\<close> is the rate to go back to; afterwards that rate is set.
\<close>

definition waking :: "int \<Rightarrow> cydev \<Rightarrow> int \<Rightarrow> (cy_req \<times> int) list \<Rightarrow> ts_sample option \<Rightarrow> bool" where
  "waking k d S L p \<longleftrightarrow> cy_inv d \<and> cy_moddev (cy_mod d) \<noteq> None \<and> (\<forall>n. 0 \<le> cy_answer d n) \<and>
     cy_discard_frames (cy_mod d) = k \<and> pen d = p \<and>
     (if k = 5 then cy_old_scanrate (cy_mod d) = S \<and> cy_ioctls d = L
      else cy_scanrate (cy_mod d) = S \<and> cy_ioctls d = L @ [(SET_SCANRATE, S)])"

lemma set_scanrate_accepted:
  assumes "cy_moddev (cy_mod d) \<noteq> None" "\<forall>n. 0 \<le> cy_answer d n"
  shows "snd (set_scanrate r d) = d\<lparr>cy_ioctls := cy_ioctls d @ [(SET_SCANRATE, r)], cy_mod := (cy_mod d)\<lparr>cy_scanrate := r\<rparr>\<rparr>"
proof -
  have "\<not> cy_answer d (length (cy_ioctls d)) < 0" using assms(2) by (simp add: not_less)
  with assms(1) show ?thesis by (auto simp: cy_set_defs)
qed

text \<open>What a frame does to a sleeping module, and to one that is awake and sees a frame out of range.\<close>

lemma cy_frame_waking:
  assumes "waking k d S L p" "0 < k" "k \<le> 5" "length fd = 77"
  shows "\<exists>d'. cy_frame rnd rndd fd samp d = Inr (0, samp, d') \<and> cy_in d' = cy_in d \<and>
    waking (if good_frame fd then k - 1 else k) d' S L p"
proof -
  have w: "cy_inv d" "cy_moddev (cy_mod d) \<noteq> None" "\<forall>n. 0 \<le> cy_answer d n" "cy_discard_frames (cy_mod d) = k" "pen d = p"
    using assms(1) by (simp_all add: waking_def)
  then have rl: "length (cy_references (cy_mod d)) = 77" by (simp add: cy_inv_def)
  have "s32 (k - 1) = k - 1" using assms(2,3) by (intro s32_id in_s32_small) linarith
  note k = this assms(2,3) w(4)
  obtain asleep refs fd' where u: "update_references (cy_references (cy_mod d)) fd = (asleep, refs, fd')"
    by (rule prod_cases3)
  have len: "length refs = 77" using update_references_length [OF u] rl by simp
  define d1 where "d1 = d\<lparr>cy_mod := (cy_mod d)\<lparr>cy_references := refs\<rparr>\<rparr>"
  have d1: "waking k d1 S L p" "cy_in d1 = cy_in d" "cy_discard_frames (cy_mod d1) = k"
    using assms(1) cy_inv_keeps(1) [OF w(1) len] by (simp_all add: d1_def waking_def)
  show ?thesis
  proof (cases "good_frame fd")
    case False
    then have "asleep = 1" using update_references_bad [of "cy_references (cy_mod d)" fd] rl assms(4) u by simp
    then show ?thesis using k d1 False by (simp add: cy_frame_def u Let_def flip: d1_def)
  next
    case True
    then have a: "asleep = 0" using update_references_good [of "cy_references (cy_mod d)" fd] rl assms(4) u by simp
    define d2 where "d2 = (if k = DISCARD_FRAMES then snd (set_scanrate (cy_old_scanrate (cy_mod d1)) d1) else d1)"
    have "cy_frame rnd rndd fd samp d = Inr (0, samp, d2\<lparr>cy_mod := (cy_mod d2)\<lparr>cy_discard_frames := k - 1\<rparr>\<rparr>)"
      using k d1(3) by (cases "k = DISCARD_FRAMES") (simp_all add: cy_frame_def u a Let_def d2_def d1_def)
    moreover have "cy_inv d2" "cy_in d2 = cy_in d" using d1 by (simp_all add: d2_def waking_def)
    moreover have "waking (k - 1) (d2\<lparr>cy_mod := (cy_mod d2)\<lparr>cy_discard_frames := k - 1\<rparr>\<rparr>) S L p"
      using d1(1) cy_inv_keeps(3) [OF \<open>cy_inv d2\<close>, of "k - 1"] assms(2,3)
      by (auto simp: waking_def d2_def set_scanrate_accepted DISCARD_FRAMES_def pen_def)
    ultimately show ?thesis using True by simp
  qed
qed

lemma cy_frame_sleep:
  assumes "cy_inv d" "cy_moddev (cy_mod d) \<noteq> None" "\<forall>n. 0 \<le> cy_answer d n" "cy_discard_frames (cy_mod d) = 0"
    "length fd = 77" "\<not> good_frame fd"
  shows "\<exists>d'. cy_frame rnd rndd fd samp d = Inr (0, samp, d') \<and> cy_in d' = cy_in d \<and>
    waking 5 d' (cy_scanrate (cy_mod d)) (cy_ioctls d @ [(SET_SCANRATE, 5)]) (pen d)"
proof -
  obtain asleep refs fd' where u: "update_references (cy_references (cy_mod d)) fd = (asleep, refs, fd')"
    by (rule prod_cases3)
  have rl: "length (cy_references (cy_mod d)) = 77" using assms(1) by (simp add: cy_inv_def)
  then have a: "asleep = 1" using update_references_bad [of "cy_references (cy_mod d)" fd] assms(5,6) u by simp
  have "length refs = 77" using update_references_length [OF u] rl by simp
  then have "cy_inv (d\<lparr>cy_ioctls := cy_ioctls d @ [(SET_SCANRATE, 5)], cy_mod := (cy_mod d)\<lparr>cy_references := refs,
      cy_old_scanrate := cy_scanrate (cy_mod d), cy_scanrate := 5, cy_discard_frames := 5\<rparr>\<rparr>)"
    using assms(1) by (auto simp: cy_inv_def cy_small_def split: option.splits)
  then show ?thesis
    using assms(2-4) by (simp add: cy_frame_def u a Let_def set_scanrate_accepted ASLEEP_SCANRATE_def DISCARD_FRAMES_def waking_def pen_def)
qed

subsection \<open>Start and end\<close>

text \<open>The option \<open>timestamp_mode\<close> sets the sleep mode; no option changes the time stamp mode.\<close>

lemma parse_timestamp_mode_is_sleepmode:
  "n < 2 ^ 31 \<Longrightarrow> parse_timestamp_mode d (Some (dec_str n)) data errno = parse_sleepmode d (Some (dec_str n)) data errno"
proof -
  assume n: "n < 2 ^ 31"
  then have "unat (of_nat n :: 32 word) = n" by (simp add: unat_of_nat)
  then have "(of_nat n :: 32 word) \<noteq> ULONG_MAX" using n by (auto simp: ULONG_MAX_def)
  with n show ?thesis by (simp add: parse_timestamp_mode_def parse_sleepmode_def cy_parse_def strtoul0_dec_str)
qed

lemma first_frame_skips:
  "\<forall>(r, f) \<in> set ps. r \<le> 0 \<Longrightarrow> 0 < r \<Longrightarrow> first_frame (ps @ (r, fd) # script) = Some (fd, script)"
  by (induction ps) auto

lemma first_frame_None: "first_frame ps = None \<longleftrightarrow> (\<forall>(r, f) \<in> set ps. r \<le> 0)"
  by (induction ps rule: first_frame.induct) auto

text \<open>
  A start without options: the driver gets the six defaults, reads that fail are repeated, and the
  first frame becomes the reference. The module is in its invariant then.
\<close>

lemma cy8mrln_palmpre_mod_init_default:
  assumes "cy_malloc_ok d" "\<forall>n. 0 \<le> cy_answer d n" "WOT_THRESHOLD_MIN h \<le> 22" "22 \<le> WOT_THRESHOLD_MAX h"
    "cy_in d = ps @ (r, fd) # script" "\<forall>(r, f) \<in> set ps. r \<le> 0" "0 < r" "cy_heap d = 0"
    "list_all (\<lambda>(ret, fd). length fd = 77) (cy_in d)"
  obtains d' where "cy8mrln_palmpre_mod_init h n junk None errno d = Some (Inr (Some (), d'))" "cy_inv d'" "pen d' = None"
    "cy_references (cy_mod d') = fd" "cy_in d' = script"
    "cy_ioctls d' = cy_ioctls d @ [(SET_VERBOSE_MODE, 0), (SET_SCANRATE, 60), (SET_TIMESTAMP_MODE, 1),
       (SET_SLEEPMODE, CY8MRLN_ON_STATE h), (SET_WOT_SCANRATE, WOT_SCANRATE_512HZ h), (SET_WOT_THRESHOLD, 22)]"
proof -
  have a: "cy_answer d k < 0 \<longleftrightarrow> False" for k using assms(2) by (simp add: not_less)
  let ?d = "cy_defaults h (cy_initial n junk d)"
  have e: "cy_in ?d = cy_in d" "cy_malloc_ok ?d" "cy_heap ?d = 1" "cy_small (cy_mod ?d)" "cy_noise (cy_mod ?d) = 25"
    "cy_discard_frames (cy_mod ?d) = 0" "cy_last_valid_samples (cy_mod ?d) = None" "cy_last_n_valid_samples (cy_mod ?d) = 0"
    "cy_ioctls ?d = cy_ioctls d @ [(SET_VERBOSE_MODE, 0), (SET_SCANRATE, 60), (SET_TIMESTAMP_MODE, 1),
       (SET_SLEEPMODE, CY8MRLN_ON_STATE h), (SET_WOT_SCANRATE, WOT_SCANRATE_512HZ h), (SET_WOT_THRESHOLD, 22)]"
    using assms(1,3,4,8) by (simp_all add: cy_defaults_def cy_initial_def cy_set_defs Let_def a cy_small_def not_less)
  have ff: "first_frame (cy_in ?d) = Some (fd, script)" unfolding e(1) assms(5) by (rule first_frame_skips [OF assms(6,7)])
  let ?r = "?d\<lparr>cy_in := script, cy_mod := (cy_mod ?d)\<lparr>cy_references := fd\<rparr>\<rparr>"
  have "cy8mrln_palmpre_mod_init h n junk None errno d = Some (Inr (Some (), ?r))"
    using assms(1) by (simp add: cy8mrln_palmpre_mod_init_def tslib_parse_vars_def ff)
  moreover have "cy_inv ?r" using e assms(5,9) by (simp add: cy_inv_def cy_small_def)
  moreover have "pen ?r = None" using e(7) by (simp add: pen_def)
  ultimately show thesis using that [of ?r] e(9) by simp
qed

lemma cy_in_set [simp]: "cy_in (snd (cy_set req store v d)) = cy_in d"
  by (simp add: cy_set_def cy_ioctl_def)

lemma cy_in_defaults [simp]: "cy_in (cy_defaults h d) = cy_in d"
proof -
  have "cy_in (snd (set_wot_threshold h v d)) = cy_in d" for v d by (simp add: set_wot_threshold_def cy_ioctl_def)
  then show ?thesis
    by (simp add: cy_defaults_def Let_def set_scanrate_def set_verbose_def set_sleepmode_def set_wot_scanrate_def
        set_timestamp_mode_def set_gesture_height_def set_noise_def set_pressure_def set_sensor_offset_x_def
        set_sensor_offset_y_def set_sensor_delta_x_def set_sensor_delta_y_def)
qed

lemma cy8mrln_palmpre_mod_init_waits:
  "cy_malloc_ok d \<Longrightarrow> \<forall>(r, f) \<in> set (cy_in d). r \<le> 0 \<Longrightarrow> cy8mrln_palmpre_mod_init h n junk None errno d = None"
  using first_frame_None [of "cy_in d"]
  by (simp add: cy8mrln_palmpre_mod_init_def tslib_parse_vars_def cy_initial_def)

text \<open>The end gives back every block.\<close>

lemma cy8mrln_palmpre_fini_frees: "cy_inv d \<Longrightarrow> cy8mrln_palmpre_fini d = (0, 0)"
  by (simp add: cy8mrln_palmpre_fini_def cy_inv_def split: option.splits)

text \<open>One read of a frame that is dropped, and a whole row of them.\<close>

lemma cy_reads_step:
  assumes "cy_in d = (r, fd) # script" "0 < r"
    "\<exists>d'. cy_frame rnd rndd fd [smp0] (d\<lparr>cy_in := script\<rparr>) = Inr (0, [smp0], d') \<and> cy_in d' = script \<and> P d'"
  shows "\<exists>d'. cy_in d' = script \<and> P d' \<and> cy_reads rnd rndd (Suc n) (d, w) = cy_reads rnd rndd n (d', w)"
proof -
  from assms(3) obtain d' where d': "cy_frame rnd rndd fd [smp0] (d\<lparr>cy_in := script\<rparr>) = Inr (0, [smp0], d')"
    "cy_in d' = script" "P d'" by auto
  have "cy8mrln_palmpre_read rnd rndd (d, w) [smp0] 1 = Inr (0, [smp0], (d', w))"
    using assms(1,2) d'(1) by (simp add: cy8mrln_palmpre_read_def)
  then have "cy_reads rnd rndd (Suc n) (d, w) = cy_reads rnd rndd n (d', w)"
    by (cases "cy_reads rnd rndd n (d', w)") auto
  with d' show ?thesis by blast
qed

lemma waking_in [simp]: "cy_in d = x # script \<Longrightarrow> waking k d S L p \<Longrightarrow> waking k (d\<lparr>cy_in := script\<rparr>) S L p"
  by (simp add: waking_def cy_inv_keeps(4))

lemma cy_reads_frame_waking:
  assumes "waking k d S L p" "0 < k" "k \<le> 5" "cy_in d = (r, fd) # script" "0 < r"
  shows "\<exists>d'. cy_in d' = script \<and> waking (if good_frame fd then k - 1 else k) d' S L p \<and>
    cy_reads rnd rndd (Suc n) (d, w) = cy_reads rnd rndd n (d', w)"
proof (rule cy_reads_step [OF assms(4,5)])
  have "length fd = 77" using assms(1,4) by (simp add: waking_def cy_inv_def)
  from cy_frame_waking [OF waking_in [OF assms(4,1)] assms(2,3) this]
  show "\<exists>d'. cy_frame rnd rndd fd [smp0] (d\<lparr>cy_in := script\<rparr>) = Inr (0, [smp0], d') \<and> cy_in d' = script \<and>
      waking (if good_frame fd then k - 1 else k) d' S L p" by simp
qed

lemma cy_reads_waking:
  assumes "waking k d S L p" "k \<le> 5" "cy_in d = ps @ script" "\<forall>(r, fd) \<in> set ps. 0 < r" "int (frames_good ps) < k"
  shows "\<exists>d'. cy_in d' = script \<and> waking (k - int (frames_good ps)) d' S L p \<and>
    cy_reads rnd rndd (length ps + n) (d, w) = cy_reads rnd rndd n (d', w)"
  using assms
proof (induction ps arbitrary: k d)
  case Nil
  then show ?case by auto
next
  case (Cons a ps)
  obtain r fd where a: "a = (r, fd)" by (cases a)
  let ?k = "if good_frame fd then k - 1 else k"
  obtain d1 where d1: "cy_in d1 = ps @ script" "waking ?k d1 S L p"
    "cy_reads rnd rndd (Suc (length ps + n)) (d, w) = cy_reads rnd rndd (length ps + n) (d1, w)"
    using cy_reads_frame_waking [OF Cons.prems(1) _ Cons.prems(2), of r fd "ps @ script" rnd rndd "length ps + n" w]
      Cons.prems(3-5) a by (auto simp del: cy_reads.simps)
  obtain d' where "cy_in d' = script" "waking (?k - int (frames_good ps)) d' S L p"
    "cy_reads rnd rndd (length ps + n) (d1, w) = cy_reads rnd rndd n (d', w)"
    using Cons.IH [OF d1(2) _ d1(1)] Cons.prems(2,4,5) a by (auto split: if_splits)
  with d1(3) a show ?case by (intro exI [of _ d']) (auto simp: diff_diff_eq simp del: cy_reads.simps split: if_splits)
qed

subsection \<open>Properties\<close>


text \<open>A module with default settings whose references are all 1000, and the frames for it.\<close>

definition cy_example :: "(int \<times> cyframe) list \<Rightarrow> cydev" where
  "cy_example script =
     \<lparr>cy_mod = \<lparr>cy_moddev = Some 3, cy_references = replicate 77 1000, cy_scanrate = 60, cy_verbose = 0, cy_wot_threshold = 22,
        cy_sleepmode = 1, cy_wot_scanrate = 2, cy_timestamp_mode = 1, cy_gesture_height = 1, cy_noise = 25, cy_pressure = 60,
        cy_sensor_offset_x = 22, cy_sensor_offset_y = 26, cy_sensor_delta_x = 45, cy_sensor_delta_y = 52,
        cy_last_n_valid_samples = 0, cy_last_valid_samples = None, cy_discard_frames = 0, cy_old_scanrate = 0\<rparr>,
      cy_answer = \<lambda>_. 0, cy_ioctls = [], cy_in = script, cy_clock = \<lambda>_. \<lparr>tv_sec = 0, tv_usec = 0\<rparr>, cy_tick = 0,
      cy_malloc_ok = True, cy_heap = 1\<rparr>"

lemma cy_example_inv: "list_all (\<lambda>(ret, fd). length fd = 77) script \<Longrightarrow> cy_inv (cy_example script)"
  by (simp add: cy_example_def cy_inv_def cy_small_def)




text \<open>
  The position is near the field. In exact arithmetic, for a field inside the grid whose value is
  the largest of the frame, the reported position is less than two thirds of the distance between two
  fields and one unit away from the centre of that field, in both directions.
\<close>

theorem interpolate_near:
  assumes "length fd = 77" "0 < x" "x < 6" "0 < y" "y < 10" "cy_small m"
    "\<forall>i<77. uint (fd ! i) \<le> uint (fd ! nat (field_nr x y))" "0 < uint (fd ! nat (field_nr x y))"
  shows "\<exists>ox oy. interpolate exact exact m fd x y = Inr (ox, oy) \<and>
    3 * \<bar>ox - (cy_sensor_delta_x m * x + cy_sensor_offset_x m)\<bar> \<le> 2 * \<bar>cy_sensor_delta_x m\<bar> + 2 \<and>
    3 * \<bar>oy - (cy_sensor_delta_y m * y + cy_sensor_offset_y m)\<bar> \<le> 2 * \<bar>cy_sensor_delta_y m\<bar> + 2"
proof -
  let ?n = "field_nr x y"
  define t where "t = uint (fd ! nat ?n)"
  have n: "7 \<le> ?n" "?n < 70" using assms(2-5) by (simp_all add: field_nr_def H_FIELDS_def)
  have t: "0 < t" "t \<le> 65535" using assms(8) uint16_bounds [of "fd ! nat ?n"] by (simp_all add: t_def)
  have inside: "\<not> x = int H_FIELDS - 1" "\<not> x = 0" "\<not> y = int V_FIELDS - 1" "\<not> y = 0"
    using assms(2-5) by (auto simp: H_FIELDS_def V_FIELDS_def)
  have get: "arr_get fd ?n = Inr (fd ! nat ?n)" using n assms(1) by simp
  have nb: "\<exists>v. neighbour fd False (cy_pressure m) t i = Inr v \<and> 0 \<le> v \<and> v \<le> t" if "0 \<le> i" "i < 77" for i
    using that assms(1,7) by (simp add: neighbour_def t_def)
  obtain a b c e where abce:
    "neighbour fd False (cy_pressure m) t (?n - 1) = Inr a" "0 \<le> a" "a \<le> t" "neighbour fd False (cy_pressure m) t (?n + 1) = Inr b" "0 \<le> b" "b \<le> t"
    "neighbour fd False (cy_pressure m) t (?n + int H_FIELDS) = Inr c" "0 \<le> c" "c \<le> t"
    "neighbour fd False (cy_pressure m) t (?n - int H_FIELDS) = Inr e" "0 \<le> e" "e \<le> t"
    using nb [of "?n - 1"] nb [of "?n + 1"] nb [of "?n + int H_FIELDS"] nb [of "?n - int H_FIELDS"] n by (auto simp: H_FIELDS_def)
  have sm: "\<bar>cy_sensor_delta_x m\<bar> \<le> 500" "\<bar>cy_sensor_offset_x m\<bar> \<le> 1000000" "\<bar>cy_sensor_delta_y m\<bar> \<le> 500" "\<bar>cy_sensor_offset_y m\<bar> \<le> 1000000"
    using assms(6) by (simp_all add: cy_small_def)
  obtain ox where ox: "f2i (fadd exact (exact (of_int (s32 (cy_sensor_delta_x m * x + cy_sensor_offset_x m))))
      (fmul exact (cy_shift exact exact a b t) (exact (of_int (cy_sensor_delta_x m))))) = Inr ox"
    "3 * \<bar>ox - (cy_sensor_delta_x m * x + cy_sensor_offset_x m)\<bar> \<le> 2 * \<bar>cy_sensor_delta_x m\<bar> + 2"
    using exact_position_near [OF abce(2,3,5,6) t _ _ sm(1,2), of x] assms(2,3) by auto
  obtain oy where oy: "f2i (fadd exact (exact (of_int (s32 (cy_sensor_delta_y m * y + cy_sensor_offset_y m))))
      (fmul exact (cy_shift exact exact c e t) (exact (of_int (cy_sensor_delta_y m))))) = Inr oy"
    "3 * \<bar>oy - (cy_sensor_delta_y m * y + cy_sensor_offset_y m)\<bar> \<le> 2 * \<bar>cy_sensor_delta_y m\<bar> + 2"
    using exact_position_near [OF abce(8,9,11,12) t _ _ sm(3,4), of y] assms(4,5) by auto
  have "interpolate exact exact m fd x y = Inr (ox, oy)"
    using t(1) by (simp only: interpolate_def Let_def get bindr_simps t_def [symmetric] inside abce ox oy) simp
  with ox(2) oy(2) show ?thesis by blast
qed

theorem interpolate_near_witness:
  "\<exists>ox oy. interpolate exact exact (cy_mod (cy_example [])) ((replicate 77 0)[38 := 200]) 3 5 = Inr (ox, oy) \<and>
     3 * \<bar>ox - 157\<bar> \<le> 92 \<and> 3 * \<bar>oy - 286\<bar> \<le> 106"
  using interpolate_near [of "(replicate 77 0)[38 := 200]" 3 5 "cy_mod (cy_example [])"]
  by (simp add: cy_example_def cy_small_def field_nr_def H_FIELDS_def nth_list_update)

end
