(* ===== verification/Bma220.thy ===== *)
theory Bma220
  imports Motion
begin

text \<open>
  The demo of the motion sensor, src/msensor/bma220.c and msensor_demo.c: the test of the driver's
  requests, the test of the input device, the log file and the menu. The sysfs attributes are used
  through the functions of theory Motion; the two files have the same code for them.

  \<^item> \<open>msensor\<close> is what the functions work on: the attributes as a reader sees them, what the
    driver shows after a text has been written (\<open>ms_store\<close>), the log file, the standard output and
    the callbacks of the motion service with the number of its threads that were started.
  \<^item> The loops of the tests have no end. They are functions of the list of the answers to
    \<open>read\<close>, so that the result is the state after that many rounds. A failed read leaves the local
    variable as it is.
\<close>

definition ABS_BRAKE :: nat where "ABS_BRAKE = 10"
definition ABS_THROTTLE :: nat where "ABS_THROTTLE = 6"
definition ABS_MISC :: nat where "ABS_MISC = 40"

lemmas bma_codes = EV_SYN_def EV_ABS_def ABS_X_def ABS_Y_def ABS_Z_def ABS_PRESSURE_def ABS_BRAKE_def ABS_THROTTLE_def ABS_MISC_def

record msensor =
  ms_delay :: attribute
  ms_enable :: attribute
  ms_data :: attribute
  ms_write_ok :: bool
  ms_store :: "string \<Rightarrow> string"
  ms_log_ok :: bool
  ms_log :: string
  ms_out :: string
  ms_callbacks :: "MOTION_CALLBACK list"
  ms_services :: nat

abbreviation nl :: string where "nl \<equiv> [CHR 0x0A]"

definition say :: "string \<Rightarrow> msensor \<Rightarrow> msensor" where
  "say t s = s\<lparr>ms_out := ms_out s @ t\<rparr>"

subsection \<open>The attributes\<close>

text \<open>The messages of the getters and setters go to the standard output as well.\<close>

definition open_failed :: "string \<Rightarrow> int \<Rightarrow> string" where
  "open_failed name errno = ''open device '' @ name @ '' failed, errno = '' @ dec_int errno @ nl"

definition bma_get :: "string \<Rightarrow> string \<Rightarrow> attribute \<Rightarrow> int \<Rightarrow> msensor \<Rightarrow> int \<times> msensor" where
  "bma_get name msg a errno s =
     (bma220_get a,
      case a of None \<Rightarrow> say (open_failed name errno) s | Some None \<Rightarrow> say msg s | Some (Some _) \<Rightarrow> s)"

definition bma220_get_delay :: "int \<Rightarrow> msensor \<Rightarrow> int \<times> msensor" where
  "bma220_get_delay errno s =
     bma_get ''/sys/class/input/input2/delay'' (''bma_sys_stat:read delay error'' @ nl) (ms_delay s) errno s"

definition bma220_get_enable :: "int \<Rightarrow> msensor \<Rightarrow> int \<times> msensor" where
  "bma220_get_enable errno s =
     bma_get ''/sys/class/input/input2/enable'' (''bma_sys_stat:read enable error'' @ nl) (ms_enable s) errno s"

text \<open>A write that succeeds changes what the next read of the attribute sees.\<close>

definition bma_written :: "msensor \<Rightarrow> int \<Rightarrow> attribute \<Rightarrow> int \<times> attribute" where
  "bma_written s v a =
     (case bma220_set (a \<noteq> None) (ms_write_ok s) v of (r, t) \<Rightarrow>
        (r, if r = 0 then map_option (\<lambda>t. Some (ms_store s t)) t else a))"

definition bma220_set_delay :: "int \<Rightarrow> int \<Rightarrow> msensor \<Rightarrow> int \<times> msensor" where
  "bma220_set_delay errno delay s =
     (case bma_written s delay (ms_delay s) of (r, a) \<Rightarrow>
        (r, if ms_delay s = None then say (open_failed ''/sys/class/input/input2/delay'' errno) s
            else if r < 0 then say (''bma_sys_stat:write delay error'' @ nl) s
            else s\<lparr>ms_delay := a\<rparr>))"

definition bma220_set_enable :: "int \<Rightarrow> int \<Rightarrow> msensor \<Rightarrow> int \<times> msensor" where
  "bma220_set_enable errno enable s =
     (case bma_written s enable (ms_enable s) of (r, a) \<Rightarrow>
        (r, if ms_enable s = None then say (open_failed ''/sys/class/input/input2/enable'' errno) s
            else if r < 0 then say (''bma_sys_stat:read enable error'' @ nl) s
            else s\<lparr>ms_enable := a\<rparr>))"

definition bma_data :: "int \<Rightarrow> int list \<Rightarrow> msensor \<Rightarrow> int \<times> int list \<times> msensor" where
  "bma_data errno xyz s =
     (case bma220_get_data (ms_data s) xyz of (r, xyz') \<Rightarrow>
        (r, xyz',
         case ms_data s of None \<Rightarrow> say (open_failed ''/sys/class/input/input2/data'' errno) s
           | Some None \<Rightarrow> say (''bma_sys_stat:read data error'' @ nl) s | Some (Some _) \<Rightarrow> s))"

text \<open>
  The part that the two tests have in common: the values before, the new ones, and the values after.
  The first acceleration would be printed if \<open>bma220_get_data\<close> returned a positive number.
\<close>

definition before_after :: "string \<Rightarrow> int \<Rightarrow> int \<Rightarrow> string" where
  "before_after w delay enable = ''bma220_input_process '' @ w @ '':delay='' @ dec_int delay @ '' enable='' @ dec_int enable @ nl"

definition open_ok :: string where
  "open_ok = ''open device /dev/input/event2 success'' @ nl"

definition settings_line :: "int \<Rightarrow> int \<Rightarrow> string" where
  "settings_line delay enable = nl @ before_after ''after'' delay enable"

definition print_xyz :: "int \<times> int list \<times> msensor \<Rightarrow> int list \<times> msensor" where
  "print_xyz = (\<lambda>(ret, xyz, s).
     (xyz, if 0 < ret then say (''x='' @ dec_int (xyz ! 0) @ '' y='' @ dec_int (xyz ! 1) @ '' z='' @ dec_int (xyz ! 2) @ nl) s else s))"

definition set_up :: "int \<Rightarrow> int \<Rightarrow> msensor \<Rightarrow> int \<times> int \<times> msensor" where
  "set_up errno delay s =
     (let (d, s) = bma220_get_delay errno s;
          (e, s) = bma220_get_enable errno s;
          s = say (before_after ''before'' d e) s;
          (_, s) = bma220_set_delay errno delay s;
          (_, s) = bma220_set_enable errno 1 s;
          (d, s) = bma220_get_delay errno s;
          (e, s) = bma220_get_enable errno s
      in (d, e, say (before_after ''after'' d e) s))"

subsection \<open>The input test\<close>

definition show_event :: "input_event \<Rightarrow> string" where
  "show_event e =
     (if ev_type e = EV_ABS then
        if ev_code e = ABS_X then ''ABS_X='' @ dec_int (ev_value e) @ '' ''
        else if ev_code e = ABS_Y then ''ABS_Y='' @ dec_int (ev_value e) @ '' ''
        else if ev_code e = ABS_Z then ''ABS_Z='' @ dec_int (ev_value e) @ '' ''
        else if ev_code e = ABS_PRESSURE then ''ABS_PRESSURE='' @ dec_int (ev_value e) @ nl
        else if ev_code e = ABS_BRAKE then ''ABS_BRAKE:ABS_STATUS='' @ dec_int (ev_value e) @ nl
        else if ev_code e = ABS_MISC then ''ABS_MISC:ABS_WAKE='' @ dec_int (ev_value e) @ nl
        else if ev_code e = ABS_THROTTLE then ''ABS_THROTTLE:ABS_CONTROL_REPORT='' @ dec_int (ev_value e) @ nl
        else []
      else if ev_type e = EV_SYN then
        nl @ dec_int (tv_sec (ev_time e)) @ ''.'' @ dec_pad 6 (tv_usec (ev_time e)) @ '' '' @ ''EV_SYNC'' @ nl
      else [])"

text \<open>\<open>data\<close> is the local variable, \<open>None\<close> a read that fails.\<close>

fun input_loop :: "input_event option list \<Rightarrow> input_event \<Rightarrow> msensor \<Rightarrow> input_event \<times> msensor" where
  "input_loop [] data s = (data, s)"
| "input_loop (r # rs) data s = (let data = (case r of None \<Rightarrow> data | Some e \<Rightarrow> e) in input_loop rs data (say (show_event data) s))"

text \<open>\<open>Inl s\<close>: the function returns -1 because the device can not be opened.\<close>

definition bma220_input_process ::
  "int \<Rightarrow> bool \<Rightarrow> int list \<Rightarrow> input_event \<Rightarrow> input_event option list \<Rightarrow> msensor \<Rightarrow> msensor + msensor" where
  "bma220_input_process errno opens junk data reads s =
     (let (_, _, s) = set_up errno 100 s;
          (_, s) = print_xyz (bma_data errno junk s)
      in
        if \<not> opens then Inl (say (open_failed ''/dev/input/event2'' errno) s)
        else Inr (snd (input_loop reads data (say open_ok s))))"

subsection \<open>The log file\<close>

text \<open>\<open>%kd\<close>: filled with spaces from the left.\<close>

definition pad_left :: "nat \<Rightarrow> string \<Rightarrow> string" where
  "pad_left k t = replicate (k - length t) CHR '' '' @ t"

text \<open>When the file can not be opened the result is undefined: \<open>junk\<close>. No caller uses it.\<close>

definition put_stream :: "int \<Rightarrow> string option \<Rightarrow> msensor \<Rightarrow> int \<times> msensor" where
  "put_stream junk buf s =
     (case buf of
        None \<Rightarrow> (-1, s)
      | Some t \<Rightarrow>
          if \<not> ms_log_ok s then (junk, say (''open ./msensor.log fail'' @ nl) s)
          else (1, s\<lparr>ms_log := ms_log s @ t\<rparr>))"

definition log_line :: "int \<Rightarrow> int \<Rightarrow> int \<Rightarrow> timeval \<Rightarrow> int \<Rightarrow> string" where
  "log_line x y z tv index =
     pad_left 10 (dec_int x) @ '' '' @ pad_left 10 (dec_int y) @ '' '' @ pad_left 10 (dec_int z) @ '' '' @
     pad_left 10 (dec_int (tv_sec tv)) @ ''.'' @ dec_pad 6 (tv_usec tv) @ '' '' @ pad_left 6 (dec_int index) @ nl"

record put_locals =
  pl_x :: int
  pl_y :: int
  pl_z :: int
  pl_index :: int
  pl_data :: input_event

definition put_step :: "int \<Rightarrow> input_event option \<Rightarrow> put_locals \<times> msensor \<Rightarrow> put_locals \<times> msensor" where
  "put_step junk r = (\<lambda>(l, s).
     let l = (case r of None \<Rightarrow> l | Some e \<Rightarrow> l\<lparr>pl_data := e\<rparr>); e = pl_data l in
     if ev_type e = EV_ABS then
       (if ev_code e = ABS_X then l\<lparr>pl_x := ev_value e\<rparr>
        else if ev_code e = ABS_Y then l\<lparr>pl_y := ev_value e\<rparr>
        else if ev_code e = ABS_Z then l\<lparr>pl_z := ev_value e\<rparr> else l, s)
     else if ev_type e = EV_SYN then
       (let temp = log_line (pl_x l) (pl_y l) (pl_z l) (ev_time e) (pl_index l) in
        (l\<lparr>pl_index := s32 (pl_index l + 1)\<rparr>, say temp (snd (put_stream junk (Some temp) s))))
     else (l, s))"

definition put_loop :: "int \<Rightarrow> input_event option list \<Rightarrow> put_locals \<times> msensor \<Rightarrow> put_locals \<times> msensor" where
  "put_loop junk reads = fold (put_step junk) reads"

text \<open>
  \<open>argc\<close> is passed as a \<open>char\<close>, which is unsigned on the target; \<open>argv\<close> is the list of the arguments.
\<close>

definition bma220_put_file ::
  "int \<Rightarrow> bool \<Rightarrow> int \<Rightarrow> string list \<Rightarrow> input_event \<Rightarrow> input_event option list \<Rightarrow> msensor \<Rightarrow> msensor + (put_locals \<times> msensor)" where
  "bma220_put_file errno opens junk argv data reads s =
     (let delay = (if 2 \<le> length argv mod 256 then sint (strtoul10 (argv ! 1)) else 100);
          (d, e, s) = set_up errno delay s;
          (_, s) = put_stream junk (Some (settings_line d e)) s;
          (xyz, s) = print_xyz (bma_data errno [0, 0, 0] s)
      in
        if \<not> opens then Inl (say (open_failed ''/dev/input/event2'' errno) s)
        else
          Inr (put_loop junk reads
            (\<lparr>pl_x = xyz ! 0, pl_y = xyz ! 1, pl_z = xyz ! 2, pl_index = 0, pl_data = data\<rparr>,
             say open_ok s)))"

subsection \<open>The test of the driver\<close>

datatype bma_req =
    BMA220_IOCTL_EVENT_CTRL | BMA220_IOCTL_CALIBRATION | BMA220_SOFT_RESET | BMA220_SET_SUSPEND | BMA220_SET_RANGE
  | BMA220_GET_RANGE | BMA220_SET_BANDWIDTH | BMA220_GET_BANDWIDTH | BMA220_RESET_INTERRUPT | BMA220_SET_OFFSET_RESET
  | BMA220_GET_CHIP_ID | BMA220_GET_SLEEP_EN | BMA220_GET_SLEEP_DUR

text \<open>The numbers of the requests in the header.\<close>

definition bma_nr :: "bma_req \<Rightarrow> nat" where
  "bma_nr r =
     (case r of BMA220_IOCTL_EVENT_CTRL \<Rightarrow> 95 | BMA220_IOCTL_CALIBRATION \<Rightarrow> 94 | BMA220_SOFT_RESET \<Rightarrow> 15 | BMA220_SET_SUSPEND \<Rightarrow> 1
      | BMA220_SET_RANGE \<Rightarrow> 7 | BMA220_GET_RANGE \<Rightarrow> 8 | BMA220_SET_BANDWIDTH \<Rightarrow> 9 | BMA220_GET_BANDWIDTH \<Rightarrow> 10
      | BMA220_RESET_INTERRUPT \<Rightarrow> 12 | BMA220_SET_OFFSET_RESET \<Rightarrow> 47 | BMA220_GET_CHIP_ID \<Rightarrow> 55 | BMA220_GET_SLEEP_EN \<Rightarrow> 57
      | BMA220_GET_SLEEP_DUR \<Rightarrow> 46)"

text \<open>
  One request: the value stored in \<open>buf[0]\<close> before, if any; the text when it fails (\<open>None\<close>: the
  result is not looked at); the text otherwise, with the byte the driver has left there.
\<close>

record dev_item =
  it_req :: bma_req
  it_arg :: "8 word option"
  it_fail :: "string option"
  it_text :: "8 word \<Rightarrow> string"

abbreviation byte_str :: "8 word \<Rightarrow> string" where "byte_str v \<equiv> dec_str (unat v)"

definition hex02 :: "8 word \<Rightarrow> string" where
  "hex02 v = replicate (2 - length (hex_str (unat v))) CHR ''0'' @ hex_str (unat v)"

definition dev_items :: "dev_item list" where
  "dev_items =
     [\<lparr>it_req = BMA220_IOCTL_EVENT_CTRL, it_arg = Some 0, it_fail = Some (''set BMA220_IOCTL_EVENT_CTRL fail'' @ nl),
       it_text = \<lambda>v. ''set BMA220_IOCTL_EVENT_CTRL '' @ byte_str v @ nl\<rparr>,
      \<lparr>it_req = BMA220_IOCTL_CALIBRATION, it_arg = None, it_fail = Some (''set BMA220_IOCTL_CALIBRATION fail'' @ nl),
       it_text = \<lambda>v. ''set BMA220_IOCTL_CALIBRATION'' @ nl\<rparr>,
      \<lparr>it_req = BMA220_SOFT_RESET, it_arg = None, it_fail = Some (''set BMA220_SOFT_RESET fail'' @ nl),
       it_text = \<lambda>v. ''set BMA220_SOFT_RESET'' @ nl\<rparr>,
      \<lparr>it_req = BMA220_SET_SUSPEND, it_arg = Some 1, it_fail = Some (''set BMA220_SET_SUSPEND fail'' @ nl),
       it_text = \<lambda>v. ''set BMA220_SET_SUSPEND '' @ byte_str v @ nl\<rparr>,
      \<lparr>it_req = BMA220_SET_RANGE, it_arg = Some 0, it_fail = Some (''set BMA220_SET_RANGE'' @ nl),
       it_text = \<lambda>v. ''set BMA220_SET_RANGE '' @ byte_str v @ nl\<rparr>,
      \<lparr>it_req = BMA220_GET_RANGE, it_arg = Some 255, it_fail = None,
       it_text = \<lambda>v. ''BMA220_GET_RANGE: range='' @ byte_str v @ nl\<rparr>,
      \<lparr>it_req = BMA220_SET_BANDWIDTH, it_arg = Some 2, it_fail = Some (''set BMA220_SET_BANDWIDTH fail'' @ nl),
       it_text = \<lambda>v. ''set BMA220_SET_BANDWIDTH '' @ nl\<rparr>,
      \<lparr>it_req = BMA220_GET_BANDWIDTH, it_arg = Some 255, it_fail = None,
       it_text = \<lambda>v. ''BMA220_GET_BANDWIDTH: bandwidth='' @ byte_str v @ nl\<rparr>,
      \<lparr>it_req = BMA220_RESET_INTERRUPT, it_arg = None, it_fail = Some (''set BMA220_RESET_INTERRUPT fail'' @ nl),
       it_text = \<lambda>v. ''set BMA220_RESET_INTERRUPT ok'' @ nl\<rparr>,
      \<lparr>it_req = BMA220_SET_OFFSET_RESET, it_arg = None, it_fail = Some (''set BMA220_SET_OFFSET_RESET fail'' @ nl),
       it_text = \<lambda>v. ''set BMA220_SET_OFFSET_RESET ok'' @ nl\<rparr>,
      \<lparr>it_req = BMA220_GET_CHIP_ID, it_arg = Some 255, it_fail = None,
       it_text = \<lambda>v. ''BMA220_GET_CHIP_ID: chipid='' @ hex02 v @ nl\<rparr>,
      \<lparr>it_req = BMA220_GET_SLEEP_EN, it_arg = Some 255, it_fail = None,
       it_text = \<lambda>v. ''BMA220_GET_SLEEP_EN: sleep_en='' @ byte_str v @ nl\<rparr>,
      \<lparr>it_req = BMA220_GET_SLEEP_DUR, it_arg = Some 255, it_fail = None,
       it_text = \<lambda>v. ''BMA220_GET_SLEEP_DUR: sleep_dur='' @ byte_str v @ nl\<rparr>]"

text \<open>
  The driver answers the k-th request with a result and the byte in \<open>buf[0]\<close>, given the byte it gets.
  The requests made are kept with their byte.
\<close>

fun dev_requests ::
  "(nat \<Rightarrow> 8 word \<Rightarrow> int \<times> 8 word) \<Rightarrow> nat \<Rightarrow> dev_item list \<Rightarrow> 8 word \<Rightarrow> msensor \<Rightarrow> (bma_req \<times> 8 word) list \<times> msensor" where
  "dev_requests drv k [] b s = ([], s)"
| "dev_requests drv k (it # its) b s =
     (let b0 = (case it_arg it of None \<Rightarrow> b | Some v \<Rightarrow> v) in
      case drv k b0 of (ret, b1) \<Rightarrow>
        (let out = (case it_fail it of Some t \<Rightarrow> if ret < 0 then t else it_text it b1 | None \<Rightarrow> it_text it b1) in
         case dev_requests drv (k + 1) its b1 (say out s) of (rs, s') \<Rightarrow> ((it_req it, b0) # rs, s')))"

text \<open>A read of the accelerations; the struct is cleared before.\<close>

definition show_acc :: "int \<times> 8 word \<times> 8 word \<times> 8 word \<Rightarrow> string" where
  "show_acc = (\<lambda>(ret, x, y, z).
     if 0 < ret then ''acc:x='' @ dec_int (sint x) @ '' y='' @ dec_int (sint y) @ '' z='' @ dec_int (sint z) @ nl
     else ''acc read errno='' @ dec_int ret @ nl)"

definition bma220_dev_process ::
  "int \<Rightarrow> bool \<Rightarrow> 8 word \<Rightarrow> (nat \<Rightarrow> 8 word \<Rightarrow> int \<times> 8 word) \<Rightarrow> (int \<times> 8 word \<times> 8 word \<times> 8 word) list \<Rightarrow> msensor \<Rightarrow>
   msensor + ((bma_req \<times> 8 word) list \<times> msensor)" where
  "bma220_dev_process errno opens junk drv accs s =
     (if \<not> opens then Inl (say (open_failed ''/dev/bma220'' errno) s)
      else
        (case dev_requests drv 0 dev_items junk s of (rs, s) \<Rightarrow> Inr (rs, say (concat (map show_acc accs)) s)))"

subsection \<open>The menu\<close>

definition msensor_help :: string where
  "msensor_help =
     nl @ ''******** Motion Sensor Test Demo ***********'' @ nl @ ''1.Misc test ..'' @ nl @ ''2.Input test ..'' @ nl @
     ''3.Put to file ..'' @ nl @ ''4.detect action '' @ nl @ ''Q.Exit(don'' @ [CHR 0x27] @ ''t use '' @ [CHR 0x27] @ ''ctrl+c'' @ [CHR 0x27] @
     '',must be '' @ [CHR 0x27] @ ''X'' @ [CHR 0x27] @ '')..'' @ nl @
     ''**************************************'' @ nl @ ''Select : '' @ nl"

definition motion_proc :: "MOTION_ACTION \<Rightarrow> string" where
  "motion_proc action =
     (case action of
        MOTION_ACTION_NULL \<Rightarrow> []
      | MOTION_ACTION_SLOW_UP \<Rightarrow> ''motion_proc:MOTION_ACTION_SLOW_UP'' @ nl
      | MOTION_ACTION_SLOW_DOWN \<Rightarrow> ''motion_proc:MOTION_ACTION_SLOW_DOWN'' @ nl
      | MOTION_ACTION_COLLISION \<Rightarrow> ''motion_proc:MOTION_ACTION_COLLISION'' @ nl
      | MOTION_ACTION_GZ0 \<Rightarrow> ''motion_proc:MOTION_ACTION_GZ0'' @ nl
      | MOTION_ACTION_GZ180 \<Rightarrow> ''motion_proc:MOTION_ACTION_GZ180'' @ nl
      | MOTION_ACTION_TOTAL \<Rightarrow> [])"

text \<open>
  The choice 4: \<open>motion_service_start\<close> (the thread itself is in theory MotionThreads) and five
  registrations of \<open>motion_proc\<close>; one that finds the table full prints a message.
\<close>

definition register_proc :: "nat \<Rightarrow> MOTION_ACTION \<Rightarrow> msensor \<Rightarrow> msensor" where
  "register_proc fn a s =
     (case motion_register_action a (Some fn) (ms_callbacks s) of (ret, cbs) \<Rightarrow>
        if ret = -1 then say (''motion_register_action:cannot find nouse index'' @ nl) s else s\<lparr>ms_callbacks := cbs\<rparr>)"

definition detect_action :: "nat \<Rightarrow> msensor \<Rightarrow> msensor" where
  "detect_action fn s =
     (let s = s\<lparr>ms_services := ms_services s + 1\<rparr>;
          s = register_proc fn MOTION_ACTION_SLOW_UP s;
          s = register_proc fn MOTION_ACTION_SLOW_DOWN s;
          s = register_proc fn MOTION_ACTION_COLLISION s;
          s = register_proc fn MOTION_ACTION_GZ0 s
      in register_proc fn MOTION_ACTION_GZ180 s)"

text \<open>
  The loop of \<open>main\<close> on the characters typed. A test whose device opens does not come back: the run
  ends in it (\<open>InTest\<close>). At the end of the input \<open>getchar\<close> returns EOF for ever, which is no command
  (\<open>NoInput\<close>). \<open>tests\<close> are the three test functions, applied to the state: \<open>Inl\<close> when they return.
\<close>

datatype menu_end = Quit msensor | InTest char msensor | NoInput msensor

fun menu_loop :: "(char \<Rightarrow> msensor \<Rightarrow> msensor + msensor) \<Rightarrow> nat \<Rightarrow> string \<Rightarrow> msensor \<Rightarrow> menu_end" where
  "menu_loop tests fn [] s = NoInput s"
| "menu_loop tests fn (c # cs) s =
     (if c = CHR ''1'' \<or> c = CHR ''2'' \<or> c = CHR ''3'' then
        (case tests c s of Inl s' \<Rightarrow> menu_loop tests fn cs s' | Inr s' \<Rightarrow> InTest c s')
      else if c = CHR ''4'' then menu_loop tests fn cs (detect_action fn s)
      else if c = CHR ''q'' then Quit (say (''haha-goto the end now.'' @ nl) s)
      else menu_loop tests fn cs (say (''==>Select command number(1-5) '' @ nl) s))"

definition bma_tests ::
  "int \<Rightarrow> bool \<Rightarrow> bool \<Rightarrow> int \<Rightarrow> string list \<Rightarrow> input_event \<Rightarrow> input_event option list \<Rightarrow>
   (nat \<Rightarrow> 8 word \<Rightarrow> int \<times> 8 word) \<Rightarrow> (int \<times> 8 word \<times> 8 word \<times> 8 word) list \<Rightarrow> char \<Rightarrow> msensor \<Rightarrow> msensor + msensor" where
  "bma_tests errno dev_opens event_opens junk argv data reads drv accs c s =
     (if c = CHR ''1'' then map_sum id snd (bma220_dev_process errno dev_opens (word_of_int junk) drv accs s)
      else if c = CHR ''2'' then bma220_input_process errno event_opens [junk, junk, junk] data reads s
      else map_sum id snd (bma220_put_file errno event_opens junk argv data reads s))"

definition msensor_main :: "(char \<Rightarrow> msensor \<Rightarrow> msensor + msensor) \<Rightarrow> nat \<Rightarrow> string \<Rightarrow> msensor \<Rightarrow> menu_end" where
  "msensor_main tests fn input s = menu_loop tests fn input (say msensor_help s)"

subsection \<open>What the log has\<close>

text \<open>The events as the loop sees them: a failed read repeats the event before.\<close>

fun seen :: "input_event \<Rightarrow> input_event option list \<Rightarrow> input_event list" where
  "seen e [] = []"
| "seen e (r # rs) = (let e' = (case r of None \<Rightarrow> e | Some e' \<Rightarrow> e') in e' # seen e' rs)"

lemma seen_all_Some [simp]: "seen e (map Some es) = es"
  by (induction es arbitrary: e) simp_all

text \<open>The value of an axis behind a list of events: that of its last event, or the one before.\<close>

definition axis_event :: "nat \<Rightarrow> input_event \<Rightarrow> bool" where
  "axis_event c e \<longleftrightarrow> ev_type e = EV_ABS \<and> ev_code e = c"

definition latest :: "nat \<Rightarrow> int \<Rightarrow> input_event list \<Rightarrow> int" where
  "latest c v es = (if filter (axis_event c) es = [] then v else ev_value (last (filter (axis_event c) es)))"

lemma latest_simps:
  "latest c v [] = v" "latest c v (es @ [e]) = (if axis_event c e then ev_value e else latest c v es)"
  by (simp_all add: latest_def)

text \<open>
  The lines of the log, as a specification: the places of the EV_SYN events, and for each of them the
  latest values of the axes before it, its time and its number.
\<close>

definition syn_places :: "input_event list \<Rightarrow> nat list" where
  "syn_places es = filter (\<lambda>i. ev_type (es ! i) = EV_SYN) [0..<length es]"

definition place_line :: "int \<times> int \<times> int \<Rightarrow> input_event list \<Rightarrow> nat \<Rightarrow> string" where
  "place_line xyz es i =
     (case xyz of (x, y, z) \<Rightarrow>
        log_line (latest ABS_X x (take i es)) (latest ABS_Y y (take i es)) (latest ABS_Z z (take i es)) (ev_time (es ! i))
          (s32 (int (length (syn_places (take i es))))))"

definition log_text :: "int \<times> int \<times> int \<Rightarrow> input_event list \<Rightarrow> string" where
  "log_text xyz es = concat (map (place_line xyz es) (syn_places es))"

lemma syn_places_snoc: "syn_places (es @ [e]) = syn_places es @ (if ev_type e = EV_SYN then [length es] else [])"
proof -
  have "filter (\<lambda>i. ev_type ((es @ [e]) ! i) = EV_SYN) [0..<length es] = filter (\<lambda>i. ev_type (es ! i) = EV_SYN) [0..<length es]"
    by (rule filter_cong) (auto simp: nth_append)
  then show ?thesis by (simp add: syn_places_def)
qed

lemma syn_places_bound: "i \<in> set (syn_places es) \<Longrightarrow> i < length es"
  by (simp add: syn_places_def)

lemma log_text_snoc:
  "log_text xyz (es @ [e]) = log_text xyz es @ (if ev_type e = EV_SYN then place_line xyz (es @ [e]) (length es) else [])"
proof -
  have "map (place_line xyz (es @ [e])) (syn_places es) = map (place_line xyz es) (syn_places es)"
    by (rule map_cong) (auto dest!: syn_places_bound simp: place_line_def nth_append split: prod.splits)
  then have "concat (map (place_line xyz (es @ [e])) (syn_places es)) = log_text xyz es"
    unfolding log_text_def by (rule arg_cong)
  then show ?thesis by (simp add: log_text_def [of xyz "es @ [e]"] syn_places_snoc)
qed

lemma seen_snoc: "seen e (rs @ [r]) = seen e rs @ [case r of None \<Rightarrow> (if rs = [] then e else last (seen e rs)) | Some e' \<Rightarrow> e']"
proof (induction rs arbitrary: e)
  case (Cons a rs)
  then show ?case by (cases rs) (auto simp: Let_def split: option.splits)
qed (auto split: option.splits)

lemma seen_Nil_iff [simp]: "seen e rs = [] \<longleftrightarrow> rs = []"
  by (cases rs) (simp_all add: Let_def)

lemma put_loop_logs:
  assumes "ms_log_ok s" "pl_index l = 0"
  shows "\<exists>out. put_loop junk rs (l, s) =
    (l\<lparr>pl_x := latest ABS_X (pl_x l) (seen (pl_data l) rs), pl_y := latest ABS_Y (pl_y l) (seen (pl_data l) rs),
       pl_z := latest ABS_Z (pl_z l) (seen (pl_data l) rs), pl_index := s32 (int (length (syn_places (seen (pl_data l) rs)))),
       pl_data := (if rs = [] then pl_data l else last (seen (pl_data l) rs))\<rparr>,
     s\<lparr>ms_log := ms_log s @ log_text (pl_x l, pl_y l, pl_z l) (seen (pl_data l) rs), ms_out := ms_out s @ out\<rparr>)"
proof (induction rs rule: rev_induct)
  case Nil
  have "s32 0 = 0" by (simp add: s32_def)
  with assms(2) show ?case by (intro exI [of _ "[]"]) (simp add: put_loop_def latest_simps log_text_def syn_places_def)
next
  case (snoc r rs)
  let ?es = "seen (pl_data l) rs"
  let ?l = "l\<lparr>pl_x := latest ABS_X (pl_x l) ?es, pl_y := latest ABS_Y (pl_y l) ?es, pl_z := latest ABS_Z (pl_z l) ?es,
    pl_index := s32 (int (length (syn_places ?es))), pl_data := (if rs = [] then pl_data l else last ?es)\<rparr>"
  from snoc obtain out where
    IH: "put_loop junk rs (l, s) =
      (?l, s\<lparr>ms_log := ms_log s @ log_text (pl_x l, pl_y l, pl_z l) ?es, ms_out := ms_out s @ out\<rparr>)" by blast
  define e where "e = (case r of None \<Rightarrow> (if rs = [] then pl_data l else last ?es) | Some e' \<Rightarrow> e')"
  have es: "seen (pl_data l) (rs @ [r]) = ?es @ [e]" by (simp add: seen_snoc e_def)
  have dat: "(case r of None \<Rightarrow> ?l | Some e \<Rightarrow> ?l\<lparr>pl_data := e\<rparr>) = ?l\<lparr>pl_data := e\<rparr>" by (cases r) (simp_all add: e_def)
  have ax: "axis_event ABS_X e \<longleftrightarrow> ev_type e = EV_ABS \<and> ev_code e = ABS_X" "axis_event ABS_Y e \<longleftrightarrow> ev_type e = EV_ABS \<and> ev_code e = ABS_Y"
    "axis_event ABS_Z e \<longleftrightarrow> ev_type e = EV_ABS \<and> ev_code e = ABS_Z" by (simp_all add: axis_event_def)
  have ne: "EV_ABS \<noteq> EV_SYN" "ABS_X \<noteq> ABS_Y" "ABS_X \<noteq> ABS_Z" "ABS_Y \<noteq> ABS_Z" by (simp_all add: bma_codes)
  have step: "put_loop junk (rs @ [r]) (l, s) = put_step junk r (put_loop junk rs (l, s))" by (simp add: put_loop_def)
  consider (x) "axis_event ABS_X e" | (y) "axis_event ABS_Y e" | (z) "axis_event ABS_Z e" | (syn) "ev_type e = EV_SYN"
    | (other) "\<not> axis_event ABS_X e" "\<not> axis_event ABS_Y e" "\<not> axis_event ABS_Z e" "ev_type e \<noteq> EV_SYN" by blast
  then show ?case
  proof cases
    case syn
    let ?line = "place_line (pl_x l, pl_y l, pl_z l) (?es @ [e]) (length ?es)"
    have line: "log_line (latest ABS_X (pl_x l) ?es) (latest ABS_Y (pl_y l) ?es) (latest ABS_Z (pl_z l) ?es) (ev_time e)
        (s32 (int (length (syn_places ?es)))) = ?line" by (simp add: place_line_def)
    show ?thesis
      using syn ne assms(1)
      by (intro exI [of _ "out @ ?line"])
        (simp add: step IH put_step_def dat Let_def es latest_simps ax line put_stream_def say_def log_text_snoc syn_places_snoc add.commute)
  qed (use ne in \<open>intro exI [of _ out], simp add: step IH put_step_def dat Let_def es latest_simps ax log_text_snoc syn_places_snoc\<close>)+
qed

subsection \<open>Properties\<close>

text \<open>The lines fit the buffer \<open>temp\<close> of 512 bytes.\<close>

lemma length_dec_int: "in_s32 v \<Longrightarrow> length (dec_int v) \<le> 11"
proof -
  assume "in_s32 v"
  then have "length (dec_str (nat (- v))) \<le> 10" "length (dec_str (nat v)) \<le> 10"
    by (auto simp: in_s32_def intro!: length_dec_str_u32)
  then show ?thesis by (simp add: dec_int_def)
qed

lemma length_log_line:
  assumes "in_s32 x" "in_s32 y" "in_s32 z" "in_s32 (tv_sec tv)" "0 \<le> tv_usec tv" "tv_usec tv < 1000000" "in_s32 index"
  shows "length (log_line x y z tv index) \<le> 68"
proof -
  have p: "length (pad_left k t) \<le> 11" if "k \<le> 11" "length t \<le> 11" for k t using that by (simp add: pad_left_def)
  have u: "length (dec_pad 6 (tv_usec tv)) = 6" using length_dec_pad [of 6 "nat (tv_usec tv)"] assms(5,6) by simp
  show ?thesis
    using p [of 10 "dec_int x"] p [of 10 "dec_int y"] p [of 10 "dec_int z"] p [of 10 "dec_int (tv_sec tv)"] p [of 6 "dec_int index"]
      length_dec_int assms u by (simp add: log_line_def)
qed

lemma say_keeps [simp]:
  "ms_log (say t s) = ms_log s" "ms_log_ok (say t s) = ms_log_ok s" "ms_data (say t s) = ms_data s" "ms_delay (say t s) = ms_delay s"
  "ms_enable (say t s) = ms_enable s" "ms_store (say t s) = ms_store s" "ms_write_ok (say t s) = ms_write_ok s"
  by (simp_all add: say_def)

lemma bma_get_keeps [simp]:
  "fst (bma_get name msg a errno s) = bma220_get a"
  "ms_log (snd (bma_get name msg a errno s)) = ms_log s" "ms_log_ok (snd (bma_get name msg a errno s)) = ms_log_ok s"
  "ms_data (snd (bma_get name msg a errno s)) = ms_data s" "ms_delay (snd (bma_get name msg a errno s)) = ms_delay s"
  "ms_enable (snd (bma_get name msg a errno s)) = ms_enable s" "ms_store (snd (bma_get name msg a errno s)) = ms_store s"
  "ms_write_ok (snd (bma_get name msg a errno s)) = ms_write_ok s"
  by (simp_all add: bma_get_def split: option.split)

lemma bma_set_keeps [simp]:
  "ms_log (snd (bma220_set_delay errno v s)) = ms_log s" "ms_log_ok (snd (bma220_set_delay errno v s)) = ms_log_ok s"
  "ms_data (snd (bma220_set_delay errno v s)) = ms_data s" "ms_enable (snd (bma220_set_delay errno v s)) = ms_enable s"
  "ms_store (snd (bma220_set_delay errno v s)) = ms_store s" "ms_write_ok (snd (bma220_set_delay errno v s)) = ms_write_ok s"
  "ms_log (snd (bma220_set_enable errno v s)) = ms_log s" "ms_log_ok (snd (bma220_set_enable errno v s)) = ms_log_ok s"
  "ms_data (snd (bma220_set_enable errno v s)) = ms_data s" "ms_delay (snd (bma220_set_enable errno v s)) = ms_delay s"
  by (simp_all add: bma220_set_delay_def bma220_set_enable_def split: prod.split)

lemma bma_set_stores:
  "ms_delay s \<noteq> None \<Longrightarrow> ms_write_ok s \<Longrightarrow> ms_delay (snd (bma220_set_delay errno v s)) = Some (Some (ms_store s (dec_int v)))"
  "ms_enable s \<noteq> None \<Longrightarrow> ms_write_ok s \<Longrightarrow> ms_enable (snd (bma220_set_enable errno v s)) = Some (Some (ms_store s (dec_int v)))"
  by (simp_all add: bma220_set_delay_def bma220_set_enable_def bma_written_def bma220_set_def)

lemma set_up_log:
  "set_up errno v s = (d, e, s') \<Longrightarrow> ms_log s' = ms_log s \<and> ms_log_ok s' = ms_log_ok s \<and> ms_data s' = ms_data s"
  by (auto simp: set_up_def bma220_get_delay_def bma220_get_enable_def Let_def case_prod_beta)

text \<open>With a driver that shows the text it was given, the delay asked for is the delay reported.\<close>

lemma set_up_reports:
  assumes "ms_delay s \<noteq> None" "ms_enable s \<noteq> None" "ms_write_ok s" "ms_store s = id" "in_s32 v"
  shows "\<exists>s'. set_up errno v s = (v, 1, s')"
proof -
  have g: "bma220_get (Some (Some (dec_int u))) = u" if "in_s32 u" for u
    using bma220_set_get [OF that] by (simp add: bma220_set_def)
  have "bma220_get (Some (Some (dec_int 1))) = 1" by (rule g) simp
  with g [OF assms(5)] show ?thesis
    using assms(1-4)
    by (simp add: set_up_def bma220_get_delay_def bma220_get_enable_def Let_def case_prod_beta bma_set_stores)
qed

text \<open>
  C36: The log of the sensor. Behind the line with the settings the log file gets exactly one line for
  every EV_SYN event the loop sees, in order: the latest values of the three axes before that event
  (those of the attribute at first), the time of the event, and the running number of the line.
  An event whose read fails is seen a second time.
\<close>

theorem bma220_put_file_logs:
  assumes "ms_log_ok s" "set_up errno (if 2 \<le> length argv mod 256 then sint (strtoul10 (argv ! 1)) else 100) s = (d, e, s1)"
    "bma220_get_data (ms_data s) [0, 0, 0] = (ret, [x, y, z])"
  shows "\<exists>l s'. bma220_put_file errno True junk argv data reads s = Inr (l, s') \<and>
    ms_log s' = ms_log s @ settings_line d e @ log_text (x, y, z) (seen data reads)"
proof -
  have s1: "ms_log s1 = ms_log s" "ms_log_ok s1" "ms_data s1 = ms_data s" using set_up_log [OF assms(2)] assms(1) by simp_all
  define s2 where "s2 = s1\<lparr>ms_log := ms_log s1 @ settings_line d e\<rparr>"
  have ps: "put_stream junk (Some (settings_line d e)) s1 = (1, s2)" by (simp add: put_stream_def s1(2) s2_def)
  obtain s3 where px: "print_xyz (bma_data errno [0, 0, 0] s2) = ([x, y, z], s3)" "ms_log s3 = ms_log s2" "ms_log_ok s3 = ms_log_ok s2"
    using assms(3) by (auto simp: print_xyz_def bma_data_def s2_def s1(3) say_def split: option.splits)
  let ?l = "\<lparr>pl_x = x, pl_y = y, pl_z = z, pl_index = 0, pl_data = data\<rparr>"
  let ?s = "say open_ok s3"
  have "ms_log_ok ?s" "ms_log ?s = ms_log s @ settings_line d e"
    using px(2,3) s1 by (simp_all add: say_def s2_def)
  then obtain out l where "put_loop junk reads (?l, ?s) = (l, ?s\<lparr>ms_log := (ms_log s @ settings_line d e) @
      log_text (x, y, z) (seen data reads), ms_out := ms_out ?s @ out\<rparr>)"
    using put_loop_logs [of ?s ?l junk reads] by auto
  then show ?thesis
    using assms(2) by (simp add: bma220_put_file_def Let_def ps px(1))
qed

definition demo_sensor :: msensor where
  "demo_sensor =
     \<lparr>ms_delay = Some (Some ''100''), ms_enable = Some (Some ''1''), ms_data = Some (Some ''1 2 3''), ms_write_ok = True, ms_store = id,
      ms_log_ok = True, ms_log = [], ms_out = [], ms_callbacks = replicate 5 cb_free, ms_services = 0\<rparr>"

abbreviation ievent :: "nat \<Rightarrow> nat \<Rightarrow> int \<Rightarrow> input_event" where
  "ievent t c v \<equiv> \<lparr>ev_time = \<lparr>tv_sec = 0, tv_usec = 0\<rparr>, ev_type = t, ev_code = c, ev_value = v\<rparr>"

theorem bma220_put_file_logs_witness:
  "\<exists>l s'. bma220_put_file 0 True 0 [''msensor_demo''] (ievent 0 0 0) [Some (ievent 3 0 7), Some (ievent 0 0 0), None] demo_sensor = Inr (l, s') \<and>
     ms_log s' = settings_line 100 1 @ log_line 7 2 3 \<lparr>tv_sec = 0, tv_usec = 0\<rparr> 0 @ log_line 7 2 3 \<lparr>tv_sec = 0, tv_usec = 0\<rparr> 1"
proof -
  obtain s1 where s1: "set_up 0 100 demo_sensor = (100, 1, s1)"
    using set_up_reports [of demo_sensor 100 0] by (auto simp: demo_sensor_def)
  have x: "bma220_get_data (ms_data demo_sensor) [0, 0, 0] = (0, [1, 2, 3])"
    by (simp add: demo_sensor_def bma220_get_data_def eval_nat_numeral isspace_c_def is_digit_of_def digit_val_def clamp_long_def)
  have t: "log_text (1, 2, 3) (seen (ievent 0 0 0) [Some (ievent 3 0 7), Some (ievent 0 0 0), None]) =
      log_line 7 2 3 \<lparr>tv_sec = 0, tv_usec = 0\<rparr> 0 @ log_line 7 2 3 \<lparr>tv_sec = 0, tv_usec = 0\<rparr> 1"
    by (simp add: log_text_def syn_places_def place_line_def latest_def axis_event_def bma_codes s32_def Let_def)
  have "ms_log_ok demo_sensor" "ms_log demo_sensor = []" by (simp_all add: demo_sensor_def)
  then show ?thesis
    using bma220_put_file_logs [of demo_sensor 0 "[''msensor_demo'']" 100 1 s1 0 1 2 3 0 "ievent 0 0 0"
        "[Some (ievent 3 0 7), Some (ievent 0 0 0), None]"] s1 x t
    by simp
qed

text \<open>
  The menu: the choice 4 fills the table of callbacks; a second time it finds it full, prints five
  messages and starts one more service thread.
\<close>

lemma detect_action_once:
  assumes "ms_callbacks s = replicate 5 cb_free"
  shows "ms_callbacks (detect_action fn s) =
      map (\<lambda>a. \<lparr>cb_action = a, pfnCallBack = Some fn\<rparr>)
        [MOTION_ACTION_SLOW_UP, MOTION_ACTION_SLOW_DOWN, MOTION_ACTION_COLLISION, MOTION_ACTION_GZ0, MOTION_ACTION_GZ180]"
    "ms_services (detect_action fn s) = ms_services s + 1" "ms_out (detect_action fn s) = ms_out s"
  using assms by (simp_all add: detect_action_def register_proc_def motion_register_action_def set_callback_def cb_free_def Let_def eval_nat_numeral)

lemma detect_action_again:
  assumes "list_all (\<lambda>cb. cb_action cb \<noteq> MOTION_ACTION_NULL) (ms_callbacks s)"
  shows "ms_callbacks (detect_action fn s) = ms_callbacks s" "ms_services (detect_action fn s) = ms_services s + 1"
proof -
  have full: "find_free i cbs = -1" if "list_all (\<lambda>cb. cb_action cb \<noteq> MOTION_ACTION_NULL) cbs" for i cbs
    using that by (induction cbs arbitrary: i) simp_all
  show "ms_callbacks (detect_action fn s) = ms_callbacks s" "ms_services (detect_action fn s) = ms_services s + 1"
    using full [OF assms] by (simp_all add: detect_action_def register_proc_def motion_register_action_def say_def Let_def)
qed

lemma msensor_main_quits:
  "\<exists>s'. msensor_main tests fn (CHR ''q'' # cs) s = Quit s' \<and> ms_log s' = ms_log s"
  by (simp add: msensor_main_def)

text \<open>The test of the driver makes its thirteen requests in this order and with these bytes, whatever the answers are.\<close>

lemma bma220_dev_process_requests:
  assumes "\<forall>k b. snd (drv k b) = b"
  shows "\<exists>s'. bma220_dev_process errno True junk drv accs s =
    Inr ([(BMA220_IOCTL_EVENT_CTRL, 0), (BMA220_IOCTL_CALIBRATION, 0), (BMA220_SOFT_RESET, 0), (BMA220_SET_SUSPEND, 1),
      (BMA220_SET_RANGE, 0), (BMA220_GET_RANGE, 255), (BMA220_SET_BANDWIDTH, 2), (BMA220_GET_BANDWIDTH, 255),
      (BMA220_RESET_INTERRUPT, 255), (BMA220_SET_OFFSET_RESET, 255), (BMA220_GET_CHIP_ID, 255), (BMA220_GET_SLEEP_EN, 255),
      (BMA220_GET_SLEEP_DUR, 255)], s')"
  using assms by (simp add: bma220_dev_process_def dev_items_def Let_def case_prod_beta)

end
