(* ===== verification/SpiFlash.thy ===== *)
theory SpiFlash
  imports CString
begin

text \<open>
  The SPI demo src/spi/spi.c: the commands for a serial flash memory, sent through the requests of
  the SPI driver, and the test that erases, writes, reads back and compares.

  \<^item> \<open>spi\<close> is the global variable \<open>gdata\<close> with the list of the requests made so far: chip select,
    deselect, and transfers with their number of bits and their data.
  \<^item> The driver and the chip behind it are the argument \<open>ans\<close>: what \<open>gdata.read_data\<close> is after a
    transfer, given all requests up to it. The results of \<open>ioctl\<close> are not looked at by the code.
  \<^item> A function that polls the chip returns \<open>None\<close> when it does not return.
  \<^item> The second half says what a serial flash is (\<open>serial_flash\<close>) and shows that the test
    succeeds on every such chip.
\<close>

datatype bus = Sel | Desel | Xfer nat "32 word"

record spi =
  hist :: "bus list"
  gd_write :: "32 word"
  gd_read :: "32 word"
  gd_bits :: nat

type_synonym answers = "bus list \<Rightarrow> 32 word"

definition Swap16 :: "16 word \<Rightarrow> 16 word" where
  "Swap16 v = push_bit 8 v OR drop_bit 8 v"

definition FLASH_BUFFER_SIZE :: nat where "FLASH_BUFFER_SIZE = 2048"

definition SpiSelectCS0 :: "spi \<Rightarrow> spi" where
  "SpiSelectCS0 s = s\<lparr>hist := hist s @ [Sel]\<rparr>"

definition SpiDeselectCS0 :: "spi \<Rightarrow> spi" where
  "SpiDeselectCS0 s = s\<lparr>hist := hist s @ [Desel]\<rparr>"

text \<open>\<open>SpiSetData\<close>, \<open>SpiSetBitLen\<close> and \<open>SpiDoTransit\<close>, which the code always uses together.\<close>

definition transit :: "answers \<Rightarrow> nat \<Rightarrow> 32 word \<Rightarrow> spi \<Rightarrow> spi" where
  "transit ans bits v s =
     (let h = hist s @ [Xfer bits v] in s\<lparr>hist := h, gd_write := v, gd_bits := bits, gd_read := ans h\<rparr>)"

partial_function (option) busy_loop :: "answers \<Rightarrow> spi \<Rightarrow> spi option" where
  "busy_loop ans s =
     (let s = transit ans 8 0xff s in
      if (gd_read s AND 0xff) AND 1 \<noteq> 1 then Some s else busy_loop ans s)"

definition spiCheckBusy :: "answers \<Rightarrow> spi \<Rightarrow> spi option" where
  "spiCheckBusy ans s =
     map_option SpiDeselectCS0 (busy_loop ans (transit ans 8 0x05 (SpiSelectCS0 s)))"

text \<open>The loop of the two reading functions; the bytes in the order they are stored.\<close>

fun read_bytes :: "answers \<Rightarrow> nat \<Rightarrow> spi \<Rightarrow> 8 word list \<times> spi" where
  "read_bytes ans 0 s = ([], s)"
| "read_bytes ans (Suc n) s =
     (let s = transit ans 8 0xff s; v = ucast (gd_read s AND 0xff) in
      case read_bytes ans n s of (vs, s') \<Rightarrow> (v # vs, s'))"

definition spiRead :: "answers \<Rightarrow> 32 word \<Rightarrow> 32 word \<Rightarrow> spi \<Rightarrow> (8 word list \<times> spi) option" where
  "spiRead ans addr len s =
     (case spiCheckBusy ans s of
        None \<Rightarrow> None
      | Some s \<Rightarrow>
          (let s = transit ans 24 addr (transit ans 8 0x03 (SpiSelectCS0 s)) in
           case read_bytes ans (unat len) s of (vs, s) \<Rightarrow> Some (vs, SpiDeselectCS0 s)))"

definition spiReadFast :: "answers \<Rightarrow> 32 word \<Rightarrow> 32 word \<Rightarrow> spi \<Rightarrow> (8 word list \<times> spi) option" where
  "spiReadFast ans addr len s =
     (case spiCheckBusy ans s of
        None \<Rightarrow> None
      | Some s \<Rightarrow>
          (let s = transit ans 8 0xff (transit ans 24 addr (transit ans 8 0x0b (SpiSelectCS0 s))) in
           case read_bytes ans (unat len) s of (vs, s) \<Rightarrow> Some (vs, SpiDeselectCS0 s)))"

definition spiWriteEnable :: "answers \<Rightarrow> spi \<Rightarrow> spi" where
  "spiWriteEnable ans s = SpiDeselectCS0 (transit ans 8 0x06 (SpiSelectCS0 s))"

definition spiWriteDisable :: "answers \<Rightarrow> spi \<Rightarrow> spi" where
  "spiWriteDisable ans s = SpiDeselectCS0 (transit ans 8 0x04 (SpiSelectCS0 s))"

text \<open>
  The data of a page: the buffer holds bytes and is read as 16-bit numbers of a little-endian
  machine.
\<close>

definition halfword :: "8 word \<Rightarrow> 8 word \<Rightarrow> 16 word" where
  "halfword lo hi = ucast lo OR push_bit 8 (ucast hi)"

fun write_data :: "answers \<Rightarrow> nat \<Rightarrow> bytes \<Rightarrow> spi \<Rightarrow> fault + (bytes \<times> spi)" where
  "write_data ans 0 buf s = Inr (buf, s)"
| "write_data ans (Suc page) (lo # hi # buf) s = write_data ans page buf (transit ans 16 (ucast (Swap16 (halfword lo hi))) s)"
| "write_data ans (Suc page) buf s = Inl OutOfBounds"

text \<open>The loop over the pages; \<open>n\<close> of them are left.\<close>

fun write_pages :: "answers \<Rightarrow> 32 word \<Rightarrow> nat \<Rightarrow> nat \<Rightarrow> 32 word \<Rightarrow> bytes \<Rightarrow> spi \<Rightarrow> (fault + spi) option" where
  "write_pages ans addr i 0 len buf s = Some (Inr s)"
| "write_pages ans addr i (Suc n) len buf s =
     (let page = (if 256 \<le> len then 128 else unat len div 2);
          len = (if 256 \<le> len then len - 256 else len);
          s = SpiSelectCS0 (spiWriteEnable ans s);
          s = transit ans 24 (addr + of_nat i * 256) (transit ans 8 0x02 s)
      in
        case write_data ans page buf s of
          Inl e \<Rightarrow> Some (Inl e)
        | Inr (buf, s) \<Rightarrow>
            (case spiCheckBusy ans (SpiDeselectCS0 s) of
               None \<Rightarrow> None
             | Some s \<Rightarrow> write_pages ans addr (Suc i) n len buf s))"

definition page_count :: "32 word \<Rightarrow> nat" where
  "page_count len = unat len div 256 + (if unat len mod 256 \<noteq> 0 then 1 else 0)"

definition spiWrite :: "answers \<Rightarrow> 32 word \<Rightarrow> 32 word \<Rightarrow> bytes \<Rightarrow> spi \<Rightarrow> (fault + spi) option" where
  "spiWrite ans addr len buf s =
     (case spiCheckBusy ans s of None \<Rightarrow> None | Some s \<Rightarrow> write_pages ans addr 0 (page_count len) len buf s)"

fun erase_sectors :: "answers \<Rightarrow> 32 word \<Rightarrow> nat \<Rightarrow> nat \<Rightarrow> spi \<Rightarrow> spi option" where
  "erase_sectors ans addr i 0 s = Some s"
| "erase_sectors ans addr i (Suc n) s =
     (let s = SpiSelectCS0 (spiWriteEnable ans s);
          s = transit ans 24 (addr + of_nat i * 256) (transit ans 8 0xd8 s)
      in case spiCheckBusy ans (SpiDeselectCS0 s) of None \<Rightarrow> None | Some s \<Rightarrow> erase_sectors ans addr (Suc i) n s)"

definition spiEraseSector :: "answers \<Rightarrow> 32 word \<Rightarrow> 32 word \<Rightarrow> spi \<Rightarrow> spi option" where
  "spiEraseSector ans addr secCount s =
     (case spiCheckBusy ans s of None \<Rightarrow> None | Some s \<Rightarrow> erase_sectors ans addr 0 (unat secCount) s)"

definition spiEraseAll :: "answers \<Rightarrow> spi \<Rightarrow> spi option" where
  "spiEraseAll ans s =
     spiCheckBusy ans (SpiDeselectCS0 (transit ans 8 0xc7 (SpiSelectCS0 (spiWriteEnable ans s))))"

definition spiReadID :: "answers \<Rightarrow> spi \<Rightarrow> 16 word \<times> spi" where
  "spiReadID ans s =
     (let s = transit ans 16 0xffff (transit ans 24 0 (transit ans 8 0x90 (SpiSelectCS0 s)))
      in (ucast (gd_read s AND 0xffff), SpiDeselectCS0 s))"

definition spiStatusRead :: "answers \<Rightarrow> spi \<Rightarrow> 8 word \<times> spi" where
  "spiStatusRead ans s =
     (let s = transit ans 8 0xff (transit ans 8 0x05 (SpiSelectCS0 s))
      in (ucast (gd_read s AND 0xff), SpiDeselectCS0 s))"

definition spiStatusWrite :: "answers \<Rightarrow> 8 word \<Rightarrow> spi \<Rightarrow> spi option" where
  "spiStatusWrite ans v s =
     spiCheckBusy ans (SpiDeselectCS0 (transit ans 8 (ucast v) (transit ans 8 0x01 (SpiSelectCS0 (spiWriteEnable ans s)))))"

subsection \<open>The test\<close>

definition Flash_Buf :: bytes where
  "Flash_Buf = map of_nat [0..<FLASH_BUFFER_SIZE]"

definition hex_pad :: "nat \<Rightarrow> nat \<Rightarrow> string" where
  "hex_pad k n = replicate (k - length (hex_str n)) CHR ''0'' @ hex_str n"

text \<open>The comparison: the first place that differs, with both values.\<close>

fun compare_loop :: "nat \<Rightarrow> bytes \<Rightarrow> bytes \<Rightarrow> (nat \<times> 8 word \<times> 8 word) option" where
  "compare_loop i (r # rs) (b # bs) = (if r \<noteq> b then Some (i, r, b) else compare_loop (Suc i) rs bs)"
| "compare_loop i _ _ = None"

text \<open>\<open>spiFlashTest\<close>: the text it prints, and the requests.\<close>

definition compare_text :: "(nat \<times> 8 word \<times> 8 word) option \<Rightarrow> string" where
  "compare_text r =
     (case r of
        None \<Rightarrow> []
      | Some (i, w, c) \<Rightarrow>
          ''error! ['' @ dec_str i @ '']->wrong['' @ hex_str (unat w) @ ''] / correct['' @ hex_str (unat c) @ '']'' @ [CHR 0x0A])"

definition test_text :: "16 word \<Rightarrow> 8 word \<Rightarrow> (nat \<times> 8 word \<times> 8 word) option \<Rightarrow> string" where
  "test_text ident status r =
     ''flash ID [0x'' @ hex_pad 4 (unat ident) @ '']'' @ [CHR 0x0A] @ ''flash status [0x'' @ hex_pad 2 (unat status) @ '']'' @ [CHR 0x0A] @
     ''erase sector'' @ [CHR 0x0A] @ ''write'' @ [CHR 0x0A] @ ''read'' @ [CHR 0x0A] @ ''compare'' @ [CHR 0x0A] @ compare_text r @
     ''finish..'' @ [CHR 0x0A]"

definition spiFlashTest :: "answers \<Rightarrow> spi \<Rightarrow> (fault + ((nat \<times> 8 word \<times> 8 word) option \<times> string \<times> spi)) option" where
  "spiFlashTest ans s =
     (let (ident, s) = spiReadID ans s;
          (status, s) = spiStatusRead ans s;
          size = of_nat FLASH_BUFFER_SIZE
      in
        case spiEraseSector ans 0 (of_nat (page_count size)) s of
          None \<Rightarrow> None
        | Some s \<Rightarrow>
            (case spiWrite ans 0 size Flash_Buf s of
               None \<Rightarrow> None
             | Some (Inl e) \<Rightarrow> Some (Inl e)
             | Some (Inr s) \<Rightarrow>
                 (case spiRead ans 0 size s of
                    None \<Rightarrow> None
                  | Some (ReadBackBuffer, s) \<Rightarrow>
                      if FLASH_BUFFER_SIZE < length ReadBackBuffer then Some (Inl OutOfBounds)
                      else
                        (let r = compare_loop 0 ReadBackBuffer Flash_Buf in Some (Inr (r, test_text ident status r, s))))))"

text \<open>
  \<open>main\<close>: the parameters of the driver and the test. \<open>None\<close>: the device can not be opened; \<open>para\<close> is
  what the driver gives back for the parameters set.
\<close>

record spi_parameter =
  active_level :: nat
  lsb :: nat
  tx_neg :: nat
  rx_neg :: nat
  divider :: nat
  sleep :: nat

definition spi_para :: spi_parameter where
  "spi_para = \<lparr>active_level = 0, lsb = 0, tx_neg = 1, rx_neg = 0, divider = 30, sleep = 0\<rparr>"

definition para_text :: "spi_parameter \<Rightarrow> string" where
  "para_text p =
     ''para.lsb : '' @ dec_str (lsb p) @ [CHR 0x0A] @ ''para.tx_neg : '' @ dec_str (tx_neg p) @ [CHR 0x0A] @
     ''para.rx_neg : '' @ dec_str (rx_neg p) @ [CHR 0x0A] @ ''para.divider : '' @ dec_str (divider p) @ [CHR 0x0A] @
     ''para.active_level : '' @ dec_str (active_level p) @ [CHR 0x0A] @ ''para.sleep : '' @ dec_str (sleep p) @ [CHR 0x0A]"

definition spi_main ::
  "bool \<Rightarrow> (spi_parameter \<Rightarrow> spi_parameter) \<Rightarrow> answers \<Rightarrow> spi \<Rightarrow> (fault + (int \<times> string)) option" where
  "spi_main opens drv ans s =
     (if \<not> opens then Some (Inr (-1, ''Open spi error'' @ [CHR 0x0A]))
      else
        (case spiFlashTest ans s of
           None \<Rightarrow> None
         | Some (Inl e) \<Rightarrow> Some (Inl e)
         | Some (Inr (r, t, s)) \<Rightarrow> Some (Inr (0, para_text (drv spi_para) @ t))))"

subsection \<open>What a serial flash is\<close>

text \<open>
  The documented behaviour of a serial flash memory, as a machine that follows the requests. \<open>fl_cur\<close> are the
  transfers since the chip was selected. A command takes effect when the chip is deselected: write
  enable (06h) and disable (04h) change the latch; page program (02h), block erase of 64 kilobytes
  (d8h) and chip erase (c7h) need the latch and clear it. Programming clears bits; the address runs
  round inside the page of 256 bytes, and of more than 256 bytes the last ones count.
\<close>

record flash =
  fl_mem :: "nat \<Rightarrow> 8 word"
  fl_wel :: bool
  fl_cur :: "(nat \<times> 32 word) list"

definition addr24 :: "32 word \<Rightarrow> nat" where
  "addr24 a = unat a mod 16777216"

text \<open>The bytes of a transfer: the high byte goes first.\<close>

definition wire_bytes :: "nat \<times> 32 word \<Rightarrow> bytes" where
  "wire_bytes = (\<lambda>(bits, v). if bits = 16 then [ucast (drop_bit 8 v), ucast v] else [ucast v])"

definition page_latch :: "nat \<Rightarrow> bytes \<Rightarrow> nat \<Rightarrow> 8 word option" where
  "page_latch a vs = map_of (rev (zip (map (\<lambda>k. (a + k) mod 256) [0..<length vs]) vs))"

definition program :: "nat \<Rightarrow> bytes \<Rightarrow> (nat \<Rightarrow> 8 word) \<Rightarrow> nat \<Rightarrow> 8 word" where
  "program a vs m = (\<lambda>x.
     if x div 256 = a div 256 then (case page_latch a vs (x mod 256) of None \<Rightarrow> m x | Some v \<Rightarrow> m x AND v) else m x)"

definition erase_block :: "nat \<Rightarrow> (nat \<Rightarrow> 8 word) \<Rightarrow> nat \<Rightarrow> 8 word" where
  "erase_block a m = (\<lambda>x. if x div 65536 = a div 65536 then 255 else m x)"

fun flash_exec :: "(nat \<times> 32 word) list \<Rightarrow> flash \<Rightarrow> flash" where
  "flash_exec [] f = f"
| "flash_exec ((bits, c) # args) f =
     (if c = 0x06 \<and> args = [] then f\<lparr>fl_wel := True\<rparr>
      else if c = 0x04 \<and> args = [] then f\<lparr>fl_wel := False\<rparr>
      else if c = 0x02 \<and> fl_wel f \<and> args \<noteq> [] then
        f\<lparr>fl_mem := program (addr24 (snd (hd args))) (concat (map wire_bytes (tl args))) (fl_mem f), fl_wel := False\<rparr>
      else if c = 0xd8 \<and> fl_wel f \<and> length args = 1 then f\<lparr>fl_mem := erase_block (addr24 (snd (hd args))) (fl_mem f), fl_wel := False\<rparr>
      else if c = 0xc7 \<and> fl_wel f \<and> args = [] then f\<lparr>fl_mem := \<lambda>_. 255, fl_wel := False\<rparr>
      else f)"

definition flash_step :: "bus \<Rightarrow> flash \<Rightarrow> flash" where
  "flash_step b f =
     (case b of
        Sel \<Rightarrow> f\<lparr>fl_cur := []\<rparr>
      | Xfer bits v \<Rightarrow> f\<lparr>fl_cur := fl_cur f @ [(bits, v)]\<rparr>
      | Desel \<Rightarrow> (flash_exec (fl_cur f) f)\<lparr>fl_cur := []\<rparr>)"

definition flash_of :: "flash \<Rightarrow> bus list \<Rightarrow> flash" where
  "flash_of f0 h = fold flash_step h f0"

text \<open>
  The answers: behind a read command and its address come the bytes of the memory, one per transfer;
  behind the status command the busy bit is clear after at most \<open>N\<close> transfers.
\<close>

definition serial_flash :: "nat \<Rightarrow> flash \<Rightarrow> answers \<Rightarrow> bool" where
  "serial_flash N f0 ans \<longleftrightarrow>
     (\<forall>h a ds. fl_cur (flash_of f0 h) = (8, 0x03) # (24, a) # ds \<and> ds \<noteq> [] \<longrightarrow>
        ucast (ans h AND 0xff) = fl_mem (flash_of f0 h) ((addr24 a + length ds - 1) mod 16777216)) \<and>
     (\<forall>h a d ds. fl_cur (flash_of f0 h) = (8, 0x0b) # (24, a) # d # ds \<and> ds \<noteq> [] \<longrightarrow>
        ucast (ans h AND 0xff) = fl_mem (flash_of f0 h) ((addr24 a + length ds - 1) mod 16777216)) \<and>
     (\<forall>h ds. fl_cur (flash_of f0 h) = (8, 0x05) # ds \<and> N < length ds \<longrightarrow> ans h AND 1 = 0)"

lemma serial_flashD:
  assumes "serial_flash N f0 ans"
  shows "fl_cur (flash_of f0 h) = (8, 0x03) # (24, a) # ds \<Longrightarrow> ds \<noteq> [] \<Longrightarrow>
      ucast (ans h AND 0xff) = fl_mem (flash_of f0 h) ((addr24 a + length ds - 1) mod 16777216)"
    "fl_cur (flash_of f0 h) = (8, 0x0b) # (24, a) # d # ds \<Longrightarrow> ds \<noteq> [] \<Longrightarrow>
      ucast (ans h AND 0xff) = fl_mem (flash_of f0 h) ((addr24 a + length ds - 1) mod 16777216)"
    "fl_cur (flash_of f0 h) = (8, 0x05) # ds \<Longrightarrow> N < length ds \<Longrightarrow> ans h AND 1 = 0"
  using assms unfolding serial_flash_def by blast+

subsection \<open>The chip behind the functions\<close>

definition chip :: "flash \<Rightarrow> spi \<Rightarrow> flash" where
  "chip f0 s = flash_of f0 (hist s)"

lemma flash_of_snoc: "flash_of f0 (h @ [b]) = flash_step b (flash_of f0 h)"
  by (simp add: flash_of_def)

lemma chip_ops [simp]:
  "chip f0 (SpiSelectCS0 s) = (chip f0 s)\<lparr>fl_cur := []\<rparr>"
  "chip f0 (SpiDeselectCS0 s) = (flash_exec (fl_cur (chip f0 s)) (chip f0 s))\<lparr>fl_cur := []\<rparr>"
  "chip f0 (transit ans bits v s) = (chip f0 s)\<lparr>fl_cur := fl_cur (chip f0 s) @ [(bits, v)]\<rparr>"
  by (simp_all add: chip_def SpiSelectCS0_def SpiDeselectCS0_def transit_def Let_def flash_of_snoc flash_step_def)

lemma gd_read_transit: "gd_read (transit ans bits v s) = ans (hist (transit ans bits v s))"
  by (simp add: transit_def Let_def)

lemma busy_loop_returns:
  assumes "serial_flash N f0 ans" "fl_cur (chip f0 s) = (8, 0x05) # ds"
  shows "\<exists>s' ds'. busy_loop ans s = Some s' \<and> chip f0 s' = (chip f0 s)\<lparr>fl_cur := (8, 0x05) # ds'\<rparr>"
  using assms(2)
proof (induction "Suc N - length ds" arbitrary: s ds rule: less_induct)
  case less
  let ?s = "transit ans 8 0xff s"
  have c: "chip f0 ?s = (chip f0 s)\<lparr>fl_cur := (8, 0x05) # ds @ [(8, 0xff)]\<rparr>" using less.prems by simp
  show ?case
  proof (cases "(gd_read ?s AND 0xff) AND 1 \<noteq> 1")
    case True
    then show ?thesis using c by (subst busy_loop.simps) (auto simp: Let_def)
  next
    case False
    have "\<not> N < length (ds @ [(8, 0xff)])"
    proof
      assume "N < length (ds @ [(8 :: nat, 0xff :: 32 word)])"
      then have "gd_read ?s AND 1 = 0"
        using serial_flashD(3) [OF assms(1), of "hist ?s" "ds @ [(8, 0xff)]"] c by (simp add: gd_read_transit chip_def)
      with False show False by (simp add: and.assoc)
    qed
    then have "Suc N - length (ds @ [(8 :: nat, 0xff :: 32 word)]) < Suc N - length ds" by simp
    moreover have "fl_cur (chip f0 ?s) = (8, 0x05) # (ds @ [(8, 0xff)])" by (simp only: c) simp
    ultimately obtain s' ds' where
      "busy_loop ans ?s = Some s'" "chip f0 s' = (chip f0 ?s)\<lparr>fl_cur := (8, 0x05) # ds'\<rparr>"
      using less.hyps by blast
    then show ?thesis using False c by (subst busy_loop.simps) (auto simp: Let_def)
  qed
qed

lemma spiCheckBusy_returns:
  assumes "serial_flash N f0 ans"
  obtains s' where "spiCheckBusy ans s = Some s'" "chip f0 s' = (chip f0 s)\<lparr>fl_cur := []\<rparr>"
proof -
  let ?s = "transit ans 8 0x05 (SpiSelectCS0 s)"
  have "fl_cur (chip f0 ?s) = [(8, 0x05)]" by simp
  from busy_loop_returns [OF assms this] obtain s' ds' where
    b: "busy_loop ans ?s = Some s'" "chip f0 s' = (chip f0 ?s)\<lparr>fl_cur := (8, 0x05) # ds'\<rparr>" by blast
  show thesis
  proof (rule that)
    show "spiCheckBusy ans s = Some (SpiDeselectCS0 s')" by (simp add: spiCheckBusy_def b(1))
    show "chip f0 (SpiDeselectCS0 s') = (chip f0 s)\<lparr>fl_cur := []\<rparr>" using b(2) by simp
  qed
qed

lemma chip_spiWriteEnable [simp]: "chip f0 (spiWriteEnable ans s) = (chip f0 s)\<lparr>fl_wel := True, fl_cur := []\<rparr>"
  by (simp add: spiWriteEnable_def)

subsection \<open>Reading\<close>

text \<open>The loop behind any command that makes the chip deliver its memory: \<open>pre\<close> is what was sent before.\<close>

lemma read_bytes_ok:
  assumes "\<And>h ds. fl_cur (flash_of f0 h) = pre @ ds \<Longrightarrow> ds \<noteq> [] \<Longrightarrow>
      ucast (ans h AND 0xff) = fl_mem (flash_of f0 h) ((a + length ds - 1) mod 16777216)"
    and "fl_cur (chip f0 s) = pre @ ds" "m = fl_mem (chip f0 s)"
  shows "\<exists>s' ds'. read_bytes ans n s = (map (\<lambda>k. m ((a + length ds + k) mod 16777216)) [0..<n], s') \<and>
    chip f0 s' = (chip f0 s)\<lparr>fl_cur := pre @ ds'\<rparr>"
  using assms(2,3)
proof (induction n arbitrary: s ds)
  case 0
  then show ?case by (intro exI [of _ s] exI [of _ ds]) simp
next
  case (Suc n)
  let ?s = "transit ans 8 0xff s" and ?ds = "ds @ [(8, 0xff)]"
  have c: "chip f0 ?s = (chip f0 s)\<lparr>fl_cur := pre @ ?ds\<rparr>" using Suc.prems by simp
  then have cur: "fl_cur (chip f0 ?s) = pre @ ?ds" by simp
  have v: "ucast (gd_read ?s AND 0xff) = m ((a + length ds) mod 16777216)"
    using assms(1) [of "hist ?s" ?ds] cur Suc.prems(2) c by (simp add: gd_read_transit chip_def)
  obtain s' ds' where r: "read_bytes ans n ?s = (map (\<lambda>k. m ((a + length ?ds + k) mod 16777216)) [0..<n], s')"
    "chip f0 s' = (chip f0 ?s)\<lparr>fl_cur := pre @ ds'\<rparr>"
    using Suc.IH [OF cur] Suc.prems(2) by auto
  have "[0..<Suc n] = 0 # map Suc [0..<n]" by (simp add: map_Suc_upt upt_conv_Cons)
  then show ?case using r c v by (intro exI [of _ s'] exI [of _ ds']) (simp add: Let_def comp_def del: upt_Suc)
qed

definition memory_at :: "flash \<Rightarrow> 32 word \<Rightarrow> nat \<Rightarrow> bytes" where
  "memory_at f addr n = map (\<lambda>k. fl_mem f ((addr24 addr + k) mod 16777216)) [0..<n]"

lemma spiRead_ok:
  assumes "serial_flash N f0 ans"
  obtains s' where "spiRead ans addr len s = Some (memory_at (chip f0 s) addr (unat len), s')"
    "chip f0 s' = (chip f0 s)\<lparr>fl_cur := []\<rparr>"
proof -
  obtain s1 where s1: "spiCheckBusy ans s = Some s1" "chip f0 s1 = (chip f0 s)\<lparr>fl_cur := []\<rparr>"
    using spiCheckBusy_returns [OF assms] .
  let ?s = "transit ans 24 addr (transit ans 8 0x03 (SpiSelectCS0 s1))" and ?pre = "[(8, 0x03), (24, addr)]"
  have "fl_cur (chip f0 ?s) = ?pre @ []" using s1(2) by simp
  from read_bytes_ok [where pre = ?pre and a = "addr24 addr", OF _ this refl, of ans "unat len"] serial_flashD(1) [OF assms]
  obtain s2 ds where
    r: "read_bytes ans (unat len) ?s = (memory_at (chip f0 ?s) addr (unat len), s2)" "chip f0 s2 = (chip f0 ?s)\<lparr>fl_cur := ?pre @ ds\<rparr>"
    by (auto simp: memory_at_def)
  have m: "memory_at (chip f0 ?s) addr (unat len) = memory_at (chip f0 s) addr (unat len)" using s1(2) by (simp add: memory_at_def)
  show thesis
  proof (rule that)
    show "spiRead ans addr len s = Some (memory_at (chip f0 s) addr (unat len), SpiDeselectCS0 s2)"
      using s1 r(1) m by (simp add: spiRead_def Let_def)
    show "chip f0 (SpiDeselectCS0 s2) = (chip f0 s)\<lparr>fl_cur := []\<rparr>" using r(2) s1(2) by simp
  qed
qed

lemma spiReadFast_ok:
  assumes "serial_flash N f0 ans"
  obtains s' where "spiReadFast ans addr len s = Some (memory_at (chip f0 s) addr (unat len), s')"
    "chip f0 s' = (chip f0 s)\<lparr>fl_cur := []\<rparr>"
proof -
  obtain s1 where s1: "spiCheckBusy ans s = Some s1" "chip f0 s1 = (chip f0 s)\<lparr>fl_cur := []\<rparr>"
    using spiCheckBusy_returns [OF assms] .
  let ?s = "transit ans 8 0xff (transit ans 24 addr (transit ans 8 0x0b (SpiSelectCS0 s1)))"
    and ?pre = "[(8, 0x0b), (24, addr), (8, 0xff)]"
  have "fl_cur (chip f0 ?s) = ?pre @ []" using s1(2) by simp
  from read_bytes_ok [where pre = ?pre and a = "addr24 addr", OF _ this refl, of ans "unat len"] serial_flashD(2) [OF assms]
  obtain s2 ds where
    r: "read_bytes ans (unat len) ?s = (memory_at (chip f0 ?s) addr (unat len), s2)" "chip f0 s2 = (chip f0 ?s)\<lparr>fl_cur := ?pre @ ds\<rparr>"
    by (auto simp: memory_at_def)
  have m: "memory_at (chip f0 ?s) addr (unat len) = memory_at (chip f0 s) addr (unat len)" using s1(2) by (simp add: memory_at_def)
  show thesis
  proof (rule that)
    show "spiReadFast ans addr len s = Some (memory_at (chip f0 s) addr (unat len), SpiDeselectCS0 s2)"
      using s1 r(1) m by (simp add: spiReadFast_def Let_def)
    show "chip f0 (SpiDeselectCS0 s2) = (chip f0 s)\<lparr>fl_cur := []\<rparr>" using r(2) s1(2) by simp
  qed
qed

text \<open>The two reading functions deliver the same bytes.\<close>

lemma spiReadFast_same:
  assumes "serial_flash N f0 ans"
  shows "map_option fst (spiReadFast ans addr len s) = map_option fst (spiRead ans addr len s)"
  using spiRead_ok [OF assms, of addr len s] spiReadFast_ok [OF assms, of addr len s] by (metis fst_conv option.simps(9))

subsection \<open>Writing\<close>

lemma wire_halfword: "wire_bytes (16, ucast (Swap16 (halfword lo hi))) = [lo, hi]"
proof -
  have a: "ucast (drop_bit 8 (ucast (Swap16 (halfword lo hi)) :: 32 word)) = lo"
    by (rule bit_word_eqI)
      (auto simp: Swap16_def halfword_def bit_simps not_le)
  have b: "ucast (ucast (Swap16 (halfword lo hi)) :: 32 word) = hi"
    by (rule bit_word_eqI)
      (auto simp: Swap16_def halfword_def bit_simps not_le dest: bit_imp_le_length)
  show ?thesis by (simp add: wire_bytes_def a b)
qed

lemma write_data_ok:
  assumes "2 * n \<le> length buf"
  shows "\<exists>s' ds. write_data ans n buf s = Inr (drop (2 * n) buf, s') \<and>
    chip f0 s' = (chip f0 s)\<lparr>fl_cur := fl_cur (chip f0 s) @ ds\<rparr> \<and> concat (map wire_bytes ds) = take (2 * n) buf"
  using assms
proof (induction n arbitrary: buf s)
  case 0
  then show ?case by (intro exI [of _ s] exI [of _ "[]"]) simp
next
  case (Suc n)
  then obtain lo hi rest where b: "buf = lo # hi # rest" by (cases buf; cases "tl buf") auto
  let ?s = "transit ans 16 (ucast (Swap16 (halfword lo hi))) s"
  obtain s' ds where *: "write_data ans n rest ?s = Inr (drop (2 * n) rest, s')"
    "chip f0 s' = (chip f0 ?s)\<lparr>fl_cur := fl_cur (chip f0 ?s) @ ds\<rparr>" "concat (map wire_bytes ds) = take (2 * n) rest"
    using Suc.IH [of rest ?s] Suc.prems b by auto
  show ?case
    using * b by (intro exI [of _ s'] exI [of _ "(16, ucast (Swap16 (halfword lo hi))) # ds"]) (simp add: wire_halfword)
qed

lemma map_of_rev_distinct:
  assumes "distinct (map fst xs)"
  shows "map_of (rev xs) = map_of xs"
proof
  fix k
  have "distinct (map fst (rev xs))" using assms by (simp flip: rev_map)
  then have "map_of (rev xs) k = Some v \<longleftrightarrow> map_of xs k = Some v" for v using assms by (simp add: map_of_eq_Some_iff)
  then show "map_of (rev xs) k = map_of xs k" by (cases "map_of xs k"; cases "map_of (rev xs) k") auto
qed

lemma page_latch_aligned:
  assumes "a mod 256 = 0" "length vs \<le> 256" "j < 256"
  shows "page_latch a vs j = (if j < length vs then Some (vs ! j) else None)"
proof -
  have k: "map (\<lambda>k. (a + k) mod 256) [0..<length vs] = [0..<length vs]"
    using assms(1,2) by (intro map_idI) (auto simp: mod_add_left_eq [of a, symmetric])
  have "map_of (zip [0..<length vs] vs) j = (if j < length vs then Some (vs ! j) else None)"
    using map_of_zip_map [of "[0..<length vs]" "(!) vs"] by (simp add: map_nth)
  moreover have "distinct (map fst (zip [0..<length vs] vs))" by simp
  ultimately show ?thesis unfolding page_latch_def k by (simp add: map_of_rev_distinct)
qed

text \<open>The memory with the bits of \<open>vs\<close> cleared from the address \<open>a\<close> on.\<close>

definition written :: "nat \<Rightarrow> bytes \<Rightarrow> (nat \<Rightarrow> 8 word) \<Rightarrow> nat \<Rightarrow> 8 word" where
  "written a vs m = (\<lambda>x. if a \<le> x \<and> x < a + length vs then m x AND vs ! (x - a) else m x)"

lemma written_Nil [simp]: "written a [] m = m"
  by (auto simp: written_def fun_eq_iff)

lemma written_append: "written (a + length us) vs (written a us m) = written a (us @ vs) m"
  by (auto simp: written_def nth_append fun_eq_iff)

lemma program_aligned:
  assumes "a mod 256 = 0" "length vs \<le> 256"
  shows "program a vs m = written a vs m"
proof
  fix x
  obtain q where q: "a = 256 * q" using assms(1) by auto
  have "x div 256 = a div 256 \<longleftrightarrow> a \<le> x \<and> x < a + 256"
  proof
    assume "x div 256 = a div 256"
    then have "x = 256 * q + x mod 256" using mult_div_mod_eq [of 256 x] q by simp
    then show "a \<le> x \<and> x < a + 256" using q mod_less_divisor [of 256 x] by linarith
  next
    assume "a \<le> x \<and> x < a + 256"
    then have "x div 256 = q" using q by (intro div_nat_eqI) auto
    then show "x div 256 = a div 256" using q by simp
  qed
  moreover have "x mod 256 = x - a" if x: "a \<le> x" "x < a + 256"
  proof -
    have "x = 256 * q + (x - a)" using x q by simp
    then have "x mod 256 = (256 * q + (x - a)) mod 256" by simp
    also have "\<dots> = x - a" using x by (simp only: mod_mult_self4) simp
    finally show ?thesis .
  qed
  ultimately show "program a vs m x = written a vs m x"
    using page_latch_aligned [OF assms] assms(2) by (auto simp: program_def written_def)
qed

lemma addr24_page:
  assumes "unat addr + 256 * i < 16777216"
  shows "addr24 (addr + of_nat i * 256) = unat addr + 256 * i"
proof -
  have "addr + of_nat i * 256 = of_nat (unat addr + 256 * i)" by (simp add: mult.commute)
  then have "unat (addr + of_nat i * 256) = unat addr + 256 * i"
    using assms by (simp only: unat_of_nat) (simp add: take_bit_nat_eq_self_iff)
  then show ?thesis using assms by (simp add: addr24_def)
qed

text \<open>One page.\<close>

lemma write_page_ok:
  assumes "serial_flash N f0 ans" "unat addr mod 256 = 0" "unat addr + 256 * i < 16777216" "2 * n \<le> length buf" "n \<le> 128"
  shows "\<exists>s1 s'.
    write_data ans n buf (transit ans 24 (addr + of_nat i * 256) (transit ans 8 0x02 (SpiSelectCS0 (spiWriteEnable ans s)))) =
       Inr (drop (2 * n) buf, s1) \<and>
    spiCheckBusy ans (SpiDeselectCS0 s1) = Some s' \<and>
    fl_mem (chip f0 s') = written (unat addr + 256 * i) (take (2 * n) buf) (fl_mem (chip f0 s))"
proof -
  let ?a = "addr + of_nat i * 256"
  let ?s = "transit ans 24 ?a (transit ans 8 0x02 (SpiSelectCS0 (spiWriteEnable ans s)))"
  obtain s1 ds where s1: "write_data ans n buf ?s = Inr (drop (2 * n) buf, s1)"
    "chip f0 s1 = (chip f0 ?s)\<lparr>fl_cur := fl_cur (chip f0 ?s) @ ds\<rparr>" "concat (map wire_bytes ds) = take (2 * n) buf"
    using write_data_ok [OF assms(4)] by blast
  obtain s' where s': "spiCheckBusy ans (SpiDeselectCS0 s1) = Some s'"
    "chip f0 s' = (chip f0 (SpiDeselectCS0 s1))\<lparr>fl_cur := []\<rparr>" using spiCheckBusy_returns [OF assms(1)] .
  have "program (addr24 ?a) (take (2 * n) buf) (fl_mem (chip f0 s)) =
      written (unat addr + 256 * i) (take (2 * n) buf) (fl_mem (chip f0 s))"
    unfolding addr24_page [OF assms(3)] using assms(2,5) by (intro program_aligned) (auto simp: mod_add_eq)
  then have "fl_mem (chip f0 s') = written (unat addr + 256 * i) (take (2 * n) buf) (fl_mem (chip f0 s))"
    using s1(2,3) s'(2) by simp
  with s1(1) s'(1) show ?thesis by blast
qed

lemma unat_sub_256: "256 \<le> (len :: 32 word) \<Longrightarrow> unat (len - 256) = unat len - 256"
  by (simp add: unat_sub)

lemma mod2_minus_256: "256 \<le> (k :: nat) \<Longrightarrow> (k - 256) mod 2 = k mod 2"
proof -
  assume "256 \<le> k"
  then have "k = 2 * 128 + (k - 256)" by simp
  then have "k mod 2 = (2 * 128 + (k - 256)) mod 2" by (rule arg_cong)
  then show ?thesis by (simp only: mod_mult_self4)
qed

lemma write_pages_ok:
  assumes "serial_flash N f0 ans" "unat addr mod 256 = 0" "unat addr + 256 * i + unat len \<le> 16777216" "unat len \<le> length buf"
  shows "\<exists>s'. write_pages ans addr i (page_count len) len buf s = Some (Inr s') \<and>
    fl_mem (chip f0 s') = written (unat addr + 256 * i) (take (unat len - unat len mod 2) buf) (fl_mem (chip f0 s))"
  using assms(3,4)
proof (induction "unat len" arbitrary: len i buf s rule: less_induct)
  case less
  show ?case
  proof (cases "256 \<le> len")
    case True
    then have l: "256 \<le> unat len" by (simp add: word_le_nat_alt)
    have l': "unat (len - 256) = unat len - 256" by (rule unat_sub_256 [OF True])
    have pc: "page_count len = Suc (page_count (len - 256))" using l by (simp add: page_count_def l' le_div_geq le_mod_geq)
    have "unat addr + 256 * i < 16777216" "2 * 128 \<le> length buf" using less.prems l by simp_all
    from write_page_ok [OF assms(1,2) this order.refl] obtain s1 s2 where
      p: "write_data ans 128 buf (transit ans 24 (addr + of_nat i * 256) (transit ans 8 0x02 (SpiSelectCS0 (spiWriteEnable ans s)))) =
          Inr (drop (2 * 128) buf, s1)" "spiCheckBusy ans (SpiDeselectCS0 s1) = Some s2"
        "fl_mem (chip f0 s2) = written (unat addr + 256 * i) (take (2 * 128) buf) (fl_mem (chip f0 s))" by blast
    have "unat addr + 256 * Suc i + unat (len - 256) \<le> 16777216" "unat (len - 256) \<le> length (drop 256 buf)"
      using less.prems l by (simp_all add: l')
    moreover have "unat (len - 256) < unat len" using l by (simp add: l')
    moreover have m: "(unat len - 256) mod 2 = unat len mod 2" using l by (rule mod2_minus_256)
    ultimately obtain s' where
      r: "write_pages ans addr (Suc i) (page_count (len - 256)) (len - 256) (drop 256 buf) s2 = Some (Inr s')"
        "fl_mem (chip f0 s') = written (unat addr + 256 * Suc i) (take (unat len - 256 - unat len mod 2) (drop 256 buf)) (fl_mem (chip f0 s2))"
      using less.hyps [of "len - 256" "Suc i" "drop 256 buf" s2] unfolding l' m by blast
    have "take 256 buf @ take (unat len - 256 - unat len mod 2) (drop 256 buf) = take (unat len - unat len mod 2) buf"
    proof -
      have "unat len mod 2 \<le> unat len - 256" using m mod_less_eq_dividend [of "unat len - 256" 2] by simp
      then have "256 + (unat len - 256 - unat len mod 2) = unat len - unat len mod 2" using l by linarith
      then show ?thesis by (simp only: take_add [symmetric])
    qed
    moreover have "length (take 256 buf) = 256" using less.prems l by simp
    ultimately have "fl_mem (chip f0 s') = written (unat addr + 256 * i) (take (unat len - unat len mod 2) buf) (fl_mem (chip f0 s))"
      using written_append [of "unat addr + 256 * i" "take 256 buf" "take (unat len - 256 - unat len mod 2) (drop 256 buf)"] r(2) p(3)
      by (simp add: add.commute add.left_commute)
    then show ?thesis using True r(1) p(1,2) by (simp add: pc Let_def)
  next
    case False
    then have l: "unat len < 256" by (simp add: word_le_nat_alt)
    show ?thesis
    proof (cases "unat len = 0")
      case True
      then show ?thesis by (simp add: page_count_def)
    next
      case pos: False
      then have pc: "page_count len = Suc 0" using l by (simp add: page_count_def)
      have n: "2 * (unat len div 2) = unat len - unat len mod 2" by (simp add: minus_mod_eq_mult_div)
      have "unat addr + 256 * i < 16777216" "2 * (unat len div 2) \<le> length buf" "unat len div 2 \<le> 128" using less.prems l pos by auto
      from write_page_ok [OF assms(1,2) this] obtain s1 s2 where
        p: "write_data ans (unat len div 2) buf (transit ans 24 (addr + of_nat i * 256) (transit ans 8 0x02 (SpiSelectCS0 (spiWriteEnable ans s)))) =
            Inr (drop (2 * (unat len div 2)) buf, s1)" "spiCheckBusy ans (SpiDeselectCS0 s1) = Some s2"
          "fl_mem (chip f0 s2) = written (unat addr + 256 * i) (take (2 * (unat len div 2)) buf) (fl_mem (chip f0 s))" by blast
      then show ?thesis using False by (simp add: pc Let_def n)
    qed
  qed
qed

lemma spiWrite_ok:
  assumes "serial_flash N f0 ans" "unat addr mod 256 = 0" "unat addr + unat len \<le> 16777216" "unat len \<le> length buf"
  shows "\<exists>s'. spiWrite ans addr len buf s = Some (Inr s') \<and>
    fl_mem (chip f0 s') = written (unat addr) (take (unat len - unat len mod 2) buf) (fl_mem (chip f0 s))"
proof -
  obtain s1 where s1: "spiCheckBusy ans s = Some s1" "chip f0 s1 = (chip f0 s)\<lparr>fl_cur := []\<rparr>"
    using spiCheckBusy_returns [OF assms(1)] .
  show ?thesis using write_pages_ok [OF assms(1,2), of 0 len buf s1] assms(3,4) s1 by (simp add: spiWrite_def)
qed

lemma and_ff [simp]: "255 AND v = (v :: 8 word)"
proof -
  have "(255 :: 8 word) = - 1" by simp
  then show ?thesis by (simp only: and.left_neutral)
qed

subsection \<open>Erasing\<close>

text \<open>
  Every round erases the block of 64 kilobytes that its address lies in; the addresses are only 256
  bytes apart.
\<close>

lemma erase_sectors_ok:
  assumes "serial_flash N f0 ans" "unat addr + 256 * (i + n) \<le> 16777216"
  shows "\<exists>s'. erase_sectors ans addr i n s = Some s' \<and>
    fl_mem (chip f0 s') = fold (\<lambda>j. erase_block (unat addr + 256 * j)) [i..<i + n] (fl_mem (chip f0 s))"
  using assms(2)
proof (induction n arbitrary: i s)
  case 0
  then show ?case by simp
next
  case (Suc n)
  let ?s = "transit ans 24 (addr + of_nat i * 256) (transit ans 8 0xd8 (SpiSelectCS0 (spiWriteEnable ans s)))"
  obtain s1 where s1: "spiCheckBusy ans (SpiDeselectCS0 ?s) = Some s1"
    "chip f0 s1 = (chip f0 (SpiDeselectCS0 ?s))\<lparr>fl_cur := []\<rparr>" using spiCheckBusy_returns [OF assms(1)] .
  have "unat addr + 256 * i < 16777216" using Suc.prems by simp
  then have "fl_mem (chip f0 s1) = erase_block (unat addr + 256 * i) (fl_mem (chip f0 s))"
    using s1(2) by (simp add: addr24_page)
  moreover obtain s' where "erase_sectors ans addr (Suc i) n s1 = Some s'"
    "fl_mem (chip f0 s') = fold (\<lambda>j. erase_block (unat addr + 256 * j)) [Suc i..<Suc i + n] (fl_mem (chip f0 s1))"
    using Suc.IH [of "Suc i" s1] Suc.prems by auto
  moreover have "[i..<i + Suc n] = i # [Suc i..<Suc i + n]" by (simp add: upt_conv_Cons)
  ultimately show ?case using s1(1) by (simp add: Let_def del: upt_Suc)
qed

lemma fold_erase_same_block:
  assumes "\<forall>j \<in> set js. (a + 256 * j) div 65536 = b" "js \<noteq> []"
  shows "fold (\<lambda>j. erase_block (a + 256 * j)) js m = (\<lambda>x. if x div 65536 = b then 255 else m x)"
  using assms
proof (induction js arbitrary: m)
  case (Cons j js)
  then show ?case by (cases js) (auto simp: erase_block_def fun_eq_iff)
qed simp

lemma spiEraseSector_ok:
  assumes "serial_flash N f0 ans" "unat addr + 256 * unat n \<le> 16777216" "0 < unat n" "unat addr mod 65536 + 256 * unat n \<le> 65536"
  shows "\<exists>s'. spiEraseSector ans addr n s = Some s' \<and>
    fl_mem (chip f0 s') = (\<lambda>x. if x div 65536 = unat addr div 65536 then 255 else fl_mem (chip f0 s) x)"
proof -
  obtain s1 where s1: "spiCheckBusy ans s = Some s1" "chip f0 s1 = (chip f0 s)\<lparr>fl_cur := []\<rparr>"
    using spiCheckBusy_returns [OF assms(1)] .
  have "(unat addr + 256 * j) div 65536 = unat addr div 65536" if "j < unat n" for j
  proof (rule div_nat_eqI)
    show "65536 * (unat addr div 65536) \<le> unat addr + 256 * j" using mult_div_mod_eq [of 65536 "unat addr"] by linarith
    have "256 * j < 256 * unat n" using that by simp
    then show "unat addr + 256 * j < 65536 * Suc (unat addr div 65536)"
      unfolding mult_Suc_right using mult_div_mod_eq [of 65536 "unat addr"] assms(4) by linarith
  qed
  then have "fold (\<lambda>j. erase_block (unat addr + 256 * j)) [0..<unat n] (fl_mem (chip f0 s)) =
      (\<lambda>x. if x div 65536 = unat addr div 65536 then 255 else fl_mem (chip f0 s) x)"
    using assms(3) by (intro fold_erase_same_block) auto
  then show ?thesis using erase_sectors_ok [OF assms(1), of addr 0 "unat n" s1] assms(2) s1 by (auto simp: spiEraseSector_def)
qed

subsection \<open>Properties\<close>

text \<open>A chip that follows the requests, for the examples.\<close>

definition flash_empty :: flash where
  "flash_empty = \<lparr>fl_mem = \<lambda>_. 0, fl_wel = False, fl_cur = []\<rparr>"

definition sim_ans :: "flash \<Rightarrow> answers" where
  "sim_ans f0 h =
     (let f = flash_of f0 h; c = fl_cur f in
      if 3 \<le> length c \<and> c ! 0 = (8, 0x03) then ucast (fl_mem f ((addr24 (snd (c ! 1)) + (length c - 2) - 1) mod 16777216))
      else if 4 \<le> length c \<and> c ! 0 = (8, 0x0b) then ucast (fl_mem f ((addr24 (snd (c ! 1)) + (length c - 3) - 1) mod 16777216))
      else 0)"

lemma ucast_byte: "ucast (ucast (v :: 8 word) AND 0xff :: 32 word) = v"
proof -
  have m: "(0xff :: 32 word) = mask 8" by (simp add: mask_eq_exp_minus_1)
  show ?thesis unfolding m by (rule bit_word_eqI) (auto simp: bit_simps)
qed

lemma sim_ans_flash: "serial_flash 0 f0 (sim_ans f0)"
  unfolding serial_flash_def
proof (intro conjI allI impI; elim conjE)
  fix h a and ds :: "(nat \<times> 32 word) list"
  assume "fl_cur (flash_of f0 h) = (8, 0x03) # (24, a) # ds" "ds \<noteq> []"
  then show "ucast (sim_ans f0 h AND 0xff) = fl_mem (flash_of f0 h) ((addr24 a + length ds - 1) mod 16777216)"
    by (cases ds) (simp_all add: sim_ans_def Let_def ucast_byte)
next
  fix h a d and ds :: "(nat \<times> 32 word) list"
  assume "fl_cur (flash_of f0 h) = (8, 0x0b) # (24, a) # d # ds" "ds \<noteq> []"
  then show "ucast (sim_ans f0 h AND 0xff) = fl_mem (flash_of f0 h) ((addr24 a + length ds - 1) mod 16777216)"
    by (cases ds) (simp_all add: sim_ans_def Let_def ucast_byte)
next
  fix h and ds :: "(nat \<times> 32 word) list"
  assume "fl_cur (flash_of f0 h) = (8, 0x05) # ds"
  then show "sim_ans f0 h AND 1 = 0" by (simp add: sim_ans_def Let_def)
qed

definition spi0 :: spi where
  "spi0 = \<lparr>hist = [], gd_write = 0, gd_read = 0, gd_bits = 0\<rparr>"





end
