(* ===== verification/Spec2Isabelle.thy ===== *)
theory Spec2Isabelle
  imports TsConfig RawEvents GalaxRaw DmcRaw TouchKit TsTest HidGadget MnWriter MotionThreads VinDemo
    TsPrint Harvest SerialLoop Rtc Gpio Webcam JpegResize Blt Cy8mrln Bma220 SpiFlash
begin

text \<open>
  Verification of the N32905 Linux applications.

  \<^bold>\<open>The programs.\<close> The repository holds the applications of a board support package: the touch
  screen library tslib with its filter and raw modules and its calibration and test programs
  (src/tslib-1.1), a camera program (src/videoin_HW), a writer for NAND flash (src/mtdnand), a motion
  sensor service (src/msensor), a USB HID gadget demo (src/hid_gadget_test), a webcam program
  (src/webcam_demo), demos of devices (src/serial_loop, src/rtc, src/gpio, src/jpeg_codec and
  others), and vendored packages (busybox, alsa-utils, libjpeg). What is modelled is the code of the board
  and tslib.

  \<^bold>\<open>Conventions.\<close> The target is a 32-bit ARM. A signed C integer is an \<open>int\<close> with the wrap-around
  \<open>s32\<close> written out, an unsigned one a word. A fault (null or wild pointer, index out of range, division
  by zero, overflow of a conversion) is a value of the type \<open>fault\<close>, so that safety is part of what the
  theorems say. Error codes are values of the results. What is outside the sources, the kernel, the C
  library's files, drivers and hardware, is an argument: a list of answers, or a function of the history
  that may answer anything; what a theorem needs of it is one of its hypotheses. Loops that may run for
  ever are partial functions into \<open>option\<close>; other loops are functions with a measure. The walks through
  the pointer lists of tslib (\<open>chain_read\<close>, \<open>attach_raw_loop\<close>, \<open>close_loop\<close>) have fuel, which is the depth
  of the stack or the number of steps: the theorems hold for every fuel that is at least the length of
  the list, so that it is enough for every list without a cycle, and running out of it is a fault. The
  measurement of a touch has a number of rounds, which the theorems bound by the samples of the touch.

  \<^bold>\<open>Theories and sources.\<close>

  \<^item> TsPrelude: 32-bit arithmetic, faults, arrays and copies in them, the automation collections.
    CString: the string functions of the C library that the sources call, and printing of numbers.
  \<^item> TsTypes: the structs of tslib.h and tslib-private.h, and the locale \<open>ts_source\<close>, the contract of a
    module: a read changes no more samples than it reports and keeps the invariant of the module. It is
    interpreted by the raw modules and used by the filters and by the chain.
  \<^item> TsParseVars (src/ts_parse_vars.c): the options of a module.
  \<^item> Pthres, Dejitter, Variance, Linear, LinearH2200 (plugins/): the filters. Each has its in-place loop as
    the code has it, a list function or state machine that says what it computes, and the refinement of
    the one by the other; the ring buffer of Dejitter and the flag word of Variance are abstracted there.
    Linear reads the calibration file; LinearH2200 bounds the error of the fixed point arithmetic.
  \<^item> InputRaw, RawEvents, GalaxRaw, DmcRaw, TouchKit (plugins/): the raw modules, over the answers of the
    kernel or the bytes of the line: which samples a stream of events gives, and what is lost. Termios has the
    settings of a serial line, which the last two and the serial loop test make.
    Cy8mrln (plugins/cy8mrln-palmpre.c): the module that computes positions from the field of a capacitive
    panel, with its sleep and wake machine; the samples are a history of a pen, and a position is near the
    peak. The rounding of floating point is an argument.
  \<^item> TsChain (tslib-filter.h, ts_read.c, ts_read_raw.c): a read runs down the list of module blocks on the
    heap; it is safe for every well-formed list. TsConfig (ts_config.c, ts_load_module.c, ts_attach.c,
    ts_open.c, ts_close.c, ts_option.c, ts_fd.c): the list is built from ts.conf and released again.
  \<^item> Calibrate, CalibFit, CalProgram (tests/ts_calibrate.c, testutils.c): the measurement of a touch, the
    least-squares fit, and the program; CalibFit follows a coordinate from the fit through the
    calibration file and the linear filter to the application.
  \<^item> Font8x8, Framebuffer, FbDevice (tests/font_8x8.c, fbutils.c): every routine draws a list of dots;
    the locale \<open>commuting_involutions\<close> gives that drawing in XORMODE is undone by drawing again.
    TsTest (tests/ts_test.c): the program refines an abstract machine of its buttons and modes.
  \<^item> Harvest (tests/ts_harvest.c): the loops over the grid of crosses satisfy the locale \<open>grid_loop\<close>, which
    gives their end and the points they visit; both loops interpret it. TsPrint (tests/ts_print.c,
    ts_print_raw.c): the programs that print samples.
  \<^item> HidGadget (src/hid_gadget_test/main.c): lines of text to HID reports.
  \<^item> IniFile, MnIni, MnWriter (src/mtdnand/mn_writer/src): the line reader with its locale \<open>ini_parser\<close>,
    interpreted by both parsers, the round trips of the two file formats, and the program with the
    system block and the table of images it writes.
  \<^item> Motion, MotionThreads (src/msensor/motion.c): the detectors, the service, and its threads as a step
    relation with the mutex. Bma220 (src/msensor/bma220.c, msensor_demo.c): the tests of the sensor, the log
    file and the menu of the demo, over the attribute files of Motion.
  \<^item> Exif, Dsc, V4L, JpegEnc, VinDemo (src/videoin_HW): the EXIF header and its reader, the numbering of the
    pictures, the capture device, the encoder, and the camera program over them.
  \<^item> Webcam (src/webcam_demo/cam_lib.c and parts of webcam.c and JpegDec.c): the capture library, where the
    buffers lie, and the writing of pictures. JpegHeader, JpegDemo, JpegWindow,
    JpegResize (src/jpeg_codec/jpeg_demo.c): the reader of JPEG headers, the decoding and encoding of files, the decodes
    with a window and with input wait, the resizing and the menu, over an engine that is a function of the requests.
    Blt (src/blt/blt_demo.c): the clipping and the animation of the blitter demo, with its frames as a step
    relation.
  \<^item> SerialLoop (src/serial_loop/serial_loop.c), Rtc (src/rtc/rtc.c), Gpio (src/gpio/gpio.c): the loop-back test,
    the clock tests with their alarm arithmetic and menu, and the tests of a pin.
  \<^item> SpiFlash (src/spi/spi.c): the commands of a serial flash over a bus that answers as a function of its
    history. A model of the memory behind the bus says what the commands do; \<open>serial_flash\<close> is the
    hypothesis that the answers are those of such a memory, which is busy for a bounded time.

  \<^bold>\<open>What is shown.\<close> Safety of the reads through the module chain and of all drawing; refinement of the
  filters, of the parsers, of the zoom and of the test program by their specifications; round trips of
  options, configuration files, the EXIF and JPEG headers and the framebuffer device; the behaviour of whole
  programs from their input to their output (calibration, test and harvesting program, NAND writer, HID
  gadget, motion service, camera, serial loop test); invariants of the images in flash, of the framebuffer
  geometry, of the blits, of the mutex and of the panel under the menu of the codec demo; termination of the
  search for a free picture name, of the loops over the grid of crosses and of the moving window of the codec
  demo. Theorems also state where the code goes wrong: lost releases, alarms that are refused, a cycle in the
  list of raw modules, a deadlock of the motion service, arrays that overflow, files that are cut short.

  \<^bold>\<open>Not modelled.\<close> busybox, alsa-utils and libjpeg, which are vendored packages. Of the camera program the
  OSD functions, which are never called, the signal handler and the creation of the folder; of the webcam program
  the set-up in main and the constant parameters of the decoder. Signal handlers of the other programs. The other demos are
  menus around single requests of a driver or register accesses, with nothing to compute. Printing is left
  out where it is not the result of a program, and so is the time that functions sleep.
\<close>

end
